(* ===== verification/MemPlan.thy ===== *)
theory MemPlan
  imports Prelude
begin

text \<open>
  Memory sizing shared by the agent and the planner (\<^verbatim>\<open>internal/memplan/memplan.go\<close>) and the
  agent's use of it (\<^verbatim>\<open>node-agent/sizing.go\<close>).

  \<open>int64\<close> and \<open>int\<close> values are \<open>int\<close>; \<open>need_bytes_int64\<close> below bounds the arithmetic for
  every model and context the controller accepts, so that no wrap-around occurs.  The two
  floating-point factors are exact on the inputs of the code: the cache element sizes 2 and
  1.0625 = 17/16 are dyadic (products below \<open>2^53\<close> are exact), and
  \<open>int64(float64(sparse)*0.10)\<close> is \<open>sparse div 10\<close> for every file below \<open>2^49\<close> bytes: the
  constant is slightly above 1/10, the rounded product is off by less than 1/100 and never
  falls below a representable integer, so truncation gives the same integer.
\<close>

definition MinCtx :: int where
  "MinCtx = 4096"

definition mib :: int where
  "mib = 1048576"

definition ResidentWeightBytes :: "int \<Rightarrow> int \<Rightarrow> int \<times> int" where
  "ResidentWeightBytes fileSize residentBytes =
     (if residentBytes \<le> 0 \<or> residentBytes > fileSize then (fileSize, 0)
      else (residentBytes, fileSize - residentBytes))"

record shape =
  s_Layers :: int
  s_KVHeads :: int
  s_HeadDim :: int

text \<open>\<open>BytesPerElement\<close> in sixteenths of a byte: 17 for \<open>q8_0\<close>, 32 for \<open>f16\<close>.\<close>

definition BytesPerElement16 :: "string \<Rightarrow> int" where
  "BytesPerElement16 kvType = (if kvType = ''q8_0'' then 17 else 32)"

text \<open>Truncation of a quotient toward zero, as Go's conversion to \<open>int64\<close> does.\<close>

definition trunc_div :: "int \<Rightarrow> int \<Rightarrow> int" where
  "trunc_div a b = sgn a * sgn b * (\<bar>a\<bar> div \<bar>b\<bar>)"

definition BytesPerToken :: "shape \<Rightarrow> string \<Rightarrow> int" where
  "BytesPerToken sh kvType =
     trunc_div (2 * s_Layers sh * s_KVHeads sh * s_HeadDim sh * BytesPerElement16 kvType) 16"

definition NeedBytes :: "int \<Rightarrow> int \<Rightarrow> int \<Rightarrow> int \<Rightarrow> shape \<Rightarrow> string \<Rightarrow> int" where
  "NeedBytes fileSize residentBytes ctx slots sh kvType =
     (let (resident, sparse) = ResidentWeightBytes fileSize residentBytes
      in resident + trunc_div sparse 10 + slots * ctx * BytesPerToken sh kvType + 150 * mib)"

definition KVCandidates :: "string \<Rightarrow> string list" where
  "KVCandidates kvType = (if kvType = ''f16'' \<or> kvType = ''q8_0'' then [kvType] else [''f16'', ''q8_0''])"

record plan_result =
  pr_Ctx :: int
  pr_Slots :: int
  pr_KV :: string
  pr_Need :: int
  pr_Fits :: bool

text \<open>
  The closure \<open>try\<close> of \<open>Plan\<close>, with the requirement as a function of the cache type:
  the first cache type that fits the budget, with what it needs.
\<close>

fun try_kv :: "(string \<Rightarrow> int) \<Rightarrow> int \<Rightarrow> string list \<Rightarrow> (string \<times> int) option" where
  "try_kv need budget [] = None"
| "try_kv need budget (kv # kvs) =
     (if need kv \<le> budget then Some (kv, need kv) else try_kv need budget kvs)"

text \<open>The loop that halves the context: \<open>Inl\<close> is the context it ends with, \<open>Inr\<close> a fit.\<close>

function halve_loop :: "(int \<Rightarrow> (string \<times> int) option) \<Rightarrow> int \<Rightarrow> int + (int \<times> string \<times> int)" where
  "halve_loop try ctx =
     (if ctx > MinCtx then
        (let ctx' = (let c = ctx div 2 in if c < MinCtx then MinCtx else c) in
         case try ctx' of
           Some (kv, need) \<Rightarrow> Inr (ctx', kv, need)
         | None \<Rightarrow> halve_loop try ctx')
      else Inl ctx)"
  by pat_completeness auto
termination
  by (relation "measure (\<lambda>(try, ctx). nat ctx)") (auto simp: MinCtx_def Let_def split: if_splits)

declare halve_loop.simps [simp del]

definition plan_mem :: "int \<Rightarrow> int \<Rightarrow> shape \<Rightarrow> int \<Rightarrow> int \<Rightarrow> string \<Rightarrow> int \<Rightarrow> plan_result" where
  "plan_mem fileSize residentBytes sh ctx0 slots0 kvType budget =
     (let ctx = (if ctx0 \<le> 0 then MinCtx else ctx0);
          slots = (if slots0 \<le> 0 then 1 else slots0);
          kvs = KVCandidates kvType;
          try = (\<lambda>slots ctx. try_kv (NeedBytes fileSize residentBytes ctx slots sh) budget kvs);
          fit = (\<lambda>ctx slots kv need. \<lparr>pr_Ctx = ctx, pr_Slots = slots, pr_KV = kv, pr_Need = need, pr_Fits = True\<rparr>)
      in case try slots ctx of
           Some (kv, need) \<Rightarrow> fit ctx slots kv need
         | None \<Rightarrow>
             (case halve_loop (try slots) ctx of
                Inr (ctx', kv, need) \<Rightarrow> fit ctx' slots kv need
              | Inl ctx' \<Rightarrow>
                  (let no_fit = (\<lambda>slots. \<lparr>pr_Ctx = ctx', pr_Slots = slots, pr_KV = last kvs,
                         pr_Need = NeedBytes fileSize residentBytes ctx' slots sh (last kvs), pr_Fits = False\<rparr>)
                   in if slots > 1 then
                        (case try 1 ctx' of Some (kv, need) \<Rightarrow> fit ctx' 1 kv need | None \<Rightarrow> no_fit 1)
                      else no_fit slots)))"

subsection \<open>The agent's sizing\<close>

record sizing_request =
  sr_FileSizeBytes :: int
  sr_ResidentBytes :: int
  sr_Shape :: shape
  sr_CtxSize :: int
  sr_Slots :: int
  sr_KVType :: string
  sr_BudgetBytes :: int

record sizing_plan =
  sp_CtxSize :: int
  sp_Slots :: int
  sp_KVType :: string
  sp_RAMEstimateBytes :: int

text \<open>\<open>int64(x)\<close> of a \<open>uint64\<close>: two's complement reading; the sum then wraps at 64 bits.\<close>

definition MemoryBudget :: "64 word \<Rightarrow> 64 word \<Rightarrow> 64 word \<Rightarrow> 64 word" where
  "MemoryBudget availBytes currentServerRssAnonBytes reserveBytes =
     availBytes + currentServerRssAnonBytes - reserveBytes"

datatype sizing_error = NeedsMiB int int

text \<open>\<open>PlanMemory\<close>: the error carries the two numbers of its message, in MiB.\<close>

definition PlanMemory :: "sizing_request \<Rightarrow> sizing_error + sizing_plan" where
  "PlanMemory req =
     (let r = plan_mem (sr_FileSizeBytes req) (sr_ResidentBytes req) (sr_Shape req) (sr_CtxSize req)
                (sr_Slots req) (sr_KVType req) (sr_BudgetBytes req)
      in if \<not> pr_Fits r then Inl (NeedsMiB (trunc_div (pr_Need r) mib) (trunc_div (sr_BudgetBytes req) mib))
         else Inr \<lparr>sp_CtxSize = pr_Ctx r, sp_Slots = pr_Slots r, sp_KVType = pr_KV r, sp_RAMEstimateBytes = pr_Need r\<rparr>)"

subsection \<open>Arithmetic of the requirement\<close>

definition shape_ok :: "shape \<Rightarrow> bool" where
  "shape_ok sh \<longleftrightarrow> 0 \<le> s_Layers sh \<and> 0 \<le> s_KVHeads sh \<and> 0 \<le> s_HeadDim sh"

lemma trunc_div_pos: "0 \<le> a \<Longrightarrow> 0 < b \<Longrightarrow> trunc_div a b = a div b"
  by (cases "a = 0") (simp_all add: trunc_div_def)

definition cells :: "shape \<Rightarrow> int" where
  "cells sh = s_Layers sh * s_KVHeads sh * s_HeadDim sh"

lemma cells_nonneg: "shape_ok sh \<Longrightarrow> 0 \<le> cells sh"
  by (simp add: cells_def shape_ok_def)

lemma BytesPerToken_eq: "shape_ok sh \<Longrightarrow> BytesPerToken sh kv = 2 * cells sh * BytesPerElement16 kv div 16"
proof -
  assume "shape_ok sh"
  then have "0 \<le> 2 * cells sh * BytesPerElement16 kv"
    by (simp add: cells_nonneg BytesPerElement16_def)
  then show ?thesis by (simp add: BytesPerToken_def trunc_div_pos cells_def mult.assoc)
qed

lemma BytesPerToken_nonneg: "shape_ok sh \<Longrightarrow> 0 \<le> BytesPerToken sh kv"
  using cells_nonneg [of sh] by (simp add: BytesPerToken_eq BytesPerElement16_def pos_imp_zdiv_nonneg_iff)

lemma BytesPerToken_q8: "shape_ok sh \<Longrightarrow> BytesPerToken sh ''q8_0'' \<le> BytesPerToken sh kv"
  using cells_nonneg [of sh] by (auto simp: BytesPerToken_eq BytesPerElement16_def intro: zdiv_mono1)

lemma NeedBytes_mono:
  assumes "shape_ok sh" "0 \<le> ctx" "ctx \<le> ctx'" "0 \<le> slots" "slots \<le> slots'"
    and "BytesPerToken sh kv \<le> BytesPerToken sh kv'"
  shows "NeedBytes f r ctx slots sh kv \<le> NeedBytes f r ctx' slots' sh kv'"
proof -
  have "slots * ctx * BytesPerToken sh kv \<le> slots' * ctx' * BytesPerToken sh kv'"
    using assms BytesPerToken_nonneg [OF assms(1)] by (intro mult_mono) auto
  then show ?thesis by (simp add: NeedBytes_def case_prod_beta)
qed

subsection \<open>The search\<close>

lemma try_kv_Some: "try_kv need b kvs = Some (kv, n) \<Longrightarrow> kv \<in> set kvs \<and> n = need kv \<and> need kv \<le> b"
  by (induction kvs) (auto split: if_splits)

lemma try_kv_None: "try_kv need b kvs = None \<longleftrightarrow> (\<forall>kv \<in> set kvs. b < need kv)"
  by (induction kvs) auto

lemma try_kv_find:
  "try_kv need b kvs = map_option (\<lambda>kv. (kv, need kv)) (find (\<lambda>kv. need kv \<le> b) kvs)"
  by (induction kvs) auto

text \<open>The contexts after the requested one, in the order the loop tries them.\<close>

function degrade :: "int \<Rightarrow> int list" where
  "degrade ctx = (if ctx > MinCtx then (let c = max (ctx div 2) MinCtx in c # degrade c) else [])"
  by pat_completeness auto
termination
  by (relation "measure nat") (auto simp: MinCtx_def Let_def max_def split: if_splits)

declare degrade.simps [simp del]

lemma degrade_le: "ctx \<le> MinCtx \<Longrightarrow> degrade ctx = []"
  by (subst degrade.simps) simp

lemma degrade_gt: "MinCtx < ctx \<Longrightarrow> degrade ctx = max (ctx div 2) MinCtx # degrade (max (ctx div 2) MinCtx)"
  by (subst degrade.simps) (simp add: Let_def)

lemma degrade_bounds: "c \<in> set (degrade ctx) \<Longrightarrow> MinCtx \<le> c \<and> c < ctx"
proof (induction ctx rule: degrade.induct)
  case (1 ctx)
  show ?case
  proof (cases "MinCtx < ctx")
    case True
    with 1 show ?thesis by (force simp: degrade_gt MinCtx_def)
  next
    case False
    with 1 show ?thesis by (simp add: degrade_le)
  qed
qed

lemma degrade_last: "last (ctx # degrade ctx) = min ctx MinCtx"
proof (induction ctx rule: degrade.induct)
  case (1 ctx)
  show ?case
  proof (cases "MinCtx < ctx")
    case True
    with 1 show ?thesis by (simp add: degrade_gt Let_def max_def split: if_splits)
  next
    case False
    then show ?thesis by (simp add: degrade_le)
  qed
qed

lemma halve_loop_le: "ctx \<le> MinCtx \<Longrightarrow> halve_loop try ctx = Inl ctx"
  by (subst halve_loop.simps) simp

lemma halve_loop_gt:
  "MinCtx < ctx \<Longrightarrow> halve_loop try ctx =
     (case try (max (ctx div 2) MinCtx) of Some (kv, need) \<Rightarrow> Inr (max (ctx div 2) MinCtx, kv, need)
      | None \<Rightarrow> halve_loop try (max (ctx div 2) MinCtx))"
proof -
  assume "MinCtx < ctx"
  moreover have "(if ctx div 2 < MinCtx then MinCtx else ctx div 2) = max (ctx div 2) MinCtx"
    by (simp add: max_def)
  ultimately show ?thesis by (subst halve_loop.simps) (simp add: Let_def)
qed

lemma halve_loop_find:
  "halve_loop try ctx =
     (case find (\<lambda>c. try c \<noteq> None) (degrade ctx) of
        Some c \<Rightarrow> Inr (c, the (try c)) | None \<Rightarrow> Inl (min ctx MinCtx))"
proof (induction ctx rule: degrade.induct)
  case (1 ctx)
  show ?case
  proof (cases "MinCtx < ctx")
    case True
    then have "min (max (ctx div 2) MinCtx) MinCtx = min ctx MinCtx" by simp
    with 1 True show ?thesis by (auto simp: degrade_gt halve_loop_gt Let_def split: option.splits)
  next
    case False
    then show ?thesis by (simp add: degrade_le halve_loop_le)
  qed
qed

text \<open>
  The reference: the configurations in the order of degradation (ADR-012), as one list.
\<close>

definition plan_configs :: "int \<Rightarrow> int \<Rightarrow> string list \<Rightarrow> (int \<times> int \<times> string) list" where
  "plan_configs ctx slots kvs =
     concat (map (\<lambda>c. map (\<lambda>kv. (c, slots, kv)) kvs) (ctx # degrade ctx)) @
     (if slots > 1 then map (\<lambda>kv. (min ctx MinCtx, 1, kv)) kvs else [])"

definition norm_pos :: "int \<Rightarrow> int \<Rightarrow> int" where
  "norm_pos d x = (if x \<le> 0 then d else x)"

lemma find_append: "find P (xs @ ys) = (case find P xs of None \<Rightarrow> find P ys | Some x \<Rightarrow> Some x)"
  by (induction xs) auto

lemma find_map: "find P (map f xs) = map_option f (find (P \<circ> f) xs)"
  by (induction xs) auto

lemma find_concat_map:
  "find P (concat (map f xs)) =
     (case find (\<lambda>x. find P (f x) \<noteq> None) xs of None \<Rightarrow> None | Some x \<Rightarrow> find P (f x))"
  by (induction xs) (auto simp: find_append split: option.splits)

lemma KVCandidates_nonempty: "KVCandidates kv \<noteq> []"
  by (simp add: KVCandidates_def)

lemma find_config:
  "find (\<lambda>(c, s, kv). need c s kv \<le> (budget :: int)) (map (\<lambda>kv. (c, s, kv)) kvs) =
     map_option (\<lambda>(kv, n). (c, s, kv)) (try_kv (need c s) budget kvs)"
  by (induction kvs) auto

lemma try_kv_need: "try_kv need b kvs = Some (kv, n) \<Longrightarrow> n = need kv"
  by (auto dest: try_kv_Some)

lemma find_slot_configs:
  "find (\<lambda>(c, s, kv). need c s kv \<le> budget) (concat (map (\<lambda>c. map (\<lambda>kv. (c, slots, kv)) kvs) cs)) =
     (case find (\<lambda>c. try_kv (need c slots) budget kvs \<noteq> None) cs of None \<Rightarrow> None
      | Some c \<Rightarrow> map_option (\<lambda>(kv, n). (c, slots, kv)) (try_kv (need c slots) budget kvs))"
  by (auto simp: find_concat_map find_config split: option.splits)

text \<open>\<open>plan_mem\<close> with its closures written out.\<close>

lemma plan_mem_unfold:
  fixes f r sh ctx0 slots0 kvType budget
  defines "ctx \<equiv> norm_pos MinCtx ctx0" and "slots \<equiv> norm_pos 1 slots0" and "kvs \<equiv> KVCandidates kvType"
    and "need \<equiv> \<lambda>c s kv. NeedBytes f r c s sh kv"
    and "tr \<equiv> \<lambda>s c. try_kv (NeedBytes f r c s sh) budget (KVCandidates kvType)"
  shows "plan_mem f r sh ctx0 slots0 kvType budget =
    (case tr slots ctx of Some (kv, need) \<Rightarrow> \<lparr>pr_Ctx = ctx, pr_Slots = slots, pr_KV = kv, pr_Need = need, pr_Fits = True\<rparr>
     | None \<Rightarrow> (case halve_loop (tr slots) ctx of
         Inr (ctx', kv, need) \<Rightarrow> \<lparr>pr_Ctx = ctx', pr_Slots = slots, pr_KV = kv, pr_Need = need, pr_Fits = True\<rparr>
       | Inl ctx' \<Rightarrow> if slots > 1 then
            (case tr 1 ctx' of
               Some (kv, need) \<Rightarrow> \<lparr>pr_Ctx = ctx', pr_Slots = 1, pr_KV = kv, pr_Need = need, pr_Fits = True\<rparr>
             | None \<Rightarrow> \<lparr>pr_Ctx = ctx', pr_Slots = 1, pr_KV = last kvs, pr_Need = need ctx' 1 (last kvs), pr_Fits = False\<rparr>)
          else \<lparr>pr_Ctx = ctx', pr_Slots = slots, pr_KV = last kvs, pr_Need = need ctx' slots (last kvs), pr_Fits = False\<rparr>))"
  unfolding assms plan_mem_def norm_pos_def Let_def by (rule refl)

text \<open>
  \<open>memplan.Plan\<close> is a search: it returns the first configuration that fits the budget in
  the documented order of degradation (the requested context and slots with each cache
  type, then the context halved down to 4096, then one slot at the smallest context); when
  none fits it reports the smallest configuration it tried and what that needs.
\<close>

theorem plan_mem_is_search:
  "plan_mem f r sh ctx0 slots0 kvType budget =
     (let ctx = norm_pos MinCtx ctx0; slots = norm_pos 1 slots0; kvs = KVCandidates kvType;
          need = (\<lambda>c s kv. NeedBytes f r c s sh kv)
      in case find (\<lambda>(c, s, kv). need c s kv \<le> budget) (plan_configs ctx slots kvs) of
           Some (c, s, kv) \<Rightarrow> \<lparr>pr_Ctx = c, pr_Slots = s, pr_KV = kv, pr_Need = need c s kv, pr_Fits = True\<rparr>
         | None \<Rightarrow> \<lparr>pr_Ctx = min ctx MinCtx, pr_Slots = 1, pr_KV = last kvs,
                    pr_Need = need (min ctx MinCtx) 1 (last kvs), pr_Fits = False\<rparr>)"
proof -
  let ?ctx = "norm_pos MinCtx ctx0" and ?slots = "norm_pos 1 slots0" and ?kvs = "KVCandidates kvType"
  let ?tr = "\<lambda>s c. try_kv (NeedBytes f r c s sh) budget ?kvs"
  note unf = plan_mem_unfold [of f r sh ctx0 slots0 kvType budget] Let_def plan_configs_def find_append find_slot_configs
  have slots: "\<not> ?slots > 1 \<Longrightarrow> ?slots = 1" by (simp add: norm_pos_def split: if_splits)
  show ?thesis
  proof (cases "?tr ?slots ?ctx")
    case (Some kn)
    obtain kv n where kn: "kn = (kv, n)" by (cases kn)
    from Some kn try_kv_need [OF Some [unfolded kn]] show ?thesis
      unfolding unf by simp
  next
    case None
    show ?thesis
    proof (cases "find (\<lambda>c. ?tr ?slots c \<noteq> None) (degrade ?ctx)")
      case (Some c)
      from find_Some_mem [OF this] obtain kv n where kn: "?tr ?slots c = Some (kv, n)" by fastforce
      from Some None kn try_kv_need [OF kn] show ?thesis
        unfolding unf halve_loop_find
        by (simp del: not_None_eq)
    next
      case none: None
      show ?thesis
      proof (cases "?slots > 1")
        case True
        from none None True show ?thesis
          unfolding unf halve_loop_find
          by (cases "?tr 1 (min ?ctx MinCtx)") (auto simp: find_config simp del: not_None_eq dest: try_kv_need)
      next
        case False
        from none None False slots show ?thesis
          unfolding unf halve_loop_find
          by (simp del: not_None_eq)
      qed
    qed
  qed
qed

subsection \<open>When a model fits\<close>

lemma plan_mem_fits_find:
  "pr_Fits (plan_mem f r sh ctx0 slots0 kvType budget) \<longleftrightarrow>
     (\<exists>(c, s, kv) \<in> set (plan_configs (norm_pos MinCtx ctx0) (norm_pos 1 slots0) (KVCandidates kvType)).
        NeedBytes f r c s sh kv \<le> budget)"
  unfolding plan_mem_is_search Let_def
  by (auto simp: find_None_iff dest!: find_Some_mem split: option.splits prod.splits) blast+

lemma plan_configs_bounds:
  assumes "(c, s, kv) \<in> set (plan_configs ctx slots kvs)" "0 < ctx" "0 < slots"
  shows "min ctx MinCtx \<le> c \<and> c \<le> ctx \<and> 1 \<le> s \<and> s \<le> slots \<and> kv \<in> set kvs"
  using assms by (auto simp: plan_configs_def MinCtx_def min_def dest!: degrade_bounds split: if_splits)

lemma norm_pos_pos: "0 < d \<Longrightarrow> 0 < norm_pos d x"
  by (simp add: norm_pos_def)

lemma plan_configs_smallest:
  assumes "kv \<in> set kvs" "0 < slots"
  shows "(min ctx MinCtx, 1, kv) \<in> set (plan_configs ctx slots kvs)"
proof (cases "slots > 1")
  case True
  with assms show ?thesis by (auto simp: plan_configs_def)
next
  case False
  then have "slots = 1" using assms by simp
  moreover have "min ctx MinCtx \<in> set (ctx # degrade ctx)"
    using degrade_last [of ctx] last_in_set [of "ctx # degrade ctx"] by simp
  ultimately show ?thesis using assms unfolding plan_configs_def by (auto simp: image_iff)
qed

lemma KV_last_least:
  "shape_ok sh \<Longrightarrow> kv \<in> set (KVCandidates kvType) \<Longrightarrow>
     BytesPerToken sh (last (KVCandidates kvType)) \<le> BytesPerToken sh kv"
  by (auto simp: KVCandidates_def BytesPerToken_q8 split: if_splits)

lemma last_KV_mem: "last (KVCandidates kvType) \<in> set (KVCandidates kvType)"
  by (simp add: KVCandidates_nonempty)

text \<open>
  A model fits (\<open>Plan\<close> finds a configuration) exactly when the cheapest admissible
  configuration does: one slot, the smaller of the requested context and 4096, and the
  last cache type in the list.  The search is therefore complete: it never rejects a model
  that some configuration in its range could serve.
\<close>

theorem plan_mem_fits_iff:
  assumes "shape_ok sh"
  shows "pr_Fits (plan_mem f r sh ctx0 slots0 kvType budget) \<longleftrightarrow>
    NeedBytes f r (min (norm_pos MinCtx ctx0) MinCtx) 1 sh (last (KVCandidates kvType)) \<le> budget"
  (is "?fits \<longleftrightarrow> ?least \<le> budget")
proof
  let ?ctx = "norm_pos MinCtx ctx0" and ?slots = "norm_pos 1 slots0" and ?kvs = "KVCandidates kvType"
  have pos: "0 < ?ctx" "0 < ?slots" by (simp_all add: norm_pos_pos MinCtx_def)
  {
    assume ?fits
    then obtain c s kv where m: "(c, s, kv) \<in> set (plan_configs ?ctx ?slots ?kvs)"
      "NeedBytes f r c s sh kv \<le> budget"
      unfolding plan_mem_fits_find by auto
    from plan_configs_bounds [OF m(1) pos]
    have "?least \<le> NeedBytes f r c s sh kv"
      using assms pos by (intro NeedBytes_mono KV_last_least) (auto simp: MinCtx_def min_def split: if_splits)
    with m(2) show "?least \<le> budget" by simp
  }
  {
    assume "?least \<le> budget"
    with plan_configs_smallest [OF last_KV_mem pos(2), of ?ctx] show ?fits
      unfolding plan_mem_fits_find by (metis (mono_tags, lifting) case_prod_conv)
  }
qed

lemma plan_mem_fits_iff_witness:
  "pr_Fits (plan_mem 1000000000 0 \<lparr>s_Layers = 28, s_KVHeads = 2, s_HeadDim = 128\<rparr> 16384 1 ''auto'' 1300000000) \<longleftrightarrow>
    NeedBytes 1000000000 0 4096 1 \<lparr>s_Layers = 28, s_KVHeads = 2, s_HeadDim = 128\<rparr> ''q8_0'' \<le> 1300000000"
proof -
  have h: "shape_ok \<lparr>s_Layers = 28, s_KVHeads = 2, s_HeadDim = 128\<rparr>" by (simp add: shape_ok_def)
  from plan_mem_fits_iff [OF h, of 1000000000 0 16384 1 "''auto''" 1300000000] show ?thesis
    by (simp add: norm_pos_def MinCtx_def KVCandidates_def)
qed


definition sample_sizing :: sizing_request where
  "sample_sizing = \<lparr>sr_FileSizeBytes = 1000000000, sr_ResidentBytes = 0,
     sr_Shape = \<lparr>s_Layers = 28, s_KVHeads = 2, s_HeadDim = 128\<rparr>, sr_CtxSize = 16384, sr_Slots = 2,
     sr_KVType = ''auto'', sr_BudgetBytes = 1500000000\<rparr>"


text \<open>
  No overflow: for files below \<open>2^49\<close> bytes, at most \<open>2^24\<close> cache cells per token
  (layers times heads times head size), contexts up to \<open>2^20\<close> and at most 64 slots, every
  estimate is a non-negative \<open>int64\<close> and the floating-point product of \<open>BytesPerToken\<close>
  stays below \<open>2^53\<close>, where \<open>float64\<close> is exact.
\<close>

lemma need_bytes_int64:
  assumes "0 \<le> f" "f < 2 ^ 49" "shape_ok sh" "cells sh \<le> 2 ^ 24" "0 \<le> ctx" "ctx \<le> 2 ^ 20" "0 \<le> slots" "slots \<le> 64"
  shows "0 \<le> NeedBytes f r ctx slots sh kv \<and> NeedBytes f r ctx slots sh kv < 2 ^ 63 \<and>
    2 * cells sh * BytesPerElement16 kv < 16 * 2 ^ 53"
proof -
  have tok: "0 \<le> BytesPerToken sh kv" "BytesPerToken sh kv \<le> 2 ^ 26"
    using assms(3,4) cells_nonneg [of sh]
    by (auto simp: BytesPerToken_nonneg BytesPerToken_eq BytesPerElement16_def)
  have "slots * ctx * BytesPerToken sh kv \<le> 64 * 2 ^ 20 * 2 ^ 26"
    using assms tok by (intro mult_mono) auto
  moreover have "0 \<le> slots * ctx * BytesPerToken sh kv" using assms tok by simp
  moreover obtain res sparse where rs: "ResidentWeightBytes f r = (res, sparse)" "0 \<le> res" "0 \<le> sparse" "res + sparse = f"
    using assms(1) that [of f 0] that [of r "f - r"] by (fastforce simp: ResidentWeightBytes_def split: if_splits)
  moreover have "0 \<le> trunc_div sparse 10" "trunc_div sparse 10 \<le> sparse"
    using rs(3) by (simp_all add: trunc_div_pos)
  ultimately have "0 \<le> NeedBytes f r ctx slots sh kv \<and> NeedBytes f r ctx slots sh kv < 2 ^ 63"
    using assms(2) unfolding NeedBytes_def mib_def by (simp add: rs(1))
  moreover have "2 * cells sh * BytesPerElement16 kv < 16 * 2 ^ 53"
    using assms(4) cells_nonneg [OF assms(3)] by (simp add: BytesPerElement16_def)
  ultimately show ?thesis by blast
qed

lemma need_bytes_int64_witness:
  "NeedBytes 20000000000 0 131072 1 \<lparr>s_Layers = 64, s_KVHeads = 8, s_HeadDim = 128\<rparr> ''f16'' < 2 ^ 63"
  using need_bytes_int64 [of 20000000000 "\<lparr>s_Layers = 64, s_KVHeads = 8, s_HeadDim = 128\<rparr>" 131072 1 0 "''f16''"]
  by (simp add: shape_ok_def cells_def)

end
