(* ===== verification/DeviceClass.thy ===== *)
theory DeviceClass
  imports Prelude
begin

text \<open>
  Device classes by RAM (\<^verbatim>\<open>controller/models/classes.go\<close>) and performance tiers by measured
  bandwidth (\<^verbatim>\<open>controller/models/perf.go\<close>).  RAM sizes are \<open>uint64\<close>: \<open>nat\<close>, with the one
  place where the code converts a signed estimate to \<open>uint64\<close> written out.  Bandwidths and
  token rates are \<open>real\<close> (\<open>float64\<close> without rounding).  Display labels are left out.
\<close>

definition GiB :: nat where
  "GiB = 2 ^ 30"

record device_class =
  dc_ID :: string
  dc_MinRAMBytes :: nat
  dc_MaxRAMBytes :: nat

definition Classes :: "device_class list" where
  "Classes =
    [\<lparr>dc_ID = ''xs'', dc_MinRAMBytes = 0, dc_MaxRAMBytes = 3 * GiB\<rparr>,
     \<lparr>dc_ID = ''s'', dc_MinRAMBytes = 3 * GiB, dc_MaxRAMBytes = 5 * GiB\<rparr>,
     \<lparr>dc_ID = ''m'', dc_MinRAMBytes = 5 * GiB, dc_MaxRAMBytes = 7 * GiB\<rparr>,
     \<lparr>dc_ID = ''l'', dc_MinRAMBytes = 7 * GiB, dc_MaxRAMBytes = 10 * GiB\<rparr>,
     \<lparr>dc_ID = ''xl'', dc_MinRAMBytes = 10 * GiB, dc_MaxRAMBytes = 0\<rparr>]"

definition in_class :: "nat \<Rightarrow> device_class \<Rightarrow> bool" where
  "in_class ramTotal c \<longleftrightarrow>
     ramTotal \<ge> dc_MinRAMBytes c \<and> (dc_MaxRAMBytes c = 0 \<or> ramTotal < dc_MaxRAMBytes c)"

definition ClassOf :: "nat \<Rightarrow> string" where
  "ClassOf ramTotal =
     (case find (in_class ramTotal) Classes of Some c \<Rightarrow> dc_ID c | None \<Rightarrow> dc_ID (last Classes))"

definition IsClass :: "string \<Rightarrow> bool" where
  "IsClass cid = list_ex (\<lambda>c. dc_ID c = cid) Classes"

definition DefaultCtxSize :: int where
  "DefaultCtxSize = 16384"

definition RuntimeOverheadBytes :: int where
  "RuntimeOverheadBytes = 150 * 2 ^ 20"

definition AndroidBaselineBytes :: nat where
  "AndroidBaselineBytes = 2 * GiB"

definition KVCacheBytes :: "int \<Rightarrow> int \<Rightarrow> int \<Rightarrow> int \<Rightarrow> int" where
  "KVCacheBytes layers kvHeads headDim ctx = 2 * layers * ctx * kvHeads * headDim * 2"

definition EstimateRAM :: "int \<Rightarrow> int \<Rightarrow> int \<Rightarrow> int \<Rightarrow> int \<Rightarrow> int" where
  "EstimateRAM weightBytes layers kvHeads headDim ctx =
     weightBytes + KVCacheBytes layers kvHeads headDim ctx + RuntimeOverheadBytes"

text \<open>\<open>uint64(est)\<close> is \<open>est mod 2^64\<close>: a negative estimate becomes huge and does not fit.\<close>

definition Fits :: "int \<Rightarrow> nat \<Rightarrow> bool" where
  "Fits est ramTotal \<longleftrightarrow>
     ramTotal > AndroidBaselineBytes \<and> nat (est mod 2 ^ 64) \<le> ramTotal - AndroidBaselineBytes"

definition FitsClasses :: "int \<Rightarrow> string list" where
  "FitsClasses est = map dc_ID (filter (\<lambda>c. est > 0 \<and> Fits est (dc_MinRAMBytes c)) Classes)"

subsection \<open>Performance tiers\<close>

record perf_tier =
  pt_ID :: string
  pt_MinGBps :: real
  pt_MaxGBps :: real

definition PerfTiers :: "perf_tier list" where
  "PerfTiers =
    [\<lparr>pt_ID = ''t1'', pt_MinGBps = 0, pt_MaxGBps = 4\<rparr>,
     \<lparr>pt_ID = ''t2'', pt_MinGBps = 4, pt_MaxGBps = 10\<rparr>,
     \<lparr>pt_ID = ''t3'', pt_MinGBps = 10, pt_MaxGBps = 25\<rparr>,
     \<lparr>pt_ID = ''t4'', pt_MinGBps = 25, pt_MaxGBps = 0\<rparr>]"

definition UnknownPerfTier :: string where
  "UnknownPerfTier = ''?''"

definition IsPerfTier :: "string \<Rightarrow> bool" where
  "IsPerfTier tid = list_ex (\<lambda>t. pt_ID t = tid) PerfTiers"

definition PerfTierOf :: "real \<Rightarrow> string" where
  "PerfTierOf genGBps =
     (if genGBps \<le> 0 then UnknownPerfTier
      else case find (\<lambda>t. genGBps \<ge> pt_MinGBps t \<and> (pt_MaxGBps t = 0 \<or> genGBps < pt_MaxGBps t)) PerfTiers of
        Some t \<Rightarrow> pt_ID t | None \<Rightarrow> pt_ID (last PerfTiers))"

record perf =
  pf_GenGBps :: real
  pf_PromptGBps :: real

definition Bandwidth :: "real \<Rightarrow> int \<Rightarrow> real" where
  "Bandwidth tokPerSec residentBytes =
     (if tokPerSec \<le> 0 \<or> residentBytes \<le> 0 then 0 else tokPerSec * of_int residentBytes / 10 ^ 9)"

definition PredictedTPS :: "real \<Rightarrow> int \<Rightarrow> real" where
  "PredictedTPS gbps residentBytes =
     (if gbps \<le> 0 \<or> residentBytes \<le> 0 then 0 else gbps * 10 ^ 9 / of_int residentBytes)"

subsection \<open>Properties\<close>

lemma Fits_nonneg: "0 \<le> est \<Longrightarrow> est < 2 ^ 64 \<Longrightarrow> Fits est ram \<longleftrightarrow> AndroidBaselineBytes < ram \<and> est + int AndroidBaselineBytes \<le> int ram"
  by (auto simp: Fits_def nat_le_iff of_nat_diff)

lemma PredictedTPS_nonneg: "0 \<le> PredictedTPS g r"
  by (simp add: PredictedTPS_def)

lemma PredictedTPS_zero: "PredictedTPS g r = 0 \<longleftrightarrow> g \<le> 0 \<or> r \<le> 0"
  by (auto simp: PredictedTPS_def)

text \<open>
  Measuring a phone's bandwidth with one model and predicting the speed of the same
  model gives back the measured speed (ADR-015), and a model twice as large is predicted
  half as fast.
\<close>

lemma predicted_bandwidth_roundtrip:
  assumes "0 < tps" "0 < bytes"
  shows "PredictedTPS (Bandwidth tps bytes) bytes = tps \<and>
    PredictedTPS (Bandwidth tps bytes) (2 * bytes) = tps / 2"
proof -
  have "\<not> tps * real_of_int bytes \<le> 0" using assms by (simp add: not_le)
  with assms show ?thesis by (simp add: PredictedTPS_def Bandwidth_def field_simps)
qed

lemma predicted_bandwidth_roundtrip_witness:
  "PredictedTPS (Bandwidth 10 2000000000) 2000000000 = 10"
  using predicted_bandwidth_roundtrip [of 10 2000000000] by simp

text \<open>
  The device classes partition the RAM sizes: exactly one class of the table contains
  a given size, and \<open>ClassOf\<close> names it.
\<close>

lemma ClassOf_partition:
  "\<exists>c. filter (in_class ram) Classes = [c] \<and> ClassOf ram = dc_ID c \<and> IsClass (ClassOf ram)"
proof -
  consider "ram < 3 * GiB" | "3 * GiB \<le> ram" "ram < 5 * GiB" | "5 * GiB \<le> ram" "ram < 7 * GiB"
    | "7 * GiB \<le> ram" "ram < 10 * GiB" | "10 * GiB \<le> ram" by linarith
  then show ?thesis
    by cases (simp_all add: Classes_def in_class_def ClassOf_def IsClass_def GiB_def)
qed

end
