(* ===== verification/Planner.thy ===== *)
theory Planner
  imports MemPlan DeviceClass
begin

text \<open>
  The placement planner (\<^verbatim>\<open>controller/models/planner.go\<close>): validation of a placement
  specification and the default planner of ADR-011.  Warnings and validation errors are
  datatypes, one constructor per message of the code with the ids and bounds it is about.  Slicing
  with a negative bound panics in Go: the plan is then \<open>None\<close>.  Token rates, percentages
  and speeds are \<open>real\<close>.
\<close>

abbreviation "ModePin \<equiv> ''pin''"
abbreviation "ModeReplicas \<equiv> ''replicas''"
abbreviation "ModePercent \<equiv> ''percent''"
abbreviation "ReasonPin \<equiv> ''pin''"
abbreviation "ReasonReplicas \<equiv> ''replicas''"
abbreviation "ReasonPercent \<equiv> ''percent''"
abbreviation "ReasonDefault \<equiv> ''default''"
abbreviation "ReasonKeep \<equiv> ''keep''"
abbreviation "ReasonNone \<equiv> ''none''"

record policy =
  po_ModelID :: string
  po_Mode :: string
  po_Nodes :: "node_id list"
  po_Replicas :: int
  po_Percent :: real
  po_Classes :: "string list"
  po_MinTokS :: real

record spec =
  sc_Policies :: "policy list"
  sc_DefaultModel :: string

record plan_node =
  pn_ID :: node_id
  pn_Class :: string
  pn_RAMTotalBytes :: nat
  pn_Speed :: real
  pn_GenGBps :: real
  pn_PromptGBps :: real
  pn_CurrentModel :: string
  pn_Assigned :: string
  pn_Drained :: bool
  pn_BudgetBytes :: int

record plan_model =
  pm_ID :: string
  pm_SizeBytes :: int
  pm_ResidentBytes :: int
  pm_CtxTrain :: int
  pm_Layers :: int
  pm_KVHeads :: int
  pm_HeadDim :: int

record assignment =
  as_NodeID :: node_id
  as_ModelID :: string
  as_Reason :: string
  as_CtxSize :: int
  as_Slots :: int
  as_KVType :: string
  as_EstRAMBytes :: int
  as_Fits :: bool
  as_PredGenTPS :: real
  as_PredPromptTPS :: real

subsection \<open>What a model needs on a node\<close>

definition CtxSize :: "plan_model \<Rightarrow> int" where
  "CtxSize m = (if pm_CtxTrain m > 0 \<and> pm_CtxTrain m < DefaultCtxSize then pm_CtxTrain m else DefaultCtxSize)"

definition residentBytes :: "plan_model \<Rightarrow> int" where
  "residentBytes m = (if pm_ResidentBytes m > 0 then pm_ResidentBytes m else pm_SizeBytes m)"

definition EstRAM :: "plan_model \<Rightarrow> int" where
  "EstRAM m = EstimateRAM (residentBytes m) (pm_Layers m) (pm_KVHeads m) (pm_HeadDim m) (CtxSize m)"

definition model_shape :: "plan_model \<Rightarrow> shape" where
  "model_shape m = \<lparr>s_Layers = pm_Layers m, s_KVHeads = pm_KVHeads m, s_HeadDim = pm_HeadDim m\<rparr>"

definition fitsNode :: "plan_model \<Rightarrow> plan_node \<Rightarrow> bool" where
  "fitsNode m n =
     (if pn_BudgetBytes n > 0
      then pr_Fits (plan_mem (pm_SizeBytes m) (pm_ResidentBytes m) (model_shape m) (CtxSize m) 1 ''auto'' (pn_BudgetBytes n))
      else Fits (EstRAM m) (pn_RAMTotalBytes n))"

definition effectiveMinTokS :: "policy \<Rightarrow> real \<Rightarrow> real" where
  "effectiveMinTokS p d = (if po_MinTokS p > 0 then po_MinTokS p else d)"

definition meetsSpeed :: "plan_model \<Rightarrow> plan_node \<Rightarrow> real \<Rightarrow> bool" where
  "meetsSpeed m n minTokS =
     (if minTokS \<le> 0 then True
      else (let pred = PredictedTPS (pn_GenGBps n) (residentBytes m) in pred = 0 \<or> pred \<ge> minTokS))"

definition matchesClass :: "string list \<Rightarrow> string \<Rightarrow> bool" where
  "matchesClass flt cls \<longleftrightarrow> length flt = 0 \<or> cls \<in> set flt"

text \<open>\<open>p\<close> percent of \<open>n\<close>, rounded half up, at least 1.\<close>

definition percentOf :: "real \<Rightarrow> nat \<Rightarrow> int" where
  "percentOf p n =
     (if p \<le> 0 \<or> n = 0 then 0 else max 1 \<lfloor>p * of_nat n / 100 + 1 / 2 + 1 / 10 ^ 9\<rfloor>)"

definition prefer_rank :: "string \<Rightarrow> plan_node \<Rightarrow> nat" where
  "prefer_rank mid n = (if pn_CurrentModel n = mid then 0 else if pn_Assigned n = mid then 1 else 2)"

text \<open>\<open>preferFor\<close> compares these keys lexicographically: rank, faster, bigger, id.\<close>

definition prefer_key :: "string \<Rightarrow> plan_node \<Rightarrow> nat \<times> real \<times> int \<times> node_id" where
  "prefer_key mid n = (prefer_rank mid n, - pn_Speed n, - int (pn_RAMTotalBytes n), pn_ID n)"

subsection \<open>Warnings\<close>

datatype no_fit = NoClass | NoMemory int | TooSlow real

datatype plan_warning =
    PolicyWaits string string
  | DefaultNotReady string
  | PinNotConnected string node_id
  | AlreadyPinned string node_id string
  | PinDoesNotFit string node_id
  | SlowWarning string node_id real real
  | ZeroNodes string no_fit
  | OnlyFree string int int
  | DefaultTooSmall string "node_id list"

definition noFitReason :: "plan_model \<Rightarrow> policy \<Rightarrow> plan_node list \<Rightarrow> real \<Rightarrow> no_fit" where
  "noFitReason m p nodes minTokS =
     (let considered = filter (\<lambda>n. \<not> (pn_Drained n \<or> \<not> matchesClass (po_Classes p) (pn_Class n))) nodes;
          sawClass = (considered \<noteq> []);
          sawFit = list_ex (\<lambda>n. fitsNode m n) considered
      in if \<not> sawClass then NoClass else if \<not> sawFit then NoMemory (EstRAM m) else TooSlow minTokS)"

subsection \<open>The plan\<close>

type_synonym assigned_map = "node_id \<Rightarrow> assignment option"

record plan_state =
  ps_assigned :: assigned_map
  ps_warnings :: "plan_warning list"

record plan =
  pl_Assignments :: "assignment list"
  pl_Warnings :: "plan_warning list"

definition by_model :: "plan_model list \<Rightarrow> string \<Rightarrow> plan_model option" where
  "by_model models = foldl (\<lambda>f m. f(pm_ID m \<mapsto> m)) (\<lambda>_. None) models"

definition by_node :: "plan_node list \<Rightarrow> node_id \<Rightarrow> plan_node option" where
  "by_node nodes = foldl (\<lambda>f n. f(pn_ID n \<mapsto> n)) (\<lambda>_. None) nodes"

text \<open>\<open>assigned[id].ModelID\<close>, \<open>""\<close> for a missing entry.\<close>

definition assigned_model :: "assigned_map \<Rightarrow> node_id \<Rightarrow> string" where
  "assigned_model f i = (case f i of None \<Rightarrow> '''' | Some a \<Rightarrow> as_ModelID a)"

definition warn :: "plan_warning \<Rightarrow> plan_state \<Rightarrow> plan_state" where
  [go_simps]: "warn w st = st\<lparr>ps_warnings := ps_warnings st @ [w]\<rparr>"

definition mk_assignment :: "plan_node \<Rightarrow> plan_model \<Rightarrow> string \<Rightarrow> assignment" where
  "mk_assignment n m reason =
     \<lparr>as_NodeID = pn_ID n, as_ModelID = pm_ID m, as_Reason = reason, as_CtxSize = CtxSize m, as_Slots = 1,
      as_KVType = ''auto'', as_EstRAMBytes = EstRAM m, as_Fits = fitsNode m n,
      as_PredGenTPS = PredictedTPS (pn_GenGBps n) (residentBytes m),
      as_PredPromptTPS = PredictedTPS (pn_PromptGBps n) (residentBytes m)\<rparr>"

definition assign :: "plan_model \<Rightarrow> string \<Rightarrow> plan_state \<Rightarrow> plan_node \<Rightarrow> plan_state" where
  "assign m reason st n = st\<lparr>ps_assigned := (ps_assigned st)(pn_ID n \<mapsto> mk_assignment n m reason)\<rparr>"

text \<open>Policies whose model is not ready wait; so does the default model.\<close>

definition wait_warnings :: "spec \<Rightarrow> (string \<Rightarrow> plan_model option) \<Rightarrow> plan_state \<Rightarrow> plan_state" where
  "wait_warnings sc byModel st =
     (let st = foldl (\<lambda>st p. if byModel (po_ModelID p) = None then warn (PolicyWaits (po_ModelID p) (po_Mode p)) st else st)
                 st (sc_Policies sc)
      in if sc_DefaultModel sc \<noteq> '''' \<and> byModel (sc_DefaultModel sc) = None
         then warn (DefaultNotReady (sc_DefaultModel sc)) st else st)"

definition pin_node ::
  "real \<Rightarrow> (node_id \<Rightarrow> plan_node option) \<Rightarrow> policy \<Rightarrow> plan_model \<Rightarrow> plan_state \<Rightarrow> node_id \<Rightarrow> plan_state" where
  "pin_node minTokS byNode p m st i =
     (case byNode i of
        None \<Rightarrow> warn (PinNotConnected (po_ModelID p) i) st
      | Some n \<Rightarrow>
          if assigned_model (ps_assigned st) i \<noteq> '''' then
            warn (AlreadyPinned (po_ModelID p) i (assigned_model (ps_assigned st) i)) st
          else
            (let st = assign m ReasonPin st n;
                 st = (if \<not> fitsNode m n then warn (PinDoesNotFit (po_ModelID p) i) st else st);
                 threshold = effectiveMinTokS p minTokS
             in if \<not> meetsSpeed m n threshold
                then warn (SlowWarning (pm_ID m) (pn_ID n) (PredictedTPS (pn_GenGBps n) (residentBytes m)) threshold) st
                else st))"

definition pin_policy ::
  "real \<Rightarrow> (string \<Rightarrow> plan_model option) \<Rightarrow> (node_id \<Rightarrow> plan_node option) \<Rightarrow> plan_state \<Rightarrow> policy \<Rightarrow> plan_state" where
  "pin_policy minTokS byModel byNode st p =
     (case byModel (po_ModelID p) of
        None \<Rightarrow> st
      | Some m \<Rightarrow> if po_Mode p \<noteq> ModePin then st else foldl (pin_node minTokS byNode p m) st (po_Nodes p))"

definition eligible :: "policy \<Rightarrow> plan_model \<Rightarrow> real \<Rightarrow> plan_node \<Rightarrow> bool" where
  "eligible p m threshold n \<longleftrightarrow>
     \<not> pn_Drained n \<and> matchesClass (po_Classes p) (pn_Class n) \<and> fitsNode m n \<and> meetsSpeed m n threshold"

definition want_nodes :: "string \<Rightarrow> policy \<Rightarrow> nat \<Rightarrow> int" where
  "want_nodes mode p pool = (if mode = ModePercent then percentOf (po_Percent p) pool else po_Replicas p)"

text \<open>One replicas or percent policy; \<open>free[:got]\<close> panics on a negative \<open>got\<close>.\<close>

definition count_policy ::
  "real \<Rightarrow> (string \<Rightarrow> plan_model option) \<Rightarrow> plan_node list \<Rightarrow> string \<Rightarrow> plan_state \<Rightarrow> policy \<Rightarrow> plan_state option" where
  "count_policy minTokS byModel nodes mode st p =
     (case byModel (po_ModelID p) of
        None \<Rightarrow> Some st
      | Some m \<Rightarrow>
          (let threshold = effectiveMinTokS p minTokS;
               pool = length (filter (eligible p m threshold) nodes);
               want = want_nodes mode p pool
           in if pool = 0 then Some (warn (ZeroNodes (pm_ID m) (noFitReason m p nodes threshold)) st)
              else
                (let free = sort_key (prefer_key (pm_ID m))
                       (filter (\<lambda>n. eligible p m threshold n \<and> assigned_model (ps_assigned st) (pn_ID n) = '''') nodes);
                     got = min want (int (length free))
                 in if got < 0 then None
                    else (let st = foldl (assign m mode) st (take (nat got) free)
                          in Some (if got < want then warn (OnlyFree (pm_ID m) want got) st else st)))))"

text \<open>The policies of one mode, bigger models first.\<close>

definition mode_policies :: "(string \<Rightarrow> plan_model option) \<Rightarrow> string \<Rightarrow> spec \<Rightarrow> policy list" where
  "mode_policies byModel mode sc =
     sort_key (\<lambda>p. (case byModel (po_ModelID p) of None \<Rightarrow> 0 | Some m \<Rightarrow> - EstRAM m, po_ModelID p))
       (filter (\<lambda>p. byModel (po_ModelID p) \<noteq> None \<and> po_Mode p = mode) (sc_Policies sc))"



definition count_policies ::
  "real \<Rightarrow> (string \<Rightarrow> plan_model option) \<Rightarrow> plan_node list \<Rightarrow> spec \<Rightarrow> plan_state \<Rightarrow> string \<Rightarrow> plan_state option" where
  "count_policies minTokS byModel nodes sc st mode =
     fold_opt (count_policy minTokS byModel nodes mode) st (mode_policies byModel mode sc)"

text \<open>The last loop: one row per node; \<open>tooSmall\<close> collects the ids the default model does not fit.\<close>

definition keep_row :: "(string \<Rightarrow> plan_model option) \<Rightarrow> plan_node \<Rightarrow> assignment" where
  "keep_row byModel n =
     (let a = \<lparr>as_NodeID = pn_ID n, as_ModelID = pn_CurrentModel n, as_Reason = ReasonKeep, as_CtxSize = 0,
                as_Slots = 0, as_KVType = '''', as_EstRAMBytes = 0, as_Fits = True, as_PredGenTPS = 0, as_PredPromptTPS = 0\<rparr>;
          a = (case byModel (pn_CurrentModel n) of
                 None \<Rightarrow> a
               | Some cur \<Rightarrow> a\<lparr>as_CtxSize := CtxSize cur, as_Slots := 1, as_KVType := ''auto'',
                                as_EstRAMBytes := EstRAM cur, as_Fits := fitsNode cur n\<rparr>)
      in if pn_CurrentModel n = '''' then a\<lparr>as_Reason := ReasonNone\<rparr> else a)"

definition final_row ::
  "real \<Rightarrow> (string \<Rightarrow> plan_model option) \<Rightarrow> string \<Rightarrow>
   plan_state \<times> node_id list \<times> assignment list \<Rightarrow> plan_node \<Rightarrow> plan_state \<times> node_id list \<times> assignment list" where
  "final_row minTokS byModel defaultModel acc n =
     (let (st, tooSmall, out) = acc in
      case ps_assigned st (pn_ID n) of
        Some a \<Rightarrow> (st, tooSmall, out @ [a])
      | None \<Rightarrow>
          (case byModel defaultModel of
             None \<Rightarrow> (st, tooSmall, out @ [keep_row byModel n])
           | Some dm \<Rightarrow>
               if pn_Drained n then (st, tooSmall, out @ [keep_row byModel n])
               else if \<not> fitsNode dm n then (st, tooSmall @ [pn_ID n], out @ [keep_row byModel n])
               else if \<not> meetsSpeed dm n minTokS then
                 (warn (SlowWarning (pm_ID dm) (pn_ID n) (PredictedTPS (pn_GenGBps n) (residentBytes dm)) minTokS) st,
                  tooSmall, out @ [keep_row byModel n])
               else (let st = assign dm ReasonDefault st n in (st, tooSmall, out @ [the (ps_assigned st (pn_ID n))]))))"

definition make_plan :: "real \<Rightarrow> spec \<Rightarrow> plan_node list \<Rightarrow> plan_model list \<Rightarrow> plan option" where
  "make_plan minTokS sc nodes0 models =
     (let nodes = sort_key pn_ID nodes0;
          byModel = by_model models;
          byNode = by_node nodes;
          st = wait_warnings sc byModel \<lparr>ps_assigned = (\<lambda>_. None), ps_warnings = []\<rparr>;
          st = foldl (pin_policy minTokS byModel byNode) st (sc_Policies sc)
      in case fold_opt (count_policies minTokS byModel nodes sc) st [ModeReplicas, ModePercent] of
           None \<Rightarrow> None
         | Some st \<Rightarrow>
             (let (st, tooSmall, out) = foldl (final_row minTokS byModel (sc_DefaultModel sc)) (st, [], []) nodes;
                  st = (if tooSmall \<noteq> [] then warn (DefaultTooSmall (sc_DefaultModel sc) tooSmall) st else st)
              in Some \<lparr>pl_Assignments = out, pl_Warnings = ps_warnings st\<rparr>))"

subsection \<open>Validation\<close>

datatype spec_error =
    UnknownModel string
  | DuplicatePolicy string
  | UnknownClass string
  | PinNeedsNodes string
  | PinUnknownNode node_id
  | NodeAlreadyPinned node_id string
  | ReplicasTooFew string
  | PercentRange string
  | BadMode string
  | ClassPercent string real
  | UnknownDefault string

record valid_state =
  vs_errs :: "spec_error list"
  vs_seen :: "string \<Rightarrow> bool"
  vs_pinned :: "node_id \<Rightarrow> string"
  vs_classPercent :: "string \<Rightarrow> real"

definition verr :: "spec_error \<Rightarrow> valid_state \<Rightarrow> valid_state" where
  [go_simps]: "verr e s = s\<lparr>vs_errs := vs_errs s @ [e]\<rparr>"

definition valid_pin :: "string \<Rightarrow> node_id list \<Rightarrow> valid_state \<Rightarrow> node_id \<Rightarrow> valid_state" where
  "valid_pin mid nodeIDs s n =
     (if n \<notin> set nodeIDs then verr (PinUnknownNode n) s
      else if vs_pinned s n \<noteq> '''' then verr (NodeAlreadyPinned n (vs_pinned s n)) s
      else s\<lparr>vs_pinned := (vs_pinned s)(n := mid)\<rparr>)"

definition valid_policy :: "node_id list \<Rightarrow> string list \<Rightarrow> valid_state \<Rightarrow> policy \<Rightarrow> valid_state" where
  "valid_policy nodeIDs modelIDs s p =
     (let s = (if po_ModelID p \<notin> set modelIDs then verr (UnknownModel (po_ModelID p)) s else s);
          s = (if vs_seen s (po_ModelID p) then verr (DuplicatePolicy (po_ModelID p)) s else s);
          s = s\<lparr>vs_seen := (vs_seen s)(po_ModelID p := True)\<rparr>;
          s = foldl (\<lambda>s c. if \<not> IsClass c then verr (UnknownClass c) s else s) s (po_Classes p)
      in if po_Mode p = ModePin then
           (let s = (if length (po_Nodes p) = 0 then verr (PinNeedsNodes (po_ModelID p)) s else s)
            in foldl (valid_pin (po_ModelID p) nodeIDs) s (po_Nodes p))
         else if po_Mode p = ModeReplicas then
           (if po_Replicas p < 1 then verr (ReplicasTooFew (po_ModelID p)) s else s)
         else if po_Mode p = ModePercent then
           (let s = (if \<not> (po_Percent p > 0 \<and> po_Percent p \<le> 100) then verr (PercentRange (po_ModelID p)) s else s)
            in foldl (\<lambda>s c. if matchesClass (po_Classes p) (dc_ID c)
                            then s\<lparr>vs_classPercent := (vs_classPercent s)(dc_ID c := vs_classPercent s (dc_ID c) + po_Percent p)\<rparr>
                            else s) s Classes)
         else verr (BadMode (po_ModelID p)) s)"

definition validate :: "spec \<Rightarrow> node_id list \<Rightarrow> string list \<Rightarrow> spec_error list" where
  "validate sc nodeIDs modelIDs =
     (let s = foldl (valid_policy nodeIDs modelIDs)
                \<lparr>vs_errs = [], vs_seen = (\<lambda>_. False), vs_pinned = (\<lambda>_. ''''), vs_classPercent = (\<lambda>_. 0)\<rparr> (sc_Policies sc);
          s = foldl (\<lambda>s c. if vs_classPercent s (dc_ID c) > 100
                           then verr (ClassPercent (dc_ID c) (vs_classPercent s (dc_ID c))) s else s) s Classes;
          s = (if sc_DefaultModel sc \<noteq> '''' \<and> sc_DefaultModel sc \<notin> set modelIDs
               then verr (UnknownDefault (sc_DefaultModel sc)) s else s)
      in vs_errs s)"

subsection \<open>Lookup by id\<close>

lemma by_node_eq: "by_node nodes = map_of (map (\<lambda>n. (pn_ID n, n)) (rev nodes))"
proof -
  have "foldl (\<lambda>f n. f(pn_ID n \<mapsto> n)) g nodes = g ++ map_of (map (\<lambda>n. (pn_ID n, n)) (rev nodes))" for g
    by (induction nodes arbitrary: g) (auto simp: map_add_def fun_eq_iff split: option.splits)
  from this [of Map.empty] show ?thesis by (simp add: by_node_def)
qed

lemma by_model_eq: "by_model models = map_of (map (\<lambda>m. (pm_ID m, m)) (rev models))"
proof -
  have "foldl (\<lambda>f m. f(pm_ID m \<mapsto> m)) g models = g ++ map_of (map (\<lambda>m. (pm_ID m, m)) (rev models))" for g
    by (induction models arbitrary: g) (auto simp: map_add_def fun_eq_iff split: option.splits)
  from this [of Map.empty] show ?thesis by (simp add: by_model_def)
qed

lemma by_node_Some: "by_node nodes i = Some n \<Longrightarrow> n \<in> set nodes \<and> pn_ID n = i"
  by (auto simp: by_node_eq dest!: map_of_SomeD)

lemma by_model_Some: "by_model models i = Some m \<Longrightarrow> m \<in> set models \<and> pm_ID m = i"
  by (auto simp: by_model_eq dest!: map_of_SomeD)

lemma by_node_distinct: "distinct (map pn_ID nodes) \<Longrightarrow> n \<in> set nodes \<Longrightarrow> by_node nodes (pn_ID n) = Some n"
  by (auto simp: by_node_eq rev_map [symmetric] comp_def intro!: map_of_is_SomeI)

lemma mk_assignment_simps [simp]:
  "as_NodeID (mk_assignment n m r) = pn_ID n" "as_ModelID (mk_assignment n m r) = pm_ID m"
  "as_Reason (mk_assignment n m r) = r" "as_Fits (mk_assignment n m r) = fitsNode m n"
  "as_CtxSize (mk_assignment n m r) = CtxSize m" "as_Slots (mk_assignment n m r) = 1"
  "as_KVType (mk_assignment n m r) = ''auto''"
  by (simp_all add: mk_assignment_def)

lemma warn_simps [simp]:
  "ps_assigned (warn w st) = ps_assigned st" "ps_warnings (warn w st) = ps_warnings st @ [w]"
  by (simp_all add: warn_def)

lemma assign_simps [simp]:
  "ps_assigned (assign m r st n) = (ps_assigned st)(pn_ID n \<mapsto> mk_assignment n m r)"
  "ps_warnings (assign m r st n) = ps_warnings st"
  by (simp_all add: assign_def)

lemma keep_row_simps [simp]:
  "as_NodeID (keep_row byModel n) = pn_ID n" "as_ModelID (keep_row byModel n) = pn_CurrentModel n"
  "as_Reason (keep_row byModel n) = (if pn_CurrentModel n = '''' then ReasonNone else ReasonKeep)"
  by (simp_all add: keep_row_def Let_def split: option.splits)

lemma wait_warnings_assigned [simp]: "ps_assigned (wait_warnings sc byModel st) = ps_assigned st"
proof -
  have W: "ps_assigned (foldl (\<lambda>st p. if byModel (po_ModelID p) = None then warn (PolicyWaits (po_ModelID p) (po_Mode p)) st else st) st ps)
      = ps_assigned st" for ps
    by (induction ps arbitrary: st) auto
  show ?thesis unfolding wait_warnings_def Let_def by (simp only: W warn_simps split: if_split) simp
qed

subsection \<open>One step at a time\<close>

lemma assigned_model_None [simp]: "ps_assigned st i = None \<Longrightarrow> assigned_model (ps_assigned st) i = ''''"
  by (simp add: assigned_model_def)

lemma pin_node_assigned:
  "ps_assigned (pin_node minTokS byNode p m st i) =
     (case byNode i of
        None \<Rightarrow> ps_assigned st
      | Some n \<Rightarrow> if assigned_model (ps_assigned st) i \<noteq> '''' then ps_assigned st
                  else (ps_assigned st)(pn_ID n \<mapsto> mk_assignment n m ReasonPin))"
  by (simp add: pin_node_def Let_def split: option.splits)

lemma foldl_assign:
  "ps_assigned (foldl (assign m r) st ns) = ps_assigned st ++ map_of (map (\<lambda>n. (pn_ID n, mk_assignment n m r)) (rev ns))"
  by (induction ns arbitrary: st) (auto simp: map_add_def fun_eq_iff split: option.splits)

lemma foldl_assign_warnings [simp]: "ps_warnings (foldl (assign m r) st ns) = ps_warnings st"
  by (induction ns arbitrary: st) auto

text \<open>The nodes that a replicas or percent policy takes.\<close>

definition free_nodes ::
  "real \<Rightarrow> plan_node list \<Rightarrow> policy \<Rightarrow> plan_model \<Rightarrow> plan_state \<Rightarrow> plan_node list" where
  "free_nodes minTokS nodes p m st = sort_key (prefer_key (pm_ID m))
     (filter (\<lambda>n. eligible p m (effectiveMinTokS p minTokS) n \<and> assigned_model (ps_assigned st) (pn_ID n) = '''') nodes)"

definition eligible_nodes :: "real \<Rightarrow> plan_node list \<Rightarrow> policy \<Rightarrow> plan_model \<Rightarrow> plan_node list" where
  "eligible_nodes minTokS nodes p m = filter (eligible p m (effectiveMinTokS p minTokS)) nodes"

definition wanted :: "real \<Rightarrow> plan_node list \<Rightarrow> string \<Rightarrow> policy \<Rightarrow> plan_model \<Rightarrow> int" where
  "wanted minTokS nodes mode p m = want_nodes mode p (length (eligible_nodes minTokS nodes p m))"

definition taken :: "real \<Rightarrow> plan_node list \<Rightarrow> string \<Rightarrow> policy \<Rightarrow> plan_model \<Rightarrow> plan_state \<Rightarrow> plan_node list" where
  "taken minTokS nodes mode p m st =
     take (nat (min (wanted minTokS nodes mode p m) (int (length (free_nodes minTokS nodes p m st)))))
       (free_nodes minTokS nodes p m st)"

lemma set_free_nodes:
  "set (free_nodes minTokS nodes p m st) =
     {n \<in> set nodes. eligible p m (effectiveMinTokS p minTokS) n \<and> assigned_model (ps_assigned st) (pn_ID n) = ''''}"
  by (auto simp: free_nodes_def)

lemma set_taken: "set (taken minTokS nodes mode p m st) \<subseteq> set (free_nodes minTokS nodes p m st)"
  by (auto simp: taken_def dest: in_set_takeD)

lemma count_policy_unfold:
  assumes "byModel (po_ModelID p) = Some m"
  shows "count_policy minTokS byModel nodes mode st p =
    (if eligible_nodes minTokS nodes p m = [] then
       Some (warn (ZeroNodes (pm_ID m) (noFitReason m p nodes (effectiveMinTokS p minTokS))) st)
     else if min (wanted minTokS nodes mode p m) (int (length (free_nodes minTokS nodes p m st))) < 0 then None
     else Some (let st' = foldl (assign m mode) st (taken minTokS nodes mode p m st) in
       if int (length (free_nodes minTokS nodes p m st)) < wanted minTokS nodes mode p m
       then warn (OnlyFree (pm_ID m) (wanted minTokS nodes mode p m) (int (length (free_nodes minTokS nodes p m st)))) st'
       else st'))"
proof -
  have "(min w l < w) = (l < w)" "min w l < w \<Longrightarrow> min w l = l" for w l :: int by auto
  then show ?thesis
    using assms
    by (auto simp: count_policy_def Let_def eligible_nodes_def free_nodes_def wanted_def taken_def)
qed

lemma count_policy_Some:
  assumes "count_policy minTokS byModel nodes mode st p = Some st'" "byModel (po_ModelID p) = Some m"
  shows "ps_assigned st' = (if eligible_nodes minTokS nodes p m = [] then ps_assigned st
      else ps_assigned st ++ map_of (map (\<lambda>n. (pn_ID n, mk_assignment n m mode)) (rev (taken minTokS nodes mode p m st))))"
  using assms(1) unfolding count_policy_unfold [where byModel = byModel and p = p and m = m, OF assms(2)]
  by (auto simp: foldl_assign Let_def split: if_splits)

lemma final_row_assigned:
  "ps_assigned (fst (final_row minTokS byModel d (st, ts, out) n)) =
     (case ps_assigned st (pn_ID n) of Some a \<Rightarrow> ps_assigned st
      | None \<Rightarrow> (case byModel d of
          Some dm \<Rightarrow> if \<not> pn_Drained n \<and> fitsNode dm n \<and> meetsSpeed dm n minTokS
                     then (ps_assigned st)(pn_ID n \<mapsto> mk_assignment n dm ReasonDefault) else ps_assigned st
        | None \<Rightarrow> ps_assigned st))"
  by (auto simp: final_row_def Let_def split: option.splits)

lemma final_row_out:
  "snd (snd (final_row minTokS byModel d (st, ts, out) n)) = out @
     [case ps_assigned (fst (final_row minTokS byModel d (st, ts, out) n)) (pn_ID n) of
        Some a \<Rightarrow> a | None \<Rightarrow> keep_row byModel n]"
  by (auto simp: final_row_def Let_def split: option.splits)

subsection \<open>The plan in closed form\<close>

text \<open>What the last loop writes for a node, given the state before it.\<close>

definition default_row ::
  "real \<Rightarrow> (string \<Rightarrow> plan_model option) \<Rightarrow> string \<Rightarrow> assigned_map \<Rightarrow> plan_node \<Rightarrow> assignment" where
  "default_row minTokS byModel d asg n =
     (case asg (pn_ID n) of
        Some a \<Rightarrow> a
      | None \<Rightarrow>
          (case byModel d of
             Some dm \<Rightarrow> if \<not> pn_Drained n \<and> fitsNode dm n \<and> meetsSpeed dm n minTokS
                        then mk_assignment n dm ReasonDefault else keep_row byModel n
           | None \<Rightarrow> keep_row byModel n))"

lemma final_row_eq:
  "\<exists>st' ts'. final_row minTokS byModel d (st, ts, out) n =
       (st', ts', out @ [default_row minTokS byModel d (ps_assigned st) n]) \<and>
    (\<forall>i. i \<noteq> pn_ID n \<longrightarrow> ps_assigned st' i = ps_assigned st i) \<and> set (ps_warnings st) \<subseteq> set (ps_warnings st')"
  by (auto simp: final_row_def default_row_def Let_def split: option.splits)

lemma default_row_cong:
  "asg (pn_ID n) = asg' (pn_ID n) \<Longrightarrow> default_row minTokS byModel d asg n = default_row minTokS byModel d asg' n"
  by (simp add: default_row_def)

lemma final_rows:
  assumes "distinct (map pn_ID ns)"
  shows "\<exists>st' ts'. foldl (final_row minTokS byModel d) (st, ts, out) ns =
      (st', ts', out @ map (default_row minTokS byModel d (ps_assigned st)) ns) \<and>
    set (ps_warnings st) \<subseteq> set (ps_warnings st')"
  using assms
proof (induction ns arbitrary: st ts out)
  case Nil
  then show ?case by simp
next
  case (Cons n ns)
  obtain st1 ts1 where 1: "final_row minTokS byModel d (st, ts, out) n =
      (st1, ts1, out @ [default_row minTokS byModel d (ps_assigned st) n])"
    "\<forall>i. i \<noteq> pn_ID n \<longrightarrow> ps_assigned st1 i = ps_assigned st i" "set (ps_warnings st) \<subseteq> set (ps_warnings st1)"
    using final_row_eq by blast
  have "pn_ID x \<noteq> pn_ID n" if "x \<in> set ns" for x
  proof -
    have "pn_ID n \<notin> pn_ID ` set ns" using Cons.prems by simp
    with that show ?thesis by (metis imageI)
  qed
  then have "map (default_row minTokS byModel d (ps_assigned st1)) ns = map (default_row minTokS byModel d (ps_assigned st)) ns"
    using 1(2) by (intro map_cong refl default_row_cong) blast
  moreover have "distinct (map pn_ID ns)" using Cons.prems by simp
  from Cons.IH [OF this, of st1 ts1 "out @ [default_row minTokS byModel d (ps_assigned st) n]"] obtain st' ts' where
    "foldl (final_row minTokS byModel d) (st1, ts1, out @ [default_row minTokS byModel d (ps_assigned st) n]) ns =
      (st', ts', (out @ [default_row minTokS byModel d (ps_assigned st) n]) @
         map (default_row minTokS byModel d (ps_assigned st1)) ns)"
    "set (ps_warnings st1) \<subseteq> set (ps_warnings st')"
    by blast
  moreover have "set (ps_warnings st) \<subseteq> set (ps_warnings st')"
    using 1(3) \<open>set (ps_warnings st1) \<subseteq> set (ps_warnings st')\<close> by (rule subset_trans)
  ultimately show ?case by (intro exI [of _ st'] exI [of _ ts']) (simp add: 1(1))
qed

text \<open>The state after pins, replicas and percentages.\<close>

definition pinned_state :: "real \<Rightarrow> spec \<Rightarrow> plan_node list \<Rightarrow> plan_model list \<Rightarrow> plan_state" where
  "pinned_state minTokS sc nodes models =
     foldl (pin_policy minTokS (by_model models) (by_node nodes))
       (wait_warnings sc (by_model models) \<lparr>ps_assigned = (\<lambda>_. None), ps_warnings = []\<rparr>) (sc_Policies sc)"

definition staged :: "real \<Rightarrow> spec \<Rightarrow> plan_node list \<Rightarrow> plan_model list \<Rightarrow> plan_state option" where
  "staged minTokS sc nodes models =
     fold_opt (count_policies minTokS (by_model models) nodes sc) (pinned_state minTokS sc nodes models)
       [ModeReplicas, ModePercent]"

lemma make_plan_staged:
  assumes "make_plan minTokS sc nodes models = Some pl" "distinct (map pn_ID nodes)"
  obtains st where "staged minTokS sc (sort_key pn_ID nodes) models = Some st"
    "pl_Assignments pl = map (default_row minTokS (by_model models) (sc_DefaultModel sc) (ps_assigned st)) (sort_key pn_ID nodes)"
    "set (ps_warnings st) \<subseteq> set (pl_Warnings pl)"
proof -
  let ?ns = "sort_key pn_ID nodes"
  have d: "distinct (map pn_ID ?ns)"
    using assms(2) by (metis distinct_map distinct_sort set_sort)
  obtain st where st: "staged minTokS sc ?ns models = Some st"
    using assms(1) by (auto simp: make_plan_def Let_def staged_def pinned_state_def split: option.splits)
  obtain st' ts' where f: "foldl (final_row minTokS (by_model models) (sc_DefaultModel sc)) (st, [], []) ?ns =
      (st', ts', [] @ map (default_row minTokS (by_model models) (sc_DefaultModel sc) (ps_assigned st)) ?ns)"
    "set (ps_warnings st) \<subseteq> set (ps_warnings st')"
    using final_rows [OF d] by blast
  have "pl = \<lparr>pl_Assignments = map (default_row minTokS (by_model models) (sc_DefaultModel sc) (ps_assigned st)) ?ns,
      pl_Warnings = ps_warnings (if ts' \<noteq> [] then warn (DefaultTooSmall (sc_DefaultModel sc) ts') st' else st')\<rparr>"
    using assms(1) st f(1)
    unfolding make_plan_def staged_def pinned_state_def Let_def by simp
  with st f(2) that show thesis by (simp add: subset_iff)
qed

lemma make_plan_None:
  "make_plan minTokS sc nodes models = None \<longleftrightarrow> staged minTokS sc (sort_key pn_ID nodes) models = None"
  by (simp add: make_plan_def staged_def pinned_state_def Let_def case_prod_beta split: option.splits)

subsection \<open>Why a node runs what it runs\<close>

definition row_justified :: "real \<Rightarrow> spec \<Rightarrow> plan_model list \<Rightarrow> plan_node \<Rightarrow> assignment \<Rightarrow> bool" where
  "row_justified minTokS sc models n a \<longleftrightarrow>
     (\<exists>p \<in> set (sc_Policies sc). \<exists>m. po_Mode p = ModePin \<and> by_model models (po_ModelID p) = Some m \<and>
        pn_ID n \<in> set (po_Nodes p) \<and> a = mk_assignment n m ReasonPin) \<or>
     (\<exists>p \<in> set (sc_Policies sc). \<exists>m. po_Mode p \<in> {ModeReplicas, ModePercent} \<and> by_model models (po_ModelID p) = Some m \<and>
        eligible p m (effectiveMinTokS p minTokS) n \<and> a = mk_assignment n m (po_Mode p)) \<or>
     (\<exists>m. by_model models (sc_DefaultModel sc) = Some m \<and> \<not> pn_Drained n \<and> fitsNode m n \<and> meetsSpeed m n minTokS \<and>
        a = mk_assignment n m ReasonDefault) \<or>
     a = keep_row (by_model models) n"

definition assigned_ok :: "real \<Rightarrow> spec \<Rightarrow> plan_node list \<Rightarrow> plan_model list \<Rightarrow> plan_state \<Rightarrow> bool" where
  "assigned_ok minTokS sc nodes models st \<longleftrightarrow>
     (\<forall>i a. ps_assigned st i = Some a \<longrightarrow> (\<exists>n \<in> set nodes. pn_ID n = i \<and> row_justified minTokS sc models n a))"

lemma assigned_ok_upd:
  assumes "assigned_ok minTokS sc nodes models st" "ps_assigned st' = (ps_assigned st)(pn_ID n \<mapsto> a)"
    and "n \<in> set nodes" "row_justified minTokS sc models n a"
  shows "assigned_ok minTokS sc nodes models st'"
  using assms by (auto simp: assigned_ok_def)

lemma assigned_ok_cong:
  "assigned_ok minTokS sc nodes models st \<Longrightarrow> ps_assigned st' = ps_assigned st \<Longrightarrow> assigned_ok minTokS sc nodes models st'"
  by (simp add: assigned_ok_def)

lemma pinned_state_ok: "assigned_ok minTokS sc nodes models (pinned_state minTokS sc nodes models)"
  unfolding pinned_state_def
proof (rule foldl_invariant [where I = "assigned_ok minTokS sc nodes models"])
  show "assigned_ok minTokS sc nodes models
      (wait_warnings sc (by_model models) \<lparr>ps_assigned = (\<lambda>_. None), ps_warnings = []\<rparr>)"
    by (simp add: assigned_ok_def)
next
  fix st p
  assume p: "p \<in> set (sc_Policies sc)" and ok: "assigned_ok minTokS sc nodes models st"
  show "assigned_ok minTokS sc nodes models (pin_policy minTokS (by_model models) (by_node nodes) st p)"
  proof (cases "\<exists>m. by_model models (po_ModelID p) = Some m \<and> po_Mode p = ModePin")
    case True
    then obtain m where m: "by_model models (po_ModelID p) = Some m" "po_Mode p = ModePin" by blast
    have "assigned_ok minTokS sc nodes models (foldl (pin_node minTokS (by_node nodes) p m) st (po_Nodes p))"
    proof (rule foldl_invariant [where I = "assigned_ok minTokS sc nodes models", OF ok])
      fix st i
      assume i: "i \<in> set (po_Nodes p)" and st: "assigned_ok minTokS sc nodes models st"
      show "assigned_ok minTokS sc nodes models (pin_node minTokS (by_node nodes) p m st i)"
      proof (cases "\<exists>n. by_node nodes i = Some n \<and> assigned_model (ps_assigned st) i = ''''")
        case True
        then obtain n where n: "by_node nodes i = Some n" "assigned_model (ps_assigned st) i = ''''" by blast
        have "row_justified minTokS sc models n (mk_assignment n m ReasonPin)"
          unfolding row_justified_def using p m i by_node_Some [OF n(1)] by blast
        then show ?thesis
          using by_node_Some [OF n(1)] by (intro assigned_ok_upd [OF st, where n = n]) (simp_all add: pin_node_assigned n)
      next
        case False
        then show ?thesis by (intro assigned_ok_cong [OF st]) (auto simp: pin_node_assigned split: option.splits)
      qed
    qed
    with m show ?thesis by (simp add: pin_policy_def)
  next
    case False
    with ok show ?thesis by (auto simp: pin_policy_def split: option.splits)
  qed
qed

lemma set_mode_policies:
  "set (mode_policies byModel mode sc) = {p \<in> set (sc_Policies sc). byModel (po_ModelID p) \<noteq> None \<and> po_Mode p = mode}"
  by (auto simp: mode_policies_def)

lemma count_policy_ok:
  assumes "assigned_ok minTokS sc nodes models st"
    and "count_policy minTokS (by_model models) nodes (po_Mode p) st p = Some st'"
    and "p \<in> set (sc_Policies sc)" "po_Mode p \<in> {ModeReplicas, ModePercent}" "by_model models (po_ModelID p) = Some m"
  shows "assigned_ok minTokS sc nodes models st'"
proof -
  let ?taken = "taken minTokS nodes (po_Mode p) p m st"
  have "row_justified minTokS sc models n (mk_assignment n m (po_Mode p)) \<and> n \<in> set nodes" if "n \<in> set ?taken" for n
    using that set_taken [of minTokS nodes "po_Mode p" p m st] assms(3-5)
    unfolding set_free_nodes row_justified_def by blast
  note new = this
  show ?thesis
  proof (unfold assigned_ok_def, intro allI impI)
    fix i a
    assume a: "ps_assigned st' i = Some a"
    show "\<exists>n \<in> set nodes. pn_ID n = i \<and> row_justified minTokS sc models n a"
    proof (cases "ps_assigned st i = Some a")
      case True
      with assms(1) show ?thesis by (simp add: assigned_ok_def)
    next
      case False
      with a count_policy_Some [OF assms(2,5)]
      have "map_of (map (\<lambda>n. (pn_ID n, mk_assignment n m (po_Mode p))) (rev ?taken)) i = Some a"
        by (auto simp: map_add_def split: if_splits option.splits)
      from map_of_SomeD [OF this] obtain n where "n \<in> set ?taken" "pn_ID n = i" "a = mk_assignment n m (po_Mode p)"
        by auto
      with new show ?thesis by blast
    qed
  qed
qed

lemma staged_ok:
  assumes "staged minTokS sc nodes models = Some st"
  shows "assigned_ok minTokS sc nodes models st"
  using assms unfolding staged_def
proof (rule fold_opt_invariant [where I = "assigned_ok minTokS sc nodes models", OF _ pinned_state_ok])
  fix st mode st'
  assume mode: "mode \<in> set [ModeReplicas, ModePercent]" and ok: "assigned_ok minTokS sc nodes models st"
    and step: "count_policies minTokS (by_model models) nodes sc st mode = Some st'"
  show "assigned_ok minTokS sc nodes models st'"
    using step unfolding count_policies_def
  proof (rule fold_opt_invariant [where I = "assigned_ok minTokS sc nodes models", OF _ ok])
    fix st p st'
    assume p: "p \<in> set (mode_policies (by_model models) mode sc)" "assigned_ok minTokS sc nodes models st"
      "count_policy minTokS (by_model models) nodes mode st p = Some st'"
    from p(1) obtain m where m: "p \<in> set (sc_Policies sc)" "po_Mode p = mode" "by_model models (po_ModelID p) = Some m"
      by (auto simp: set_mode_policies)
    from count_policy_ok [of minTokS sc nodes models st p st' m] p m mode
    show "assigned_ok minTokS sc nodes models st'" by simp
  qed
qed

lemma distinct_ID_eq:
  "distinct (map pn_ID nodes) \<Longrightarrow> n \<in> set nodes \<Longrightarrow> n' \<in> set nodes \<Longrightarrow> pn_ID n = pn_ID n' \<Longrightarrow> n = n'"
  by (auto simp: distinct_map dest: inj_onD)

lemma plan_rows:
  assumes "make_plan minTokS sc nodes models = Some pl" "distinct (map pn_ID nodes)"
  shows "map as_NodeID (pl_Assignments pl) = sort (map pn_ID nodes) \<and>
    list_all2 (row_justified minTokS sc models) (sort_key pn_ID nodes) (pl_Assignments pl)"
proof -
  let ?ns = "sort_key pn_ID nodes"
  obtain st where st: "staged minTokS sc ?ns models = Some st"
    and rows: "pl_Assignments pl = map (default_row minTokS (by_model models) (sc_DefaultModel sc) (ps_assigned st)) ?ns"
    using make_plan_staged [OF assms] by blast
  have d: "distinct (map pn_ID ?ns)"
    using assms(2) by (metis distinct_map distinct_sort set_sort)
  have row: "row_justified minTokS sc models n (default_row minTokS (by_model models) (sc_DefaultModel sc) (ps_assigned st) n) \<and>
      as_NodeID (default_row minTokS (by_model models) (sc_DefaultModel sc) (ps_assigned st) n) = pn_ID n"
    if n: "n \<in> set ?ns" for n
  proof (cases "ps_assigned st (pn_ID n)")
    case (Some a)
    with staged_ok [OF st] obtain n' where n': "n' \<in> set ?ns" "pn_ID n' = pn_ID n" "row_justified minTokS sc models n' a"
      unfolding assigned_ok_def by blast
    then have "n' = n" using distinct_ID_eq [OF d] n by blast
    with n' Some show ?thesis by (auto simp: default_row_def row_justified_def)
  next
    case None
    then show ?thesis by (auto simp: default_row_def row_justified_def split: option.splits)
  qed
  have "map as_NodeID (pl_Assignments pl) = map pn_ID ?ns" using row by (simp add: rows)
  also have "\<dots> = sort (map pn_ID nodes)"
    by (metis sort_key_def set_sort sorted_sort_key mset_map mset_sort properties_for_sort)
  finally show ?thesis
    using row by (simp add: rows list.rel_map list_all2_same)
qed

text \<open>
  C4. Every plan has exactly one row per node, in the order of the node ids, and every row
  is justified: a pin names the node; a replicas or percent row comes from a policy of that
  mode whose class filter, memory and speed checks the undrained node passes; the default
  model fits an undrained node and is fast enough; otherwise the node keeps what it serves.
\<close>

theorem plan_rows_justified:
  assumes "make_plan minTokS sc nodes models = Some pl" "distinct (map pn_ID nodes)"
  shows "map as_NodeID (pl_Assignments pl) = sort (map pn_ID nodes) \<and>
    list_all2 (row_justified minTokS sc models) (sort_key pn_ID nodes) (pl_Assignments pl)"
  by (rule plan_rows [OF assms])

subsection \<open>When planning panics\<close>

lemma percentOf_nonneg: "0 \<le> percentOf p n"
  by (auto simp: percentOf_def le_max_iff_disj)

lemma count_policy_None:
  "count_policy minTokS (by_model models) nodes mode st p = None \<longleftrightarrow>
     (\<exists>m. by_model models (po_ModelID p) = Some m \<and> eligible_nodes minTokS nodes p m \<noteq> [] \<and>
          mode \<noteq> ModePercent \<and> po_Replicas p < 0)"
proof (cases "by_model models (po_ModelID p)")
  case None
  then show ?thesis by (simp add: count_policy_def)
next
  case (Some m)
  have "wanted minTokS nodes mode p m < 0 \<longleftrightarrow> mode \<noteq> ModePercent \<and> po_Replicas p < 0"
    using percentOf_nonneg by (auto simp: wanted_def want_nodes_def not_less)
  then have "min (wanted minTokS nodes mode p m) (int (length (free_nodes minTokS nodes p m st))) < 0 \<longleftrightarrow>
      mode \<noteq> ModePercent \<and> po_Replicas p < 0"
    by (auto simp: min_less_iff_disj)
  then show ?thesis
    unfolding count_policy_unfold [where byModel = "by_model models" and p = p and m = m, OF Some]
    using Some by (simp add: Let_def)
qed

lemma count_policies_None:
  "count_policies minTokS (by_model models) nodes sc st mode = None \<longleftrightarrow>
     (\<exists>p m. p \<in> set (sc_Policies sc) \<and> po_Mode p = mode \<and> by_model models (po_ModelID p) = Some m \<and>
        eligible_nodes minTokS nodes p m \<noteq> [] \<and> mode \<noteq> ModePercent \<and> po_Replicas p < 0)"
proof
  assume "count_policies minTokS (by_model models) nodes sc st mode = None"
  then obtain s p where "p \<in> set (mode_policies (by_model models) mode sc)"
    "count_policy minTokS (by_model models) nodes mode s p = None"
    unfolding count_policies_def by (auto dest: fold_opt_None)
  then show "\<exists>p m. p \<in> set (sc_Policies sc) \<and> po_Mode p = mode \<and> by_model models (po_ModelID p) = Some m \<and>
        eligible_nodes minTokS nodes p m \<noteq> [] \<and> mode \<noteq> ModePercent \<and> po_Replicas p < 0"
    by (auto simp: set_mode_policies count_policy_None)
next
  assume "\<exists>p m. p \<in> set (sc_Policies sc) \<and> po_Mode p = mode \<and> by_model models (po_ModelID p) = Some m \<and>
        eligible_nodes minTokS nodes p m \<noteq> [] \<and> mode \<noteq> ModePercent \<and> po_Replicas p < 0"
  then obtain p where p: "p \<in> set (mode_policies (by_model models) mode sc)"
    "\<And>st. count_policy minTokS (by_model models) nodes mode st p = None"
    by (auto simp: set_mode_policies count_policy_None)
  show "count_policies minTokS (by_model models) nodes sc st mode = None"
    unfolding count_policies_def by (rule fold_opt_panics [OF p(1)]) (rule p(2))
qed

definition panicking_policy :: "real \<Rightarrow> plan_node list \<Rightarrow> plan_model list \<Rightarrow> policy \<Rightarrow> bool" where
  "panicking_policy minTokS nodes models p \<longleftrightarrow>
     po_Mode p = ModeReplicas \<and> po_Replicas p < 0 \<and>
     (\<exists>m. by_model models (po_ModelID p) = Some m \<and>
        (\<exists>n \<in> set nodes. eligible p m (effectiveMinTokS p minTokS) n))"

lemma staged_None:
  "staged minTokS sc nodes models = None \<longleftrightarrow> (\<exists>p \<in> set (sc_Policies sc). panicking_policy minTokS nodes models p)"
proof -
  have pct: "count_policies minTokS (by_model models) nodes sc st ModePercent \<noteq> None" for st
    using count_policies_None [of minTokS models nodes sc st ModePercent] by simp
  have "staged minTokS sc nodes models = None \<longleftrightarrow>
      count_policies minTokS (by_model models) nodes sc (pinned_state minTokS sc nodes models) ModeReplicas = None"
  proof (cases "count_policies minTokS (by_model models) nodes sc (pinned_state minTokS sc nodes models) ModeReplicas")
    case (Some st)
    with pct [of st] show ?thesis by (auto simp: staged_def)
  qed (simp add: staged_def)
  then show ?thesis
    by (auto simp: count_policies_None panicking_policy_def eligible_nodes_def filter_empty_conv)
qed

text \<open>
  The planner panics (slices with a negative bound) exactly when some replicas policy
  with a negative count names a ready model for which at least one node is eligible; every
  other specification, valid or not, gets a plan.
\<close>

theorem plan_panics_iff:
  "make_plan minTokS sc nodes models = None \<longleftrightarrow> (\<exists>p \<in> set (sc_Policies sc). panicking_policy minTokS nodes models p)"
  by (simp add: make_plan_None staged_None panicking_policy_def)

subsection \<open>Validated specifications\<close>

definition pin_nodes :: "policy list \<Rightarrow> node_id list" where
  "pin_nodes ps = concat (map po_Nodes (filter (\<lambda>p. po_Mode p = ModePin) ps))"

lemma valid_pins:
  assumes "vs_errs (foldl (valid_pin mid nids) s ns) = []" "mid \<noteq> ''''"
  shows "vs_errs s = [] \<and> distinct ns \<and> set ns \<subseteq> set nids \<and> (\<forall>n \<in> set ns. vs_pinned s n = '''') \<and>
    vs_pinned (foldl (valid_pin mid nids) s ns) = (\<lambda>n. if n \<in> set ns then mid else vs_pinned s n) \<and>
    vs_seen (foldl (valid_pin mid nids) s ns) = vs_seen s"
  using assms(1)
proof (induction ns arbitrary: s)
  case Nil
  then show ?case by simp
next
  case (Cons n ns)
  from Cons.IH [of "valid_pin mid nids s n"] Cons.prems
  have IH: "vs_errs (valid_pin mid nids s n) = []" "distinct ns" "set ns \<subseteq> set nids"
    "\<forall>x \<in> set ns. vs_pinned (valid_pin mid nids s n) x = ''''"
    "vs_pinned (foldl (valid_pin mid nids) s (n # ns)) =
      (\<lambda>x. if x \<in> set ns then mid else vs_pinned (valid_pin mid nids s n) x)"
    "vs_seen (foldl (valid_pin mid nids) s (n # ns)) = vs_seen (valid_pin mid nids s n)"
    by simp_all
  have n: "n \<in> set nids" "vs_pinned s n = ''''" "vs_errs s = []"
    "valid_pin mid nids s n = s\<lparr>vs_pinned := (vs_pinned s)(n := mid)\<rparr>"
    using IH(1) by (auto simp: valid_pin_def verr_def split: if_splits)
  have "n \<notin> set ns" using IH(4) n(4) assms(2) by auto
  with IH n show ?case by (auto simp: fun_eq_iff split: if_splits)
qed

lemma valid_classes:
  "vs_errs (foldl (\<lambda>s c. if \<not> IsClass c then verr (UnknownClass c) s else s) s cs) = [] \<Longrightarrow>
     (\<forall>c \<in> set cs. IsClass c) \<and> foldl (\<lambda>s c. if \<not> IsClass c then verr (UnknownClass c) s else s) s cs = s"
proof (induction cs rule: rev_induct)
  case (snoc c cs)
  then show ?case by (auto simp: verr_def split: if_splits)
qed simp

lemma class_percent_frame:
  "vs_errs (foldl (\<lambda>s c. if matchesClass f (dc_ID c)
      then s\<lparr>vs_classPercent := (vs_classPercent s)(dc_ID c := vs_classPercent s (dc_ID c) + x)\<rparr> else s) s cs) = vs_errs s"
  "vs_seen (foldl (\<lambda>s c. if matchesClass f (dc_ID c)
      then s\<lparr>vs_classPercent := (vs_classPercent s)(dc_ID c := vs_classPercent s (dc_ID c) + x)\<rparr> else s) s cs) = vs_seen s"
  "vs_pinned (foldl (\<lambda>s c. if matchesClass f (dc_ID c)
      then s\<lparr>vs_classPercent := (vs_classPercent s)(dc_ID c := vs_classPercent s (dc_ID c) + x)\<rparr> else s) s cs) = vs_pinned s"
  by (induction cs arbitrary: s) auto

text \<open>What a policy that adds no error satisfies.\<close>

definition policy_ok :: "node_id list \<Rightarrow> string list \<Rightarrow> policy \<Rightarrow> bool" where
  "policy_ok nids mids p \<longleftrightarrow>
     po_ModelID p \<in> set mids \<and> (\<forall>c \<in> set (po_Classes p). IsClass c) \<and>
     (po_Mode p = ModePin \<and> po_Nodes p \<noteq> [] \<and> set (po_Nodes p) \<subseteq> set nids \<or>
      po_Mode p = ModeReplicas \<and> 1 \<le> po_Replicas p \<or>
      po_Mode p = ModePercent \<and> 0 < po_Percent p \<and> po_Percent p \<le> 100)"

lemma valid_policy_ok:
  assumes "vs_errs (valid_policy nids mids s p) = []" "'''' \<notin> set mids"
  shows "vs_errs s = [] \<and> policy_ok nids mids p \<and> \<not> vs_seen s (po_ModelID p) \<and>
    vs_seen (valid_policy nids mids s p) = (vs_seen s)(po_ModelID p := True) \<and>
    (if po_Mode p = ModePin then distinct (po_Nodes p) \<and> (\<forall>n \<in> set (po_Nodes p). vs_pinned s n = '''') \<and>
       vs_pinned (valid_policy nids mids s p) = (\<lambda>n. if n \<in> set (po_Nodes p) then po_ModelID p else vs_pinned s n)
     else vs_pinned (valid_policy nids mids s p) = vs_pinned s)"
proof -
  define s1 where "s1 = (if po_ModelID p \<notin> set mids then verr (UnknownModel (po_ModelID p)) s else s)"
  define s2 where "s2 = (if vs_seen s1 (po_ModelID p) then verr (DuplicatePolicy (po_ModelID p)) s1 else s1)"
  define s3 where "s3 = s2\<lparr>vs_seen := (vs_seen s2)(po_ModelID p := True)\<rparr>"
  define s4 where "s4 = foldl (\<lambda>s c. if \<not> IsClass c then verr (UnknownClass c) s else s) s3 (po_Classes p)"
  define s5 where "s5 = (if length (po_Nodes p) = 0 then verr (PinNeedsNodes (po_ModelID p)) s4 else s4)"
  define s6 where "s6 = (if \<not> (po_Percent p > 0 \<and> po_Percent p \<le> 100) then verr (PercentRange (po_ModelID p)) s4 else s4)"
  have eq: "valid_policy nids mids s p =
    (if po_Mode p = ModePin then foldl (valid_pin (po_ModelID p) nids) s5 (po_Nodes p)
     else if po_Mode p = ModeReplicas then (if po_Replicas p < 1 then verr (ReplicasTooFew (po_ModelID p)) s4 else s4)
     else if po_Mode p = ModePercent then
       foldl (\<lambda>s c. if matchesClass (po_Classes p) (dc_ID c)
         then s\<lparr>vs_classPercent := (vs_classPercent s)(dc_ID c := vs_classPercent s (dc_ID c) + po_Percent p)\<rparr> else s) s6 Classes
     else verr (BadMode (po_ModelID p)) s4)"
    unfolding valid_policy_def Let_def s1_def s2_def s3_def s4_def s5_def s6_def by (rule refl)
  have ok4: "vs_errs s = [] \<and> po_ModelID p \<in> set mids \<and> \<not> vs_seen s (po_ModelID p) \<and>
      (\<forall>c \<in> set (po_Classes p). IsClass c) \<and> vs_seen s4 = (vs_seen s)(po_ModelID p := True) \<and> vs_pinned s4 = vs_pinned s"
    if "vs_errs s4 = []"
  proof -
    from valid_classes [of s3 "po_Classes p"] that have "s4 = s3" "\<forall>c \<in> set (po_Classes p). IsClass c"
      unfolding s4_def by blast+
    with that show ?thesis by (auto simp: s3_def s2_def s1_def verr_def split: if_splits)
  qed
  consider "po_Mode p = ModePin" | "po_Mode p = ModeReplicas" | "po_Mode p = ModePercent"
    | "po_Mode p \<notin> {ModePin, ModeReplicas, ModePercent}" by auto
  then show ?thesis
  proof cases
    case 1
    have e: "vs_errs (foldl (valid_pin (po_ModelID p) nids) s5 (po_Nodes p)) = []" using assms(1) 1 by (simp add: eq)
    have ne: "vs_errs s5 = [] \<Longrightarrow> s5 = s4 \<and> po_Nodes p \<noteq> []" by (auto simp: s5_def verr_def split: if_splits)
    show ?thesis
    proof (cases "po_ModelID p = ''''")
      case False
      from valid_pins [OF e False] ne have s5: "s5 = s4" "po_Nodes p \<noteq> []" "vs_errs s4 = []" by auto
      have pins: "vs_pinned s4 = vs_pinned s" using ok4 [OF s5(3)] by blast
      note v = valid_pins [OF e False, unfolded s5(1) pins]
      show ?thesis
        unfolding eq s5(1) using v ok4 [OF s5(3)] 1 s5(2)
        by (simp add: policy_ok_def)
    next
      case True
      have mono: "vs_errs s = []" if "vs_errs (foldl (valid_pin mid nids) s ns) = []" for mid s ns
        using that
      proof (induction ns arbitrary: s)
        case (Cons n ns)
        from Cons.IH [of "valid_pin mid nids s n"] Cons.prems show ?case
          by (simp add: valid_pin_def verr_def split: if_splits)
      qed simp
      from mono [OF e] ne have "vs_errs s4 = []" by auto
      with ok4 True assms(2) show ?thesis by simp
    qed
  next
    case 2
    with assms(1) ok4 show ?thesis by (auto simp: eq policy_ok_def verr_def split: if_splits)
  next
    case 3
    then have "vs_errs s6 = []" using assms(1) by (simp add: eq class_percent_frame)
    then have "s6 = s4" "vs_errs s4 = []" "0 < po_Percent p" "po_Percent p \<le> 100"
      by (auto simp: s6_def verr_def split: if_splits)
    with ok4 3 show ?thesis by (simp add: eq class_percent_frame policy_ok_def)
  next
    case 4
    with assms(1) show ?thesis by (simp add: eq verr_def)
  qed
qed

lemma valid_policies:
  assumes "'''' \<notin> set mids"
  shows "vs_errs (foldl (valid_policy nids mids) s0 ps) = [] \<Longrightarrow>
    s0 = \<lparr>vs_errs = [], vs_seen = (\<lambda>_. False), vs_pinned = (\<lambda>_. ''''), vs_classPercent = (\<lambda>_. 0)\<rparr> \<Longrightarrow>
    distinct (map po_ModelID ps) \<and> distinct (pin_nodes ps) \<and> (\<forall>p \<in> set ps. policy_ok nids mids p) \<and>
    (\<forall>x. vs_seen (foldl (valid_policy nids mids) s0 ps) x \<longleftrightarrow> x \<in> set (map po_ModelID ps)) \<and>
    (\<forall>n. vs_pinned (foldl (valid_policy nids mids) s0 ps) n \<noteq> '''' \<longleftrightarrow> n \<in> set (pin_nodes ps))"
proof (induction ps rule: rev_induct)
  case Nil
  then show ?case by (simp add: pin_nodes_def)
next
  case (snoc p ps)
  let ?s = "foldl (valid_policy nids mids) s0 ps"
  have ok: "vs_errs ?s = [] \<and> policy_ok nids mids p \<and> \<not> vs_seen ?s (po_ModelID p) \<and>
    vs_seen (valid_policy nids mids ?s p) = (vs_seen ?s)(po_ModelID p := True) \<and>
    (if po_Mode p = ModePin then distinct (po_Nodes p) \<and> (\<forall>n \<in> set (po_Nodes p). vs_pinned ?s n = '''') \<and>
       vs_pinned (valid_policy nids mids ?s p) = (\<lambda>n. if n \<in> set (po_Nodes p) then po_ModelID p else vs_pinned ?s n)
     else vs_pinned (valid_policy nids mids ?s p) = vs_pinned ?s)"
    using valid_policy_ok [of nids mids ?s p] snoc.prems(1) assms by simp
  moreover have "po_ModelID p \<noteq> ''''" using ok assms by (auto simp: policy_ok_def)
  moreover note snoc.IH [OF _ snoc.prems(2)]
  moreover have "pin_nodes (ps @ [p]) = pin_nodes ps @ (if po_Mode p = ModePin then po_Nodes p else [])"
    by (simp add: pin_nodes_def)
  ultimately show ?case by (auto split: if_splits)
qed

lemma verr_fold_errs:
  "vs_errs (foldl (\<lambda>s c. if P s c then verr (e s c) s else s) s cs) = [] \<Longrightarrow> vs_errs s = []"
proof (induction cs arbitrary: s)
  case (Cons c cs)
  from Cons.IH [of "if P s c then verr (e s c) s else s"] Cons.prems show ?case
    by (simp add: verr_def split: if_splits)
qed simp

lemma validate_of:
  assumes "validate sc nids mids = []" "'''' \<notin> set mids"
  shows "distinct (map po_ModelID (sc_Policies sc)) \<and> distinct (pin_nodes (sc_Policies sc)) \<and>
    (\<forall>p \<in> set (sc_Policies sc). policy_ok nids mids p) \<and>
    (sc_DefaultModel sc = '''' \<or> sc_DefaultModel sc \<in> set mids)"
proof -
  let ?init = "\<lparr>vs_errs = [], vs_seen = (\<lambda>_. False), vs_pinned = (\<lambda>_. []), vs_classPercent = (\<lambda>_. 0)\<rparr> :: valid_state"
  let ?s = "foldl (valid_policy nids mids) ?init (sc_Policies sc)"
  let ?s' = "foldl (\<lambda>s c. if vs_classPercent s (dc_ID c) > 100
    then verr (ClassPercent (dc_ID c) (vs_classPercent s (dc_ID c))) s else s) ?s Classes"
  have "vs_errs ?s' = []" "sc_DefaultModel sc = '''' \<or> sc_DefaultModel sc \<in> set mids"
    using assms(1) by (auto simp: validate_def Let_def verr_def split: if_splits)
  moreover from this(1) have "vs_errs ?s = []" by (rule verr_fold_errs)
  ultimately show ?thesis
    using valid_policies [where nids = nids and ?s0.0 = ?init and ps = "sc_Policies sc", OF assms(2) _ refl] by blast
qed

text \<open>
  What \<open>Validate\<close> guarantees (catalog ids are not empty): if it reports no error, no
  model has two policies, no node is pinned twice, every policy has a known model, a known
  mode, known classes and parameters in range, and pins only name known nodes.
\<close>

theorem validate_sound:
  assumes "validate sc nids mids = []" "'''' \<notin> set mids"
  shows "distinct (map po_ModelID (sc_Policies sc)) \<and> distinct (pin_nodes (sc_Policies sc)) \<and>
    (\<forall>p \<in> set (sc_Policies sc). policy_ok nids mids p) \<and>
    (sc_DefaultModel sc = '''' \<or> sc_DefaultModel sc \<in> set mids)"
  by (rule validate_of [OF assms])

subsection \<open>Assignments are never overwritten\<close>

definition keeps :: "plan_state \<Rightarrow> plan_state \<Rightarrow> bool" where
  "keeps st st' \<longleftrightarrow> (\<forall>i a. ps_assigned st i = Some a \<longrightarrow> as_ModelID a \<noteq> '''' \<longrightarrow> ps_assigned st' i = Some a)"

lemma keeps_refl: "keeps st st"
  by (simp add: keeps_def)

lemma keeps_trans: "keeps st st' \<Longrightarrow> keeps st' st'' \<Longrightarrow> keeps st st''"
  by (auto simp: keeps_def)

lemma assigned_model_Some: "ps_assigned st i = Some a \<Longrightarrow> assigned_model (ps_assigned st) i = as_ModelID a"
  by (simp add: assigned_model_def)

lemma foldl_keeps: "(\<And>st x. x \<in> set xs \<Longrightarrow> keeps st (f st x)) \<Longrightarrow> keeps st (foldl f st xs)"
  by (rule foldl_invariant [where I = "keeps st"]) (auto intro: keeps_refl keeps_trans)

lemma fold_opt_keeps:
  assumes "fold_opt f st xs = Some st'" "\<And>st x st'. x \<in> set xs \<Longrightarrow> f st x = Some st' \<Longrightarrow> keeps st st'"
  shows "keeps st st'"
  by (rule fold_opt_invariant [where I = "keeps st", OF assms(1) keeps_refl]) (blast intro: keeps_trans assms(2))

lemma pin_node_keeps: "keeps st (pin_node minTokS (by_node nodes) p m st i)"
  by (auto simp: keeps_def pin_node_assigned assigned_model_Some dest: by_node_Some split: option.splits)

lemma pin_policy_keeps: "keeps st (pin_policy minTokS byModel (by_node nodes) st p)"
  by (auto simp: pin_policy_def intro: keeps_refl foldl_keeps pin_node_keeps split: option.splits)

lemma taken_unassigned:
  assumes "map_of (map (\<lambda>n. (pn_ID n, mk_assignment n m mode)) (rev (taken minTokS nodes mode p m st))) i = Some a"
  shows "assigned_model (ps_assigned st) i = ''''"
  using map_of_SomeD [OF assms] set_taken [of minTokS nodes mode p m st] by (auto simp: set_free_nodes)

lemma count_policy_keeps:
  assumes "count_policy minTokS byModel nodes mode st p = Some st'"
  shows "keeps st st'"
proof (cases "byModel (po_ModelID p)")
  case None
  with assms show ?thesis by (simp add: count_policy_def keeps_refl)
next
  case (Some m)
  show ?thesis
    unfolding keeps_def count_policy_Some [OF assms Some]
    by (auto simp: map_add_def assigned_model_Some dest!: taken_unassigned split: option.splits)
qed

lemma count_policies_keeps:
  "count_policies minTokS byModel nodes sc st mode = Some st' \<Longrightarrow> keeps st st'"
  unfolding count_policies_def by (erule fold_opt_keeps) (rule count_policy_keeps)

lemma staged_keeps:
  "staged minTokS sc nodes models = Some st \<Longrightarrow> keeps (pinned_state minTokS sc nodes models) st"
  unfolding staged_def by (erule fold_opt_keeps) (rule count_policies_keeps)

lemma pin_policy_dom:
  assumes "ps_assigned (pin_policy minTokS byModel (by_node nodes) st p) i \<noteq> None"
  shows "ps_assigned st i \<noteq> None \<or> i \<in> set (pin_nodes [p])"
proof -
  have "ps_assigned (foldl (pin_node minTokS (by_node nodes) p m) st ns) i \<noteq> None \<Longrightarrow>
      ps_assigned st i \<noteq> None \<or> i \<in> set ns" for m ns
  proof (induction ns arbitrary: st)
    case (Cons x ns)
    from Cons.IH [of "pin_node minTokS (by_node nodes) p m st x"] Cons.prems show ?case
      by (auto simp: pin_node_assigned dest: by_node_Some split: option.splits if_splits)
  qed simp
  with assms show ?thesis by (auto simp: pin_policy_def pin_nodes_def split: option.splits if_splits)
qed

lemma pin_policies_dom:
  "ps_assigned (foldl (pin_policy minTokS byModel (by_node nodes)) st ps) i \<noteq> None \<Longrightarrow>
     ps_assigned st i \<noteq> None \<or> i \<in> set (pin_nodes ps)"
proof (induction ps arbitrary: st)
  case (Cons p ps)
  from Cons.IH [of "pin_policy minTokS byModel (by_node nodes) st p"] Cons.prems
    pin_policy_dom [of minTokS byModel nodes st p i]
  show ?case by (auto simp: pin_nodes_def)
qed simp

lemma pinned_state_pin:
  assumes "distinct (pin_nodes (sc_Policies sc))" "p \<in> set (sc_Policies sc)" "po_Mode p = ModePin"
    and "by_model models (po_ModelID p) = Some m" "by_node nodes i = Some n" "i \<in> set (po_Nodes p)" "pm_ID m \<noteq> ''''"
  shows "ps_assigned (pinned_state minTokS sc nodes models) i = Some (mk_assignment n m ReasonPin)"
proof -
  let ?pol = "pin_policy minTokS (by_model models) (by_node nodes)" and ?pin = "pin_node minTokS (by_node nodes) p m"
  let ?init = "wait_warnings sc (by_model models) \<lparr>ps_assigned = (\<lambda>_. None), ps_warnings = []\<rparr>"
  obtain ps1 ps2 where ps: "sc_Policies sc = ps1 @ p # ps2" using assms(2) by (meson split_list)
  obtain ns1 ns2 where ns: "po_Nodes p = ns1 @ i # ns2" using assms(6) by (meson split_list)
  define s1 where "s1 = foldl ?pol ?init ps1"
  have "i \<notin> set (pin_nodes ps1)" "i \<notin> set ns1"
    using assms(1,3) by (auto simp: ps ns pin_nodes_def)
  then have free1: "ps_assigned s1 i = None"
    using pin_policies_dom [of minTokS "by_model models" nodes ?init ps1 i] unfolding s1_def
    by (cases "ps_assigned (foldl ?pol ?init ps1) i") auto
  have "ps_assigned (foldl ?pin s1 ns1) i = None"
  proof -
    have "i \<notin> set ns \<Longrightarrow> ps_assigned (foldl ?pin s ns) i = ps_assigned s i" for s ns
      by (induction ns arbitrary: s) (auto simp: pin_node_assigned dest: by_node_Some split: option.splits)
    with free1 \<open>i \<notin> set ns1\<close> show ?thesis by simp
  qed
  then have "ps_assigned (?pin (foldl ?pin s1 ns1) i) i = Some (mk_assignment n m ReasonPin)"
    using assms(5) by_node_Some [OF assms(5)] by (simp add: pin_node_assigned)
  moreover have "keeps (?pin (foldl ?pin s1 ns1) i) (foldl ?pin (?pin (foldl ?pin s1 ns1) i) ns2)"
    by (rule foldl_keeps) (rule pin_node_keeps)
  moreover have "?pol s1 p = foldl ?pin (?pin (foldl ?pin s1 ns1) i) ns2"
    using assms(3,4) by (simp add: pin_policy_def ns)
  moreover have "keeps (?pol s1 p) (foldl ?pol (?pol s1 p) ps2)"
    by (rule foldl_keeps) (rule pin_policy_keeps)
  moreover have "pinned_state minTokS sc nodes models = foldl ?pol (?pol s1 p) ps2"
    by (simp add: pinned_state_def s1_def ps)
  ultimately show ?thesis using assms(7) by (simp add: keeps_def)
qed

lemma pinned_row:
  assumes "make_plan minTokS sc nodes models = Some pl" "distinct (map pn_ID nodes)"
    and "distinct (pin_nodes (sc_Policies sc))" "pm_ID m \<noteq> ''''"
    and "p \<in> set (sc_Policies sc)" "po_Mode p = ModePin" "by_model models (po_ModelID p) = Some m"
    and "n \<in> set nodes" "pn_ID n \<in> set (po_Nodes p)"
  shows "mk_assignment n m ReasonPin \<in> set (pl_Assignments pl)"
proof -
  let ?ns = "sort_key pn_ID nodes"
  obtain st where st: "staged minTokS sc ?ns models = Some st"
    "pl_Assignments pl = map (default_row minTokS (by_model models) (sc_DefaultModel sc) (ps_assigned st)) ?ns"
    using make_plan_staged [OF assms(1,2)] by blast
  have d: "distinct (map pn_ID ?ns)"
    using assms(2) by (metis distinct_map distinct_sort set_sort)
  have "by_node ?ns (pn_ID n) = Some n" using by_node_distinct [OF d, of n] assms(8) by simp
  from pinned_state_pin [OF assms(3,5-7) this assms(9,4)]
  have "ps_assigned (pinned_state minTokS sc ?ns models) (pn_ID n) = Some (mk_assignment n m ReasonPin)" .
  with staged_keeps [OF st(1)] assms(4) have "ps_assigned st (pn_ID n) = Some (mk_assignment n m ReasonPin)"
    by (simp add: keeps_def)
  then have "default_row minTokS (by_model models) (sc_DefaultModel sc) (ps_assigned st) n = mk_assignment n m ReasonPin"
    by (simp add: default_row_def)
  with st(2) assms(8) show ?thesis by (metis (no_types, lifting) image_eqI list.set_map set_sort)
qed

text \<open>
  Pins win: in the plan of a specification that passes \<open>Validate\<close>, every connected
  node that a pin policy names gets that policy's model, when the model is ready.
\<close>

theorem pins_respected:
  assumes "make_plan minTokS sc nodes models = Some pl" "distinct (map pn_ID nodes)"
    and "validate sc nids mids = []" "'''' \<notin> set mids"
    and "p \<in> set (sc_Policies sc)" "po_Mode p = ModePin" "by_model models (po_ModelID p) = Some m"
    and "n \<in> set nodes" "pn_ID n \<in> set (po_Nodes p)"
  shows "mk_assignment n m ReasonPin \<in> set (pl_Assignments pl)"
proof -
  have "distinct (pin_nodes (sc_Policies sc))" "po_ModelID p \<in> set mids"
    using validate_of [OF assms(3,4)] assms(5) by (auto simp: policy_ok_def)
  moreover from this assms(4) by_model_Some [OF assms(7)] have "pm_ID m \<noteq> ''''" by auto
  ultimately show ?thesis using pinned_row assms by blast
qed

subsection \<open>How many nodes a counting policy gets\<close>

text \<open>The replicas and percent stages as one fold over (mode, policy) pairs.\<close>

definition count_stage :: "(string \<Rightarrow> plan_model option) \<Rightarrow> spec \<Rightarrow> (string \<times> policy) list" where
  "count_stage byModel sc =
     map (Pair ModeReplicas) (mode_policies byModel ModeReplicas sc) @
     map (Pair ModePercent) (mode_policies byModel ModePercent sc)"

definition count_step ::
  "real \<Rightarrow> (string \<Rightarrow> plan_model option) \<Rightarrow> plan_node list \<Rightarrow> plan_state \<Rightarrow> string \<times> policy \<Rightarrow> plan_state option" where
  "count_step minTokS byModel nodes st x = count_policy minTokS byModel nodes (fst x) st (snd x)"

lemma staged_fold:
  "staged minTokS sc nodes models =
     fold_opt (count_step minTokS (by_model models) nodes) (pinned_state minTokS sc nodes models)
       (count_stage (by_model models) sc)"
proof -
  have "fold_opt (count_step minTokS byModel nodes) st (map (Pair mode) ps) =
      fold_opt (count_policy minTokS byModel nodes mode) st ps" for mode ps st byModel
    by (induction ps arbitrary: st) (auto simp: count_step_def split: option.splits)
  then show ?thesis
    by (simp add: staged_def count_stage_def count_policies_def fold_opt_append split: option.splits)
qed

definition has_row :: "string \<Rightarrow> string \<Rightarrow> plan_state \<Rightarrow> node_id \<Rightarrow> bool" where
  "has_row mode mid st i \<longleftrightarrow> (\<exists>a. ps_assigned st i = Some a \<and> as_Reason a = mode \<and> as_ModelID a = mid)"

lemma count_policy_has_row:
  assumes "count_policy minTokS byModel nodes mode' st q = Some st'"
    and "byModel (po_ModelID q) = Some m'" "pm_ID m' \<noteq> ''''" "mid \<noteq> ''''"
  shows "has_row mode mid st' i \<longleftrightarrow> has_row mode mid st i \<or>
    mode = mode' \<and> mid = pm_ID m' \<and> eligible_nodes minTokS nodes q m' \<noteq> [] \<and>
    i \<in> pn_ID ` set (taken minTokS nodes mode' q m' st)"
proof -
  let ?f = "map_of (map (\<lambda>n. (pn_ID n, mk_assignment n m' mode')) (rev (taken minTokS nodes mode' q m' st)))"
  have f: "?f i = None \<longleftrightarrow> i \<notin> pn_ID ` set (taken minTokS nodes mode' q m' st)"
    by (simp add: map_of_eq_None_iff image_image)
  have g: "as_Reason a = mode' \<and> as_ModelID a = pm_ID m' \<and> assigned_model (ps_assigned st) i = ''''" if "?f i = Some a" for a
    using map_of_SomeD [OF that] taken_unassigned [OF that] by auto
  show ?thesis
  proof (cases "?f i")
    case None
    with f show ?thesis by (auto simp: has_row_def count_policy_Some [OF assms(1,2)] map_add_def)
  next
    case (Some a)
    have "i \<in> pn_ID ` set (taken minTokS nodes mode' q m' st)" using f Some by simp
    with g [OF Some] Some assms(4) show ?thesis
      by (auto simp: has_row_def count_policy_Some [OF assms(1,2)] map_add_def assigned_model_Some)
  qed
qed

lemma count_policy_warnings:
  "count_policy minTokS byModel nodes mode st p = Some st' \<Longrightarrow> set (ps_warnings st) \<subseteq> set (ps_warnings st')"
  by (auto simp: count_policy_def Let_def split: option.splits if_splits)

lemma count_steps_frame:
  assumes "fold_opt (count_step minTokS byModel nodes) st xs = Some st'" "(mode, mid) \<notin> (\<lambda>x. (fst x, po_ModelID (snd x))) ` set xs"
    and "\<And>x. x \<in> set xs \<Longrightarrow> \<exists>m'. byModel (po_ModelID (snd x)) = Some m' \<and> pm_ID m' = po_ModelID (snd x) \<and> pm_ID m' \<noteq> ''''"
    and "mid \<noteq> ''''"
  shows "(\<forall>i. has_row mode mid st' i = has_row mode mid st i) \<and> set (ps_warnings st) \<subseteq> set (ps_warnings st')"
proof (rule fold_opt_invariant [where I = "\<lambda>s. (\<forall>i. has_row mode mid s i = has_row mode mid st i) \<and>
    set (ps_warnings st) \<subseteq> set (ps_warnings s)", OF assms(1)])
  fix s x s'
  assume x: "x \<in> set xs" "(\<forall>i. has_row mode mid s i = has_row mode mid st i) \<and> set (ps_warnings st) \<subseteq> set (ps_warnings s)"
    "count_step minTokS byModel nodes s x = Some s'"
  from assms(3) [OF x(1)] obtain m' where m': "byModel (po_ModelID (snd x)) = Some m'"
    "pm_ID m' = po_ModelID (snd x)" "pm_ID m' \<noteq> ''''" by blast
  have "(mode, mid) \<noteq> (fst x, po_ModelID (snd x))" using assms(2) x(1) by blast
  with count_policy_has_row [OF x(3) [unfolded count_step_def] m'(1,3) assms(4), of mode] m'(2) x(2)
    count_policy_warnings [OF x(3) [unfolded count_step_def]]
  show "(\<forall>i. has_row mode mid s' i = has_row mode mid st i) \<and> set (ps_warnings st) \<subseteq> set (ps_warnings s')"
    by auto
qed simp

lemma pinned_state_no_row:
  assumes "mode \<noteq> ModePin"
  shows "\<not> has_row mode mid (pinned_state minTokS sc nodes models) i"
proof -
  have "\<forall>i a. ps_assigned (pinned_state minTokS sc nodes models) i = Some a \<longrightarrow> as_Reason a = ModePin"
    unfolding pinned_state_def
  proof (rule foldl_invariant [where I = "\<lambda>st. \<forall>i a. ps_assigned st i = Some a \<longrightarrow> as_Reason a = ModePin"])
    fix st :: plan_state and p
    assume st: "\<forall>i a. ps_assigned st i = Some a \<longrightarrow> as_Reason a = ModePin"
    have "\<forall>i a. ps_assigned (foldl (pin_node minTokS (by_node nodes) p m) st ns) i = Some a \<longrightarrow> as_Reason a = ModePin" for m ns
      by (rule foldl_invariant [where I = "\<lambda>st. \<forall>i a. ps_assigned st i = Some a \<longrightarrow> as_Reason a = ModePin", OF st])
        (auto simp: pin_node_assigned split: option.splits if_splits)
    with st show "\<forall>i a. ps_assigned (pin_policy minTokS (by_model models) (by_node nodes) st p) i = Some a \<longrightarrow> as_Reason a = ModePin"
      unfolding pin_policy_def by (simp split: option.split)
  qed simp
  with assms show ?thesis by (auto simp: has_row_def)
qed

text \<open>The rows of a policy: those with its mode as reason and its model.\<close>

definition policy_rows :: "string \<Rightarrow> string \<Rightarrow> plan \<Rightarrow> assignment list" where
  "policy_rows mode mid pl = filter (\<lambda>a. as_Reason a = mode \<and> as_ModelID a = mid) (pl_Assignments pl)"

lemma length_policy_rows:
  assumes "pl_Assignments pl = map (default_row minTokS byModel d (ps_assigned st)) ns" "distinct (map pn_ID ns)"
    and "mode = ModeReplicas \<or> mode = ModePercent"
  shows "length (policy_rows mode mid pl) = card {i \<in> pn_ID ` set ns. has_row mode mid st i}"
proof -
  have row: "as_Reason (default_row minTokS byModel d (ps_assigned st) n) = mode \<and>
      as_ModelID (default_row minTokS byModel d (ps_assigned st) n) = mid \<longleftrightarrow> has_row mode mid st (pn_ID n)" for n
    using assms(3) by (auto simp: default_row_def has_row_def split: option.splits)
  have "length (policy_rows mode mid pl) = length (filter (has_row mode mid st) (map pn_ID ns))"
    by (simp add: policy_rows_def assms(1) filter_map comp_def row)
  also have "\<dots> = card (set (filter (has_row mode mid st) (map pn_ID ns)))"
    using assms(2) by (intro distinct_card [symmetric] distinct_filter)
  also have "set (filter (has_row mode mid st) (map pn_ID ns)) = {i \<in> pn_ID ` set ns. has_row mode mid st i}" by auto
  finally show ?thesis .
qed

lemma count_stage_mem:
  "(mode, p) \<in> set (count_stage byModel sc) \<longleftrightarrow>
     p \<in> set (sc_Policies sc) \<and> byModel (po_ModelID p) \<noteq> None \<and> po_Mode p = mode \<and> (mode = ModeReplicas \<or> mode = ModePercent)"
  by (auto simp: count_stage_def set_mode_policies)

lemma mode_policies_distinct:
  assumes "distinct (map po_ModelID (sc_Policies sc))"
  shows "distinct (map po_ModelID (mode_policies byModel mode sc))"
proof -
  have "mset (map po_ModelID (mode_policies byModel mode sc)) =
      mset (map po_ModelID (filter (\<lambda>p. byModel (po_ModelID p) \<noteq> None \<and> po_Mode p = mode) (sc_Policies sc)))"
    by (simp add: mode_policies_def)
  from mset_eq_imp_distinct_iff [OF this] distinct_map_filter [OF assms] show ?thesis by blast
qed

lemma count_stage_distinct:
  assumes "distinct (map po_ModelID (sc_Policies sc))"
  shows "distinct (map (\<lambda>x. (fst x, po_ModelID (snd x))) (count_stage byModel sc))"
proof -
  define ids where "ids mode = map po_ModelID (mode_policies byModel mode sc)" for mode
  have eq: "map (\<lambda>x. (fst x, po_ModelID (snd x))) (count_stage byModel sc) =
      map (Pair ModeReplicas) (ids ModeReplicas) @ map (Pair ModePercent) (ids ModePercent)"
    by (simp add: count_stage_def ids_def comp_def)
  have "distinct (map (Pair mode) (ids mode))" for mode
  proof (rule iffD2 [OF distinct_map], intro conjI inj_onI)
    show "distinct (ids mode)" unfolding ids_def by (rule mode_policies_distinct [OF assms])
  qed simp
  moreover have "set (map (Pair ModeReplicas) xs) \<inter> set (map (Pair ModePercent) ys) = {}" for xs ys :: "string list"
    by auto
  ultimately show ?thesis unfolding eq distinct_append by blast
qed

lemma card_taken:
  assumes "distinct (map pn_ID nodes)"
  shows "card (pn_ID ` set (taken minTokS nodes mode p m st)) =
     nat (min (wanted minTokS nodes mode p m) (int (length (free_nodes minTokS nodes p m st))))"
proof -
  have "mset (map pn_ID (free_nodes minTokS nodes p m st)) = mset (map pn_ID (filter (\<lambda>n. eligible p m (effectiveMinTokS p minTokS) n \<and>
      assigned_model (ps_assigned st) (pn_ID n) = '''') nodes))"
    by (simp add: free_nodes_def)
  then have d: "distinct (map pn_ID (free_nodes minTokS nodes p m st))"
    using distinct_map_filter [OF assms] mset_eq_imp_distinct_iff by blast
  have "distinct (map pn_ID (taken minTokS nodes mode p m st))"
    unfolding taken_def take_map [symmetric] using d by (rule distinct_take)
  from distinct_card [OF this] show ?thesis
    by (simp add: taken_def)
qed

lemma staged_rows:
  assumes "staged minTokS sc nodes models = Some st" "distinct (map pn_ID nodes)"
    and "distinct (map po_ModelID (sc_Policies sc))" "p \<in> set (sc_Policies sc)"
    and "po_Mode p = ModeReplicas \<or> po_Mode p = ModePercent" "by_model models (po_ModelID p) = Some m"
    and "\<And>q. q \<in> set (sc_Policies sc) \<Longrightarrow> po_ModelID q \<noteq> ''''"
  shows "(let k = int (card {i \<in> pn_ID ` set nodes. has_row (po_Mode p) (po_ModelID p) st i});
              want = wanted minTokS nodes (po_Mode p) p m
          in eligible_nodes minTokS nodes p m \<noteq> [] \<and> k = want \<or>
             eligible_nodes minTokS nodes p m \<noteq> [] \<and> k < want \<and> OnlyFree (po_ModelID p) want k \<in> set (ps_warnings st) \<or>
             eligible_nodes minTokS nodes p m = [] \<and> k = 0 \<and>
               ZeroNodes (po_ModelID p) (noFitReason m p nodes (effectiveMinTokS p minTokS)) \<in> set (ps_warnings st))"
proof -
  let ?mode = "po_Mode p" and ?mid = "po_ModelID p" and ?step = "count_step minTokS (by_model models) nodes"
  let ?stage = "count_stage (by_model models) sc" and ?w = "wanted minTokS nodes (po_Mode p) p m"
  have pid: "pm_ID m = ?mid" "?mid \<noteq> ''''" using by_model_Some [OF assms(6)] assms(4,7) by auto
  have "(?mode, p) \<in> set ?stage" using assms(4-6) by (simp add: count_stage_mem)
  then obtain xs ys where xy: "?stage = xs @ (?mode, p) # ys" by (meson split_list)
  have fresh: "(?mode, ?mid) \<notin> (\<lambda>x. (fst x, po_ModelID (snd x))) ` set xs"
    "(?mode, ?mid) \<notin> (\<lambda>x. (fst x, po_ModelID (snd x))) ` set ys"
    using count_stage_distinct [OF assms(3), of "by_model models"] unfolding xy by auto
  have known: "\<exists>m'. by_model models (po_ModelID (snd x)) = Some m' \<and> pm_ID m' = po_ModelID (snd x) \<and> pm_ID m' \<noteq> ''''"
    if "x \<in> set ?stage" for x
  proof -
    from that have "snd x \<in> set (sc_Policies sc)" "by_model models (po_ModelID (snd x)) \<noteq> None"
      using count_stage_mem [of "fst x" "snd x" "by_model models" sc] by auto
    then show ?thesis using by_model_Some assms(7) by fastforce
  qed
  obtain s1 s2 where s: "fold_opt ?step (pinned_state minTokS sc nodes models) xs = Some s1"
    "count_policy minTokS (by_model models) nodes ?mode s1 p = Some s2" "fold_opt ?step s2 ys = Some st"
    using assms(1) by (auto simp: staged_fold xy fold_opt_append count_step_def split: option.splits)
  have none: "\<not> has_row ?mode ?mid s1 i" for i
    using count_steps_frame [OF s(1) fresh(1) known pid(2)] pinned_state_no_row [of ?mode] assms(5) by (auto simp: xy)
  have rows: "has_row ?mode ?mid st i \<longleftrightarrow> eligible_nodes minTokS nodes p m \<noteq> [] \<and> i \<in> pn_ID ` set (taken minTokS nodes ?mode p m s1)"
    and ws: "set (ps_warnings s2) \<subseteq> set (ps_warnings st)" for i
    using count_steps_frame [OF s(3) fresh(2) known pid(2)] none pid
      count_policy_has_row [OF s(2) assms(6) _ pid(2), of ?mode i] by (auto simp: xy)
  show ?thesis
  proof (cases "eligible_nodes minTokS nodes p m = []")
    case True
    then have "{i \<in> pn_ID ` set nodes. has_row ?mode ?mid st i} = {}" using rows by blast
    moreover have "ZeroNodes ?mid (noFitReason m p nodes (effectiveMinTokS p minTokS)) \<in> set (ps_warnings st)"
      using s(2) ws True pid(1)
      unfolding count_policy_unfold [where byModel = "by_model models" and p = p and m = m, OF assms(6)] by auto
    ultimately show ?thesis using True by simp
  next
    case False
    let ?free = "free_nodes minTokS nodes p m s1"
    have ge: "\<not> min ?w (int (length ?free)) < 0" and s2: "int (length ?free) < ?w \<Longrightarrow>
        OnlyFree ?mid ?w (int (length ?free)) \<in> set (ps_warnings s2)"
      using s(2) False pid(1)
      unfolding count_policy_unfold [where byModel = "by_model models" and p = p and m = m, OF assms(6)]
      by (auto simp: Let_def split: if_splits)
    have "pn_ID ` set (taken minTokS nodes ?mode p m s1) \<subseteq> pn_ID ` set nodes"
      using set_taken [of minTokS nodes ?mode p m s1] by (auto simp: set_free_nodes)
    then have "{i \<in> pn_ID ` set nodes. has_row ?mode ?mid st i} = pn_ID ` set (taken minTokS nodes ?mode p m s1)"
      using rows False by blast
    then have k: "int (card {i \<in> pn_ID ` set nodes. has_row ?mode ?mid st i}) = min ?w (int (length ?free))"
      using card_taken [OF assms(2)] ge by simp
    show ?thesis
    proof (cases "int (length ?free) < ?w")
      case True
      with k s2 ws False show ?thesis by (auto simp: Let_def)
    next
      case False
      with k \<open>eligible_nodes minTokS nodes p m \<noteq> []\<close> show ?thesis by (simp add: Let_def)
    qed
  qed
qed

lemma wanted_perm:
  "wanted minTokS (sort_key f nodes) mode p m = wanted minTokS nodes mode p m \<and>
   (eligible_nodes minTokS (sort_key f nodes) p m = [] \<longleftrightarrow> eligible_nodes minTokS nodes p m = [])"
proof -
  have "mset (eligible_nodes minTokS (sort_key f nodes) p m) = mset (eligible_nodes minTokS nodes p m)"
    by (simp add: eligible_nodes_def)
  from this mset_eq_length [OF this] show ?thesis by (auto simp: wanted_def)
qed

text \<open>
  C26. A replicas or percent policy of a validated specification gets exactly the number of
  nodes it asks for (a percentage counts the eligible nodes, rounded half up and at least
  one); if it gets fewer, a warning states how many it wanted and how many it got; if it gets
  none because no node is eligible, a warning says so.  It never gets more.
\<close>

theorem count_policy_exact:
  assumes "make_plan minTokS sc nodes models = Some pl" "distinct (map pn_ID nodes)"
    and "validate sc nids mids = []" "'''' \<notin> set mids"
    and "p \<in> set (sc_Policies sc)" "po_Mode p = ModeReplicas \<or> po_Mode p = ModePercent"
    and "by_model models (po_ModelID p) = Some m"
  shows "(let k = int (length (policy_rows (po_Mode p) (po_ModelID p) pl));
              want = wanted minTokS nodes (po_Mode p) p m
          in if eligible_nodes minTokS nodes p m = [] then k = 0 \<and> (\<exists>r. ZeroNodes (po_ModelID p) r \<in> set (pl_Warnings pl))
             else k = want \<or> k < want \<and> OnlyFree (po_ModelID p) want k \<in> set (pl_Warnings pl))"
proof -
  let ?ns = "sort_key pn_ID nodes"
  obtain st where st: "staged minTokS sc ?ns models = Some st"
    "pl_Assignments pl = map (default_row minTokS (by_model models) (sc_DefaultModel sc) (ps_assigned st)) ?ns"
    "set (ps_warnings st) \<subseteq> set (pl_Warnings pl)"
    using make_plan_staged [OF assms(1,2)] by blast
  have d: "distinct (map pn_ID ?ns)"
    using assms(2) by (metis distinct_map distinct_sort set_sort)
  have v: "distinct (map po_ModelID (sc_Policies sc))" "\<And>q. q \<in> set (sc_Policies sc) \<Longrightarrow> po_ModelID q \<noteq> ''''"
    using validate_of [OF assms(3,4)] assms(4) by (auto simp: policy_ok_def)
  have len: "length (policy_rows (po_Mode p) (po_ModelID p) pl) =
      card {i \<in> pn_ID ` set ?ns. has_row (po_Mode p) (po_ModelID p) st i}"
    by (rule length_policy_rows [OF st(2) d assms(6)])
  show ?thesis
    using staged_rows [OF st(1) d v(1) assms(5,6,7) v(2)] st(3) wanted_perm [of minTokS pn_ID nodes "po_Mode p" p m]
    unfolding len by (auto simp: Let_def)
qed

subsection \<open>Examples\<close>

definition sample_plan_node :: "node_id \<Rightarrow> nat \<Rightarrow> real \<Rightarrow> plan_node" where
  "sample_plan_node i ram speed =
     \<lparr>pn_ID = i, pn_Class = ''c6'', pn_RAMTotalBytes = ram, pn_Speed = speed, pn_GenGBps = 0, pn_PromptGBps = 0,
      pn_CurrentModel = '''', pn_Assigned = '''', pn_Drained = False, pn_BudgetBytes = 0\<rparr>"

definition sample_model :: "string \<Rightarrow> plan_model" where
  "sample_model i = \<lparr>pm_ID = i, pm_SizeBytes = 1000000000, pm_ResidentBytes = 0, pm_CtxTrain = 4096,
     pm_Layers = 0, pm_KVHeads = 0, pm_HeadDim = 0\<rparr>"

definition sample_policy :: "string \<Rightarrow> string \<Rightarrow> node_id list \<Rightarrow> int \<Rightarrow> policy" where
  "sample_policy m mode ns k = \<lparr>po_ModelID = m, po_Mode = mode, po_Nodes = ns, po_Replicas = k, po_Percent = 0,
     po_Classes = [], po_MinTokS = 0\<rparr>"

definition sample_spec :: spec where
  "sample_spec = \<lparr>sc_Policies = [sample_policy ''m'' ModePin [''a''] 0, sample_policy ''k'' ModeReplicas [] 1], sc_DefaultModel = ''''\<rparr>"

definition sample_nodes :: "plan_node list" where
  "sample_nodes = [sample_plan_node ''b'' 6000000000 1, sample_plan_node ''a'' 6000000000 2]"

lemma sample_plan: "\<exists>pl. make_plan 0 sample_spec sample_nodes [sample_model ''m'', sample_model ''k''] = Some pl"
  using make_plan_None [of 0 sample_spec sample_nodes] staged_None
  by (auto simp: panicking_policy_def sample_spec_def sample_policy_def)

lemma sample_distinct: "distinct (map pn_ID sample_nodes)"
  by (simp add: sample_nodes_def sample_plan_node_def)

lemma sample_valid: "validate sample_spec [''a'', ''b''] [''m'', ''k''] = []"
  by (simp add: validate_def valid_policy_def valid_pin_def verr_def sample_spec_def sample_policy_def
      Classes_def IsClass_def Let_def matchesClass_def)

lemma sample_models:
  "by_model [sample_model ''m'', sample_model ''k''] ''m'' = Some (sample_model ''m'')"
  "by_model [sample_model ''m'', sample_model ''k''] ''k'' = Some (sample_model ''k'')"
  by (simp_all add: by_model_def sample_model_def)

theorem plan_rows_justified_witness:
  "\<exists>pl. make_plan 0 sample_spec sample_nodes [sample_model ''m'', sample_model ''k''] = Some pl \<and>
     map as_NodeID (pl_Assignments pl) = sort (map pn_ID sample_nodes)"
proof -
  obtain pl where pl: "make_plan 0 sample_spec sample_nodes [sample_model ''m'', sample_model ''k''] = Some pl"
    using sample_plan by blast
  from plan_rows_justified [OF pl sample_distinct] pl show ?thesis by blast
qed

theorem validate_sound_witness:
  "distinct (pin_nodes (sc_Policies sample_spec)) \<and> list_all (policy_ok [''a'', ''b''] [''m'', ''k'']) (sc_Policies sample_spec)"
  using validate_sound [OF sample_valid] by (simp add: list_all_iff)

theorem pins_respected_witness:
  "\<exists>pl. make_plan 0 sample_spec sample_nodes [sample_model ''m'', sample_model ''k''] = Some pl \<and>
     mk_assignment (sample_plan_node ''a'' 6000000000 2) (sample_model ''m'') ReasonPin \<in> set (pl_Assignments pl)"
proof -
  obtain pl where pl: "make_plan 0 sample_spec sample_nodes [sample_model ''m'', sample_model ''k''] = Some pl"
    using sample_plan by blast
  have "mk_assignment (sample_plan_node ''a'' 6000000000 2) (sample_model ''m'') ReasonPin \<in> set (pl_Assignments pl)"
    by (rule pins_respected [OF pl sample_distinct sample_valid, where p = "sample_policy ''m'' ModePin [''a''] 0"])
      (simp_all add: sample_spec_def sample_policy_def sample_models sample_nodes_def, simp add: sample_plan_node_def)
  with pl show ?thesis by blast
qed

theorem count_policy_exact_witness:
  "\<exists>pl. make_plan 0 sample_spec sample_nodes [sample_model ''m'', sample_model ''k''] = Some pl \<and>
     int (length (policy_rows ModeReplicas ''k'' pl)) \<le> 1"
proof -
  obtain pl where pl: "make_plan 0 sample_spec sample_nodes [sample_model ''m'', sample_model ''k''] = Some pl"
    using sample_plan by blast
  have "int (length (policy_rows ModeReplicas ''k'' pl)) \<le> 1"
    using count_policy_exact [OF pl sample_distinct sample_valid, where p = "sample_policy ''k'' ModeReplicas [] 1"
        and m = "sample_model ''k''"]
    by (auto simp: sample_spec_def sample_policy_def sample_models Let_def wanted_def want_nodes_def split: if_splits)
  with pl show ?thesis by blast
qed

end
