(* ===== verification/Proto.thy ===== *)
theory Proto
  imports Prelude
begin

text \<open>
  The wire types of protocol v0 (\<^verbatim>\<open>proto/v0.go\<close>): what agents report and what the
  controller sends back.  Optional pointers are options; \<open>NodeState\<close>, a string type in
  Go, is a datatype whose \<open>NoState\<close> is the zero value \<open>""\<close> of a node just created.
\<close>

record inventory =
  inv_Manufacturer :: string
  inv_Model :: string
  inv_SoC :: string
  inv_ABI :: string
  inv_AndroidRelease :: string
  inv_SDK :: int
  inv_CPUCores :: int
  inv_RAMTotalBytes :: nat
  inv_StorageFreeBytes :: nat
  inv_AgentVersion :: string
  inv_Brand :: string
  inv_Device :: string
  inv_BuildID :: string
  inv_BuildDisplay :: string
  inv_BuildIncremental :: string
  inv_SecurityPatch :: string
  inv_LineageVersion :: string
  inv_Bootloader :: string

record benchmark =
  bm_Kind :: string
  bm_CPUGFLOPS :: real
  bm_MemBandwidthGBps :: real
  bm_DurationMs :: int

record register_request =
  rr_NodeID :: node_id
  rr_Inventory :: inventory

record benchmark_report =
  br_NodeID :: node_id
  br_Benchmark :: benchmark

record runtime_status =
  rt_Engine :: string
  rt_Model :: string
  rt_Ready :: bool
  rt_AdvertiseHost :: string
  rt_AdvertisePort :: int
  rt_Restarts :: int
  rt_Threads :: int
  rt_CtxSize :: int
  rt_GenTPS :: real
  rt_PromptTPS :: real
  rt_SelfTestAt :: "go_time option"
  rt_ModelID :: string
  rt_State :: string
  rt_Progress :: real
  rt_Error :: string
  rt_Slots :: int
  rt_KVType :: string
  rt_RAMEstimateBytes :: int
  rt_BudgetBytes :: int
  rt_ModelBytes :: int
  rt_ResidentBytes :: int

record heartbeat =
  hb_NodeID :: node_id
  hb_RAMAvailBytes :: nat
  hb_Load1 :: real
  hb_TemperatureC :: "real option"
  hb_BatteryLevel :: "int option"
  hb_UptimeSec :: int
  hb_Runtime :: "runtime_status option"

abbreviation "ModeRPC \<equiv> ''rpc''"

record desired_runtime =
  dr_ModelID :: string
  dr_URL :: string
  dr_SHA256 :: string
  dr_SizeBytes :: int
  dr_ResidentBytes :: int
  dr_CtxSize :: int
  dr_Slots :: int
  dr_KVType :: string
  dr_Layers :: int
  dr_KVHeads :: int
  dr_HeadDim :: int
  dr_Mode :: string

datatype node_state = NoState | StateBenchmarking | StateActive | StateSuspect | StateOffline

definition AllStates :: "node_state list" where
  "AllStates = [StateBenchmarking, StateActive, StateSuspect, StateOffline]"

record node =
  nd_ID :: node_id
  nd_Alias :: string
  nd_State :: node_state
  nd_RemoteAddr :: string
  nd_Inventory :: inventory
  nd_Benchmark :: "benchmark option"
  nd_LastHeartbeat :: "heartbeat option"
  nd_RegisteredAt :: go_time
  nd_LastSeen :: go_time

text \<open>Zero values, which Go gives a missing struct.\<close>

definition zero_inventory :: inventory where
  "zero_inventory = \<lparr>inv_Manufacturer = '''', inv_Model = '''', inv_SoC = '''', inv_ABI = '''', inv_AndroidRelease = '''',
     inv_SDK = 0, inv_CPUCores = 0, inv_RAMTotalBytes = 0, inv_StorageFreeBytes = 0, inv_AgentVersion = '''',
     inv_Brand = '''', inv_Device = '''', inv_BuildID = '''', inv_BuildDisplay = '''', inv_BuildIncremental = '''',
     inv_SecurityPatch = '''', inv_LineageVersion = '''', inv_Bootloader = ''''\<rparr>"

definition zero_runtime :: runtime_status where
  "zero_runtime = \<lparr>rt_Engine = '''', rt_Model = '''', rt_Ready = False, rt_AdvertiseHost = '''', rt_AdvertisePort = 0,
     rt_Restarts = 0, rt_Threads = 0, rt_CtxSize = 0, rt_GenTPS = 0, rt_PromptTPS = 0, rt_SelfTestAt = None,
     rt_ModelID = '''', rt_State = '''', rt_Progress = 0, rt_Error = '''', rt_Slots = 0, rt_KVType = '''',
     rt_RAMEstimateBytes = 0, rt_BudgetBytes = 0, rt_ModelBytes = 0, rt_ResidentBytes = 0\<rparr>"

end
