(* ===== verification/Backend.thy ===== *)
theory Backend
  imports Prelude
begin

text \<open>
  The gateway's view of a node and of a request's routing target
  (\<^verbatim>\<open>controller/gateway/picker.go\<close>: \<open>Backend\<close>, \<open>Request\<close>;
  \<^verbatim>\<open>controller/gateway/targets.go\<close>: \<open>Target\<close>, \<open>allows\<close>, \<open>filter\<close>, \<open>Resolve\<close>).
  Speeds are \<open>real\<close>: the code only compares them, and on non-NaN \<open>float64\<close> values
  that comparison is the one of the reals.
\<close>

record backend =
  b_NodeID :: node_id
  b_Model :: string
  b_URL :: string
  b_Speed :: real
  b_Drained :: bool
  b_Hot :: bool
  b_CtxSize :: int
  b_Alias :: string
  b_External :: bool
  b_APIKey :: string
  b_MaxConcurrency :: int
  b_OrchestratorOnly :: bool
  b_PoolOnly :: bool

record request =
  r_Model :: string
  r_AffinityKey :: string
  r_PromptBytes :: int

record superborg_cfg =
  sb_Orchestrator :: string
  sb_Thinking :: bool

text \<open>
  \<open>Target\<close>.  \<open>Nodes\<close> and \<open>Models\<close> are maps to bool that may be nil: \<open>None\<close> is nil, and a
  missing key reads as false.  The per-target picker override is the datatype
  \<open>target_picker\<close>: the gateway's own policy or the server's shared spread picker.
\<close>

datatype target_picker = DefaultPicker | SpreadPicker

record target =
  t_Label :: string
  t_Model :: string
  t_Nodes :: "(node_id \<Rightarrow> bool) option"
  t_Models :: "(string \<Rightarrow> bool) option"
  t_Node :: node_id
  t_Picker :: target_picker
  t_Superborg :: "superborg_cfg option"
  t_Disabled :: bool

definition no_target :: target where
  "no_target = \<lparr>t_Label = '''', t_Model = '''', t_Nodes = None, t_Models = None, t_Node = '''',
     t_Picker = DefaultPicker, t_Superborg = None, t_Disabled = False\<rparr>"

text \<open>Reading a possibly nil set of ids: \<open>m[k]\<close> on a nil map is false.\<close>

definition in_set_map :: "('k \<Rightarrow> bool) option \<Rightarrow> 'k \<Rightarrow> bool" where
  [go_simps]: "in_set_map m k = (case m of None \<Rightarrow> False | Some f \<Rightarrow> f k)"

definition allows :: "target \<Rightarrow> backend \<Rightarrow> bool" where
  "allows t b =
     (if t_Disabled t then False
      else if b_OrchestratorOnly b \<and> t_Node t \<noteq> b_NodeID b then False
      else if b_PoolOnly b \<and> t_Node t \<noteq> b_NodeID b \<and> \<not> in_set_map (t_Nodes t) (b_NodeID b) then False
      else if t_Node t \<noteq> '''' then b_NodeID b = t_Node t
      else if t_Nodes t \<noteq> None \<and> \<not> in_set_map (t_Nodes t) (b_NodeID b) then False
      else if t_Models t \<noteq> None \<and> \<not> in_set_map (t_Models t) (b_Model b) then False
      else t_Model t = '''' \<or> b_Model b = t_Model t)"

fun target_filter :: "target \<Rightarrow> backend list \<Rightarrow> backend list" where
  "target_filter t [] = []"
| "target_filter t (b # bs) = (if allows t b then b # target_filter t bs else target_filter t bs)"

lemma target_filter_eq: "target_filter t bs = filter (allows t) bs"
  by (induction bs) auto

lemma set_target_filter [simp]: "set (target_filter t bs) = {b \<in> set bs. allows t b}"
  by (simp add: target_filter_eq)

text \<open>Backends that may take new requests: \<open>Gateway.routable\<close>.\<close>

definition routable :: "backend list \<Rightarrow> backend list" where
  "routable bs = filter (\<lambda>b. \<not> b_Drained b) bs"

lemma set_routable [simp]: "set (routable bs) = {b \<in> set bs. \<not> b_Drained b}"
  by (simp add: routable_def)

subsection \<open>Names of virtual models\<close>

abbreviation "KindModel \<equiv> ''model''"
abbreviation "KindAuto \<equiv> ''auto''"
abbreviation "KindPool \<equiv> ''pool''"
abbreviation "KindNode \<equiv> ''node''"

definition is_virtual :: "string \<Rightarrow> bool" where
  "is_virtual name \<longleftrightarrow> has_prefix name (KindPool @ ''/'') \<or> has_prefix name (KindNode @ ''/'')"

text \<open>
  \<open>Gateway.Resolve\<close>.  The resolver of pools and nodes is the argument \<open>targets\<close>
  (\<open>None\<close>: no resolver installed); \<open>None\<close> as result is \<open>ErrUnknownTarget\<close>.
\<close>

definition resolve :: "(string \<Rightarrow> target option) option \<Rightarrow> string \<Rightarrow> target option" where
  "resolve targets name =
     (if name = KindAuto then Some (no_target\<lparr>t_Label := KindAuto\<rparr>)
      else if is_virtual name then
        (case targets of
           None \<Rightarrow> None
         | Some r \<Rightarrow> (case r name of None \<Rightarrow> None | Some tgt \<Rightarrow> Some tgt))
      else Some (no_target\<lparr>t_Label := KindModel, t_Model := name\<rparr>))"

lemma resolve_plain:
  "\<not> is_virtual name \<Longrightarrow> \<exists>t. resolve targets name = Some t \<and> t_Node t = '''' \<and> t_Nodes t = None"
  by (auto simp: resolve_def no_target_def)

lemma allows_not_orch:
  "allows t b \<Longrightarrow> b_OrchestratorOnly b \<Longrightarrow> t_Node t = b_NodeID b"
  by (auto simp: allows_def split: if_splits)

lemma allows_pool_only:
  "allows t b \<Longrightarrow> b_PoolOnly b \<Longrightarrow> t_Node t = b_NodeID b \<or> in_set_map (t_Nodes t) (b_NodeID b)"
  by (auto simp: allows_def split: if_splits)

lemma allows_node: "allows t b \<Longrightarrow> t_Node t \<noteq> '''' \<Longrightarrow> b_NodeID b = t_Node t"
  by (auto simp: allows_def split: if_splits)

subsection \<open>Sample backends for the concrete instances\<close>

definition sample_backend :: "node_id \<Rightarrow> string \<Rightarrow> real \<Rightarrow> bool \<Rightarrow> backend" where
  "sample_backend i m s hot = \<lparr>b_NodeID = i, b_Model = m, b_URL = '''', b_Speed = s, b_Drained = False,
     b_Hot = hot, b_CtxSize = 0, b_Alias = '''', b_External = False, b_APIKey = '''', b_MaxConcurrency = 0,
     b_OrchestratorOnly = False, b_PoolOnly = False\<rparr>"

end
