(* ===== verification/Registry.thy ===== *)
theory Registry
  imports Proto Backend DeviceClass
begin

text \<open>
  Node membership (\<^verbatim>\<open>controller/registry.go\<close>), the backends built from it
  (\<^verbatim>\<open>controller/server.go\<close>: \<open>Backends\<close>, \<open>switching\<close>) and the measured bandwidth
  (\<^verbatim>\<open>controller/perf.go\<close>).  The mutex makes every method atomic, so a method is a
  function of the registry and of the value \<open>now()\<close> returns.  \<open>onTransition\<close> appends to a log.
\<close>

subsection \<open>State\<close>

record registry =
  rg_nodes :: "(node_id \<times> node) list"
  rg_drained :: "node_id list"
  rg_aliases :: "(node_id \<times> string) list"
  rg_suspectAfter :: go_duration
  rg_offlineAfter :: go_duration
  rg_log :: "(node_id \<times> node_state \<times> node_state) list"

datatype reg_error = ErrUnknownNode | ErrAliasInvalid | ErrAliasTaken

definition NewRegistry :: "go_duration \<Rightarrow> go_duration \<Rightarrow> registry" where
  "NewRegistry sus off = \<lparr>rg_nodes = [], rg_drained = [], rg_aliases = [], rg_suspectAfter = sus, rg_offlineAfter = off, rg_log = []\<rparr>"

definition new_node :: "node_id \<Rightarrow> go_time \<Rightarrow> node" where
  "new_node i now = \<lparr>nd_ID = i, nd_Alias = '''', nd_State = NoState, nd_RemoteAddr = '''', nd_Inventory = zero_inventory,
     nd_Benchmark = None, nd_LastHeartbeat = None, nd_RegisteredAt = now, nd_LastSeen = 0\<rparr>"

text \<open>\<open>setState\<close> on a node of the map (the pointer is shared, so the map entry changes).\<close>

definition setState :: "node \<Rightarrow> node_state \<Rightarrow> registry \<Rightarrow> registry" where
  "setState n to r =
     (let from = nd_State n
      in if from = to then r\<lparr>rg_nodes := AList.update (nd_ID n) n (rg_nodes r)\<rparr>
         else r\<lparr>rg_nodes := AList.update (nd_ID n) (n\<lparr>nd_State := to\<rparr>) (rg_nodes r),
                rg_log := rg_log r @ [(nd_ID n, from, to)]\<rparr>)"

definition Register :: "go_time \<Rightarrow> register_request \<Rightarrow> string \<Rightarrow> registry \<Rightarrow> registry" where
  "Register now req remoteAddr r =
     (let n = (case map_of (rg_nodes r) (rr_NodeID req) of None \<Rightarrow> new_node (rr_NodeID req) now | Some n \<Rightarrow> n);
          n = n\<lparr>nd_Inventory := rr_Inventory req, nd_RemoteAddr := remoteAddr, nd_Benchmark := None, nd_LastSeen := now\<rparr>
      in setState n StateBenchmarking r)"

definition ReportBenchmark :: "go_time \<Rightarrow> benchmark_report \<Rightarrow> registry \<Rightarrow> reg_error + registry" where
  "ReportBenchmark now rep r =
     (case map_of (rg_nodes r) (br_NodeID rep) of
        None \<Rightarrow> Inl ErrUnknownNode
      | Some n \<Rightarrow> Inr (setState (n\<lparr>nd_Benchmark := Some (br_Benchmark rep), nd_LastSeen := now\<rparr>) StateActive r))"

definition Heartbeat :: "go_time \<Rightarrow> heartbeat \<Rightarrow> registry \<Rightarrow> reg_error + registry" where
  "Heartbeat now hb r =
     (case map_of (rg_nodes r) (hb_NodeID hb) of
        None \<Rightarrow> Inl ErrUnknownNode
      | Some n \<Rightarrow>
          (let n = n\<lparr>nd_LastHeartbeat := Some hb, nd_LastSeen := now\<rparr>
           in if nd_State n = StateSuspect \<or> nd_State n = StateOffline then
                (if nd_Benchmark n \<noteq> None then Inr (setState n StateActive r)
                 else Inr (setState n StateBenchmarking r))
              else Inr (r\<lparr>rg_nodes := AList.update (hb_NodeID hb) n (rg_nodes r)\<rparr>)))"

definition sweep_node :: "go_time \<Rightarrow> registry \<Rightarrow> node_id \<times> node \<Rightarrow> registry" where
  "sweep_node now r e =
     (let n = snd e; age = now - nd_LastSeen n
      in if age \<ge> rg_offlineAfter r then setState n StateOffline r
         else if age \<ge> rg_suspectAfter r \<and> nd_State n \<noteq> StateOffline then setState n StateSuspect r
         else r)"

definition Sweep :: "go_time \<Rightarrow> registry \<Rightarrow> registry" where
  "Sweep now r = foldl (sweep_node now) r (rg_nodes r)"

text \<open>\<open>r.aliases[id]\<close>, \<open>""\<close> for a missing key.\<close>

definition alias_of :: "registry \<Rightarrow> node_id \<Rightarrow> string" where
  "alias_of r i = (case map_of (rg_aliases r) i of None \<Rightarrow> '''' | Some a \<Rightarrow> a)"

definition Snapshot :: "registry \<Rightarrow> node list" where
  "Snapshot r = sort_key nd_ID (map (\<lambda>(i, n). n\<lparr>nd_Alias := alias_of r (nd_ID n)\<rparr>) (rg_nodes r))"

definition View :: "registry \<Rightarrow> node list \<times> (node_id \<Rightarrow> bool)" where
  "View r = (Snapshot r, \<lambda>i. i \<in> set (rg_drained r))"

definition known_node :: "registry \<Rightarrow> node_id \<Rightarrow> bool" where
  "known_node r i \<longleftrightarrow> map_of (rg_nodes r) i \<noteq> None"

definition SetDrained :: "node_id \<Rightarrow> bool \<Rightarrow> registry \<Rightarrow> reg_error + registry" where
  "SetDrained i drained r =
     (if \<not> known_node r i \<and> (drained \<or> i \<notin> set (rg_drained r)) then Inl ErrUnknownNode
      else if drained then Inr (r\<lparr>rg_drained := List.insert i (rg_drained r)\<rparr>)
      else Inr (r\<lparr>rg_drained := removeAll i (rg_drained r)\<rparr>))"

definition Forget :: "node_id \<Rightarrow> registry \<Rightarrow> reg_error + registry" where
  "Forget i r =
     (if \<not> known_node r i then Inl ErrUnknownNode
      else Inr (r\<lparr>rg_nodes := AList.delete i (rg_nodes r)\<rparr>))"

subsection \<open>Aliases\<close>

definition lower_or_digit :: "char \<Rightarrow> bool" where
  "lower_or_digit c \<longleftrightarrow> CHR ''a'' \<le> c \<and> c \<le> CHR ''z'' \<or> CHR ''0'' \<le> c \<and> c \<le> CHR ''9''"

text \<open>\<open>nameRE\<close> is \<^verbatim>\<open>^[a-z0-9][a-z0-9-]{0,31}$\<close>.\<close>

definition name_re :: "string \<Rightarrow> bool" where
  "name_re s \<longleftrightarrow> s \<noteq> [] \<and> lower_or_digit (hd s) \<and> list_all (\<lambda>c. lower_or_digit c \<or> c = CHR ''-'') (tl s) \<and> length s \<le> 32"

definition validAlias :: "string \<Rightarrow> bool" where
  "validAlias a \<longleftrightarrow> name_re a \<and> \<not> has_prefix a ''pool'' \<and> a \<noteq> ''auto''"

definition SetAlias :: "node_id \<Rightarrow> string \<Rightarrow> registry \<Rightarrow> reg_error + registry" where
  "SetAlias i alias r =
     (if \<not> known_node r i \<and> (alias \<noteq> '''' \<or> alias_of r i = '''') then Inl ErrUnknownNode
      else if alias = '''' then Inr (r\<lparr>rg_aliases := AList.delete i (rg_aliases r)\<rparr>)
      else if \<not> validAlias alias then Inl ErrAliasInvalid
      else if known_node r alias \<and> alias \<noteq> i then Inl ErrAliasTaken
      else if \<exists>e \<in> set (rg_aliases r). snd e = alias \<and> fst e \<noteq> i then Inl ErrAliasTaken
      else Inr (r\<lparr>rg_aliases := AList.update i alias (rg_aliases r)\<rparr>))"

definition LoadAliases :: "(node_id \<times> string) list \<Rightarrow> registry \<Rightarrow> registry" where
  "LoadAliases al r = r\<lparr>rg_aliases := filter (\<lambda>e. validAlias (snd e)) al\<rparr>"

text \<open>The first alias that matches in iteration order wins, then a node id.\<close>

definition Lookup :: "registry \<Rightarrow> string \<Rightarrow> node_id \<times> bool" where
  "Lookup r name =
     (case find (\<lambda>e. snd e = name) (rg_aliases r) of
        Some e \<Rightarrow> (fst e, True)
      | None \<Rightarrow> (name, known_node r name))"

subsection \<open>Backends\<close>

definition switching :: "runtime_status \<Rightarrow> bool" where
  "switching rt \<longleftrightarrow> rt_State rt = ''downloading'' \<or> rt_State rt = ''loading''"

text \<open>The condition under which a node is skipped, negated.\<close>

definition servable :: "node \<Rightarrow> bool" where
  "servable n \<longleftrightarrow>
     nd_State n = StateActive \<and>
     (case nd_LastHeartbeat n of
        None \<Rightarrow> False
      | Some hb \<Rightarrow>
          (case hb_Runtime hb of
             None \<Rightarrow> False
           | Some rt \<Rightarrow> rt_Ready rt \<and> rt_AdvertisePort rt \<noteq> 0 \<and> \<not> switching rt))"

definition backend_url :: "string \<Rightarrow> runtime_status \<Rightarrow> string" where
  "backend_url defaultHost rt =
     ''http://'' @ (if rt_AdvertiseHost rt = '''' then defaultHost else rt_AdvertiseHost rt) @ '':'' @ itoa (rt_AdvertisePort rt)"

text \<open>The backend of one node and whether its speed is measured.\<close>

definition node_backend ::
  "(node_id \<Rightarrow> bool) \<Rightarrow> string \<Rightarrow> real \<Rightarrow> node \<Rightarrow> heartbeat \<Rightarrow> runtime_status \<Rightarrow> backend \<times> bool" where
  "node_backend drained defaultHost thermalLimitC n hb rt =
     (let measured = rt_GenTPS rt > 0;
          speed = (if measured then rt_GenTPS rt else case nd_Benchmark n of Some bm \<Rightarrow> bm_CPUGFLOPS bm | None \<Rightarrow> 0)
      in (\<lparr>b_NodeID = nd_ID n, b_Model = rt_Model rt, b_URL = backend_url defaultHost rt, b_Speed = speed,
           b_Drained = drained (nd_ID n),
           b_Hot = (thermalLimitC > 0 \<and> (case hb_TemperatureC hb of None \<Rightarrow> False | Some t \<Rightarrow> t \<ge> thermalLimitC)),
           b_CtxSize = rt_CtxSize rt, b_Alias = nd_Alias n, b_External = False, b_APIKey = '''',
           b_MaxConcurrency = 0, b_OrchestratorOnly = False, b_PoolOnly = False\<rparr>, measured))"

definition node_backends :: "(node_id \<Rightarrow> bool) \<Rightarrow> string \<Rightarrow> real \<Rightarrow> node list \<Rightarrow> (backend \<times> bool) list" where
  "node_backends drained defaultHost thermalLimitC nodes =
     map (\<lambda>n. node_backend drained defaultHost thermalLimitC n (the (nd_LastHeartbeat n)) (the (hb_Runtime (the (nd_LastHeartbeat n)))))
       (filter servable nodes)"

definition Backends :: "node list \<Rightarrow> (node_id \<Rightarrow> bool) \<Rightarrow> string \<Rightarrow> real \<Rightarrow> backend list \<Rightarrow> backend list" where
  "Backends nodes drained defaultHost thermalLimitC external =
     (let out = node_backends drained defaultHost thermalLimitC nodes @ map (\<lambda>b. (b, b_Speed b > 0)) external;
          anyMeasured = list_ex snd out
      in map (\<lambda>(b, measured). if anyMeasured \<and> \<not> measured then b\<lparr>b_Speed := 0\<rparr> else b) out)"

subsection \<open>Measured bandwidth\<close>

type_synonym node_perf = "node_id \<Rightarrow> perf option"

definition perf_get :: "node_perf \<Rightarrow> node_id \<Rightarrow> perf" where
  "perf_get p i = (case p i of None \<Rightarrow> \<lparr>pf_GenGBps = 0, pf_PromptGBps = 0\<rparr> | Some v \<Rightarrow> v)"

definition perf_update :: "node_id \<Rightarrow> runtime_status option \<Rightarrow> node_perf \<Rightarrow> node_perf \<times> bool" where
  "perf_update i rt p =
     (case rt of
        None \<Rightarrow> (p, False)
      | Some rt \<Rightarrow>
          if rt_ModelBytes rt \<le> 0 then (p, False)
          else
            (let bytes = (if rt_ResidentBytes rt \<le> 0 then rt_ModelBytes rt else rt_ResidentBytes rt);
                 cur = perf_get p i;
                 next = cur;
                 next = (if rt_GenTPS rt > 0 then next\<lparr>pf_GenGBps := Bandwidth (rt_GenTPS rt) bytes\<rparr> else next);
                 next = (if rt_PromptTPS rt > 0 then next\<lparr>pf_PromptGBps := Bandwidth (rt_PromptTPS rt) bytes\<rparr> else next)
             in if next = cur then (p, False) else (p(i \<mapsto> next), True)))"

subsection \<open>Transitions\<close>

definition transitions :: "(node_state \<times> node_state) list" where
  "transitions =
     [(NoState, StateBenchmarking), (StateActive, StateBenchmarking), (StateSuspect, StateBenchmarking),
      (StateOffline, StateBenchmarking), (StateBenchmarking, StateActive), (StateSuspect, StateActive),
      (StateOffline, StateActive), (StateBenchmarking, StateSuspect), (StateActive, StateSuspect),
      (StateBenchmarking, StateOffline), (StateActive, StateOffline), (StateSuspect, StateOffline)]"

text \<open>The state the log last gave a node.\<close>

definition last_logged :: "(node_id \<times> node_state \<times> node_state) list \<Rightarrow> node_id \<Rightarrow> node_state" where
  "last_logged l i = (case find (\<lambda>e. fst e = i) (rev l) of None \<Rightarrow> NoState | Some (_, _, to) \<Rightarrow> to)"

lemma last_logged_append [simp]:
  "last_logged (l @ [(j, from, to)]) i = (if i = j then to else last_logged l i)"
  by (simp add: last_logged_def)

text \<open>Every entry is allowed and starts where the node was, or at a fresh registration.\<close>

definition log_ok :: "(node_id \<times> node_state \<times> node_state) list \<Rightarrow> bool" where
  "log_ok l \<longleftrightarrow> (\<forall>k < length l. case l ! k of (i, from, to) \<Rightarrow>
     (from, to) \<in> set transitions \<and> (from = last_logged (take k l) i \<or> from = NoState))"

lemma log_ok_append:
  "log_ok (l @ [(i, from, to)]) \<longleftrightarrow>
     log_ok l \<and> (from, to) \<in> set transitions \<and> (from = last_logged l i \<or> from = NoState)"
proof -
  have "log_ok (l @ [(i, from, to)]) \<longleftrightarrow>
      (\<forall>k < length l. case (l @ [(i, from, to)]) ! k of (i', from', to') \<Rightarrow>
        (from', to') \<in> set transitions \<and> (from' = last_logged (take k (l @ [(i, from, to)])) i' \<or> from' = NoState)) \<and>
      (from, to) \<in> set transitions \<and> (from = last_logged l i \<or> from = NoState)"
    unfolding log_ok_def length_append_singleton less_Suc_eq
    by (auto simp: nth_append)
  then show ?thesis by (simp add: log_ok_def nth_append cong: conj_cong)
qed

subsection \<open>The invariant\<close>

definition node_ok :: "node \<Rightarrow> bool" where
  "node_ok n \<longleftrightarrow> nd_State n \<noteq> NoState \<and> nd_Alias n = '''' \<and>
     (nd_State n = StateActive \<longrightarrow> nd_Benchmark n \<noteq> None) \<and>
     (nd_State n = StateBenchmarking \<longrightarrow> nd_Benchmark n = None)"

definition reg_inv :: "registry \<Rightarrow> bool" where
  "reg_inv r \<longleftrightarrow> distinct (keys_of (rg_nodes r)) \<and> distinct (rg_drained r) \<and> distinct (keys_of (rg_aliases r)) \<and>
     (\<forall>i a. map_of (rg_aliases r) i = Some a \<longrightarrow> validAlias a) \<and> log_ok (rg_log r) \<and>
     (\<forall>i n. map_of (rg_nodes r) i = Some n \<longrightarrow> nd_ID n = i \<and> node_ok n \<and> last_logged (rg_log r) i = nd_State n)"

lemma reg_invD:
  "reg_inv r \<Longrightarrow> map_of (rg_nodes r) i = Some n \<Longrightarrow> nd_ID n = i \<and> node_ok n \<and> last_logged (rg_log r) i = nd_State n"
  by (simp add: reg_inv_def)

lemma reg_inv_New: "reg_inv (NewRegistry s off)"
  by (simp add: reg_inv_def NewRegistry_def log_ok_def)

lemma setState_simps [simp]:
  "rg_drained (setState n to r) = rg_drained r" "rg_aliases (setState n to r) = rg_aliases r"
  "rg_suspectAfter (setState n to r) = rg_suspectAfter r" "rg_offlineAfter (setState n to r) = rg_offlineAfter r"
  "rg_nodes (setState n to r) = AList.update (nd_ID n) (n\<lparr>nd_State := to\<rparr>) (rg_nodes r)"
  "rg_log (setState n to r) = (if nd_State n = to then rg_log r else rg_log r @ [(nd_ID n, nd_State n, to)])"
  by (auto simp: setState_def Let_def)

text \<open>The node is in the map with this state, or it is a fresh one.\<close>

lemma reg_inv_setState:
  assumes "reg_inv r" "(nd_State n, to) \<in> set transitions \<or> nd_State n = to"
    and "nd_State n = last_logged (rg_log r) (nd_ID n) \<or> nd_State n = NoState" "node_ok (n\<lparr>nd_State := to\<rparr>)"
  shows "reg_inv (setState n to r)"
proof -
  have "log_ok (rg_log (setState n to r))"
    using assms by (auto simp: log_ok_append reg_inv_def)
  moreover have "nd_State n = to \<Longrightarrow> last_logged (rg_log r) (nd_ID n) = to"
    using assms(3,4) by (auto simp: node_ok_def)
  ultimately show ?thesis
    using assms(1,4) by (auto simp: reg_inv_def update_conv' distinct_update simp del: fun_upd_apply split: if_splits)
      (auto split: if_splits)
qed

lemma reg_inv_nodes:
  assumes "reg_inv r" "map_of (rg_nodes r) i = Some n" "nd_ID n' = i" "nd_State n' = nd_State n"
    and "nd_Benchmark n' = nd_Benchmark n" "nd_Alias n' = nd_Alias n"
  shows "reg_inv (r\<lparr>rg_nodes := AList.update i n' (rg_nodes r)\<rparr>)"
  using assms reg_invD [OF assms(1,2)] by (auto simp: reg_inv_def update_conv' distinct_update node_ok_def)

lemma reg_inv_Register: "reg_inv r \<Longrightarrow> reg_inv (Register now req addr r)"
proof -
  assume inv: "reg_inv r"
  show "reg_inv (Register now req addr r)"
  proof (cases "map_of (rg_nodes r) (rr_NodeID req)")
    case None
    show ?thesis
      unfolding Register_def Let_def
      by (rule reg_inv_setState [OF inv]) (simp_all add: None new_node_def transitions_def node_ok_def)
  next
    case (Some n)
    with reg_invD [OF inv Some] show ?thesis
      unfolding Register_def Let_def
      by (intro reg_inv_setState [OF inv]) (cases "nd_State n", auto simp: transitions_def node_ok_def)
  qed
qed

lemma reg_inv_ReportBenchmark: "reg_inv r \<Longrightarrow> ReportBenchmark now rep r = Inr r' \<Longrightarrow> reg_inv r'"
proof -
  assume inv: "reg_inv r" and eq: "ReportBenchmark now rep r = Inr r'"
  from eq obtain n where n: "map_of (rg_nodes r) (br_NodeID rep) = Some n"
    "r' = setState (n\<lparr>nd_Benchmark := Some (br_Benchmark rep), nd_LastSeen := now\<rparr>) StateActive r"
    by (auto simp: ReportBenchmark_def split: option.splits)
  from reg_invD [OF inv n(1)] show "reg_inv r'"
    unfolding n(2) by (intro reg_inv_setState [OF inv]) (cases "nd_State n", auto simp: transitions_def node_ok_def)
qed

lemma reg_inv_Heartbeat: "reg_inv r \<Longrightarrow> Heartbeat now hb r = Inr r' \<Longrightarrow> reg_inv r'"
proof -
  assume inv: "reg_inv r" and eq: "Heartbeat now hb r = Inr r'"
  from eq obtain n where n: "map_of (rg_nodes r) (hb_NodeID hb) = Some n"
    by (auto simp: Heartbeat_def split: option.splits)
  let ?n = "n\<lparr>nd_LastHeartbeat := Some hb, nd_LastSeen := now\<rparr>"
  note ok = reg_invD [OF inv n]
  consider "nd_State n = StateSuspect \<or> nd_State n = StateOffline" "nd_Benchmark n \<noteq> None" "r' = setState ?n StateActive r"
    | "nd_State n = StateSuspect \<or> nd_State n = StateOffline" "nd_Benchmark n = None" "r' = setState ?n StateBenchmarking r"
    | "r' = r\<lparr>rg_nodes := AList.update (hb_NodeID hb) ?n (rg_nodes r)\<rparr>"
    using eq n by (auto simp: Heartbeat_def Let_def split: if_splits)
  then show "reg_inv r'"
  proof cases
    case 1
    with ok show ?thesis by (auto intro!: reg_inv_setState [OF inv] simp: transitions_def node_ok_def)
  next
    case 2
    with ok show ?thesis by (auto intro!: reg_inv_setState [OF inv] simp: transitions_def node_ok_def)
  next
    case 3
    with reg_inv_nodes [OF inv n] ok show ?thesis by simp
  qed
qed

text \<open>What a sweep makes of a node.\<close>

definition swept :: "go_duration \<Rightarrow> go_duration \<Rightarrow> go_time \<Rightarrow> node \<Rightarrow> node" where
  "swept sus off now n =
     n\<lparr>nd_State := if now - nd_LastSeen n \<ge> off then StateOffline
       else if now - nd_LastSeen n \<ge> sus \<and> nd_State n \<noteq> StateOffline then StateSuspect else nd_State n\<rparr>"

lemma update_same: "map_of al k = Some v \<Longrightarrow> AList.update k v al = al"
  by (induction al) (auto split: if_splits)

lemma sweep_node_nodes:
  assumes "reg_inv r" "map_of (rg_nodes r) (fst e) = Some (snd e)"
  shows "rg_nodes (sweep_node now r e) =
    AList.update (fst e) (swept (rg_suspectAfter r) (rg_offlineAfter r) now (snd e)) (rg_nodes r)"
  using reg_invD [OF assms] update_same [OF assms(2)] by (simp add: sweep_node_def swept_def Let_def)

lemma sweep_node_frame [simp]:
  "rg_suspectAfter (sweep_node now r e) = rg_suspectAfter r" "rg_offlineAfter (sweep_node now r e) = rg_offlineAfter r"
  "rg_aliases (sweep_node now r e) = rg_aliases r" "rg_drained (sweep_node now r e) = rg_drained r"
  by (auto simp: sweep_node_def Let_def)

lemma reg_inv_sweep_node:
  assumes "reg_inv r" "map_of (rg_nodes r) (fst e) = Some (snd e)"
  shows "reg_inv (sweep_node now r e)"
  using reg_invD [OF assms] assms(1)
  by (cases "nd_State (snd e)")
    (auto simp: sweep_node_def Let_def transitions_def node_ok_def intro!: reg_inv_setState)

lemma sweep_fold:
  assumes "reg_inv r" "distinct (keys_of es)" "\<forall>e \<in> set es. map_of (rg_nodes r) (fst e) = Some (snd e)"
  shows "reg_inv (foldl (sweep_node now) r es) \<and>
    rg_suspectAfter (foldl (sweep_node now) r es) = rg_suspectAfter r \<and>
    rg_offlineAfter (foldl (sweep_node now) r es) = rg_offlineAfter r \<and>
    rg_aliases (foldl (sweep_node now) r es) = rg_aliases r \<and> rg_drained (foldl (sweep_node now) r es) = rg_drained r \<and>
    (\<forall>i. map_of (rg_nodes (foldl (sweep_node now) r es)) i =
      (if i \<in> set (keys_of es) then map_option (swept (rg_suspectAfter r) (rg_offlineAfter r) now) (map_of (rg_nodes r) i)
       else map_of (rg_nodes r) i))"
  using assms
proof (induction es arbitrary: r)
  case (Cons e es)
  let ?r = "sweep_node now r e"
  have e: "map_of (rg_nodes r) (fst e) = Some (snd e)" using Cons.prems(3) by simp
  have m: "map_of (rg_nodes ?r) = (map_of (rg_nodes r))(fst e \<mapsto> swept (rg_suspectAfter r) (rg_offlineAfter r) now (snd e))"
    by (simp add: sweep_node_nodes [OF Cons.prems(1) e] update_conv')
  have "fst x \<noteq> fst e" if "x \<in> set es" for x using that Cons.prems(2) by (force simp: image_iff)
  then have "\<forall>x \<in> set es. map_of (rg_nodes ?r) (fst x) = Some (snd x)" using Cons.prems(3) by (simp add: m)
  from Cons.IH [OF reg_inv_sweep_node [OF Cons.prems(1) e] _ this] Cons.prems(2) show ?case
    by (auto simp: m e)
qed simp

lemma sweep_facts:
  assumes "reg_inv r"
  shows "reg_inv (Sweep now r)"
    "rg_suspectAfter (Sweep now r) = rg_suspectAfter r" "rg_offlineAfter (Sweep now r) = rg_offlineAfter r"
    "rg_aliases (Sweep now r) = rg_aliases r" "rg_drained (Sweep now r) = rg_drained r"
    "map_of (rg_nodes (Sweep now r)) i = map_option (swept (rg_suspectAfter r) (rg_offlineAfter r) now) (map_of (rg_nodes r) i)"
proof -
  have d: "distinct (keys_of (rg_nodes r))" using assms by (simp add: reg_inv_def)
  then have "\<forall>e \<in> set (rg_nodes r). map_of (rg_nodes r) (fst e) = Some (snd e)" by auto
  note f = sweep_fold [OF assms d this, of now]
  show "reg_inv (Sweep now r)"
    "rg_suspectAfter (Sweep now r) = rg_suspectAfter r" "rg_offlineAfter (Sweep now r) = rg_offlineAfter r"
    "rg_aliases (Sweep now r) = rg_aliases r" "rg_drained (Sweep now r) = rg_drained r"
    using f by (simp_all add: Sweep_def)
  have "i \<notin> set (keys_of (rg_nodes r)) \<Longrightarrow> map_of (rg_nodes r) i = None" by (simp add: map_of_eq_None_iff)
  with f show "map_of (rg_nodes (Sweep now r)) i = map_option (swept (rg_suspectAfter r) (rg_offlineAfter r) now) (map_of (rg_nodes r) i)"
    by (auto simp: Sweep_def)
qed

lemma sweep_twice:
  assumes "reg_inv r"
  shows "Sweep now (Sweep now r) = Sweep now r"
proof -
  let ?s = "Sweep now r"
  have inv: "reg_inv ?s" by (rule sweep_facts(1) [OF assms])
  then have d: "distinct (keys_of (rg_nodes ?s))" by (simp add: reg_inv_def)
  have step: "sweep_node now ?s e = ?s" if e: "e \<in> set (rg_nodes ?s)" for e
  proof -
    have m: "map_of (rg_nodes ?s) (fst e) = Some (snd e)" using d e by auto
    then obtain n where n: "snd e = swept (rg_suspectAfter r) (rg_offlineAfter r) now n"
      unfolding sweep_facts(6) [OF assms] by (metis map_option_eq_Some)
    have same: "setState (snd e) (nd_State (snd e)) ?s = ?s"
      using reg_invD [OF inv m] update_same [OF m] by (simp add: setState_def)
    from n show ?thesis
      by (cases "now - nd_LastSeen n \<ge> rg_offlineAfter r"; cases "now - nd_LastSeen n \<ge> rg_suspectAfter r \<and> nd_State n \<noteq> StateOffline")
        (use same in \<open>auto simp: sweep_node_def Let_def sweep_facts(2,3) [OF assms] swept_def\<close>)
  qed
  have "foldl (sweep_node now) ?s es = ?s" if "set es \<subseteq> set (rg_nodes ?s)" for es
    using that by (induction es) (simp_all add: step)
  then show ?thesis by (simp add: Sweep_def [of now ?s])
qed

lemma reg_inv_SetDrained: "reg_inv r \<Longrightarrow> SetDrained i d r = Inr r' \<Longrightarrow> reg_inv r'"
  by (auto simp: SetDrained_def reg_inv_def distinct_removeAll split: if_splits)

lemma reg_inv_Forget: "reg_inv r \<Longrightarrow> Forget i r = Inr r' \<Longrightarrow> reg_inv r'"
  by (auto simp: Forget_def reg_inv_def distinct_delete delete_conv' split: if_splits)

lemma reg_inv_SetAlias: "reg_inv r \<Longrightarrow> SetAlias i a r = Inr r' \<Longrightarrow> reg_inv r'"
  by (auto simp: SetAlias_def reg_inv_def distinct_delete distinct_update delete_conv' update_conv' split: if_splits)

lemma reg_inv_LoadAliases: "reg_inv r \<Longrightarrow> distinct (keys_of al) \<Longrightarrow> reg_inv (LoadAliases al r)"
  by (auto simp: LoadAliases_def reg_inv_def distinct_map_filter dest: map_of_SomeD)

subsection \<open>Runs\<close>

text \<open>One call of a registry method that succeeds; a call that fails changes nothing.\<close>

inductive reg_step :: "registry \<Rightarrow> registry \<Rightarrow> bool" where
  step_register: "reg_step r (Register now req addr r)"
| step_benchmark: "ReportBenchmark now rep r = Inr r' \<Longrightarrow> reg_step r r'"
| step_heartbeat: "Heartbeat now hb r = Inr r' \<Longrightarrow> reg_step r r'"
| step_sweep: "reg_step r (Sweep now r)"
| step_drain: "SetDrained i d r = Inr r' \<Longrightarrow> reg_step r r'"
| step_forget: "Forget i r = Inr r' \<Longrightarrow> reg_step r r'"
| step_alias: "SetAlias i a r = Inr r' \<Longrightarrow> reg_step r r'"
| step_load: "distinct (keys_of al) \<Longrightarrow> reg_step r (LoadAliases al r)"

inductive_cases reg_stepE: "reg_step r r'"

definition reachable :: "registry \<Rightarrow> bool" where
  "reachable r \<longleftrightarrow> (\<exists>sus off. reg_step\<^sup>*\<^sup>* (NewRegistry sus off) r)"

lemmas reg_inv_ops = reg_inv_Register reg_inv_ReportBenchmark reg_inv_Heartbeat sweep_facts(1) reg_inv_SetDrained
  reg_inv_Forget reg_inv_SetAlias reg_inv_LoadAliases

lemma reg_inv_step: "reg_step r r' \<Longrightarrow> reg_inv r \<Longrightarrow> reg_inv r'"
  by (erule reg_stepE) (auto intro: reg_inv_ops)

lemma reachable_inv: "reachable r \<Longrightarrow> reg_inv r"
proof -
  assume "reachable r"
  then obtain sus off where "reg_step\<^sup>*\<^sup>* (NewRegistry sus off) r" by (auto simp: reachable_def)
  then show "reg_inv r" by (induction rule: rtranclp_induct) (auto intro: reg_inv_New reg_inv_step)
qed

lemma reachable_step: "reachable r \<Longrightarrow> reg_step r r' \<Longrightarrow> reachable r'"
  by (auto simp: reachable_def intro: rtranclp.rtrancl_into_rtrancl)

text \<open>
  C3. The membership invariant of every registry the methods can build: one entry per node
  id, an ACTIVE node has a benchmark and a BENCHMARKING one has none, aliases have the alias
  syntax, every logged transition is one of the twelve allowed ones (OFFLINE never becomes
  SUSPECT), starts from the state the node was in (or at a fresh registration), and the last
  one a known node made led to the state it is in.
\<close>

theorem registry_invariant:
  assumes "reachable r"
  shows "distinct (keys_of (rg_nodes r)) \<and> (\<forall>i a. map_of (rg_aliases r) i = Some a \<longrightarrow> validAlias a) \<and> log_ok (rg_log r) \<and>
    (\<forall>i n. map_of (rg_nodes r) i = Some n \<longrightarrow> nd_ID n = i \<and> node_ok n \<and> last_logged (rg_log r) i = nd_State n)"
  using reachable_inv [OF assms] by (simp add: reg_inv_def)

text \<open>
  A sweep moves each node to OFFLINE exactly when it was silent for \<open>offlineAfter\<close>, to
  SUSPECT when it was silent for \<open>suspectAfter\<close> and was not OFFLINE, and touches nothing
  else, whatever order the map is walked in; a second sweep at the same instant changes
  nothing and logs nothing.
\<close>

theorem sweep_correct:
  assumes "reachable r"
  shows "(\<forall>i. map_of (rg_nodes (Sweep now r)) i =
      map_option (swept (rg_suspectAfter r) (rg_offlineAfter r) now) (map_of (rg_nodes r) i)) \<and>
    rg_aliases (Sweep now r) = rg_aliases r \<and> rg_drained (Sweep now r) = rg_drained r \<and>
    Sweep now (Sweep now r) = Sweep now r"
  using sweep_facts [OF reachable_inv [OF assms]] sweep_twice [OF reachable_inv [OF assms]] by simp

text \<open>
  A heartbeat of a known node always leaves it ACTIVE if it has a benchmark and
  BENCHMARKING if not, fresh for the next sweep: a sweep less than \<open>suspectAfter\<close> later does
  not demote it.
\<close>

theorem heartbeat_revives:
  assumes "reachable r" "Heartbeat now hb r = Inr r'" "now' - now < rg_suspectAfter r" "rg_suspectAfter r \<le> rg_offlineAfter r"
  shows "\<exists>n. map_of (rg_nodes (Sweep now' r')) (hb_NodeID hb) = Some n \<and> nd_LastHeartbeat n = Some hb \<and>
    nd_State n = (if nd_Benchmark n \<noteq> None then StateActive else StateBenchmarking)"
proof -
  note inv = reachable_inv [OF assms(1)]
  obtain n where n: "map_of (rg_nodes r) (hb_NodeID hb) = Some n"
    using assms(2) by (auto simp: Heartbeat_def split: option.splits)
  have id: "nd_ID n = hb_NodeID hb" "node_ok n" using reg_invD [OF inv n] by auto
  let ?b = "nd_Benchmark n"
  have state: "nd_State n \<notin> {StateSuspect, StateOffline} \<Longrightarrow> nd_State n = (if ?b \<noteq> None then StateActive else StateBenchmarking)"
    using id(2) by (cases "nd_State n") (auto simp: node_ok_def)
  have r': "map_of (rg_nodes r') (hb_NodeID hb) = Some (n\<lparr>nd_LastHeartbeat := Some hb, nd_LastSeen := now,
      nd_State := if ?b \<noteq> None then StateActive else StateBenchmarking\<rparr>)"
    "rg_suspectAfter r' = rg_suspectAfter r" "rg_offlineAfter r' = rg_offlineAfter r"
    using assms(2) state id(1) by (auto simp: Heartbeat_def n Let_def update_conv' split: if_splits)
  have "reg_inv r'" using inv assms(2) by (rule reg_inv_Heartbeat)
  from sweep_facts(6) [OF this, of now' "hb_NodeID hb"] assms(3,4) show ?thesis
    by (simp add: r' swept_def)
qed

subsection \<open>Names\<close>

lemma find_unique:
  assumes "distinct (map snd al)" "(i, a) \<in> set al"
  shows "find (\<lambda>e. snd e = a) al = Some (i, a)"
  using assms
proof (induction al)
  case (Cons e al)
  show ?case
  proof (cases "snd e = a")
    case True
    with Cons.prems have "(i, a) \<notin> set al" by (metis distinct.simps(2) image_eqI list.set_map list.simps(9) snd_conv)
    with True Cons.prems show ?thesis by auto
  next
    case False
    with Cons show ?thesis by auto
  qed
qed simp

lemma snd_update: "snd ` set (AList.update i a al) \<subseteq> insert a (snd ` set al)"
  by (induction al) auto

lemma mem_update: "(i, a) \<in> set (AList.update i a al)"
  by (induction al) auto

lemma distinct_snd_update:
  assumes "distinct (keys_of al)" "distinct (map snd al)" "\<And>j. (j, a) \<in> set al \<Longrightarrow> j = i"
  shows "distinct (map snd (AList.update i a al))"
  using assms
proof (induction al)
  case (Cons e al)
  obtain k v where e: "e = (k, v)" by (cases e) auto
  show ?case
  proof (cases "k = i")
    case True
    have "a \<notin> snd ` set al"
    proof
      assume "a \<in> snd ` set al"
      then obtain j where j: "(j, a) \<in> set al" by auto
      then have "j = i" by (intro Cons.prems(3)) simp
      with j True Cons.prems(1) show False by (auto simp: e image_iff)
    qed
    with True Cons.prems(2) show ?thesis by (simp add: e)
  next
    case False
    then have "v \<noteq> a" using Cons.prems(3) [of k] by (auto simp: e)
    then have "v \<notin> snd ` set (AList.update i a al)" using snd_update [of i a al] Cons.prems(2) by (auto simp: e)
    moreover have "distinct (map snd (AList.update i a al))"
    proof (rule Cons.IH)
      show "j = i" if "(j, a) \<in> set al" for j
        by (rule Cons.prems(3)) (simp add: that)
    qed (use Cons.prems(1,2) in simp_all)
    ultimately show ?thesis using False by (simp add: e)
  qed
qed simp

text \<open>
  \<open>SetAlias\<close> keeps aliases unique, and a node that gets an alias is the one the alias
  looks up to, whatever node ids and other aliases exist.
\<close>

theorem alias_lookup:
  assumes "reachable r" "distinct (map snd (rg_aliases r))" "SetAlias i a r = Inr r'"
  shows "distinct (map snd (rg_aliases r')) \<and> (if a = '''' then alias_of r' i = '''' else Lookup r' a = (i, True)) \<and>
    (\<forall>j. j \<noteq> i \<longrightarrow> alias_of r' j = alias_of r j)"
proof -
  have d: "distinct (keys_of (rg_aliases r))" using reachable_inv [OF assms(1)] by (simp add: reg_inv_def)
  show ?thesis
  proof (cases "a = ''''")
    case True
    then have r': "r' = r\<lparr>rg_aliases := AList.delete i (rg_aliases r)\<rparr>" using assms(3) by (auto simp: SetAlias_def split: if_splits)
    have "distinct (map snd (AList.delete i (rg_aliases r)))"
      using assms(2) by (simp add: AList.delete_eq distinct_map_filter)
    then show ?thesis by (auto simp: r' True alias_of_def delete_conv')
  next
    case False
    then have r': "r' = r\<lparr>rg_aliases := AList.update i a (rg_aliases r)\<rparr>"
      and free: "\<And>j. (j, a) \<in> set (rg_aliases r) \<Longrightarrow> j = i"
      using assms(3) by (auto simp: SetAlias_def split: if_splits)
    have ds: "distinct (map snd (AList.update i a (rg_aliases r)))"
      by (rule distinct_snd_update [OF d assms(2) free])
    moreover have "(i, a) \<in> set (AList.update i a (rg_aliases r))" by (rule mem_update)
    ultimately show ?thesis using False by (simp add: r' Lookup_def find_unique alias_of_def update_conv')
  qed
qed

text \<open>
  Aliases loaded at startup are not checked for uniqueness, and a node may register under an
  id that is already another node's alias: both make a name ambiguous.
\<close>

lemma loaded_alias_ambiguous:
  "validAlias x \<Longrightarrow> i \<noteq> j \<Longrightarrow>
     Lookup (LoadAliases [(i, x), (j, x)] r) x \<noteq> Lookup (LoadAliases [(j, x), (i, x)] r) x"
  by (simp add: Lookup_def LoadAliases_def)

lemma registered_id_shadowed:
  assumes "Lookup r x = (i, True)" "map_of (rg_nodes r) x = None" "rr_NodeID req = x"
  shows "Lookup (Register now req addr r) x = (i, True) \<and> known_node (Register now req addr r) x"
  using assms by (auto simp: Lookup_def Register_def known_node_def Let_def update_conv' new_node_def split: option.splits)

text \<open>
  Drain flags and aliases belong to the node id: they survive the node being forgotten
  and registering again, which in turn leaves a clean BENCHMARKING node.
\<close>

lemma flags_survive:
  assumes "Forget i r = Inr r'" "rr_NodeID req = i"
  shows "rg_drained (Register now req addr r') = rg_drained r \<and> rg_aliases (Register now req addr r') = rg_aliases r \<and>
    (\<exists>n. map_of (rg_nodes (Register now req addr r')) i = Some n \<and> nd_State n = StateBenchmarking \<and>
       nd_Benchmark n = None \<and> nd_LastHeartbeat n = None \<and> nd_RegisteredAt n = now)"
  using assms by (auto simp: Forget_def Register_def Let_def new_node_def update_conv' delete_conv' split: if_splits)

subsection \<open>Backends of a registry\<close>

lemma map_of_mem_nodes:
  "reg_inv r \<Longrightarrow> n \<in> set (Snapshot r) \<Longrightarrow>
     \<exists>n'. map_of (rg_nodes r) (nd_ID n) = Some n' \<and> n = n'\<lparr>nd_Alias := alias_of r (nd_ID n)\<rparr>"
proof -
  assume inv: "reg_inv r" and "n \<in> set (Snapshot r)"
  then obtain i n' where n': "(i, n') \<in> set (rg_nodes r)" "n = n'\<lparr>nd_Alias := alias_of r (nd_ID n')\<rparr>"
    by (auto simp: Snapshot_def)
  have "map_of (rg_nodes r) i = Some n'" using inv n'(1) by (simp add: reg_inv_def)
  with reg_invD [OF inv this] n'(2) show ?thesis by auto
qed

lemma distinct_Snapshot:
  assumes "reg_inv r"
  shows "distinct (map nd_ID (Snapshot r))"
proof -
  have "\<forall>e \<in> set (rg_nodes r). nd_ID (snd e) = fst e"
    using assms by (auto simp: reg_inv_def)
  then have "map (\<lambda>e. nd_ID (snd e)) (rg_nodes r) = keys_of (rg_nodes r)" by (auto intro: map_cong)
  moreover have "mset (map nd_ID (Snapshot r)) = mset (map (\<lambda>e. nd_ID (snd e)) (rg_nodes r))"
    by (simp add: Snapshot_def comp_def case_prod_beta image_mset.compositionality)
  ultimately show ?thesis using assms mset_eq_imp_distinct_iff unfolding reg_inv_def by metis
qed

text \<open>What the agent of a node reported: the speed of its server and its benchmark score.\<close>

definition reported_tps :: "registry \<Rightarrow> node_id \<Rightarrow> real" where
  "reported_tps r i = rt_GenTPS (the (hb_Runtime (the (nd_LastHeartbeat (the (map_of (rg_nodes r) i))))))"

definition reported_gflops :: "registry \<Rightarrow> node_id \<Rightarrow> real" where
  "reported_gflops r i = bm_CPUGFLOPS (the (nd_Benchmark (the (map_of (rg_nodes r) i))))"

text \<open>What the servable nodes of a snapshot have.\<close>

lemma servable_snapshot:
  assumes inv: "reg_inv r" and n: "n \<in> set (filter servable (Snapshot r))"
  shows "\<exists>n' hb rt. map_of (rg_nodes r) (nd_ID n) = Some n' \<and> nd_State n' = StateActive \<and>
       nd_Benchmark n' \<noteq> None \<and> nd_LastHeartbeat n' = Some hb \<and> hb_Runtime hb = Some rt \<and> rt_Ready rt \<and>
       \<not> switching rt \<and> rt_AdvertisePort rt \<noteq> 0 \<and> nd_LastHeartbeat n = Some hb \<and> nd_Benchmark n = nd_Benchmark n' \<and>
       nd_Alias n = alias_of r (nd_ID n)"
proof -
  obtain n' where n': "map_of (rg_nodes r) (nd_ID n) = Some n'" "n = n'\<lparr>nd_Alias := alias_of r (nd_ID n)\<rparr>"
    using map_of_mem_nodes [OF inv] n by auto
  have s: "servable n" using n by simp
  have f: "nd_State n = nd_State n'" "nd_LastHeartbeat n = nd_LastHeartbeat n'" "nd_Benchmark n = nd_Benchmark n'"
    "nd_Alias n = alias_of r (nd_ID n)"
    by (subst n'(2), simp)+
  from s obtain hb rt where "nd_LastHeartbeat n' = Some hb" "hb_Runtime hb = Some rt" "rt_Ready rt"
    "\<not> switching rt" "rt_AdvertisePort rt \<noteq> 0" "nd_State n' = StateActive"
    by (auto simp: servable_def f split: option.splits)
  with n'(1) reg_invD [OF inv n'(1)] f show ?thesis by (auto simp: node_ok_def)
qed

text \<open>
  The gateway's candidates built from a registry: distinct node ids, each an ACTIVE node
  with a benchmark whose agent reports a ready, not switching server on a port, carrying the
  registry's drain flag and alias; and speeds are comparable: either every speed is the
  measured tokens per second or zero, or every speed is the benchmark score.
\<close>

theorem backends_sound:
  assumes "reachable r" "bs = Backends (fst (View r)) (snd (View r)) host limit []"
  shows "distinct (map b_NodeID bs) \<and>
    (\<forall>b \<in> set bs. \<exists>n hb rt. map_of (rg_nodes r) (b_NodeID b) = Some n \<and> nd_State n = StateActive \<and>
       nd_Benchmark n \<noteq> None \<and> nd_LastHeartbeat n = Some hb \<and> hb_Runtime hb = Some rt \<and> rt_Ready rt \<and>
       \<not> switching rt \<and> rt_AdvertisePort rt \<noteq> 0 \<and> b_Model b = rt_Model rt \<and> b_Alias b = alias_of r (b_NodeID b) \<and>
       (b_Drained b \<longleftrightarrow> b_NodeID b \<in> set (rg_drained r))) \<and>
    ((\<forall>b \<in> set bs. b_Speed b = 0 \<or> b_Speed b = reported_tps r (b_NodeID b)) \<or>
     (\<forall>b \<in> set bs. b_Speed b = reported_gflops r (b_NodeID b)))"
proof -
  note inv = reachable_inv [OF assms(1)]
  let ?nb = "\<lambda>n. node_backend (\<lambda>i. i \<in> set (rg_drained r)) host limit n (the (nd_LastHeartbeat n))
    (the (hb_Runtime (the (nd_LastHeartbeat n))))"
  let ?ns = "filter servable (Snapshot r)"
  let ?any = "\<exists>n \<in> set ?ns. snd (?nb n)"
  define bk where "bk n = (if ?any \<and> \<not> snd (?nb n) then (fst (?nb n))\<lparr>b_Speed := 0\<rparr> else fst (?nb n))" for n
  have bs: "bs = map bk ?ns"
    by (simp add: assms(2) Backends_def View_def node_backends_def Let_def list_ex_iff comp_def case_prod_beta bk_def)
  have bk: "b_NodeID (bk n) = nd_ID n" "b_Alias (bk n) = nd_Alias n" "b_Drained (bk n) \<longleftrightarrow> nd_ID n \<in> set (rg_drained r)"
    "b_Model (bk n) = rt_Model (the (hb_Runtime (the (nd_LastHeartbeat n))))" for n
    by (simp_all add: node_backend_def Let_def bk_def)
  have "map b_NodeID bs = map nd_ID ?ns" unfolding bs by (simp add: bk comp_def)
  then have dist: "distinct (map b_NodeID bs)"
    using distinct_map_filter [OF distinct_Snapshot [OF inv]] by simp
  note each = servable_snapshot [OF inv]
  have "(\<forall>n \<in> set ?ns. b_Speed (bk n) = 0 \<or> b_Speed (bk n) = reported_tps r (nd_ID n)) \<or>
     (\<forall>n \<in> set ?ns. b_Speed (bk n) = reported_gflops r (nd_ID n))"
  proof (cases ?any)
    case True
    have "b_Speed (bk n) = 0 \<or> b_Speed (bk n) = reported_tps r (nd_ID n)" if n: "n \<in> set ?ns" for n
      using each [OF n] True by (auto simp: bk_def node_backend_def reported_tps_def Let_def)
    then show ?thesis by blast
  next
    case False
    have "b_Speed (bk n) = reported_gflops r (nd_ID n)" if n: "n \<in> set ?ns" for n
    proof -
      from False n have "\<not> snd (?nb n)" by blast
      with each [OF n] False show ?thesis
        by (auto simp: bk_def node_backend_def reported_gflops_def Let_def)
    qed
    then show ?thesis by blast
  qed
  moreover have "\<forall>n \<in> set ?ns. \<exists>n' hb rt. map_of (rg_nodes r) (nd_ID n) = Some n' \<and> nd_State n' = StateActive \<and>
       nd_Benchmark n' \<noteq> None \<and> nd_LastHeartbeat n' = Some hb \<and> hb_Runtime hb = Some rt \<and> rt_Ready rt \<and>
       \<not> switching rt \<and> rt_AdvertisePort rt \<noteq> 0 \<and> b_Model (bk n) = rt_Model rt \<and> b_Alias (bk n) = alias_of r (nd_ID n) \<and>
       (b_Drained (bk n) \<longleftrightarrow> nd_ID n \<in> set (rg_drained r))"
  proof
    fix n assume n: "n \<in> set ?ns"
    from each [OF n] bk [of n] show "\<exists>n' hb rt. map_of (rg_nodes r) (nd_ID n) = Some n' \<and> nd_State n' = StateActive \<and>
       nd_Benchmark n' \<noteq> None \<and> nd_LastHeartbeat n' = Some hb \<and> hb_Runtime hb = Some rt \<and> rt_Ready rt \<and>
       \<not> switching rt \<and> rt_AdvertisePort rt \<noteq> 0 \<and> b_Model (bk n) = rt_Model rt \<and> b_Alias (bk n) = alias_of r (nd_ID n) \<and>
       (b_Drained (bk n) \<longleftrightarrow> nd_ID n \<in> set (rg_drained r))" by auto
  qed
  ultimately show ?thesis using dist unfolding bs by (simp add: bk(1))
qed

subsection \<open>Examples\<close>

definition sample_benchmark :: benchmark where
  "sample_benchmark = \<lparr>bm_Kind = ''k'', bm_CPUGFLOPS = 2, bm_MemBandwidthGBps = 3, bm_DurationMs = 4\<rparr>"

definition sample_heartbeat :: "node_id \<Rightarrow> heartbeat" where
  "sample_heartbeat i = \<lparr>hb_NodeID = i, hb_RAMAvailBytes = 0, hb_Load1 = 0, hb_TemperatureC = None, hb_BatteryLevel = None,
     hb_UptimeSec = 0, hb_Runtime = Some (zero_runtime\<lparr>rt_Ready := True, rt_AdvertisePort := 8080, rt_Model := ''m''\<rparr>)\<rparr>"

definition sample_registry :: registry where
  "sample_registry = Register 5 \<lparr>rr_NodeID = ''a'', rr_Inventory = zero_inventory\<rparr> ''x'' (NewRegistry 15 30)"

definition sample_active :: registry where
  "sample_active = projr (ReportBenchmark 6 \<lparr>br_NodeID = ''a'', br_Benchmark = sample_benchmark\<rparr> sample_registry)"

definition sample_serving :: registry where
  "sample_serving = projr (Heartbeat 7 (sample_heartbeat ''a'') sample_active)"

lemmas sample_reg_defs = sample_registry_def sample_active_def sample_serving_def sample_benchmark_def sample_heartbeat_def
  zero_runtime_def Register_def NewRegistry_def ReportBenchmark_def Heartbeat_def setState_def new_node_def Let_def

lemma sample_reachable: "reachable sample_registry" "reachable sample_active" "reachable sample_serving"
proof -
  have "reachable (NewRegistry 15 30)" by (auto simp: reachable_def)
  then show 1: "reachable sample_registry"
    unfolding sample_registry_def by (rule reachable_step) (rule step_register)
  have "ReportBenchmark 6 \<lparr>br_NodeID = ''a'', br_Benchmark = sample_benchmark\<rparr> sample_registry = Inr sample_active"
    by (simp add: sample_reg_defs)
  with 1 show 2: "reachable sample_active" by (blast intro: reachable_step step_benchmark)
  have "Heartbeat 7 (sample_heartbeat ''a'') sample_active = Inr sample_serving"
    by (simp add: sample_reg_defs)
  with 2 show "reachable sample_serving" by (blast intro: reachable_step step_heartbeat)
qed

theorem registry_invariant_witness: "log_ok (rg_log sample_active) \<and> rg_log sample_active =
    [(''a'', NoState, StateBenchmarking), (''a'', StateBenchmarking, StateActive)]"
  using registry_invariant [OF sample_reachable(2)] by (simp add: sample_reg_defs)

theorem sweep_correct_witness: "Sweep 21 (Sweep 21 sample_active) = Sweep 21 sample_active \<and>
    map_option nd_State (map_of (rg_nodes (Sweep 21 sample_active)) ''a'') = Some StateSuspect"
  using sweep_correct [OF sample_reachable(2), of 21] by (simp add: sample_reg_defs swept_def)

theorem heartbeat_revives_witness:
  "\<exists>n. map_of (rg_nodes (Sweep 21 sample_serving)) ''a'' = Some n \<and> nd_State n = StateActive"
proof -
  have "Heartbeat 7 (sample_heartbeat ''a'') sample_active = Inr sample_serving"
    "rg_suspectAfter sample_active = 15" "rg_offlineAfter sample_active = 30" "hb_NodeID (sample_heartbeat ''a'') = ''a''"
    by (simp_all add: sample_reg_defs)
  with heartbeat_revives [OF sample_reachable(2), of 7 "sample_heartbeat ''a''" sample_serving 21]
  obtain n where "map_of (rg_nodes (Sweep 21 sample_serving)) ''a'' = Some n"
    "nd_State n = (if nd_Benchmark n \<noteq> None then StateActive else StateBenchmarking)" by auto
  moreover have "map_option nd_Benchmark (map_of (rg_nodes (Sweep 21 sample_serving)) ''a'') = Some (Some sample_benchmark)"
    by (simp add: sample_reg_defs Sweep_def sweep_node_def)
  ultimately show ?thesis by auto
qed

theorem alias_lookup_witness:
  "Lookup (projr (SetAlias ''a'' ''nick'' sample_registry)) ''nick'' = (''a'', True)"
proof -
  let ?r = "projr (SetAlias ''a'' ''nick'' sample_registry)"
  have "SetAlias ''a'' ''nick'' sample_registry = Inr ?r" "distinct (map snd (rg_aliases sample_registry))"
    by (simp_all add: SetAlias_def sample_reg_defs known_node_def validAlias_def name_re_def lower_or_digit_def has_prefix_def
        less_eq_char_def)
  from alias_lookup [OF sample_reachable(1) this(2,1)] show ?thesis by simp
qed

theorem flags_survive_witness:
  "rg_drained (Register 9 \<lparr>rr_NodeID = ''a'', rr_Inventory = zero_inventory\<rparr> ''y'' (projr (Forget ''a'' sample_active))) = []"
  using flags_survive [where i = "''a''" and r = sample_active and r' = "projr (Forget ''a'' sample_active)" and now = 9
      and req = "\<lparr>rr_NodeID = ''a'', rr_Inventory = zero_inventory\<rparr>" and addr = "''y''"]
  by (simp add: Forget_def known_node_def sample_reg_defs)

theorem backends_sound_witness:
  "map b_NodeID (Backends (fst (View sample_serving)) (snd (View sample_serving)) ''h'' 0 []) = [''a''] \<and>
   distinct (map b_NodeID (Backends (fst (View sample_serving)) (snd (View sample_serving)) ''h'' 0 []))"
proof -
  have "map b_NodeID (Backends (fst (View sample_serving)) (snd (View sample_serving)) ''h'' 0 []) = [''a'']"
    by (simp add: Backends_def View_def Snapshot_def node_backends_def node_backend_def servable_def switching_def alias_of_def sample_reg_defs)
  moreover from backends_sound [OF sample_reachable(3) refl, of "''h''" 0]
  have "distinct (map b_NodeID (Backends (fst (View sample_serving)) (snd (View sample_serving)) ''h'' 0 []))" by (rule conjunct1)
  ultimately show ?thesis by blast
qed

end
