(* ===== verification/Auth.thy ===== *)
theory Auth
  imports Prelude
begin

text \<open>
  API keys and access control of the gateway (\<^verbatim>\<open>controller/gateway/auth.go\<close>).

  SHA-256 is an argument \<open>sha\<close> (the hex digest of a string), as are the parsing and
  printing of RFC 3339 times (\<open>ptime\<close>, \<open>ftime\<close>) and the address functions of package net:
  an address has any type \<open>'ip\<close>, \<open>pip\<close> parses one, \<open>split\<close> is the host part of
  \<open>SplitHostPort\<close>, a network is the predicate of the addresses it contains.  Every lock
  region is one function.  A file system maps paths to contents.
\<close>

subsection \<open>Principals, requests, entries\<close>

record principal =
  p_Name :: string

abbreviation "Anonymous \<equiv> ''anonymous''"
abbreviation "Local \<equiv> ''local''"

record http_request =
  hq_Authorization :: string
  hq_XAPIKey :: string
  hq_RemoteAddr :: string
  hq_ForwardedFor :: string

record key_entry =
  ke_Name :: string
  ke_Hash :: string
  ke_Created :: "go_time option"

datatype auth_error =
    ErrUnauthorized
  | ErrRemoteRequiresKey
  | ErrKeyExists
  | ErrKeyUnknown
  | ErrKeyName
  | ErrNoKeys
  | ErrIO
  | WantNameKey
  | WantHashed
  | WantHex64
  | CreatedTime string
  | LineTooLong
  | AtLine nat auth_error

definition AllowAll :: "http_request \<Rightarrow> auth_error + principal" where
  "AllowAll r = Inr \<lparr>p_Name = Anonymous\<rparr>"

definition key_name_char :: "char \<Rightarrow> bool" where
  "key_name_char c \<longleftrightarrow> CHR ''A'' \<le> c \<and> c \<le> CHR ''Z'' \<or> CHR ''a'' \<le> c \<and> c \<le> CHR ''z'' \<or>
     CHR ''0'' \<le> c \<and> c \<le> CHR ''9'' \<or> c = CHR ''.'' \<or> c = CHR ''_'' \<or> c = CHR ''-''"

text \<open>\<open>keyNameRE\<close> is \<^verbatim>\<open>^[A-Za-z0-9._-]{1,64}$\<close>.\<close>

definition key_name_re :: "string \<Rightarrow> bool" where
  "key_name_re s \<longleftrightarrow> 1 \<le> length s \<and> length s \<le> 64 \<and> list_all key_name_char s"

definition ValidKeyName :: "string \<Rightarrow> bool" where
  "ValidKeyName name \<longleftrightarrow> key_name_re name \<and> name \<noteq> Anonymous \<and> name \<noteq> ''admin''"

abbreviation "hashPrefix \<equiv> ''sha256:''"

subsection \<open>The keys file\<close>

definition hex_digit :: "char \<Rightarrow> bool" where
  "hex_digit c \<longleftrightarrow> CHR ''0'' \<le> c \<and> c \<le> CHR ''9'' \<or> CHR ''a'' \<le> c \<and> c \<le> CHR ''f'' \<or> CHR ''A'' \<le> c \<and> c \<le> CHR ''F''"

definition to_lower_char :: "char \<Rightarrow> char" where
  "to_lower_char c = (if CHR ''A'' \<le> c \<and> c \<le> CHR ''Z'' then char_of (of_char c + 32 :: nat) else c)"

definition to_lower :: "string \<Rightarrow> string" where
  "to_lower s = map to_lower_char s"

definition parseKeyLine ::
  "(string \<Rightarrow> string) \<Rightarrow> (string \<Rightarrow> go_time option) \<Rightarrow> string \<Rightarrow> auth_error + key_entry option" where
  "parseKeyLine sha ptime line0 =
     (let line = trim_space line0
      in if line = '''' \<or> has_prefix line ''#'' then Inr None
         else
           (let f = Prelude.fields line;
                cut = (if length f \<ge> 2 then cut_prefix (f ! 1) hashPrefix else None)
            in case cut of
                 None \<Rightarrow>
                   if length f \<noteq> 2 then Inl WantNameKey
                   else Inr (Some \<lparr>ke_Name = f ! 0, ke_Hash = sha (f ! 1), ke_Created = None\<rparr>)
               | Some hexHash \<Rightarrow>
                   if length f > 3 then Inl WantHashed
                   else if \<not> (length hexHash = 64 \<and> list_all hex_digit hexHash) then Inl WantHex64
                   else
                     (let e = \<lparr>ke_Name = f ! 0, ke_Hash = to_lower hexHash, ke_Created = None\<rparr>
                      in if length f = 3 then
                           (case ptime (f ! 2) of
                              None \<Rightarrow> Inl (CreatedTime (f ! 2))
                            | Some t \<Rightarrow> Inr (Some (e\<lparr>ke_Created := Some t\<rparr>)))
                         else Inr (Some e))))"

text \<open>
  \<open>bufio.Scanner\<close>: lines without their newline and one carriage return; a line of 65536 bytes
  or more does not fit the buffer and ends the scan with an error.
\<close>

fun split_lines :: "string \<Rightarrow> string \<Rightarrow> string list" where
  "split_lines w [] = (if w = [] then [] else [rev w])"
| "split_lines w (c # cs) = (if c = CHR 0x0A then rev w # split_lines [] cs else split_lines (c # w) cs)"

definition drop_cr :: "string \<Rightarrow> string" where
  "drop_cr l = (if l \<noteq> [] \<and> last l = CHR 0x0D then butlast l else l)"

fun read_lines ::
  "(string \<Rightarrow> string) \<Rightarrow> (string \<Rightarrow> go_time option) \<Rightarrow> nat \<Rightarrow> string list \<Rightarrow> auth_error + key_entry list" where
  "read_lines sha ptime n [] = Inr []"
| "read_lines sha ptime n (l # ls) =
     (if length l > 65535 then Inl LineTooLong
      else case parseKeyLine sha ptime (drop_cr l) of
             Inl err \<Rightarrow> Inl (AtLine n err)
           | Inr e \<Rightarrow>
               (case read_lines sha ptime (n + 1) ls of
                  Inl err \<Rightarrow> Inl err
                | Inr es \<Rightarrow> Inr (case e of None \<Rightarrow> es | Some e \<Rightarrow> e # es)))"

type_synonym file_system = "string \<Rightarrow> string option"

definition readKeysFile ::
  "(string \<Rightarrow> string) \<Rightarrow> (string \<Rightarrow> go_time option) \<Rightarrow> file_system \<Rightarrow> string \<Rightarrow> auth_error + key_entry list" where
  "readKeysFile sha ptime fs path =
     (case fs path of
        None \<Rightarrow> Inl ErrIO
      | Some content \<Rightarrow> read_lines sha ptime 1 (split_lines [] content))"

text \<open>One line of \<open>persist\<close>, and the whole file.\<close>

definition key_line :: "(go_time \<Rightarrow> string) \<Rightarrow> key_entry \<Rightarrow> string" where
  "key_line ftime e =
     ke_Name e @ '' '' @ hashPrefix @ ke_Hash e @
     (case ke_Created e of None \<Rightarrow> '''' | Some t \<Rightarrow> '' '' @ ftime t)"

definition keys_header :: "string list" where
  "keys_header =
     [''# PhoneBorg API keys: '' @ [CHR 0x22] @ ''<name> sha256:<hex> [created]'' @ [CHR 0x22] @ '' or legacy '' @
        [CHR 0x22] @ ''<name> <key>'' @ [CHR 0x22] @ ''.'',
      ''# Managed by the controller (pbctl keys); only hashes are stored.'']"

definition render_keys :: "(go_time \<Rightarrow> string) \<Rightarrow> key_entry list \<Rightarrow> string" where
  "render_keys ftime entries = concat (map (\<lambda>l. l @ [CHR 0x0A]) (keys_header @ map (key_line ftime) entries))"

text \<open>
  \<open>WriteFileAtomic\<close>: the steps are create, chmod, write, sync, close and rename; \<open>fault\<close> is
  the first step that fails (0 to 5), or any larger number when none does.  \<open>tmp\<close> is the name
  \<open>CreateTemp\<close> chose, which no file has.  The deferred \<open>Remove\<close> runs on every path that
  got past the creation.
\<close>

definition WriteFileAtomic :: "nat \<Rightarrow> string \<Rightarrow> string \<Rightarrow> string \<Rightarrow> file_system \<Rightarrow> file_system \<times> bool" where
  "WriteFileAtomic fault tmp path data fs =
     (if fault = 0 then (fs, False)
      else
        (let fs1 = fs(tmp \<mapsto> '''')
         in if fault = 1 then (fs1(tmp := None), False)
            else if fault = 2 then ((fs1(tmp \<mapsto> take (length data div 2) data))(tmp := None), False)
            else
              (let fs2 = fs1(tmp \<mapsto> data)
               in if fault \<in> {3, 4, 5} then (fs2(tmp := None), False)
                  else ((fs2(path \<mapsto> data, tmp := None)), True))))"

subsection \<open>The key store\<close>

record static_keys =
  sk_path :: string
  sk_enforced :: bool
  sk_entries :: "key_entry list"
  sk_byHash :: "string \<Rightarrow> string option"

definition by_hash :: "key_entry list \<Rightarrow> string \<Rightarrow> string option" where
  "by_hash entries = foldl (\<lambda>m e. m(ke_Hash e \<mapsto> ke_Name e)) (\<lambda>_. None) entries"

definition NewStaticKeys :: "string \<Rightarrow> static_keys" where
  "NewStaticKeys path = \<lparr>sk_path = path, sk_enforced = False, sk_entries = [], sk_byHash = (\<lambda>_. None)\<rparr>"

definition set_entries :: "key_entry list \<Rightarrow> static_keys \<Rightarrow> static_keys" where
  "set_entries entries s = s\<lparr>sk_entries := entries, sk_byHash := by_hash entries\<rparr>"

definition LoadKeysFile ::
  "(string \<Rightarrow> string) \<Rightarrow> (string \<Rightarrow> go_time option) \<Rightarrow> file_system \<Rightarrow> string \<Rightarrow> auth_error + static_keys" where
  "LoadKeysFile sha ptime fs path =
     (case readKeysFile sha ptime fs path of
        Inl err \<Rightarrow> Inl err
      | Inr entries \<Rightarrow> Inr (set_entries entries ((NewStaticKeys path)\<lparr>sk_enforced := True\<rparr>)))"

definition request_key :: "http_request \<Rightarrow> string" where
  "request_key r = trim_space (case cut_prefix (hq_Authorization r) ''Bearer '' of Some k \<Rightarrow> k | None \<Rightarrow> hq_XAPIKey r)"

definition Lookup_key :: "(string \<Rightarrow> string) \<Rightarrow> static_keys \<Rightarrow> http_request \<Rightarrow> principal option" where
  "Lookup_key sha s r =
     (let key = request_key r
      in if key = '''' then None
         else case sk_byHash s (sha key) of None \<Rightarrow> None | Some name \<Rightarrow> Some \<lparr>p_Name = name\<rparr>)"

definition Authenticate_keys :: "(string \<Rightarrow> string) \<Rightarrow> static_keys \<Rightarrow> http_request \<Rightarrow> auth_error + principal" where
  "Authenticate_keys sha s r =
     (case Lookup_key sha s r of
        Some p \<Rightarrow> Inr p
      | None \<Rightarrow> if \<not> sk_enforced s then Inr \<lparr>p_Name = Anonymous\<rparr> else Inl ErrUnauthorized)"

definition Enforce :: "static_keys \<Rightarrow> auth_error + static_keys" where
  "Enforce s = (if length (sk_entries s) = 0 \<and> \<not> sk_enforced s then Inl ErrNoKeys else Inr (s\<lparr>sk_enforced := True\<rparr>))"

definition List_keys :: "static_keys \<Rightarrow> key_entry list" where
  "List_keys s = sort_key ke_Name (sk_entries s)"

text \<open>The outcome of \<open>persist\<close>: a store without a path writes nothing.\<close>

definition persist ::
  "(go_time \<Rightarrow> string) \<Rightarrow> nat \<Rightarrow> string \<Rightarrow> static_keys \<Rightarrow> key_entry list \<Rightarrow> file_system \<Rightarrow> file_system \<times> bool" where
  "persist ftime fault tmp s entries fs =
     (if sk_path s = '''' then (fs, True)
      else WriteFileAtomic fault tmp (sk_path s) (render_keys ftime entries) fs)"

text \<open>\<open>base64.RawURLEncoding\<close> of a list of bytes.\<close>

definition b64_char :: "nat \<Rightarrow> char" where
  "b64_char k = (if k < 26 then char_of (65 + k) else if k < 52 then char_of (71 + k)
     else if k < 62 then char_of (k - 4) else if k = 62 then CHR ''-'' else CHR ''_'')"

fun b64_encode :: "nat list \<Rightarrow> string" where
  "b64_encode (a # b # c # bs) =
     [b64_char (a div 4), b64_char (a mod 4 * 16 + b div 16), b64_char (b mod 16 * 4 + c div 64), b64_char (c mod 64)] @ b64_encode bs"
| "b64_encode [a, b] = [b64_char (a div 4), b64_char (a mod 4 * 16 + b div 16), b64_char (b mod 16 * 4)]"
| "b64_encode [a] = [b64_char (a div 4), b64_char (a mod 4 * 16)]"
| "b64_encode [] = []"

definition new_key :: "nat list \<Rightarrow> string" where
  "new_key b = ''pb-'' @ b64_encode b"

text \<open>
  \<open>Create\<close> with the random bytes \<open>b\<close> (\<open>None\<close> when the random source fails) and the time
  \<open>now\<close>, in nanoseconds, cut to whole seconds.
\<close>

definition Create_key ::
  "(string \<Rightarrow> string) \<Rightarrow> (go_time \<Rightarrow> string) \<Rightarrow> nat \<Rightarrow> string \<Rightarrow> nat list option \<Rightarrow> go_time \<Rightarrow> string \<Rightarrow>
   static_keys \<times> file_system \<Rightarrow> (auth_error + string \<times> key_entry) \<times> (static_keys \<times> file_system)" where
  "Create_key sha ftime fault tmp rnd now name st =
     (let (s, fs) = st in
      if \<not> ValidKeyName name then (Inl ErrKeyName, st)
      else case rnd of
             None \<Rightarrow> (Inl ErrIO, st)
           | Some b \<Rightarrow>
               (let key = new_key b;
                    e = \<lparr>ke_Name = name, ke_Hash = sha key, ke_Created = Some (now - now mod 1000000000)\<rparr>
                in if \<exists>x \<in> set (sk_entries s). ke_Name x = name then (Inl ErrKeyExists, st)
                   else
                     (let next = sk_entries s @ [e]; (fs', ok) = persist ftime fault tmp s next fs
                      in if \<not> ok then (Inl ErrIO, (s, fs'))
                         else (Inr (key, e), (s\<lparr>sk_entries := next, sk_byHash := (sk_byHash s)(ke_Hash e \<mapsto> name)\<rparr>, fs')))))"

definition Revoke_key ::
  "(go_time \<Rightarrow> string) \<Rightarrow> nat \<Rightarrow> string \<Rightarrow> string \<Rightarrow> static_keys \<times> file_system \<Rightarrow>
   auth_error option \<times> (static_keys \<times> file_system)" where
  "Revoke_key ftime fault tmp name st =
     (let (s, fs) = st; next = filter (\<lambda>e. ke_Name e \<noteq> name) (sk_entries s)
      in if length next = length (sk_entries s) then (Some ErrKeyUnknown, st)
         else
           (let (fs', ok) = persist ftime fault tmp s next fs
            in if \<not> ok then (Some ErrIO, (s, fs'))
               else (None, (s\<lparr>sk_entries := next, sk_byHash := by_hash next\<rparr>, fs'))))"

definition Reload ::
  "(string \<Rightarrow> string) \<Rightarrow> (string \<Rightarrow> go_time option) \<Rightarrow> static_keys \<times> file_system \<Rightarrow>
   auth_error option \<times> (static_keys \<times> file_system)" where
  "Reload sha ptime st =
     (let (s, fs) = st
      in if sk_path s = '''' then (None, st)
         else case readKeysFile sha ptime fs (sk_path s) of
                Inl err \<Rightarrow> (Some err, st)
              | Inr entries \<Rightarrow> (None, (set_entries entries s, fs)))"

subsection \<open>Access control\<close>

abbreviation "AccessLocal \<equiv> ''local''"
abbreviation "AccessKeys \<equiv> ''keys''"
abbreviation "AccessOpen \<equiv> ''open''"

record 'ip access_control =
  ac_Keys :: static_keys
  ac_Mode :: string
  ac_Trusted :: "('ip \<Rightarrow> bool) list"
  ac_TrustedProxies :: "('ip \<Rightarrow> bool) list"

definition first_of_list :: "string \<Rightarrow> string" where
  "first_of_list fwd = trim_space (takeWhile (\<lambda>c. c \<noteq> CHR '','') fwd)"

definition remoteIP ::
  "(string \<Rightarrow> 'ip option) \<Rightarrow> (string \<Rightarrow> string option) \<Rightarrow> http_request \<Rightarrow> ('ip \<Rightarrow> bool) list \<Rightarrow> 'ip option" where
  "remoteIP pip split r proxies =
     (let host = (case split (hq_RemoteAddr r) of None \<Rightarrow> hq_RemoteAddr r | Some h \<Rightarrow> h)
      in case pip host of
           None \<Rightarrow> None
         | Some peer \<Rightarrow>
             if \<not> list_ex (\<lambda>n. n peer) proxies then Some peer
             else if hq_ForwardedFor r = '''' then Some peer
             else case pip (first_of_list (hq_ForwardedFor r)) of Some ip \<Rightarrow> Some ip | None \<Rightarrow> Some peer)"

definition isTrusted ::
  "(string \<Rightarrow> 'ip option) \<Rightarrow> (string \<Rightarrow> string option) \<Rightarrow> 'ip access_control \<Rightarrow> http_request \<Rightarrow> bool" where
  "isTrusted pip split a r =
     (case remoteIP pip split r (ac_TrustedProxies a) of None \<Rightarrow> False | Some ip \<Rightarrow> list_ex (\<lambda>n. n ip) (ac_Trusted a))"

definition Authenticate ::
  "(string \<Rightarrow> string) \<Rightarrow> (string \<Rightarrow> 'ip option) \<Rightarrow> (string \<Rightarrow> string option) \<Rightarrow> 'ip access_control \<Rightarrow> http_request \<Rightarrow>
   auth_error + principal" where
  "Authenticate sha pip split a r =
     (case Lookup_key sha (ac_Keys a) r of
        Some p \<Rightarrow> Inr p
      | None \<Rightarrow>
          (let mode = (if sk_enforced (ac_Keys a) then AccessKeys else ac_Mode a)
           in if mode = AccessKeys then Inl ErrUnauthorized
              else if mode = AccessOpen then Inr \<lparr>p_Name = Anonymous\<rparr>
              else if isTrusted pip split a r then Inr \<lparr>p_Name = Local\<rparr>
              else Inl ErrRemoteRequiresKey))"

subsection \<open>Atomic writes\<close>

lemma WriteFileAtomic_spec:
  assumes "WriteFileAtomic fault tmp path data fs = (fs', ok)" "fs tmp = None" "tmp \<noteq> path"
  shows "fs' path = (if ok then Some data else fs path) \<and> (\<forall>p. p \<noteq> path \<longrightarrow> fs' p = fs p) \<and> (ok \<longleftrightarrow> fault > 5)"
  using assms by (auto simp: WriteFileAtomic_def Let_def split: if_splits)

subsection \<open>Lines and fields\<close>

lemma split_lines_line:
  "CHR 0x0A \<notin> set l \<Longrightarrow> split_lines w (l @ CHR 0x0A # rest) = (rev w @ l) # split_lines [] rest"
  by (induction l arbitrary: w) auto

lemma split_lines_concat:
  "\<forall>l \<in> set ls. CHR 0x0A \<notin> set l \<Longrightarrow> split_lines [] (concat (map (\<lambda>l. l @ [CHR 0x0A]) ls)) = ls"
  by (induction ls) (simp_all add: split_lines_line)

lemma dropWhile_space: "s \<noteq> [] \<Longrightarrow> \<not> is_space (hd s) \<Longrightarrow> dropWhile is_space s = s"
  by (cases s) simp_all

lemma trim_space_id:
  assumes "s \<noteq> []" "\<not> is_space (hd s)" "\<not> is_space (last s)"
  shows "trim_space s = s"
proof -
  have "dropWhile is_space (rev s) = rev s" using assms by (intro dropWhile_space) (simp_all add: hd_rev)
  then show ?thesis unfolding trim_space_def dropWhile_space [OF assms(1,2)] by simp
qed

lemma fields_aux_word:
  "list_all (\<lambda>c. \<not> is_space c) s \<Longrightarrow> fields_aux w (s @ rest) = fields_aux (rev s @ w) rest"
  by (induction s arbitrary: w) auto

definition word_ok :: "string \<Rightarrow> bool" where
  "word_ok w \<longleftrightarrow> w \<noteq> [] \<and> list_all (\<lambda>c. \<not> is_space c) w"

lemma fields_words:
  "word_ok a \<Longrightarrow> Prelude.fields (a @ CHR '' '' # rest) = a # Prelude.fields rest"
  "word_ok a \<Longrightarrow> Prelude.fields a = [a]"
  using fields_aux_word [of a "[]" "[]"] fields_aux_word [of a "[]" "CHR '' '' # rest"]
  by (auto simp: Prelude.fields_def word_ok_def is_space_def)

subsection \<open>The keys file round trip\<close>

definition lower_hex :: "char \<Rightarrow> bool" where
  "lower_hex c \<longleftrightarrow> CHR ''0'' \<le> c \<and> c \<le> CHR ''9'' \<or> CHR ''a'' \<le> c \<and> c \<le> CHR ''f''"

definition entry_wf :: "(go_time \<Rightarrow> string) \<Rightarrow> (string \<Rightarrow> go_time option) \<Rightarrow> key_entry \<Rightarrow> bool" where
  "entry_wf ftime ptime e \<longleftrightarrow> word_ok (ke_Name e) \<and> hd (ke_Name e) \<noteq> CHR ''#'' \<and>
     length (ke_Hash e) = 64 \<and> list_all lower_hex (ke_Hash e) \<and>
     (\<forall>t. ke_Created e = Some t \<longrightarrow> word_ok (ftime t) \<and> ptime (ftime t) = Some t) \<and>
     length (key_line ftime e) \<le> 65535"

lemma lower_hex_facts:
  assumes "lower_hex c"
  shows "hex_digit c" "to_lower_char c = c" "\<not> is_space c"
proof -
  have n: "(48::nat) \<le> of_char c \<and> of_char c \<le> (57::nat) \<or> (97::nat) \<le> of_char c \<and> of_char c \<le> (102::nat)"
    using assms by (auto simp: lower_hex_def less_eq_char_def)
  show "hex_digit c" using assms by (auto simp: lower_hex_def hex_digit_def)
  show "to_lower_char c = c" using n by (auto simp: to_lower_char_def less_eq_char_def)
  show "\<not> is_space c" using n by (auto simp: is_space_def)
qed

lemma word_ok_hash: "list_all lower_hex h \<Longrightarrow> word_ok (hashPrefix @ h)"
  using lower_hex_facts(3) by (auto simp: word_ok_def is_space_def list_all_iff)

lemma word_ok_ends: "word_ok w \<Longrightarrow> \<not> is_space (hd w) \<and> \<not> is_space (last w)"
  by (auto simp: word_ok_def list_all_iff)

lemma parse_key_line:
  assumes "entry_wf ftime ptime e"
  shows "parseKeyLine sha ptime (drop_cr (key_line ftime e)) = Inr (Some e)"
proof -
  have n: "word_ok (ke_Name e)" "hd (ke_Name e) \<noteq> CHR ''#''" and h: "length (ke_Hash e) = 64" "list_all lower_hex (ke_Hash e)"
    using assms by (auto simp: entry_wf_def)
  have wh: "word_ok (hashPrefix @ ke_Hash e)" using h(2) by (rule word_ok_hash)
  have hex: "list_all hex_digit (ke_Hash e)" "to_lower (ke_Hash e) = ke_Hash e"
    using h(2) lower_hex_facts by (auto simp: list_all_iff to_lower_def intro: map_idI)
  have hd: "hd (key_line ftime e) = hd (ke_Name e)" "key_line ftime e \<noteq> []"
    using n by (auto simp: key_line_def word_ok_def)
  have last: "\<not> is_space (last (key_line ftime e))"
  proof (cases "ke_Created e")
    case None
    then have "last (key_line ftime e) = last (hashPrefix @ ke_Hash e)" by (simp add: key_line_def)
    with word_ok_ends [OF wh] show ?thesis by simp
  next
    case (Some t)
    then have "word_ok (ftime t)" using assms by (simp add: entry_wf_def)
    with Some word_ok_ends [OF this] show ?thesis by (simp add: key_line_def word_ok_def)
  qed
  have trim: "trim_space (key_line ftime e) = key_line ftime e"
    using hd last word_ok_ends [OF n(1)] by (intro trim_space_id) simp_all
  have cr: "drop_cr (key_line ftime e) = key_line ftime e"
    using last by (auto simp: drop_cr_def is_space_def)
  have hash: "\<not> has_prefix (key_line ftime e) ''#''"
    using hd n(2) by (cases "key_line ftime e") (auto simp: has_prefix_def)
  have fields: "Prelude.fields (key_line ftime e) = ke_Name e # (hashPrefix @ ke_Hash e) #
      (case ke_Created e of None \<Rightarrow> [] | Some t \<Rightarrow> [ftime t])"
  proof (cases "ke_Created e")
    case None
    then show ?thesis
      using fields_words(1) [OF n(1), of "hashPrefix @ ke_Hash e"] fields_words(2) [OF wh] by (simp add: key_line_def)
  next
    case (Some t)
    then have "word_ok (ftime t)" using assms by (simp add: entry_wf_def)
    with Some show ?thesis
      using fields_words(1) [OF n(1), of "(hashPrefix @ ke_Hash e) @ CHR '' '' # ftime t"] fields_words(1) [OF wh, of "ftime t"]
        fields_words(2) [of "ftime t"] by (simp add: key_line_def)
  qed
  have cut: "cut_prefix (hashPrefix @ ke_Hash e) hashPrefix = Some (ke_Hash e)" by (rule cut_prefix_append)
  show ?thesis
  proof (cases "ke_Created e")
    case None
    then show ?thesis
      unfolding parseKeyLine_def cr trim Let_def fields using hash hd(2) h(1) hex cut by simp
  next
    case (Some t)
    then have "ptime (ftime t) = Some t" using assms by (simp add: entry_wf_def)
    with Some show ?thesis
      unfolding parseKeyLine_def cr trim Let_def fields using hash hd(2) h(1) hex cut by simp
  qed
qed

lemma read_key_lines:
  "\<forall>e \<in> set es. entry_wf ftime ptime e \<Longrightarrow> read_lines sha ptime n (map (key_line ftime) es) = Inr es"
proof (induction es arbitrary: n)
  case (Cons e es)
  then have "length (key_line ftime e) \<le> 65535" "entry_wf ftime ptime e" by (auto simp: entry_wf_def)
  with Cons show ?case by (simp add: parse_key_line)
qed simp

lemma read_header: "read_lines sha ptime n (keys_header @ ls) = read_lines sha ptime (n + 2) ls"
proof -
  have c: "parseKeyLine sha ptime (drop_cr (''#'' @ s)) = Inr None" if "s \<noteq> []" "\<not> is_space (last s)" for s
  proof -
    have "drop_cr (''#'' @ s) = ''#'' @ s" using that by (auto simp: drop_cr_def is_space_def)
    moreover have "trim_space (''#'' @ s) = ''#'' @ s" using that by (intro trim_space_id) (auto simp: is_space_def)
    ultimately show ?thesis by (simp add: parseKeyLine_def has_prefix_def)
  qed
  have "\<exists>s1 s2. keys_header = [''#'' @ s1, ''#'' @ s2] \<and> s1 \<noteq> [] \<and> s2 \<noteq> [] \<and> \<not> is_space (last s1) \<and> \<not> is_space (last s2) \<and>
      length s1 < 200 \<and> length s2 < 200"
    by (simp add: keys_header_def is_space_def)
  then obtain s1 s2 where s: "keys_header = [''#'' @ s1, ''#'' @ s2]" "s1 \<noteq> []" "s2 \<noteq> []" "\<not> is_space (last s1)"
    "\<not> is_space (last s2)" "length s1 < 200" "length s2 < 200" by blast
  show ?thesis
    using c [OF s(2,4)] c [OF s(3,5)] s(6,7) by (simp add: s(1) split: sum.splits)
qed

lemma no_newline:
  assumes "entry_wf ftime ptime e"
  shows "CHR 0x0A \<notin> set (key_line ftime e)"
proof -
  have w: "word_ok w \<Longrightarrow> CHR 0x0A \<notin> set w" for w by (auto simp: word_ok_def list_all_iff is_space_def)
  have "word_ok (ke_Name e)" "word_ok (hashPrefix @ ke_Hash e)" "\<And>t. ke_Created e = Some t \<Longrightarrow> word_ok (ftime t)"
    using assms word_ok_hash by (auto simp: entry_wf_def)
  from this(1,2) [THEN w] w [OF this(3)] show ?thesis by (auto simp: key_line_def split: option.splits)
qed

lemma header_no_newline: "\<forall>l \<in> set keys_header. CHR 0x0A \<notin> set l"
  by (simp add: keys_header_def)

text \<open>
  What \<open>persist\<close> writes is what \<open>readKeysFile\<close> reads: if the write succeeds, the file
  parses back to exactly the entries (names, hashes and creation times); if any step of the
  write fails, the file is unchanged; no other file changes in either case.
\<close>

theorem keys_file_roundtrip:
  assumes "persist ftime fault tmp s entries fs = (fs', ok)" "sk_path s \<noteq> ''''" "fs tmp = None" "tmp \<noteq> sk_path s"
    and "\<forall>e \<in> set entries. entry_wf ftime ptime e"
  shows "(if ok then readKeysFile sha ptime fs' (sk_path s) = Inr entries else fs' (sk_path s) = fs (sk_path s)) \<and>
    (\<forall>p. p \<noteq> sk_path s \<longrightarrow> fs' p = fs p)"
proof -
  have w: "WriteFileAtomic fault tmp (sk_path s) (render_keys ftime entries) fs = (fs', ok)"
    using assms(1,2) by (simp add: persist_def)
  note spec = WriteFileAtomic_spec [OF w assms(3,4)]
  have "\<forall>l \<in> set (keys_header @ map (key_line ftime) entries). CHR 0x0A \<notin> set l"
    using header_no_newline no_newline assms(5) by auto
  from split_lines_concat [OF this]
  have "split_lines [] (render_keys ftime entries) = keys_header @ map (key_line ftime) entries"
    by (simp only: render_keys_def)
  then have "readKeysFile sha ptime fs' (sk_path s) = Inr entries" if ok
    using spec that by (simp add: readKeysFile_def read_header read_key_lines [OF assms(5)])
  with spec show ?thesis by auto
qed

subsection \<open>The store\<close>

lemma by_hash_append: "by_hash (es @ [e]) = (by_hash es)(ke_Hash e \<mapsto> ke_Name e)"
  by (simp add: by_hash_def)

text \<open>The last entry with a hash owns it.\<close>

lemma by_hash_eq: "by_hash es h = map_option ke_Name (find (\<lambda>e. ke_Hash e = h) (rev es))"
proof (induction es rule: rev_induct)
  case Nil
  show ?case by (simp add: by_hash_def)
next
  case (snoc e es)
  then show ?case by (simp add: by_hash_append)
qed

lemma by_hash_Some: "by_hash es h = Some n \<Longrightarrow> \<exists>e \<in> set es. ke_Hash e = h \<and> ke_Name e = n"
  by (auto simp: by_hash_eq dest!: find_Some_mem)

lemma find_filter_ne:
  "find P xs = Some x \<Longrightarrow> Q x \<Longrightarrow> find P (filter Q xs) = Some x"
  by (induction xs) (auto split: if_splits)

lemma by_hash_revoke: "by_hash es h = Some n \<Longrightarrow> n \<noteq> m \<Longrightarrow> by_hash (filter (\<lambda>e. ke_Name e \<noteq> m) es) h = Some n"
proof -
  assume "by_hash es h = Some n" "n \<noteq> m"
  then obtain e where e: "find (\<lambda>e. ke_Hash e = h) (rev es) = Some e" "ke_Name e = n" by (auto simp: by_hash_eq)
  from find_filter_ne [OF e(1), of "\<lambda>e. ke_Name e \<noteq> m"] e(2) \<open>n \<noteq> m\<close> show ?thesis
    by (simp add: by_hash_eq rev_filter)
qed

definition store_ok :: "static_keys \<Rightarrow> bool" where
  "store_ok s \<longleftrightarrow> sk_byHash s = by_hash (sk_entries s)"

text \<open>The operations on a store and its file; a step may fail, and then says what it left behind.\<close>

inductive key_step ::
  "(string \<Rightarrow> string) \<Rightarrow> (go_time \<Rightarrow> string) \<Rightarrow> (string \<Rightarrow> go_time option) \<Rightarrow>
   static_keys \<times> file_system \<Rightarrow> static_keys \<times> file_system \<Rightarrow> bool" for sha ftime ptime where
  key_create: "key_step sha ftime ptime st (snd (Create_key sha ftime fault tmp rnd now name st))"
| key_revoke: "key_step sha ftime ptime st (snd (Revoke_key ftime fault tmp name st))"
| key_reload: "key_step sha ftime ptime st (snd (Reload sha ptime st))"
| key_enforce: "Enforce s = Inr s' \<Longrightarrow> key_step sha ftime ptime (s, fs) (s', fs)"
| key_edit: "key_step sha ftime ptime (s, fs) (s, fs')"

inductive_cases key_stepE: "key_step sha ftime ptime st st'"

inductive key_reach ::
  "(string \<Rightarrow> string) \<Rightarrow> (go_time \<Rightarrow> string) \<Rightarrow> (string \<Rightarrow> go_time option) \<Rightarrow> static_keys \<times> file_system \<Rightarrow> bool"
  for sha ftime ptime where
  reach_new: "key_reach sha ftime ptime (NewStaticKeys path, fs)"
| reach_load: "LoadKeysFile sha ptime fs path = Inr s \<Longrightarrow> key_reach sha ftime ptime (s, fs)"
| reach_step: "key_reach sha ftime ptime st \<Longrightarrow> key_step sha ftime ptime st st' \<Longrightarrow> key_reach sha ftime ptime st'"

lemma store_ok_set: "store_ok (set_entries es s)"
  by (simp add: store_ok_def set_entries_def)

lemma Create_cases:
  obtains (fail) err fs' where "Create_key sha ftime fault tmp rnd now name (s, fs) = (Inl err, (s, fs'))"
  | (ok) b e fs' where "rnd = Some b" "ValidKeyName name" "\<forall>x \<in> set (sk_entries s). ke_Name x \<noteq> name"
      "e = \<lparr>ke_Name = name, ke_Hash = sha (new_key b), ke_Created = Some (now - now mod 1000000000)\<rparr>"
      "Create_key sha ftime fault tmp rnd now name (s, fs) =
        (Inr (new_key b, e), (s\<lparr>sk_entries := sk_entries s @ [e], sk_byHash := (sk_byHash s)(ke_Hash e \<mapsto> name)\<rparr>, fs'))"
  using that by (force simp: Create_key_def Let_def split: if_splits option.splits prod.splits)

lemma Revoke_cases:
  obtains (fail) err fs' where "Revoke_key ftime fault tmp name (s, fs) = (Some err, (s, fs'))"
  | (ok) fs' where "Revoke_key ftime fault tmp name (s, fs) =
        (None, (s\<lparr>sk_entries := filter (\<lambda>e. ke_Name e \<noteq> name) (sk_entries s),
                  sk_byHash := by_hash (filter (\<lambda>e. ke_Name e \<noteq> name) (sk_entries s))\<rparr>, fs'))"
  using that by (force simp: Revoke_key_def Let_def split: if_splits prod.splits)

lemma store_ok_step:
  assumes "key_step sha ftime ptime st st'" "store_ok (fst st)"
  shows "store_ok (fst st') \<and> (sk_enforced (fst st) \<longrightarrow> sk_enforced (fst st')) \<and> sk_path (fst st') = sk_path (fst st)"
  using assms
proof (cases rule: key_step.cases)
  case (key_create fault tmp rnd now name)
  obtain s fs where st: "st = (s, fs)" by (cases st)
  show ?thesis
    unfolding key_create st
    by (rule Create_cases [of sha ftime fault tmp rnd now name s fs])
      (use assms(2) in \<open>auto simp: st store_ok_def by_hash_append\<close>)
next
  case (key_revoke fault tmp name)
  obtain s fs where st: "st = (s, fs)" by (cases st)
  show ?thesis
    unfolding key_revoke st
    by (rule Revoke_cases [of ftime fault tmp name s fs]) (use assms(2) in \<open>auto simp: st store_ok_def\<close>)
next
  case key_reload
  then show ?thesis
    using assms(2) by (cases st) (auto simp: Reload_def store_ok_set set_entries_def store_ok_def split: sum.splits)
qed (auto simp: Enforce_def store_ok_def split: if_splits)

lemma reach_store_ok: "key_reach sha ftime ptime st \<Longrightarrow> store_ok (fst st)"
proof (induction rule: key_reach.induct)
  case (reach_load fs path s)
  then show ?case by (auto simp: LoadKeysFile_def store_ok_set split: sum.splits)
qed (auto simp: store_ok_def NewStaticKeys_def by_hash_def dest: store_ok_step [unfolded store_ok_def])

subsection \<open>Authenticators\<close>

text \<open>
  The gateway's \<open>Authenticator\<close> interface: the callers rely on a known key always being its
  owner's, and on a strict authenticator refusing everything else.
\<close>

locale authenticator =
  fixes auth :: "http_request \<Rightarrow> auth_error + principal"
    and owner :: "http_request \<Rightarrow> principal option"
    and strict :: bool
  assumes known_key: "owner r = Some p \<Longrightarrow> auth r = Inr p"
    and strict_refuses: "strict \<Longrightarrow> owner r = None \<Longrightarrow> \<exists>err. auth r = Inl err"
begin

lemma strict_iff: "strict \<Longrightarrow> auth r = Inr p \<longleftrightarrow> owner r = Some p"
  using known_key [of r] strict_refuses [of r] by (cases "owner r") auto

lemma refused_unknown: "auth r = Inl err \<Longrightarrow> owner r = None"
  using known_key [of r] by (cases "owner r") auto

end

interpretation key_auth: authenticator "Authenticate_keys sha s" "Lookup_key sha s" "sk_enforced s" for sha s
  by unfold_locales (auto simp: Authenticate_keys_def)

interpretation access_auth: authenticator "Authenticate sha pip split a" "Lookup_key sha (ac_Keys a)"
  "sk_enforced (ac_Keys a) \<or> ac_Mode a = AccessKeys" for sha pip split a
  by unfold_locales (auto simp: Authenticate_def)

lemma Lookup_key_entry:
  "store_ok s \<Longrightarrow> Lookup_key sha s r = Some p \<Longrightarrow>
     request_key r \<noteq> '''' \<and> (\<exists>e \<in> set (sk_entries s). ke_Hash e = sha (request_key r) \<and> p = \<lparr>p_Name = ke_Name e\<rparr>)"
  by (auto simp: Lookup_key_def store_ok_def Let_def dest!: by_hash_Some split: option.splits if_splits)


subsection \<open>The life of a key\<close>

lemma b64_char_ok: "\<not> is_space (b64_char k)"
proof (cases "k < 62")
  case True
  consider "k < 26" | "26 \<le> k" "k < 52" | "52 \<le> k" "k < 62" using True by linarith
  then have "(32::nat) < of_char (b64_char k)" by cases (simp_all add: b64_char_def)
  then show ?thesis by (auto simp: is_space_def)
next
  case False
  then show ?thesis by (auto simp: b64_char_def is_space_def)
qed

lemma b64_no_space: "list_all (\<lambda>c. \<not> is_space c) (b64_encode b)"
  by (induction b rule: b64_encode.induct) (simp_all add: b64_char_ok)

lemma trim_new_key: "trim_space (new_key b) = new_key b"
proof (rule trim_space_id)
  have "list_all (\<lambda>c. \<not> is_space c) (new_key b)" using b64_no_space [of b] by (simp add: new_key_def is_space_def)
  then show "\<not> is_space (last (new_key b))" by (simp add: list_all_iff new_key_def)
qed (simp_all add: new_key_def is_space_def)

text \<open>
  C14. The life of a key: after a successful \<open>Create\<close> the plaintext key returned to the
  operator authenticates as its owner, sent as a bearer token; after a successful
  \<open>Revoke\<close> no request at all looks up to that owner, and every other owner's requests still do.
\<close>

theorem key_lifecycle:
  assumes "key_reach sha ftime ptime (s, fs)"
    and "Create_key sha ftime fault tmp rnd now name (s, fs) = (Inr (key, e), (s1, fs1))"
    and "Revoke_key ftime fault' tmp' name (s1, fs1) = (None, (s2, fs2))"
  shows "(\<forall>r. hq_Authorization r = ''Bearer '' @ key \<longrightarrow> Authenticate_keys sha s1 r = Inr \<lparr>p_Name = name\<rparr>) \<and>
    (\<forall>r. Lookup_key sha s2 r \<noteq> Some \<lparr>p_Name = name\<rparr>) \<and>
    (\<forall>r p. Lookup_key sha s1 r = Some p \<longrightarrow> p_Name p \<noteq> name \<longrightarrow> Lookup_key sha s2 r = Some p)"
proof -
  have ok: "store_ok s1"
    using store_ok_step [OF key_create [of sha ftime ptime "(s, fs)" fault tmp rnd now name]] reach_store_ok [OF assms(1)]
    by (simp add: assms(2))
  have s1: "sk_byHash s1 (sha key) = Some name \<and> (\<exists>b. key = new_key b)"
    by (rule Create_cases [of sha ftime fault tmp rnd now name s fs]) (use assms(2) in auto)
  then obtain b where b: "key = new_key b" by blast
  have "key \<noteq> ''''" by (simp add: b new_key_def)
  moreover have "request_key r = key" if "hq_Authorization r = ''Bearer '' @ key" for r
    unfolding request_key_def that cut_prefix_append by (simp add: b trim_new_key)
  ultimately have first: "Lookup_key sha s1 r = Some \<lparr>p_Name = name\<rparr>" if "hq_Authorization r = ''Bearer '' @ key" for r
    using that s1 by (simp add: Lookup_key_def)
  have s2: "sk_byHash s2 = by_hash (filter (\<lambda>e. ke_Name e \<noteq> name) (sk_entries s1))"
    by (rule Revoke_cases [of ftime fault' tmp' name s1 fs1]) (use assms(3) in auto)
  have gone: "Lookup_key sha s2 r \<noteq> Some \<lparr>p_Name = name\<rparr>" for r
    using by_hash_Some [of "filter (\<lambda>e. ke_Name e \<noteq> name) (sk_entries s1)"]
    by (fastforce simp: Lookup_key_def s2 Let_def split: option.splits if_splits)
  have "Lookup_key sha s2 r = Some p" if p: "Lookup_key sha s1 r = Some p" "p_Name p \<noteq> name" for r p
  proof -
    have "by_hash (sk_entries s1) (sha (request_key r)) = Some (p_Name p)" "request_key r \<noteq> ''''" "p = \<lparr>p_Name = p_Name p\<rparr>"
      using p(1) ok by (auto simp: Lookup_key_def store_ok_def Let_def split: option.splits if_splits)
    with by_hash_revoke [OF this(1) p(2)] show ?thesis by (simp add: Lookup_key_def s2)
  qed
  with first gone key_auth.known_key show ?thesis by blast
qed

text \<open>"local" is not a reserved name: an API key of that name is not told apart from trusted peers.\<close>

lemma local_key_name: "ValidKeyName Local"
  by (simp add: ValidKeyName_def key_name_re_def key_name_char_def less_eq_char_def)

subsection \<open>Examples\<close>

definition toy_sha :: "string \<Rightarrow> string" where
  "toy_sha s = replicate 64 (if s = '''' then CHR ''0'' else CHR ''a'')"

definition toy_ftime :: "go_time \<Rightarrow> string" where
  "toy_ftime t = (if t < 0 then CHR ''-'' # replicate (nat (- t)) CHR ''1'' else CHR ''+'' # replicate (nat t) CHR ''1'')"

definition toy_ptime :: "string \<Rightarrow> go_time option" where
  "toy_ptime s = (case s of [] \<Rightarrow> None | c # cs \<Rightarrow> Some (if c = CHR ''-'' then - int (length cs) else int (length cs)))"

definition sample_entry :: key_entry where
  "sample_entry = \<lparr>ke_Name = ''bob'', ke_Hash = replicate 64 CHR ''a'', ke_Created = Some 3\<rparr>"

lemma sample_entry_wf: "entry_wf toy_ftime toy_ptime sample_entry"
  by (auto simp: entry_wf_def sample_entry_def word_ok_def is_space_def lower_hex_def less_eq_char_def list_all_iff
      toy_ftime_def toy_ptime_def key_line_def)

definition sample_store :: static_keys where
  "sample_store = (NewStaticKeys ''keys'')\<lparr>sk_enforced := False\<rparr>"

theorem keys_file_roundtrip_witness:
  "readKeysFile toy_sha toy_ptime (fst (persist toy_ftime 9 ''t'' sample_store [sample_entry] (\<lambda>_. None))) ''keys'' = Inr [sample_entry]"
proof -
  obtain fs' ok where p: "persist toy_ftime 9 ''t'' sample_store [sample_entry] (\<lambda>_. None) = (fs', ok)" by fastforce
  have ok by (use p in \<open>auto simp: persist_def sample_store_def NewStaticKeys_def WriteFileAtomic_def Let_def\<close>)
  with keys_file_roundtrip [OF p, of toy_ptime toy_sha] sample_entry_wf p show ?thesis
    by (simp add: sample_store_def NewStaticKeys_def)
qed

lemma sample_reach: "key_reach toy_sha toy_ftime toy_ptime (sample_store, \<lambda>_. None)"
  using reach_new [of toy_sha toy_ftime toy_ptime "''keys''"] by (simp add: sample_store_def NewStaticKeys_def)


definition sample_created :: "(auth_error + string \<times> key_entry) \<times> (static_keys \<times> file_system)" where
  "sample_created = Create_key toy_sha toy_ftime 9 ''t'' (Some [1, 2, 3]) 0 ''bob'' (sample_store, \<lambda>_. None)"

definition bearer :: "string \<Rightarrow> http_request" where
  "bearer key = \<lparr>hq_Authorization = ''Bearer '' @ key, hq_XAPIKey = [], hq_RemoteAddr = [], hq_ForwardedFor = []\<rparr>"

theorem key_lifecycle_witness:
  "\<exists>key e s1 fs1 s2 fs2. sample_created = (Inr (key, e), (s1, fs1)) \<and>
     Revoke_key toy_ftime 9 ''t'' ''bob'' (s1, fs1) = (None, (s2, fs2)) \<and>
     Authenticate_keys toy_sha s1 (bearer key) = Inr \<lparr>p_Name = ''bob''\<rparr> \<and>
     Lookup_key toy_sha s2 (bearer key) \<noteq> Some \<lparr>p_Name = ''bob''\<rparr>"
proof -
  obtain key e s1 fs1 where c: "sample_created = (Inr (key, e), (s1, fs1))" "\<exists>x \<in> set (sk_entries s1). ke_Name x = ''bob''"
    "sk_path s1 = ''keys''"
    by (auto simp: sample_created_def Create_key_def ValidKeyName_def key_name_re_def key_name_char_def less_eq_char_def
        sample_store_def NewStaticKeys_def persist_def WriteFileAtomic_def Let_def)
  from c(2) have "length (filter (\<lambda>e. ke_Name e \<noteq> ''bob'') (sk_entries s1)) < length (sk_entries s1)"
    by (auto intro: length_filter_less)
  with c(3) obtain s2 fs2 where r: "Revoke_key toy_ftime 9 ''t'' ''bob'' (s1, fs1) = (None, (s2, fs2))"
    by (auto simp: Revoke_key_def Let_def persist_def WriteFileAtomic_def split: if_splits)
  note life = key_lifecycle [OF sample_reach c(1) [unfolded sample_created_def] r]
  have "Authenticate_keys toy_sha s1 (bearer key) = Inr \<lparr>p_Name = ''bob''\<rparr>"
    by (rule mp [OF spec [OF conjunct1 [OF life], of "bearer key"]]) (simp add: bearer_def)
  with life c(1) r show ?thesis by blast
qed

end
