(* ===== verification/Picker.thy ===== *)
theory Picker
  imports Backend
begin

text \<open>
  The routing policies of \<^verbatim>\<open>controller/gateway/picker.go\<close> (\<open>LeastInflight\<close>, \<open>Affinity\<close>) and
  \<^verbatim>\<open>controller/gateway/targets.go\<close> (\<open>Spread\<close>), the interface \<open>Picker\<close> as the locale
  \<open>picker\<close> with the gateway's contract, and its interpretation on all three.
  The rotation counters are the \<open>uint64\<close> of \<open>atomic.Uint64\<close>: they wrap.
\<close>

type_synonym inflight = "node_id \<Rightarrow> int"
type_synonym score = "backend \<Rightarrow> int \<times> int"

definition nonHot :: "backend list \<Rightarrow> backend list" where
  "nonHot c = (let out = filter (\<lambda>b. \<not> b_Hot b) c in if length out = 0 then c else out)"

fun anyNonHot :: "backend list \<Rightarrow> bool" where
  "anyNonHot [] = False"
| "anyNonHot (b # bs) = (if \<not> b_Hot b then True else anyNonHot bs)"

text \<open>The scan of \<open>leastBy\<close>: \<open>(p, s)\<close> of the next candidate against \<open>(bp, bs)\<close> of the best.\<close>

fun least_scan :: "score \<Rightarrow> backend \<Rightarrow> int \<Rightarrow> int \<Rightarrow> backend list \<Rightarrow> backend" where
  "least_scan score best bp bs [] = best"
| "least_scan score best bp bs (b # rest) =
     (let (p, s) = score b in
      if p < bp \<or> (p = bp \<and> s < bs) \<or> (p = bp \<and> s = bs \<and> b_Speed b > b_Speed best)
      then least_scan score b p s rest
      else least_scan score best bp bs rest)"

text \<open>The candidates in the order \<open>c[(start+i)%len(c)]\<close> for \<open>i = 1, 2, \<dots>\<close>.\<close>

definition rotation :: "backend list \<Rightarrow> nat \<Rightarrow> backend list" where
  "rotation c start = map (\<lambda>i. c ! ((start + i) mod length c)) [1..<length c]"

definition leastBy :: "backend list \<Rightarrow> nat \<Rightarrow> score \<Rightarrow> backend option" where
  "leastBy c start score =
     (if start < length c
      then (let best = c ! start; (bp, bs) = score best
            in Some (least_scan score best bp bs (rotation c start)))
      else None)"

subsection \<open>What the scan computes\<close>

text \<open>
  The key that the scan minimises: primary and secondary score, then minus the speed.
\<close>

definition rank_key :: "score \<Rightarrow> backend \<Rightarrow> int \<times> int \<times> real" where
  "rank_key score b = (fst (score b), snd (score b), - b_Speed b)"

lemma rank_key_less:
  "rank_key score b < rank_key score best \<longleftrightarrow>
     (fst (score b) < fst (score best) \<or>
      (fst (score b) = fst (score best) \<and> snd (score b) < snd (score best)) \<or>
      (fst (score b) = fst (score best) \<and> snd (score b) = snd (score best) \<and> b_Speed b > b_Speed best))"
  by (auto simp: rank_key_def less_prod_def' less_eq_prod_def)

lemma least_scan_Cons:
  "least_scan score best (fst (score best)) (snd (score best)) (b # rest) =
     (if rank_key score b < rank_key score best
      then least_scan score b (fst (score b)) (snd (score b)) rest
      else least_scan score best (fst (score best)) (snd (score best)) rest)"
  by (auto simp: rank_key_less split: prod.splits)

declare least_scan.simps(2) [simp del]

abbreviation scan :: "score \<Rightarrow> backend \<Rightarrow> backend list \<Rightarrow> backend" where
  "scan score best rest \<equiv> least_scan score best (fst (score best)) (snd (score best)) rest"

lemma scan_mem: "scan score best rest \<in> insert best (set rest)"
  by (induction rest arbitrary: best) (auto simp: least_scan_Cons)

lemma scan_le_best: "rank_key score (scan score best rest) \<le> rank_key score best"
  by (induction rest arbitrary: best) (auto simp: least_scan_Cons intro: less_imp_le order_trans)

lemma scan_least: "x \<in> insert best (set rest) \<Longrightarrow> rank_key score (scan score best rest) \<le> rank_key score x"
proof (induction rest arbitrary: best)
  case Nil
  then show ?case by simp
next
  case (Cons b rest)
  show ?case
  proof (cases "x \<in> insert b (set rest) \<and> rank_key score b < rank_key score best")
    case True
    with Cons.IH [of b] show ?thesis by (simp add: least_scan_Cons)
  next
    case False
    with Cons.prems Cons.IH [of best] scan_le_best [of score b rest] scan_le_best [of score best rest]
    show ?thesis by (auto simp: least_scan_Cons not_less intro: order_trans less_imp_le)
  qed
qed

text \<open>
  Among full ties the first candidate of the rotation wins: everything before the
  result is strictly worse.
\<close>

lemma scan_first:
  "\<exists>k \<le> length rest. (best # rest) ! k = scan score best rest \<and>
     (\<forall>j < k. rank_key score (scan score best rest) < rank_key score ((best # rest) ! j))"
proof (induction rest arbitrary: best)
  case Nil
  then show ?case by simp
next
  case (Cons b rest)
  show ?case
  proof (cases "rank_key score b < rank_key score best")
    case True
    obtain k where k: "k \<le> length rest" "(b # rest) ! k = scan score b rest"
      "\<forall>j < k. rank_key score (scan score b rest) < rank_key score ((b # rest) ! j)"
      using Cons.IH by blast
    have "rank_key score (scan score b rest) < rank_key score best"
      using True scan_le_best order_le_less_trans by blast
    with k True show ?thesis
      by (intro exI [of _ "Suc k"]) (auto simp: least_scan_Cons nth_Cons split: nat.splits)
  next
    case False
    obtain k where k: "k \<le> length rest" "(best # rest) ! k = scan score best rest"
      "\<forall>j < k. rank_key score (scan score best rest) < rank_key score ((best # rest) ! j)"
      using Cons.IH by blast
    show ?thesis
    proof (cases k)
      case 0
      with k False show ?thesis by (intro exI [of _ 0]) (auto simp: least_scan_Cons)
    next
      case (Suc m)
      have "rank_key score (scan score best rest) < rank_key score best"
        using k(3) Suc by fastforce
      then have b: "rank_key score (scan score best rest) < rank_key score b"
        using False by auto
      have tail: "\<forall>j < m. rank_key score (scan score best rest) < rank_key score (rest ! j)"
        using k(3) Suc by (metis Suc_mono nth_Cons_Suc)
      have "rank_key score (scan score best rest) < rank_key score ((best # b # rest) ! j)"
        if "j < Suc (Suc m)" for j
        using that b tail \<open>rank_key score (scan score best rest) < rank_key score best\<close>
        by (cases j; cases "j - 1") auto
      with k Suc False show ?thesis
        by (intro exI [of _ "Suc (Suc m)"]) (auto simp: least_scan_Cons)
    qed
  qed
qed

lemma set_rotation: "start < length c \<Longrightarrow> set c = insert (c ! start) (set (rotation c start))"
proof -
  assume start: "start < length c"
  have "x \<in> insert (c ! start) (set (rotation c start))" if "x \<in> set c" for x
  proof -
    from that obtain i where i: "i < length c" "c ! i = x" by (auto simp: in_set_conv_nth)
    define d where "d = (i + length c - start) mod length c"
    have d: "d < length c" "(start + d) mod length c = i"
      using start i(1) by (simp_all add: d_def mod_add_right_eq less_imp_le mod_less_divisor
          length_greater_0_conv [symmetric] del: length_greater_0_conv)
    show ?thesis
    proof (cases "d = 0")
      case True
      with d start i show ?thesis by simp
    next
      case False
      then have "d \<in> {1..<length c}" using d by auto
      then show ?thesis using d i unfolding rotation_def by fastforce
    qed
  qed
  moreover have "insert (c ! start) (set (rotation c start)) \<subseteq> set c"
    using start by (auto simp: rotation_def intro!: nth_mem mod_less_divisor)
  ultimately show ?thesis by blast
qed

lemma leastBy_eq:
  "start < length c \<Longrightarrow> leastBy c start score = Some (scan score (c ! start) (rotation c start))"
  by (simp add: leastBy_def case_prod_beta Let_def)

lemma leastBy_Some_start: "leastBy c start score = Some b \<Longrightarrow> start < length c"
  by (auto simp: leastBy_def split: if_splits)

lemma leastBy_mem: "leastBy c start score = Some b \<Longrightarrow> b \<in> set c"
  using leastBy_Some_start [of c start score b] scan_mem [of score "c ! start" "rotation c start"]
    set_rotation [of start c] by (simp add: leastBy_eq)

lemma leastBy_least:
  "leastBy c start score = Some b \<Longrightarrow> x \<in> set c \<Longrightarrow> rank_key score b \<le> rank_key score x"
  using leastBy_Some_start [of c start score b] scan_least [of x "c ! start" "rotation c start" score]
    set_rotation [of start c] by (simp add: leastBy_eq)

lemma set_nonHot:
  "set (nonHot c) = (if \<exists>b \<in> set c. \<not> b_Hot b then {b \<in> set c. \<not> b_Hot b} else set c)"
  by (auto simp: nonHot_def Let_def filter_empty_conv)

lemma nonHot_nonempty [simp]: "nonHot c = [] \<longleftrightarrow> c = []"
  by (auto simp: nonHot_def Let_def filter_empty_conv)

lemma anyNonHot_iff: "anyNonHot c \<longleftrightarrow> (\<exists>b \<in> set c. \<not> b_Hot b)"
  by (induction c) auto

subsection \<open>LeastInflight and Spread\<close>

text \<open>\<open>int(p.rr.Add(1)%uint64(len(c)))\<close>; on no candidates the modulus panics.\<close>

definition rr_start :: "64 word \<Rightarrow> backend list \<Rightarrow> nat" where
  "rr_start rr c = unat rr mod length c"

definition least_inflight_pick ::
  "64 word \<Rightarrow> request \<Rightarrow> backend list \<Rightarrow> inflight \<Rightarrow> (backend \<times> 64 word) option" where
  "least_inflight_pick rr req c inflight =
     (let c = nonHot c; rr' = rr + 1 in
      if c = [] then None
      else map_option (\<lambda>b. (b, rr')) (leastBy c (rr_start rr' c) (\<lambda>b. (inflight (b_NodeID b), 0))))"

definition spread_pick ::
  "64 word \<Rightarrow> request \<Rightarrow> backend list \<Rightarrow> inflight \<Rightarrow> (backend \<times> 64 word) option" where
  "spread_pick rr req c inflight =
     (let c = nonHot c; rr' = rr + 1 in
      if c = [] then None
      else map_option (\<lambda>b. (b, rr')) (leastBy c (rr_start rr' c) (\<lambda>b. (inflight (b_NodeID b), 0))))"

lemma rr_start_less: "c \<noteq> [] \<Longrightarrow> rr_start rr c < length c"
  by (simp add: rr_start_def)

lemma leastBy_rr: "c \<noteq> [] \<Longrightarrow> \<exists>b. leastBy c (rr_start rr c) score = Some b"
  by (simp add: leastBy_eq rr_start_less)

subsection \<open>Affinity\<close>

record pin =
  p_node :: node_id
  p_last :: go_time
  p_large :: bool

text \<open>
  \<open>Affinity\<close>: \<open>a_now\<close> is what the clock \<open>a.now\<close> returns in the current call; \<open>a_keys\<close> is
  the map of pins in iteration order; \<open>a_decisions\<close> is the decision counter by label.
  \<open>MaxKeys\<close> is a \<open>nat\<close>: the constructor sets 4096 and nothing lowers it.
\<close>

record affinity =
  a_TTL :: go_duration
  a_MaxKeys :: nat
  a_Spill :: int
  a_LargePrompt :: int
  a_now :: go_time
  a_rr :: "64 word"
  a_keys :: "(string \<times> pin) list"
  a_decisions :: "string \<Rightarrow> nat"

text \<open>\<open>NewAffinity\<close>: 30 minutes, 4096 keys, spill 2, large prompts from 16 KiB.\<close>

definition NewAffinity :: "go_time \<Rightarrow> affinity" where
  "NewAffinity now = \<lparr>a_TTL = 30 * 60 * 1000000000, a_MaxKeys = 4096, a_Spill = 2,
     a_LargePrompt = 16 * 1024, a_now = now, a_rr = 0, a_keys = [], a_decisions = (\<lambda>_. 0)\<rparr>"

definition count_decision :: "string \<Rightarrow> affinity \<Rightarrow> affinity" where
  "count_decision r a = a\<lparr>a_decisions := (a_decisions a)(r := Suc (a_decisions a r))\<rparr>"

text \<open>The inner loop of \<open>prune\<close>: the key with the oldest \<open>last\<close>, \<open>""\<close> before the first.\<close>

definition oldest_step :: "(string \<times> pin) list \<Rightarrow> string \<Rightarrow> string \<times> pin \<Rightarrow> string" where
  "oldest_step m oldest kp =
     (if oldest = '''' \<or> p_last (snd kp) < p_last (the (map_of m oldest)) then fst kp else oldest)"

definition oldest_key :: "(string \<times> pin) list \<Rightarrow> string" where
  "oldest_key m = foldl (oldest_step m) '''' m"

lemma foldl_oldest_mem:
  "foldl (oldest_step m) o' xs \<in> insert o' (set (keys_of xs))"
  by (induction xs arbitrary: o') (force simp: oldest_step_def)+

lemma oldest_key_mem: "m \<noteq> [] \<Longrightarrow> oldest_key m \<in> set (keys_of m)"
proof -
  assume "m \<noteq> []"
  then obtain kp m' where m: "m = kp # m'" by (cases m) auto
  have "oldest_key m = foldl (oldest_step m) (fst kp) m'"
    by (simp add: oldest_key_def m oldest_step_def)
  with foldl_oldest_mem [of m "fst kp" m'] m show ?thesis by auto
qed

function prune_oldest :: "nat \<Rightarrow> (string \<times> pin) list \<Rightarrow> (string \<times> pin) list" where
  "prune_oldest maxKeys m =
     (if length m > maxKeys then prune_oldest maxKeys (AList.delete (oldest_key m) m) else m)"
  by pat_completeness auto
termination
proof (relation "measure (\<lambda>(n, m). length m)", goal_cases)
  case 1
  show ?case by simp
next
  case (2 maxKeys m)
  then have "m \<noteq> []" by auto
  then show ?case using length_delete_less [OF oldest_key_mem] by simp
qed

declare prune_oldest.simps [simp del]

definition prune :: "affinity \<Rightarrow> affinity" where
  "prune a =
     (let live = filter (\<lambda>(k, p). \<not> a_now a - p_last p > a_TTL a) (a_keys a)
      in a\<lparr>a_keys := prune_oldest (a_MaxKeys a) live\<rparr>)"

text \<open>Large sessions per node.\<close>

definition large_sessions :: "(string \<times> pin) list \<Rightarrow> node_id \<Rightarrow> int" where
  "large_sessions m n = int (length (filter (\<lambda>(k, p). p_large p \<and> p_node p = n) m))"

text \<open>The closure \<open>fresh\<close> of \<open>Pick\<close>: a policy choice for a key without a usable pin.\<close>

definition fresh :: "affinity \<Rightarrow> backend list \<Rightarrow> inflight \<Rightarrow> (node_id \<Rightarrow> int) \<Rightarrow> (backend \<times> affinity) option" where
  "fresh a c inflight sessions =
     (let cands = nonHot c; rr' = a_rr a + 1 in
      if cands = [] then None
      else map_option (\<lambda>b. (b, a\<lparr>a_rr := rr'\<rparr>))
        (leastBy cands (rr_start rr' cands) (\<lambda>b. (inflight (b_NodeID b), sessions (b_NodeID b)))))"

fun min_inflight :: "inflight \<Rightarrow> int \<Rightarrow> backend list \<Rightarrow> int" where
  "min_inflight inflight m [] = m"
| "min_inflight inflight m (b # bs) = min_inflight inflight (min m (inflight (b_NodeID b))) bs"

definition pinned_ok :: "affinity \<Rightarrow> backend list \<Rightarrow> inflight \<Rightarrow> pin \<Rightarrow> int \<Rightarrow> backend \<Rightarrow> bool" where
  "pinned_ok a c inflight p minInflight b \<longleftrightarrow>
     b_NodeID b = p_node p \<and> \<not> (b_Hot b \<and> anyNonHot c) \<and> inflight (b_NodeID b) - minInflight < a_Spill a"

text \<open>The last lines of \<open>Pick\<close>: a fresh choice, pinned and counted.\<close>

definition pick_and_pin ::
  "affinity \<Rightarrow> request \<Rightarrow> backend list \<Rightarrow> inflight \<Rightarrow> (node_id \<Rightarrow> int) \<Rightarrow> string \<Rightarrow> (backend \<times> affinity) option" where
  "pick_and_pin a req c inflight sessions result =
     (case fresh a c inflight sessions of
        None \<Rightarrow> None
      | Some (b, a') \<Rightarrow>
          Some (b, count_decision result
            (a'\<lparr>a_keys := AList.update (r_AffinityKey req)
                  \<lparr>p_node = b_NodeID b, p_last = a_now a, p_large = r_PromptBytes req \<ge> a_LargePrompt a\<rparr>
                  (a_keys a')\<rparr>)))"

definition affinity_pick :: "affinity \<Rightarrow> request \<Rightarrow> backend list \<Rightarrow> inflight \<Rightarrow> (backend \<times> affinity) option" where
  "affinity_pick a0 req c inflight =
     (let a = prune a0; sessions = large_sessions (a_keys a) in
      if r_AffinityKey req = '''' then fresh (count_decision ''none'' a) c inflight sessions
      else case map_of (a_keys a) (r_AffinityKey req) of
        None \<Rightarrow> pick_and_pin a req c inflight sessions ''miss''
      | Some p \<Rightarrow>
          (case c of
             [] \<Rightarrow> None
           | c0 # rest \<Rightarrow>
               (let minInflight = min_inflight inflight (inflight (b_NodeID c0)) rest in
                case find (pinned_ok a c inflight p minInflight) c of
                  Some b \<Rightarrow>
                    Some (b, count_decision ''hit''
                      (a\<lparr>a_keys := AList.update (r_AffinityKey req) (p\<lparr>p_last := a_now a\<rparr>) (a_keys a)\<rparr>))
                | None \<Rightarrow>
                    (let sessions = (if p_large p then sessions(p_node p := sessions (p_node p) - 1) else sessions)
                     in pick_and_pin a req c inflight sessions ''spill''))))"

definition SetSpill :: "int \<Rightarrow> affinity \<Rightarrow> affinity" where
  "SetSpill n a = a\<lparr>a_Spill := n\<rparr>"

text \<open>\<open>Pins\<close>: live pins per node, after pruning.\<close>

definition Pins :: "affinity \<Rightarrow> (node_id \<Rightarrow> nat) \<times> affinity" where
  "Pins a = (let a' = prune a in
     ((\<lambda>n. length (filter (\<lambda>(k, p). p_node p = n) (a_keys a'))), a'))"

definition Unpin :: "node_id \<Rightarrow> affinity \<Rightarrow> nat \<times> affinity" where
  "Unpin nodeID a =
     (length (filter (\<lambda>(k, p). p_node p = nodeID) (a_keys a)),
      a\<lparr>a_keys := filter (\<lambda>(k, p). p_node p \<noteq> nodeID) (a_keys a)\<rparr>)"

subsection \<open>Pruning\<close>

lemma prune_oldest_subset: "set (prune_oldest n m) \<subseteq> set m"
proof (induction n m rule: prune_oldest.induct)
  case (1 n m)
  then show ?case
    using set_delete_subset [of "oldest_key m" m] by (subst prune_oldest.simps) auto
qed

lemma prune_oldest_length: "length (prune_oldest n m) = min n (length m) \<or> length (prune_oldest n m) \<le> n"
proof (induction n m rule: prune_oldest.induct)
  case (1 n m)
  then show ?case by (subst (1 2) prune_oldest.simps) auto
qed

lemma prune_oldest_le: "length (prune_oldest n m) \<le> n"
  using prune_oldest_length [of n m] by auto

lemma prune_oldest_distinct: "distinct (keys_of m) \<Longrightarrow> distinct (keys_of (prune_oldest n m))"
proof (induction n m rule: prune_oldest.induct)
  case (1 n m)
  then show ?case by (subst prune_oldest.simps) (auto simp: distinct_delete)
qed

lemma prune_oldest_small [simp]: "length m \<le> n \<Longrightarrow> prune_oldest n m = m"
  by (subst prune_oldest.simps) simp

text \<open>The chosen key is the oldest, whatever the iteration order.\<close>

lemma foldl_oldest_min:
  assumes "\<forall>(k, p) \<in> set xs. k \<noteq> [] \<and> map_of m k = Some p" "o' \<noteq> []"
  shows "p_last (the (map_of m (foldl (oldest_step m) o' xs))) \<le> p_last (the (map_of m o')) \<and>
    (\<forall>(k, p) \<in> set xs. p_last (the (map_of m (foldl (oldest_step m) o' xs))) \<le> p_last p)"
  using assms
proof (induction xs arbitrary: o')
  case Nil
  then show ?case by simp
next
  case (Cons kp xs)
  obtain k p where kp: "kp = (k, p)" by (cases kp)
  define o1 where "o1 = oldest_step m o' kp"
  have o1: "o1 \<noteq> []" "p_last (the (map_of m o1)) \<le> p_last (the (map_of m o'))"
    "p_last (the (map_of m o1)) \<le> p_last p"
    using Cons.prems kp by (auto simp: o1_def oldest_step_def)
  from Cons.prems(1) have "\<forall>(k, p) \<in> set xs. k \<noteq> [] \<and> map_of m k = Some p" by simp
  from Cons.IH [OF this o1(1)] o1 kp have
    "p_last (the (map_of m (foldl (oldest_step m) o1 xs))) \<le> p_last (the (map_of m o')) \<and>
      (\<forall>(k, p) \<in> set (kp # xs). p_last (the (map_of m (foldl (oldest_step m) o1 xs))) \<le> p_last p)"
    by auto
  then show ?case by (simp add: o1_def)
qed

lemma oldest_key_least:
  assumes "distinct (keys_of m)" "'''' \<notin> set (keys_of m)" "(k, p) \<in> set m"
  shows "p_last (the (map_of m (oldest_key m))) \<le> p_last p"
proof -
  obtain kp m' where m: "m = kp # m'" using assms(3) by (cases m) auto
  have eq: "oldest_key m = foldl (oldest_step m) (fst kp) m'"
    by (simp add: oldest_key_def m oldest_step_def)
  have lk: "k \<noteq> [] \<and> map_of m k = Some p" if "(k, p) \<in> set m" for k p
    using assms(1,2) that by force
  have kp: "fst kp \<noteq> []" "map_of m (fst kp) = Some (snd kp)"
    using lk [of "fst kp" "snd kp"] m by simp_all
  have lk': "\<forall>(k, p) \<in> set m'. k \<noteq> [] \<and> map_of m k = Some p" using lk m by auto
  from foldl_oldest_min [OF lk' kp(1)] kp m assms(3) show ?thesis
    unfolding eq by fastforce
qed

lemma prune_oldest_keeps_young:
  assumes "distinct (keys_of m)" "'''' \<notin> set (keys_of m)"
    and "(k, p) \<in> set (prune_oldest n m)" "(k', p') \<in> set m" "(k', p') \<notin> set (prune_oldest n m)"
  shows "p_last p' \<le> p_last p"
  using assms
proof (induction n m rule: prune_oldest.induct)
  case (1 n m)
  let ?d = "AList.delete (oldest_key m) m"
  have big: "length m > n"
  proof (rule ccontr)
    assume "\<not> length m > n"
    with 1 show False by simp
  qed
  then have eq: "prune_oldest n m = prune_oldest n ?d" by (subst prune_oldest.simps) simp
  show ?case
  proof (cases "k' = oldest_key m")
    case True
    have kp: "(k, p) \<in> set m" using "1.prems"(3) prune_oldest_subset by blast
    have "map_of m (oldest_key m) = Some p'" using True "1.prems"(1,4) by simp
    with oldest_key_least [OF "1.prems"(1,2) kp] show ?thesis by simp
  next
    case False
    have d: "distinct (keys_of ?d)" using "1.prems"(1) by (rule distinct_delete)
    have n: "'''' \<notin> set (keys_of ?d)" using "1.prems"(2) set_delete_subset [of "oldest_key m" m] by auto
    have "(k', p') \<in> set ?d" using False "1.prems"(4) by (simp add: AList.delete_eq)
    from "1.IH" [OF big d n _ this] "1.prems"(3,5) show ?thesis unfolding eq by blast
  qed
qed

text \<open>
  Well-formed policy state: one entry per key, and no pin under the empty key (\<open>Pick\<close>
  returns before it would store one).
\<close>

definition affinity_inv :: "affinity \<Rightarrow> bool" where
  "affinity_inv a \<longleftrightarrow> distinct (keys_of (a_keys a)) \<and> '''' \<notin> set (keys_of (a_keys a))"

lemma prune_simps [simp]:
  "a_TTL (prune a) = a_TTL a" "a_MaxKeys (prune a) = a_MaxKeys a" "a_Spill (prune a) = a_Spill a"
  "a_now (prune a) = a_now a" "a_LargePrompt (prune a) = a_LargePrompt a" "a_rr (prune a) = a_rr a"
  by (simp_all add: prune_def Let_def)

lemma prune_inv: "affinity_inv a \<Longrightarrow> affinity_inv (prune a)"
proof -
  assume a: "affinity_inv a"
  let ?live = "filter (\<lambda>(k, p). \<not> a_now a - p_last p > a_TTL a) (a_keys a)"
  have "set (prune_oldest (a_MaxKeys a) ?live) \<subseteq> set (a_keys a)"
    using prune_oldest_subset [of "a_MaxKeys a" ?live] by auto
  then have "set (keys_of (prune_oldest (a_MaxKeys a) ?live)) \<subseteq> set (keys_of (a_keys a))" by auto
  with a show ?thesis
    by (auto simp: affinity_inv_def prune_def prune_oldest_distinct distinct_keys_filter)
qed

lemma count_decision_simps [simp]:
  "a_keys (count_decision r a) = a_keys a" "a_now (count_decision r a) = a_now a"
  "a_TTL (count_decision r a) = a_TTL a" "a_MaxKeys (count_decision r a) = a_MaxKeys a"
  "a_Spill (count_decision r a) = a_Spill a" "a_rr (count_decision r a) = a_rr a"
  "a_LargePrompt (count_decision r a) = a_LargePrompt a"
  by (simp_all add: count_decision_def)

lemma fresh_Some:
  "fresh a c inflight sessions = Some (b, a') \<Longrightarrow>
     b \<in> set (nonHot c) \<and> a' = a\<lparr>a_rr := a_rr a + 1\<rparr>"
  by (auto simp: fresh_def Let_def dest: leastBy_mem split: if_splits)

lemma fresh_total: "c \<noteq> [] \<Longrightarrow> \<exists>b a'. fresh a c inflight sessions = Some (b, a')"
  using leastBy_rr [of "nonHot c"] by (fastforce simp: fresh_def Let_def)

lemma pick_and_pin_Some:
  "pick_and_pin a req c inflight sessions r = Some (b, a') \<Longrightarrow>
     b \<in> set (nonHot c) \<and> a_MaxKeys a' = a_MaxKeys a \<and>
     a_keys a' = AList.update (r_AffinityKey req)
       \<lparr>p_node = b_NodeID b, p_last = a_now a, p_large = r_PromptBytes req \<ge> a_LargePrompt a\<rparr> (a_keys a)"
  by (auto simp: pick_and_pin_def dest!: fresh_Some split: option.splits)

lemma pick_and_pin_total:
  "c \<noteq> [] \<Longrightarrow> \<exists>b a'. pick_and_pin a req c inflight sessions r = Some (b, a')"
  using fresh_total [of c a inflight sessions] by (auto simp: pick_and_pin_def)

lemma min_inflight_le: "min_inflight inflight m bs \<le> m"
proof (induction bs arbitrary: m)
  case (Cons b bs)
  from Cons.IH [of "min m (inflight (b_NodeID b))"] show ?case by simp
qed simp

text \<open>The three outcomes of a pick with a key: hit, or a fresh choice that is pinned.\<close>

lemma affinity_pick_cases:
  assumes "affinity_pick a0 req c inflight = Some (b, a')"
  obtains (none) "r_AffinityKey req = ''''" "b \<in> set (nonHot c)" "a_keys a' = a_keys (prune a0)"
      "a_MaxKeys a' = a_MaxKeys a0"
  | (hit) p where "r_AffinityKey req \<noteq> ''''" "map_of (a_keys (prune a0)) (r_AffinityKey req) = Some p"
      "b \<in> set c" "b_NodeID b = p_node p" "\<not> (b_Hot b \<and> anyNonHot c)"
      "a_keys a' = AList.update (r_AffinityKey req) (p\<lparr>p_last := a_now a0\<rparr>) (a_keys (prune a0))"
      "a_MaxKeys a' = a_MaxKeys a0"
  | (pinned) "r_AffinityKey req \<noteq> ''''" "b \<in> set (nonHot c)"
      "a_keys a' = AList.update (r_AffinityKey req)
         \<lparr>p_node = b_NodeID b, p_last = a_now a0, p_large = r_PromptBytes req \<ge> a_LargePrompt a0\<rparr>
         (a_keys (prune a0))"
      "a_MaxKeys a' = a_MaxKeys a0"
proof (cases "r_AffinityKey req = ''''")
  case True
  with assms show thesis
    by (intro none) (auto simp: affinity_pick_def Let_def dest!: fresh_Some)
next
  case key: False
  show thesis
  proof (cases "map_of (a_keys (prune a0)) (r_AffinityKey req)")
    case None
    with key assms have "pick_and_pin (prune a0) req c inflight (large_sessions (a_keys (prune a0))) ''miss'' = Some (b, a')"
      by (simp add: affinity_pick_def Let_def)
    from pick_and_pin_Some [OF this] key show thesis by (intro pinned) simp_all
  next
    case (Some p)
    then obtain c0 rest where c: "c = c0 # rest" using key assms
      by (cases c) (simp_all add: affinity_pick_def Let_def)
    let ?m = "min_inflight inflight (inflight (b_NodeID c0)) rest"
    show thesis
    proof (cases "find (pinned_ok (prune a0) c inflight p ?m) c")
      case None
      with Some key assms c obtain s where
        "pick_and_pin (prune a0) req c inflight s ''spill'' = Some (b, a')"
        by (auto simp: affinity_pick_def Let_def)
      from pick_and_pin_Some [OF this] key show thesis by (intro pinned) simp_all
    next
      case (Some b')
      with \<open>map_of _ _ = Some p\<close> key assms c have "b = b'"
        and "a_keys a' = AList.update (r_AffinityKey req) (p\<lparr>p_last := a_now a0\<rparr>) (a_keys (prune a0))"
        and "a_MaxKeys a' = a_MaxKeys a0"
        by (auto simp: affinity_pick_def Let_def)
      with find_Some_mem [OF Some] key \<open>map_of _ _ = Some p\<close> show thesis
        by (intro hit [of p]) (auto simp: pinned_ok_def)
    qed
  qed
qed

lemma affinity_pick_mem:
  "affinity_pick a req c inflight = Some (b, a') \<Longrightarrow> b \<in> set c"
  by (erule affinity_pick_cases) (auto simp: set_nonHot split: if_splits)

lemma affinity_pick_cool:
  "affinity_pick a req c inflight = Some (b, a') \<Longrightarrow> \<exists>x \<in> set c. \<not> b_Hot x \<Longrightarrow> \<not> b_Hot b"
  by (erule affinity_pick_cases) (auto simp: set_nonHot anyNonHot_iff split: if_splits)

lemma affinity_pick_inv:
  "affinity_pick a req c inflight = Some (b, a') \<Longrightarrow> affinity_inv a \<Longrightarrow> affinity_inv a'"
  by (erule affinity_pick_cases; drule prune_inv)
     (auto simp: affinity_inv_def dom_update distinct_update image_iff)

lemma affinity_pick_total:
  assumes "c \<noteq> []"
  shows "\<exists>b a'. affinity_pick a req c inflight = Some (b, a')"
proof -
  obtain c0 rest where c: "c = c0 # rest" using assms by (cases c) auto
  with fresh_total [of c] pick_and_pin_total [of c] show ?thesis
    by (fastforce simp: affinity_pick_def Let_def split: option.splits)
qed

subsection \<open>The interface Picker\<close>

text \<open>
  What the gateway relies on: a pick from a non-empty candidate list returns one of the
  candidates, and never an overheating one while a cooler one exists (ADR-010).
\<close>

locale picker =
  fixes pick :: "'p \<Rightarrow> request \<Rightarrow> backend list \<Rightarrow> inflight \<Rightarrow> (backend \<times> 'p) option"
  assumes pick_total: "c \<noteq> [] \<Longrightarrow> \<exists>b p'. pick p req c inflight = Some (b, p')"
    and pick_mem: "pick p req c inflight = Some (b, p') \<Longrightarrow> b \<in> set c"
    and pick_cool: "pick p req c inflight = Some (b, p') \<Longrightarrow> \<exists>x \<in> set c. \<not> b_Hot x \<Longrightarrow> \<not> b_Hot b"
begin

lemma pick_not_None: "c \<noteq> [] \<Longrightarrow> pick p req c inflight \<noteq> None"
  using pick_total by fastforce

lemma pick_singleton: "pick p req [b] inflight = Some (b', p') \<Longrightarrow> b' = b"
  using pick_mem by fastforce

end

text \<open>
  \<open>LeastInflight\<close> and \<open>Spread\<close> make the same choice: the least loaded cool candidate.
\<close>

lemma spread_eq_least_inflight: "spread_pick = least_inflight_pick"
  by (simp add: fun_eq_iff spread_pick_def least_inflight_pick_def)

lemma least_inflight_Some:
  "least_inflight_pick rr req c inflight = Some (b, rr') \<Longrightarrow>
     b \<in> set (nonHot c) \<and> rr' = rr + 1 \<and>
     leastBy (nonHot c) (rr_start rr' (nonHot c)) (\<lambda>b. (inflight (b_NodeID b), 0)) = Some b"
  by (auto simp: least_inflight_pick_def Let_def dest: leastBy_mem split: if_splits)

lemma least_inflight_total:
  "c \<noteq> [] \<Longrightarrow> \<exists>b rr'. least_inflight_pick rr req c inflight = Some (b, rr')"
  using leastBy_rr [of "nonHot c"] by (fastforce simp: least_inflight_pick_def Let_def)

interpretation least_inflight: picker least_inflight_pick
  by unfold_locales
    (auto dest!: least_inflight_Some simp: least_inflight_total set_nonHot split: if_splits)

interpretation spread: picker spread_pick
  unfolding spread_eq_least_inflight by (rule least_inflight.picker_axioms)

interpretation affinity: picker affinity_pick
  by unfold_locales
    (auto intro: affinity_pick_total dest: affinity_pick_mem affinity_pick_cool)

subsection \<open>Session affinity over time\<close>

text \<open>A pin that prune keeps: unexpired, and the map is within its bound.\<close>

lemma prune_keeps_pin:
  assumes "map_of (a_keys a) k = Some p" "distinct (keys_of (a_keys a))"
    and "a_now a - p_last p \<le> a_TTL a" "length (a_keys a) \<le> a_MaxKeys a"
  shows "map_of (a_keys (prune a)) k = Some p"
proof -
  let ?live = "filter (\<lambda>(k, p). \<not> a_now a - p_last p > a_TTL a) (a_keys a)"
  have "length ?live \<le> a_MaxKeys a"
    using assms(4) length_filter_le order_trans by blast
  then have "a_keys (prune a) = ?live" by (simp add: prune_def)
  then show ?thesis using assms(1-3) by (simp add: map_of_filter_key)
qed

lemma affinity_pick_pins:
  assumes "affinity_pick a req c inflight = Some (b, a')" "r_AffinityKey req \<noteq> ''''"
  shows "\<exists>p. map_of (a_keys a') (r_AffinityKey req) = Some p \<and> p_node p = b_NodeID b \<and> p_last p = a_now a"
  using assms(1)
  by (rule affinity_pick_cases) (use assms(2) in \<open>auto simp: update_conv'\<close>)

lemma affinity_pick_hit_node:
  assumes "map_of (a_keys (prune a)) (r_AffinityKey req) = Some p" "r_AffinityKey req \<noteq> ''''"
    and "b \<in> set c" "pinned_ok a c inflight p (min_inflight inflight (inflight (b_NodeID (hd c))) (tl c)) b"
    and "affinity_pick a req c inflight = Some (b', a')"
  shows "b_NodeID b' = p_node p"
proof -
  obtain c0 rest where c: "c = c0 # rest" using assms(3) by (cases c) auto
  let ?P = "pinned_ok (prune a) c inflight p (min_inflight inflight (inflight (b_NodeID c0)) rest)"
  have "?P b" using assms(4) c by (auto simp: pinned_ok_def)
  then obtain b1 where b1: "find ?P c = Some b1"
    using assms(3) by (cases "find ?P c") (auto simp: find_None_iff)
  then have "b' = b1" using assms(1,2,5) c by (simp add: affinity_pick_def Let_def)
  with find_Some_mem [OF b1] show ?thesis by (simp add: pinned_ok_def)
qed

text \<open>
  The scan behind every policy (\<open>leastBy\<close>) returns a candidate that is minimal in
  (primary score, secondary score, minus speed), and among candidates that tie in all
  three the first one in rotation order from \<open>start\<close>: every candidate before it in the
  rotation is strictly worse.
\<close>

theorem leastBy_optimal:
  assumes "leastBy c start score = Some b"
  shows "b \<in> set c \<and> (\<forall>x \<in> set c. rank_key score b \<le> rank_key score x) \<and>
    (\<exists>k < length c. c ! ((start + k) mod length c) = b \<and>
       (\<forall>j < k. rank_key score b < rank_key score (c ! ((start + j) mod length c))))"
proof -
  have s: "start < length c" using assms by (rule leastBy_Some_start)
  have len: "Suc (length (rotation c start)) = length c" using s by (simp add: rotation_def)
  have nth: "(c ! start # rotation c start) ! j = c ! ((start + j) mod length c)" if "j < length c" for j
    using that s by (cases j) (simp_all add: rotation_def)
  obtain k where "k \<le> length (rotation c start)" "(c ! start # rotation c start) ! k = b"
    "\<forall>j < k. rank_key score b < rank_key score ((c ! start # rotation c start) ! j)"
    using scan_first [of "rotation c start" "c ! start" score] assms s by (auto simp: leastBy_eq)
  then have "\<exists>k < length c. c ! ((start + k) mod length c) = b \<and>
      (\<forall>j < k. rank_key score b < rank_key score (c ! ((start + j) mod length c)))"
    using nth len by (intro exI [of _ k]) auto
  with leastBy_mem [OF assms] leastBy_least [OF assms] show ?thesis by blast
qed

lemma leastBy_optimal_witness:
  "let slow = sample_backend ''a'' ''m'' 2 False; fast = sample_backend ''b'' ''m'' 5 False;
       score = (\<lambda>b. (0, 0))
   in leastBy [slow, fast] 0 score = Some fast \<and>
      list_all (\<lambda>x. rank_key score fast \<le> rank_key score x) [slow, fast]"
proof -
  let ?slow = "sample_backend ''a'' ''m'' 2 False" and ?fast = "sample_backend ''b'' ''m'' 5 False"
  have h: "leastBy [?slow, ?fast] 0 (\<lambda>b. (0, 0)) = Some ?fast"
    by (simp add: leastBy_def rotation_def least_scan.simps sample_backend_def)
  from leastBy_optimal [OF h] h show ?thesis by simp
qed



text \<open>
  \<open>prune\<close> bounds the pin table and drops the right pins: afterwards at most MaxKeys
  pins are left, every one of them was there before and has not expired, and an unexpired
  pin that was dropped is at most as recent as every pin that was kept.
\<close>

theorem prune_correct:
  assumes "affinity_inv a"
  shows "length (a_keys (prune a)) \<le> a_MaxKeys a \<and>
    (\<forall>(k, p) \<in> set (a_keys (prune a)). (k, p) \<in> set (a_keys a) \<and> a_now a - p_last p \<le> a_TTL a) \<and>
    (\<forall>(k, p) \<in> set (a_keys (prune a)). \<forall>(k', p') \<in> set (a_keys a).
       a_now a - p_last p' \<le> a_TTL a \<longrightarrow> (k', p') \<notin> set (a_keys (prune a)) \<longrightarrow> p_last p' \<le> p_last p)"
proof -
  let ?live = "filter (\<lambda>(k, p). \<not> a_now a - p_last p > a_TTL a) (a_keys a)"
  have d: "distinct (keys_of ?live)" "'''' \<notin> set (keys_of ?live)"
    using assms by (auto simp: affinity_inv_def distinct_keys_filter)
  have eq: "a_keys (prune a) = prune_oldest (a_MaxKeys a) ?live" by (simp add: prune_def)
  have young: "p_last p' \<le> p_last p" if "(k, p) \<in> set (a_keys (prune a))" "(k', p') \<in> set (a_keys a)"
    "a_now a - p_last p' \<le> a_TTL a" "(k', p') \<notin> set (a_keys (prune a))" for k p k' p'
    using prune_oldest_keeps_young [OF d, of k p "a_MaxKeys a" k' p'] that eq by auto
  show ?thesis
    using prune_oldest_le prune_oldest_subset [of "a_MaxKeys a" ?live] young unfolding eq by fastforce
qed

lemma prune_correct_witness:
  "let a = (NewAffinity 10)\<lparr>a_MaxKeys := 1, a_keys :=
         [(''old'', \<lparr>p_node = ''n'', p_last = 1, p_large = False\<rparr>), (''new'', \<lparr>p_node = ''n'', p_last = 2, p_large = False\<rparr>)]\<rparr>
   in length (a_keys (prune a)) \<le> 1"
proof -
  let ?a = "(NewAffinity 10)\<lparr>a_MaxKeys := 1, a_keys :=
    [(''old'', \<lparr>p_node = ''n'', p_last = 1, p_large = False\<rparr>), (''new'', \<lparr>p_node = ''n'', p_last = 2, p_large = False\<rparr>)]\<rparr>"
  have "affinity_inv ?a" by (simp add: affinity_inv_def)
  from prune_correct [OF this] show ?thesis by (simp add: Let_def)
qed

subsection \<open>Every history of calls\<close>

text \<open>
  The calls that other parts of the gateway make, each at its own clock reading; a pick on
  no candidates panics and leaves no state, so a history has none.
\<close>

datatype affinity_op =
    OpPick go_time request "backend list" inflight
  | OpSetSpill int
  | OpPins go_time
  | OpUnpin node_id

fun affinity_step :: "affinity \<Rightarrow> affinity_op \<Rightarrow> affinity option" where
  "affinity_step a (OpPick now req c inflight) =
     map_option snd (affinity_pick (a\<lparr>a_now := now\<rparr>) req c inflight)"
| "affinity_step a (OpSetSpill n) = Some (SetSpill n a)"
| "affinity_step a (OpPins now) = Some (snd (Pins (a\<lparr>a_now := now\<rparr>)))"
| "affinity_step a (OpUnpin n) = Some (snd (Unpin n a))"

fun affinity_run :: "affinity \<Rightarrow> affinity_op list \<Rightarrow> affinity option" where
  "affinity_run a [] = Some a"
| "affinity_run a (e # es) = (case affinity_step a e of None \<Rightarrow> None | Some a' \<Rightarrow> affinity_run a' es)"

definition affinity_bounded :: "affinity \<Rightarrow> bool" where
  "affinity_bounded a \<longleftrightarrow> affinity_inv a \<and> length (a_keys a) \<le> Suc (a_MaxKeys a)"

lemma length_update_le: "length (AList.update k v m) \<le> Suc (length m)"
  by (induction m) auto

lemma prune_le: "length (a_keys (prune a)) \<le> a_MaxKeys a"
  by (simp add: prune_def prune_oldest_le)

lemma affinity_pick_length:
  assumes "affinity_pick a req c inflight = Some (b, a')"
  shows "length (a_keys a') \<le> Suc (a_MaxKeys a)"
  using assms
proof (rule affinity_pick_cases)
  assume "a_keys a' = a_keys (prune a)"
  then show ?thesis using prune_le [of a] by simp
next
  fix p assume "a_keys a' = AList.update (r_AffinityKey req) (p\<lparr>p_last := a_now a\<rparr>) (a_keys (prune a))"
  then have "length (a_keys a') \<le> Suc (length (a_keys (prune a)))" by (simp add: length_update_le)
  with prune_le [of a] show ?thesis by linarith
next
  assume "a_keys a' = AList.update (r_AffinityKey req)
    \<lparr>p_node = b_NodeID b, p_last = a_now a, p_large = r_PromptBytes req \<ge> a_LargePrompt a\<rparr> (a_keys (prune a))"
  then have "length (a_keys a') \<le> Suc (length (a_keys (prune a)))" by (simp add: length_update_le)
  with prune_le [of a] show ?thesis by linarith
qed

lemma affinity_pick_MaxKeys: "affinity_pick a req c inflight = Some (b, a') \<Longrightarrow> a_MaxKeys a' = a_MaxKeys a"
  by (erule affinity_pick_cases) simp_all

lemma affinity_step_bounded:
  assumes "affinity_step a e = Some a'" "affinity_bounded a"
  shows "affinity_bounded a' \<and> a_MaxKeys a' = a_MaxKeys a"
proof (cases e)
  case (OpPick now req c inflight)
  then obtain b where "affinity_pick (a\<lparr>a_now := now\<rparr>) req c inflight = Some (b, a')" using assms(1) by auto
  from affinity_pick_inv [OF this] affinity_pick_length [OF this] affinity_pick_MaxKeys [OF this] assms(2)
  show ?thesis by (simp add: affinity_bounded_def affinity_inv_def)
next
  case (OpSetSpill n)
  then show ?thesis using assms by (auto simp: SetSpill_def affinity_bounded_def affinity_inv_def)
next
  case (OpPins now)
  then have a': "a' = prune (a\<lparr>a_now := now\<rparr>)" using assms(1) by (simp add: Pins_def Let_def)
  have "affinity_inv (a\<lparr>a_now := now\<rparr>)" using assms(2) by (simp add: affinity_bounded_def affinity_inv_def)
  from prune_inv [OF this] prune_le [of "a\<lparr>a_now := now\<rparr>"] a' show ?thesis
    by (simp add: affinity_bounded_def)
next
  case (OpUnpin n)
  then have a': "a' = a\<lparr>a_keys := filter (\<lambda>(k, p). p_node p \<noteq> n) (a_keys a)\<rparr>" using assms(1) by (auto simp: Unpin_def)
  have "length (filter (\<lambda>(k, p). p_node p \<noteq> n) (a_keys a)) \<le> Suc (a_MaxKeys a)"
    using assms(2) length_filter_le [of "\<lambda>(k, p). p_node p \<noteq> n" "a_keys a"]
    unfolding affinity_bounded_def by linarith
  with a' assms(2) show ?thesis
    by (auto simp: affinity_bounded_def affinity_inv_def distinct_keys_filter)
qed

text \<open>
  C24. Memory bound of the session table: whatever sequence of picks, threshold changes,
  pin listings and unpins runs from a new policy, at whatever times, the table never holds
  more than 4097 pins, never two pins for one key and never a pin for the empty key.
\<close>

theorem affinity_table_bounded:
  assumes "affinity_run (NewAffinity now) es = Some a"
  shows "length (a_keys a) \<le> 4097 \<and> distinct (keys_of (a_keys a)) \<and> '''' \<notin> set (keys_of (a_keys a))"
proof -
  have "affinity_bounded a' \<and> a_MaxKeys a' = a_MaxKeys a0"
    if "affinity_run a0 es = Some a'" "affinity_bounded a0" for a0 a'
    using that
  proof (induction es arbitrary: a0)
    case Nil
    then show ?case by simp
  next
    case (Cons e es)
    then obtain a1 where a1: "affinity_step a0 e = Some a1" "affinity_run a1 es = Some a'"
      by (auto split: option.splits)
    from affinity_step_bounded [OF a1(1) Cons.prems(2)] Cons.IH [OF a1(2)] show ?case by simp
  qed
  from this [OF assms] show ?thesis
    by (simp add: affinity_bounded_def affinity_inv_def NewAffinity_def)
qed

lemma affinity_table_bounded_witness:
  "\<exists>a. affinity_run (NewAffinity 0) [OpSetSpill 3, OpPins 5, OpUnpin ''x''] = Some a \<and> length (a_keys a) \<le> 4097"
proof -
  obtain a where a: "affinity_run (NewAffinity 0) [OpSetSpill 3, OpPins 5, OpUnpin ''x''] = Some a" by simp
  with affinity_table_bounded [OF a] show ?thesis by simp
qed

end
