(* ===== verification/Gateway.thy ===== *)
theory Gateway
  imports Picker
begin

text \<open>
  Serving a request (\<^verbatim>\<open>controller/gateway/proxy.go\<close>): the request's metadata, candidate
  selection with cooldowns and concurrency limits, one forwarded attempt, the failover loop
  of \<open>serveTarget\<close>, the dispatch of \<open>ServeChat\<close>, and the accounting of a streamed answer.

  What the network does is an argument: an \<open>exchange\<close> is what one upstream call does, an
  \<open>attempt_env\<close> what the rest of the gateway shows and does around one attempt (the
  backends then, the clock, and the effect of other requests on the shared maps).  SHA-256
  and the JSON documents of usage reports are arguments too.  Timeouts appear as the errors
  they cause.
\<close>

subsection \<open>Request metadata\<close>

record request_meta =
  m_Model :: string
  m_Stream :: bool
  m_Messages :: "string list"
  m_Tools :: string
  m_Prompt :: string

definition hasTools :: "request_meta \<Rightarrow> bool" where
  "hasTools m = (let t = trim_space (m_Tools m) in length t > 0 \<and> t \<noteq> ''null'' \<and> t \<noteq> ''[]'')"

abbreviation "ToolsTag \<equiv> ''tools''"

definition canCallTools :: "(string \<Rightarrow> string list) \<Rightarrow> backend \<Rightarrow> bool" where
  "canCallTools tags b = list_ex (\<lambda>t. t = ToolsTag) (tags (b_Model b))"

definition toolCapable :: "(string \<Rightarrow> string list) \<Rightarrow> backend list \<Rightarrow> backend list" where
  "toolCapable tags bs = filter (canCallTools tags) bs"

text \<open>\<open>sha\<close> is the hex digest; the key is its first 12 bytes.\<close>

definition affinityKey :: "(string \<Rightarrow> string) \<Rightarrow> request_meta \<Rightarrow> string" where
  "affinityKey sha m =
     (if length (m_Messages m) > 0 then take 24 (sha (m_Messages m ! 0 @ m_Tools m @ m_Model m))
      else if length (m_Prompt m) > 0 then take 24 (sha (take 1024 (m_Prompt m) @ m_Model m))
      else '''')"

definition estimateTokens :: "string \<Rightarrow> int" where
  "estimateTokens body = int (length body div 4)"

fun max_context :: "int \<Rightarrow> backend list \<Rightarrow> int" where
  "max_context m [] = m"
| "max_context m (b # bs) = max_context (if b_CtxSize b > m then b_CtxSize b else m) bs"

definition maxContext :: "backend list \<Rightarrow> int" where
  "maxContext all = max_context 0 all"

subsection \<open>Usage of an answer\<close>

record usage =
  u_PromptTokens :: int
  u_CompletionTokens :: int
  u_CachedTokens :: int
  u_PromptTPS :: real
  u_GenTPS :: real

record timings =
  tm_CacheN :: int
  tm_PromptN :: int
  tm_PromptPS :: real
  tm_PredN :: int
  tm_PredPS :: real

text \<open>The part of a document \<open>parseUsage\<close> unmarshals; \<open>None\<close> when it is not JSON.\<close>

record usage_doc =
  ud_Usage :: "(int \<times> int) option"
  ud_Timings :: "timings option"

definition doc_usage :: "usage_doc \<Rightarrow> usage option" where
  "doc_usage v =
     (if ud_Usage v = None \<and> ud_Timings v = None then None
      else
        (let u = \<lparr>u_PromptTokens = 0, u_CompletionTokens = 0, u_CachedTokens = 0, u_PromptTPS = 0, u_GenTPS = 0\<rparr>;
             u = (case ud_Usage v of None \<Rightarrow> u | Some (p, c) \<Rightarrow> u\<lparr>u_PromptTokens := p, u_CompletionTokens := c\<rparr>)
         in Some (case ud_Timings v of
              None \<Rightarrow> u
            | Some t \<Rightarrow>
                (let u = u\<lparr>u_PromptTPS := tm_PromptPS t, u_GenTPS := tm_PredPS t, u_CachedTokens := tm_CacheN t\<rparr>
                 in if ud_Usage v = None
                    then u\<lparr>u_PromptTokens := tm_CacheN t + tm_PromptN t, u_CompletionTokens := tm_PredN t\<rparr>
                    else u))))"

text \<open>\<open>bytes.Split\<close> at newlines.\<close>

fun split_nl :: "string \<Rightarrow> string \<Rightarrow> string list" where
  "split_nl w [] = [rev w]"
| "split_nl w (c # cs) = (if c = CHR 0x0A then rev w # split_nl [] cs else split_nl (c # w) cs)"

text \<open>The data events of an SSE body, newest first.\<close>

definition sse_docs :: "string \<Rightarrow> string list" where
  "sse_docs body =
     foldl (\<lambda>docs line. case cut_prefix (trim_space line) ''data: '' of
              None \<Rightarrow> docs
            | Some d \<Rightarrow> if has_prefix d ''{'' then d # docs else docs) [] (split_nl [] body)"

fun first_usage :: "(string \<Rightarrow> usage_doc option) \<Rightarrow> string list \<Rightarrow> usage option" where
  "first_usage json [] = None"
| "first_usage json (d # ds) =
     (case json d of
        None \<Rightarrow> first_usage json ds
      | Some v \<Rightarrow> (case doc_usage v of None \<Rightarrow> first_usage json ds | Some u \<Rightarrow> Some u))"

definition parseUsage :: "(string \<Rightarrow> usage_doc option) \<Rightarrow> string \<Rightarrow> bool \<Rightarrow> usage option" where
  "parseUsage json body stream = first_usage json (if stream then sse_docs body else [body])"

text \<open>\<open>tailBuffer\<close> and \<open>sseCounter\<close>.\<close>

definition tail_write :: "nat \<Rightarrow> string \<Rightarrow> string \<Rightarrow> string" where
  "tail_write mx buf p =
     (let buf = buf @ p; over = int (length buf) - int mx
      in if over > 0 then drop (nat over) buf else buf)"

definition sseEvent :: string where
  "sseEvent = ''data: {''"

text \<open>\<open>bytes.Count\<close>: non-overlapping occurrences from the left.\<close>

function count_occ :: "string \<Rightarrow> string \<Rightarrow> nat" where
  "count_occ sep s =
     (if length s < length sep \<or> sep = [] then 0
      else if has_prefix s sep then Suc (count_occ sep (drop (length sep) s))
      else count_occ sep (tl s))"
  by pat_completeness auto
termination
  by (relation "measure (\<lambda>(sep, s). length s)") (auto simp: neq_Nil_conv)

declare count_occ.simps [simp del]

record sse_counter =
  ss_n :: nat
  ss_carry :: string

definition sse_write :: "sse_counter \<Rightarrow> string \<Rightarrow> sse_counter" where
  "sse_write c p =
     (let k = length sseEvent - 1;
          head = ss_carry c @ take (min (length p) k) p;
          n = ss_n c + (count_occ sseEvent head + count_occ sseEvent p)
      in if length p \<ge> k then \<lparr>ss_n = n, ss_carry = drop (length p - k) p\<rparr>
         else \<lparr>ss_n = n, ss_carry = drop (length head - k) head\<rparr>)"

subsection \<open>Shared state\<close>

record usage_event =
  ue_Principal :: string
  ue_NodeID :: node_id
  ue_Model :: string
  ue_Code :: string
  ue_PromptTokens :: int
  ue_CachedTokens :: int
  ue_CompletionTokens :: int
  ue_GenTPS :: real

definition event :: "string \<Rightarrow> node_id \<Rightarrow> string \<Rightarrow> string \<Rightarrow> usage_event" where
  "event p n m c = \<lparr>ue_Principal = p, ue_NodeID = n, ue_Model = m, ue_Code = c, ue_PromptTokens = 0,
     ue_CachedTokens = 0, ue_CompletionTokens = 0, ue_GenTPS = 0\<rparr>"

record config =
  cf_UpstreamTimeout :: go_duration
  cf_FirstTokenTimeout :: go_duration
  cf_MaxAttempts :: int
  cf_Cooldown :: go_duration

text \<open>
  The part of \<open>Gateway\<close> that changes: the policy's own state, the rotation of the shared
  spread picker, the two maps behind the mutex (\<open>None\<close>: no cooldown, the zero time), and
  the recorded usage and rejections, newest last.
\<close>

record 'p gateway =
  gw_picker :: 'p
  gw_spread :: "64 word"
  gw_inflight :: "node_id \<Rightarrow> int"
  gw_cooldown :: "node_id \<Rightarrow> go_time option"
  gw_usage :: "usage_event list"
  gw_rejected :: "string list"

definition record_usage :: "usage_event \<Rightarrow> 'p gateway \<Rightarrow> 'p gateway" where
  [go_simps]: "record_usage e g = g\<lparr>gw_usage := gw_usage g @ [e]\<rparr>"

definition reject :: "string \<Rightarrow> 'p gateway \<Rightarrow> 'p gateway" where
  [go_simps]: "reject reason g = g\<lparr>gw_rejected := gw_rejected g @ [reason]\<rparr>"

definition addInflight :: "node_id \<Rightarrow> int \<Rightarrow> 'p gateway \<Rightarrow> 'p gateway" where
  "addInflight n d g = g\<lparr>gw_inflight := (gw_inflight g)(n := gw_inflight g n + d)\<rparr>"

definition markDown :: "config \<Rightarrow> go_time \<Rightarrow> node_id \<Rightarrow> 'p gateway \<Rightarrow> 'p gateway" where
  "markDown cfg now n g = g\<lparr>gw_cooldown := (gw_cooldown g)(n \<mapsto> now + cf_Cooldown cfg)\<rparr>"

definition Inflight :: "'p gateway \<Rightarrow> node_id \<Rightarrow> int option" where
  "Inflight g n = (if gw_inflight g n > 0 then Some (gw_inflight g n) else None)"

definition cooling :: "'p gateway \<Rightarrow> go_time \<Rightarrow> backend \<Rightarrow> bool" where
  "cooling g now b = (case gw_cooldown g (b_NodeID b) of None \<Rightarrow> False | Some t \<Rightarrow> now < t)"

definition FirstTokenTimeout :: "config \<Rightarrow> go_duration" where
  "FirstTokenTimeout cfg = (if cf_FirstTokenTimeout cfg > 0 then cf_FirstTokenTimeout cfg else cf_UpstreamTimeout cfg)"

text \<open>\<open>ModelEntries\<close>: the served models with their number of nodes, "auto", then the resolver's entries.\<close>

record model_entry =
  me_ID :: string
  me_Kind :: string
  me_Nodes :: nat
  me_Description :: string
  me_Model :: string
  me_Ready :: "bool option"
  me_External :: bool

definition served_models :: "backend list \<Rightarrow> string list" where
  "served_models bs = sort (remdups (map b_Model (filter (\<lambda>b. \<not> b_OrchestratorOnly b \<and> \<not> b_PoolOnly b) bs)))"

definition ModelEntries :: "backend list \<Rightarrow> model_entry list \<Rightarrow> model_entry list" where
  "ModelEntries bs resolver_models =
     (let routable = routable bs;
          n = (\<lambda>m. length (filter (\<lambda>b. \<not> b_OrchestratorOnly b \<and> \<not> b_PoolOnly b \<and> b_Model b = m) routable));
          entry = (\<lambda>i k n. \<lparr>me_ID = i, me_Kind = k, me_Nodes = n, me_Description = '''', me_Model = '''', me_Ready = None, me_External = False\<rparr>)
      in map (\<lambda>m. entry m KindModel (n m)) (served_models routable) @
         [entry KindAuto KindAuto (length routable)] @ resolver_models)"

text \<open>The condition under which \<open>candidates\<close> skips a backend.\<close>

definition skipped :: "'p gateway \<Rightarrow> (node_id \<Rightarrow> bool) \<Rightarrow> int \<Rightarrow> backend \<Rightarrow> bool" where
  "skipped g tried est b \<longleftrightarrow>
     tried (b_NodeID b) \<or> (b_CtxSize b > 0 \<and> est > b_CtxSize b) \<or>
     (b_MaxConcurrency b > 0 \<and> gw_inflight g (b_NodeID b) \<ge> b_MaxConcurrency b)"

definition candidates :: "'p gateway \<Rightarrow> go_time \<Rightarrow> backend list \<Rightarrow> (node_id \<Rightarrow> bool) \<Rightarrow> int \<Rightarrow> backend list" where
  "candidates g now all tried est =
     (let usable = filter (\<lambda>b. \<not> skipped g tried est b) all;
          healthy = filter (\<lambda>b. \<not> cooling g now b) usable
      in if length healthy > 0 then healthy else filter (cooling g now) usable)"

subsection \<open>Counting events across chunks\<close>

fun count_pos :: "string \<Rightarrow> string \<Rightarrow> nat" where
  "count_pos sep [] = 0"
| "count_pos sep (c # cs) = (if has_prefix (c # cs) sep then 1 else 0) + count_pos sep cs"

lemma count_pos_short: "length s < length sep \<Longrightarrow> count_pos sep s = 0"
proof (induction s)
  case (Cons c s)
  then have "\<not> has_prefix (c # s) sep" by (metis has_prefix_def length_take min.strict_order_iff nat_less_le)
  with Cons show ?case by simp
qed simp

text \<open>Matches of a word whose first letter does not come back do not overlap.\<close>

lemma count_pos_drop:
  assumes "c \<notin> set w" "set (take n s) \<subseteq> set w" "n \<le> length s"
  shows "count_pos (c # w) s = count_pos (c # w) (drop n s)"
  using assms(2,3)
proof (induction n arbitrary: s)
  case (Suc n)
  then obtain x xs where s: "s = x # xs" by (cases s) auto
  with Suc.prems(1) assms(1) have "x \<noteq> c" by auto
  then have "\<not> has_prefix (x # xs) (c # w)" by (simp add: has_prefix_def)
  with Suc s show ?case by simp
qed simp

lemma count_occ_pos: "c \<notin> set w \<Longrightarrow> count_occ (c # w) s = count_pos (c # w) s"
proof (induction "c # w" s rule: count_occ.induct)
  case (1 s)
  show ?case
  proof (cases "length s < length (c # w)")
    case True
    then show ?thesis by (simp add: count_occ.simps [of "c # w" s] count_pos_short)
  next
    case long: False
    then obtain x xs where s: "s = x # xs" by (cases s) auto
    show ?thesis
    proof (cases "has_prefix s (c # w)")
      case True
      then have "x = c" "take (length w) xs = w" "length w \<le> length xs"
        using long by (auto simp: s has_prefix_def)
      then have "count_pos (c # w) xs = count_pos (c # w) (drop (length w) xs)"
        using 1(3) by (intro count_pos_drop) auto
      with 1 long True show ?thesis by (simp add: count_occ.simps [of "c # w" "x # xs"] s)
    next
      case False
      with 1 long show ?thesis by (simp add: count_occ.simps [of "c # w" "x # xs"] s)
    qed
  qed
qed

lemma count_pos_window:
  assumes "length sep \<le> Suc (length y)"
  shows "count_pos sep (x @ y @ z) + count_pos sep y = count_pos sep (x @ y) + count_pos sep (y @ z)"
proof (induction x)
  case (Cons c x)
  have "has_prefix (c # x @ y @ z) sep \<longleftrightarrow> has_prefix (c # x @ y) sep"
    using assms by (simp add: has_prefix_def take_Cons' split: nat_diff_split)
  with Cons show ?case by simp
qed simp

definition last_bytes :: "nat \<Rightarrow> string \<Rightarrow> string" where
  "last_bytes k s = drop (length s - k) s"

lemma count_pos_carry:
  assumes "length sep = Suc k"
  shows "count_pos sep (s @ p) = count_pos sep s + count_pos sep (last_bytes k s @ take (min (length p) k) p) + count_pos sep p"
proof -
  have 1: "count_pos sep (s @ p) = count_pos sep s + count_pos sep (last_bytes k s @ p)"
  proof (cases "k \<le> length s")
    case True
    have s: "take (length s - k) s @ last_bytes k s = s" by (simp add: last_bytes_def)
    have "length (last_bytes k s) = k" using True by (simp add: last_bytes_def)
    with count_pos_window [of sep "last_bytes k s" "take (length s - k) s" p] assms s count_pos_short [of "last_bytes k s" sep]
    show ?thesis by (metis Suc_le_mono add_0_right append.assoc le_eq_less_or_eq lessI)
  next
    case False
    then show ?thesis using assms by (simp add: last_bytes_def count_pos_short)
  qed
  have 2: "count_pos sep (last_bytes k s @ p) = count_pos sep (last_bytes k s @ take (min (length p) k) p) + count_pos sep p"
  proof (cases "k \<le> length p")
    case True
    then have "length (take k p) = k" by simp
    with count_pos_window [of sep "take k p" "last_bytes k s" "drop k p"] assms True count_pos_short [of "take k p" sep]
    show ?thesis by simp
  next
    case False
    then show ?thesis using assms by (simp add: count_pos_short)
  qed
  show ?thesis by (simp add: 1 2)
qed

lemma last_bytes_append:
  "last_bytes k (s @ p) = (if length p \<ge> k then drop (length p - k) p
     else drop (length (last_bytes k s @ p) - k) (last_bytes k s @ p))"
proof (cases "k \<le> length p")
  case False
  show ?thesis
  proof (cases "length s \<le> k")
    case True
    with False show ?thesis by (simp add: last_bytes_def)
  next
    case long: False
    have "length s + length p - k = length p + length s - k" by simp
    with False long show ?thesis by (simp add: last_bytes_def)
  qed
qed (auto simp: last_bytes_def)

text \<open>
  The SSE counter counts exactly the events of the whole stream, however the reads cut it
  into chunks, and the tail buffer holds exactly the last \<open>max\<close> bytes.
\<close>

theorem sse_count_exact:
  "ss_n (foldl sse_write \<lparr>ss_n = 0, ss_carry = []\<rparr> chunks) = count_occ sseEvent (concat chunks) \<and>
   foldl (tail_write mx) [] chunks = drop (length (concat chunks) - mx) (concat chunks)"
proof -
  have ev: "count_occ sseEvent s = count_pos sseEvent s" for s
    using count_occ_pos [of "CHR ''d''" "''ata: {''" s] by (simp add: sseEvent_def)
  have len: "length sseEvent = Suc 6" by (simp add: sseEvent_def)
  have "foldl sse_write \<lparr>ss_n = count_pos sseEvent s, ss_carry = last_bytes 6 s\<rparr> chunks =
      \<lparr>ss_n = count_pos sseEvent (s @ concat chunks), ss_carry = last_bytes 6 (s @ concat chunks)\<rparr>" for s
  proof (induction chunks arbitrary: s)
    case (Cons p chunks)
    have "sse_write \<lparr>ss_n = count_pos sseEvent s, ss_carry = last_bytes 6 s\<rparr> p =
        \<lparr>ss_n = count_pos sseEvent (s @ p), ss_carry = last_bytes 6 (s @ p)\<rparr>"
      using count_pos_carry [OF len, of s p] last_bytes_append [of 6 s p] len
      by (auto simp: sse_write_def ev Let_def)
    with Cons.IH [of "s @ p"] show ?case by simp
  qed simp
  from this [of "[]"] have 1: "foldl sse_write \<lparr>ss_n = 0, ss_carry = []\<rparr> chunks =
      \<lparr>ss_n = count_pos sseEvent (concat chunks), ss_carry = last_bytes 6 (concat chunks)\<rparr>"
    by (simp add: last_bytes_def)
  have "foldl (tail_write mx) (last_bytes mx s) chunks = last_bytes mx (s @ concat chunks)" for s
  proof (induction chunks arbitrary: s)
    case (Cons p chunks)
    have "tail_write mx (last_bytes mx s) p = last_bytes mx (s @ p)"
    proof (cases "length s \<le> mx")
      case True
      then show ?thesis by (auto simp: tail_write_def last_bytes_def Let_def nat_diff_distrib' simp flip: of_nat_add)
    next
      case False
      then show ?thesis by (auto simp: tail_write_def last_bytes_def Let_def add.commute)
    qed
    with Cons.IH [of "s @ p"] show ?case by simp
  qed simp
  from this [of "[]"] show ?thesis by (simp add: 1 ev last_bytes_def)
qed

subsection \<open>One forwarded attempt\<close>

text \<open>
  What an upstream call does: the client cannot send it (with the client of the gateway gone
  or not), or a response arrives with its headers, the chunks of its body as they are read,
  whether reading ends with an error, and after how many chunks writing to the client fails.
\<close>

datatype upstream =
    DoError bool
  | Response int "(string \<times> string) list" "string list" bool "nat option"

record exchange =
  x_withModel_ok :: bool
  x_request_ok :: bool
  x_upstream :: upstream

datatype forward_error = Retryable | ContextTooSmall | StreamCopy

text \<open>\<open>errors.Is(err, errRetryable)\<close>: a context error wraps it.\<close>

definition is_retryable :: "forward_error \<Rightarrow> bool" where
  "is_retryable e \<longleftrightarrow> e = Retryable \<or> e = ContextTooSmall"

text \<open>What the client of the gateway received.\<close>

record reply =
  rp_Status :: int
  rp_Headers :: "(string \<times> string) list"
  rp_Node :: node_id
  rp_Body :: string

definition hop_headers :: "string list" where
  "hop_headers = [''Connection'', ''Keep-Alive'', ''Transfer-Encoding'', ''Content-Length'']"

record copy_state =
  cs_tail :: string
  cs_events :: sse_counter
  cs_out :: string
  cs_err :: bool

text \<open>The copy loop; \<open>wfail\<close> counts the chunks that can still be written.\<close>

fun copy_loop :: "bool \<Rightarrow> bool \<Rightarrow> nat option \<Rightarrow> copy_state \<Rightarrow> string list \<Rightarrow> copy_state" where
  "copy_loop stream rerr wfail st [] = st\<lparr>cs_err := rerr\<rparr>"
| "copy_loop stream rerr wfail st (p # ps) =
     (if p = [] then copy_loop stream rerr wfail st ps
      else
        (let st = st\<lparr>cs_tail := tail_write 65536 (cs_tail st) p\<rparr>;
             st = (if stream then st\<lparr>cs_events := sse_write (cs_events st) p\<rparr> else st)
         in if wfail = Some 0 then st\<lparr>cs_err := True\<rparr>
            else copy_loop stream rerr (map_option (\<lambda>n. n - 1) wfail) (st\<lparr>cs_out := cs_out st @ p\<rparr>) ps))"

definition copy_body :: "bool \<Rightarrow> bool \<Rightarrow> nat option \<Rightarrow> string list \<Rightarrow> copy_state" where
  "copy_body stream rerr wfail chunks =
     copy_loop stream rerr wfail \<lparr>cs_tail = [], cs_events = \<lparr>ss_n = 0, ss_carry = []\<rparr>, cs_out = [], cs_err = False\<rparr> chunks"

definition contains :: "string \<Rightarrow> string \<Rightarrow> bool" where
  "contains sub s \<longleftrightarrow> list_ex (\<lambda>i. has_prefix (drop i s) sub) [0..<Suc (length s)]"

definition context_message :: string where
  "context_message = ''exceeds the available context size''"

text \<open>The usage event of a finished response.\<close>

definition done_event ::
  "(string \<Rightarrow> usage_doc option) \<Rightarrow> backend \<Rightarrow> bool \<Rightarrow> string \<Rightarrow> int \<Rightarrow> copy_state \<Rightarrow> usage_event" where
  "done_event json b stream princ status st =
     (let ev = event princ (b_NodeID b) (b_Model b) (if cs_err st then ''aborted'' else itoa status)
      in if status = 200 then
           (let u = parseUsage json (cs_tail st) stream;
                u = (if u = None \<and> ss_n (cs_events st) > 0
                     then Some \<lparr>u_PromptTokens = 0, u_CompletionTokens = int (ss_n (cs_events st)), u_CachedTokens = 0,
                                u_PromptTPS = 0, u_GenTPS = 0\<rparr> else u)
            in case u of
                 None \<Rightarrow> ev
               | Some u \<Rightarrow> ev\<lparr>ue_PromptTokens := u_PromptTokens u, ue_CachedTokens := u_CachedTokens u,
                             ue_CompletionTokens := u_CompletionTokens u, ue_GenTPS := u_GenTPS u\<rparr>)
         else ev)"

text \<open>
  \<open>forward\<close> between the two changes of the in-flight count: the error it returns, what the
  client got, and the usage it records.  The 2048 peeked bytes of a 400 are read again in
  front of the rest, so the chunks of the body stay a split of the same bytes.
\<close>

definition peeked :: "string list \<Rightarrow> string list" where
  "peeked chunks = [take 2048 (concat chunks), drop 2048 (concat chunks)]"

definition exchange_result ::
  "(string \<Rightarrow> usage_doc option) \<Rightarrow> backend \<Rightarrow> bool \<Rightarrow> string \<Rightarrow> exchange \<Rightarrow>
   forward_error option \<times> reply option \<times> usage_event list" where
  "exchange_result json b stream princ x =
     (if b_External b \<and> \<not> x_withModel_ok x then (Some Retryable, None, [])
      else if \<not> x_request_ok x then (Some Retryable, None, [])
      else case x_upstream x of
             DoError gone \<Rightarrow>
               if gone then (None, None, [event princ (b_NodeID b) (b_Model b) ''499''])
               else (Some Retryable, None, [])
           | Response status headers chunks rerr wfail \<Rightarrow>
               if status \<ge> 500 then (Some Retryable, None, [])
               else if status = 400 \<and> contains context_message (take 2048 (concat chunks)) then
                 (Some ContextTooSmall, None, [])
               else
                 (let chunks = (if status = 400 then peeked chunks else chunks);
                      st = copy_body stream rerr wfail chunks;
                      rep = \<lparr>rp_Status = status, rp_Headers = filter (\<lambda>(k, v). k \<notin> set hop_headers) headers,
                             rp_Node = b_NodeID b, rp_Body = cs_out st\<rparr>
                  in (if cs_err st then Some StreamCopy else None, Some rep, [done_event json b stream princ status st])))"

text \<open>\<open>other\<close> is what other requests do to the shared state while this one is in flight.\<close>

definition forward ::
  "(string \<Rightarrow> usage_doc option) \<Rightarrow> ('p gateway \<Rightarrow> 'p gateway) \<Rightarrow> backend \<Rightarrow> bool \<Rightarrow> string \<Rightarrow> exchange \<Rightarrow> 'p gateway \<Rightarrow>
   (forward_error option \<times> reply option) \<times> 'p gateway" where
  "forward json other b stream princ x g =
     (let g = addInflight (b_NodeID b) 1 g;
          g = other g;
          (err, rep, evs) = exchange_result json b stream princ x;
          g = foldl (\<lambda>g e. record_usage e g) g evs
      in ((err, rep), addInflight (b_NodeID b) (-1) g))"

subsection \<open>Serving a target\<close>

record 'p attempt_env =
  e_backends :: "backend list"
  e_now :: go_time
  e_before :: "'p gateway \<Rightarrow> 'p gateway"
  e_during :: "'p gateway \<Rightarrow> 'p gateway"
  e_exchange :: "backend \<Rightarrow> exchange"

datatype outcome =
    Unanswered
  | Replied reply
  | Refused int string

definition eligible_backends :: "(string \<Rightarrow> string list) \<Rightarrow> target \<Rightarrow> bool \<Rightarrow> backend list \<Rightarrow> backend list" where
  "eligible_backends tags tgt wantTools bs =
     (let all = target_filter tgt (routable bs)
      in if wantTools \<and> length (toolCapable tags all) > 0 then toolCapable tags all else all)"

type_synonym 'p pick_fun = "'p \<Rightarrow> request \<Rightarrow> backend list \<Rightarrow> inflight \<Rightarrow> (backend \<times> 'p) option"

text \<open>The choice of one attempt: a node target takes the first candidate, others ask a picker.\<close>

definition choose_backend ::
  "'p pick_fun \<Rightarrow> target \<Rightarrow> request \<Rightarrow> backend list \<Rightarrow> 'p gateway \<Rightarrow> (backend \<times> 'p gateway) option" where
  "choose_backend pick tgt req cands g =
     (if t_Node tgt \<noteq> '''' then Some (cands ! 0, g)
      else case t_Picker tgt of
             SpreadPicker \<Rightarrow>
               (case spread_pick (gw_spread g) req cands (gw_inflight g) of
                  None \<Rightarrow> None | Some (b, s) \<Rightarrow> Some (b, g\<lparr>gw_spread := s\<rparr>))
           | DefaultPicker \<Rightarrow>
               (case pick (gw_picker g) req cands (gw_inflight g) of
                  None \<Rightarrow> None | Some (b, p) \<Rightarrow> Some (b, g\<lparr>gw_picker := p\<rparr>)))"



text \<open>
  The attempt loop.  It ends with a reply, with a failure after bytes were sent
  (\<open>Unanswered\<close> by the gateway itself), or with no answer yet (\<open>None\<close>).
\<close>

fun attempt_loop ::
  "'p pick_fun \<Rightarrow> (string \<Rightarrow> usage_doc option) \<Rightarrow> (string \<Rightarrow> string list) \<Rightarrow> config \<Rightarrow> target \<Rightarrow> bool \<Rightarrow> request \<Rightarrow> bool \<Rightarrow>
   string \<Rightarrow> int \<Rightarrow> 'p attempt_env list \<Rightarrow> (backend \<times> forward_error option) list \<Rightarrow> 'p gateway \<Rightarrow>
   (((backend \<times> forward_error option) list \<times> outcome option) \<times> 'p gateway) option" where
  "attempt_loop pick json tags cfg tgt wantTools req stream princ est [] tried g = Some ((tried, None), g)"
| "attempt_loop pick json tags cfg tgt wantTools req stream princ est (e # es) tried g =
     (let g = e_before e g;
          cands = candidates g (e_now e) (eligible_backends tags tgt wantTools (e_backends e))
                    (\<lambda>n. n \<in> (b_NodeID \<circ> fst) ` set tried) est
      in if length cands = 0 then Some ((tried, None), g)
         else case choose_backend pick tgt req cands g of
                None \<Rightarrow> None
              | Some (b, g) \<Rightarrow>
                  (case forward json (e_during e) b stream princ (e_exchange e b) g of
                     ((err, rep), g) \<Rightarrow>
                       (case err of
                          None \<Rightarrow> Some ((tried @ [(b, None)], Some (case rep of Some r \<Rightarrow> Replied r | None \<Rightarrow> Unanswered)), g)
                        | Some er \<Rightarrow>
                            (let g = (if er \<noteq> ContextTooSmall then markDown cfg (e_now e) (b_NodeID b) g else g);
                                 g = (if is_retryable er
                                      then record_usage (event princ (b_NodeID b) (b_Model b) ''upstream_error'') g else g)
                             in if \<not> is_retryable er
                                then Some ((tried @ [(b, Some er)], Some (case rep of Some r \<Rightarrow> Replied r | None \<Rightarrow> Unanswered)), g)
                                else attempt_loop pick json tags cfg tgt wantTools req stream princ est es (tried @ [(b, Some er)]) g))))"

text \<open>
  \<open>serveTarget\<close>: \<open>first\<close> are the backends when the request arrives, \<open>env\<close> the surroundings of
  the attempts; the loop runs over at most \<open>MaxAttempts\<close> of them, one for a node target.
\<close>

definition serveTarget ::
  "'p pick_fun \<Rightarrow> (string \<Rightarrow> string) \<Rightarrow> (string \<Rightarrow> usage_doc option) \<Rightarrow> (string \<Rightarrow> string list) \<Rightarrow> config \<Rightarrow> target \<Rightarrow>
   string \<Rightarrow> request_meta \<Rightarrow> string \<Rightarrow> backend list \<Rightarrow> (nat \<Rightarrow> 'p attempt_env) \<Rightarrow> 'p gateway \<Rightarrow>
   (((backend \<times> forward_error option) list \<times> outcome) \<times> 'p gateway) option" where
  "serveTarget pick sha json tags cfg tgt body meta princ first env g =
     (let wantTools = (t_Node tgt = '''' \<and> hasTools meta);
          all = eligible_backends tags tgt wantTools first;
          est = estimateTokens body;
          ue = (\<lambda>code. record_usage (event princ '''' (m_Model meta) (itoa code)))
      in if t_Node tgt \<noteq> '''' \<and> length all = 0 then
           Some (([], Refused 503 ''node_unavailable''), ue 503 (reject ''node_unavailable'' g))
         else if length all = 0 then
           (let code = (if t_Nodes tgt \<noteq> None then 503 else if length (routable first) = 0 then 503 else 404)
            in Some (([], Refused code ''model_not_found''), ue code (reject ''model_not_found'' g)))
         else if maxContext all > 0 \<and> est > maxContext all then
           Some (([], Refused 400 ''context_length_exceeded''), ue 400 (reject ''context_too_large'' g))
         else
           (let maxAttempts = (if t_Node tgt \<noteq> '''' then 1 else cf_MaxAttempts cfg);
                req = \<lparr>r_Model = m_Model meta, r_AffinityKey = affinityKey sha meta, r_PromptBytes = int (length body)\<rparr>
            in case attempt_loop pick json tags cfg tgt wantTools req (m_Stream meta) princ est
                      (map env [0..<nat maxAttempts]) [] g of
                 None \<Rightarrow> None
               | Some ((tried, Some out), g) \<Rightarrow> Some ((tried, out), g)
               | Some ((tried, None), g) \<Rightarrow>
                   if length tried = 0 then
                     Some ((tried, Refused 503 ''busy''), ue 503 (reject ''busy'' g))
                   else Some ((tried, Refused 502 ''backends_failed''), ue 502 (reject ''backends_failed'' g))))"

subsection \<open>Dispatching a chat request\<close>

datatype dispatch =
    DRefused int string
  | DSuperborg target
  | DTarget target

definition superborgDirect :: "string \<Rightarrow> request_meta \<Rightarrow> bool" where
  "superborgDirect path meta \<longleftrightarrow>
     path \<noteq> ''/v1/chat/completions'' \<or> (length (m_Tools meta) > 0 \<and> m_Tools meta \<noteq> ''null'')"

text \<open>
  \<open>ServeChat\<close> up to the call it ends in.  \<open>body\<close> is \<open>None\<close> when it cannot be read, \<open>meta\<close>
  \<open>None\<close> when it is not JSON; \<open>routeAuto\<close> and \<open>orchestrator\<close> (given the configuration and
  the pool's backends) belong to the semantic router and to Super Borg.
\<close>

definition ServeChat ::
  "(string \<Rightarrow> target option) option \<Rightarrow> (target \<Rightarrow> target) \<Rightarrow> (superborg_cfg \<Rightarrow> backend list \<Rightarrow> backend option) \<Rightarrow>
   backend list \<Rightarrow> string \<Rightarrow> string option \<Rightarrow> request_meta option \<Rightarrow> string \<Rightarrow> 'p gateway \<Rightarrow> dispatch \<times> 'p gateway" where
  "ServeChat targets routeAuto orchestrator bs path body meta princ g =
     (case (body, meta) of
        (None, _) \<Rightarrow> (DRefused 400 ''bad_request'', reject ''bad_request'' g)
      | (Some _, None) \<Rightarrow>
          (DRefused 400 ''bad_request'', record_usage (event princ '''' '''' ''400'') (reject ''bad_request'' g))
      | (Some _, Some meta) \<Rightarrow>
          (case resolve targets (m_Model meta) of
             None \<Rightarrow> (DRefused 404 ''model_not_found'',
                      record_usage (event princ '''' (m_Model meta) ''404'') (reject ''model_not_found'' g))
           | Some tgt \<Rightarrow>
               (let tgt = (if m_Model meta = KindAuto then routeAuto tgt else tgt)
                in if t_Disabled tgt then
                     (DRefused 503 ''pool_disabled'',
                      record_usage (event princ '''' (m_Model meta) ''503'') (reject ''pool_disabled'' g))
                   else case t_Superborg tgt of
                          None \<Rightarrow> (DTarget tgt, g)
                        | Some sb \<Rightarrow>
                            if \<not> superborgDirect path meta then (DSuperborg tgt, g)
                            else (case orchestrator sb (target_filter tgt (routable bs)) of
                                    Some orch \<Rightarrow> (DTarget (no_target\<lparr>t_Label := t_Label tgt, t_Node := b_NodeID orch\<rparr>), g)
                                  | None \<Rightarrow> (DTarget tgt, g)))))"

definition rejectUnauthorized :: "bool \<Rightarrow> 'p gateway \<Rightarrow> dispatch \<times> 'p gateway" where
  "rejectUnauthorized remote g =
     (if remote then (DRefused 403 ''remote_requires_api_key'', reject ''remote_requires_api_key'' g)
      else (DRefused 401 ''unauthorized'', reject ''unauthorized'' g))"

subsection \<open>Reaping lost nodes\<close>

text \<open>The in-flight attempts per node, and the ones a sweep over the live backends cancels.\<close>

definition track :: "node_id \<Rightarrow> nat \<Rightarrow> bool \<Rightarrow> (node_id \<Rightarrow> nat set) \<Rightarrow> node_id \<Rightarrow> nat set" where
  "track n a add m = (if add then m(n := insert a (m n)) else m(n := m n - {a}))"

definition Reap :: "backend list \<Rightarrow> (node_id \<Rightarrow> nat set) \<Rightarrow> node_id \<Rightarrow> nat set" where
  "Reap bs m n = (if n \<in> b_NodeID ` set bs then {} else m n)"

subsection \<open>Candidates\<close>

lemma set_candidates:
  "b \<in> set (candidates g now all tried est) \<Longrightarrow> b \<in> set all \<and> \<not> skipped g tried est b"
  by (auto simp: candidates_def Let_def split: if_splits)

text \<open>Nobody is lost: with an unskipped backend there is a candidate.\<close>

lemma candidates_empty: "candidates g now all tried est = [] \<longleftrightarrow> (\<forall>b \<in> set all. skipped g tried est b)"
  by (auto simp: candidates_def Let_def filter_empty_conv)

lemma candidates_cool:
  "\<exists>b \<in> set all. \<not> skipped g tried est b \<and> \<not> cooling g now b \<Longrightarrow>
     b' \<in> set (candidates g now all tried est) \<Longrightarrow> \<not> cooling g now b'"
  by (auto simp: candidates_def Let_def filter_empty_conv split: if_splits)

lemma set_eligible:
  "b \<in> set (eligible_backends tags tgt wantTools bs) \<Longrightarrow> b \<in> set bs \<and> allows tgt b \<and> \<not> b_Drained b"
  by (auto simp: eligible_backends_def toolCapable_def Let_def split: if_splits)

subsection \<open>What one exchange can do\<close>

lemma itoa_ne: "itoa s \<noteq> ''upstream_error''"
proof -
  have d: "set (dec_digits n) \<subseteq> digit ` {0..<10}" for n
  proof (induction n rule: dec_digits.induct)
    case (1 n)
    show ?case
    proof (cases "n < 10")
      case True
      then show ?thesis by (simp add: dec_digits.simps [of n])
    next
      case False
      with 1 show ?thesis by (simp add: dec_digits.simps [of n])
    qed
  qed
  have dg: "(of_char (digit x) :: nat) = 48 + x" if "x < 10" for x :: nat using that by (simp add: digit_def)
  have "CHR ''u'' \<noteq> digit x" if "x < 10" for x
  proof
    assume "CHR ''u'' = digit x"
    then have "(of_char CHR ''u'' :: nat) = of_char (digit x)" by simp
    with dg [OF that] that show False by simp
  qed
  then have "CHR ''u'' \<notin> digit ` {0..<10}" by (metis atLeastLessThan_iff imageE)
  then have "CHR ''u'' \<notin> set (itoa s)" using d by (auto simp: itoa_def)
  moreover have "CHR ''u'' \<in> set ''upstream_error''" by simp
  ultimately show ?thesis by metis
qed

lemma exchange_cases:
  assumes "exchange_result json b stream princ x = (err, rep, evs)"
  shows "err \<in> {Some Retryable, Some ContextTooSmall} \<and> rep = None \<and> evs = [] \<or>
    err \<in> {None, Some StreamCopy} \<and> (\<exists>e. evs = [e] \<and> ue_NodeID e = b_NodeID b \<and> ue_Principal e = princ \<and>
      ue_Code e \<noteq> ''upstream_error'') \<and> (rep = None \<longrightarrow> err = None)"
proof -
  have dn: "ue_NodeID (done_event json b stream princ status st) = b_NodeID b \<and>
      ue_Principal (done_event json b stream princ status st) = princ \<and>
      ue_Code (done_event json b stream princ status st) \<noteq> ''upstream_error''" for status st
    using itoa_ne by (auto simp: done_event_def event_def Let_def split: option.splits)
  show ?thesis
    using assms dn by (auto simp: exchange_result_def event_def Let_def split: if_splits upstream.splits)
qed

lemma copy_loop_out:
  "\<exists>rest. cs_out st @ concat ps = cs_out (copy_loop stream rerr wfail st ps) @ rest \<and>
     (\<not> cs_err (copy_loop stream rerr wfail st ps) \<longrightarrow> rest = [])"
proof (induction stream rerr wfail st ps rule: copy_loop.induct)
  case (2 stream rerr wfail st p ps)
  show ?case
  proof (cases "p = [] \<or> wfail = Some 0")
    case True
    with 2 show ?thesis by (auto simp: Let_def)
  next
    case False
    then show ?thesis using 2(2) [OF _ refl refl] by (auto simp: Let_def)
  qed
qed simp

subsection \<open>The attempt loop, for every picker\<close>

text \<open>What the tried backends and their errors satisfy, attempt by attempt.\<close>

definition attempts_ok ::
  "(string \<Rightarrow> string list) \<Rightarrow> target \<Rightarrow> bool \<Rightarrow> int \<Rightarrow> 'p attempt_env list \<Rightarrow>
   (backend \<times> forward_error option) list \<Rightarrow> bool" where
  "attempts_ok tags tgt wantTools est es tried \<longleftrightarrow>
     length tried \<le> length es \<and> distinct (map (b_NodeID \<circ> fst) tried) \<and>
     (\<forall>k < length tried. fst (tried ! k) \<in> set (eligible_backends tags tgt wantTools (e_backends (es ! k))) \<and>
        (b_CtxSize (fst (tried ! k)) > 0 \<longrightarrow> est \<le> b_CtxSize (fst (tried ! k)))) \<and>
     (\<forall>k. Suc k < length tried \<longrightarrow> (\<exists>er. snd (tried ! k) = Some er \<and> is_retryable er))"

definition ends_ok :: "'p attempt_env list \<Rightarrow> (backend \<times> forward_error option) list \<Rightarrow> outcome option \<Rightarrow> bool" where
  "ends_ok es tried out \<longleftrightarrow>
     (case out of
        None \<Rightarrow> \<forall>a \<in> set tried. \<exists>er. snd a = Some er \<and> is_retryable er
      | Some (Refused c m) \<Rightarrow> False
      | Some Unanswered \<Rightarrow> tried \<noteq> [] \<and> snd (last tried) = None
      | Some (Replied r) \<Rightarrow>
          tried \<noteq> [] \<and> snd (last tried) \<in> {None, Some StreamCopy} \<and> rp_Node r = b_NodeID (fst (last tried)) \<and>
          (\<exists>hs chunks rerr wfail rest.
             x_upstream (e_exchange (es ! (length tried - 1)) (fst (last tried))) = Response (rp_Status r) hs chunks rerr wfail \<and>
             concat chunks = rp_Body r @ rest \<and> (snd (last tried) = None \<longrightarrow> rest = []) \<and> rp_Status r < 500))"

lemma attempts_ok_Cons:
  assumes "attempts_ok tags tgt wantTools est es new" "b_NodeID b \<notin> (b_NodeID \<circ> fst) ` set new"
    and "b \<in> set (eligible_backends tags tgt wantTools (e_backends e))" "b_CtxSize b > 0 \<longrightarrow> est \<le> b_CtxSize b"
    and "new \<noteq> [] \<longrightarrow> (\<exists>er. err = Some er \<and> is_retryable er)"
  shows "attempts_ok tags tgt wantTools est (e # es) ((b, err) # new)"
proof -
  have "fst (((b, err) # new) ! k) \<in> set (eligible_backends tags tgt wantTools (e_backends ((e # es) ! k))) \<and>
        (b_CtxSize (fst (((b, err) # new) ! k)) > 0 \<longrightarrow> est \<le> b_CtxSize (fst (((b, err) # new) ! k)))"
    if "k < length ((b, err) # new)" for k
    using assms that by (cases k) (auto simp: attempts_ok_def)
  moreover have "\<exists>er. snd (((b, err) # new) ! k) = Some er \<and> is_retryable er" if "Suc k < length ((b, err) # new)" for k
    using assms that by (cases k) (auto simp: attempts_ok_def)
  moreover have "length ((b, err) # new) \<le> length (e # es)" "distinct (map (b_NodeID \<circ> fst) ((b, err) # new))"
    using assms by (auto simp: attempts_ok_def)
  ultimately show ?thesis unfolding attempts_ok_def by blast
qed

lemma ends_ok_Cons:
  assumes "ends_ok es new out" "\<exists>er. err = Some er \<and> is_retryable er"
  shows "ends_ok (e # es) ((b, err) # new) out"
  using assms by (cases new) (auto simp: ends_ok_def split: option.splits outcome.splits)

lemma exchange_reply:
  assumes "exchange_result json b stream princ x = (err, Some r, evs)"
  shows "err \<in> {None, Some StreamCopy} \<and> rp_Node r = b_NodeID b \<and>
    (\<exists>hs chunks rerr wfail rest. x_upstream x = Response (rp_Status r) hs chunks rerr wfail \<and>
       concat chunks = rp_Body r @ rest \<and> (err = None \<longrightarrow> rest = []) \<and> rp_Status r < 500)"
proof -
  have copy: "\<exists>rest. concat chunks = cs_out (copy_body stream rerr wfail chunks) @ rest \<and>
      (\<not> cs_err (copy_body stream rerr wfail chunks) \<longrightarrow> rest = [])" for rerr wfail chunks
    using copy_loop_out [of "\<lparr>cs_tail = [], cs_events = \<lparr>ss_n = 0, ss_carry = []\<rparr>, cs_out = [], cs_err = False\<rparr>" chunks]
    by (simp add: copy_body_def)
  have peek: "concat (peeked chunks) = concat chunks" for chunks by (simp add: peeked_def)
  show ?thesis
  proof (cases "x_upstream x")
    case (DoError gone)
    with assms show ?thesis by (simp add: exchange_result_def split: if_splits)
  next
    case (Response status hs chunks rerr wfail)
    define chunks' where "chunks' = (if status = 400 then peeked chunks else chunks)"
    define st where "st = copy_body stream rerr wfail chunks'"
    have r: "err = (if cs_err st then Some StreamCopy else None)" "rp_Status r = status" "rp_Node r = b_NodeID b"
      "rp_Body r = cs_out st" "status < 500"
      using assms unfolding exchange_result_def Response upstream.case Let_def chunks'_def [symmetric] st_def [symmetric]
      by (simp_all split: if_splits) auto
    have "concat chunks' = concat chunks" by (simp add: chunks'_def peek)
    with copy [of chunks' rerr wfail] r Response show ?thesis by (auto simp: st_def)
  qed
qed

context picker
begin

lemma choose_total: "cands \<noteq> [] \<Longrightarrow> choose_backend pick tgt req cands g \<noteq> None"
  using pick_total [of cands "gw_picker g" req "gw_inflight g"] spread.pick_total [of cands "gw_spread g" req "gw_inflight g"]
  by (auto simp: choose_backend_def split: target_picker.splits)

lemma choose_mem:
  "choose_backend pick tgt req cands g = Some (b, g') \<Longrightarrow> cands \<noteq> [] \<Longrightarrow>
     b \<in> set cands \<and> gw_inflight g' = gw_inflight g \<and> gw_cooldown g' = gw_cooldown g \<and> gw_usage g' = gw_usage g \<and>
     gw_rejected g' = gw_rejected g"
  by (auto simp: choose_backend_def dest!: pick_mem spread.pick_mem split: if_splits target_picker.splits option.splits)

text \<open>A loop over candidates never asks a picker to choose from nothing, so it never panics.\<close>

lemma attempt_loop_total:
  "attempt_loop pick json tags cfg tgt wantTools req stream princ est es tried g \<noteq> None"
proof (induction es arbitrary: tried g)
  case (Cons e es)
  show ?case
    using choose_total Cons.IH
    by (auto simp: Let_def split: option.splits prod.splits simp del: not_None_eq)
qed simp

end

lemma record_all [simp]:
  "gw_inflight (foldl (\<lambda>g e. record_usage e g) h evs) = gw_inflight h"
  "gw_cooldown (foldl (\<lambda>g e. record_usage e g) h evs) = gw_cooldown h"
  "gw_rejected (foldl (\<lambda>g e. record_usage e g) h evs) = gw_rejected h"
  "gw_usage (foldl (\<lambda>g e. record_usage e g) h evs) = gw_usage h @ evs"
  by (induction evs arbitrary: h) (auto simp: record_usage_def)

text \<open>An environment in which no other request touches the shared maps.\<close>

definition quiet :: "'p attempt_env \<Rightarrow> bool" where
  "quiet e \<longleftrightarrow> e_before e = id \<and> e_during e = id"

text \<open>The cooldowns after the tried attempts: each failure that is not about the context marks its node.\<close>

fun marked :: "config \<Rightarrow> 'p attempt_env list \<Rightarrow> (backend \<times> forward_error option) list \<Rightarrow> (node_id \<Rightarrow> go_time option) \<Rightarrow> node_id \<Rightarrow> go_time option" where
  "marked cfg (e # es) ((b, err) # new) cd =
     marked cfg es new (if err \<noteq> None \<and> err \<noteq> Some ContextTooSmall then cd(b_NodeID b \<mapsto> e_now e + cf_Cooldown cfg) else cd)"
| "marked cfg es new cd = cd"

definition failure_events :: "string \<Rightarrow> (backend \<times> forward_error option) list \<Rightarrow> usage_event list" where
  "failure_events princ new =
     map (\<lambda>a. event princ (b_NodeID (fst a)) (b_Model (fst a)) ''upstream_error'')
       (filter (\<lambda>a. \<exists>er. snd a = Some er \<and> is_retryable er) new)"

definition final_event :: "string \<Rightarrow> (backend \<times> forward_error option) list \<Rightarrow> usage_event \<Rightarrow> bool" where
  "final_event princ new e \<longleftrightarrow> ue_Principal e = princ \<and> ue_Code e \<noteq> ''upstream_error'' \<and>
     new \<noteq> [] \<and> ue_NodeID e = b_NodeID (fst (last new))"

context picker
begin

lemma attempt_loop_spec:
  assumes "attempt_loop pick json tags cfg tgt wantTools req stream princ est es tried g = Some ((tried', out), g')"
  shows "\<exists>new. tried' = tried @ new \<and> attempts_ok tags tgt wantTools est es new \<and> ends_ok es new out \<and>
    (b_NodeID \<circ> fst) ` set new \<inter> (b_NodeID \<circ> fst) ` set tried = {} \<and>
    (list_all quiet es \<longrightarrow> gw_inflight g' = gw_inflight g \<and> gw_rejected g' = gw_rejected g \<and>
       gw_cooldown g' = marked cfg es new (gw_cooldown g) \<and>
       (\<exists>fin. gw_usage g' = gw_usage g @ failure_events princ new @ fin \<and>
          (if out = None then fin = [] else \<exists>e. fin = [e] \<and> final_event princ new e)))"
  using assms
proof (induction es arbitrary: tried g)
  case Nil
  then show ?case by (auto simp: attempts_ok_def ends_ok_def failure_events_def)
next
  case (Cons e es)
  define g1 where "g1 = e_before e g"
  define cands where "cands = candidates g1 (e_now e) (eligible_backends tags tgt wantTools (e_backends e))
    (\<lambda>n. n \<in> (b_NodeID \<circ> fst) ` set tried) est"
  note eq = Cons.prems [unfolded attempt_loop.simps Let_def, folded g1_def, folded cands_def]
  show ?case
  proof (cases "cands = []")
    case True
    with eq have "tried' = tried" "out = None" "g' = g1" by simp_all
    then show ?thesis
      by (auto simp: attempts_ok_def ends_ok_def failure_events_def quiet_def g1_def)
  next
    case False
    then obtain b g2 where ch: "choose_backend pick tgt req cands g1 = Some (b, g2)"
      using choose_total [OF False, of tgt req g1] by auto
    note cm = choose_mem [OF ch False]
    have b: "b \<in> set (eligible_backends tags tgt wantTools (e_backends e))" "b_NodeID b \<notin> (b_NodeID \<circ> fst) ` set tried"
      "b_CtxSize b > 0 \<longrightarrow> est \<le> b_CtxSize b"
      using set_candidates [OF conjunct1 [OF cm, unfolded cands_def]] by (auto simp: skipped_def not_less)
    obtain err rep evs where x: "exchange_result json b stream princ (e_exchange e b) = (err, rep, evs)"
      by (metis prod_cases3)
    define g3 where "g3 = snd (forward json (e_during e) b stream princ (e_exchange e b) g2)"
    have fw: "forward json (e_during e) b stream princ (e_exchange e b) g2 = ((err, rep), g3)"
      by (simp add: g3_def forward_def x Let_def)
    have g3: "gw_inflight g3 = gw_inflight g \<and> gw_cooldown g3 = gw_cooldown g \<and> gw_rejected g3 = gw_rejected g \<and>
        gw_usage g3 = gw_usage g @ evs" if "quiet e"
      using that cm by (auto simp: g3_def forward_def x Let_def quiet_def addInflight_def g1_def)
    note ex = exchange_cases [OF x]
    let ?stop = "err = None \<or> err = Some StreamCopy"
    show ?thesis
    proof (cases ?stop)
      case True
      then have res: "tried' = tried @ [(b, err)]" "out = Some (case rep of Some r \<Rightarrow> Replied r | None \<Rightarrow> Unanswered)"
        "g' = (if err = None then g3 else markDown cfg (e_now e) (b_NodeID b) g3)"
        using eq False ch fw by (auto simp: is_retryable_def)
      have "attempts_ok tags tgt wantTools est (e # es) [(b, err)]"
        using b by (intro attempts_ok_Cons) (auto simp: attempts_ok_def)
      moreover have "ends_ok (e # es) [(b, err)] out"
      proof (cases rep)
        case None
        with ex True show ?thesis by (auto simp: ends_ok_def res(2))
      next
        case (Some r)
        from exchange_reply [OF x [unfolded Some]] show ?thesis by (auto simp: ends_ok_def res(2) Some)
      qed
      moreover have "\<exists>ev. evs = [ev] \<and> final_event princ [(b, err)] ev" using ex True by (auto simp: final_event_def)
      moreover have "failure_events princ [(b, err)] = []" using True by (auto simp: failure_events_def is_retryable_def)
      ultimately show ?thesis
        using b(2) g3 True
        by (intro exI [of _ "[(b, err)]"]) (auto simp: res(1) res(2,3) markDown_def)
    next
      case nostop: False
      then obtain er where er: "err = Some er" "is_retryable er" "er \<noteq> StreamCopy" "evs = []"
        using ex by (auto simp: is_retryable_def)
      define g4 where "g4 = record_usage (event princ (b_NodeID b) (b_Model b) ''upstream_error'')
        (if er \<noteq> ContextTooSmall then markDown cfg (e_now e) (b_NodeID b) g3 else g3)"
      have "attempt_loop pick json tags cfg tgt wantTools req stream princ est es (tried @ [(b, err)]) g4 = Some ((tried', out), g')"
        using eq False ch fw er by (simp add: g4_def split del: if_split)
      from Cons.IH [OF this] obtain new where new: "tried' = (tried @ [(b, err)]) @ new"
        "attempts_ok tags tgt wantTools est es new" "ends_ok es new out"
        "(b_NodeID \<circ> fst) ` set new \<inter> (b_NodeID \<circ> fst) ` set (tried @ [(b, err)]) = {}"
        "list_all quiet es \<longrightarrow> gw_inflight g' = gw_inflight g4 \<and> gw_rejected g' = gw_rejected g4 \<and>
           gw_cooldown g' = marked cfg es new (gw_cooldown g4) \<and>
           (\<exists>fin. gw_usage g' = gw_usage g4 @ failure_events princ new @ fin \<and>
              (if out = None then fin = [] else \<exists>e. fin = [e] \<and> final_event princ new e))" by blast
      have "attempts_ok tags tgt wantTools est (e # es) ((b, err) # new)"
        using new(2,4) b er by (intro attempts_ok_Cons) auto
      moreover have "ends_ok (e # es) ((b, err) # new) out" using new(3) er by (intro ends_ok_Cons) auto
      moreover have "failure_events princ ((b, err) # new) =
          event princ (b_NodeID b) (b_Model b) ''upstream_error'' # failure_events princ new"
        using er by (simp add: failure_events_def)
      moreover have "out \<noteq> None \<Longrightarrow> new \<noteq> []" using new(3) by (cases "the out") (auto simp: ends_ok_def)
      moreover have "final_event princ new ev \<Longrightarrow> final_event princ ((b, err) # new) ev" for ev
        by (auto simp: final_event_def)
      moreover have "quiet e \<Longrightarrow> gw_inflight g4 = gw_inflight g \<and> gw_rejected g4 = gw_rejected g \<and>
          gw_cooldown g4 = (if err \<noteq> None \<and> err \<noteq> Some ContextTooSmall then (gw_cooldown g)(b_NodeID b \<mapsto> e_now e + cf_Cooldown cfg)
            else gw_cooldown g) \<and> gw_usage g4 = gw_usage g @ [event princ (b_NodeID b) (b_Model b) ''upstream_error'']"
        using g3 er by (auto simp: g4_def record_usage_def markDown_def)
      ultimately show ?thesis
        using new(1,4,5) b(2) by (intro exI [of _ "(b, err) # new"]) (auto split: if_splits)
    qed
  qed
qed

end

subsection \<open>Serving a target, for every picker\<close>

definition max_attempts :: "config \<Rightarrow> target \<Rightarrow> nat" where
  "max_attempts cfg tgt = nat (if t_Node tgt \<noteq> '''' then 1 else cf_MaxAttempts cfg)"

text \<open>
  A request is answered: distinct eligible backends are tried, at most \<open>MaxAttempts\<close> of them
  (one for a node target), each after a retryable failure of the one before; what the client
  gets is the answer of the last one, unchanged, or a refusal after nothing but retryable
  failures.
\<close>

definition serve_ok ::
  "(string \<Rightarrow> string list) \<Rightarrow> config \<Rightarrow> target \<Rightarrow> string \<Rightarrow> request_meta \<Rightarrow> (nat \<Rightarrow> 'p attempt_env) \<Rightarrow>
   (((backend \<times> forward_error option) list \<times> outcome) \<times> 'p gateway) option \<Rightarrow> bool" where
  "serve_ok tags cfg tgt body meta env result \<longleftrightarrow>
     (case result of
        None \<Rightarrow> False
      | Some ((tried, out), g) \<Rightarrow>
          (let es = map env [0..<max_attempts cfg tgt] in
           attempts_ok tags tgt (t_Node tgt = '''' \<and> hasTools meta) (estimateTokens body) es tried \<and>
           (case out of
              Refused c m \<Rightarrow> ends_ok es tried None \<and> c \<ge> 400
            | _ \<Rightarrow> ends_ok es tried (Some out))))"

text \<open>
  The books: with no other request around, the in-flight counts end as they began, exactly
  the nodes that failed for another reason than the prompt's length cool down, and the usage
  log grows by one \<open>upstream_error\<close> per failed attempt and exactly one final event.
\<close>

definition books_ok ::
  "config \<Rightarrow> target \<Rightarrow> string \<Rightarrow> (nat \<Rightarrow> 'p attempt_env) \<Rightarrow> 'p gateway \<Rightarrow>
   (((backend \<times> forward_error option) list \<times> outcome) \<times> 'p gateway) option \<Rightarrow> bool" where
  "books_ok cfg tgt princ env g result \<longleftrightarrow>
     (case result of
        None \<Rightarrow> False
      | Some ((tried, out), g') \<Rightarrow>
          gw_inflight g' = gw_inflight g \<and>
          gw_cooldown g' = marked cfg (map env [0..<max_attempts cfg tgt]) tried (gw_cooldown g) \<and>
          (\<exists>e. gw_usage g' = gw_usage g @ failure_events princ tried @ [e] \<and> ue_Principal e = princ \<and>
             ue_Code e \<noteq> ''upstream_error'' \<and>
             (case out of
                Refused c m \<Rightarrow> ue_NodeID e = '''' \<and> ue_Code e = itoa c \<and> length (gw_rejected g') = Suc (length (gw_rejected g))
              | _ \<Rightarrow> final_event princ tried e \<and> gw_rejected g' = gw_rejected g)))"

lemma event_code: "ue_Code (event p n m c) = c" "ue_Principal (event p n m c) = p" "ue_NodeID (event p n m c) = n"
  by (simp_all add: event_def)

context picker
begin

lemma serveTarget_spec:
  "serve_ok tags cfg tgt body meta env (serveTarget pick sha json tags cfg tgt body meta princ first env g) \<and>
   ((\<forall>k < max_attempts cfg tgt. quiet (env k)) \<longrightarrow>
    books_ok cfg tgt princ env g (serveTarget pick sha json tags cfg tgt body meta princ first env g))"
proof -
  define wt where "wt \<longleftrightarrow> t_Node tgt = '''' \<and> hasTools meta"
  define all where "all = eligible_backends tags tgt wt first"
  define est where "est = estimateTokens body"
  define req where "req = \<lparr>r_Model = m_Model meta, r_AffinityKey = affinityKey sha meta, r_PromptBytes = int (length body)\<rparr>"
  define es where "es = map env [0..<max_attempts cfg tgt]"
  let ?res = "serveTarget pick sha json tags cfg tgt body meta princ first env g"
  have empty: "attempts_ok tags tgt wt est es []" "ends_ok es [] None" "failure_events princ [] = []"
    "marked cfg es [] cd = cd" for cd
    by (auto simp: attempts_ok_def ends_ok_def failure_events_def)
  have refuse: "serve_ok tags cfg tgt body meta env (Some (([], Refused c m), record_usage (event princ '''' mdl (itoa c)) (reject r g))) \<and>
      books_ok cfg tgt princ env g (Some (([], Refused c m), record_usage (event princ '''' mdl (itoa c)) (reject r g)))"
    if "c = 503 \<or> c = 404 \<or> c = 400" for c m mdl r
    using that empty by (auto simp: serve_ok_def books_ok_def es_def wt_def est_def record_usage_def reject_def event_code
        itoa_ne Let_def)
  show ?thesis
  proof (cases "all = [] \<or> (maxContext all > 0 \<and> est > maxContext all)")
    case True
    then show ?thesis
      using refuse unfolding serveTarget_def Let_def wt_def [symmetric] all_def [symmetric] est_def [symmetric]
      by (auto split del: if_split split: if_split_asm) (auto split: if_splits)
  next
    case False
    obtain tried out g' where run: "attempt_loop pick json tags cfg tgt wt req (m_Stream meta) princ est es [] g = Some ((tried, out), g')"
      using attempt_loop_total [of json tags cfg tgt wt req "m_Stream meta" princ est es "[]" g] by (auto simp: not_None_eq)
    from attempt_loop_spec [OF this]
    have sp: "attempts_ok tags tgt wt est es tried" "ends_ok es tried out"
      "list_all quiet es \<longrightarrow> gw_inflight g' = gw_inflight g \<and> gw_rejected g' = gw_rejected g \<and>
       gw_cooldown g' = marked cfg es tried (gw_cooldown g) \<and>
       (\<exists>fin. gw_usage g' = gw_usage g @ failure_events princ tried @ fin \<and>
          (if out = None then fin = [] else \<exists>e. fin = [e] \<and> final_event princ tried e))" by auto
    have q: "(\<forall>k < max_attempts cfg tgt. quiet (env k)) \<longrightarrow> list_all quiet es" by (auto simp: es_def list_all_iff)
    have res: "?res = (case out of Some o' \<Rightarrow> Some ((tried, o'), g')
        | None \<Rightarrow> if length tried = 0 then
            Some ((tried, Refused 503 ''busy''), record_usage (event princ '''' (m_Model meta) (itoa 503)) (reject ''busy'' g'))
          else Some ((tried, Refused 502 ''backends_failed''),
            record_usage (event princ '''' (m_Model meta) (itoa 502)) (reject ''backends_failed'' g')))"
      using False run
      unfolding serveTarget_def Let_def wt_def [symmetric] all_def [symmetric] est_def [symmetric] req_def [symmetric]
      by (auto simp: es_def max_attempts_def split: option.splits)
    show ?thesis
    proof (cases out)
      case None
      then show ?thesis
        using sp q unfolding res
        by (auto simp: serve_ok_def books_ok_def es_def wt_def est_def record_usage_def reject_def event_code itoa_ne Let_def)
    next
      case (Some o')
      then have "\<nexists>c m. o' = Refused c m" using sp(2) by (auto simp: ends_ok_def)
      with Some show ?thesis
        using sp q unfolding res
        by (cases o') (auto simp: serve_ok_def books_ok_def es_def wt_def est_def final_event_def Let_def)
    qed
  qed
qed

end



text \<open>
  The concurrency limit is read by \<open>candidates\<close> and the count raised by \<open>forward\<close> under two
  separate locks: two requests that both select first are both let through.
\<close>

lemma concurrency_limit_race:
  assumes "b_MaxConcurrency b = 1" "b_CtxSize b = 0" "gw_inflight g (b_NodeID b) = 0"
  shows "candidates g now [b] (\<lambda>_. False) est = [b] \<and>
    gw_inflight (addInflight (b_NodeID b) 1 (addInflight (b_NodeID b) 1 g)) (b_NodeID b) > b_MaxConcurrency b"
  using assms by (simp add: candidates_def skipped_def addInflight_def Let_def)

text \<open>An empty tool list counts as tools for the Super Borg dispatch, and as none for routing.\<close>

lemma empty_tools_bypass:
  assumes "m_Tools meta = ''[]''"
  shows "superborgDirect ''/v1/chat/completions'' meta \<and> \<not> hasTools meta"
  using assms by (simp add: superborgDirect_def hasTools_def trim_space_def is_space_def)

text \<open>
  \<open>Reap\<close> cancels exactly the attempts on nodes that left the backends, so a request
  stuck on a lost node goes on to its next attempt; attempts on live nodes, drained ones
  included, are left alone.
\<close>

lemma reap_exact:
  "a \<in> Reap bs (track n a True m) n \<longleftrightarrow> n \<notin> b_NodeID ` set bs"
  by (simp add: Reap_def track_def)

definition sample_config :: config where
  "sample_config = \<lparr>cf_UpstreamTimeout = 60, cf_FirstTokenTimeout = 0, cf_MaxAttempts = 2, cf_Cooldown = 30\<rparr>"

definition sample_meta :: request_meta where
  "sample_meta = \<lparr>m_Model = ''auto'', m_Stream = False, m_Messages = [], m_Tools = '''', m_Prompt = ''hi''\<rparr>"

definition sample_gateway :: "affinity gateway" where
  "sample_gateway = \<lparr>gw_picker = NewAffinity 0, gw_spread = 0, gw_inflight = (\<lambda>_. 0), gw_cooldown = (\<lambda>_. None), gw_usage = [], gw_rejected = []\<rparr>"

definition sample_env :: "nat \<Rightarrow> affinity attempt_env" where
  "sample_env k = \<lparr>e_backends = [sample_backend ''a'' ''m'' 1 False], e_now = int k, e_before = id, e_during = id,
     e_exchange = (\<lambda>b. \<lparr>x_withModel_ok = True, x_request_ok = True, x_upstream = Response 503 [] [] False None\<rparr>)\<rparr>"


end
