(* ===== verification/External.thy ===== *)
theory External
  imports Registry
begin

text \<open>
  External engine nodes (\<^verbatim>\<open>controller/external.go\<close>): their configuration, the poll that
  drives ACTIVE and OFFLINE, self-tests, and the backends they offer.

  A poll and a self-test release the lock while they talk to the server, so each is a begin
  and an end; Go compares the node's pointer to see whether it was replaced meanwhile, here
  every node put in the map gets a fresh \<open>en_gen\<close>.  What the server answers, the parsed URL
  and whether the file could be written are arguments.
\<close>

abbreviation "ExternalActive \<equiv> ''ACTIVE''"
abbreviation "ExternalOffline \<equiv> ''OFFLINE''"
abbreviation "ExternalPrefix \<equiv> ''ext:''"
abbreviation "ExternalRoleOrchestrator \<equiv> ''orchestrator''"

definition externalFailsOffline :: nat where
  "externalFailsOffline = 3"

definition maxExternalConc :: int where
  "maxExternalConc = 1024"

record external_spec =
  es_URL :: string
  es_APIKey :: "string option"
  es_Models :: "string list"
  es_MaxConcurrency :: int
  es_CtxSize :: int
  es_SpeedTPS :: real
  es_Role :: string

record external_speed =
  xs_GenTPS :: real
  xs_PromptTPS :: real
  xs_At :: go_time
  xs_Error :: string

record external_config =
  xc_Name :: string
  xc_URL :: string
  xc_APIKey :: string
  xc_Models :: "string list"
  xc_MaxConcurrency :: int
  xc_CtxSize :: int
  xc_SpeedTPS :: real
  xc_Measured :: "string \<Rightarrow> external_speed option"
  xc_Role :: string

text \<open>An external node as the admin API returns it: there is no field for the key itself.\<close>

record external =
  x_Name :: string
  x_Role :: string
  x_NodeID :: node_id
  x_URL :: string
  x_HasAPIKey :: bool
  x_Models :: "string list"
  x_DiscoveredModels :: "string list"
  x_MaxConcurrency :: int
  x_CtxSize :: int
  x_SpeedTPS :: real
  x_State :: string
  x_LastCheck :: go_time
  x_LastError :: string
  x_Measured :: "string \<Rightarrow> external_speed option"
  x_Drained :: bool
  x_Inflight :: int
  x_PinnedSessions :: nat

record ext_node =
  en_cfg :: external_config
  en_state :: string
  en_lastCheck :: go_time
  en_lastErr :: string
  en_fails :: nat
  en_discovered :: "string list"
  en_drained :: bool
  en_testing :: bool
  en_gen :: nat

record externals =
  ex_byName :: "(string \<times> ext_node) list"
  ex_next :: nat
  ex_file :: "external_config list"
  ex_log :: "(string \<times> string \<times> string) list"

datatype ext_error =
    ErrExternalUnknown
  | ErrExternalName
  | ErrExternalTaken
  | BadURL
  | BadMaxConcurrency
  | NegativeLimits
  | BadRole string
  | EmptyModel
  | ErrSave

subsection \<open>Configuration\<close>

text \<open>The fields of a parsed URL that are looked at, and its printed form.\<close>

record url_parts =
  url_Scheme :: string
  url_Host :: string
  url_User :: bool
  url_RawQuery :: string
  url_Fragment :: string
  url_String :: string

definition trim_right_slash :: "string \<Rightarrow> string" where
  "trim_right_slash s = rev (dropWhile (\<lambda>c. c = CHR ''/'') (rev s))"

definition trim_suffix :: "string \<Rightarrow> string \<Rightarrow> string" where
  "trim_suffix s suf = (if length suf \<le> length s \<and> drop (length s - length suf) s = suf then take (length s - length suf) s else s)"

definition normExternalURL :: "(string \<Rightarrow> url_parts option) \<Rightarrow> string \<Rightarrow> ext_error + string" where
  "normExternalURL purl raw =
     (case purl (trim_space raw) of
        None \<Rightarrow> Inl BadURL
      | Some u \<Rightarrow>
          if (url_Scheme u \<noteq> ''http'' \<and> url_Scheme u \<noteq> ''https'') \<or> url_Host u = '''' \<or> url_User u \<or>
             url_RawQuery u \<noteq> '''' \<or> url_Fragment u \<noteq> '''' then Inl BadURL
          else Inr (trim_right_slash (trim_suffix (trim_right_slash (url_String u)) ''/v1'')))"

text \<open>A list of names trimmed, without repetitions; \<open>None\<close> for an empty entry.\<close>

fun clean_list :: "string list \<Rightarrow> string list \<Rightarrow> string list option" where
  "clean_list out [] = Some out"
| "clean_list out (v # vs) =
     (let v = trim_space v
      in if v = '''' then None
         else clean_list (if v \<in> set out then out else out @ [v]) vs)"

definition normExternalSpec :: "(string \<Rightarrow> url_parts option) \<Rightarrow> external_spec \<Rightarrow> ext_error + external_spec" where
  "normExternalSpec purl spec =
     (case normExternalURL purl (es_URL spec) of
        Inl err \<Rightarrow> Inl err
      | Inr u \<Rightarrow>
          (let spec = spec\<lparr>es_URL := u\<rparr>
           in if es_MaxConcurrency spec < 0 \<or> es_MaxConcurrency spec > maxExternalConc then Inl BadMaxConcurrency
              else
                (let spec = (if es_MaxConcurrency spec = 0 then spec\<lparr>es_MaxConcurrency := 1\<rparr> else spec)
                 in if es_CtxSize spec < 0 \<or> es_SpeedTPS spec < 0 then Inl NegativeLimits
                    else if es_Role spec \<noteq> '''' \<and> es_Role spec \<noteq> ExternalRoleOrchestrator then Inl (BadRole (es_Role spec))
                    else case clean_list [] (es_Models spec) of
                           None \<Rightarrow> Inl EmptyModel
                         | Some allow \<Rightarrow> Inr (spec\<lparr>es_Models := allow\<rparr>))))"

definition filterModels :: "string list \<Rightarrow> string list \<Rightarrow> string list" where
  "filterModels discovered allow =
     (if length allow = 0 then discovered else filter (\<lambda>m. m \<in> set discovered) allow)"

definition sorted_nodes :: "externals \<Rightarrow> ext_node list" where
  "sorted_nodes e = sort_key (\<lambda>n. xc_Name (en_cfg n)) (map snd (ex_byName e))"

definition ext_save :: "bool \<Rightarrow> externals \<Rightarrow> externals" where
  "ext_save ok e = (if ok then e\<lparr>ex_file := map en_cfg (sorted_nodes e)\<rparr> else e)"

definition newExternals :: "external_config list \<Rightarrow> externals" where
  "newExternals state =
     foldl (\<lambda>e c. let c = (if xc_MaxConcurrency c \<le> 0 then c\<lparr>xc_MaxConcurrency := 1\<rparr> else c)
                  in e\<lparr>ex_byName := AList.update (xc_Name c)
                         \<lparr>en_cfg = c, en_state = ExternalOffline, en_lastCheck = 0, en_lastErr = '''', en_fails = 0,
                          en_discovered = [], en_drained = False, en_testing = False, en_gen = ex_next e\<rparr> (ex_byName e),
                       ex_next := Suc (ex_next e)\<rparr>)
       \<lparr>ex_byName = [], ex_next = 0, ex_file = state, ex_log = []\<rparr> state"

definition ext_has :: "externals \<Rightarrow> string \<Rightarrow> bool" where
  "ext_has e name \<longleftrightarrow> map_of (ex_byName e) name \<noteq> None"

text \<open>The node that \<open>put\<close> stores, given the one it replaces.\<close>

definition put_node :: "string \<Rightarrow> external_spec \<Rightarrow> ext_node option \<Rightarrow> nat \<Rightarrow> ext_node" where
  "put_node name spec old gen =
     (let u = es_URL spec; allow = es_Models spec;
          n = \<lparr>en_cfg = \<lparr>xc_Name = name, xc_URL = u,
                 xc_APIKey = (case es_APIKey spec of Some k \<Rightarrow> k | None \<Rightarrow> (case old of None \<Rightarrow> '''' | Some o' \<Rightarrow> xc_APIKey (en_cfg o'))),
                 xc_Models = allow, xc_MaxConcurrency = es_MaxConcurrency spec, xc_CtxSize = es_CtxSize spec,
                 xc_SpeedTPS = es_SpeedTPS spec, xc_Measured = (\<lambda>_. None), xc_Role = es_Role spec\<rparr>,
               en_state = ExternalOffline, en_lastCheck = 0, en_lastErr = '''', en_fails = 0, en_discovered = [],
               en_drained = False, en_testing = False, en_gen = gen\<rparr>
      in case old of
           None \<Rightarrow> n
         | Some o' \<Rightarrow>
             if xc_URL (en_cfg o') = u then
               n\<lparr>en_cfg := (en_cfg n)\<lparr>xc_Measured := xc_Measured (en_cfg o')\<rparr>, en_drained := en_drained o',
                 en_state := en_state o', en_lastCheck := en_lastCheck o', en_lastErr := en_lastErr o',
                 en_fails := en_fails o', en_discovered := filterModels (en_discovered o') allow\<rparr>
             else n)"

definition ext_put :: "bool \<Rightarrow> string \<Rightarrow> external_spec \<Rightarrow> externals \<Rightarrow> bool \<times> externals" where
  "ext_put save_ok name spec e =
     (let old = map_of (ex_byName e) name; n = put_node name spec old (ex_next e)
      in (old = None, ext_save save_ok (e\<lparr>ex_byName := AList.update name n (ex_byName e), ex_next := Suc (ex_next e)\<rparr>)))"

definition ext_remove :: "bool \<Rightarrow> string \<Rightarrow> externals \<Rightarrow> ext_error option \<times> externals" where
  "ext_remove save_ok name e =
     (if \<not> ext_has e name then (Some ErrExternalUnknown, e)
      else (if save_ok then None else Some ErrSave, ext_save save_ok (e\<lparr>ex_byName := AList.delete name (ex_byName e)\<rparr>)))"

definition ext_setDrained :: "string \<Rightarrow> bool \<Rightarrow> externals \<Rightarrow> ext_error option \<times> externals" where
  "ext_setDrained name drained e =
     (case map_of (ex_byName e) name of
        None \<Rightarrow> (Some ErrExternalUnknown, e)
      | Some n \<Rightarrow> (None, e\<lparr>ex_byName := AList.update name (n\<lparr>en_drained := drained\<rparr>) (ex_byName e)\<rparr>))"

definition ext_view :: "(node_id \<Rightarrow> int) \<Rightarrow> (node_id \<Rightarrow> nat) \<Rightarrow> ext_node \<Rightarrow> external" where
  "ext_view inflight pins n =
     (let i = ExternalPrefix @ xc_Name (en_cfg n)
      in \<lparr>x_Name = xc_Name (en_cfg n), x_Role = xc_Role (en_cfg n), x_NodeID = i, x_URL = xc_URL (en_cfg n),
          x_HasAPIKey = (xc_APIKey (en_cfg n) \<noteq> ''''), x_Models = xc_Models (en_cfg n), x_DiscoveredModels = en_discovered n,
          x_MaxConcurrency = xc_MaxConcurrency (en_cfg n), x_CtxSize = xc_CtxSize (en_cfg n), x_SpeedTPS = xc_SpeedTPS (en_cfg n),
          x_State = en_state n, x_LastCheck = en_lastCheck n, x_LastError = en_lastErr n, x_Measured = xc_Measured (en_cfg n),
          x_Drained = en_drained n, x_Inflight = inflight i, x_PinnedSessions = pins i\<rparr>)"

definition ext_list :: "(node_id \<Rightarrow> int) \<Rightarrow> (node_id \<Rightarrow> nat) \<Rightarrow> externals \<Rightarrow> external list" where
  "ext_list inflight pins e = map (ext_view inflight pins) (sorted_nodes e)"

definition ext_get :: "(node_id \<Rightarrow> int) \<Rightarrow> (node_id \<Rightarrow> nat) \<Rightarrow> externals \<Rightarrow> string \<Rightarrow> external option" where
  "ext_get inflight pins e name = find (\<lambda>x. x_Name x = name) (ext_list inflight pins e)"

text \<open>\<open>Measured[model].GenTPS\<close>, 0 for a missing entry.\<close>

definition measured_tps :: "(string \<Rightarrow> external_speed option) \<Rightarrow> string \<Rightarrow> real" where
  "measured_tps ms model = (case ms model of None \<Rightarrow> 0 | Some s \<Rightarrow> xs_GenTPS s)"

definition ext_speed :: "ext_node \<Rightarrow> string \<Rightarrow> real" where
  "ext_speed n model = (if xc_SpeedTPS (en_cfg n) > 0 then xc_SpeedTPS (en_cfg n) else measured_tps (xc_Measured (en_cfg n)) model)"

definition ext_node_backends :: "ext_node \<Rightarrow> backend list" where
  "ext_node_backends n =
     (if en_state n \<noteq> ExternalActive then []
      else map (\<lambda>m. \<lparr>b_NodeID = ExternalPrefix @ xc_Name (en_cfg n), b_Model = m, b_URL = xc_URL (en_cfg n),
                     b_Speed = ext_speed n m, b_Drained = en_drained n, b_Hot = False, b_CtxSize = xc_CtxSize (en_cfg n),
                     b_Alias = xc_Name (en_cfg n), b_External = True, b_APIKey = xc_APIKey (en_cfg n),
                     b_MaxConcurrency = xc_MaxConcurrency (en_cfg n),
                     b_OrchestratorOnly = (xc_Role (en_cfg n) = ExternalRoleOrchestrator), b_PoolOnly = False\<rparr>)
             (en_discovered n))"

definition ext_backends :: "externals \<Rightarrow> backend list" where
  "ext_backends e = concat (map ext_node_backends (sorted_nodes e))"

subsection \<open>Polling\<close>

text \<open>The ids of a model list: no empty ones, no repetitions.\<close>

definition list_ids :: "string list \<Rightarrow> string list" where
  "list_ids raw = foldl (\<lambda>ids m. if m \<noteq> '''' \<and> m \<notin> set ids then ids @ [m] else ids) [] raw"

definition ext_setState :: "ext_node \<Rightarrow> string \<Rightarrow> externals \<Rightarrow> externals" where
  "ext_setState n to e =
     (let from = en_state n; name = xc_Name (en_cfg n)
      in if from = to then e\<lparr>ex_byName := AList.update name n (ex_byName e)\<rparr>
         else e\<lparr>ex_byName := AList.update name (n\<lparr>en_state := to\<rparr>) (ex_byName e), ex_log := ex_log e @ [(name, from, to)]\<rparr>)"

text \<open>The begin of a poll takes the node and its configuration; its end applies the answer.\<close>

definition poll_begin :: "string \<Rightarrow> externals \<Rightarrow> (nat \<times> external_config) option" where
  "poll_begin name e = map_option (\<lambda>n. (en_gen n, en_cfg n)) (map_of (ex_byName e) name)"

definition poll_end :: "go_time \<Rightarrow> string \<Rightarrow> nat \<times> external_config \<Rightarrow> string + string list \<Rightarrow> externals \<Rightarrow> externals" where
  "poll_end now name started answer e =
     (case map_of (ex_byName e) name of
        None \<Rightarrow> e
      | Some n \<Rightarrow>
          if en_gen n \<noteq> fst started then e
          else
            (let n = n\<lparr>en_lastCheck := now\<rparr>
             in case answer of
                  Inl err \<Rightarrow>
                    (let n = n\<lparr>en_fails := Suc (en_fails n), en_lastErr := err\<rparr>
                     in if en_fails n \<ge> externalFailsOffline \<or> en_state n \<noteq> ExternalActive then ext_setState n ExternalOffline e
                        else e\<lparr>ex_byName := AList.update name n (ex_byName e)\<rparr>)
                | Inr raw \<Rightarrow>
                    (let n = n\<lparr>en_fails := 0, en_lastErr := ''''\<rparr>;
                         disc = filterModels (list_ids raw) (xc_Models (snd started));
                         n = (if disc \<noteq> en_discovered n then n\<lparr>en_discovered := disc\<rparr> else n)
                     in ext_setState n ExternalActive e)))"

subsection \<open>Self-tests\<close>

text \<open>\<open>None\<close>: unknown node; \<open>Some None\<close>: one is running; else the models to measure (none: done).\<close>

definition selftest_begin :: "string \<Rightarrow> bool \<Rightarrow> externals \<Rightarrow> (nat \<times> string list) option option \<times> externals" where
  "selftest_begin name all e =
     (case map_of (ex_byName e) name of
        None \<Rightarrow> (None, e)
      | Some n \<Rightarrow>
          if en_testing n then (Some None, e)
          else
            (let todo = filter (\<lambda>m. all \<or> xc_Measured (en_cfg n) m = None) (en_discovered n)
             in if en_state n \<noteq> ExternalActive \<or> length todo = 0 then (Some (Some (en_gen n, [])), e)
                else (Some (Some (en_gen n, todo)),
                      e\<lparr>ex_byName := AList.update name (n\<lparr>en_testing := True\<rparr>) (ex_byName e)\<rparr>)))"

definition selftest_end :: "bool \<Rightarrow> string \<Rightarrow> nat \<Rightarrow> (string \<times> external_speed) list \<Rightarrow> externals \<Rightarrow> externals" where
  "selftest_end save_ok name gen results e =
     (case map_of (ex_byName e) name of
        None \<Rightarrow> e
      | Some n \<Rightarrow>
          if en_gen n \<noteq> gen then e
          else
            (let n = n\<lparr>en_testing := False,
                       en_cfg := (en_cfg n)\<lparr>xc_Measured := foldl (\<lambda>f (m, s). f(m \<mapsto> s)) (xc_Measured (en_cfg n)) results\<rparr>\<rparr>
             in ext_save save_ok (e\<lparr>ex_byName := AList.update name n (ex_byName e)\<rparr>)))"

text \<open>The speed \<open>measure\<close> computes from an answer: timings first, else tokens over elapsed time.\<close>

definition measured_speed :: "go_time \<Rightarrow> (real \<times> real) option \<Rightarrow> int option \<Rightarrow> real \<Rightarrow> external_speed" where
  "measured_speed now timings usage elapsed =
     (let sp = \<lparr>xs_GenTPS = 0, xs_PromptTPS = 0, xs_At = now, xs_Error = ''''\<rparr>
      in case timings of
           Some (prompt, pred) \<Rightarrow>
             if pred > 0 then sp\<lparr>xs_GenTPS := pred, xs_PromptTPS := prompt\<rparr>
             else (case usage of
                     Some c \<Rightarrow> if c = 0 \<or> elapsed \<le> 0 then sp\<lparr>xs_Error := ''response has no usage or timings''\<rparr>
                               else sp\<lparr>xs_GenTPS := of_int c / elapsed\<rparr>
                   | None \<Rightarrow> sp\<lparr>xs_Error := ''response has no usage or timings''\<rparr>)
         | None \<Rightarrow>
             (case usage of
                Some c \<Rightarrow> if c = 0 \<or> elapsed \<le> 0 then sp\<lparr>xs_Error := ''response has no usage or timings''\<rparr>
                          else sp\<lparr>xs_GenTPS := of_int c / elapsed\<rparr>
              | None \<Rightarrow> sp\<lparr>xs_Error := ''response has no usage or timings''\<rparr>))"

subsection \<open>The admin handler that adds a node\<close>

definition adminSetExternal ::
  "(string \<Rightarrow> url_parts option) \<Rightarrow> bool \<Rightarrow> registry \<Rightarrow> string \<Rightarrow> external_spec \<Rightarrow> externals \<Rightarrow>
   (ext_error + bool) \<times> externals" where
  "adminSetExternal purl save_ok r name spec e =
     (if \<not> validAlias name then (Inl ErrExternalName, e)
      else if snd (Registry.Lookup r name) then (Inl ErrExternalTaken, e)
      else case normExternalSpec purl spec of
             Inl err \<Rightarrow> (Inl err, e)
           | Inr spec \<Rightarrow>
               (let (created, e) = ext_put save_ok name spec e
                in if save_ok then (Inr created, e) else (Inl ErrSave, e)))"

subsection \<open>Runs and their invariant\<close>

text \<open>Polls that have begun and not ended are part of the state.\<close>

type_synonym polls = "(string \<times> nat \<times> external_config) list"

inductive ext_step :: "externals \<times> polls \<Rightarrow> externals \<times> polls \<Rightarrow> bool" where
  ext_put: "normExternalSpec purl spec0 = Inr spec \<Longrightarrow> validAlias name \<Longrightarrow>
      ext_step (e, ps) (snd (ext_put ok name spec e), ps)"
| ext_remove: "ext_step (e, ps) (snd (ext_remove ok name e), ps)"
| ext_drain: "ext_step (e, ps) (snd (ext_setDrained name d e), ps)"
| ext_poll: "poll_begin name e = Some p \<Longrightarrow> ext_step (e, ps) (e, (name, p) # ps)"
| ext_polled: "(name, p) \<in> set ps \<Longrightarrow> ext_step (e, ps) (poll_end now name p answer e, ps)"
| ext_test: "ext_step (e, ps) (snd (selftest_begin name all e), ps)"
| ext_tested: "ext_step (e, ps) (selftest_end ok name gen results e, ps)"

inductive_cases ext_stepE: "ext_step s s'"

definition ext_node_ok :: "nat \<Rightarrow> string \<Rightarrow> ext_node \<Rightarrow> bool" where
  "ext_node_ok nxt name n \<longleftrightarrow> xc_Name (en_cfg n) = name \<and> (en_state n = ExternalActive \<or> en_state n = ExternalOffline) \<and>
     (en_state n = ExternalActive \<longrightarrow> en_fails n < externalFailsOffline) \<and> en_gen n < nxt \<and> xc_MaxConcurrency (en_cfg n) \<ge> 1 \<and>
     (xc_Models (en_cfg n) \<noteq> [] \<longrightarrow> set (en_discovered n) \<subseteq> set (xc_Models (en_cfg n)))"

definition ext_inv :: "externals \<times> polls \<Rightarrow> bool" where
  "ext_inv s \<longleftrightarrow> (let (e, ps) = s in
     distinct (keys_of (ex_byName e)) \<and> (\<forall>name n. map_of (ex_byName e) name = Some n \<longrightarrow> ext_node_ok (ex_next e) name n) \<and>
     (\<forall>(name, g, c) \<in> set ps. g < ex_next e \<and>
        (\<forall>n. map_of (ex_byName e) name = Some n \<longrightarrow> en_gen n = g \<longrightarrow> xc_Models (en_cfg n) = xc_Models c)))"

lemma filterModels_subset: "allow \<noteq> [] \<Longrightarrow> set (filterModels d allow) \<subseteq> set allow"
  by (auto simp: filterModels_def)

lemma ext_save_simps [simp]:
  "ex_byName (ext_save ok e) = ex_byName e" "ex_next (ext_save ok e) = ex_next e" "ex_log (ext_save ok e) = ex_log e"
  by (simp_all add: ext_save_def)

text \<open>Replacing a node by one of the same generation and allowlist.\<close>

lemma ext_inv_update:
  assumes "ext_inv (e, ps)" "map_of (ex_byName e) name = Some n" "ext_node_ok (ex_next e) name n'"
    and "en_gen n' = en_gen n" "xc_Models (en_cfg n') = xc_Models (en_cfg n)"
    and "ex_byName e' = AList.update name n' (ex_byName e)" "ex_next e' = ex_next e"
  shows "ext_inv (e', ps)"
  using assms by (fastforce simp: ext_inv_def distinct_update update_conv' split: if_splits)

lemma ext_setState_simps [simp]:
  "ex_byName (ext_setState n to e) = AList.update (xc_Name (en_cfg n)) (n\<lparr>en_state := to\<rparr>) (ex_byName e)"
  "ex_next (ext_setState n to e) = ex_next e"
  by (auto simp: ext_setState_def Let_def)

lemma ext_inv_poll_end:
  assumes inv: "ext_inv (e, ps)" and p: "(name, p) \<in> set ps"
  shows "ext_inv (poll_end now name p answer e, ps)"
proof (cases "map_of (ex_byName e) name")
  case None
  with inv show ?thesis by (simp add: poll_end_def)
next
  case (Some n)
  have ok: "ext_node_ok (ex_next e) name n" using inv Some by (simp add: ext_inv_def)
  show ?thesis
  proof (cases "en_gen n = fst p")
    case False
    with Some inv show ?thesis by (simp add: poll_end_def)
  next
    case True
    with inv p Some have allow: "xc_Models (en_cfg n) = xc_Models (snd p)" by (cases p) (auto simp: ext_inv_def)
    show ?thesis
    proof (cases answer)
      case (Inl err)
      let ?n = "n\<lparr>en_lastCheck := now, en_fails := Suc (en_fails n), en_lastErr := err\<rparr>"
      show ?thesis
      proof (cases "Suc (en_fails n) \<ge> externalFailsOffline \<or> en_state n \<noteq> ExternalActive")
        case True
        show ?thesis
          using ok Inl Some \<open>en_gen n = fst p\<close> True
          by (intro ext_inv_update [OF inv Some, where n' = "?n\<lparr>en_state := ExternalOffline\<rparr>"])
            (auto simp: poll_end_def ext_node_ok_def Let_def)
      next
        case False
        then show ?thesis
          using ok Inl Some \<open>en_gen n = fst p\<close>
          by (intro ext_inv_update [OF inv Some, where n' = ?n]) (auto simp: poll_end_def ext_node_ok_def Let_def)
      qed
    next
      case (Inr raw)
      let ?disc = "filterModels (list_ids raw) (xc_Models (snd p))"
      let ?n = "n\<lparr>en_lastCheck := now, en_fails := 0, en_lastErr := '''', en_discovered := ?disc, en_state := ExternalActive\<rparr>"
      have "poll_end now name p answer e = ext_setState (?n\<lparr>en_state := en_state n\<rparr>) ExternalActive e"
        using Inr Some True by (auto simp: poll_end_def Let_def)
      then show ?thesis
        using ok filterModels_subset [of "xc_Models (snd p)" "list_ids raw"] allow
        by (intro ext_inv_update [OF inv Some, where n' = ?n]) (auto simp: ext_node_ok_def externalFailsOffline_def)
    qed
  qed
qed

lemma ext_inv_put:
  assumes inv: "ext_inv (e, ps)" and spec: "normExternalSpec purl spec0 = Inr spec"
  shows "ext_inv (snd (ext_put ok name spec e), ps)"
proof -
  have conc: "es_MaxConcurrency spec \<ge> 1"
    using spec by (auto simp: normExternalSpec_def Let_def split: sum.splits if_splits option.splits)
  define n where "n = put_node name spec (map_of (ex_byName e) name) (ex_next e)"
  have n: "ex_byName (snd (ext_put ok name spec e)) = AList.update name n (ex_byName e)"
    "ex_next (snd (ext_put ok name spec e)) = Suc (ex_next e)" "en_gen n = ex_next e"
    by (auto simp: ext_put_def Let_def n_def put_node_def split: option.splits)
  have nok: "ext_node_ok (Suc (ex_next e)) name n"
  proof (cases "map_of (ex_byName e) name")
    case None
    with conc show ?thesis by (simp add: n_def put_node_def Let_def ext_node_ok_def)
  next
    case (Some n')
    then have "ext_node_ok (ex_next e) name n'" using inv by (simp add: ext_inv_def)
    with Some conc filterModels_subset [of "es_Models spec"] show ?thesis
      by (auto simp: n_def put_node_def Let_def ext_node_ok_def)
  qed
  have old: "ext_node_ok (Suc (ex_next e)) name' n'" if "ext_node_ok (ex_next e) name' n'" for name' n'
    using that by (auto simp: ext_node_ok_def)
  show ?thesis
    using inv n nok old unfolding ext_inv_def by (fastforce simp: distinct_update update_conv' split: if_splits)
qed

lemma ext_inv_step:
  assumes "ext_step s s'" "ext_inv s"
  shows "ext_inv s'"
  using assms
proof (cases rule: ext_step.cases)
  case (ext_put purl spec0 spec name e ps ok)
  with assms ext_inv_put show ?thesis by simp
next
  case (ext_remove e ps ok name)
  with assms show ?thesis
    by (auto simp: ext_remove_def ext_inv_def distinct_delete dest!: subsetD [OF set_delete_subset] split: if_splits)
next
  case (ext_drain e ps name d)
  show ?thesis
  proof (cases "map_of (ex_byName e) name")
    case None
    with ext_drain assms show ?thesis by (simp add: ext_setDrained_def)
  next
    case (Some n)
    have inv: "ext_inv (e, ps)" using ext_drain assms by simp
    then have "ext_node_ok (ex_next e) name n" using Some by (simp add: ext_inv_def)
    then have "ext_inv (e\<lparr>ex_byName := AList.update name (n\<lparr>en_drained := d\<rparr>) (ex_byName e)\<rparr>, ps)"
      by (intro ext_inv_update [OF inv Some, where n' = "n\<lparr>en_drained := d\<rparr>"]) (auto simp: ext_node_ok_def)
    with ext_drain Some show ?thesis by (simp add: ext_setDrained_def)
  qed
next
  case (ext_poll name e p ps)
  then obtain n where n: "map_of (ex_byName e) name = Some n" "p = (en_gen n, en_cfg n)" by (auto simp: poll_begin_def)
  have inv: "ext_inv (e, ps)" using ext_poll assms by simp
  then have "en_gen n < ex_next e" using n(1) by (simp add: ext_inv_def ext_node_ok_def)
  with inv have "ext_inv (e, (name, en_gen n, en_cfg n) # ps)" by (simp add: ext_inv_def n(1) del: map_of_eq_Some_iff)
  with ext_poll n(2) show ?thesis by simp
next
  case (ext_polled name p ps e now answer)
  with assms ext_inv_poll_end show ?thesis by simp
next
  case (ext_test e ps name all)
  show ?thesis
  proof (cases "map_of (ex_byName e) name")
    case None
    with ext_test assms show ?thesis by (simp add: selftest_begin_def)
  next
    case (Some n)
    have inv: "ext_inv (e, ps)" using ext_test assms by simp
    then have "ext_node_ok (ex_next e) name n" using Some by (simp add: ext_inv_def)
    then have "ext_inv (e\<lparr>ex_byName := AList.update name (n\<lparr>en_testing := True\<rparr>) (ex_byName e)\<rparr>, ps)"
      by (intro ext_inv_update [OF inv Some, where n' = "n\<lparr>en_testing := True\<rparr>"]) (auto simp: ext_node_ok_def)
    with ext_test inv Some show ?thesis by (simp add: selftest_begin_def Let_def)
  qed
next
  case (ext_tested e ps ok name gen results)
  show ?thesis
  proof (cases "map_of (ex_byName e) name")
    case None
    with ext_tested assms show ?thesis by (simp add: selftest_end_def)
  next
    case (Some n)
    have inv: "ext_inv (e, ps)" using ext_tested assms by simp
    then have ok: "ext_node_ok (ex_next e) name n" using Some by (simp add: ext_inv_def)
    show ?thesis
    proof (cases "en_gen n = gen")
      case False
      with ext_tested assms Some show ?thesis by (simp add: selftest_end_def)
    next
      case True
      define cfg where "cfg = (en_cfg n)\<lparr>xc_Measured := foldl (\<lambda>f (m, s). f(m \<mapsto> s)) (xc_Measured (en_cfg n)) results\<rparr>"
      have "ext_inv (selftest_end ok name gen results e, ps)"
        using ok Some True
        by (intro ext_inv_update [OF inv Some, where n' = "n\<lparr>en_testing := False, en_cfg := cfg\<rparr>"])
          (auto simp: selftest_end_def Let_def ext_node_ok_def cfg_def)
      with ext_tested show ?thesis by simp
    qed
  qed
qed

definition ext_reachable :: "externals \<Rightarrow> bool" where
  "ext_reachable e \<longleftrightarrow> (\<exists>state ps. distinct (map xc_Name state) \<and> ext_step\<^sup>*\<^sup>* (newExternals state, []) (e, ps))"

lemma ext_inv_new: "ext_inv (newExternals state, [])"
proof -
  let ?step = "\<lambda>e c. let c = (if xc_MaxConcurrency c \<le> 0 then c\<lparr>xc_MaxConcurrency := 1\<rparr> else c)
                  in e\<lparr>ex_byName := AList.update (xc_Name c)
                         \<lparr>en_cfg = c, en_state = ExternalOffline, en_lastCheck = 0, en_lastErr = '''', en_fails = 0,
                          en_discovered = [], en_drained = False, en_testing = False, en_gen = ex_next e\<rparr> (ex_byName e),
                       ex_next := Suc (ex_next e)\<rparr>"
  have mono: "ext_node_ok nxt name n \<Longrightarrow> ext_node_ok (Suc nxt) name n" for nxt name n by (auto simp: ext_node_ok_def)
  have "distinct (keys_of (ex_byName (newExternals state))) \<and>
      (\<forall>name n. map_of (ex_byName (newExternals state)) name = Some n \<longrightarrow> ext_node_ok (ex_next (newExternals state)) name n)"
    unfolding newExternals_def
  proof (rule foldl_invariant [where I = "\<lambda>e. distinct (keys_of (ex_byName e)) \<and>
      (\<forall>name n. map_of (ex_byName e) name = Some n \<longrightarrow> ext_node_ok (ex_next e) name n)"])
    fix e :: externals and c
    assume "distinct (keys_of (ex_byName e)) \<and> (\<forall>name n. map_of (ex_byName e) name = Some n \<longrightarrow> ext_node_ok (ex_next e) name n)"
    then show "distinct (keys_of (ex_byName (?step e c))) \<and>
      (\<forall>name n. map_of (ex_byName (?step e c)) name = Some n \<longrightarrow> ext_node_ok (ex_next (?step e c)) name n)"
      using mono by (auto simp: Let_def distinct_update update_conv' split: if_splits) (auto simp: ext_node_ok_def)
  qed simp
  then show ?thesis by (simp add: ext_inv_def)
qed

lemma ext_reachable_inv: "ext_reachable e \<Longrightarrow> \<exists>ps. ext_inv (e, ps)"
proof -
  assume "ext_reachable e"
  then obtain state ps where run: "ext_step\<^sup>*\<^sup>* (newExternals state, []) (e, ps)" by (auto simp: ext_reachable_def)
  have "ext_inv (e, ps)"
    using run by (induction rule: rtranclp_induct) (auto intro: ext_inv_new ext_inv_step)
  then show ?thesis ..
qed

lemma set_sorted_nodes: "n \<in> set (sorted_nodes e) \<longleftrightarrow> n \<in> snd ` set (ex_byName e)"
  by (simp add: sorted_nodes_def)

text \<open>
  C11. However polls, self-tests, changes and removals interleave, every backend the gateway
  gets for an external node is that of a stored, ACTIVE node that failed fewer than three
  polls in a row, for a model its allowlist permits, with a concurrency limit, flagged
  external, and never routed automatically when its role is orchestrator.
\<close>

theorem external_backends_sound:
  assumes "ext_reachable e" "b \<in> set (ext_backends e)"
  shows "\<exists>name n. map_of (ex_byName e) name = Some n \<and> b_NodeID b = ExternalPrefix @ name \<and> b_Alias b = name \<and>
    en_state n = ExternalActive \<and> en_fails n < 3 \<and> b_Model b \<in> set (en_discovered n) \<and>
    (xc_Models (en_cfg n) \<noteq> [] \<longrightarrow> b_Model b \<in> set (xc_Models (en_cfg n))) \<and>
    b_MaxConcurrency b \<ge> 1 \<and> b_External b \<and> b_Drained b = en_drained n \<and>
    (xc_Role (en_cfg n) = ExternalRoleOrchestrator \<longrightarrow> (\<forall>t. t_Node t \<noteq> b_NodeID b \<longrightarrow> \<not> allows t b))"
proof -
  obtain ps where inv: "ext_inv (e, ps)" using ext_reachable_inv [OF assms(1)] by blast
  obtain n where n: "n \<in> snd ` set (ex_byName e)" "b \<in> set (ext_node_backends n)"
    using assms(2) by (auto simp: ext_backends_def set_sorted_nodes)
  then obtain name where name: "(name, n) \<in> set (ex_byName e)" by auto
  have "map_of (ex_byName e) name = Some n" using inv name by (simp add: ext_inv_def)
  moreover from this inv have "ext_node_ok (ex_next e) name n" by (simp add: ext_inv_def)
  ultimately show ?thesis
    using n(2) by (intro exI [of _ name] exI [of _ n])
      (auto simp: ext_node_backends_def ext_node_ok_def externalFailsOffline_def allows_def split: if_splits)
qed

text \<open>Consecutive polls of the same node with the answers given.\<close>

fun poll_many :: "string \<Rightarrow> externals \<Rightarrow> (go_time \<times> (string + string list)) list \<Rightarrow> externals" where
  "poll_many name e [] = e"
| "poll_many name e ((now, answer) # as) =
     (case poll_begin name e of None \<Rightarrow> e | Some p \<Rightarrow> poll_many name (poll_end now name p answer e) as)"

lemma poll_fail:
  assumes "map_of (ex_byName e) name = Some n" "xc_Name (en_cfg n) = name" "answer = Inl err"
    and "en_state n = ExternalActive \<or> en_state n = ExternalOffline"
  shows "\<exists>n'. poll_begin name e = Some (en_gen n, en_cfg n) \<and>
    map_of (ex_byName (poll_end now name (en_gen n, en_cfg n) answer e)) name = Some n' \<and> xc_Name (en_cfg n') = name \<and>
    en_fails n' = Suc (en_fails n) \<and>
    en_state n' = (if Suc (en_fails n) \<ge> 3 then ExternalOffline else en_state n)"
  using assms by (auto simp: poll_begin_def poll_end_def Let_def update_conv' externalFailsOffline_def)

lemma poll_fails:
  assumes "map_of (ex_byName e) name = Some n" "xc_Name (en_cfg n) = name" "\<forall>a \<in> set as. \<exists>err. snd a = Inl err"
    and "en_state n = ExternalActive \<or> en_state n = ExternalOffline"
  shows "\<exists>n'. map_of (ex_byName (poll_many name e as)) name = Some n' \<and> xc_Name (en_cfg n') = name \<and>
    en_fails n' = en_fails n + length as \<and>
    en_state n' = (if as \<noteq> [] \<and> en_fails n + length as \<ge> 3 then ExternalOffline else en_state n)"
  using assms
proof (induction as arbitrary: e n)
  case (Cons a as)
  obtain now answer where a: "a = (now, answer)" by (cases a)
  then obtain err where "answer = Inl err" using Cons.prems(3) by auto
  from poll_fail [OF Cons.prems(1,2) this Cons.prems(4), of now] obtain n' where n':
    "poll_begin name e = Some (en_gen n, en_cfg n)"
    "map_of (ex_byName (poll_end now name (en_gen n, en_cfg n) answer e)) name = Some n'" "xc_Name (en_cfg n') = name"
    "en_fails n' = Suc (en_fails n)" "en_state n' = (if Suc (en_fails n) \<ge> 3 then ExternalOffline else en_state n)" by blast
  have "en_state n' = ExternalActive \<or> en_state n' = ExternalOffline" using n'(5) Cons.prems(4) by auto
  from Cons.IH [OF n'(2,3) _ this] Cons.prems(3) n' show ?case by (auto simp: a)
qed auto

text \<open>
  An ACTIVE external node that answered its last poll goes OFFLINE exactly when three
  polls in a row have failed, and the next successful poll makes it ACTIVE again with the
  models the answer lists and the allowlist permits.
\<close>

theorem external_offline_after_three:
  assumes "ext_reachable e" "map_of (ex_byName e) name = Some n" "en_state n = ExternalActive" "en_fails n = 0"
    and "\<forall>a \<in> set as. \<exists>err. snd a = Inl err"
  shows "\<exists>n' n''. map_of (ex_byName (poll_many name e as)) name = Some n' \<and>
    en_state n' = (if length as \<ge> 3 then ExternalOffline else ExternalActive) \<and>
    map_of (ex_byName (poll_many name (poll_many name e as) [(now, Inr raw)])) name = Some n'' \<and>
    en_state n'' = ExternalActive \<and> en_fails n'' = 0 \<and> en_discovered n'' = filterModels (list_ids raw) (xc_Models (en_cfg n'))"
proof -
  obtain ps where "ext_inv (e, ps)" using ext_reachable_inv [OF assms(1)] by blast
  then have "xc_Name (en_cfg n) = name" using assms(2) by (auto simp: ext_inv_def ext_node_ok_def)
  from poll_fails [OF assms(2) this assms(5)] assms(3,4) obtain n' where n':
    "map_of (ex_byName (poll_many name e as)) name = Some n'" "xc_Name (en_cfg n') = name"
    "en_state n' = (if length as \<ge> 3 then ExternalOffline else ExternalActive)" by fastforce
  have "\<exists>n''. map_of (ex_byName (poll_many name (poll_many name e as) [(now, Inr raw)])) name = Some n'' \<and>
    en_state n'' = ExternalActive \<and> en_fails n'' = 0 \<and> en_discovered n'' = filterModels (list_ids raw) (xc_Models (en_cfg n'))"
  proof -
    have p: "poll_begin name (poll_many name e as) = Some (en_gen n', en_cfg n')" using n'(1) by (simp add: poll_begin_def)
    let ?n = "n'\<lparr>en_lastCheck := now, en_fails := 0, en_lastErr := '''',
      en_discovered := filterModels (list_ids raw) (xc_Models (en_cfg n')), en_state := ExternalActive\<rparr>"
    have "map_of (ex_byName (poll_end now name (en_gen n', en_cfg n') (Inr raw) (poll_many name e as))) name = Some ?n"
      using n'(1,2) by (simp add: poll_end_def Let_def update_conv')
    then show ?thesis by (simp add: p)
  qed
  with n' show ?thesis by blast
qed

subsection \<open>Examples\<close>

definition sample_ext_config :: external_config where
  "sample_ext_config = \<lparr>xc_Name = ''mac'', xc_URL = ''http://h'', xc_APIKey = '''', xc_Models = [], xc_MaxConcurrency = 0,
     xc_CtxSize = 0, xc_SpeedTPS = 0, xc_Measured = (\<lambda>_. None), xc_Role = ''''\<rparr>"

definition sample_externals :: externals where
  "sample_externals = poll_end 1 ''mac'' (0, sample_ext_config\<lparr>xc_MaxConcurrency := 1\<rparr>) (Inr [''m'']) (newExternals [sample_ext_config])"

lemma sample_ext_reachable: "ext_reachable sample_externals"
proof -
  let ?p = "(0 :: nat, sample_ext_config\<lparr>xc_MaxConcurrency := 1\<rparr>)" and ?e = "newExternals [sample_ext_config]"
  have "ext_step (?e, []) (?e, [(''mac'', ?p)])"
    by (rule ext_poll) (simp add: poll_begin_def newExternals_def sample_ext_config_def Let_def)
  moreover have "ext_step (?e, [(''mac'', ?p)]) (sample_externals, [(''mac'', ?p)])"
    unfolding sample_externals_def by (rule ext_polled) simp
  ultimately have "ext_step\<^sup>*\<^sup>* (?e, []) (sample_externals, [(''mac'', ?p)])" by (blast intro: rtranclp.rtrancl_into_rtrancl)
  moreover have "distinct (map xc_Name [sample_ext_config])" by simp
  ultimately show ?thesis unfolding ext_reachable_def by blast
qed

lemmas sample_ext_defs = sample_externals_def poll_end_def newExternals_def sample_ext_config_def Let_def filterModels_def
  list_ids_def ext_setState_def

theorem external_backends_sound_witness:
  "map b_NodeID (ext_backends sample_externals) = [''ext:mac''] \<and> list_all (\<lambda>b. b_MaxConcurrency b \<ge> 1) (ext_backends sample_externals)"
proof -
  have "map b_NodeID (ext_backends sample_externals) = [''ext:mac'']"
    by (simp add: ext_backends_def sorted_nodes_def ext_node_backends_def sample_ext_defs)
  with external_backends_sound [OF sample_ext_reachable] show ?thesis unfolding list_all_iff by blast
qed

theorem external_offline_after_three_witness:
  "\<exists>n. map_of (ex_byName (poll_many ''mac'' sample_externals [(2, Inl ''x''), (3, Inl ''x''), (4, Inl ''x'')])) ''mac'' = Some n \<and>
     en_state n = ExternalOffline"
proof -
  obtain n where n: "map_of (ex_byName sample_externals) ''mac'' = Some n" "en_state n = ExternalActive" "en_fails n = 0"
    by (simp add: sample_ext_defs)
  from external_offline_after_three [OF sample_ext_reachable n, of "[(2, Inl ''x''), (3, Inl ''x''), (4, Inl ''x'')]"]
  show ?thesis by auto
qed

end
