(* ===== verification/Pools.thy ===== *)
theory Pools
  imports External Planner Gateway
begin

text \<open>
  Virtual models (\<^verbatim>\<open>controller/pools.go\<close>): pool definitions and their validation, the
  eligibility of nodes and external engines, pool status, conflicts between pools, and the
  resolver of \<open>pool/...\<close> and \<open>node/...\<close> names that the gateway calls.  The members of a Big
  Brain pool (\<^verbatim>\<open>controller/bigbrain.go\<close>) are here as well; its head is not.
\<close>

abbreviation "RoutingSpread \<equiv> ''spread''"
abbreviation "RoutingAffinity \<equiv> ''affinity''"
abbreviation "RoutingSuperborg \<equiv> ''superborg''"
abbreviation "RoutingBigBrain \<equiv> ''bigbrain''"
abbreviation "PoolReady \<equiv> ''ready''"
abbreviation "PoolNoReadyNode \<equiv> ''no ready node''"
abbreviation "PoolDisabled \<equiv> ''disabled''"
abbreviation "ReasonNotMember \<equiv> ''not a member''"
abbreviation "ReasonClass \<equiv> ''class not allowed''"
abbreviation "ReasonDrained \<equiv> ''drained''"
abbreviation "ReasonHot \<equiv> ''hot''"
abbreviation "ReasonSwitching \<equiv> ''switching''"
abbreviation "ReasonNotReady \<equiv> ''not ready''"
abbreviation "ReasonModel \<equiv> ''model not allowed''"
abbreviation "ReasonBelowMinTPS \<equiv> ''below min_gen_tps''"
abbreviation "ReasonOrchestratorOnly \<equiv> ''orchestrator only''"
abbreviation "ReasonNotRPC \<equiv> ''not in rpc mode''"
abbreviation "poolPrefix \<equiv> ''pool/''"
abbreviation "nodePrefix \<equiv> ''node/''"
abbreviation "BigBrainPreparing \<equiv> ''preparing''"
abbreviation "BigBrainReady \<equiv> ''ready''"
abbreviation "BigBrainStopped \<equiv> ''stopped''"

record pool_member =
  pm_NodeID :: node_id
  pm_Alias :: string
  pm_Model :: string
  pm_Eligible :: bool
  pm_Reason :: string

record bigbrain_status =
  bbs_State :: string
  bbs_Reason :: string
  bbs_NeedBytes :: int
  bbs_HaveBytes :: int
  bbs_TensorSplit :: "int list"
  bbs_Port :: int
  bbs_LoadStartedAt :: "go_time option"
  bbs_LoadSeconds :: go_duration
  bbs_GenTPS :: real
  bbs_PromptTPS :: real
  bbs_Restarts :: int

record pool =
  pl_Name :: string
  pl_Description :: string
  pl_Models :: "string list"
  pl_Nodes :: "string list"
  pl_Classes :: "string list"
  pl_MinGenTPS :: real
  pl_Routing :: string
  pl_Orchestrator :: string
  pl_Thinking :: bool
  pl_Model :: string
  pl_CtxSize :: int
  pl_Disabled :: bool
  pl_ActiveOrchestrator :: string
  pl_Status :: string
  pl_StatusReason :: string
  pl_Members :: "pool_member list"
  pl_BigBrain :: "bigbrain_status option"

datatype pool_error =
    BadPoolName
  | EmptyEntry string
  | UnknownPoolClass string
  | NegativeMinTPS
  | BBNeedsModel
  | BBNeedsNodes
  | BBNoFilters
  | BBCtxSize
  | BadRouting
  | ModelNotInCatalog string
  | Conflict string string string
  | UnknownPool
  | SaveFailed
  | AliasError reg_error

subsection \<open>Validation\<close>

definition clean_field :: "string \<Rightarrow> string list \<Rightarrow> pool_error + string list" where
  "clean_field field vs = (case clean_list [] vs of None \<Rightarrow> Inl (EmptyEntry field) | Some out \<Rightarrow> Inr out)"

definition bad_class :: "string list \<Rightarrow> string option" where
  "bad_class cs = find (\<lambda>c. \<not> IsClass c) cs"

definition norm_routing :: "pool \<Rightarrow> pool_error + pool" where
  "norm_routing p =
     (if pl_Routing p = '''' then Inr (p\<lparr>pl_Routing := RoutingSpread\<rparr>)
      else if pl_Routing p \<in> {RoutingSpread, RoutingAffinity, RoutingSuperborg} then Inr p
      else if pl_Routing p = RoutingBigBrain then
        (let p = p\<lparr>pl_Model := trim_space (pl_Model p)\<rparr>
         in if pl_Model p = '''' then Inl BBNeedsModel
            else if length (pl_Nodes p) < 2 then Inl BBNeedsNodes
            else if length (pl_Models p) > 0 \<or> length (pl_Classes p) > 0 \<or> pl_MinGenTPS p > 0 then Inl BBNoFilters
            else if pl_CtxSize p \<noteq> 0 \<and> (pl_CtxSize p < 512 \<or> pl_CtxSize p > 131072) then Inl BBCtxSize
            else Inr p)
      else Inl BadRouting)"

definition normPool :: "pool \<Rightarrow> pool_error + pool" where
  "normPool p =
     (let p = p\<lparr>pl_Members := [], pl_ActiveOrchestrator := '''', pl_Status := '''', pl_StatusReason := '''', pl_BigBrain := None\<rparr>;
          p = p\<lparr>pl_Orchestrator := trim_space (pl_Orchestrator p)\<rparr>
      in if \<not> name_re (pl_Name p) then Inl BadPoolName
         else case clean_field ''models'' (pl_Models p) of
                Inl err \<Rightarrow> Inl err
              | Inr ms \<Rightarrow>
                  (case clean_field ''nodes'' (pl_Nodes p) of
                     Inl err \<Rightarrow> Inl err
                   | Inr ns \<Rightarrow>
                       (case clean_field ''classes'' (pl_Classes p) of
                          Inl err \<Rightarrow> Inl err
                        | Inr cs \<Rightarrow>
                            (let p = p\<lparr>pl_Models := ms, pl_Nodes := ns, pl_Classes := cs\<rparr>
                             in case bad_class cs of
                                  Some c \<Rightarrow> Inl (UnknownPoolClass c)
                                | None \<Rightarrow> if pl_MinGenTPS p < 0 then Inl NegativeMinTPS else norm_routing p))))"

subsection \<open>Eligibility\<close>

text \<open>Why a node cannot take new pool requests right now; \<open>""\<close> if it can.\<close>

definition too_hot :: "real \<Rightarrow> heartbeat \<Rightarrow> bool" where
  "too_hot limit hb \<longleftrightarrow> limit > 0 \<and> (case hb_TemperatureC hb of None \<Rightarrow> False | Some t \<Rightarrow> t \<ge> limit)"

definition nodeReason :: "node \<Rightarrow> bool \<Rightarrow> real \<Rightarrow> string" where
  "nodeReason n drained limit =
     (if drained then ReasonDrained
      else case nd_LastHeartbeat n of
             None \<Rightarrow> ReasonNotReady
           | Some hb \<Rightarrow>
               (case hb_Runtime hb of
                  None \<Rightarrow> ReasonNotReady
                | Some rt \<Rightarrow>
                    if switching rt then ReasonSwitching
                    else if nd_State n \<noteq> StateActive \<or> \<not> rt_Ready rt \<or> rt_AdvertisePort rt = 0 then ReasonNotReady
                    else if too_hot limit hb then ReasonHot
                    else ''''))"

definition node_runtime :: "node \<Rightarrow> runtime_status option" where
  "node_runtime n = (case nd_LastHeartbeat n of None \<Rightarrow> None | Some hb \<Rightarrow> hb_Runtime hb)"

definition member_of :: "pool \<Rightarrow> node_id \<Rightarrow> string \<Rightarrow> bool" where
  "member_of p i alias \<longleftrightarrow>
     \<not> (length (pl_Nodes p) > 0 \<and> i \<notin> set (pl_Nodes p) \<and> (alias = '''' \<or> alias \<notin> set (pl_Nodes p)))"

text \<open>A reason of \<open>""\<close> implies a runtime, so \<open>rt.Model\<close> and \<open>rt.GenTPS\<close> are defined when read.\<close>

definition member_reason :: "pool \<Rightarrow> (node_id \<Rightarrow> bool) \<Rightarrow> real \<Rightarrow> node \<Rightarrow> string" where
  "member_reason p drained limit n =
     (let rt = the (node_runtime n);
          reason = (if \<not> member_of p (nd_ID n) (nd_Alias n) then ReasonNotMember
                    else if length (pl_Classes p) > 0 \<and> ClassOf (inv_RAMTotalBytes (nd_Inventory n)) \<notin> set (pl_Classes p) then ReasonClass
                    else nodeReason n (drained (nd_ID n)) limit);
          reason = (if reason = '''' \<and> length (pl_Models p) > 0 \<and> rt_Model rt \<notin> set (pl_Models p) then ReasonModel else reason)
      in if reason = '''' \<and> pl_MinGenTPS p > 0 \<and> rt_GenTPS rt < pl_MinGenTPS p then ReasonBelowMinTPS else reason)"

definition poolMembers :: "pool \<Rightarrow> node list \<Rightarrow> (node_id \<Rightarrow> bool) \<Rightarrow> real \<Rightarrow> pool_member list" where
  "poolMembers p nodes drained limit =
     map (\<lambda>n. let reason = member_reason p drained limit n
              in \<lparr>pm_NodeID = nd_ID n, pm_Alias = nd_Alias n,
                  pm_Model = (case node_runtime n of None \<Rightarrow> '''' | Some rt \<Rightarrow> rt_Model rt),
                  pm_Eligible = (reason = ''''), pm_Reason = reason\<rparr>) nodes"

definition ext_member_reason :: "pool \<Rightarrow> external \<Rightarrow> string \<Rightarrow> string" where
  "ext_member_reason p x model =
     (let speed = (if x_SpeedTPS x = 0 then measured_tps (x_Measured x) model else x_SpeedTPS x)
      in if length (pl_Nodes p) > 0 \<and> x_NodeID x \<notin> set (pl_Nodes p) \<and> x_Name x \<notin> set (pl_Nodes p) then ReasonNotMember
         else if x_Role x = ExternalRoleOrchestrator then ReasonOrchestratorOnly
         else if length (pl_Classes p) > 0 then ReasonClass
         else if x_Drained x then ReasonDrained
         else if x_State x \<noteq> ExternalActive \<or> model = '''' then ReasonNotReady
         else if length (pl_Models p) > 0 \<and> model \<notin> set (pl_Models p) then ReasonModel
         else if pl_MinGenTPS p > 0 \<and> speed < pl_MinGenTPS p then ReasonBelowMinTPS
         else '''')"

definition externalMembers :: "pool \<Rightarrow> external list \<Rightarrow> pool_member list" where
  "externalMembers p exts =
     concat (map (\<lambda>x. map (\<lambda>model. let reason = ext_member_reason p x model
                                    in \<lparr>pm_NodeID = x_NodeID x, pm_Alias = x_Name x, pm_Model = model,
                                        pm_Eligible = (reason = ''''), pm_Reason = reason\<rparr>)
                        (if length (x_DiscoveredModels x) = 0 then [''''] else x_DiscoveredModels x)) exts)"

subsection \<open>Big Brain members\<close>

definition runtimeState :: "runtime_status option \<Rightarrow> string" where
  "runtimeState rt =
     (case rt of
        None \<Rightarrow> ''idle''
      | Some rt \<Rightarrow> if rt_State rt \<noteq> '''' then rt_State rt else if rt_Ready rt then ''serving'' else ''loading'')"

record bigbrain_member =
  bm_name :: string
  bm_id :: node_id
  bm_rpcAddr :: string
  bm_state :: string
  bm_freeRAM :: nat
  bm_excluded :: string
  bm_stale :: string

definition state_name :: "node_state \<Rightarrow> string" where
  "state_name s = (case s of NoState \<Rightarrow> '''' | StateBenchmarking \<Rightarrow> ''benchmarking'' | StateActive \<Rightarrow> ''active''
     | StateSuspect \<Rightarrow> ''suspect'' | StateOffline \<Rightarrow> ''offline'')"

definition bigBrainMember :: "registry \<Rightarrow> string \<Rightarrow> string \<Rightarrow> bigbrain_member" where
  "bigBrainMember r host name =
     (let m = \<lparr>bm_name = name, bm_id = '''', bm_rpcAddr = '''', bm_state = '''', bm_freeRAM = 0, bm_excluded = '''', bm_stale = ''''\<rparr>;
          (nodes, drained) = View r;
          (i, ok) = Registry.Lookup r name;
          i = (if ok then i else name)
      in case find (\<lambda>n. nd_ID n = i) nodes of
           None \<Rightarrow> m\<lparr>bm_excluded := ''not connected''\<rparr>
         | Some n \<Rightarrow>
             (let m = m\<lparr>bm_id := i, bm_freeRAM := (case nd_LastHeartbeat n of None \<Rightarrow> 0 | Some hb \<Rightarrow> hb_RAMAvailBytes hb),
                        bm_state := runtimeState (node_runtime n),
                        bm_stale := (if nd_State n \<noteq> StateActive then state_name (nd_State n) else '''')\<rparr>
              in if drained i then m\<lparr>bm_excluded := ReasonDrained\<rparr>
                 else case node_runtime n of
                        None \<Rightarrow> m
                      | Some rt \<Rightarrow>
                          if rt_State rt = ModeRPC \<and> rt_AdvertisePort rt \<noteq> 0 then
                            m\<lparr>bm_rpcAddr := (if rt_AdvertiseHost rt = '''' then host else rt_AdvertiseHost rt) @ '':'' @ itoa (rt_AdvertisePort rt)\<rparr>
                          else m))"

definition bigBrainMembers :: "registry \<Rightarrow> string \<Rightarrow> pool \<Rightarrow> bigbrain_member list" where
  "bigBrainMembers r host p = map (bigBrainMember r host) (pl_Nodes p)"

definition bigBrainPoolMembers :: "registry \<Rightarrow> string \<Rightarrow> pool \<Rightarrow> pool_member list" where
  "bigBrainPoolMembers r host p =
     map (\<lambda>mb.
       let reason = (if bm_id mb = '''' then bm_excluded mb
                     else if bm_excluded mb \<noteq> '''' then bm_excluded mb
                     else if bm_rpcAddr mb = '''' then ReasonNotRPC @ '' ('' @ bm_state mb @ '')''
                     else bm_stale mb)
       in \<lparr>pm_NodeID = (if bm_id mb = '''' then bm_name mb else bm_id mb), pm_Alias = alias_of r (bm_id mb), pm_Model = pl_Model p,
           pm_Eligible = (reason = ''''), pm_Reason = reason\<rparr>) (bigBrainMembers r host p)"

definition bigBrainReserve :: int where
  "bigBrainReserve = 900 * 2 ^ 20"

text \<open>Usable memory in total, and per member in MiB.\<close>

definition bigBrainSplit :: "bigbrain_member list \<Rightarrow> int \<times> int list" where
  "bigBrainSplit members =
     (let us = map (\<lambda>m. max (int (bm_freeRAM m) - bigBrainReserve) 0) members
      in (sum_list us, map (\<lambda>u. u div 2 ^ 20) us))"

definition bigBrainNodeID :: "string \<Rightarrow> node_id" where
  "bigBrainNodeID name = ''bb:'' @ name"

subsection \<open>Status\<close>

definition eligible_count :: "pool_member list \<Rightarrow> nat" where
  "eligible_count members = length (remdups (map pm_NodeID (filter pm_Eligible members)))"

definition reason_count :: "pool_member list \<Rightarrow> string \<Rightarrow> nat" where
  "reason_count members r = length (filter (\<lambda>m. pm_Reason m = r) members)"

text \<open>The most common reason, the smallest among equals; the map is walked in some order \<open>rs\<close>.\<close>

fun best_reason :: "(string \<Rightarrow> nat) \<Rightarrow> string \<Rightarrow> string list \<Rightarrow> string" where
  "best_reason cnt best [] = best"
| "best_reason cnt best (r # rs) =
     best_reason cnt (if best = '''' \<or> cnt r > cnt best \<or> (cnt r = cnt best \<and> r < best) then r else best) rs"

definition join :: "string \<Rightarrow> string list \<Rightarrow> string" where
  "join sep ss = (case ss of [] \<Rightarrow> '''' | s # ss \<Rightarrow> s @ concat (map (\<lambda>t. sep @ t) ss))"

definition poolStatus :: "pool \<Rightarrow> string \<times> string" where
  "poolStatus p =
     (if pl_Disabled p then (PoolDisabled, '''')
      else if eligible_count (pl_Members p) > 0 then (PoolReady, itoa (int (eligible_count (pl_Members p))) @ '' node(s)'')
      else
        (let best = best_reason (reason_count (pl_Members p)) '''' (remdups (map pm_Reason (pl_Members p)))
         in if best = '''' then (PoolNoReadyNode, ''no nodes'')
            else if best = ReasonModel then (PoolNoReadyNode, ''no node serves an allowed model ('' @ join '', '' (pl_Models p) @ '')'')
            else if best = ReasonNotMember then (PoolNoReadyNode, ''none of its nodes is connected'')
            else (PoolNoReadyNode, ''nodes are '' @ best)))"

definition bigBrainPoolStatus :: "pool \<Rightarrow> bigbrain_status \<Rightarrow> string \<times> string" where
  "bigBrainPoolStatus p st =
     (if pl_Disabled p then (PoolDisabled, '''')
      else if bbs_State st = BigBrainReady then (PoolReady, itoa (int (length (pl_Members p))) @ '' phone(s)'')
      else if bbs_Reason st \<noteq> '''' then (PoolNoReadyNode, bbs_State st @ '': '' @ bbs_Reason st)
      else (PoolNoReadyNode, bbs_State st))"

subsection \<open>Conflicts\<close>

definition node_name_id :: "registry \<Rightarrow> string \<Rightarrow> node_id" where
  "node_name_id r n = (let (v, ok) = Registry.Lookup r n in if ok then v else n)"

text \<open>
  The first node two Big Brain pools share, and the first node of \<open>o\<close> that \<open>p\<close> claims, under the
  last name \<open>p\<close> has for it (\<open>mine\<close> keeps the last).
\<close>

definition poolConflict :: "registry \<Rightarrow> pool \<Rightarrow> pool list \<Rightarrow> pool_error option" where
  "poolConflict r p others =
     (let ident = node_name_id r
      in if pl_Routing p = RoutingBigBrain \<and> \<not> pl_Disabled p then
           (case find (\<lambda>o'. \<not> (pl_Name o' = pl_Name p \<or> pl_Routing o' \<noteq> RoutingBigBrain \<or> pl_Disabled o') \<and>
                            (\<exists>n \<in> set (pl_Nodes o'). \<exists>m \<in> set (pl_Nodes p). ident m = ident n)) others of
              None \<Rightarrow> None
            | Some o' \<Rightarrow>
                map_option (\<lambda>n. Conflict (pl_Name p) (pl_Name o') n)
                  (find (\<lambda>n. \<exists>m \<in> set (pl_Nodes p). ident m = ident n) (pl_Nodes o')))
         else if pl_Disabled p \<or> length (pl_Nodes p) = 0 \<or> length (pl_Models p) = 0 then None
         else
           (case find (\<lambda>o'. \<not> (pl_Name o' = pl_Name p \<or> pl_Disabled o' \<or> length (pl_Nodes o') = 0 \<or> length (pl_Models o') = 0 \<or>
                              (\<exists>m \<in> set (pl_Models o'). m \<in> set (pl_Models p))) \<and>
                            (\<exists>n \<in> set (pl_Nodes o'). \<exists>m \<in> set (pl_Nodes p). ident m = ident n)) others of
              None \<Rightarrow> None
            | Some o' \<Rightarrow>
                map_option (\<lambda>n. Conflict (pl_Name p) (pl_Name o') (the (find (\<lambda>m. ident m = ident n) (rev (pl_Nodes p)))))
                  (find (\<lambda>n. \<exists>m \<in> set (pl_Nodes p). ident m = ident n) (pl_Nodes o'))))"

end
