(* ===== verification/Catalog.thy ===== *)
theory Catalog
  imports External Planner Auth "HOL-Library.Sublist"
begin

text \<open>
  The model catalog (\<^verbatim>\<open>controller/models/catalog.go\<close>, \<^verbatim>\<open>download.go\<close>, \<^verbatim>\<open>source.go\<close>): its entries,
  every operation on them, and the download of a model file.  The goroutine of a download is a
  list of steps: the attempts of \<open>fetch\<close>, the hash, and the step under the catalog's lock; an
  entry's pointer is a generation number, so that the check \<open>c.models[id] != e\<close> compares
  generations.  \<open>Remove\<close> is two steps, the locked one and the removal of the files after it.
  Parameters of the model: \<open>purl\<close> is \<open>url.Parse\<close>, \<open>sha\<close> is SHA-256 in hex, \<open>read_meta\<close> the
  GGUF parser on a file's content.  The state file is the list of models it holds.
\<close>

abbreviation "StatusDownloading \<equiv> ''downloading''"
abbreviation "StatusReady \<equiv> ''ready''"
abbreviation "StatusError \<equiv> ''error''"

datatype cat_error =
    ErrUnknownModel
  | ErrExists string string
  | ErrInvalid string
  | ErrClosing
  | ErrSave
  | ErrTempDir

record cat_model =
  cm_ID :: string
  cm_Name :: string
  cm_Source :: string
  cm_File :: string
  cm_SizeBytes :: int
  cm_SparseBytes :: int
  cm_ResidentBytes :: int
  cm_SHA256 :: string
  cm_Status :: string
  cm_Progress :: real
  cm_Error :: string
  cm_Arch :: string
  cm_Params :: string
  cm_Quant :: string
  cm_CtxTrain :: int
  cm_Layers :: int
  cm_KVHeads :: int
  cm_HeadDim :: int
  cm_EstRAMBytes16k :: int
  cm_FitsClasses :: "string list"
  cm_Tags :: "string list"
  cm_RecommendedClasses :: "string list"
  cm_RecommendedTiers :: "string list"
  cm_License :: string
  cm_Default :: bool
  cm_NodesServing :: int

definition zero_cat_model :: cat_model where
  "zero_cat_model = \<lparr>cm_ID = '''', cm_Name = '''', cm_Source = '''', cm_File = '''', cm_SizeBytes = 0, cm_SparseBytes = 0,
     cm_ResidentBytes = 0, cm_SHA256 = '''', cm_Status = '''', cm_Progress = 0, cm_Error = '''', cm_Arch = '''', cm_Params = '''',
     cm_Quant = '''', cm_CtxTrain = 0, cm_Layers = 0, cm_KVHeads = 0, cm_HeadDim = 0, cm_EstRAMBytes16k = 0, cm_FitsClasses = [],
     cm_Tags = [], cm_RecommendedClasses = [], cm_RecommendedTiers = [], cm_License = '''', cm_Default = False, cm_NodesServing = 0\<rparr>"

definition PlanModel :: "cat_model \<Rightarrow> plan_model" where
  "PlanModel m = \<lparr>pm_ID = cm_ID m, pm_SizeBytes = cm_SizeBytes m, pm_ResidentBytes = cm_ResidentBytes m,
     pm_CtxTrain = cm_CtxTrain m, pm_Layers = cm_Layers m, pm_KVHeads = cm_KVHeads m, pm_HeadDim = cm_HeadDim m\<rparr>"

record add_request =
  ar_Source :: string
  ar_ID :: string
  ar_Name :: string
  ar_Tags :: "string list"
  ar_RecommendedClasses :: "string list"
  ar_RecommendedTiers :: "string list"

record cat_patch =
  pt_Name :: "string option"
  pt_Tags :: "string list option"
  pt_RecommendedClasses :: "string list option"
  pt_RecommendedTiers :: "string list option"
  pt_Default :: "bool option"

record meta =
  mt_Arch :: string
  mt_Params :: string
  mt_Quant :: string
  mt_CtxTrain :: int
  mt_Layers :: int
  mt_KVHeads :: int
  mt_HeadDim :: int
  mt_License :: string
  mt_SparseBytes :: int

text \<open>
  An entry: its generation stands for the pointer, \<open>ce_cancel\<close> says whether it has a cancel
  function.  The catalog: \<open>ct_stopped\<close> are the generations whose context is cancelled,
  \<open>ct_persist\<close> says whether there is a state file, \<open>ct_saved\<close> is what the file holds.
\<close>

record cat_entry =
  ce_gen :: nat
  ce_m :: cat_model
  ce_cancel :: bool
  ce_written :: int
  ce_total :: int

record catalog =
  ct_dir :: string
  ct_models :: "(string \<times> cat_entry) list"
  ct_closing :: bool
  ct_gen :: nat
  ct_stopped :: "nat list"
  ct_persist :: bool
  ct_saved :: "cat_model list option"
  ct_fs :: file_system

subsection \<open>Names, tags, classes\<close>

text \<open>\<open>idRe\<close> is \<^verbatim>\<open>^[a-z0-9][a-z0-9._-]{0,127}$\<close>.\<close>

definition id_char :: "char \<Rightarrow> bool" where
  "id_char c \<longleftrightarrow> lower_or_digit c \<or> c = CHR ''.'' \<or> c = CHR ''_'' \<or> c = CHR ''-''"

definition ValidID :: "string \<Rightarrow> bool" where
  "ValidID i \<longleftrightarrow> i \<noteq> [] \<and> lower_or_digit (hd i) \<and> list_all id_char (tl i) \<and> length i \<le> 128"

text \<open>\<open>strings.Trim(s, "-._")\<close>; for ASCII file names one byte is one rune.\<close>

definition trim_id :: "string \<Rightarrow> string" where
  "trim_id s = (let cut = (\<lambda>c. c = CHR ''-'' \<or> c = CHR ''.'' \<or> c = CHR ''_'')
                in rev (dropWhile cut (rev (dropWhile cut s))))"

definition Slug :: "string \<Rightarrow> string" where
  "Slug file = trim_id (map (\<lambda>c. if id_char c then c else CHR ''-'') (trim_suffix (to_lower file) ''.gguf''))"

text \<open>\<open>ContainsAny(t, ", \t\n")\<close>.\<close>

definition tag_sep :: "char \<Rightarrow> bool" where
  "tag_sep c \<longleftrightarrow> c = CHR '','' \<or> c = CHR '' '' \<or> c = CHR 0x09 \<or> c = CHR 0x0A"

fun norm_list :: "(string \<Rightarrow> bool) \<Rightarrow> string \<Rightarrow> string list \<Rightarrow> string list \<Rightarrow> cat_error + string list" where
  "norm_list ok msg out [] = Inr out"
| "norm_list ok msg out (t # ts) =
     (let t = to_lower (trim_space t)
      in if t = '''' \<or> t \<in> set out then norm_list ok msg out ts
         else if \<not> ok t then Inl (ErrInvalid msg)
         else norm_list ok msg (out @ [t]) ts)"

definition tag_ok :: "string \<Rightarrow> bool" where
  "tag_ok t \<longleftrightarrow> \<not> (length t > 64 \<or> list_ex tag_sep t)"

definition normTags :: "string list \<Rightarrow> cat_error + string list" where
  "normTags ts = norm_list tag_ok ''tag'' [] ts"

text \<open>\<open>slices.IndexFunc\<close>: -1 when nothing matches.\<close>

definition index_func :: "('a \<Rightarrow> bool) \<Rightarrow> 'a list \<Rightarrow> int" where
  "index_func P xs = (let k = length (takeWhile (\<lambda>x. \<not> P x) xs) in if k < length xs then int k else -1)"

definition classIndex :: "string \<Rightarrow> int" where
  "classIndex i = index_func (\<lambda>c. dc_ID c = i) Classes"

definition tierIndex :: "string \<Rightarrow> int" where
  "tierIndex i = index_func (\<lambda>t. pt_ID t = i) PerfTiers"

definition normClasses :: "string list \<Rightarrow> cat_error + string list" where
  "normClasses cs = (case norm_list IsClass ''unknown device class'' [] cs of
     Inl e \<Rightarrow> Inl e | Inr out \<Rightarrow> Inr (sort_key classIndex out))"

definition normTiers :: "string list \<Rightarrow> cat_error + string list" where
  "normTiers ts = (case norm_list IsPerfTier ''unknown performance tier'' [] ts of
     Inl e \<Rightarrow> Inl e | Inr out \<Rightarrow> Inr (sort_key tierIndex out))"

subsection \<open>Sources\<close>

text \<open>What is read of a parsed URL, and its printed form; \<open>purl\<close> is \<open>url.Parse\<close>.\<close>

record src_url =
  su_Scheme :: string
  su_Host :: string
  su_Path :: string
  su_String :: string

record model_source =
  ms_URL :: string
  ms_Path :: string
  ms_File :: string

definition HuggingFaceBase :: string where
  "HuggingFaceBase = ''https://huggingface.co''"

fun split_slash :: "string \<Rightarrow> string list" where
  "split_slash [] = [[]]"
| "split_slash (c # cs) =
     (if c = CHR ''/'' then [] # split_slash cs
      else case split_slash cs of [] \<Rightarrow> [[c]] | w # ws \<Rightarrow> (c # w) # ws)"

text \<open>\<open>path.Base\<close>, \<open>path.Clean\<close> of a rooted path, \<open>filepath.Ext\<close> and \<open>strings.Cut\<close>.\<close>

definition path_base :: "string \<Rightarrow> string" where
  "path_base p = (if p = '''' then ''.''
     else (let q = trim_right_slash p in if q = '''' then ''/'' else last (split_slash q)))"

definition path_clean :: "string \<Rightarrow> string" where
  "path_clean p = (let st = foldl (\<lambda>st w. if w = '''' \<or> w = ''.'' then st else if w = ''..'' then butlast st else st @ [w]) [] (split_slash p)
     in if st = [] then ''/'' else concat (map (\<lambda>w. CHR ''/'' # w) st))"

definition file_ext :: "string \<Rightarrow> string" where
  "file_ext f = (let w = last (split_slash f); k = length (takeWhile (\<lambda>c. c \<noteq> CHR ''.'') (rev w))
     in if k < length w then drop (length w - k - 1) w else '''')"

definition cut_at :: "char \<Rightarrow> string \<Rightarrow> string \<times> string \<times> bool" where
  "cut_at c s = (let a = takeWhile (\<lambda>x. x \<noteq> c) s in (a, drop (length a + 1) s, length a < length s))"

definition has_suffix :: "string \<Rightarrow> string \<Rightarrow> bool" where
  "has_suffix s t \<longleftrightarrow> length t \<le> length s \<and> drop (length s - length t) s = t"

definition is_digit :: "char \<Rightarrow> bool" where
  "is_digit c \<longleftrightarrow> CHR ''0'' \<le> c \<and> c \<le> CHR ''9''"

text \<open>\<open>shardRe\<close> is \<^verbatim>\<open>(?i)-\d{5}-of-\d{5}\.gguf$\<close>: the last twenty bytes.\<close>

definition is_shard :: "string \<Rightarrow> bool" where
  "is_shard f \<longleftrightarrow> length f \<ge> 20 \<and>
     (let t = to_lower (drop (length f - 20) f)
      in take 1 t = ''-'' \<and> list_all is_digit (take 5 (drop 1 t)) \<and> take 4 (drop 6 t) = ''-of-'' \<and>
         list_all is_digit (take 5 (drop 10 t)) \<and> drop 15 t = ''.gguf'')"

definition check_source_file :: "model_source \<Rightarrow> cat_error + model_source" where
  "check_source_file s =
     (if \<not> has_suffix (to_lower (ms_File s)) ''.gguf'' then Inl (ErrInvalid ''not a .gguf file'')
      else if is_shard (ms_File s) then Inl (ErrInvalid ''one part of a split GGUF'')
      else Inr s)"

definition ResolveSource :: "(string \<Rightarrow> src_url option) \<Rightarrow> string \<Rightarrow> string \<Rightarrow> cat_error + model_source" where
  "ResolveSource purl src hfBase =
     (case purl (trim_space src) of
        None \<Rightarrow> Inl (ErrInvalid ''source'')
      | Some u \<Rightarrow>
          if su_Scheme u = ''https'' \<or> su_Scheme u = ''http'' then
            (if su_Host u = '''' then Inl (ErrInvalid ''no host'')
             else check_source_file \<lparr>ms_URL = su_String u, ms_Path = '''', ms_File = path_base (su_Path u)\<rparr>)
          else if su_Scheme u = ''hf'' then
            (let (repo, file, ok) = cut_at (CHR ''/'') (case cut_prefix (su_Path u) ''/'' of Some p \<Rightarrow> p | None \<Rightarrow> su_Path u)
             in if su_Host u = '''' \<or> \<not> ok \<or> repo = '''' \<or> file = '''' then Inl (ErrInvalid ''want hf://owner/repo/file.gguf'')
                else check_source_file
                  \<lparr>ms_URL = trim_right_slash hfBase @ ''/'' @ su_Host u @ ''/'' @ repo @ ''/resolve/main/'' @ file, ms_Path = '''',
                   ms_File = path_base file\<rparr>)
          else if su_Scheme u = ''file'' then
            (if su_Host u \<noteq> '''' \<or> take 1 (su_Path u) \<noteq> ''/'' then Inl (ErrInvalid ''want file:///absolute/path.gguf'')
             else check_source_file \<lparr>ms_URL = '''', ms_Path = path_clean (su_Path u), ms_File = path_base (su_Path u)\<rparr>)
          else Inl (ErrInvalid ''scheme must be https, hf or file''))"

subsection \<open>Reading the catalog\<close>

text \<open>\<open>filepath.Join\<close> of a clean directory and a file name without slashes.\<close>

definition filePath :: "catalog \<Rightarrow> string \<Rightarrow> string" where
  "filePath c i = ct_dir c @ ''/'' @ i @ ''.gguf''"

definition partPath :: "catalog \<Rightarrow> string \<Rightarrow> string" where
  "partPath c i = ct_dir c @ ''/'' @ i @ ''.gguf.part''"

text \<open>\<open>entry.view\<close>; \<open>nonNil\<close> does not change a list.\<close>

definition entry_view :: "cat_entry \<Rightarrow> cat_model" where
  "entry_view e =
     (let m = ce_m e
      in if cm_Status m = StatusReady then m\<lparr>cm_Progress := 1\<rparr>
         else if cm_Status m = StatusDownloading \<and> ce_total e > 0 then
           m\<lparr>cm_Progress := min 1 (of_int (ce_written e) / of_int (ce_total e))\<rparr>
         else m)"

definition List_models :: "catalog \<Rightarrow> cat_model list" where
  "List_models c = sort_key cm_ID (map (\<lambda>(i, e). entry_view e) (ct_models c))"

definition Get_model :: "catalog \<Rightarrow> string \<Rightarrow> cat_model option" where
  "Get_model c i = map_option entry_view (map_of (ct_models c) i)"

definition File_model :: "catalog \<Rightarrow> string \<Rightarrow> (string \<times> cat_model) option" where
  "File_model c i =
     (case map_of (ct_models c) i of
        None \<Rightarrow> None
      | Some e \<Rightarrow> if cm_Status (ce_m e) \<noteq> StatusReady then None else Some (filePath c i, entry_view e))"

subsection \<open>Changing the catalog\<close>

text \<open>\<open>saveLocked\<close>: \<open>ok\<close> is the outcome of the atomic write.\<close>

definition saved_models :: "catalog \<Rightarrow> cat_model list" where
  "saved_models c = sort_key cm_ID (map (\<lambda>(i, e). (ce_m e)\<lparr>cm_Progress := 0, cm_Default := False, cm_NodesServing := 0\<rparr>) (ct_models c))"

definition saveLocked :: "bool \<Rightarrow> catalog \<Rightarrow> catalog \<times> bool" where
  "saveLocked ok c = (if \<not> ct_persist c then (c, True) else if ok then (c\<lparr>ct_saved := Some (saved_models c)\<rparr>, True) else (c, False))"

definition file_remove :: "string \<Rightarrow> catalog \<Rightarrow> catalog" where
  "file_remove path c = c\<lparr>ct_fs := (ct_fs c)(path := None)\<rparr>"

text \<open>
  The locked part of \<open>Add\<close>, after validation: \<open>tmp\<close> is the temporary directory, \<open>None\<close> when it
  cannot be made; a new entry gets the next generation, and its download starts
  (\<open>startLocked\<close>).  The model is returned even when the save fails.
\<close>

definition new_entry :: "string \<Rightarrow> string \<Rightarrow> string \<Rightarrow> string \<Rightarrow> string list \<Rightarrow> string list \<Rightarrow> string list \<Rightarrow> nat \<Rightarrow> cat_entry" where
  "new_entry i name source file tags classes tiers gen =
     \<lparr>ce_gen = gen,
      ce_m = zero_cat_model\<lparr>cm_ID := i, cm_Name := name, cm_Source := source, cm_File := file, cm_Status := StatusDownloading,
        cm_Tags := tags, cm_RecommendedClasses := classes, cm_RecommendedTiers := tiers\<rparr>,
      ce_cancel = True, ce_written = 0, ce_total = 0\<rparr>"

definition startLocked :: "string \<Rightarrow> cat_entry \<Rightarrow> catalog \<Rightarrow> catalog" where
  "startLocked i e c = c\<lparr>ct_models := AList.update i (e\<lparr>ce_gen := ct_gen c, ce_cancel := True, ce_written := 0, ce_total := 0\<rparr>) (ct_models c),
     ct_gen := Suc (ct_gen c)\<rparr>"

definition drop_stale_part :: "string \<Rightarrow> string \<Rightarrow> catalog \<Rightarrow> catalog" where
  "drop_stale_part i source c =
     (case map_of (ct_models c) i of
        Some old \<Rightarrow> if cm_Source (ce_m old) \<noteq> source \<and> ct_dir c \<noteq> '''' then file_remove (partPath c i) c else c
      | None \<Rightarrow> if ct_dir c \<noteq> '''' then file_remove (partPath c i) c else c)"

definition add_locked ::
  "bool \<Rightarrow> string option \<Rightarrow> string \<Rightarrow> string \<Rightarrow> string \<Rightarrow> string \<Rightarrow> string list \<Rightarrow> string list \<Rightarrow> string list \<Rightarrow> catalog \<Rightarrow>
   (cat_error + cat_model \<times> bool) \<times> catalog" where
  "add_locked ok tmp i name source file tags classes tiers c =
     (if ct_closing c then (Inl ErrClosing, c)
      else if (case map_of (ct_models c) i of Some old \<Rightarrow> cm_Status (ce_m old) \<noteq> StatusError | None \<Rightarrow> False)
        then (Inl (ErrExists i (cm_Status (ce_m (the (map_of (ct_models c) i))))), c)
      else
        (let c = drop_stale_part i source c
         in case (if ct_dir c = '''' then tmp else Some (ct_dir c)) of
              None \<Rightarrow> (Inl ErrTempDir, c)
            | Some d \<Rightarrow>
                (let c = c\<lparr>ct_dir := d\<rparr>;
                     e = new_entry i name source file tags classes tiers (ct_gen c);
                     c = startLocked i e c;
                     (c, ok) = saveLocked ok c
                 in (Inr (entry_view e, ok), c))))"

definition Add_model ::
  "(string \<Rightarrow> src_url option) \<Rightarrow> string \<Rightarrow> bool \<Rightarrow> string option \<Rightarrow> add_request \<Rightarrow> catalog \<Rightarrow>
   (cat_error + cat_model \<times> bool) \<times> catalog" where
  "Add_model purl hfBase ok tmp req c =
     (case ResolveSource purl (ar_Source req) hfBase of
        Inl e \<Rightarrow> (Inl e, c)
      | Inr src \<Rightarrow>
          (let i = (if ar_ID req = '''' then Slug (ms_File src) else ar_ID req)
           in if \<not> ValidID i then (Inl (ErrInvalid ''id''), c)
              else case normTags (ar_Tags req) of
                Inl e \<Rightarrow> (Inl e, c)
              | Inr tags \<Rightarrow>
                  (case normClasses (ar_RecommendedClasses req) of
                     Inl e \<Rightarrow> (Inl e, c)
                   | Inr classes \<Rightarrow>
                       (case normTiers (ar_RecommendedTiers req) of
                          Inl e \<Rightarrow> (Inl e, c)
                        | Inr tiers \<Rightarrow>
                            (let name = trim_space (ar_Name req);
                                 name = (if name = '''' then trim_suffix (ms_File src) (file_ext (ms_File src)) else name)
                             in add_locked ok tmp i name (ar_Source req) (ms_File src) tags classes tiers c)))))"

text \<open>\<open>Update\<close>; a nil list leaves the field unchanged.  The name is changed before the save.\<close>

definition norm_opt :: "(string list \<Rightarrow> cat_error + string list) \<Rightarrow> string list option \<Rightarrow> cat_error + string list option" where
  "norm_opt f v = (case v of None \<Rightarrow> Inr None | Some xs \<Rightarrow> (case f xs of Inl e \<Rightarrow> Inl e | Inr ys \<Rightarrow> Inr (Some ys)))"

definition patched :: "cat_patch \<Rightarrow> string list option \<Rightarrow> string list option \<Rightarrow> string list option \<Rightarrow> cat_model \<Rightarrow> cat_model" where
  "patched p tags classes tiers m =
     (let m = (case pt_Name p of None \<Rightarrow> m | Some n \<Rightarrow> m\<lparr>cm_Name := trim_space n\<rparr>);
          m = (case tags of None \<Rightarrow> m | Some ts \<Rightarrow> m\<lparr>cm_Tags := ts\<rparr>);
          m = (case classes of None \<Rightarrow> m | Some cs \<Rightarrow> m\<lparr>cm_RecommendedClasses := cs\<rparr>)
      in case tiers of None \<Rightarrow> m | Some ts \<Rightarrow> m\<lparr>cm_RecommendedTiers := ts\<rparr>)"

definition Update_model :: "bool \<Rightarrow> string \<Rightarrow> cat_patch \<Rightarrow> catalog \<Rightarrow> (cat_error + cat_model \<times> bool) \<times> catalog" where
  "Update_model ok i p c =
     (case norm_opt normTags (pt_Tags p) of
        Inl e \<Rightarrow> (Inl e, c)
      | Inr tags \<Rightarrow>
          (case norm_opt normClasses (pt_RecommendedClasses p) of
             Inl e \<Rightarrow> (Inl e, c)
           | Inr classes \<Rightarrow>
               (case norm_opt normTiers (pt_RecommendedTiers p) of
                  Inl e \<Rightarrow> (Inl e, c)
                | Inr tiers \<Rightarrow>
                    (case map_of (ct_models c) i of
                       None \<Rightarrow> (Inl ErrUnknownModel, c)
                     | Some e \<Rightarrow>
                         if (case pt_Name p of Some n \<Rightarrow> trim_space n = '''' | None \<Rightarrow> False) then (Inl (ErrInvalid ''name must not be empty''), c)
                         else
                           (let e = e\<lparr>ce_m := patched p tags classes tiers (ce_m e)\<rparr>;
                                (c, ok) = saveLocked ok (c\<lparr>ct_models := AList.update i e (ct_models c)\<rparr>)
                            in (Inr (entry_view e, ok), c))))))"

text \<open>\<open>Remove\<close> under the lock, and the removal of the files after the lock is released.\<close>

definition remove_locked :: "bool \<Rightarrow> string \<Rightarrow> catalog \<Rightarrow> (cat_error + bool) \<times> catalog" where
  "remove_locked ok i c =
     (case map_of (ct_models c) i of
        None \<Rightarrow> (Inl ErrUnknownModel, c)
      | Some e \<Rightarrow>
          (let c = (if ce_cancel e then c\<lparr>ct_stopped := ce_gen e # ct_stopped c\<rparr> else c);
               (c, ok) = saveLocked ok (c\<lparr>ct_models := AList.delete i (ct_models c)\<rparr>)
           in (Inr ok, c)))"

definition remove_files :: "string \<Rightarrow> string \<Rightarrow> catalog \<Rightarrow> catalog" where
  "remove_files dir i c =
     (if dir = '''' then c
      else c\<lparr>ct_fs := (ct_fs c)(dir @ ''/'' @ i @ ''.gguf'' := None, dir @ ''/'' @ i @ ''.gguf.part'' := None)\<rparr>)"

definition Close :: "catalog \<Rightarrow> catalog" where
  "Close c = c\<lparr>ct_closing := True, ct_stopped := map (\<lambda>(i, e). ce_gen e) (filter (\<lambda>(i, e). ce_cancel e) (ct_models c)) @ ct_stopped c\<rparr>"

subsection \<open>One download attempt\<close>

text \<open>
  What the operating system, the server and the clock do during one \<open>fetch\<close>.  A read delivers
  bytes, with the number of them written when the write fails; the loop ends with the end of
  the body, with an error, or because the context ended: of the attempt only (no data for the
  idle time) or of the run.
\<close>

datatype fetch_error =
    OpenPart | SeekPart | TruncatePart | BadRequest | NoSource | NotRegular | Transport
  | CannotResume int | BadStatus int bool | WriteFailed | NoData | ReadFailed | EndedAt int int | SyncFailed

definition permanent :: "fetch_error \<Rightarrow> bool" where
  "permanent e = (case e of OpenPart \<Rightarrow> True | BadRequest \<Rightarrow> True | NoSource \<Rightarrow> True | NotRegular \<Rightarrow> True | WriteFailed \<Rightarrow> True
     | BadStatus s p \<Rightarrow> p | _ \<Rightarrow> False)"

datatype read_end = ReadEOF | ReadError bool bool

record http_reply =
  hr_StatusCode :: int
  hr_ContentRange :: string
  hr_ContentLength :: int

record fetch_env =
  fe_open :: bool
  fe_seek :: bool
  fe_truncate :: bool
  fe_rewind :: bool
  fe_local :: "(bool \<times> nat) option"
  fe_local_seek :: bool
  fe_request :: bool
  fe_reply :: "http_reply option"
  fe_reads :: "(string \<times> nat option) list"
  fe_end :: read_end
  fe_sync :: bool

text \<open>\<open>strconv.ParseInt(s, 10, 64)\<close>; \<open>None\<close> is an error.\<close>

definition digits_value :: "string \<Rightarrow> int" where
  "digits_value s = foldl (\<lambda>n c. 10 * n + (int (of_char c) - 48)) 0 s"

definition parse_int64 :: "string \<Rightarrow> int option" where
  "parse_int64 s =
     (let (sign, d) = (if take 1 s = ''-'' then (- 1, drop 1 s) else if take 1 s = ''+'' then (1, drop 1 s) else (1, s));
          n = sign * digits_value d
      in if d = '''' \<or> \<not> list_all is_digit d then None
         else if - (2 ^ 63) \<le> n \<and> n < 2 ^ 63 then Some n else None)"

definition rangeStart :: "string \<Rightarrow> int" where
  "rangeStart cr =
     (case cut_prefix cr ''bytes '' of
        None \<Rightarrow> - 1
      | Some s \<Rightarrow>
          (let (s, _, ok) = cut_at (CHR ''-'') s
           in case parse_int64 s of None \<Rightarrow> - 1 | Some n \<Rightarrow> if \<not> ok then - 1 else n))"

text \<open>The read loop on the part file: its content, the counter of bytes, and the error.\<close>

fun read_loop :: "(string \<times> nat option) list \<Rightarrow> read_end \<Rightarrow> string \<Rightarrow> int \<Rightarrow> string \<times> int \<times> fetch_error option" where
  "read_loop [] fin part written =
     (part, written, case fin of ReadEOF \<Rightarrow> None
        | ReadError attempt_over run_over \<Rightarrow> Some (if attempt_over \<and> \<not> run_over then NoData else ReadFailed))"
| "read_loop ((bytes, w) # rs) fin part written =
     (case w of
        Some k \<Rightarrow> if bytes = [] then read_loop rs fin part written else (part @ take k bytes, written, Some WriteFailed)
      | None \<Rightarrow> read_loop rs fin (part @ bytes) (written + int (length bytes)))"

text \<open>\<open>restart\<close>: truncate, then rewind; a failed rewind leaves the file empty.\<close>

definition fetch_restart :: "fetch_env \<Rightarrow> string \<Rightarrow> string \<times> fetch_error option" where
  "fetch_restart env part =
     (if \<not> fe_truncate env then (part, Some TruncatePart)
      else if \<not> fe_rewind env then ('''', Some SeekPart) else ('''', None))"

definition fetch_body :: "fetch_env \<Rightarrow> string \<Rightarrow> int \<Rightarrow> string \<times> int \<times> int \<times> fetch_error option" where
  "fetch_body env part tot =
     (let (part, written, err) = read_loop (fe_reads env) (fe_end env) part (int (length part))
      in (part, written, tot,
          case err of Some e \<Rightarrow> Some e
          | None \<Rightarrow> if tot > 0 \<and> written \<noteq> tot then Some (EndedAt written tot)
                    else if \<not> fe_sync env then Some SyncFailed else None))"

text \<open>
  \<open>fetch\<close> on the content of the part file (\<open>None\<close>: it does not exist): the new content, the
  counters \<open>written\<close> and \<open>total\<close> when they are stored, and the error.  A local source is
  \<open>Some (regular, size)\<close>.
\<close>

definition fetch_local :: "fetch_env \<Rightarrow> string \<Rightarrow> string \<times> (int \<times> int) option \<times> fetch_error option" where
  "fetch_local env part =
     (case fe_local env of
        None \<Rightarrow> (part, None, Some NoSource)
      | Some (regular, sz) \<Rightarrow>
          if \<not> regular then (part, None, Some NotRegular)
          else
            (let (part, err) = (if length part > sz then fetch_restart env part else (part, None))
             in case err of Some e \<Rightarrow> (part, None, Some e)
                | None \<Rightarrow>
                    if \<not> fe_local_seek env then (part, None, Some SeekPart)
                    else (let (part, written, tot, err) = fetch_body env part (int sz)
                          in (part, Some (written, tot), err))))"

definition content_total :: "http_reply \<Rightarrow> string \<Rightarrow> int" where
  "content_total resp part = (if hr_ContentLength resp \<ge> 0 then int (length part) + hr_ContentLength resp else 0)"

definition fetch_http :: "fetch_env \<Rightarrow> string \<Rightarrow> string \<times> (int \<times> int) option \<times> fetch_error option" where
  "fetch_http env part =
     (if \<not> fe_request env then (part, None, Some BadRequest)
      else case fe_reply env of
        None \<Rightarrow> (part, None, Some Transport)
      | Some resp \<Rightarrow>
          (let status = hr_StatusCode resp
           in if status = 206 \<and> part \<noteq> '''' \<and> rangeStart (hr_ContentRange resp) = int (length part) then
                (let (p, written, tot, err) = fetch_body env part (content_total resp part)
                 in (p, Some (written, tot), err))
              else if status = 200 then
                (case fetch_restart env part of
                   (p, Some e) \<Rightarrow> (p, None, Some e)
                 | (p, None) \<Rightarrow>
                     (let (p, written, tot, err) = fetch_body env p (content_total resp p)
                      in (p, Some (written, tot), err)))
              else if status = 416 \<or> status = 206 then
                (case fetch_restart env part of
                   (p, Some e) \<Rightarrow> (p, None, Some e)
                 | (p, None) \<Rightarrow> (p, None, Some (CannotResume 0)))
              else (part, None, Some (BadStatus status (status < 500 \<and> status \<noteq> 408 \<and> status \<noteq> 429)))))"

definition fetch :: "fetch_env \<Rightarrow> model_source \<Rightarrow> string option \<Rightarrow> string option \<times> (int \<times> int) option \<times> fetch_error option" where
  "fetch env src part =
     (if \<not> fe_open env then (part, None, Some OpenPart)
      else
        (let p = (case part of None \<Rightarrow> '''' | Some p \<Rightarrow> p)
         in if \<not> fe_seek env then (Some p, None, Some SeekPart)
            else (let (p, counters, err) = (if ms_Path src \<noteq> '''' then fetch_local env p else fetch_http env p)
                  in (Some p, counters, err))))"

subsection \<open>A download run\<close>

text \<open>
  A run keeps its generation, id and source.  Its phases: the attempts (with the number of the
  next one), the hashed part file or an error, and the end.
\<close>

definition downloadAttempts :: nat where
  "downloadAttempts = 3"

datatype run_error = Fetch fetch_error | BadSource cat_error | HashFailed | NotGGUF | RenameFailed

datatype run_phase =
    Fetching nat
  | Hashing
  | Locking "run_error + string \<times> int \<times> meta"
  | RunOver

record run =
  rn_gen :: nat
  rn_id :: string
  rn_src :: model_source
  rn_phase :: run_phase

definition stopped :: "catalog \<Rightarrow> nat \<Rightarrow> bool" where
  "stopped c g \<longleftrightarrow> g \<in> set (ct_stopped c)"

definition start_run :: "(string \<Rightarrow> src_url option) \<Rightarrow> string \<Rightarrow> cat_entry \<Rightarrow> run" where
  "start_run purl hfBase e =
     (case ResolveSource purl (cm_Source (ce_m e)) hfBase of
        Inl err \<Rightarrow> \<lparr>rn_gen = ce_gen e, rn_id = cm_ID (ce_m e), rn_src = \<lparr>ms_URL = '''', ms_Path = '''', ms_File = ''''\<rparr>,
                     rn_phase = Locking (Inl (BadSource err))\<rparr>
      | Inr src \<Rightarrow> \<lparr>rn_gen = ce_gen e, rn_id = cm_ID (ce_m e), rn_src = src, rn_phase = Fetching 1\<rparr>)"

text \<open>One attempt of the loop, on the part file and the entry's counters.\<close>

definition store_counters :: "nat \<Rightarrow> string \<Rightarrow> (int \<times> int) option \<Rightarrow> catalog \<Rightarrow> catalog" where
  "store_counters g i counters c =
     (case (counters, map_of (ct_models c) i) of
        (Some (w, t), Some e) \<Rightarrow>
          if ce_gen e = g then c\<lparr>ct_models := AList.update i (e\<lparr>ce_written := w, ce_total := t\<rparr>) (ct_models c)\<rparr> else c
      | _ \<Rightarrow> c)"

text \<open>
  After the loop a cancelled run ends; otherwise the part file is hashed or the error goes to
  the locked step.
\<close>

definition attempt_step :: "fetch_env \<Rightarrow> nat \<Rightarrow> run \<Rightarrow> catalog \<Rightarrow> run \<times> catalog" where
  "attempt_step env n r c =
     (let path = partPath c (rn_id r);
          (part, counters, err) = fetch env (rn_src r) (ct_fs c path);
          c = store_counters (rn_gen r) (rn_id r) counters (c\<lparr>ct_fs := (ct_fs c)(path := part)\<rparr>)
      in (case err of
            None \<Rightarrow> r\<lparr>rn_phase := (if stopped c (rn_gen r) then RunOver else Hashing)\<rparr>
          | Some e \<Rightarrow>
              if stopped c (rn_gen r) then r\<lparr>rn_phase := RunOver\<rparr>
              else if permanent e \<or> n = downloadAttempts then r\<lparr>rn_phase := Locking (Inl (Fetch e))\<rparr>
              else r\<lparr>rn_phase := Fetching (Suc n)\<rparr>, c))"

definition hash_step :: "(string \<Rightarrow> string) \<Rightarrow> (string \<Rightarrow> meta option) \<Rightarrow> run \<Rightarrow> catalog \<Rightarrow> run \<times> catalog" where
  "hash_step sha read_meta r c =
     (case ct_fs c (partPath c (rn_id r)) of
        None \<Rightarrow> (r\<lparr>rn_phase := Locking (Inl HashFailed)\<rparr>, c)
      | Some data \<Rightarrow>
          (case read_meta data of
             None \<Rightarrow> (r\<lparr>rn_phase := Locking (Inl NotGGUF)\<rparr>, file_remove (partPath c (rn_id r)) c)
           | Some meta \<Rightarrow> (r\<lparr>rn_phase := Locking (Inr (sha data, int (length data), meta))\<rparr>, c)))"

definition ready_model :: "string \<Rightarrow> int \<Rightarrow> meta \<Rightarrow> cat_model \<Rightarrow> cat_model" where
  "ready_model sm sz meta m =
     (let m = m\<lparr>cm_Status := StatusReady, cm_Error := '''', cm_SizeBytes := sz, cm_SHA256 := sm, cm_Arch := mt_Arch meta,
            cm_Params := mt_Params meta, cm_Quant := mt_Quant meta, cm_License := mt_License meta, cm_CtxTrain := mt_CtxTrain meta,
            cm_Layers := mt_Layers meta, cm_KVHeads := mt_KVHeads meta, cm_HeadDim := mt_HeadDim meta,
            cm_SparseBytes := mt_SparseBytes meta, cm_ResidentBytes := sz - mt_SparseBytes meta\<rparr>;
          est = EstRAM (PlanModel m)
      in m\<lparr>cm_EstRAMBytes16k := est, cm_FitsClasses := FitsClasses est\<rparr>)"

text \<open>\<open>os.Rename\<close> of the part file; it fails when there is none, or by itself.\<close>

definition rename_part :: "bool \<Rightarrow> string \<Rightarrow> catalog \<Rightarrow> catalog option" where
  "rename_part ok i c =
     (case ct_fs c (partPath c i) of
        None \<Rightarrow> None
      | Some data \<Rightarrow> if ok then Some (c\<lparr>ct_fs := (ct_fs c)(filePath c i \<mapsto> data, partPath c i := None)\<rparr>) else None)"

definition err_text :: "run_error \<Rightarrow> string" where
  "err_text e = (case e of Fetch _ \<Rightarrow> ''download'' | BadSource _ \<Rightarrow> ''source'' | HashFailed \<Rightarrow> ''hash'' | NotGGUF \<Rightarrow> ''not a readable GGUF file''
     | RenameFailed \<Rightarrow> ''rename'')"

definition finish_run :: "bool \<Rightarrow> bool \<Rightarrow> run_error + string \<times> int \<times> meta \<Rightarrow> run \<Rightarrow> catalog \<Rightarrow> run \<times> catalog" where
  "finish_run rename_ok save_ok res r c =
     (let r' = r\<lparr>rn_phase := RunOver\<rparr>
      in case map_of (ct_models c) (rn_id r) of
           None \<Rightarrow> (r', c)
         | Some e \<Rightarrow>
             if ce_gen e \<noteq> rn_gen r then (r', c)
             else
               (let e = e\<lparr>ce_cancel := False\<rparr>;
                    failed = (\<lambda>err. (c, (ce_m e)\<lparr>cm_Status := StatusError, cm_Error := err_text err\<rparr>));
                    (c, m) = (case res of
                        Inl err \<Rightarrow> failed err
                      | Inr (sm, sz, meta) \<Rightarrow>
                          (case rename_part rename_ok (rn_id r) c of
                             None \<Rightarrow> failed RenameFailed
                           | Some c \<Rightarrow> (c, ready_model sm sz meta (ce_m e))))
                in (r', fst (saveLocked save_ok (c\<lparr>ct_models := AList.update (rn_id r) (e\<lparr>ce_m := m\<rparr>) (ct_models c)\<rparr>)))))"

subsection \<open>Loading the state file\<close>

text \<open>
  \<open>NewCatalog\<close> on the models of the state file: a ready model whose file is missing or has
  another size becomes an error, one saved before resident sizes existed gets them now, and an
  unfinished download starts again.  The result has the runs that were started.
\<close>

definition file_size :: "catalog \<Rightarrow> string \<Rightarrow> int option" where
  "file_size c i = map_option (\<lambda>d. int (length d)) (ct_fs c (filePath c i))"

definition loaded_model :: "(string \<Rightarrow> meta option) \<Rightarrow> catalog \<Rightarrow> cat_model \<Rightarrow> cat_model" where
  "loaded_model read_meta c m =
     (if cm_Status m = StatusReady then
        (if file_size c (cm_ID m) \<noteq> Some (cm_SizeBytes m) then
           m\<lparr>cm_Status := StatusError, cm_Error := ''model file is missing or changed; add the model again''\<rparr>
         else if cm_ResidentBytes m = 0 \<and> cm_SizeBytes m > 0 then
           (case Option.bind (ct_fs c (filePath c (cm_ID m))) read_meta of
              None \<Rightarrow> m
            | Some meta \<Rightarrow>
                (let m = m\<lparr>cm_SparseBytes := mt_SparseBytes meta, cm_ResidentBytes := cm_SizeBytes m - mt_SparseBytes meta\<rparr>;
                     est = EstRAM (PlanModel m)
                 in m\<lparr>cm_EstRAMBytes16k := est, cm_FitsClasses := FitsClasses est\<rparr>))
         else m)
      else m)"

definition recomputed :: "(string \<Rightarrow> meta option) \<Rightarrow> catalog \<Rightarrow> cat_model \<Rightarrow> bool" where
  "recomputed read_meta c m \<longleftrightarrow> cm_Status m = StatusReady \<and> file_size c (cm_ID m) = Some (cm_SizeBytes m) \<and>
     cm_ResidentBytes m = 0 \<and> cm_SizeBytes m > 0 \<and> Option.bind (ct_fs c (filePath c (cm_ID m))) read_meta \<noteq> None"

definition load_entry ::
  "(string \<Rightarrow> src_url option) \<Rightarrow> string \<Rightarrow> (string \<Rightarrow> meta option) \<Rightarrow> catalog \<times> run list \<Rightarrow> cat_model \<Rightarrow> catalog \<times> run list" where
  "load_entry purl hfBase read_meta s m =
     (let (c, rs) = s;
          e = \<lparr>ce_gen = ct_gen c, ce_m = loaded_model read_meta c m, ce_cancel = False, ce_written = 0, ce_total = 0\<rparr>;
          c = c\<lparr>ct_models := AList.update (cm_ID m) e (ct_models c), ct_gen := Suc (ct_gen c)\<rparr>
      in if cm_Status m = StatusDownloading then
           (let c = startLocked (cm_ID m) e c
            in (c, start_run purl hfBase (the (map_of (ct_models c) (cm_ID m))) # rs))
         else (c, rs))"

definition empty_catalog :: "string \<Rightarrow> bool \<Rightarrow> file_system \<Rightarrow> catalog" where
  "empty_catalog dir keep fs = \<lparr>ct_dir = dir, ct_models = [], ct_closing = False, ct_gen = 0, ct_stopped = [],
     ct_persist = keep, ct_saved = None, ct_fs = fs\<rparr>"

definition NewCatalog ::
  "(string \<Rightarrow> src_url option) \<Rightarrow> string \<Rightarrow> (string \<Rightarrow> meta option) \<Rightarrow> bool \<Rightarrow> string \<Rightarrow> bool \<Rightarrow> cat_model list option \<Rightarrow> file_system \<Rightarrow>
   (catalog \<times> run list) option" where
  "NewCatalog purl hfBase read_meta ok dir keep state fs =
     (let c = empty_catalog dir keep fs
      in if \<not> keep then Some (c, [])
         else case state of
           None \<Rightarrow> Some (c, [])
         | Some ms \<Rightarrow>
             if dir = '''' then None
             else
               (let (c, rs) = foldl (load_entry purl hfBase read_meta) (c\<lparr>ct_saved := state\<rparr>, []) ms;
                    changed = list_ex (recomputed read_meta (empty_catalog dir keep fs)) ms
                in Some (if changed then fst (saveLocked ok c) else c, rs)))"

subsection \<open>Interleavings\<close>

text \<open>
  The state: the catalog, the download goroutines, and the removals whose files are still to be
  deleted.  \<open>sy_late\<close> is a ghost: the ids that were in the catalog again when a removal deleted
  their files.
\<close>

record cat_sys =
  sy_c :: catalog
  sy_runs :: "run list"
  sy_removes :: "(string \<times> string) list"
  sy_late :: "string list"

definition new_runs ::
  "(string \<Rightarrow> src_url option) \<Rightarrow> string \<Rightarrow> string \<Rightarrow> catalog \<Rightarrow> run list \<Rightarrow> run list" where
  "new_runs purl hfBase i c rs = (case map_of (ct_models c) i of None \<Rightarrow> rs | Some e \<Rightarrow> start_run purl hfBase e # rs)"

inductive cat_step :: "cat_sys \<Rightarrow> cat_sys \<Rightarrow> bool" where
  cs_add: "Add_model purl hfBase ok tmp req (sy_c s) = (Inr (m, saved), c') \<Longrightarrow> tmp \<noteq> Some '''' \<Longrightarrow>
    cat_step s (s\<lparr>sy_c := c', sy_runs := new_runs purl hfBase (cm_ID m) c' (sy_runs s)\<rparr>)"
| cs_add_error: "Add_model purl hfBase ok tmp req (sy_c s) = (Inl err, c') \<Longrightarrow> cat_step s (s\<lparr>sy_c := c'\<rparr>)"
| cs_update: "Update_model ok i p (sy_c s) = (res, c') \<Longrightarrow> cat_step s (s\<lparr>sy_c := c'\<rparr>)"
| cs_remove: "remove_locked ok i (sy_c s) = (Inr saved, c') \<Longrightarrow>
    cat_step s (s\<lparr>sy_c := c', sy_removes := (ct_dir c', i) # sy_removes s\<rparr>)"
| cs_remove_files: "(dir, i) \<in> set (sy_removes s) \<Longrightarrow>
    cat_step s (s\<lparr>sy_c := remove_files dir i (sy_c s), sy_removes := remove1 (dir, i) (sy_removes s),
      sy_late := (if map_of (ct_models (sy_c s)) i = None then sy_late s else i # sy_late s)\<rparr>)"
| cs_close: "cat_step s (s\<lparr>sy_c := Close (sy_c s)\<rparr>)"
| cs_attempt: "k < length (sy_runs s) \<Longrightarrow> rn_phase (sy_runs s ! k) = Fetching n \<Longrightarrow>
    attempt_step env n (sy_runs s ! k) (sy_c s) = (r', c') \<Longrightarrow> cat_step s (s\<lparr>sy_c := c', sy_runs := (sy_runs s)[k := r']\<rparr>)"
| cs_hash: "k < length (sy_runs s) \<Longrightarrow> rn_phase (sy_runs s ! k) = Hashing \<Longrightarrow>
    hash_step sha read_meta (sy_runs s ! k) (sy_c s) = (r', c') \<Longrightarrow> cat_step s (s\<lparr>sy_c := c', sy_runs := (sy_runs s)[k := r']\<rparr>)"
| cs_finish: "k < length (sy_runs s) \<Longrightarrow> rn_phase (sy_runs s ! k) = Locking res \<Longrightarrow>
    finish_run rename_ok save_ok res (sy_runs s ! k) (sy_c s) = (r', c') \<Longrightarrow> cat_step s (s\<lparr>sy_c := c', sy_runs := (sy_runs s)[k := r']\<rparr>)"

inductive_cases cat_stepE: "cat_step s s'"

definition start_sys :: "string \<Rightarrow> bool \<Rightarrow> file_system \<Rightarrow> cat_sys" where
  "start_sys dir keep fs = \<lparr>sy_c = empty_catalog dir keep fs, sy_runs = [], sy_removes = [], sy_late = []\<rparr>"

definition cat_reachable :: "cat_sys \<Rightarrow> bool" where
  "cat_reachable s \<longleftrightarrow> (\<exists>dir keep fs. cat_step\<^sup>*\<^sup>* (start_sys dir keep fs) s)"

subsection \<open>The invariant\<close>

definition has_run :: "run list \<Rightarrow> string \<Rightarrow> nat \<Rightarrow> bool" where
  "has_run rs i g \<longleftrightarrow> (\<exists>r \<in> set rs. rn_gen r = g \<and> rn_id r = i \<and> rn_phase r \<noteq> RunOver)"

definition model_ok :: "cat_model \<Rightarrow> bool" where
  "model_ok m \<longleftrightarrow> cm_ResidentBytes m = cm_SizeBytes m - cm_SparseBytes m \<and>
     cm_EstRAMBytes16k m = EstRAM (PlanModel m) \<and> cm_FitsClasses m = FitsClasses (cm_EstRAMBytes16k m)"

definition entry_ok :: "catalog \<Rightarrow> run list \<Rightarrow> string list \<Rightarrow> string \<Rightarrow> cat_entry \<Rightarrow> bool" where
  "entry_ok c rs late i e \<longleftrightarrow> cm_ID (ce_m e) = i \<and> ValidID i \<and> ce_gen e < ct_gen c \<and>
     cm_Status (ce_m e) \<in> {StatusDownloading, StatusReady, StatusError} \<and>
     (cm_Status (ce_m e) = StatusReady \<longrightarrow> model_ok (ce_m e) \<and> (i \<in> set late \<or> ct_fs c (filePath c i) \<noteq> None)) \<and>
     (cm_Status (ce_m e) = StatusDownloading \<longrightarrow> has_run rs i (ce_gen e) \<or> ct_closing c)"

definition cat_inv :: "cat_sys \<Rightarrow> bool" where
  "cat_inv s \<longleftrightarrow> (let c = sy_c s in
     distinct (keys_of (ct_models c)) \<and>
     (\<forall>i e. map_of (ct_models c) i = Some e \<longrightarrow>
        entry_ok c (sy_runs s) (sy_late s) i e \<and> (stopped c (ce_gen e) \<longrightarrow> ct_closing c) \<and>
        (\<forall>j e'. map_of (ct_models c) j = Some e' \<longrightarrow> ce_gen e' = ce_gen e \<longrightarrow> j = i)) \<and>
     (\<forall>g. stopped c g \<longrightarrow> g < ct_gen c) \<and>
     (ct_dir c = '''' \<longrightarrow> ct_models c = []) \<and>
     (\<forall>d i. (d, i) \<in> set (sy_removes s) \<longrightarrow> d = ct_dir c \<and> d \<noteq> ''''))"

lemma cat_invD:
  assumes "cat_inv s" "map_of (ct_models (sy_c s)) i = Some e"
  shows "entry_ok (sy_c s) (sy_runs s) (sy_late s) i e" "stopped (sy_c s) (ce_gen e) \<Longrightarrow> ct_closing (sy_c s)"
    "map_of (ct_models (sy_c s)) j = Some e' \<Longrightarrow> ce_gen e' = ce_gen e \<Longrightarrow> j = i" "ct_dir (sy_c s) \<noteq> ''''"
proof -
  note I = assms(1) [unfolded cat_inv_def Let_def]
  show "entry_ok (sy_c s) (sy_runs s) (sy_late s) i e" "stopped (sy_c s) (ce_gen e) \<Longrightarrow> ct_closing (sy_c s)"
    "map_of (ct_models (sy_c s)) j = Some e' \<Longrightarrow> ce_gen e' = ce_gen e \<Longrightarrow> j = i"
    using I assms(2) by blast+
  have "ct_models (sy_c s) \<noteq> []" using assms(2) by (cases "ct_models (sy_c s)") simp_all
  with I show "ct_dir (sy_c s) \<noteq> ''''" by blast
qed

lemma cat_inv_dirs:
  assumes "cat_inv s"
  shows "distinct (keys_of (ct_models (sy_c s)))" "stopped (sy_c s) g \<Longrightarrow> g < ct_gen (sy_c s)"
    "ct_dir (sy_c s) = '''' \<Longrightarrow> ct_models (sy_c s) = []"
    "(d, i) \<in> set (sy_removes s) \<Longrightarrow> d = ct_dir (sy_c s) \<and> d \<noteq> ''''"
  using assms [unfolded cat_inv_def Let_def] by blast+

lemma cat_invI:
  assumes "distinct (keys_of (ct_models (sy_c s)))"
    and "\<And>i e. map_of (ct_models (sy_c s)) i = Some e \<Longrightarrow> entry_ok (sy_c s) (sy_runs s) (sy_late s) i e"
    and "\<And>i e. map_of (ct_models (sy_c s)) i = Some e \<Longrightarrow> stopped (sy_c s) (ce_gen e) \<Longrightarrow> ct_closing (sy_c s)"
    and "\<And>i e j e'. map_of (ct_models (sy_c s)) i = Some e \<Longrightarrow> map_of (ct_models (sy_c s)) j = Some e' \<Longrightarrow> ce_gen e' = ce_gen e \<Longrightarrow> j = i"
    and "\<And>g. stopped (sy_c s) g \<Longrightarrow> g < ct_gen (sy_c s)"
    and "ct_dir (sy_c s) = '''' \<Longrightarrow> ct_models (sy_c s) = []"
    and "\<And>d i. (d, i) \<in> set (sy_removes s) \<Longrightarrow> d = ct_dir (sy_c s) \<and> d \<noteq> ''''"
  shows "cat_inv s"
  using assms unfolding cat_inv_def Let_def by blast

subsection \<open>Frames\<close>

lemma part_ne_file: "partPath c i \<noteq> filePath c j"
proof
  assume "partPath c i = filePath c j"
  then have "last (partPath c i) = last (filePath c j)" by simp
  then show False by (simp add: partPath_def filePath_def)
qed

lemma filePath_inj [simp]: "filePath c i = filePath c j \<longleftrightarrow> i = j"
  by (simp add: filePath_def)

lemma filePath_cong: "ct_dir c' = ct_dir c \<Longrightarrow> filePath c' i = filePath c i"
  by (simp add: filePath_def)

lemma partPath_cong: "ct_dir c' = ct_dir c \<Longrightarrow> partPath c' i = partPath c i"
  by (simp add: partPath_def)

text \<open>What an entry relies on and a step may not take away.\<close>

lemma entry_ok_frame:
  assumes "entry_ok c rs late i e" "ct_dir c' = ct_dir c" "ct_gen c \<le> ct_gen c'" "ct_closing c \<Longrightarrow> ct_closing c'"
    and "ct_fs c (filePath c i) \<noteq> None \<Longrightarrow> i \<in> set late' \<or> ct_fs c' (filePath c i) \<noteq> None"
    and "set late \<subseteq> set late'" "has_run rs i (ce_gen e) \<Longrightarrow> has_run rs' i (ce_gen e) \<or> ct_closing c'"
  shows "entry_ok c' rs' late' i e"
  using assms unfolding entry_ok_def filePath_cong [OF assms(2)] by fastforce

lemma has_run_update:
  assumes "has_run rs i g" "k < length rs" "rn_gen r' = rn_gen (rs ! k)" "rn_id r' = rn_id (rs ! k)"
    and "rn_phase r' = RunOver \<Longrightarrow> rn_gen (rs ! k) = g \<Longrightarrow> rn_id (rs ! k) = i \<Longrightarrow> False"
  shows "has_run (rs[k := r']) i g"
proof -
  obtain r where r: "r \<in> set rs" "rn_gen r = g" "rn_id r = i" "rn_phase r \<noteq> RunOver"
    using assms(1) by (auto simp: has_run_def)
  then obtain j where j: "j < length rs" "rs ! j = r" by (auto simp: in_set_conv_nth)
  show ?thesis
  proof (cases "j = k")
    case True
    with r j assms(2-) have "r' \<in> set (rs[k := r'])" "rn_gen r' = g" "rn_id r' = i" "rn_phase r' \<noteq> RunOver"
      by (auto simp: set_update_memI)
    then show ?thesis unfolding has_run_def by blast
  next
    case False
    with j have "rs[k := r'] ! j = r" by simp
    moreover have "j < length (rs[k := r'])" using j by simp
    ultimately have "r \<in> set (rs[k := r'])" using nth_mem by metis
    with r show ?thesis unfolding has_run_def by blast
  qed
qed

lemma has_run_Cons: "has_run rs i g \<Longrightarrow> has_run (r # rs) i g"
  by (auto simp: has_run_def)

lemma saveLocked_simps [simp]:
  "ct_dir (fst (saveLocked ok c)) = ct_dir c" "ct_models (fst (saveLocked ok c)) = ct_models c"
  "ct_closing (fst (saveLocked ok c)) = ct_closing c" "ct_gen (fst (saveLocked ok c)) = ct_gen c"
  "ct_stopped (fst (saveLocked ok c)) = ct_stopped c" "ct_fs (fst (saveLocked ok c)) = ct_fs c"
  by (auto simp: saveLocked_def)

definition same_frame :: "catalog \<Rightarrow> catalog \<Rightarrow> bool" where
  "same_frame c c' \<longleftrightarrow> ct_dir c' = ct_dir c \<and> ct_gen c' = ct_gen c \<and> ct_stopped c' = ct_stopped c \<and> ct_closing c' = ct_closing c"

lemma stopped_frame: "same_frame c c' \<Longrightarrow> stopped c' g \<longleftrightarrow> stopped c g"
  by (simp add: same_frame_def stopped_def)

text \<open>A step that leaves the table alone.\<close>

lemma cat_inv_keep:
  assumes "cat_inv s" "same_frame (sy_c s) c'" "ct_models c' = ct_models (sy_c s)"
    and fs: "\<And>i e. map_of (ct_models c') i = Some e \<Longrightarrow> ct_fs (sy_c s) (filePath (sy_c s) i) \<noteq> None \<Longrightarrow>
        i \<in> set late' \<or> ct_fs c' (filePath (sy_c s) i) \<noteq> None"
    and late: "set (sy_late s) \<subseteq> set late'"
    and rs: "\<And>i e. map_of (ct_models c') i = Some e \<Longrightarrow> has_run (sy_runs s) i (ce_gen e) \<Longrightarrow> has_run rs' i (ce_gen e) \<or> ct_closing c'"
    and rm: "\<And>d i. (d, i) \<in> set rm' \<Longrightarrow> (d, i) \<in> set (sy_removes s)"
  shows "cat_inv \<lparr>sy_c = c', sy_runs = rs', sy_removes = rm', sy_late = late'\<rparr>"
proof (rule cat_invI, goal_cases)
  case 1
  then show ?case using cat_inv_dirs(1) [OF assms(1)] assms(3) by simp
next
  case (2 i e)
  from assms(2) have f: "ct_dir c' = ct_dir (sy_c s)" "ct_gen (sy_c s) \<le> ct_gen c'" "ct_closing (sy_c s) \<Longrightarrow> ct_closing c'"
    by (auto simp: same_frame_def)
  from 2 assms(3) have e: "map_of (ct_models c') i = Some e" "map_of (ct_models (sy_c s)) i = Some e" by simp_all
  show ?case
    by simp (rule entry_ok_frame [OF cat_invD(1) [OF assms(1) e(2)] f fs [OF e(1)] late rs [OF e(1)]])
next
  case (3 i e)
  then show ?case using cat_invD(2) [OF assms(1)] assms(2,3) stopped_frame [OF assms(2)] by (auto simp: same_frame_def)
next
  case (4 i e j e')
  then show ?case using cat_invD(3) [OF assms(1)] assms(3) by simp
next
  case (5 g)
  then show ?case using cat_inv_dirs(2) [OF assms(1)] assms(2) stopped_frame [OF assms(2)] by (simp add: same_frame_def)
next
  case 6
  then show ?case using cat_inv_dirs(3) [OF assms(1)] assms(2,3) by (simp add: same_frame_def)
next
  case (7 d i)
  then show ?case using cat_inv_dirs(4) [OF assms(1) rm] assms(2) by (simp add: same_frame_def)
qed

text \<open>A step that changes one entry and keeps its generation.\<close>

lemma cat_inv_entry:
  assumes inv: "cat_inv s" and f: "same_frame (sy_c s) c'" and e: "map_of (ct_models (sy_c s)) i = Some e"
    and ms: "ct_models c' = AList.update i e' (ct_models (sy_c s))" and g: "ce_gen e' = ce_gen e"
    and ok: "entry_ok c' rs' (sy_late s) i e'"
    and fs: "\<And>j. j \<noteq> i \<Longrightarrow> ct_fs (sy_c s) (filePath (sy_c s) j) \<noteq> None \<Longrightarrow> ct_fs c' (filePath (sy_c s) j) \<noteq> None"
    and rs: "\<And>j g. j \<noteq> i \<Longrightarrow> has_run (sy_runs s) j g \<Longrightarrow> has_run rs' j g"
  shows "cat_inv \<lparr>sy_c = c', sy_runs = rs', sy_removes = sy_removes s, sy_late = sy_late s\<rparr>"
proof -
  have m: "\<exists>e1. map_of (ct_models (sy_c s)) j = Some e1 \<and> ce_gen e1 = ce_gen e0 \<and> (j \<noteq> i \<longrightarrow> e1 = e0)"
    if "map_of (ct_models c') j = Some e0" for j e0
    using that e g by (cases "j = i") (auto simp: ms update_conv)
  show ?thesis
  proof (rule cat_invI, goal_cases)
    case 1
    then show ?case using cat_inv_dirs(1) [OF inv] by (simp add: ms distinct_update)
  next
    case (2 j e0)
    show ?case
    proof (cases "j = i")
      case True
      with 2 ok show ?thesis by (simp add: ms update_conv)
    next
      case False
      with 2 have "map_of (ct_models (sy_c s)) j = Some e0" by (simp add: ms update_conv)
      from cat_invD(1) [OF inv this] show ?thesis
        by simp (rule entry_ok_frame, assumption, use f fs rs False in \<open>auto simp: same_frame_def\<close>)
    qed
  next
    case (3 j e0)
    from m [of j e0] 3 obtain e1 where "map_of (ct_models (sy_c s)) j = Some e1" "ce_gen e1 = ce_gen e0" by auto
    with 3 cat_invD(2) [OF inv this(1)] f stopped_frame [OF f] show ?case by (simp add: same_frame_def)
  next
    case (4 j e0 k e1)
    from 4 m [of j e0] m [of k e1] cat_invD(3) [OF inv] show ?case by (metis cat_sys.select_convs(1))
  next
    case (5 g)
    then show ?case using cat_inv_dirs(2) [OF inv] f stopped_frame [OF f] by (simp add: same_frame_def)
  next
    case 6
    then show ?case using cat_invD(4) [OF inv e] f by (simp add: same_frame_def)
  next
    case (7 d i)
    then show ?case using cat_inv_dirs(4) [OF inv] f by (simp add: same_frame_def)
  qed
qed

lemma cat_sys_upd:
  "s\<lparr>sy_c := c\<rparr> = \<lparr>sy_c = c, sy_runs = sy_runs s, sy_removes = sy_removes s, sy_late = sy_late s\<rparr>"
  "s\<lparr>sy_c := c, sy_runs := rs\<rparr> = \<lparr>sy_c = c, sy_runs = rs, sy_removes = sy_removes s, sy_late = sy_late s\<rparr>"
  "s\<lparr>sy_c := c, sy_removes := rm\<rparr> = \<lparr>sy_c = c, sy_runs = sy_runs s, sy_removes = rm, sy_late = sy_late s\<rparr>"
  "s\<lparr>sy_c := c, sy_removes := rm, sy_late := l\<rparr> = \<lparr>sy_c = c, sy_runs = sy_runs s, sy_removes = rm, sy_late = l\<rparr>"
  by (cases s; simp)+

subsection \<open>Every step keeps the invariant\<close>

lemma patched_simps [simp]:
  "cm_ID (patched p a b d m) = cm_ID m" "cm_Status (patched p a b d m) = cm_Status m" "model_ok (patched p a b d m) = model_ok m"
  by (simp_all add: patched_def model_ok_def PlanModel_def Let_def split: option.splits)

lemma cat_inv_update:
  assumes "cat_inv s" "Update_model ok i p (sy_c s) = (res, c')"
  shows "cat_inv (s\<lparr>sy_c := c'\<rparr>)"
proof (cases "c' = sy_c s")
  case True
  have "s\<lparr>sy_c := c'\<rparr> = s" by (cases s) (simp add: True)
  with assms(1) show ?thesis by simp
next
  case False
  with assms(2) obtain e tags classes tiers where e: "map_of (ct_models (sy_c s)) i = Some e"
    and c': "c' = fst (saveLocked ok ((sy_c s)\<lparr>ct_models := AList.update i (e\<lparr>ce_m := patched p tags classes tiers (ce_m e)\<rparr>) (ct_models (sy_c s))\<rparr>))"
    by (auto simp: Update_model_def Let_def case_prod_beta split: sum.splits option.splits if_splits)
  show ?thesis unfolding cat_sys_upd
    by (rule cat_inv_entry [OF assms(1) _ e, where e' = "e\<lparr>ce_m := patched p tags classes tiers (ce_m e)\<rparr>"])
      (use cat_invD(1) [OF assms(1) e] in \<open>simp_all add: c' same_frame_def entry_ok_def filePath_def\<close>)
qed

lemma fetch_run_over:
  "attempt_step env n r c = (r', c') \<Longrightarrow>
     rn_gen r' = rn_gen r \<and> rn_id r' = rn_id r \<and> (rn_phase r' = RunOver \<longrightarrow> stopped c (rn_gen r))"
  by (auto simp: attempt_step_def Let_def store_counters_def stopped_def split: prod.splits option.splits if_splits)

lemma attempt_catalog:
  assumes "attempt_step env n r c = (r', c')"
  obtains part counters where
    "c' = store_counters (rn_gen r) (rn_id r) counters (c\<lparr>ct_fs := (ct_fs c)(partPath c (rn_id r) := part)\<rparr>)"
  using assms by (auto simp: attempt_step_def Let_def split: prod.splits)

lemma cat_inv_part:
  assumes "cat_inv s"
  shows "cat_inv (s\<lparr>sy_c := (sy_c s)\<lparr>ct_fs := (ct_fs (sy_c s))(partPath (sy_c s) i := part)\<rparr>\<rparr>)"
  unfolding cat_sys_upd
  by (rule cat_inv_keep [OF assms]) (simp_all add: same_frame_def part_ne_file part_ne_file [symmetric])

lemma cat_inv_counters:
  assumes "cat_inv s"
  shows "cat_inv (s\<lparr>sy_c := store_counters g i counters (sy_c s)\<rparr>)"
proof (cases "store_counters g i counters (sy_c s) = sy_c s")
  case True
  have "s\<lparr>sy_c := store_counters g i counters (sy_c s)\<rparr> = s" by (cases s) (use True in simp)
  with assms show ?thesis by simp
next
  case False
  then obtain w t e where e: "map_of (ct_models (sy_c s)) i = Some e"
    and c': "store_counters g i counters (sy_c s) = (sy_c s)\<lparr>ct_models := AList.update i (e\<lparr>ce_written := w, ce_total := t\<rparr>) (ct_models (sy_c s))\<rparr>"
    by (auto simp: store_counters_def split: option.splits if_splits)
  show ?thesis unfolding cat_sys_upd
    by (rule cat_inv_entry [OF assms _ e, where e' = "e\<lparr>ce_written := w, ce_total := t\<rparr>"])
      (use cat_invD(1) [OF assms e] in \<open>simp_all add: c' same_frame_def entry_ok_def filePath_def\<close>)
qed

lemma cat_inv_runs:
  assumes inv: "cat_inv s" and k: "k < length (sy_runs s)"
    and r': "rn_gen r' = rn_gen (sy_runs s ! k)" "rn_id r' = rn_id (sy_runs s ! k)"
    and over: "rn_phase r' = RunOver \<Longrightarrow> stopped (sy_c s) (rn_gen (sy_runs s ! k)) \<or>
        (\<forall>e. map_of (ct_models (sy_c s)) (rn_id (sy_runs s ! k)) = Some e \<longrightarrow> ce_gen e \<noteq> rn_gen (sy_runs s ! k))"
  shows "cat_inv (s\<lparr>sy_runs := (sy_runs s)[k := r']\<rparr>)"
proof -
  have eq: "s\<lparr>sy_runs := (sy_runs s)[k := r']\<rparr> =
      \<lparr>sy_c = sy_c s, sy_runs = (sy_runs s)[k := r'], sy_removes = sy_removes s, sy_late = sy_late s\<rparr>" by (cases s) simp
  show ?thesis unfolding eq
  proof (rule cat_inv_keep [OF inv])
    fix i e assume e: "map_of (ct_models (sy_c s)) i = Some e" and h: "has_run (sy_runs s) i (ce_gen e)"
    show "has_run ((sy_runs s)[k := r']) i (ce_gen e) \<or> ct_closing (sy_c s)"
      using cat_invD(2) [OF inv e] over e has_run_update [OF h k r'] by (metis (full_types))
  qed (auto simp: same_frame_def)
qed

lemma cat_inv_attempt:
  assumes "cat_inv s" "k < length (sy_runs s)" "attempt_step env n (sy_runs s ! k) (sy_c s) = (r', c')"
  shows "cat_inv (s\<lparr>sy_c := c', sy_runs := (sy_runs s)[k := r']\<rparr>)"
proof -
  let ?r = "sy_runs s ! k"
  obtain part counters where c': "c' = store_counters (rn_gen ?r) (rn_id ?r) counters
      ((sy_c s)\<lparr>ct_fs := (ct_fs (sy_c s))(partPath (sy_c s) (rn_id ?r) := part)\<rparr>)"
    using attempt_catalog [OF assms(3)] .
  note o = fetch_run_over [OF assms(3)]
  have "cat_inv (s\<lparr>sy_runs := (sy_runs s)[k := r']\<rparr>)"
    by (rule cat_inv_runs [OF assms(1,2)]) (use o in auto)
  from cat_inv_counters [OF cat_inv_part [OF this, of "rn_id ?r" part], of "rn_gen ?r" "rn_id ?r" counters]
  show ?thesis by (cases s) (simp add: c')
qed

lemma cat_inv_hash:
  assumes "cat_inv s" "k < length (sy_runs s)" "hash_step sha read_meta (sy_runs s ! k) (sy_c s) = (r', c')"
  shows "cat_inv (s\<lparr>sy_c := c', sy_runs := (sy_runs s)[k := r']\<rparr>)"
proof -
  let ?r = "sy_runs s ! k"
  from assms(3) obtain res where r': "r' = ?r\<lparr>rn_phase := Locking res\<rparr>"
    and c': "c' = sy_c s \<or> c' = file_remove (partPath (sy_c s) (rn_id ?r)) (sy_c s)"
    by (auto simp: hash_step_def split: option.splits)
  have runs: "cat_inv (s\<lparr>sy_runs := (sy_runs s)[k := r']\<rparr>)"
    by (rule cat_inv_runs [OF assms(1,2)]) (simp_all add: r')
  from cat_inv_part [OF this, of "rn_id ?r" None] runs c' show ?thesis
    by (cases s) (auto simp: file_remove_def)
qed

lemma ready_model_simps [simp]:
  "cm_ID (ready_model sm sz meta m) = cm_ID m" "cm_Status (ready_model sm sz meta m) = StatusReady"
  "model_ok (ready_model sm sz meta m)"
  by (simp_all add: ready_model_def model_ok_def PlanModel_def Let_def)

lemma cat_inv_finish:
  assumes inv: "cat_inv s" and k: "k < length (sy_runs s)"
    and fin: "finish_run rename_ok save_ok res (sy_runs s ! k) (sy_c s) = (r', c')"
  shows "cat_inv (s\<lparr>sy_c := c', sy_runs := (sy_runs s)[k := r']\<rparr>)"
proof -
  let ?r = "sy_runs s ! k" let ?c = "sy_c s"
  have r': "rn_phase r' = RunOver" "rn_gen r' = rn_gen ?r" "rn_id r' = rn_id ?r"
    using fin by (auto simp: finish_run_def Let_def split: option.splits if_splits prod.splits)
  show ?thesis
  proof (cases "\<exists>e. map_of (ct_models ?c) (rn_id ?r) = Some e \<and> ce_gen e = rn_gen ?r")
    case False
    then have "c' = ?c" using fin by (auto simp: finish_run_def Let_def split: option.splits if_splits prod.splits)
    moreover have "cat_inv (s\<lparr>sy_runs := (sy_runs s)[k := r']\<rparr>)"
      by (rule cat_inv_runs [OF inv k r'(2,3)]) (use False in auto)
    ultimately show ?thesis by (cases s) simp
  next
    case True
    then obtain e where e: "map_of (ct_models ?c) (rn_id ?r) = Some e" "ce_gen e = rn_gen ?r" by blast
    from cat_invD(1) [OF inv e(1)] have id: "cm_ID (ce_m e) = rn_id ?r" by (simp add: entry_ok_def)
    have "\<exists>m c1. c' = fst (saveLocked save_ok (c1\<lparr>ct_models := AList.update (rn_id ?r) (e\<lparr>ce_cancel := False, ce_m := m\<rparr>) (ct_models c1)\<rparr>)) \<and>
        cm_ID m = rn_id ?r \<and> same_frame ?c c1 \<and> ct_models c1 = ct_models ?c \<and>
        (\<forall>j. j \<noteq> rn_id ?r \<longrightarrow> ct_fs c1 (filePath ?c j) = ct_fs ?c (filePath ?c j)) \<and>
        (cm_Status m = StatusError \<or> cm_Status m = StatusReady \<and> model_ok m \<and> ct_fs c1 (filePath ?c (rn_id ?r)) \<noteq> None)"
      using fin e id
      by (auto simp: finish_run_def Let_def rename_part_def same_frame_def case_prod_beta part_ne_file part_ne_file [symmetric]
          split: option.splits if_splits sum.splits intro!: exI)
    then obtain m c1 where c': "c' = fst (saveLocked save_ok (c1\<lparr>ct_models := AList.update (rn_id ?r) (e\<lparr>ce_cancel := False, ce_m := m\<rparr>) (ct_models c1)\<rparr>))"
      and m: "cm_ID m = rn_id ?r" "cm_Status m = StatusError \<or> cm_Status m = StatusReady \<and> model_ok m \<and> ct_fs c1 (filePath ?c (rn_id ?r)) \<noteq> None"
      and c1: "same_frame ?c c1" "ct_models c1 = ct_models ?c" "\<forall>j. j \<noteq> rn_id ?r \<longrightarrow> ct_fs c1 (filePath ?c j) = ct_fs ?c (filePath ?c j)"
      by blast
    show ?thesis unfolding cat_sys_upd(2)
    proof (rule cat_inv_entry [OF inv _ e(1), where e' = "e\<lparr>ce_cancel := False, ce_m := m\<rparr>"])
      show "entry_ok c' ((sy_runs s)[k := r']) (sy_late s) (rn_id ?r) (e\<lparr>ce_cancel := False, ce_m := m\<rparr>)"
        using cat_invD(1) [OF inv e(1)] m c1(1) by (auto simp: entry_ok_def c' same_frame_def filePath_def)
    next
      fix j g assume "j \<noteq> rn_id ?r" "has_run (sy_runs s) j g"
      then show "has_run ((sy_runs s)[k := r']) j g" by (intro has_run_update [OF _ k r'(2,3)]) auto
    qed (use c1 in \<open>auto simp: c' same_frame_def\<close>)
  qed
qed

lemma saveLocked_Pair: "saveLocked ok c = (c', b) \<Longrightarrow> c' = fst (saveLocked ok c)"
  by simp

lemma cat_inv_remove:
  assumes inv: "cat_inv s" and rem: "remove_locked ok i (sy_c s) = (Inr saved, c')"
  shows "cat_inv (s\<lparr>sy_c := c', sy_removes := (ct_dir c', i) # sy_removes s\<rparr>)"
proof -
  let ?c = "sy_c s"
  from rem obtain e where e: "map_of (ct_models ?c) i = Some e"
    and c': "c' = fst (saveLocked ok ((if ce_cancel e then ?c\<lparr>ct_stopped := ce_gen e # ct_stopped ?c\<rparr> else ?c)
        \<lparr>ct_models := AList.delete i (ct_models ?c)\<rparr>))"
    by (auto simp: remove_locked_def Let_def case_prod_beta split: option.splits if_splits)
  have f: "ct_dir c' = ct_dir ?c" "ct_gen c' = ct_gen ?c" "ct_closing c' = ct_closing ?c" "ct_fs c' = ct_fs ?c"
    "ct_models c' = AList.delete i (ct_models ?c)" "\<And>g. stopped c' g \<Longrightarrow> stopped ?c g \<or> g = ce_gen e"
    by (auto simp: c' stopped_def split: if_splits)
  have m: "map_of (ct_models ?c) j = Some e0 \<and> j \<noteq> i" if "map_of (ct_models c') j = Some e0" for j e0
    using that by (cases "j = i") (auto simp: f delete_conv')
  show ?thesis unfolding cat_sys_upd(3)
  proof (rule cat_invI, goal_cases)
    case 1
    then show ?case using cat_inv_dirs(1) [OF inv] by (simp add: f distinct_delete)
  next
    case (2 j e0)
    with m have "map_of (ct_models ?c) j = Some e0" by simp
    from entry_ok_frame [OF cat_invD(1) [OF inv this], of c' "sy_late s" "sy_runs s"] show ?case by (simp add: f)
  next
    case (3 j e0)
    with m [of j e0] have j: "map_of (ct_models ?c) j = Some e0" "j \<noteq> i" by simp_all
    with cat_invD(3) [OF inv e, of j e0] have "ce_gen e0 \<noteq> ce_gen e" by blast
    with f(6) 3 have "stopped ?c (ce_gen e0)" by fastforce
    from cat_invD(2) [OF inv j(1) this] show ?case by (simp add: f)
  next
    case (4 j e0 k e1)
    with m [of j e0] m [of k e1] cat_invD(3) [OF inv] show ?case by (metis cat_sys.select_convs(1))
  next
    case (5 g)
    then have "stopped ?c g \<or> g = ce_gen e" using f(6) by simp
    with cat_inv_dirs(2) [OF inv] cat_invD(1) [OF inv e] show ?case by (simp add: f entry_ok_def) blast
  next
    case 6
    then show ?case using cat_invD(4) [OF inv e] by (simp add: f)
  next
    case (7 d j)
    then have "(d, j) = (ct_dir ?c, i) \<or> (d, j) \<in> set (sy_removes s)" by (simp add: f)
    then show ?case using cat_inv_dirs(4) [OF inv, of d j] cat_invD(4) [OF inv e] by (elim disjE) (simp_all add: f)
  qed
qed

lemma cat_inv_remove_files:
  assumes inv: "cat_inv s" and d: "(dir, i) \<in> set (sy_removes s)"
  shows "cat_inv (s\<lparr>sy_c := remove_files dir i (sy_c s), sy_removes := remove1 (dir, i) (sy_removes s),
      sy_late := (if map_of (ct_models (sy_c s)) i = None then sy_late s else i # sy_late s)\<rparr>)"
proof -
  let ?c = "sy_c s"
  from cat_inv_dirs(4) [OF inv d] have dir: "dir = ct_dir ?c" "dir \<noteq> ''''" by blast+
  have c': "remove_files dir i ?c = ?c\<lparr>ct_fs := (ct_fs ?c)(filePath ?c i := None, partPath ?c i := None)\<rparr>"
    using dir by (simp add: remove_files_def filePath_def partPath_def)
  show ?thesis unfolding cat_sys_upd(4)
    by (rule cat_inv_keep [OF inv])
      (auto simp: c' same_frame_def part_ne_file part_ne_file [symmetric] dest: notin_set_remove1 intro: set_remove1_subset [THEN subsetD])
qed

lemma cat_inv_close:
  assumes inv: "cat_inv s"
  shows "cat_inv (s\<lparr>sy_c := Close (sy_c s)\<rparr>)"
proof -
  have g: "stopped (Close (sy_c s)) g \<Longrightarrow> g < ct_gen (sy_c s)" for g
  proof -
    assume "stopped (Close (sy_c s)) g"
    then consider "stopped (sy_c s) g" | i e where "(i, e) \<in> set (ct_models (sy_c s))" "g = ce_gen e"
      by (auto simp: stopped_def Close_def)
    then show ?thesis
    proof cases
      case 1
      then show ?thesis by (rule cat_inv_dirs(2) [OF inv])
    next
      case 2
      with cat_inv_dirs(1) [OF inv] have "map_of (ct_models (sy_c s)) i = Some e" by simp
      from cat_invD(1) [OF inv this] 2 show ?thesis by (simp add: entry_ok_def)
    qed
  qed
  show ?thesis unfolding cat_sys_upd(1)
  proof (rule cat_invI, goal_cases)
    case 1
    then show ?case using cat_inv_dirs(1) [OF inv] by (simp add: Close_def)
  next
    case (3 i e)
    then show ?case by (simp add: Close_def)
  next
    case (4 i e j e')
    then have "map_of (ct_models (sy_c s)) i = Some e" "map_of (ct_models (sy_c s)) j = Some e'" by (simp_all add: Close_def)
    from cat_invD(3) [OF inv this 4(3)] show ?case .
  next
    case 6
    then show ?case using cat_inv_dirs(3) [OF inv] by (simp add: Close_def)
  next
    case (2 i e)
    then have "map_of (ct_models (sy_c s)) i = Some e" by (simp add: Close_def)
    from entry_ok_frame [OF cat_invD(1) [OF inv this], of "Close (sy_c s)" "sy_late s" "sy_runs s"] show ?case by (simp add: Close_def)
  next
    case (5 g)
    with g show ?case by (simp add: Close_def)
  next
    case (7 d i)
    with cat_inv_dirs(4) [OF inv] show ?case by (simp add: Close_def)
  qed
qed

lemma drop_stale_part_simps [simp]:
  "ct_dir (drop_stale_part i src c) = ct_dir c" "ct_models (drop_stale_part i src c) = ct_models c"
  "ct_closing (drop_stale_part i src c) = ct_closing c" "ct_gen (drop_stale_part i src c) = ct_gen c"
  "ct_stopped (drop_stale_part i src c) = ct_stopped c" "ct_fs (drop_stale_part i src c) (filePath c j) = ct_fs c (filePath c j)"
  by (auto simp: drop_stale_part_def file_remove_def part_ne_file [symmetric] split: option.splits)

lemma new_entry_simps [simp]:
  "cm_ID (ce_m (new_entry i n s f t cl tr g)) = i" "cm_Status (ce_m (new_entry i n s f t cl tr g)) = StatusDownloading"
  by (simp_all add: new_entry_def)

lemma entry_view_ID [simp]: "cm_ID (entry_view e) = cm_ID (ce_m e)"
  by (simp add: entry_view_def Let_def)

text \<open>What a successful \<open>Add\<close> does; a failed one leaves the catalog as it was.\<close>

lemma Add_model_Inr:
  assumes "Add_model purl hfBase ok tmp req c = (Inr (m, saved), c')" "tmp \<noteq> Some ''''"
  obtains d e where "ValidID (cm_ID m)" "cm_ID (ce_m e) = cm_ID m" "cm_Status (ce_m e) = StatusDownloading"
    "d \<noteq> ''''" "ct_dir c \<noteq> '''' \<Longrightarrow> d = ct_dir c" "\<not> ct_closing c"
    "\<And>old. map_of (ct_models c) (cm_ID m) = Some old \<Longrightarrow> cm_Status (ce_m old) = StatusError"
    "c' = fst (saveLocked ok (startLocked (cm_ID m) e ((drop_stale_part (cm_ID m) (cm_Source (ce_m e)) c)\<lparr>ct_dir := d\<rparr>)))"
proof -
  from assms obtain i name src fn tags classes tiers where i: "ValidID i"
    and a: "add_locked ok tmp i name src fn tags classes tiers c = (Inr (m, saved), c')"
    by (auto simp: Add_model_def Let_def split: sum.splits if_splits)
  from a obtain d where d: "(if ct_dir c = '''' then tmp else Some (ct_dir c)) = Some d" "\<not> ct_closing c"
      "\<And>old. map_of (ct_models c) i = Some old \<Longrightarrow> cm_Status (ce_m old) = StatusError"
    and c': "c' = fst (saveLocked ok (startLocked i (new_entry i name src fn tags classes tiers (ct_gen c)) ((drop_stale_part i src c)\<lparr>ct_dir := d\<rparr>)))"
    and m: "m = entry_view (new_entry i name src fn tags classes tiers (ct_gen c))"
    by (auto simp: add_locked_def Let_def case_prod_beta split: if_splits option.splits)
  show thesis
    by (rule that [of "new_entry i name src fn tags classes tiers (ct_gen c)" d])
      (use i d c' m assms(2) in \<open>auto split: if_splits simp: new_entry_def zero_cat_model_def\<close>)
qed

lemma Add_model_Inl: "Add_model purl hfBase ok tmp req c = (Inl err, c') \<Longrightarrow> c' = c"
  by (auto simp: Add_model_def add_locked_def Let_def case_prod_beta drop_stale_part_def file_remove_def split: sum.splits if_splits option.splits)

lemma start_run_simps [simp]: "rn_gen (start_run purl hfBase e) = ce_gen e" "rn_id (start_run purl hfBase e) = cm_ID (ce_m e)"
  "rn_phase (start_run purl hfBase e) \<noteq> RunOver"
  by (auto simp: start_run_def split: sum.splits)

lemma cat_inv_add:
  assumes inv: "cat_inv s" and add: "Add_model purl hfBase ok tmp req (sy_c s) = (Inr (m, saved), c')" "tmp \<noteq> Some ''''"
  shows "cat_inv (s\<lparr>sy_c := c', sy_runs := new_runs purl hfBase (cm_ID m) c' (sy_runs s)\<rparr>)"
proof -
  let ?c = "sy_c s" let ?i = "cm_ID m"
  obtain d e where e: "ValidID ?i" "cm_ID (ce_m e) = ?i" "cm_Status (ce_m e) = StatusDownloading" "d \<noteq> ''''"
    and d: "ct_dir ?c \<noteq> '''' \<Longrightarrow> d = ct_dir ?c"
    and c': "c' = fst (saveLocked ok (startLocked ?i e ((drop_stale_part ?i (cm_Source (ce_m e)) ?c)\<lparr>ct_dir := d\<rparr>)))"
    using Add_model_Inr [OF add] by metis
  define e' where "e' = e\<lparr>ce_gen := ct_gen ?c, ce_cancel := True, ce_written := 0, ce_total := 0\<rparr>"
  have f: "ct_dir c' = d" "ct_gen c' = Suc (ct_gen ?c)" "ct_closing c' = ct_closing ?c" "ct_stopped c' = ct_stopped ?c"
    "ct_models c' = AList.update ?i e' (ct_models ?c)" "ct_fs c' = ct_fs (drop_stale_part ?i (cm_Source (ce_m e)) ?c)"
    by (simp_all add: c' startLocked_def e'_def)
  have e': "ce_gen e' = ct_gen ?c" "cm_ID (ce_m e') = ?i" "cm_Status (ce_m e') = StatusDownloading" by (simp_all add: e'_def e)
  have runs: "new_runs purl hfBase ?i c' (sy_runs s) = start_run purl hfBase e' # sy_runs s"
    by (simp add: new_runs_def f update_conv)
  have m: "j = ?i \<and> e0 = e' \<or> j \<noteq> ?i \<and> map_of (ct_models ?c) j = Some e0" if "map_of (ct_models c') j = Some e0" for j e0
    using that by (cases "j = ?i") (auto simp: f update_conv)
  have old: "ce_gen e0 < ct_gen ?c" if "map_of (ct_models ?c) j = Some e0" for j e0
    using cat_invD(1) [OF inv that] by (simp add: entry_ok_def)
  show ?thesis unfolding cat_sys_upd(2) runs
  proof (rule cat_invI, goal_cases)
    case 1
    then show ?case using cat_inv_dirs(1) [OF inv] by (simp add: f distinct_update)
  next
    case (2 j e0)
    with m [of j e0] consider "j = ?i" "e0 = e'" | "j \<noteq> ?i" "map_of (ct_models ?c) j = Some e0" by auto
    then show ?case
    proof cases
      case 1
      then show ?thesis by (simp add: entry_ok_def e e' f has_run_def)
    next
      case 2
      have "ct_dir ?c = d" using cat_invD(4) [OF inv 2(2)] d by simp
      with entry_ok_frame [OF cat_invD(1) [OF inv 2(2)], of c' "sy_late s" "start_run purl hfBase e' # sy_runs s"] has_run_Cons
      show ?thesis by (simp add: f)
    qed
  next
    case (3 j e0)
    with m [of j e0] consider "e0 = e'" | "map_of (ct_models ?c) j = Some e0" by auto
    then show ?case
    proof cases
      case 1
      with 3 have "stopped ?c (ct_gen ?c)" by (simp add: stopped_def f e')
      with cat_inv_dirs(2) [OF inv] show ?thesis by blast
    next
      case 2
      with 3 cat_invD(2) [OF inv 2] show ?thesis by (simp add: f stopped_def)
    qed
  next
    case (4 j e0 k e1)
    then have mem: "map_of (ct_models c') j = Some e0" "map_of (ct_models c') k = Some e1" by simp_all
    from m [OF mem(1)] m [OF mem(2)] old [of j e0] old [of k e1] cat_invD(3) [OF inv, of j e0 k e1] 4(3) show ?case
      using e'(1) by fastforce
  next
    case (5 g)
    then have "stopped ?c g" by (simp add: stopped_def f)
    with cat_inv_dirs(2) [OF inv] show ?case by (simp add: f less_SucI)
  next
    case 6
    then show ?case using e(4) by (simp add: f)
  next
    case (7 r j)
    then have "(r, j) \<in> set (sy_removes s)" by simp
    from cat_inv_dirs(4) [OF inv this] d show ?case by (auto simp: f)
  qed
qed

lemma cat_inv_step:
  assumes "cat_step s s'" "cat_inv s"
  shows "cat_inv s'"
  using assms(1)
proof (cases rule: cat_step.cases)
  case (cs_add_error purl hfBase ok tmp req err c')
  have "s' = s" using Add_model_Inl [OF cs_add_error(2)] cs_add_error(1) by (cases s) simp
  with assms(2) show ?thesis by simp
next
  case (cs_add purl hfBase ok tmp req m saved c')
  then show ?thesis using cat_inv_add [OF assms(2)] by blast
next
  case (cs_update ok i p res c')
  then show ?thesis using cat_inv_update [OF assms(2)] by blast
next
  case (cs_remove ok i saved c')
  then show ?thesis using cat_inv_remove [OF assms(2)] by blast
next
  case (cs_remove_files dir i)
  then show ?thesis using cat_inv_remove_files [OF assms(2)] by blast
next
  case cs_close
  then show ?thesis using cat_inv_close [OF assms(2)] by blast
next
  case (cs_attempt k n env r' c')
  then show ?thesis using cat_inv_attempt [OF assms(2)] by blast
next
  case (cs_hash k sha read_meta r' c')
  then show ?thesis using cat_inv_hash [OF assms(2)] by blast
next
  case (cs_finish k res rename_ok save_ok r' c')
  then show ?thesis using cat_inv_finish [OF assms(2)] by blast
qed

lemma cat_inv_reachable: "cat_reachable s \<Longrightarrow> cat_inv s"
proof -
  have start: "cat_inv (start_sys dir keep fs)" for dir keep fs
    by (simp add: cat_inv_def start_sys_def empty_catalog_def stopped_def)
  have "cat_inv s'" if "cat_step\<^sup>*\<^sup>* s0 s'" "cat_inv s0" for s0 s'
    using that by induction (auto intro: cat_inv_step)
  then show "cat_reachable s \<Longrightarrow> cat_inv s" using start by (auto simp: cat_reachable_def)
qed

text \<open>
  C9. The catalog under every interleaving of additions, updates, removals (whose files go after
  the lock), downloads and shutdown: ids are unique and valid, an entry is downloading, ready or
  failed; a ready one has its RAM estimate, classes and resident size derived from what was
  read of its file, and its file is there unless a removal of an earlier model of that id
  deleted its files late; a downloading one has a live goroutine unless the catalog closes.
\<close>

theorem catalog_invariant:
  assumes "cat_reachable s" "map_of (ct_models (sy_c s)) i = Some e"
  shows "distinct (keys_of (ct_models (sy_c s))) \<and> cm_ID (ce_m e) = i \<and> ValidID i \<and>
    cm_Status (ce_m e) \<in> {StatusDownloading, StatusReady, StatusError} \<and>
    (cm_Status (ce_m e) = StatusReady \<longrightarrow> model_ok (ce_m e) \<and> (i \<in> set (sy_late s) \<or> ct_fs (sy_c s) (filePath (sy_c s) i) \<noteq> None)) \<and>
    (cm_Status (ce_m e) = StatusDownloading \<longrightarrow> has_run (sy_runs s) i (ce_gen e) \<or> ct_closing (sy_c s))"
  using cat_invD(1) [OF cat_inv_reachable [OF assms(1)] assms(2)] cat_inv_dirs(1) [OF cat_inv_reachable [OF assms(1)]]
  unfolding entry_ok_def by blast

subsection \<open>Resuming a download\<close>

text \<open>
  A source that holds \<open>S\<close>: what is read is a prefix of the rest from the offset asked for, all of
  it when the body ends without an error.  Over HTTP a 206 reply with the right range start
  continues at the offset, a 200 reply starts over.
\<close>

definition reads_of :: "fetch_env \<Rightarrow> string" where
  "reads_of env = concat (map fst (fe_reads env))"

definition delivers :: "fetch_env \<Rightarrow> string \<Rightarrow> bool" where
  "delivers env rest \<longleftrightarrow> prefix (reads_of env) rest \<and> (fe_end env = ReadEOF \<longrightarrow> reads_of env = rest)"

definition honest :: "string \<Rightarrow> fetch_env \<Rightarrow> model_source \<Rightarrow> string \<Rightarrow> bool" where
  "honest S env src part \<longleftrightarrow>
     (if ms_Path src \<noteq> '''' then
        (case fe_local env of None \<Rightarrow> True | Some (regular, sz) \<Rightarrow> sz = length S \<and> delivers env (drop (length part) S))
      else case fe_reply env of
        None \<Rightarrow> True
      | Some resp \<Rightarrow> if hr_StatusCode resp = 206 then delivers env (drop (length part) S)
          else if hr_StatusCode resp = 200 then delivers env S else True)"

text \<open>The read loop appends a prefix of what is read, all of it unless a write fails.\<close>

lemma read_loop_prefix:
  "read_loop rs fin part w = (part', w', err) \<Longrightarrow>
     \<exists>q. part' = part @ q \<and> prefix q (concat (map fst rs)) \<and>
       (err = None \<longrightarrow> fin = ReadEOF \<and> q = concat (map fst rs))"
proof (induction rs arbitrary: part w)
  case Nil
  then show ?case by (auto simp: prefix_def split: read_end.splits)
next
  case (Cons r rs)
  obtain bytes k where r: "r = (bytes, k)" by (cases r)
  show ?case
  proof (cases k)
    case None
    with Cons.prems r have "read_loop rs fin (part @ bytes) (w + int (length bytes)) = (part', w', err)" by simp
    from Cons.IH [OF this] show ?thesis by (auto simp: r prefix_def)
  next
    case (Some n)
    show ?thesis
    proof (cases "bytes = []")
      case True
      with Cons.prems r Some have "read_loop rs fin part w = (part', w', err)" by simp
      from Cons.IH [OF this] show ?thesis by (simp add: r True)
    next
      case False
      with Cons.prems r Some have "part' = part @ take n bytes" "err = Some WriteFailed" by auto
      then show ?thesis by (intro exI [of _ "take n bytes"]) (simp add: r take_is_prefix)
    qed
  qed
qed

lemma fetch_body_prefix:
  assumes "prefix p S" "delivers env (drop (length p) S)" "fetch_body env p tot = (p', w, t, err)"
  shows "prefix p' S \<and> (err = None \<longrightarrow> p' = S)"
proof -
  obtain T where T: "S = p @ T" using assms(1) by (auto simp: prefix_def)
  obtain q w' e where rl: "read_loop (fe_reads env) (fe_end env) p (int (length p)) = (q, w', e)" by (cases "read_loop (fe_reads env) (fe_end env) p (int (length p))")
  from read_loop_prefix [OF this] obtain q' where q': "q = p @ q'" "prefix q' (reads_of env)"
    "e = None \<longrightarrow> fe_end env = ReadEOF \<and> q' = reads_of env" by (auto simp: reads_of_def)
  have "p' = q" "err = None \<Longrightarrow> e = None" using assms(3) rl by (auto simp: fetch_body_def split: option.splits)
  moreover from assms(2) have "prefix (reads_of env) T" "fe_end env = ReadEOF \<longrightarrow> reads_of env = T" by (auto simp: delivers_def T)
  ultimately show ?thesis using q' T by (auto intro: prefix_order.trans)
qed

definition part_content :: "string option \<Rightarrow> string" where
  "part_content part = (case part of None \<Rightarrow> '''' | Some p \<Rightarrow> p)"

lemma fetch_http_prefix:
  assumes pre: "prefix p S" and hon: "honest S env src p" "ms_Path src = ''''"
    and f: "fetch_http env p = (p', counters, err)"
  shows "prefix p' S \<and> (err = None \<longrightarrow> p' = S)"
proof (cases "fe_request env \<and> fe_reply env \<noteq> None")
  case False
  with f pre show ?thesis by (auto simp: fetch_http_def split: if_splits)
next
  case True
  then obtain resp where resp: "fe_request env" "fe_reply env = Some resp" by blast
  have restart: "fetch_restart env p = (q, e) \<Longrightarrow> q = '''' \<or> q = p \<and> e \<noteq> None" for q e
    by (auto simp: fetch_restart_def split: if_splits)
  consider (resume) "hr_StatusCode resp = 206 \<and> p \<noteq> '''' \<and> rangeStart (hr_ContentRange resp) = int (length p)"
    | (fresh) "hr_StatusCode resp = 200" | (again) "hr_StatusCode resp = 416 \<or> hr_StatusCode resp = 206"
    | (bad) "hr_StatusCode resp \<noteq> 200" "hr_StatusCode resp \<noteq> 206" "hr_StatusCode resp \<noteq> 416" by blast
  then show ?thesis
  proof cases
    case resume
    with hon resp have "delivers env (drop (length p) S)" by (simp add: honest_def)
    with fetch_body_prefix [OF pre this] f resume resp show ?thesis
      by (auto simp: fetch_http_def split: prod.splits)
  next
    case fresh
    then have d: "delivers env (drop (length ('''' :: string)) S)" using hon resp by (simp add: honest_def)
    from f resp fresh obtain q e where q: "fetch_restart env p = (q, e)" by (cases "fetch_restart env p")
    from restart [OF q] f resp fresh q pre fetch_body_prefix [OF _ d] show ?thesis
      by (auto simp: fetch_http_def split: prod.splits option.splits)
  next
    case again
    obtain q e where q: "fetch_restart env p = (q, e)" by (cases "fetch_restart env p")
    show ?thesis
    proof (cases "hr_StatusCode resp = 206 \<and> p \<noteq> '''' \<and> rangeStart (hr_ContentRange resp) = int (length p)")
      case True
      with hon resp have "delivers env (drop (length p) S)" by (simp add: honest_def)
      with fetch_body_prefix [OF pre this] f True resp show ?thesis by (auto simp: fetch_http_def split: prod.splits)
    next
      case False
      with again have "\<not> hr_StatusCode resp = 200" by auto
      with False again f resp q restart [OF q] pre show ?thesis
        by (auto simp: fetch_http_def split: prod.splits option.splits if_splits)
    qed
  next
    case bad
    with f resp pre show ?thesis by (auto simp: fetch_http_def Let_def)
  qed
qed

lemma fetch_local_prefix:
  assumes pre: "prefix p S" and hon: "honest S env src p" "ms_Path src \<noteq> ''''"
    and f: "fetch_local env p = (p', counters, err)"
  shows "prefix p' S \<and> (err = None \<longrightarrow> p' = S)"
proof (cases "fe_local env")
  case None
  with f pre show ?thesis by (auto simp: fetch_local_def)
next
  case (Some rs)
  obtain regular sz where rs: "rs = (regular, sz)" by (cases rs)
  from hon Some rs have d: "sz = length S" "delivers env (drop (length p) S)" by (simp_all add: honest_def)
  moreover have "\<not> length p > length S" using pre by (auto simp: prefix_def)
  ultimately show ?thesis using fetch_body_prefix [OF pre d(2)] f Some rs pre
    by (auto simp: fetch_local_def split: if_splits prod.splits)
qed

lemma fetch_prefix:
  assumes "prefix (part_content part) S" "honest S env src (part_content part)" "fetch env src part = (part', counters, err)"
  shows "prefix (part_content part') S \<and> (err = None \<longrightarrow> part' = Some S)"
proof (cases "fe_open env \<and> fe_seek env")
  case False
  with assms(1,3) show ?thesis by (auto simp: fetch_def Let_def part_content_def split: if_splits option.splits)
next
  case True
  let ?p = "part_content part"
  let ?f = "if ms_Path src \<noteq> '''' then fetch_local env ?p else fetch_http env ?p"
  obtain p' cs e where f: "?f = (p', cs, e)" by (cases ?f)
  have "fetch env src part = (case ?f of (p, cs, e) \<Rightarrow> (Some p, cs, e))"
    using True by (simp add: fetch_def part_content_def Let_def)
  with f assms(3) have "part' = Some p'" "err = e" by simp_all
  moreover have "prefix p' S \<and> (e = None \<longrightarrow> p' = S)"
    using fetch_http_prefix [OF assms(1,2)] fetch_local_prefix [OF assms(1,2)] f by (auto split: if_splits)
  ultimately show ?thesis by (simp add: part_content_def)
qed

text \<open>The attempts of a run, until they end or the answers run out.\<close>

fun run_attempts :: "fetch_env list \<Rightarrow> run \<Rightarrow> catalog \<Rightarrow> run \<times> catalog" where
  "run_attempts [] r c = (r, c)"
| "run_attempts (env # envs) r c =
     (case rn_phase r of
        Fetching n \<Rightarrow> (case attempt_step env n r c of (r, c) \<Rightarrow> run_attempts envs r c)
      | _ \<Rightarrow> (r, c))"

definition part_of :: "run \<Rightarrow> catalog \<Rightarrow> string" where
  "part_of r c = part_content (ct_fs c (partPath c (rn_id r)))"

fun honest_all :: "string \<Rightarrow> fetch_env list \<Rightarrow> run \<Rightarrow> catalog \<Rightarrow> bool" where
  "honest_all S [] r c \<longleftrightarrow> True"
| "honest_all S (env # envs) r c \<longleftrightarrow>
     (case rn_phase r of
        Fetching n \<Rightarrow> honest S env (rn_src r) (part_of r c) \<and> (case attempt_step env n r c of (r, c) \<Rightarrow> honest_all S envs r c)
      | _ \<Rightarrow> True)"

lemma store_counters_simps [simp]:
  "ct_fs (store_counters g i cs c) = ct_fs c" "ct_dir (store_counters g i cs c) = ct_dir c"
  "ct_stopped (store_counters g i cs c) = ct_stopped c"
  by (auto simp: store_counters_def split: option.splits)

lemma attempt_part:
  assumes "prefix (part_of r c) S" "honest S env (rn_src r) (part_of r c)" "attempt_step env n r c = (r', c')"
  shows "prefix (part_of r' c') S \<and> (rn_phase r' = Hashing \<longrightarrow> ct_fs c' (partPath c' (rn_id r')) = Some S) \<and>
    (\<forall>m. rn_phase r' = Fetching m \<longrightarrow> m = Suc n \<and> n \<noteq> downloadAttempts)"
proof -
  obtain part cs err where f: "fetch env (rn_src r) (ct_fs c (partPath c (rn_id r))) = (part, cs, err)"
    by (cases "fetch env (rn_src r) (ct_fs c (partPath c (rn_id r)))")
  from assms(3) f have fs: "ct_fs c' = (ct_fs c)(partPath c (rn_id r) := part)" "ct_dir c' = ct_dir c" "rn_id r' = rn_id r"
    by (auto simp: attempt_step_def Let_def split: option.splits if_splits)
  have "prefix (part_content part) S \<and> (err = None \<longrightarrow> part = Some S)"
    using fetch_prefix [OF assms(1,2) [unfolded part_of_def] f] .
  moreover have "rn_phase r' = Hashing \<longrightarrow> err = None" "\<forall>m. rn_phase r' = Fetching m \<longrightarrow> m = Suc n \<and> n \<noteq> downloadAttempts"
    using assms(3) f by (auto simp: attempt_step_def Let_def split: option.splits if_splits)
  ultimately show ?thesis by (simp add: part_of_def fs partPath_cong [OF fs(2)])
qed

lemma run_attempts_part:
  assumes "prefix (part_of r c) S" "honest_all S envs r c" "run_attempts envs r c = (r', c')"
    and "rn_phase r = Fetching n \<or> rn_phase r = Hashing \<and> ct_fs c (partPath c (rn_id r)) = Some S \<or> rn_phase r \<noteq> Hashing"
  shows "prefix (part_of r' c') S \<and> (rn_phase r' = Hashing \<longrightarrow> ct_fs c' (partPath c' (rn_id r')) = Some S)"
  using assms
proof (induction envs arbitrary: r c n)
  case Nil
  then show ?case by auto
next
  case (Cons env envs)
  show ?case
  proof (cases "\<exists>n. rn_phase r = Fetching n")
    case False
    with Cons.prems show ?thesis by (auto split: run_phase.splits)
  next
    case True
    then obtain k where k: "rn_phase r = Fetching k" by blast
    obtain r1 c1 where a: "attempt_step env k r c = (r1, c1)" by (cases "attempt_step env k r c")
    from Cons.prems k a have "honest S env (rn_src r) (part_of r c)" "honest_all S envs r1 c1" "run_attempts envs r1 c1 = (r', c')" by simp_all
    with attempt_part [OF Cons.prems(1) this(1) a] Cons.IH [of r1 c1] show ?thesis by blast
  qed
qed

lemma run_attempts_bound:
  assumes "\<And>n. rn_phase r = Fetching n \<Longrightarrow> n \<le> downloadAttempts \<and> downloadAttempts < n + length envs"
    and "run_attempts envs r c = (r', c')"
  shows "rn_phase r' \<noteq> Fetching m"
  using assms
proof (induction envs arbitrary: r c)
  case Nil
  then show ?case using Nil.prems(1) [of m] by auto
next
  case (Cons env envs)
  show ?case
  proof (cases "\<exists>n. rn_phase r = Fetching n")
    case False
    with Cons.prems show ?thesis by (auto split: run_phase.splits)
  next
    case True
    then obtain k where k: "rn_phase r = Fetching k" by blast
    obtain r1 c1 where a: "attempt_step env k r c = (r1, c1)" by (cases "attempt_step env k r c")
    have ph: "m' = Suc k \<and> k \<noteq> downloadAttempts" if "rn_phase r1 = Fetching m'" for m'
      using a that by (auto simp: attempt_step_def Let_def split: prod.splits option.splits if_splits)
    from Cons.prems k a have run: "run_attempts envs r1 c1 = (r', c')" by simp
    show ?thesis
    proof (rule Cons.IH [OF _ run])
      fix n assume "rn_phase r1 = Fetching n"
      with ph Cons.prems(1) [OF k] show "n \<le> downloadAttempts \<and> downloadAttempts < n + length envs" by fastforce
    qed
  qed
qed

text \<open>
  A download resumes correctly: against a source that holds \<open>S\<close>, whatever fails or is cut
  short, after any number of attempts the part file is a prefix of \<open>S\<close>; after three attempts
  the loop has ended; and when it goes on to the hash, the digest and size are those of \<open>S\<close>.
\<close>

theorem download_resumes:
  assumes "rn_phase r = Fetching 1" "prefix (part_of r c) S" "honest_all S envs r c"
    and "run_attempts envs r c = (r', c')"
  shows "prefix (part_of r' c') S \<and> (downloadAttempts \<le> length envs \<longrightarrow> (\<forall>n. rn_phase r' \<noteq> Fetching n)) \<and>
    (rn_phase r' = Hashing \<longrightarrow> rn_phase (fst (hash_step sha read_meta r' c')) =
       Locking (case read_meta S of None \<Rightarrow> Inl NotGGUF | Some meta \<Rightarrow> Inr (sha S, int (length S), meta)))"
proof -
  have "prefix (part_of r' c') S \<and> (rn_phase r' = Hashing \<longrightarrow> ct_fs c' (partPath c' (rn_id r')) = Some S)"
    by (rule run_attempts_part [OF assms(2-4)]) (simp add: assms(1))
  moreover have "rn_phase r' \<noteq> Fetching n" if "downloadAttempts \<le> length envs" for n
    by (rule run_attempts_bound [OF _ assms(4)]) (use that in \<open>auto simp: assms(1) downloadAttempts_def\<close>)
  ultimately show ?thesis by (auto simp: hash_step_def split: option.splits)
qed

subsection \<open>A late removal\<close>

definition sample_purl :: "string \<Rightarrow> src_url option" where
  "sample_purl s = Some \<lparr>su_Scheme = ''file'', su_Host = '''', su_Path = ''/m.gguf'', su_String = s\<rparr>"

definition sample_meta :: meta where
  "sample_meta = \<lparr>mt_Arch = ''llama'', mt_Params = ''1B'', mt_Quant = ''Q4'', mt_CtxTrain = 4096, mt_Layers = 1, mt_KVHeads = 1,
     mt_HeadDim = 1, mt_License = '''', mt_SparseBytes = 0\<rparr>"

definition sample_add :: "catalog \<Rightarrow> (cat_error + cat_model \<times> bool) \<times> catalog" where
  "sample_add c = Add_model sample_purl '''' True None
     \<lparr>ar_Source = ''file:///m.gguf'', ar_ID = ''m'', ar_Name = '''', ar_Tags = [], ar_RecommendedClasses = [], ar_RecommendedTiers = []\<rparr> c"

definition sample_fetch :: fetch_env where
  "sample_fetch = \<lparr>fe_open = True, fe_seek = True, fe_truncate = True, fe_rewind = True, fe_local = Some (True, 4), fe_local_seek = True,
     fe_request = True, fe_reply = None, fe_reads = [(''GG'', None), (''UF'', None)], fe_end = ReadEOF, fe_sync = True\<rparr>"

definition cat0 :: catalog where "cat0 = empty_catalog ''d'' True Map.empty"
definition cat1 :: catalog where "cat1 = snd (sample_add cat0)"
definition cat2 :: catalog where "cat2 = snd (remove_locked True ''m'' cat1)"
definition cat3 :: catalog where "cat3 = snd (sample_add cat2)"
definition run3 :: run where "run3 = start_run sample_purl '''' (the (map_of (ct_models cat3) ''m''))"
definition att4 :: "run \<times> catalog" where "att4 = attempt_step sample_fetch 1 run3 cat3"
definition hash5 :: "run \<times> catalog" where "hash5 = hash_step (\<lambda>s. s) (\<lambda>_. Some sample_meta) (fst att4) (snd att4)"
definition fin6 :: "run \<times> catalog" where "fin6 = finish_run True True (Inr (''GGUF'', 4, sample_meta)) (fst hash5) (snd hash5)"

lemmas cat_sample_defs = cat0_def cat1_def cat2_def cat3_def run3_def att4_def hash5_def fin6_def

definition sample_sys :: cat_sys where
  "sample_sys = \<lparr>sy_c = snd fin6, sy_runs = [fst fin6, start_run sample_purl '''' (the (map_of (ct_models cat1) ''m''))],
     sy_removes = [(''d'', ''m'')], sy_late = []\<rparr>"

lemma finish_ready:
  assumes "map_of (ct_models c) (rn_id r) = Some e" "ce_gen e = rn_gen r" "ct_fs c (partPath c (rn_id r)) \<noteq> None"
  shows "\<exists>e'. map_of (ct_models (snd (finish_run True ok (Inr (sm, sz, meta)) r c))) (rn_id r) = Some e' \<and>
     cm_Status (ce_m e') = StatusReady \<and> ct_dir (snd (finish_run True ok (Inr (sm, sz, meta)) r c)) = ct_dir c \<and>
     rn_id (fst (finish_run True ok (Inr (sm, sz, meta)) r c)) = rn_id r"
  using assms by (auto simp: finish_run_def rename_part_def Let_def update_conv split: option.splits)

lemma sample_cat_facts:
  "case fst (sample_add cat0) of Inr (m, b) \<Rightarrow> cm_ID m = ''m'' | _ \<Rightarrow> False"
  "case fst (sample_add cat2) of Inr (m, b) \<Rightarrow> cm_ID m = ''m'' | _ \<Rightarrow> False"
  "fst (remove_locked True ''m'' cat1) = Inr True" "ct_dir cat2 = ''d''" "rn_phase run3 = Fetching 1" "rn_phase (fst att4) = Hashing"
  "rn_phase (fst hash5) = Locking (Inr (''GGUF'', 4, sample_meta))"
  "map_of (ct_models cat1) ''m'' \<noteq> None" "map_of (ct_models cat3) ''m'' \<noteq> None" "ct_dir (snd hash5) = ''d''"
  "rn_id (fst hash5) = ''m''" "map_option ce_gen (map_of (ct_models (snd hash5)) ''m'') = Some (rn_gen (fst hash5))"
  "ct_fs (snd hash5) (partPath (snd hash5) ''m'') \<noteq> None"
  by code_simp+

lemma sample_ready: "\<exists>e. map_of (ct_models (snd fin6)) ''m'' = Some e \<and> cm_Status (ce_m e) = StatusReady \<and> ct_dir (snd fin6) = ''d''"
proof -
  obtain e where "map_of (ct_models (snd hash5)) (rn_id (fst hash5)) = Some e" "ce_gen e = rn_gen (fst hash5)"
    using sample_cat_facts(11,12) by auto
  from finish_ready [OF this, of True "''GGUF''" 4 sample_meta] sample_cat_facts(10,11,13) show ?thesis unfolding fin6_def by auto
qed

text \<open>The steps: add, remove (files pending), add again, download, hash, finish.\<close>

lemma sample_add_step:
  assumes "case fst (sample_add c) of Inr (m, b) \<Rightarrow> cm_ID m = ''m'' | _ \<Rightarrow> False" "map_of (ct_models (snd (sample_add c))) ''m'' \<noteq> None"
  shows "cat_step \<lparr>sy_c = c, sy_runs = rs, sy_removes = rm, sy_late = l\<rparr> \<lparr>sy_c = snd (sample_add c),
    sy_runs = start_run sample_purl '''' (the (map_of (ct_models (snd (sample_add c))) ''m'')) # rs, sy_removes = rm, sy_late = l\<rparr>"
proof -
  from assms(1) obtain m b where m: "sample_add c = (Inr (m, b), snd (sample_add c))" "cm_ID m = ''m''"
    by (cases "sample_add c") (auto split: sum.splits)
  from assms(2) obtain e where e: "map_of (ct_models (snd (sample_add c))) ''m'' = Some e" by blast
  show ?thesis
    using cs_add [of sample_purl "[]" True None _ "\<lparr>sy_c = c, sy_runs = rs, sy_removes = rm, sy_late = l\<rparr>" m b "snd (sample_add c)"] e m
    unfolding sample_add_def by (simp add: new_runs_def)
qed

lemma sample_sys_reachable: "cat_reachable sample_sys"
proof -
  define r1 where "r1 = start_run sample_purl '''' (the (map_of (ct_models cat1) ''m''))"
  let ?sys = "\<lambda>c rs rm. \<lparr>sy_c = c, sy_runs = rs, sy_removes = rm, sy_late = []\<rparr>"
  have 1: "cat_step (start_sys ''d'' True Map.empty) (?sys cat1 [r1] [])"
    using sample_add_step [of cat0 "[]" "[]" "[]"] sample_cat_facts(1,8) by (simp add: start_sys_def cat0_def cat1_def r1_def)
  have 2: "cat_step (?sys cat1 [r1] []) (?sys cat2 [r1] [(''d'', ''m'')])"
    using cs_remove [of True "''m''" "?sys cat1 [r1] []" True cat2] sample_cat_facts(3,4)
    by (cases "remove_locked True ''m'' cat1") (simp add: cat2_def)
  have 3: "cat_step (?sys cat2 [r1] [(''d'', ''m'')]) (?sys cat3 [run3, r1] [(''d'', ''m'')])"
    using sample_add_step [of cat2 "[r1]" "[(''d'', ''m'')]" "[]"] sample_cat_facts(2,9) by (simp add: cat3_def run3_def)
  have 4: "cat_step (?sys cat3 [run3, r1] [(''d'', ''m'')]) (?sys (snd att4) [fst att4, r1] [(''d'', ''m'')])"
    using cs_attempt [of 0 "?sys cat3 [run3, r1] [(''d'', ''m'')]" 1 sample_fetch "fst att4" "snd att4"] sample_cat_facts(5)
    by (simp add: att4_def)
  have 5: "cat_step (?sys (snd att4) [fst att4, r1] [(''d'', ''m'')]) (?sys (snd hash5) [fst hash5, r1] [(''d'', ''m'')])"
    using cs_hash [of 0 "?sys (snd att4) [fst att4, r1] [(''d'', ''m'')]" "\<lambda>s. s" "\<lambda>_. Some sample_meta" "fst hash5" "snd hash5"] sample_cat_facts(6)
    by (simp add: hash5_def)
  have 6: "cat_step (?sys (snd hash5) [fst hash5, r1] [(''d'', ''m'')]) sample_sys"
    using cs_finish [of 0 "?sys (snd hash5) [fst hash5, r1] [(''d'', ''m'')]" _ True True "fst fin6" "snd fin6"] sample_cat_facts(7)
    by (simp add: fin6_def sample_sys_def r1_def)
  from 1 2 3 4 5 6 have "cat_step\<^sup>*\<^sup>* (start_sys ''d'' True Map.empty) sample_sys"
    by (meson converse_rtranclp_into_rtranclp rtranclp.rtrancl_refl)
  then show ?thesis unfolding cat_reachable_def by blast
qed

text \<open>The pending removal then deletes the file of the new, ready model.\<close>

lemma late_removal:
  "\<exists>s e. cat_reachable s \<and> map_of (ct_models (sy_c s)) ''m'' = Some e \<and> cm_Status (ce_m e) = StatusReady \<and>
     ct_fs (sy_c s) (filePath (sy_c s) ''m'') = None"
proof -
  obtain e where e: "map_of (ct_models (snd fin6)) ''m'' = Some e" "cm_Status (ce_m e) = StatusReady" "ct_dir (snd fin6) = ''d''"
    using sample_ready by blast
  define s where "s = sample_sys\<lparr>sy_c := remove_files ''d'' ''m'' (snd fin6), sy_removes := [], sy_late := [''m'']\<rparr>"
  have "cat_step sample_sys s"
    using cs_remove_files [of "''d''" "''m''" sample_sys] e by (simp add: s_def sample_sys_def)
  then have "cat_reachable s"
    using sample_sys_reachable unfolding cat_reachable_def by (meson rtranclp.rtrancl_into_rtrancl)
  moreover have "map_of (ct_models (sy_c s)) ''m'' = Some e" "ct_fs (sy_c s) (filePath (sy_c s) ''m'') = None"
    using e by (simp_all add: s_def remove_files_def filePath_def)
  ultimately show ?thesis using e(2) by blast
qed

theorem catalog_invariant_witness:
  "\<exists>e. map_of (ct_models (sy_c sample_sys)) ''m'' = Some e \<and> model_ok (ce_m e) \<and> ct_fs (sy_c sample_sys) (filePath (sy_c sample_sys) ''m'') \<noteq> None"
proof -
  obtain e where e: "map_of (ct_models (sy_c sample_sys)) ''m'' = Some e" "cm_Status (ce_m e) = StatusReady"
    using sample_ready by (auto simp: sample_sys_def)
  with catalog_invariant [OF sample_sys_reachable e(1)] show ?thesis by (auto simp: sample_sys_def)
qed

theorem download_resumes_witness:
  "prefix (part_of (fst att4) (snd att4)) ''GGUF'' \<and> rn_phase (fst (hash_step (\<lambda>s. s) (\<lambda>_. Some sample_meta) (fst att4) (snd att4))) =
     Locking (Inr (''GGUF'', 4, sample_meta))"
proof -
  have "honest_all ''GGUF'' [sample_fetch] run3 cat3" "prefix (part_of run3 cat3) ''GGUF''" by code_simp+
  moreover have "run_attempts [sample_fetch] run3 cat3 = (fst att4, snd att4)"
    by (simp add: sample_cat_facts(5) [simplified] att4_def split: prod.split)
  ultimately show ?thesis
    using download_resumes [OF sample_cat_facts(5), of cat3 "''GGUF''" "[sample_fetch]" "fst att4" "snd att4" "\<lambda>s. s" "\<lambda>_. Some sample_meta"]
      sample_cat_facts(6) by simp
qed

end
