(* ===== verification/Superborg.thy ===== *)
theory Superborg
  imports Gateway
begin

text \<open>
  Super Borg pools (\<^verbatim>\<open>controller/gateway/superborg.go\<close>): the choice of the orchestrator and its
  workers, the collector of a streamed answer with its tool calls, the delegation of subtasks,
  the emitter of the client's answer, and the loop of \<open>serveSuperborg\<close>.

  JSON documents are decoded by arguments (\<open>jev\<close> an event of a stream, \<open>jwhole\<close> a completion,
  \<open>jtasks\<close> the arguments of a delegate call), the text of prompts and error messages is built by
  arguments, and the network is the \<open>exchange\<close> of \<open>forward\<close>.  An attempt at the orchestrator
  takes one environment from a list; a list that runs out is \<open>None\<close>.
\<close>

abbreviation "KindSuperborg \<equiv> ''superborg''"

definition superborgMaxRounds :: nat where
  "superborgMaxRounds = 2"

definition superborgWorkerMaxTokens :: int where
  "superborgWorkerMaxTokens = 512"

definition superborgResultMaxBytes :: nat where
  "superborgResultMaxBytes = 3000"

subsection \<open>Text helpers\<close>

text \<open>\<open>utf8.RuneStart\<close> of a byte, and \<open>clip\<close>; the ellipsis is three bytes.\<close>

definition rune_start :: "char \<Rightarrow> bool" where
  "rune_start c \<longleftrightarrow> (of_char c :: nat) div 64 \<noteq> 2"

fun rune_cut :: "string \<Rightarrow> nat \<Rightarrow> nat" where
  "rune_cut s 0 = 0"
| "rune_cut s (Suc n) = (if rune_start (s ! Suc n) then Suc n else rune_cut s n)"

definition ellipsis :: string where
  "ellipsis = [CHR 0xE2, CHR 0x80, CHR 0xA6]"

definition clip :: "string \<Rightarrow> nat \<Rightarrow> string" where
  "clip s n = (if length s \<le> n then s else take (rune_cut s n) s @ ellipsis)"

text \<open>\<open>strings.Cut\<close> at a separator: what follows its first occurrence.\<close>

fun cut_after :: "string \<Rightarrow> string \<Rightarrow> string option" where
  "cut_after sep [] = (if sep = [] then Some [] else None)"
| "cut_after sep (c # cs) = (if has_prefix (c # cs) sep then Some (drop (length sep) (c # cs)) else cut_after sep cs)"

definition stripThink :: "string \<Rightarrow> string" where
  "stripThink t = trim_space (case cut_after ''</think>'' t of Some after \<Rightarrow> after | None \<Rightarrow> t)"

definition zero_usage :: usage where
  "zero_usage = \<lparr>u_PromptTokens = 0, u_CompletionTokens = 0, u_CachedTokens = 0, u_PromptTPS = 0, u_GenTPS = 0\<rparr>"

definition usage_add :: "usage \<Rightarrow> usage \<Rightarrow> usage" where
  "usage_add u v = u\<lparr>u_PromptTokens := u_PromptTokens u + u_PromptTokens v,
     u_CompletionTokens := u_CompletionTokens u + u_CompletionTokens v, u_CachedTokens := u_CachedTokens u + u_CachedTokens v\<rparr>"

subsection \<open>Orchestrator and workers\<close>

definition workerName :: "backend \<Rightarrow> string" where
  "workerName b = (if b_Alias b \<noteq> '''' then b_Alias b else b_NodeID b)"

definition is_named :: "superborg_cfg \<Rightarrow> backend \<Rightarrow> bool" where
  "is_named sb b \<longleftrightarrow> sb_Orchestrator sb \<noteq> '''' \<and> (b_NodeID b = sb_Orchestrator sb \<or> b_Alias b = sb_Orchestrator sb)"

text \<open>The order of the sort: tool-capable first, then the larger model, the faster node, the id.\<close>

definition orch_key :: "(string \<Rightarrow> string list) \<Rightarrow> (string \<Rightarrow> int) \<Rightarrow> backend \<Rightarrow> bool \<times> int \<times> real \<times> string" where
  "orch_key tags msize b = (\<not> canCallTools tags b, - msize (b_Model b), - b_Speed b, b_NodeID b)"

fun scan_pool :: "superborg_cfg \<Rightarrow> (node_id \<Rightarrow> bool) \<Rightarrow> backend list \<Rightarrow> backend list \<Rightarrow> backend + backend list" where
  "scan_pool sb tried cands [] = Inr cands"
| "scan_pool sb tried cands (b # bs) =
     (if tried (b_NodeID b) \<or> b_OrchestratorOnly b then scan_pool sb tried cands bs
      else if is_named sb b then Inl b
      else scan_pool sb tried (cands @ [b]) bs)"

definition pickOrchestrator ::
  "(string \<Rightarrow> string list) \<Rightarrow> (string \<Rightarrow> int) \<Rightarrow> backend list \<Rightarrow> superborg_cfg \<Rightarrow> backend list \<Rightarrow> (node_id \<Rightarrow> bool) \<Rightarrow> backend option" where
  "pickOrchestrator tags msize all sb pool tried =
     (case find (\<lambda>b. b_OrchestratorOnly b \<and> \<not> tried (b_NodeID b) \<and> is_named sb b) all of
        Some b \<Rightarrow> Some b
      | None \<Rightarrow>
          (case scan_pool sb tried [] pool of
             Inl b \<Rightarrow> Some b
           | Inr cands \<Rightarrow> if length cands = 0 then None else Some (sort_key (orch_key tags msize) cands ! 0)))"

text \<open>The sort by name is not stable; on equal names this is one of its results.\<close>

definition superborgWorkers :: "backend \<Rightarrow> backend list \<Rightarrow> backend list" where
  "superborgWorkers orch pool = sort_key workerName (filter (\<lambda>b. b_NodeID b \<noteq> b_NodeID orch \<and> \<not> b_Hot b) pool)"

definition SuperborgPlanFor ::
  "(string \<Rightarrow> string list) \<Rightarrow> (string \<Rightarrow> int) \<Rightarrow> backend list \<Rightarrow> target \<Rightarrow> (backend \<times> backend list) option" where
  "SuperborgPlanFor tags msize bs tgt =
     (case t_Superborg tgt of
        None \<Rightarrow> None
      | Some sb \<Rightarrow>
          (let pool = target_filter tgt (routable bs)
           in case pickOrchestrator tags msize (routable bs) sb pool (\<lambda>_. False) of
                None \<Rightarrow> None
              | Some orch \<Rightarrow> Some (orch, superborgWorkers orch pool)))"

definition SuperborgPlan ::
  "(string \<Rightarrow> target option) option \<Rightarrow> (string \<Rightarrow> string list) \<Rightarrow> (string \<Rightarrow> int) \<Rightarrow> backend list \<Rightarrow> string \<Rightarrow> (backend \<times> backend list) option" where
  "SuperborgPlan targets tags msize bs name =
     (case resolve targets name of None \<Rightarrow> None | Some tgt \<Rightarrow> SuperborgPlanFor tags msize bs tgt)"

subsection \<open>Messages and tool calls\<close>

record tool_call =
  tc_ID :: string
  tc_Type :: string
  tc_Name :: string
  tc_Arguments :: string

text \<open>A message: \<open>None\<close> as content is one that is not a string.\<close>

record chat_msg =
  mg_role :: string
  mg_content :: "string option"
  mg_calls :: "tool_call list"
  mg_call_id :: string

definition text_msg :: "string \<Rightarrow> string \<Rightarrow> chat_msg" where
  "text_msg role c = \<lparr>mg_role = role, mg_content = Some c, mg_calls = [], mg_call_id = ''''\<rparr>"

definition withSystem :: "chat_msg list \<Rightarrow> string \<Rightarrow> chat_msg list" where
  "withSystem msgs sys =
     (case (mg_role (msgs ! 0) = ''system'', mg_content (msgs ! 0)) of
        (True, Some c) \<Rightarrow> msgs[0 := text_msg ''system'' (sys @ [CHR 0x0A] @ c)]
      | _ \<Rightarrow> text_msg ''system'' sys # msgs)"

definition findCall :: "tool_call list \<Rightarrow> string \<Rightarrow> tool_call option" where
  "findCall calls name = find (\<lambda>c. tc_Name c = name) calls"

text \<open>The goal of a job started from the chat: the last user message with a text.\<close>

definition chat_goal :: "chat_msg list \<Rightarrow> string" where
  "chat_goal msgs = foldl (\<lambda>goal m. if mg_role m = ''user'' then (case mg_content m of Some s \<Rightarrow> s | None \<Rightarrow> goal) else goal) '''' msgs"

subsection \<open>Collecting a streamed answer\<close>

text \<open>A decoded event: reasoning and content deltas, and deltas of tool calls by index.\<close>

record call_delta =
  cd_Index :: int
  cd_ID :: string
  cd_Name :: string
  cd_Arguments :: string

record sse_delta =
  dl_Reasoning :: string
  dl_Content :: string
  dl_Calls :: "call_delta list"

text \<open>\<open>sc_sent\<close> is what was sent to the sink, oldest first.\<close>

record collector =
  sc_status :: int
  sc_line :: string
  sc_errBody :: string
  sc_content :: string
  sc_calls :: "int \<Rightarrow> tool_call option"
  sc_order :: "int list"
  sc_usage :: usage
  sc_sawEvent :: bool
  sc_sent :: "(string \<times> string) list"

definition new_collector :: collector where
  "new_collector = \<lparr>sc_status = 0, sc_line = '''', sc_errBody = '''', sc_content = '''', sc_calls = Map.empty, sc_order = [],
     sc_usage = zero_usage, sc_sawEvent = False, sc_sent = []\<rparr>"

definition col_send :: "string \<Rightarrow> string \<Rightarrow> collector \<Rightarrow> collector" where
  "col_send field t s = s\<lparr>sc_sent := sc_sent s @ [(field, t)]\<rparr>"

definition col_text :: "string \<Rightarrow> string \<Rightarrow> collector \<Rightarrow> collector" where
  "col_text reasoning content s =
     (let s = (if reasoning \<noteq> '''' then col_send ''reasoning_content'' reasoning s else s)
      in if content \<noteq> '''' then col_send ''content'' content (s\<lparr>sc_content := sc_content s @ content\<rparr>) else s)"

definition col_call :: "collector \<Rightarrow> call_delta \<Rightarrow> collector" where
  "col_call s d =
     (let i = cd_Index d;
          (c, s) = (case sc_calls s i of
             Some c \<Rightarrow> (c, s)
           | None \<Rightarrow> (\<lparr>tc_ID = '''', tc_Type = '''', tc_Name = '''', tc_Arguments = ''''\<rparr>, s\<lparr>sc_order := sc_order s @ [i]\<rparr>));
          c = (if cd_ID d \<noteq> '''' then c\<lparr>tc_ID := cd_ID d\<rparr> else c);
          c = c\<lparr>tc_Name := tc_Name c @ cd_Name d, tc_Arguments := tc_Arguments c @ cd_Arguments d\<rparr>
      in s\<lparr>sc_calls := (sc_calls s)(i \<mapsto> c)\<rparr>)"

definition col_event ::
  "(string \<Rightarrow> usage_doc option) \<Rightarrow> (string \<Rightarrow> sse_delta option) \<Rightarrow> collector \<Rightarrow> string \<Rightarrow> collector" where
  "col_event json jev s line =
     (case cut_prefix line ''data: '' of
        None \<Rightarrow> s
      | Some data \<Rightarrow>
          if \<not> has_prefix data ''{'' then s
          else
            (let s = s\<lparr>sc_sawEvent := True\<rparr>;
                 s = (case parseUsage json data False of None \<Rightarrow> s | Some u \<Rightarrow> s\<lparr>sc_usage := u\<rparr>)
             in case jev data of
                  None \<Rightarrow> s
                | Some d \<Rightarrow> foldl col_call (col_text (dl_Reasoning d) (dl_Content d) s) (dl_Calls d)))"

text \<open>\<open>Write\<close>: complete lines are handled, the rest waits in \<open>sc_line\<close>.\<close>

fun col_lines ::
  "(string \<Rightarrow> usage_doc option) \<Rightarrow> (string \<Rightarrow> sse_delta option) \<Rightarrow> string \<Rightarrow> string \<Rightarrow> collector \<Rightarrow> collector" where
  "col_lines json jev acc [] s = s\<lparr>sc_line := rev acc\<rparr>"
| "col_lines json jev acc (c # cs) s =
     (if c = CHR 0x0A then col_lines json jev [] cs (col_event json jev s (trim_space (rev acc)))
      else col_lines json jev (c # acc) cs s)"

definition col_write ::
  "(string \<Rightarrow> usage_doc option) \<Rightarrow> (string \<Rightarrow> sse_delta option) \<Rightarrow> collector \<Rightarrow> string \<Rightarrow> collector" where
  "col_write json jev s p =
     (let s = (if sc_status s = 0 then s\<lparr>sc_status := 200\<rparr> else s)
      in if sc_status s \<noteq> 200 then
           (if length (sc_errBody s) < 2048 then s\<lparr>sc_errBody := sc_errBody s @ p\<rparr> else s)
         else col_lines json jev [] (sc_line s @ p) s)"

text \<open>A completion that was not streamed: its text, its calls, its usage.\<close>

record whole_msg =
  wh_Reasoning :: string
  wh_Content :: string
  wh_Calls :: "tool_call list"

definition col_whole ::
  "(string \<Rightarrow> usage_doc option) \<Rightarrow> (string \<Rightarrow> whole_msg option) \<Rightarrow> string \<Rightarrow> collector \<Rightarrow> collector" where
  "col_whole json jwhole body s =
     (case jwhole body of
        None \<Rightarrow> s
      | Some m \<Rightarrow>
          (let s = col_text (wh_Reasoning m) (wh_Content m) s;
               s = foldl (\<lambda>s (i, c). s\<lparr>sc_calls := (sc_calls s)(int i \<mapsto> c), sc_order := sc_order s @ [int i]\<rparr>) s
                     (enumerate 0 (wh_Calls m))
           in s\<lparr>sc_usage := (case parseUsage json body False of Some u \<Rightarrow> u | None \<Rightarrow> zero_usage)\<rparr>))"

subsection \<open>Delegation\<close>

definition findWorker :: "backend list \<Rightarrow> string \<Rightarrow> backend option" where
  "findWorker workers name = find (\<lambda>b. workerName b = name \<or> b_NodeID b = name) workers"

text \<open>\<open>leastBusy\<close>: one pass over the unused workers, a second over all of them when none is
  unused; \<open>None\<close> is the panic of an empty list.\<close>

fun least_pass :: "inflight \<Rightarrow> (node_id \<Rightarrow> bool) \<Rightarrow> backend option \<Rightarrow> backend list \<Rightarrow> backend option" where
  "least_pass n skip best [] = best"
| "least_pass n skip best (b # bs) =
     (if skip (b_NodeID b) then least_pass n skip best bs
      else least_pass n skip
        (case best of
           None \<Rightarrow> Some b
         | Some c \<Rightarrow> if n (b_NodeID b) < n (b_NodeID c) \<or> (n (b_NodeID b) = n (b_NodeID c) \<and> b_Speed b > b_Speed c) then Some b else best) bs)"

definition leastBusy :: "inflight \<Rightarrow> backend list \<Rightarrow> (node_id \<Rightarrow> bool) \<Rightarrow> backend option" where
  "leastBusy n workers used =
     (case least_pass n used None workers of
        Some b \<Rightarrow> Some b
      | None \<Rightarrow> least_pass n (\<lambda>_. False) None workers)"

record subtask =
  st_Worker :: string
  st_Task :: string

text \<open>\<open>parseSubtasks\<close> on the decoded arguments: the tasks, and the bare task of small models.\<close>

definition parseSubtasks :: "(string \<Rightarrow> (subtask list \<times> subtask) option) \<Rightarrow> string \<Rightarrow> string + subtask list" where
  "parseSubtasks jtasks args =
     (case jtasks args of
        None \<Rightarrow> Inl ''invalid JSON''
      | Some (ts, bare) \<Rightarrow>
          (let ts = (if length ts = 0 \<and> st_Task bare \<noteq> '''' then [bare] else ts)
           in if length ts = 0 then Inl ''no tasks'' else Inr ts))"

text \<open>The assignment of workers to tasks; the in-flight counts are read before each.\<close>

fun assign_tasks :: "(nat \<Rightarrow> inflight) \<Rightarrow> backend list \<Rightarrow> node_id list \<Rightarrow> nat \<Rightarrow> subtask list \<Rightarrow> backend list option" where
  "assign_tasks n workers used k [] = Some []"
| "assign_tasks n workers used k (t # ts) =
     (let wanted = findWorker workers (st_Worker t)
      in case (if wanted = None \<or> b_NodeID (the wanted) \<in> set used then leastBusy (n k) workers (\<lambda>i. i \<in> set used) else wanted) of
           None \<Rightarrow> None
         | Some b \<Rightarrow> map_option (\<lambda>bs. b # bs) (assign_tasks n workers (b_NodeID b # used) (Suc k) ts))"

text \<open>
  \<open>runSubtask\<close>: at most two attempts.  Each attempt has what other requests do before and during it,
  its exchange, and whether the client is gone when it fails.
\<close>

datatype subtask_error = SubHTTP int string | SubForward forward_error

record 'p sub_env =
  su_other :: "'p gateway \<Rightarrow> 'p gateway"
  su_exchange :: "backend \<Rightarrow> exchange"
  su_gone :: bool
  su_now :: go_time

definition collected ::
  "(string \<Rightarrow> usage_doc option) \<Rightarrow> (string \<Rightarrow> sse_delta option) \<Rightarrow> reply option \<Rightarrow> collector" where
  "collected json jev rep =
     (case rep of
        None \<Rightarrow> new_collector
      | Some r \<Rightarrow> col_write json jev (new_collector\<lparr>sc_status := rp_Status r\<rparr>) (rp_Body r))"

definition finish_collect ::
  "(string \<Rightarrow> usage_doc option) \<Rightarrow> (string \<Rightarrow> whole_msg option) \<Rightarrow> collector \<Rightarrow> collector" where
  "finish_collect json jwhole s = (if \<not> sc_sawEvent s then col_whole json jwhole (trim_space (sc_line s)) s else s)"

type_synonym decoders = "(string \<Rightarrow> usage_doc option) \<times> (string \<Rightarrow> sse_delta option) \<times> (string \<Rightarrow> whole_msg option)"

fun sub_attempts ::
  "decoders \<Rightarrow> config \<Rightarrow> backend list \<Rightarrow> string \<Rightarrow> 'p sub_env list \<Rightarrow> node_id list \<Rightarrow> backend \<Rightarrow> 'p gateway \<Rightarrow>
   ((backend \<times> (subtask_error + string \<times> usage)) \<times> 'p gateway) option" where
  "sub_attempts (json, jev, jwhole) cfg workers princ [] tried b g = None"
| "sub_attempts (json, jev, jwhole) cfg workers princ (env # envs) tried b g =
     (let tried = b_NodeID b # tried;
          ((err, rep), g) = forward json (su_other env) b True princ (su_exchange env b) g;
          sw = collected json jev rep
      in case err of
           None \<Rightarrow>
             if sc_status sw = 200 then
               (let sw = finish_collect json jwhole sw in Some ((b, Inr (stripThink (sc_content sw), sc_usage sw)), g))
             else Some ((b, Inl (SubHTTP (sc_status sw) (sc_errBody sw))), g)
         | Some e \<Rightarrow>
             if \<not> is_retryable e \<or> su_gone env then Some ((b, Inl (SubForward e)), g)
             else
               (let g = markDown cfg (su_now env) (b_NodeID b) g
                in case leastBusy (gw_inflight g) workers (\<lambda>i. i \<in> set tried) of
                     None \<Rightarrow> None
                   | Some nb \<Rightarrow>
                       if b_NodeID nb \<in> set tried \<or> envs = [] then Some ((if b_NodeID nb \<in> set tried then b else nb, Inl (SubForward e)), g)
                       else sub_attempts (json, jev, jwhole) cfg workers princ envs tried nb g))"

definition runSubtask ::
  "decoders \<Rightarrow> config \<Rightarrow> backend list \<Rightarrow> string \<Rightarrow> 'p sub_env \<times> 'p sub_env \<Rightarrow> backend \<Rightarrow> 'p gateway \<Rightarrow>
   ((backend \<times> (subtask_error + string \<times> usage)) \<times> 'p gateway) option" where
  "runSubtask dec cfg workers princ envs b g = sub_attempts dec cfg workers princ [fst envs, snd envs] [] b g"

subsection \<open>The client's answer\<close>

text \<open>
  \<open>sbEmitter\<close>: the chunks of a streamed answer, or the two texts of one that is sent at the end.
  \<open>em_out\<close> is what reached the client; an answer ends with \<open>EndStream\<close>, \<open>Whole\<close> or \<open>HTTPError\<close>.
\<close>

datatype emission =
    Chunk string string
  | FinalChunk string usage
  | EndStream
  | Whole string string usage
  | HTTPError int string

record emitter =
  em_stream :: bool
  em_begun :: bool
  em_content :: string
  em_reasoning :: string
  em_out :: "emission list"

definition newSBEmitter :: "bool \<Rightarrow> emitter" where
  "newSBEmitter stream = \<lparr>em_stream = stream, em_begun = False, em_content = '''', em_reasoning = '''', em_out = []\<rparr>"

definition em_send :: "string \<Rightarrow> string \<Rightarrow> emitter \<Rightarrow> emitter" where
  "em_send field t e =
     (if \<not> em_stream e then
        (if field = ''content'' then e\<lparr>em_content := em_content e @ t\<rparr> else e\<lparr>em_reasoning := em_reasoning e @ t\<rparr>)
      else e\<lparr>em_begun := True, em_out := em_out e @ [Chunk field t]\<rparr>)"

definition em_finish :: "usage \<Rightarrow> emitter \<Rightarrow> emitter" where
  "em_finish u e =
     (if em_stream e then e\<lparr>em_begun := True, em_out := em_out e @ [FinalChunk '''' u, EndStream]\<rparr>
      else e\<lparr>em_begun := True, em_out := em_out e @ [Whole (em_content e) (em_reasoning e) u]\<rparr>)"

definition em_fail :: "int \<Rightarrow> string \<Rightarrow> emitter \<Rightarrow> emitter" where
  "em_fail status msg e =
     (if \<not> em_begun e then e\<lparr>em_begun := True, em_out := em_out e @ [HTTPError status msg]\<rparr>
      else e\<lparr>em_out := em_out e @ [FinalChunk ([CHR 0x0A, CHR 0x0A] @ ''['' @ msg @ '']'') zero_usage, EndStream]\<rparr>)"

text \<open>
  \<open>delegate\<close>: \<open>dv_done\<close> lists the subtasks in the order they end, \<open>rend\<close> prints errors, and
  \<open>line\<close> the progress lines.  A list that does not name every subtask once is no run.
\<close>

record 'p delegate_env =
  dv_inflight :: "nat \<Rightarrow> inflight"
  dv_subs :: "nat \<Rightarrow> 'p sub_env \<times> 'p sub_env"
  dv_done :: "nat list"

record texts =
  tx_rend :: "subtask_error \<Rightarrow> string"
  tx_start :: "backend \<Rightarrow> string \<Rightarrow> string"
  tx_done :: "backend \<Rightarrow> subtask_error option \<Rightarrow> string"
  tx_system :: "backend list \<Rightarrow> string"
  tx_job :: "string \<Rightarrow> string"

fun run_subtasks ::
  "decoders \<Rightarrow> texts \<Rightarrow> config \<Rightarrow> backend list \<Rightarrow> string \<Rightarrow> 'p delegate_env \<Rightarrow> backend list \<Rightarrow> nat list \<Rightarrow>
   (nat \<rightharpoonup> string \<times> usage) \<times> emitter \<times> 'p gateway \<Rightarrow> ((nat \<rightharpoonup> string \<times> usage) \<times> emitter \<times> 'p gateway) option" where
  "run_subtasks dec tx cfg workers princ env assigned [] s = Some s"
| "run_subtasks dec tx cfg workers princ env assigned (i # is) (res, em, g) =
     (case runSubtask dec cfg workers princ (dv_subs env i) (assigned ! i) g of
        None \<Rightarrow> None
      | Some ((b, Inl e), g) \<Rightarrow>
          run_subtasks dec tx cfg workers princ env assigned is
            (res(i \<mapsto> (''['' @ workerName b @ ''] error: '' @ tx_rend tx e, zero_usage)), em_send ''reasoning_content'' (tx_done tx b (Some e)) em, g)
      | Some ((b, Inr (t, u)), g) \<Rightarrow>
          run_subtasks dec tx cfg workers princ env assigned is
            (res(i \<mapsto> (''['' @ workerName b @ ''] '' @ clip t superborgResultMaxBytes, u)), em_send ''reasoning_content'' (tx_done tx b None) em, g))"

definition join_results :: "string list \<Rightarrow> string" where
  "join_results rs = (case rs of [] \<Rightarrow> '''' | r # rs \<Rightarrow> r @ concat (map (\<lambda>s. [CHR 0x0A, CHR 0x0A] @ s) rs))"

definition delegate ::
  "decoders \<Rightarrow> (string \<Rightarrow> (subtask list \<times> subtask) option) \<Rightarrow> texts \<Rightarrow> config \<Rightarrow> backend list \<Rightarrow> string \<Rightarrow> 'p delegate_env \<Rightarrow>
   tool_call \<Rightarrow> emitter \<Rightarrow> 'p gateway \<Rightarrow> ((string \<times> usage) \<times> emitter \<times> 'p gateway) option" where
  "delegate dec jtasks tx cfg workers princ env c em g =
     (if tc_Name c \<noteq> ''delegate'' then Some ((''error: unknown tool; the only tool is delegate'', zero_usage), em, g)
      else case parseSubtasks jtasks (tc_Arguments c) of
        Inl err \<Rightarrow> Some ((''error: invalid delegate arguments: '' @ err, zero_usage), em, g)
      | Inr tasks \<Rightarrow>
          (case assign_tasks (dv_inflight env) workers [] 0 tasks of
             None \<Rightarrow> None
           | Some assigned \<Rightarrow>
               (let em = foldl (\<lambda>em (b, t). em_send ''reasoning_content'' (tx_start tx b (clip (st_Task t) 160)) em) em (zip assigned tasks)
                in if \<not> distinct (dv_done env) \<or> set (dv_done env) \<noteq> {..<length tasks} then None
                   else
                     (case run_subtasks dec tx cfg workers princ env assigned (dv_done env) (Map.empty, em, g) of
                        None \<Rightarrow> None
                      | Some (res, em, g) \<Rightarrow>
                          (let rs = map (\<lambda>i. the (res i)) [0..<length tasks]
                           in Some ((join_results (map fst rs), foldl usage_add zero_usage (map snd rs)), em, g))))))"

subsection \<open>The orchestrator loop\<close>

record orchestration =
  oc_content :: string
  oc_calls :: "tool_call list"
  oc_usage :: usage

datatype orch_error = OrchForward forward_error | OrchHTTP int string

text \<open>\<open>orchestrateOnce\<close>: \<open>ids\<close> are the random ids for calls without one.\<close>

definition collected_calls :: "(nat \<Rightarrow> string) \<Rightarrow> collector \<Rightarrow> tool_call list" where
  "collected_calls ids s =
     map (\<lambda>(k, i). let c = the (sc_calls s i)
                   in c\<lparr>tc_ID := (if tc_ID c = '''' then ''call_'' @ ids k else tc_ID c), tc_Type := ''function''\<rparr>)
       (enumerate 0 (sc_order s))"

definition send_all :: "(string \<times> string) list \<Rightarrow> emitter \<Rightarrow> emitter" where
  "send_all sent em = foldl (\<lambda>em (f, t). em_send f t em) em sent"

definition orchestrateOnce ::
  "decoders \<Rightarrow> (nat \<Rightarrow> string) \<Rightarrow> ('p gateway \<Rightarrow> 'p gateway) \<Rightarrow> string \<Rightarrow> exchange \<Rightarrow> backend \<Rightarrow> emitter \<Rightarrow> 'p gateway \<Rightarrow>
   (orch_error + orchestration) \<times> emitter \<times> 'p gateway" where
  "orchestrateOnce dec ids other princ x orch em g =
     (let (json, jev, jwhole) = dec;
          ((err, rep), g) = forward json other orch True princ x g;
          sw = collected json jev rep
      in case err of
           Some e \<Rightarrow> (Inl (OrchForward e), send_all (sc_sent sw) em, g)
         | None \<Rightarrow>
             if sc_status sw \<noteq> 200 then (Inl (OrchHTTP (sc_status sw) (trim_space (sc_errBody sw))), send_all (sc_sent sw) em, g)
             else
               (let sw = finish_collect json jwhole sw
                in (Inr \<lparr>oc_content = sc_content sw, oc_calls = collected_calls ids sw, oc_usage = sc_usage sw\<rparr>,
                    send_all (sc_sent sw) em, g)))"

text \<open>
  The loop's variables; \<open>sb_log\<close> records each request to an orchestrator: the node, whether it
  came with tools, and the number of messages.
\<close>

record 'p sb_state =
  sb_orch :: backend
  sb_workers :: "backend list"
  sb_round :: nat
  sb_tried :: "node_id list"
  sb_extra :: "chat_msg list"
  sb_total :: usage
  sb_em :: emitter
  sb_g :: "'p gateway"
  sb_log :: "(node_id \<times> bool \<times> nat) list"

text \<open>What one attempt at the orchestrator meets; the backends are the ones a retry looks at.\<close>

record 'p orch_env =
  oe_ids :: "nat \<Rightarrow> string"
  oe_other :: "'p gateway \<Rightarrow> 'p gateway"
  oe_exchange :: "backend \<Rightarrow> exchange"
  oe_now :: go_time
  oe_backends :: "backend list"
  oe_delegate :: "nat \<Rightarrow> 'p delegate_env"

record superborg_cluster =
  cl_tags :: "string \<Rightarrow> string list"
  cl_size :: "string \<Rightarrow> int"
  cl_tasks :: "string \<Rightarrow> (subtask list \<times> subtask) option"

definition is_final :: "'p sb_state \<Rightarrow> bool" where
  "is_final st \<longleftrightarrow> sb_round st \<ge> superborgMaxRounds"

definition has_tools :: "'p sb_state \<Rightarrow> bool" where
  "has_tools st \<longleftrightarrow> \<not> (is_final st \<or> length (sb_workers st) = 0)"

text \<open>The calls of one round, one after the other.\<close>

fun delegate_calls ::
  "decoders \<Rightarrow> superborg_cluster \<Rightarrow> texts \<Rightarrow> config \<Rightarrow> string \<Rightarrow> (nat \<Rightarrow> 'p delegate_env) \<Rightarrow> nat \<Rightarrow> tool_call list \<Rightarrow> 'p sb_state \<Rightarrow>
   'p sb_state option" where
  "delegate_calls dec cl tx cfg princ envs k [] st = Some st"
| "delegate_calls dec cl tx cfg princ envs k (c # cs) st =
     (case delegate dec (cl_tasks cl) tx cfg (sb_workers st) princ (envs k) c (sb_em st) (sb_g st) of
        None \<Rightarrow> None
      | Some ((res, u), em, g) \<Rightarrow>
          delegate_calls dec cl tx cfg princ envs (Suc k) cs
            (st\<lparr>sb_em := em, sb_g := g, sb_total := usage_add (sb_total st) u,
                sb_extra := sb_extra st @ [\<lparr>mg_role = ''tool'', mg_content = Some res, mg_calls = [], mg_call_id = tc_ID c\<rparr>]\<rparr>))"

datatype 'p sb_outcome = Running "'p sb_state" | Answered "'p sb_state" | Failed "'p sb_state"

text \<open>After a failed attempt before anything was sent: another orchestrator, or the end.\<close>

definition is_retry :: "orch_error \<Rightarrow> bool" where
  "is_retry err \<longleftrightarrow> (case err of OrchForward e \<Rightarrow> is_retryable e | OrchHTTP _ _ \<Rightarrow> False)"

definition fail_message :: string where
  "fail_message = ''superborg: orchestrator failed: ''"

definition retry_orchestrator ::
  "superborg_cluster \<Rightarrow> config \<Rightarrow> superborg_cfg \<Rightarrow> target \<Rightarrow> 'p orch_env \<Rightarrow> 'p sb_state \<Rightarrow> 'p sb_outcome" where
  "retry_orchestrator cl cfg sb tgt env st =
     (let tried = b_NodeID (sb_orch st) # sb_tried st;
          g = markDown cfg (oe_now env) (b_NodeID (sb_orch st)) (sb_g st);
          pool = target_filter tgt (routable (oe_backends env));
          st = st\<lparr>sb_tried := tried, sb_g := g\<rparr>
      in case pickOrchestrator (cl_tags cl) (cl_size cl) (routable (oe_backends env)) sb pool (\<lambda>i. i \<in> set tried) of
           None \<Rightarrow> Failed (st\<lparr>sb_em := em_fail 502 fail_message (sb_em st)\<rparr>)
         | Some orch \<Rightarrow> Running (st\<lparr>sb_orch := orch, sb_workers := superborgWorkers orch pool\<rparr>))"

text \<open>One turn of the loop of \<open>serveSuperborg\<close>: one request to the orchestrator and what follows.\<close>

definition superborg_turn ::
  "decoders \<Rightarrow> superborg_cluster \<Rightarrow> texts \<Rightarrow> config \<Rightarrow> superborg_cfg \<Rightarrow> target \<Rightarrow> chat_msg list \<Rightarrow> string \<Rightarrow> 'p orch_env \<Rightarrow>
   'p sb_state \<Rightarrow> 'p sb_outcome option" where
  "superborg_turn dec cl tx cfg sb tgt msgs princ env st =
     (let messages = withSystem msgs (tx_system tx (sb_workers st)) @ sb_extra st;
          st = st\<lparr>sb_log := sb_log st @ [(b_NodeID (sb_orch st), has_tools st, length messages)]\<rparr>;
          (out, em, g) = orchestrateOnce dec (oe_ids env) (oe_other env) princ (oe_exchange env (sb_orch st)) (sb_orch st) (sb_em st) (sb_g st);
          st = st\<lparr>sb_em := em, sb_g := g\<rparr>
      in case out of
           Inl err \<Rightarrow>
             if is_retry err \<and> \<not> em_begun em then Some (retry_orchestrator cl cfg sb tgt env st)
             else Some (Failed (st\<lparr>sb_em := em_fail 502 fail_message em\<rparr>))
         | Inr o' \<Rightarrow>
             (let st = st\<lparr>sb_total := usage_add (sb_total st) (oc_usage o')\<rparr>
              in if length (oc_calls o') = 0 \<or> is_final st \<or> length (sb_workers st) = 0 then
                   Some (Answered (st\<lparr>sb_em := em_finish (sb_total st) em\<rparr>))
                 else case findCall (oc_calls o') ''start_job'' of
                   Some c \<Rightarrow>
                     (let em = em_send ''content'' (tx_job tx (chat_goal msgs)) em
                      in Some (Answered (st\<lparr>sb_em := em_finish (sb_total st) em\<rparr>)))
                 | None \<Rightarrow>
                     (let st = st\<lparr>sb_extra := sb_extra st @ [\<lparr>mg_role = ''assistant'', mg_content = Some (oc_content o'), mg_calls = oc_calls o', mg_call_id = ''''\<rparr>]\<rparr>
                      in map_option (\<lambda>st. Running (st\<lparr>sb_round := Suc (sb_round st)\<rparr>))
                           (delegate_calls dec cl tx cfg princ (oe_delegate env) 0 (oc_calls o') st))))"

fun superborg_loop ::
  "decoders \<Rightarrow> superborg_cluster \<Rightarrow> texts \<Rightarrow> config \<Rightarrow> superborg_cfg \<Rightarrow> target \<Rightarrow> chat_msg list \<Rightarrow> string \<Rightarrow> 'p orch_env list \<Rightarrow>
   'p sb_state \<Rightarrow> 'p sb_outcome option" where
  "superborg_loop dec cl tx cfg sb tgt msgs princ [] st = Some (Running st)"
| "superborg_loop dec cl tx cfg sb tgt msgs princ (env # envs) st =
     (case superborg_turn dec cl tx cfg sb tgt msgs princ env st of
        None \<Rightarrow> None
      | Some (Running st) \<Rightarrow> superborg_loop dec cl tx cfg sb tgt msgs princ envs st
      | Some res \<Rightarrow> Some res)"

definition serveSuperborg ::
  "decoders \<Rightarrow> superborg_cluster \<Rightarrow> texts \<Rightarrow> config \<Rightarrow> superborg_cfg \<Rightarrow> target \<Rightarrow> chat_msg list option \<Rightarrow> bool \<Rightarrow> string \<Rightarrow>
   backend list \<Rightarrow> 'p orch_env list \<Rightarrow> 'p gateway \<Rightarrow> (int + 'p sb_outcome option) \<times> 'p gateway" where
  "serveSuperborg dec cl tx cfg sb tgt msgs stream princ bs envs g =
     (case msgs of
        None \<Rightarrow> (Inl 400, reject ''bad_request'' g)
      | Some msgs \<Rightarrow>
          if length msgs = 0 then (Inl 400, reject ''bad_request'' g)
          else
            (let pool = target_filter tgt (routable bs)
             in case pickOrchestrator (cl_tags cl) (cl_size cl) (routable bs) sb pool (\<lambda>_. False) of
                  None \<Rightarrow> (Inl 503, record_usage (event princ '''' (t_Label tgt) ''503'') (reject ''model_not_found'' g))
                | Some orch \<Rightarrow>
                    (Inr (superborg_loop dec cl tx cfg sb tgt msgs princ envs
                       \<lparr>sb_orch = orch, sb_workers = superborgWorkers orch pool, sb_round = 0, sb_tried = [], sb_extra = [],
                        sb_total = zero_usage, sb_em = newSBEmitter stream, sb_g = g, sb_log = []\<rparr>), g)))"

subsection \<open>The orchestrator is well chosen\<close>

lemma scan_pool_spec:
  "case scan_pool sb tried cands pool of
     Inl b \<Rightarrow> b \<in> set pool \<and> \<not> tried (b_NodeID b) \<and> \<not> b_OrchestratorOnly b \<and> is_named sb b
   | Inr out \<Rightarrow> out = cands @ filter (\<lambda>b. \<not> tried (b_NodeID b) \<and> \<not> b_OrchestratorOnly b) pool \<and>
       (\<forall>b \<in> set pool. \<not> tried (b_NodeID b) \<and> \<not> b_OrchestratorOnly b \<longrightarrow> \<not> is_named sb b)"
proof (induction pool arbitrary: cands)
  case (Cons b pool)
  show ?case
  proof (cases "tried (b_NodeID b) \<or> b_OrchestratorOnly b \<or> \<not> is_named sb b")
    case True
    with Cons.IH [of cands] Cons.IH [of "cands @ [b]"] show ?thesis by (auto split: sum.splits)
  qed simp
qed simp

lemma sort_key_hd:
  assumes "xs \<noteq> []"
  shows "sort_key f xs ! 0 \<in> set xs \<and> (\<forall>x \<in> set xs. f (sort_key f xs ! 0) \<le> f x)"
proof -
  have ne: "sort_key f xs \<noteq> []" using assms by (metis length_0_conv length_sort)
  then obtain y ys where y: "sort_key f xs = y # ys" by (cases "sort_key f xs") auto
  have "sorted (map f (y # ys))" by (metis sorted_sort_key y)
  then have "\<forall>x \<in> set (y # ys). f y \<le> f x" by auto
  moreover have "set (y # ys) = set xs" by (metis set_sort y)
  ultimately have "y \<in> set xs" "\<forall>x \<in> set xs. f y \<le> f x" by auto
  then show ?thesis by (simp add: y)
qed

lemma orchestrator_spec:
  "case pickOrchestrator tags msize all sb pool tried of
     Some b \<Rightarrow> \<not> tried (b_NodeID b) \<and>
       (if \<exists>x \<in> set all. b_OrchestratorOnly x \<and> \<not> tried (b_NodeID x) \<and> is_named sb x
        then b \<in> set all \<and> b_OrchestratorOnly b \<and> is_named sb b
        else b \<in> set pool \<and> \<not> b_OrchestratorOnly b \<and>
          (if \<exists>x \<in> set pool. \<not> tried (b_NodeID x) \<and> \<not> b_OrchestratorOnly x \<and> is_named sb x then is_named sb b
           else \<forall>x \<in> set pool. tried (b_NodeID x) \<or> b_OrchestratorOnly x \<or> orch_key tags msize b \<le> orch_key tags msize x))
   | None \<Rightarrow> (\<forall>x \<in> set all. tried (b_NodeID x) \<or> \<not> b_OrchestratorOnly x \<or> \<not> is_named sb x) \<and>
       (\<forall>x \<in> set pool. tried (b_NodeID x) \<or> b_OrchestratorOnly x)"
proof (cases "find (\<lambda>b. b_OrchestratorOnly b \<and> \<not> tried (b_NodeID b) \<and> is_named sb b) all")
  case (Some b)
  from find_Some_mem [OF this] Some show ?thesis by (auto simp: pickOrchestrator_def)
next
  case None
  then have no_ext: "\<forall>x \<in> set all. \<not> (b_OrchestratorOnly x \<and> \<not> tried (b_NodeID x) \<and> is_named sb x)"
    by (simp add: find_None_iff_ball)
  show ?thesis
  proof (cases "scan_pool sb tried [] pool")
    case (Inl b)
    with scan_pool_spec [where sb = sb and tried = tried and cands = "[]" and pool = pool] None no_ext show ?thesis by (auto simp: pickOrchestrator_def)
  next
    case (Inr cands)
    let ?best = "sort_key (orch_key tags msize) cands ! 0"
    from Inr scan_pool_spec [where sb = sb and tried = tried and cands = "[]" and pool = pool] have c: "cands = filter (\<lambda>b. \<not> tried (b_NodeID b) \<and> \<not> b_OrchestratorOnly b) pool"
      and named: "\<forall>b \<in> set pool. \<not> tried (b_NodeID b) \<and> \<not> b_OrchestratorOnly b \<longrightarrow> \<not> is_named sb b" by simp_all
    show ?thesis
    proof (cases "cands = []")
      case True
      then have "\<forall>x \<in> set pool. tried (b_NodeID x) \<or> b_OrchestratorOnly x" using c by (metis (mono_tags, lifting) filter_empty_conv)
      with True None Inr no_ext show ?thesis by (auto simp: pickOrchestrator_def)
    next
      case False
      from sort_key_hd [OF this, of "orch_key tags msize"] have "?best \<in> set cands" "\<forall>x \<in> set cands. orch_key tags msize ?best \<le> orch_key tags msize x" by auto
      with False None Inr no_ext named c show ?thesis by (auto simp: pickOrchestrator_def)
    qed
  qed
qed

text \<open>
  The choice of a Super Borg orchestrator: a node that was not tried, the external
  orchestrator the pool names if it is routable, else the pool member it names, else the best
  member in the order (tool calls, model size, speed, id) among those that may orchestrate; an
  external orchestrator is never picked unnamed; and there is none only if nothing is left.
\<close>

theorem orchestrator_choice:
  "case pickOrchestrator tags msize all sb pool tried of
     Some b \<Rightarrow> \<not> tried (b_NodeID b) \<and>
       (if \<exists>x \<in> set all. b_OrchestratorOnly x \<and> \<not> tried (b_NodeID x) \<and> is_named sb x
        then b \<in> set all \<and> b_OrchestratorOnly b \<and> is_named sb b
        else b \<in> set pool \<and> \<not> b_OrchestratorOnly b \<and>
          (if \<exists>x \<in> set pool. \<not> tried (b_NodeID x) \<and> \<not> b_OrchestratorOnly x \<and> is_named sb x then is_named sb b
           else \<forall>x \<in> set pool. tried (b_NodeID x) \<or> b_OrchestratorOnly x \<or> orch_key tags msize b \<le> orch_key tags msize x))
   | None \<Rightarrow> (\<forall>x \<in> set all. tried (b_NodeID x) \<or> \<not> b_OrchestratorOnly x \<or> \<not> is_named sb x) \<and>
       (\<forall>x \<in> set pool. tried (b_NodeID x) \<or> b_OrchestratorOnly x)"
  by (rule orchestrator_spec)

subsection \<open>Every task gets a worker\<close>

lemma least_pass_mem: "least_pass n skip best bs = Some b \<Longrightarrow> best = Some b \<or> b \<in> set bs \<and> \<not> skip (b_NodeID b)"
  by (induction n skip best bs rule: least_pass.induct) (auto split: if_splits option.splits)

lemma least_pass_Some: "least_pass n skip (Some b) bs \<noteq> None"
  by (induction bs arbitrary: b) (auto split: option.splits)

lemma least_pass_None: "least_pass n skip best bs = None \<longleftrightarrow> best = None \<and> (\<forall>b \<in> set bs. skip (b_NodeID b))"
  by (induction bs arbitrary: best) (auto simp: least_pass_Some split: option.splits)

lemma leastBusy_spec:
  "case leastBusy n workers used of
     None \<Rightarrow> workers = []
   | Some b \<Rightarrow> b \<in> set workers \<and> (used (b_NodeID b) \<longrightarrow> (\<forall>w \<in> set workers. used (b_NodeID w)))"
proof (cases "least_pass n used None workers")
  case (Some b)
  with least_pass_mem [OF this] show ?thesis by (simp add: leastBusy_def)
next
  case None
  then have all: "\<forall>w \<in> set workers. used (b_NodeID w)" by (simp add: least_pass_None)
  show ?thesis
  proof (cases "least_pass n (\<lambda>_. False) None workers")
    case None': None
    then have "workers = []" by (cases workers) (auto simp: least_pass_None)
    with None None' show ?thesis by (simp add: leastBusy_def)
  next
    case (Some b)
    with None all least_pass_mem [OF Some] show ?thesis by (simp add: leastBusy_def)
  qed
qed

text \<open>
  The assignment of one delegate call: with at least one worker every task gets one of the
  workers; a task gets the worker it asks for unless that one already has a task of the call;
  and a worker gets a second task only when every worker has one.
\<close>

theorem delegate_assignment:
  assumes "workers \<noteq> []"
  shows "\<exists>bs. assign_tasks n workers used k tasks = Some bs \<and> length bs = length tasks \<and> set bs \<subseteq> set workers \<and>
    (\<forall>i < length tasks. let taken = set used \<union> b_NodeID ` set (take i bs) in
       (\<forall>w. findWorker workers (st_Worker (tasks ! i)) = Some w \<longrightarrow> b_NodeID w \<notin> taken \<longrightarrow> bs ! i = w) \<and>
       (b_NodeID (bs ! i) \<in> taken \<longrightarrow> b_NodeID ` set workers \<subseteq> taken))"
proof (induction tasks arbitrary: used k)
  case Nil
  show ?case by simp
next
  case (Cons t ts)
  let ?w = "findWorker workers (st_Worker t)"
  have "leastBusy (n k) workers (\<lambda>i. i \<in> set used) \<noteq> None"
    using leastBusy_spec [where n = "n k" and workers = workers and used = "\<lambda>i. i \<in> set used"] assms by (auto split: option.splits)
  then have "(if ?w = None \<or> b_NodeID (the ?w) \<in> set used then leastBusy (n k) workers (\<lambda>i. i \<in> set used) else ?w) \<noteq> None"
    by auto
  then obtain b where b: "(if ?w = None \<or> b_NodeID (the ?w) \<in> set used then leastBusy (n k) workers (\<lambda>i. i \<in> set used) else ?w) = Some b"
    by blast
  have bw: "b \<in> set workers" "\<forall>w. ?w = Some w \<longrightarrow> b_NodeID w \<notin> set used \<longrightarrow> b = w"
    "b_NodeID b \<in> set used \<longrightarrow> b_NodeID ` set workers \<subseteq> set used"
    using b leastBusy_spec [where n = "n k" and workers = workers and used = "\<lambda>i. i \<in> set used"] find_Some_mem [of _ workers]
    by (auto simp: findWorker_def split: if_splits)
  obtain bs where bs: "assign_tasks n workers (b_NodeID b # used) (Suc k) ts = Some bs" "length bs = length ts" "set bs \<subseteq> set workers"
    and ih: "\<forall>i < length ts. let taken = set (b_NodeID b # used) \<union> b_NodeID ` set (take i bs) in
       (\<forall>w. findWorker workers (st_Worker (ts ! i)) = Some w \<longrightarrow> b_NodeID w \<notin> taken \<longrightarrow> bs ! i = w) \<and>
       (b_NodeID (bs ! i) \<in> taken \<longrightarrow> b_NodeID ` set workers \<subseteq> taken)"
    using Cons.IH [of "b_NodeID b # used" "Suc k"] by blast
  have "assign_tasks n workers used k (t # ts) = Some (b # bs)" using b bs(1) by (simp add: Let_def)
  moreover have "let taken = set used \<union> b_NodeID ` set (take i (b # bs)) in
       (\<forall>w. findWorker workers (st_Worker ((t # ts) ! i)) = Some w \<longrightarrow> b_NodeID w \<notin> taken \<longrightarrow> (b # bs) ! i = w) \<and>
       (b_NodeID ((b # bs) ! i) \<in> taken \<longrightarrow> b_NodeID ` set workers \<subseteq> taken)" if "i < length (t # ts)" for i
  proof (cases i)
    case 0
    with bw show ?thesis by (simp add: Let_def)
  next
    case (Suc j)
    with that ih [rule_format, of j] show ?thesis by (simp add: Let_def insert_commute)
  qed
  ultimately show ?case using bs(2,3) bw(1) by (intro exI [of _ "b # bs"]) simp
qed

subsection \<open>The loop ends, and answers once\<close>

definition is_chunk :: "emission \<Rightarrow> bool" where
  "is_chunk e \<longleftrightarrow> (case e of Chunk _ _ \<Rightarrow> True | _ \<Rightarrow> False)"

text \<open>An answer that is still open, and one that ended, in one of the three ways.\<close>

definition em_open :: "emitter \<Rightarrow> bool" where
  "em_open e \<longleftrightarrow> list_all is_chunk (em_out e) \<and> (em_begun e \<longleftrightarrow> em_out e \<noteq> []) \<and> (\<not> em_stream e \<longrightarrow> em_out e = [])"

definition em_ended :: "emitter \<Rightarrow> bool" where
  "em_ended e \<longleftrightarrow> (\<exists>cs t u. list_all is_chunk cs \<and> em_out e = cs @ [FinalChunk t u, EndStream]) \<or>
     (\<exists>c r u. em_out e = [Whole c r u]) \<or> (\<exists>status msg. em_out e = [HTTPError status msg])"

lemma em_open_send [simp]: "em_open e \<Longrightarrow> em_open (em_send f t e)"
  by (auto simp: em_open_def em_send_def is_chunk_def)

lemma em_open_sends: "em_open e \<Longrightarrow> em_open (foldl (\<lambda>em (b, t). em_send (h b) (k b t) em) e xs)"
  by (induction xs arbitrary: e) auto

lemma em_open_send_all [simp]: "em_open e \<Longrightarrow> em_open (send_all xs e)"
  unfolding send_all_def by (induction xs arbitrary: e) auto

lemma em_ended_finish: "em_open e \<Longrightarrow> em_ended (em_finish u e)"
  by (auto simp: em_open_def em_ended_def em_finish_def)

lemma em_ended_fail: "em_open e \<Longrightarrow> em_ended (em_fail s m e)"
  by (auto simp: em_open_def em_ended_def em_fail_def)

lemma em_open_orchestrate: "orchestrateOnce dec ids other princ x orch em g = (out, em', g') \<Longrightarrow> em_open em \<Longrightarrow> em_open em'"
  by (auto simp: orchestrateOnce_def Let_def split: prod.splits option.splits if_splits)

lemma em_open_subtasks:
  "run_subtasks dec tx cfg workers princ env assigned is (res, em, g) = Some (res', em', g') \<Longrightarrow> em_open em \<Longrightarrow> em_open em'"
  by (induction "is" arbitrary: res em g) (auto split: option.splits prod.splits sum.splits)

lemma em_open_delegate:
  assumes "delegate dec jtasks tx cfg workers princ env c em g = Some (r, em', g')" "em_open em"
  shows "em_open em'"
proof (cases "tc_Name c \<noteq> ''delegate'' \<or> (\<exists>e. parseSubtasks jtasks (tc_Arguments c) = Inl e)")
  case True
  with assms show ?thesis by (auto simp: delegate_def split: if_splits)
next
  case False
  then obtain tasks where t: "tc_Name c = ''delegate''" "parseSubtasks jtasks (tc_Arguments c) = Inr tasks"
    by (cases "parseSubtasks jtasks (tc_Arguments c)") auto
  from assms(1) t obtain assigned where a: "assign_tasks (dv_inflight env) workers [] 0 tasks = Some assigned"
    by (auto simp: delegate_def split: option.splits)
  define em1 where "em1 = foldl (\<lambda>em (b, t). em_send ''reasoning_content'' (tx_start tx b (clip (st_Task t) 160)) em) em (zip assigned tasks)"
  have "em_open em1" unfolding em1_def by (rule em_open_sends [OF assms(2)])
  moreover from assms(1) t a obtain res where
    "run_subtasks dec tx cfg workers princ env assigned (dv_done env) (Map.empty, em1, g) = Some (res, em', g')"
    by (auto simp: delegate_def Let_def em1_def split: option.splits if_splits)
  ultimately show ?thesis using em_open_subtasks by blast
qed

lemma delegate_calls_frame:
  assumes "delegate_calls dec cl tx cfg princ envs k cs st = Some st'"
  shows "sb_orch st' = sb_orch st \<and> sb_workers st' = sb_workers st \<and> sb_round st' = sb_round st \<and> sb_tried st' = sb_tried st \<and>
    sb_log st' = sb_log st \<and> (em_open (sb_em st) \<longrightarrow> em_open (sb_em st'))"
  using assms
proof (induction cs arbitrary: k st)
  case Nil
  then show ?case by simp
next
  case (Cons c cs)
  from Cons.prems obtain res u em g where d: "delegate dec (cl_tasks cl) tx cfg (sb_workers st) princ (envs k) c (sb_em st) (sb_g st) = Some ((res, u), em, g)"
    and rest: "delegate_calls dec cl tx cfg princ envs (Suc k) cs (st\<lparr>sb_em := em, sb_g := g, sb_total := usage_add (sb_total st) u,
        sb_extra := sb_extra st @ [\<lparr>mg_role = ''tool'', mg_content = Some res, mg_calls = [], mg_call_id = tc_ID c\<rparr>]\<rparr>) = Some st'"
    by (auto split: option.splits)
  from Cons.IH [OF rest] em_open_delegate [OF d] show ?case by simp
qed

definition sb_inv :: "node_id set \<Rightarrow> target \<Rightarrow> 'p sb_state \<Rightarrow> bool" where
  "sb_inv N tgt st \<longleftrightarrow> sb_round st \<le> superborgMaxRounds \<and> distinct (sb_tried st) \<and> b_NodeID (sb_orch st) \<notin> set (sb_tried st) \<and>
     insert (b_NodeID (sb_orch st)) (set (sb_tried st)) \<subseteq> N \<and>
     (\<forall>w \<in> set (sb_workers st). allows tgt w \<and> \<not> b_Hot w \<and> b_NodeID w \<noteq> b_NodeID (sb_orch st)) \<and>
     length (sb_log st) = sb_round st + length (sb_tried st) \<and> em_open (sb_em st)"

text \<open>What a turn may lead to.\<close>

definition turn_ok :: "node_id set \<Rightarrow> target \<Rightarrow> 'p sb_state \<Rightarrow> 'p sb_outcome \<Rightarrow> bool" where
  "turn_ok N tgt st res \<longleftrightarrow> (case res of
     Running st' \<Rightarrow> sb_inv N tgt st' \<and> sb_round st' + length (sb_tried st') = Suc (sb_round st + length (sb_tried st))
   | Answered st' \<Rightarrow> em_ended (sb_em st') \<and> length (sb_log st') = Suc (sb_round st + length (sb_tried st))
   | Failed st' \<Rightarrow> em_ended (sb_em st') \<and> length (sb_log st') = Suc (sb_round st + length (sb_tried st)))"

lemma pick_facts:
  assumes "pickOrchestrator tags msize all sb pool tried = Some b"
  shows "\<not> tried (b_NodeID b)" "b \<in> set all \<or> b \<in> set pool"
proof -
  show "\<not> tried (b_NodeID b)"
    using orchestrator_spec [where tags = tags and msize = msize and all = all and sb = sb and pool = pool and tried = tried] assms by simp
  show "b \<in> set all \<or> b \<in> set pool"
    using orchestrator_spec [where tags = tags and msize = msize and all = all and sb = sb and pool = pool and tried = tried] assms by (simp split: if_splits)
qed

lemma superborgWorkers_ok: "w \<in> set (superborgWorkers orch (target_filter tgt bs)) \<Longrightarrow> allows tgt w \<and> \<not> b_Hot w \<and> b_NodeID w \<noteq> b_NodeID orch"
  by (simp add: superborgWorkers_def)

lemma retry_ok:
  assumes inv: "sb_inv N tgt st" and fs: "sb_orch st' = sb_orch st" "sb_round st' = sb_round st" "sb_tried st' = sb_tried st"
    "length (sb_log st') = Suc (length (sb_log st))" "em_open (sb_em st')"
    and ids: "b_NodeID ` set (oe_backends env) \<subseteq> N"
  shows "turn_ok N tgt st (retry_orchestrator cl cfg sb tgt env st')"
proof -
  let ?tried = "b_NodeID (sb_orch st) # sb_tried st"
  let ?bs = "routable (oe_backends env)"
  let ?pick = "pickOrchestrator (cl_tags cl) (cl_size cl) ?bs sb (target_filter tgt ?bs) (\<lambda>i. i \<in> set ?tried)"
  show ?thesis
  proof (cases ?pick)
    case None
    then have "retry_orchestrator cl cfg sb tgt env st' = Failed (st'\<lparr>sb_tried := ?tried, sb_g := markDown cfg (oe_now env) (b_NodeID (sb_orch st)) (sb_g st'),
        sb_em := em_fail 502 fail_message (sb_em st')\<rparr>)"
      by (simp add: retry_orchestrator_def Let_def fs)
    with inv fs em_ended_fail show ?thesis by (simp add: turn_ok_def sb_inv_def)
  next
    case (Some b)
    then have r: "retry_orchestrator cl cfg sb tgt env st' = Running (st'\<lparr>sb_tried := ?tried, sb_g := markDown cfg (oe_now env) (b_NodeID (sb_orch st)) (sb_g st'),
        sb_orch := b, sb_workers := superborgWorkers b (target_filter tgt ?bs)\<rparr>)"
      by (simp add: retry_orchestrator_def Let_def fs)
    have b: "b_NodeID b \<notin> set ?tried" "b_NodeID b \<in> N"
      using pick_facts [OF Some] ids by auto
    have "\<forall>w \<in> set (superborgWorkers b (target_filter tgt ?bs)). allows tgt w \<and> \<not> b_Hot w \<and> b_NodeID w \<noteq> b_NodeID b"
      using superborgWorkers_ok by blast
    with r b inv fs show ?thesis by (simp add: turn_ok_def sb_inv_def)
  qed
qed

lemma turn_ok:
  assumes inv: "sb_inv N tgt st" and ids: "b_NodeID ` set (oe_backends env) \<subseteq> N"
    and turn: "superborg_turn dec cl tx cfg sb tgt msgs princ env st = Some res"
  shows "turn_ok N tgt st res"
proof -
  let ?log = "sb_log st @ [(b_NodeID (sb_orch st), has_tools st, length (withSystem msgs (tx_system tx (sb_workers st)) @ sb_extra st))]"
  obtain out em g where o: "orchestrateOnce dec (oe_ids env) (oe_other env) princ (oe_exchange env (sb_orch st)) (sb_orch st) (sb_em st) (sb_g st) = (out, em, g)"
    by (cases "orchestrateOnce dec (oe_ids env) (oe_other env) princ (oe_exchange env (sb_orch st)) (sb_orch st) (sb_em st) (sb_g st)")
  let ?st = "st\<lparr>sb_log := ?log, sb_em := em, sb_g := g\<rparr>"
  have em: "em_open em" using em_open_orchestrate [OF o] inv by (simp add: sb_inv_def)
  have len: "length ?log = Suc (sb_round st + length (sb_tried st))" using inv by (simp add: sb_inv_def)
  show ?thesis
  proof (cases out)
    case (Inl err)
    show ?thesis
    proof (cases "is_retry err \<and> \<not> em_begun em")
      case True
      with turn Inl o have "res = retry_orchestrator cl cfg sb tgt env ?st" by (simp add: superborg_turn_def Let_def)
      then show ?thesis using retry_ok [OF inv _ _ _ _ _ ids, of ?st] em by simp
    next
      case False
      with turn Inl o have "res = Failed (?st\<lparr>sb_em := em_fail 502 fail_message em\<rparr>)" by (auto simp: superborg_turn_def Let_def)
      with em_ended_fail [OF em] len show ?thesis by (simp add: turn_ok_def)
    qed
  next
    case (Inr o')
    let ?st = "?st\<lparr>sb_total := usage_add (sb_total st) (oc_usage o')\<rparr>"
    show ?thesis
    proof (cases "length (oc_calls o') = 0 \<or> is_final st \<or> length (sb_workers st) = 0")
      case True
      with turn Inr o have "res = Answered (?st\<lparr>sb_em := em_finish (sb_total ?st) em\<rparr>)"
        by (auto simp: superborg_turn_def Let_def is_final_def)
      with em_ended_finish [OF em] len show ?thesis by (simp add: turn_ok_def)
    next
      case go: False
      show ?thesis
      proof (cases "findCall (oc_calls o') ''start_job''")
        case (Some c)
        with turn Inr o go have "res = Answered (?st\<lparr>sb_em := em_finish (sb_total ?st) (em_send ''content'' (tx_job tx (chat_goal msgs)) em)\<rparr>)"
          by (simp add: superborg_turn_def Let_def is_final_def)
        with em_ended_finish [OF em_open_send [OF em]] len show ?thesis by (simp add: turn_ok_def)
      next
        case None
        define st1 where "st1 = ?st\<lparr>sb_extra := sb_extra st @ [\<lparr>mg_role = ''assistant'', mg_content = Some (oc_content o'), mg_calls = oc_calls o', mg_call_id = ''''\<rparr>]\<rparr>"
        from turn Inr o go None obtain st' where d: "delegate_calls dec cl tx cfg princ (oe_delegate env) 0 (oc_calls o') st1 = Some st'"
          and res: "res = Running (st'\<lparr>sb_round := Suc (sb_round st')\<rparr>)"
          by (auto simp: superborg_turn_def Let_def is_final_def st1_def)
        from delegate_calls_frame [OF d] em have "sb_orch st' = sb_orch st \<and> sb_workers st' = sb_workers st \<and> sb_round st' = sb_round st \<and>
            sb_tried st' = sb_tried st \<and> sb_log st' = ?log \<and> em_open (sb_em st')" by (simp add: st1_def)
        with res inv go len show ?thesis by (simp add: turn_ok_def sb_inv_def is_final_def)
      qed
    qed
  qed
qed

lemma superborg_loop_ok:
  assumes "sb_inv N tgt st" "finite N" "\<forall>env \<in> set envs. b_NodeID ` set (oe_backends env) \<subseteq> N"
    and "superborg_loop dec cl tx cfg sb tgt msgs princ envs st = Some res"
  shows "case res of
      Running st' \<Rightarrow> sb_inv N tgt st' \<and> sb_round st' + length (sb_tried st') = sb_round st + length (sb_tried st) + length envs
    | Answered st' \<Rightarrow> em_ended (sb_em st') \<and> length (sb_log st') \<le> superborgMaxRounds + card N
    | Failed st' \<Rightarrow> em_ended (sb_em st') \<and> length (sb_log st') \<le> superborgMaxRounds + card N"
  using assms
proof (induction envs arbitrary: st)
  case Nil
  then have "res = Running st" by simp
  with Nil(1) show ?case by simp
next
  case (Cons env envs)
  from Cons.prems(4) obtain r where turn: "superborg_turn dec cl tx cfg sb tgt msgs princ env st = Some r"
    by (auto split: option.splits)
  have ok: "turn_ok N tgt st r" by (rule turn_ok [OF Cons.prems(1) _ turn]) (use Cons.prems(3) in simp)
  have "length (sb_tried st) < card N"
  proof -
    from Cons.prems(1) have "set (sb_tried st) \<subset> N" "distinct (sb_tried st)" by (auto simp: sb_inv_def)
    with psubset_card_mono [OF Cons.prems(2)] show ?thesis by (metis distinct_card)
  qed
  then have bound: "Suc (sb_round st + length (sb_tried st)) \<le> superborgMaxRounds + card N"
    using Cons.prems(1) by (simp add: sb_inv_def)
  show ?case
  proof (cases r)
    case (Running st1)
    with ok have st1: "sb_inv N tgt st1" "sb_round st1 + length (sb_tried st1) = Suc (sb_round st + length (sb_tried st))"
      by (simp_all add: turn_ok_def)
    from Cons.prems(4) turn Running have "superborg_loop dec cl tx cfg sb tgt msgs princ envs st1 = Some res" by simp
    from Cons.IH [OF st1(1) Cons.prems(2) _ this] Cons.prems(3) st1(2) show ?thesis by (simp split: sb_outcome.splits)
  next
    case (Answered st1)
    with Cons.prems(4) turn have "res = Answered st1" by simp
    with ok bound Answered show ?thesis by (simp add: turn_ok_def)
  next
    case (Failed st1)
    with Cons.prems(4) turn have "res = Failed st1" by simp
    with ok bound Failed show ?thesis by (simp add: turn_ok_def)
  qed
qed


subsection \<open>A stream collected in pieces\<close>

lemma col_call_line: "col_call (s\<lparr>sc_line := l\<rparr>) d = (col_call s d)\<lparr>sc_line := l\<rparr>"
  by (cases s) (auto simp: col_call_def Let_def split: option.splits)

lemma col_calls_line: "foldl col_call (s\<lparr>sc_line := l\<rparr>) ds = (foldl col_call s ds)\<lparr>sc_line := l\<rparr>"
  by (induction ds arbitrary: s) (simp_all add: col_call_line)

lemma col_text_line: "col_text a b (s\<lparr>sc_line := l\<rparr>) = (col_text a b s)\<lparr>sc_line := l\<rparr>"
  by (cases s) (simp add: col_text_def col_send_def Let_def)

lemma sawEvent_line: "s\<lparr>sc_line := l, sc_sawEvent := b\<rparr> = s\<lparr>sc_sawEvent := b, sc_line := l\<rparr>"
  by (cases s) simp

lemma usage_line: "s\<lparr>sc_line := l, sc_usage := u\<rparr> = s\<lparr>sc_usage := u, sc_line := l\<rparr>"
  by (cases s) simp

lemma col_event_line: "col_event json jev (s\<lparr>sc_line := l\<rparr>) x = (col_event json jev s x)\<lparr>sc_line := l\<rparr>"
  by (simp add: col_event_def Let_def sawEvent_line usage_line col_text_line col_calls_line split: option.split)

lemma col_event_status [simp]: "sc_status (col_event json jev s x) = sc_status s"
proof -
  have c: "sc_status (foldl col_call s ds) = sc_status s" for s ds
    by (induction ds arbitrary: s) (auto simp: col_call_def Let_def split: option.splits)
  show ?thesis by (auto simp: col_event_def Let_def c col_text_def col_send_def split: option.splits)
qed

lemma col_lines_status [simp]: "sc_status (col_lines json jev acc xs s) = sc_status s"
  by (induction json jev acc xs s rule: col_lines.induct) auto

lemma col_lines_drop_line: "col_lines json jev acc xs (s\<lparr>sc_line := l\<rparr>) = col_lines json jev acc xs s"
  by (induction xs arbitrary: acc s) (simp_all add: col_event_line)

lemma col_lines_append: "col_lines json jev acc (xs @ ys) s =
    (let s' = col_lines json jev acc xs s in col_lines json jev (rev (sc_line s')) ys s')"
proof (induction xs arbitrary: acc s)
  case Nil
  show ?case by (simp add: col_lines_drop_line Let_def)
qed (simp add: Let_def)

lemma col_lines_plain: "CHR 0x0A \<notin> set xs \<Longrightarrow> col_lines json jev acc (xs @ ys) s = col_lines json jev (rev xs @ acc) ys s"
  by (induction xs arbitrary: acc) auto

lemma sc_line_plain: "CHR 0x0A \<notin> set acc \<Longrightarrow> CHR 0x0A \<notin> set (sc_line (col_lines json jev acc xs s))"
  by (induction xs arbitrary: acc s) auto

lemma col_write_200: "sc_status s = 200 \<Longrightarrow> col_write json jev s p = col_lines json jev [] (sc_line s @ p) s"
  by (simp add: col_write_def)

lemma col_write_chunks:
  assumes "sc_status s = 200" "CHR 0x0A \<notin> set (sc_line s)" "chunks \<noteq> []"
  shows "foldl (col_write json jev) s chunks = col_write json jev s (concat chunks)"
  using assms
proof (induction chunks arbitrary: s)
  case (Cons p ps)
  let ?s = "col_lines json jev [] (sc_line s @ p) s"
  have st: "sc_status ?s = 200" "CHR 0x0A \<notin> set (sc_line ?s)" using Cons.prems(1) sc_line_plain [of "[]"] by auto
  show ?case
  proof (cases "ps = []")
    case False
    have "foldl (col_write json jev) s (p # ps) = col_lines json jev [] (sc_line ?s @ concat ps) ?s"
      using Cons.IH [OF st False] Cons.prems(1) st(1) by (simp add: col_write_200)
    also have "\<dots> = col_lines json jev (rev (sc_line ?s)) (concat ps) ?s"
      using col_lines_plain [OF st(2), of json jev "[]"] by simp
    also have "\<dots> = col_lines json jev [] ((sc_line s @ p) @ concat ps) s"
      by (simp only: col_lines_append Let_def)
    finally show ?thesis using Cons.prems(1) by (simp add: col_write_200)
  qed (simp add: Cons.prems)
qed simp

text \<open>
  What the orchestrator's and the workers' streams are collected to does not depend on how
  they are cut into reads: writing the pieces of a successful answer one after the other gives
  the text, the tool calls, the usage and the output of the whole answer written at once.
\<close>

theorem collect_chunks:
  assumes "chunks \<noteq> []"
  shows "foldl (col_write json jev) (new_collector\<lparr>sc_status := 200\<rparr>) chunks = collected json jev (Some \<lparr>rp_Status = 200, rp_Headers = hs, rp_Node = i, rp_Body = concat chunks\<rparr>)"
  using col_write_chunks [of "new_collector\<lparr>sc_status := 200\<rparr>" chunks json jev] assms
  by (simp add: collected_def new_collector_def)

subsection \<open>Who is blamed for a failed subtask\<close>

text \<open>
  When both attempts fail retryably and a third worker is free, the result names that worker,
  although it was never called.
\<close>

lemma blamed_worker:
  assumes "forward json (su_other e1) b True princ (su_exchange e1 b) g = ((Some err1, rep1), g1)" "is_retryable err1" "\<not> su_gone e1"
    and "leastBusy (gw_inflight (markDown cfg (su_now e1) (b_NodeID b) g1)) workers (\<lambda>i. i \<in> {b_NodeID b}) = Some b2" "b_NodeID b2 \<noteq> b_NodeID b"
    and "forward json (su_other e2) b2 True princ (su_exchange e2 b2) (markDown cfg (su_now e1) (b_NodeID b) g1) = ((Some err2, rep2), g2)"
    and "is_retryable err2" "\<not> su_gone e2"
    and "leastBusy (gw_inflight (markDown cfg (su_now e2) (b_NodeID b2) g2)) workers (\<lambda>i. i \<in> {b_NodeID b2, b_NodeID b}) = Some b3"
    and "b_NodeID b3 \<noteq> b_NodeID b" "b_NodeID b3 \<noteq> b_NodeID b2"
  shows "\<exists>g'. runSubtask (json, jev, jwhole) cfg workers princ (e1, e2) b g = Some ((b3, Inl (SubForward err2)), g')"
  using assms by (simp add: runSubtask_def Let_def)

subsection \<open>Samples\<close>

definition sample_texts :: texts where
  "sample_texts = \<lparr>tx_rend = (\<lambda>_. ''failed''), tx_start = (\<lambda>b t. workerName b @ t), tx_done = (\<lambda>b _. workerName b), tx_system = (\<lambda>_. ''''), tx_job = id\<rparr>"

definition sample_delegate_env :: "affinity delegate_env" where
  "sample_delegate_env = \<lparr>dv_inflight = (\<lambda>_ _. 0), dv_subs = (\<lambda>_. let e = \<lparr>su_other = id, su_exchange = e_exchange (sample_env 0), su_gone = False, su_now = 0\<rparr> in (e, e)), dv_done = []\<rparr>"

definition sample_orch_env :: "affinity orch_env" where
  "sample_orch_env = \<lparr>oe_ids = (\<lambda>_. ''x''), oe_other = id, oe_exchange = e_exchange (sample_env 0), oe_now = 0, oe_backends = e_backends (sample_env 0),
     oe_delegate = (\<lambda>_. sample_delegate_env)\<rparr>"

definition sample_superborg :: "(int + affinity sb_outcome option) \<times> affinity gateway" where
  "sample_superborg = serveSuperborg ((\<lambda>_. None), (\<lambda>_. None), (\<lambda>_. None)) \<lparr>cl_tags = (\<lambda>_. []), cl_size = (\<lambda>_. 0), cl_tasks = (\<lambda>_. None)\<rparr> sample_texts sample_config
     \<lparr>sb_Orchestrator = '''', sb_Thinking = False\<rparr> (no_target\<lparr>t_Label := ''m'', t_Model := ''m''\<rparr>) (Some [text_msg ''user'' ''hi'']) False ''anonymous'' (e_backends (sample_env 0)) [sample_orch_env] sample_gateway"

theorem orchestrator_choice_witness:
  "pickOrchestrator (\<lambda>_. []) (\<lambda>_. 0) [] \<lparr>sb_Orchestrator = '''', sb_Thinking = False\<rparr> [sample_backend ''a'' ''m'' 1 False, sample_backend ''b'' ''m'' 2 False] (\<lambda>_. False)
     = Some (sample_backend ''b'' ''m'' 2 False)"
proof -
  let ?p = "pickOrchestrator (\<lambda>_. []) (\<lambda>_. 0) [] \<lparr>sb_Orchestrator = '''', sb_Thinking = False\<rparr> [sample_backend ''a'' ''m'' 1 False, sample_backend ''b'' ''m'' 2 False] (\<lambda>_. False)"
  show ?thesis
    using orchestrator_choice [where tags = "\<lambda>_. []" and msize = "\<lambda>_. 0" and all = "[]" and sb = "\<lparr>sb_Orchestrator = '''', sb_Thinking = False\<rparr>"
        and pool = "[sample_backend ''a'' ''m'' 1 False, sample_backend ''b'' ''m'' 2 False]" and tried = "\<lambda>_. False"]
    by (cases ?p) (auto simp: sample_backend_def is_named_def orch_key_def canCallTools_def)
qed

theorem delegate_assignment_witness:
  "map_option (map b_NodeID) (assign_tasks (\<lambda>_ _. 0) [sample_backend ''a'' ''m'' 1 False, sample_backend ''b'' ''m'' 2 False] [] 0 [\<lparr>st_Worker = ''b'', st_Task = ''x''\<rparr>, \<lparr>st_Worker = ''b'', st_Task = ''y''\<rparr>])
     = Some [''b'', ''a''] \<and>
   (\<exists>bs. assign_tasks (\<lambda>_ _. 0) [sample_backend ''a'' ''m'' 1 False, sample_backend ''b'' ''m'' 2 False] [] 0 [\<lparr>st_Worker = ''b'', st_Task = ''x''\<rparr>] = Some bs \<and> length bs = 1)"
proof
  show "map_option (map b_NodeID) (assign_tasks (\<lambda>_ _. 0) [sample_backend ''a'' ''m'' 1 False, sample_backend ''b'' ''m'' 2 False] [] 0 [\<lparr>st_Worker = ''b'', st_Task = ''x''\<rparr>, \<lparr>st_Worker = ''b'', st_Task = ''y''\<rparr>])
     = Some [''b'', ''a'']" by (simp add: sample_backend_def findWorker_def workerName_def leastBusy_def)
  show "\<exists>bs. assign_tasks (\<lambda>_ _. 0) [sample_backend ''a'' ''m'' 1 False, sample_backend ''b'' ''m'' 2 False] [] 0 [\<lparr>st_Worker = ''b'', st_Task = ''x''\<rparr>] = Some bs \<and> length bs = 1"
    using delegate_assignment [of "[sample_backend ''a'' ''m'' 1 False, sample_backend ''b'' ''m'' 2 False]" "\<lambda>_ _. 0" "[]" 0 "[\<lparr>st_Worker = ''b'', st_Task = ''x''\<rparr>]"] by auto
qed

theorem collect_chunks_witness:
  "foldl (col_write (\<lambda>_. None) (\<lambda>_. None)) (new_collector\<lparr>sc_status := 200\<rparr>) [''data: '', ''{}'' @ [CHR 0x0A]]
     = collected (\<lambda>_. None) (\<lambda>_. None) (Some \<lparr>rp_Status = 200, rp_Headers = [], rp_Node = ''a'', rp_Body = ''data: {}'' @ [CHR 0x0A]\<rparr>)"
  using collect_chunks [of "[''data: '', ''{}'' @ [CHR 0x0A]]"] by simp

lemma sample_superborg_fails: "case fst sample_superborg of Inr (Some (Failed st)) \<Rightarrow> em_out (sb_em st) = [HTTPError 502 fail_message] | _ \<Rightarrow> False"
  by code_simp


end
