(* ===== verification/Router.thy ===== *)
theory Router
  imports Superborg External Auth
begin

text \<open>
  The semantic router (\<^verbatim>\<open>controller/gateway/router.go\<close>) and its settings
  (\<^verbatim>\<open>controller/router.go\<close>): the classes, the classifier's prompt, one decision for an
  ``auto'' request, and the validation and storage of the settings.

  JSON documents are decoded by arguments: \<open>jlog\<close> a completion with log probabilities,
  \<open>jmsg\<close>, \<open>jstr\<close> and \<open>jparts\<close> the parts of a message, \<open>parse\<close> and \<open>print\<close> a duration.  The answer
  of the classifier's node is the argument \<open>net\<close>.  \<open>float64\<close> is \<open>real\<close>; text is ASCII.
\<close>

definition to_upper_char :: "char \<Rightarrow> char" where
  "to_upper_char c = (if CHR ''a'' \<le> c \<and> c \<le> CHR ''z'' then char_of (of_char c - 32 :: nat) else c)"

definition to_upper :: "string \<Rightarrow> string" where
  "to_upper s = map to_upper_char s"

fun join_strings :: "string \<Rightarrow> string list \<Rightarrow> string" where
  "join_strings sep [] = ''''"
| "join_strings sep [w] = w"
| "join_strings sep (w # ws) = w @ sep @ join_strings sep ws"

abbreviation "newline \<equiv> CHR 0x0A"

subsection \<open>Classes and the classifier's prompt\<close>

record router_class =
  rc_Name :: string
  rc_Description :: string
  rc_Examples :: "string list"
  rc_Target :: string

definition MaxRouterClasses :: nat where
  "MaxRouterClasses = 12"

definition RouterLetter :: "nat \<Rightarrow> string" where
  "RouterLetter i = [char_of (65 + i)]"

definition DefaultRouterClasses :: "router_class list" where
  "DefaultRouterClasses =
     [\<lparr>rc_Name = ''easy_chat'', rc_Description = ''greeting, chit-chat or a short factual question'',
       rc_Examples = [''Hello! How are you today?'', ''Who wrote \"Pride and Prejudice\"?''], rc_Target = ''''\<rparr>,
      \<lparr>rc_Name = ''easy_writing'', rc_Description = ''a short text, a simple rewrite, a translation or a short summary'',
       rc_Examples = [''Translate \"thank you very much\" into Spanish.'', ''Make this sentence more polite: send me the file now.''], rc_Target = ''''\<rparr>,
      \<lparr>rc_Name = ''hard_writing'', rc_Description = ''a long, creative or technical text: a story, an article, documentation, a detailed report'',
       rc_Examples = [''Write a 2000-word short story about a lighthouse keeper.'', ''Write the user guide for our backup tool, with examples.''], rc_Target = ''''\<rparr>,
      \<lparr>rc_Name = ''easy_coding'', rc_Description = ''a small code snippet, a one-liner or explaining short code'',
       rc_Examples = [''How do I reverse a list in Python?'', ''What does '' @ [CHR 0x60] @ ''git stash pop'' @ [CHR 0x60] @ '' do?''], rc_Target = ''''\<rparr>,
      \<lparr>rc_Name = ''hard_coding'', rc_Description = ''implementing, debugging or reviewing non-trivial code, or software design'',
       rc_Examples = [''Implement an LRU cache in Go with O(1) operations and tests.'', ''My Rust service deadlocks under load; here is the code, find the bug.''], rc_Target = ''''\<rparr>,
      \<lparr>rc_Name = ''hard_reasoning'', rc_Description = ''math, proofs, multi-step reasoning, analysis or planning'',
       rc_Examples = [''Prove that the square root of 2 is irrational.'', ''Plan the migration of a 3-node Postgres cluster to Kubernetes.''], rc_Target = ''''\<rparr>]"

record router_config =
  rt_Enabled :: bool
  rt_Classifier :: string
  rt_Classes :: "router_class list"
  rt_Timeout :: go_duration

definition second :: go_duration where
  "second = 1000000000"

definition DefaultRouterConfig :: router_config where
  "DefaultRouterConfig = \<lparr>rt_Enabled = False, rt_Classifier = '''', rt_Classes = DefaultRouterClasses, rt_Timeout = 20 * second\<rparr>"

record router_state =
  rs_cfg :: router_config
  rs_system :: string
  rs_letters :: string

definition RouteFallback :: string where
  "RouteFallback = ''fallback''"

definition routerMaxText :: nat where
  "routerMaxText = 2000"

definition routerMinMass :: real where
  "routerMinMass = 1 / 2"

text \<open>\<open>buildRouterSystem\<close>: the line of a class, the lines of its examples, the list of letters.\<close>

definition class_line :: "nat \<Rightarrow> router_class \<Rightarrow> string" where
  "class_line i c = RouterLetter i @ '' = '' @ to_upper (rc_Name c) @ '': '' @ trim_suffix (rc_Description c) ''.'' @ ''.'' @ [newline]"

definition example_lines :: "nat \<Rightarrow> router_class \<Rightarrow> string" where
  "example_lines i c = concat (map (\<lambda>e. ''<request>'' @ e @ ''</request> Answer: '' @ RouterLetter i @ [newline]) (rc_Examples c))"

definition letter_list :: "string list \<Rightarrow> string" where
  "letter_list ls = (let n = length ls in if n > 1 then join_strings '', '' (take (n - 1) ls) @ '' or '' @ ls ! (n - 1) else ls ! 0)"

definition buildRouterSystem :: "router_class list \<Rightarrow> string \<times> string" where
  "buildRouterSystem cs =
     (let b = ''You are a request classifier. You never answer or carry out the request; you only say which class it belongs to.'' @ [newline] @
              concat (map (\<lambda>(i, c). class_line i c) (enumerate 0 cs));
          ex = concat (map (\<lambda>(i, c). example_lines i c) (enumerate 0 cs));
          list = letter_list (map RouterLetter [0..<length cs]);
          b = (if length ex > 0 then b @ [newline] @ ex else b)
      in (b @ [newline] @ ''Reply with one letter only: '' @ list @ ''.'', list))"

definition SetRouter :: "router_config \<Rightarrow> router_state" where
  "SetRouter c =
     (if length (rt_Classes c) > 0
      then \<lparr>rs_cfg = c, rs_system = fst (buildRouterSystem (rt_Classes c)), rs_letters = snd (buildRouterSystem (rt_Classes c))\<rparr>
      else \<lparr>rs_cfg = c, rs_system = '''', rs_letters = ''''\<rparr>)"

definition Router :: "router_state \<Rightarrow> router_config" where
  "Router st = rs_cfg st"

subsection \<open>The text to classify\<close>

record part =
  pt_Type :: string
  pt_Text :: string

type_synonym message_decoders =
  "(string \<Rightarrow> (string \<times> string) option) \<times> (string \<Rightarrow> string option) \<times> (string \<Rightarrow> part list)"

definition contentText :: "(string \<Rightarrow> string option) \<Rightarrow> (string \<Rightarrow> part list) \<Rightarrow> string \<Rightarrow> string" where
  "contentText jstr jparts c =
     (case jstr c of
        Some s \<Rightarrow> s
      | None \<Rightarrow> concat (map (\<lambda>p. if pt_Type p = ''text'' then pt_Text p @ [newline] else '''') (jparts c)))"

text \<open>The loop from the last message to the first, given the messages reversed.\<close>

fun last_user_text :: "message_decoders \<Rightarrow> string list \<Rightarrow> string" where
  "last_user_text (jmsg, jstr, jparts) [] = ''''"
| "last_user_text (jmsg, jstr, jparts) (m # ms) =
     (case jmsg m of
        None \<Rightarrow> last_user_text (jmsg, jstr, jparts) ms
      | Some (role, content) \<Rightarrow>
          if role \<noteq> ''user'' then last_user_text (jmsg, jstr, jparts) ms
          else (let t = contentText jstr jparts content in if t = '''' then last_user_text (jmsg, jstr, jparts) ms else t))"

definition requestText :: "message_decoders \<Rightarrow> request_meta \<Rightarrow> string" where
  "requestText dec meta =
     (let text = last_user_text dec (rev (m_Messages meta));
          text = (if text = '''' \<and> length (m_Messages meta) = 0 then (case fst (snd dec) (m_Prompt meta) of Some s \<Rightarrow> s | None \<Rightarrow> '''') else text)
      in clip (trim_space text) routerMaxText)"

subsection \<open>One decision\<close>

datatype router_error =
    NoClasses
  | NoText
  | UnknownClassifier string
  | NoClassifierNode string
  | ClassifierFailed node_id
  | ClassifierHTTP node_id int string
  | BadResponse
  | NoLogprobs
  | LowMass node_id real
  | UnknownTarget string string
  | NoTargetNode string string

record logprob =
  lp_Token :: string
  lp_Logprob :: real

fun add_logprobs :: "logprob list \<Rightarrow> (string \<Rightarrow> real) \<Rightarrow> string \<Rightarrow> real" where
  "add_logprobs [] probs = probs"
| "add_logprobs (t # ts) probs =
     (let l = to_upper (trim_space (lp_Token t))
      in add_logprobs ts (if length l = 1 then probs(l := probs l + exp (lp_Logprob t)) else probs))"

text \<open>The decoded answer: the choices, each with the tokens and their alternatives.\<close>

definition letterProbs :: "(string \<Rightarrow> (logprob \<times> logprob list) list list option) \<Rightarrow> string \<Rightarrow> router_error + (string \<Rightarrow> real)" where
  "letterProbs jlog raw =
     (case jlog raw of
        None \<Rightarrow> Inl BadResponse
      | Some choices \<Rightarrow>
          if length choices = 0 \<or> length (choices ! 0) = 0 then Inl NoLogprobs
          else (let (first, tops) = choices ! 0 ! 0;
                    tops = (if length tops = 0 then [first] else tops)
                in Inr (add_logprobs tops (\<lambda>_. 0))))"

text \<open>The request to the classifier's node and what comes back.\<close>

record ask =
  ak_Model :: string
  ak_System :: string
  ak_User :: string

datatype ask_result = AskNoRequest | AskFailed | AskReadFailed | AskReply int string

definition ask_request :: "backend \<Rightarrow> router_state \<Rightarrow> string \<Rightarrow> ask" where
  "ask_request b st text = \<lparr>ak_Model = b_Model b, ak_System = rs_system st,
     ak_User = ''<request>'' @ text @ ''</request>'' @ [newline] @ ''Which class is this request ('' @ rs_letters st @ '')? Answer:''\<rparr>"

definition askClassifier ::
  "(string \<Rightarrow> (logprob \<times> logprob list) list list option) \<Rightarrow> (backend \<Rightarrow> ask \<Rightarrow> ask_result) \<Rightarrow> ('p gateway \<Rightarrow> 'p gateway) \<Rightarrow>
   backend \<Rightarrow> router_state \<Rightarrow> string \<Rightarrow> 'p gateway \<Rightarrow> (router_error + (string \<Rightarrow> real)) \<times> 'p gateway" where
  "askClassifier jlog net other b st text g =
     (let g = addInflight (b_NodeID b) 1 g;
          g = other g;
          res = (case net b (ask_request b st text) of
             AskNoRequest \<Rightarrow> Inl (ClassifierFailed (b_NodeID b))
           | AskFailed \<Rightarrow> Inl (ClassifierFailed (b_NodeID b))
           | AskReadFailed \<Rightarrow> Inl (ClassifierFailed (b_NodeID b))
           | AskReply status body \<Rightarrow>
               (let raw = take 65536 body
                in if status \<noteq> 200 then Inl (ClassifierHTTP (b_NodeID b) status (clip (trim_space raw) 200))
                   else letterProbs jlog raw))
      in (res, addInflight (b_NodeID b) (- 1) g))"

fun best_loop :: "(string \<Rightarrow> real) \<Rightarrow> nat list \<Rightarrow> nat \<times> real \<times> real \<Rightarrow> nat \<times> real \<times> real" where
  "best_loop probs [] s = s"
| "best_loop probs (j # js) (i, best, mass) =
     (let q = probs (RouterLetter j);
          mass = mass + q
      in best_loop probs js (if q > best then (j, q, mass) else (i, best, mass)))"

definition bestClass :: "(string \<Rightarrow> real) \<Rightarrow> nat \<Rightarrow> nat \<times> real \<times> real" where
  "bestClass probs n =
     (let (i, best, mass) = best_loop probs [0..<n] (0, 0, 0)
      in if mass = 0 then (0, 0, 0) else (i, best / mass, mass))"

text \<open>What \<open>classify\<close> reads: the resolver, the backends, the decoders, the network, the time.\<close>

record 'p router_env =
  re_targets :: "(string \<Rightarrow> target option) option"
  re_backends :: "backend list"
  re_msg :: message_decoders
  re_log :: "string \<Rightarrow> (logprob \<times> logprob list) list list option"
  re_net :: "backend \<Rightarrow> ask \<Rightarrow> ask_result"
  re_other :: "'p gateway \<Rightarrow> 'p gateway"
  re_now :: go_time

definition class_target :: "'p router_env \<Rightarrow> router_class \<Rightarrow> router_error + target" where
  "class_target env c =
     (let name = (if rc_Target c = '''' then KindAuto else rc_Target c)
      in case resolve (re_targets env) name of
           None \<Rightarrow> Inl (UnknownTarget (rc_Name c) name)
         | Some next_tgt \<Rightarrow>
             if length (target_filter next_tgt (routable (re_backends env))) = 0 then Inl (NoTargetNode (rc_Name c) name)
             else Inr next_tgt)"

definition classify ::
  "'p router_env \<Rightarrow> router_state \<Rightarrow> request_meta \<Rightarrow> 'p gateway \<Rightarrow> (router_error + string \<times> real \<times> target) \<times> 'p gateway" where
  "classify env st meta g =
     (let cfg = rs_cfg st
      in if length (rt_Classes cfg) = 0 then (Inl NoClasses, g)
         else (let text = requestText (re_msg env) meta
           in if text = '''' then (Inl NoText, g)
              else case resolve (re_targets env) (rt_Classifier cfg) of
                None \<Rightarrow> (Inl (UnknownClassifier (rt_Classifier cfg)), g)
              | Some ct \<Rightarrow>
                  (case leastBusy (gw_inflight g) (candidates g (re_now env) (target_filter ct (routable (re_backends env))) (\<lambda>_. False) 0) (\<lambda>_. False) of
                     None \<Rightarrow> (Inl (NoClassifierNode (rt_Classifier cfg)), g)
                   | Some b \<Rightarrow>
                       (let (probs, g) = askClassifier (re_log env) (re_net env) (re_other env) b st text g
                        in case probs of
                             Inl e \<Rightarrow> (Inl e, g)
                           | Inr probs \<Rightarrow>
                               (let (i, p, mass) = bestClass probs (length (rt_Classes cfg))
                                in if mass < routerMinMass then (Inl (LowMass (b_NodeID b) mass), g)
                                   else (case class_target env (rt_Classes cfg ! i) of
                                           Inl e \<Rightarrow> (Inl e, g)
                                         | Inr t \<Rightarrow> (Inr (rc_Name (rt_Classes cfg ! i), p, t), g)))))))"

text \<open>\<open>routeAuto\<close>: the target to use, and the value of the response header when it is set.\<close>

definition routeAuto ::
  "'p router_env \<Rightarrow> router_state \<Rightarrow> target \<Rightarrow> request_meta \<Rightarrow> 'p gateway \<Rightarrow> (target \<times> string option) \<times> 'p gateway" where
  "routeAuto env st tgt meta g =
     (if \<not> rt_Enabled (rs_cfg st) then ((tgt, None), g)
      else case classify env st meta g of
             (Inl e, g) \<Rightarrow> ((tgt, Some RouteFallback), g)
           | (Inr (class, p, t), g) \<Rightarrow> ((t, Some class), g))"

subsection \<open>Settings\<close>

text \<open>A class as it is stored: the class and its letter.\<close>

record router_settings =
  rset_Enabled :: bool
  rset_Classifier :: string
  rset_Timeout :: string
  rset_Classes :: "(router_class \<times> string) list"

record router_update =
  ru_Enabled :: "bool option"
  ru_Classifier :: "string option"
  ru_Timeout :: "string option"
  ru_Classes :: "(router_class \<times> string) list option"
  ru_ResetClasses :: bool

definition routerSettings :: "(go_duration \<Rightarrow> string) \<Rightarrow> router_config \<Rightarrow> router_settings" where
  "routerSettings print c = \<lparr>rset_Enabled = rt_Enabled c, rset_Classifier = rt_Classifier c, rset_Timeout = print (rt_Timeout c),
     rset_Classes = map (\<lambda>(i, cl). (cl, RouterLetter i)) (enumerate 0 (rt_Classes c))\<rparr>"

definition class_name_char :: "char \<Rightarrow> bool" where
  "class_name_char c \<longleftrightarrow> (CHR ''a'' \<le> c \<and> c \<le> CHR ''z'') \<or> (CHR ''0'' \<le> c \<and> c \<le> CHR ''9'') \<or> c = CHR ''_''"

definition routerClassName :: "string \<Rightarrow> bool" where
  "routerClassName s \<longleftrightarrow> s \<noteq> [] \<and> CHR ''a'' \<le> s ! 0 \<and> s ! 0 \<le> CHR ''z'' \<and> list_all class_name_char s \<and> length s \<le> 32"

definition maxRouterDescription :: nat where
  "maxRouterDescription = 300"

definition maxRouterExamples :: nat where
  "maxRouterExamples = 5"

definition maxRouterExample :: nat where
  "maxRouterExample = 300"

definition oneLine :: "string \<Rightarrow> string" where
  "oneLine s = join_strings '' '' (Prelude.fields s)"

datatype settings_error =
    BadTimeout
  | NeedsClassifier
  | NeedsClasses
  | TooManyClasses
  | BadClassName string
  | ReservedClass string
  | DuplicateClass string
  | BadDescription string
  | TooManyExamples string
  | LongExample string

fun norm_examples :: "string \<Rightarrow> string list \<Rightarrow> settings_error + string list" where
  "norm_examples name [] = Inr []"
| "norm_examples name (e # es) =
     (let e = oneLine e
      in if e = '''' then norm_examples name es
         else if length e > maxRouterExample then Inl (LongExample name)
         else (case norm_examples name es of Inl err \<Rightarrow> Inl err | Inr ex \<Rightarrow> Inr (e # ex)))"

definition norm_class :: "string list \<Rightarrow> router_class \<Rightarrow> settings_error + router_class" where
  "norm_class seen c =
     (let c = c\<lparr>rc_Name := trim_space (rc_Name c), rc_Description := oneLine (rc_Description c), rc_Target := trim_space (rc_Target c)\<rparr>
      in if \<not> routerClassName (rc_Name c) then Inl (BadClassName (rc_Name c))
         else if rc_Name c = RouteFallback then Inl (ReservedClass (rc_Name c))
         else if rc_Name c \<in> set seen then Inl (DuplicateClass (rc_Name c))
         else if rc_Description c = '''' \<or> length (rc_Description c) > maxRouterDescription then Inl (BadDescription (rc_Name c))
         else if length (rc_Examples c) > maxRouterExamples then Inl (TooManyExamples (rc_Name c))
         else (case norm_examples (rc_Name c) (rc_Examples c) of
                 Inl e \<Rightarrow> Inl e
               | Inr ex \<Rightarrow> Inr (c\<lparr>rc_Examples := ex\<rparr>)))"

fun norm_classes :: "string list \<Rightarrow> router_class list \<Rightarrow> settings_error + router_class list" where
  "norm_classes seen [] = Inr []"
| "norm_classes seen (s # ss) =
     (case norm_class seen s of
        Inl e \<Rightarrow> Inl e
      | Inr c \<Rightarrow> (case norm_classes (rc_Name c # seen) ss of Inl e \<Rightarrow> Inl e | Inr cs \<Rightarrow> Inr (c # cs)))"

definition routerClasses :: "(router_class \<times> string) list \<Rightarrow> settings_error + router_class list" where
  "routerClasses xs = (if length xs > MaxRouterClasses then Inl TooManyClasses else norm_classes [] (map fst xs))"

definition applyRouterUpdate ::
  "(string \<Rightarrow> go_duration option) \<Rightarrow> router_config \<Rightarrow> router_update \<Rightarrow> settings_error + router_config" where
  "applyRouterUpdate parse c u =
     (let c = (case ru_Enabled u of Some b \<Rightarrow> c\<lparr>rt_Enabled := b\<rparr> | None \<Rightarrow> c);
          c = (case ru_Classifier u of Some s \<Rightarrow> c\<lparr>rt_Classifier := trim_space s\<rparr> | None \<Rightarrow> c);
          timeout = (case ru_Timeout u of
             None \<Rightarrow> Some (rt_Timeout c)
           | Some t \<Rightarrow> (case parse t of Some d \<Rightarrow> if d < second \<or> d > 600 * second then None else Some d | None \<Rightarrow> None))
      in case timeout of
           None \<Rightarrow> Inl BadTimeout
         | Some d \<Rightarrow>
             (let c = c\<lparr>rt_Timeout := d\<rparr>;
                  c = (if ru_ResetClasses u then c\<lparr>rt_Classes := DefaultRouterClasses\<rparr> else c)
              in case (case ru_Classes u of None \<Rightarrow> Inr (rt_Classes c) | Some cs \<Rightarrow> routerClasses cs) of
                   Inl e \<Rightarrow> Inl e
                 | Inr cs \<Rightarrow>
                     (let c = c\<lparr>rt_Classes := cs\<rparr>
                      in if rt_Enabled c \<and> rt_Classifier c = '''' then Inl NeedsClassifier
                         else if rt_Enabled c \<and> length (rt_Classes c) < 2 then Inl NeedsClasses
                         else Inr c)))"

definition routerFromSettings ::
  "(string \<Rightarrow> go_duration option) \<Rightarrow> router_settings \<Rightarrow> settings_error + router_config" where
  "routerFromSettings parse st =
     applyRouterUpdate parse DefaultRouterConfig
       \<lparr>ru_Enabled = Some (rset_Enabled st), ru_Classifier = Some (rset_Classifier st), ru_Timeout = Some (rset_Timeout st),
        ru_Classes = Some (rset_Classes st), ru_ResetClasses = False\<rparr>"

subsection \<open>The most probable class\<close>

lemma best_loop_spec:
  assumes "best_loop probs js (i, best, mass) = (i', best', mass')"
  shows "mass' = mass + sum_list (map (\<lambda>j. probs (RouterLetter j)) js) \<and> best \<le> best' \<and>
    list_all (\<lambda>j. probs (RouterLetter j) \<le> best') js \<and>
    (best' = best \<and> i' = i \<or> i' \<in> set js \<and> best' = probs (RouterLetter i'))"
  using assms
proof (induction js arbitrary: i best mass)
  case Nil
  then show ?case by simp
next
  case (Cons j js)
  show ?case
  proof (cases "probs (RouterLetter j) > best")
    case True
    with Cons.IH [of j "probs (RouterLetter j)" "mass + probs (RouterLetter j)"] Cons.prems show ?thesis by (auto simp: Let_def)
  next
    case False
    with Cons.IH [of i best "mass + probs (RouterLetter j)"] Cons.prems show ?thesis by (auto simp: Let_def)
  qed
qed

lemma exp_letters_nonneg:
  assumes "\<And>l. probs l \<ge> 0"
  shows "add_logprobs ts probs l \<ge> 0"
  using assms by (induction ts probs rule: add_logprobs.induct) (auto simp: Let_def add_nonneg_nonneg)

lemma bestClass_spec:
  assumes "bestClass probs n = (i, p, mass)" "\<And>l. probs l \<ge> 0" "mass > 0"
  shows "i < n \<and> mass = sum_list (map (\<lambda>j. probs (RouterLetter j)) [0..<n]) \<and> p = probs (RouterLetter i) / mass \<and>
    list_all (\<lambda>j. probs (RouterLetter j) \<le> probs (RouterLetter i)) [0..<n] \<and> 0 < p \<and> p \<le> 1"
proof -
  obtain best m where b: "best_loop probs [0..<n] (0, 0, 0) = (i, best, m)" "p = best / mass" "m = mass"
    using assms(1,3) by (auto simp: bestClass_def split: prod.splits if_splits)
  note s = best_loop_spec [OF b(1)]
  have mass: "mass = sum_list (map (\<lambda>j. probs (RouterLetter j)) [0..<n])" and le: "list_all (\<lambda>j. probs (RouterLetter j) \<le> best) [0..<n]"
    using s b(3) by auto
  have pos: "best > 0"
  proof (rule ccontr)
    assume "\<not> best > 0"
    have "probs (RouterLetter j) = 0" if "j \<in> set [0..<n]" for j
    proof -
      from that le have "probs (RouterLetter j) \<le> best" unfolding list_all_iff by blast
      with \<open>\<not> best > 0\<close> assms(2) [of "RouterLetter j"] show ?thesis by linarith
    qed
    then have "map (\<lambda>j. probs (RouterLetter j)) [0..<n] = map (\<lambda>j. 0) [0..<n]"
      by (intro map_cong refl)
    with mass have "mass = sum_list (map (\<lambda>j. 0::real) [0..<n])" by simp
    with assms(3) show False by simp
  qed
  with s have i: "i < n" "best = probs (RouterLetter i)" by auto
  have "probs (RouterLetter i) \<le> mass"
    unfolding mass by (rule member_le_sum_list) (use i assms(2) in auto)
  with i le pos mass assms(3) b(2) show ?thesis by (simp add: divide_le_eq_1)
qed

subsection \<open>Settings survive being stored\<close>

definition one_line :: "string \<Rightarrow> bool" where
  "one_line s \<longleftrightarrow> oneLine s = s"

definition class_ok :: "router_class \<Rightarrow> bool" where
  "class_ok c \<longleftrightarrow> routerClassName (rc_Name c) \<and> rc_Name c \<noteq> RouteFallback \<and> one_line (rc_Description c) \<and> rc_Description c \<noteq> '''' \<and>
     length (rc_Description c) \<le> maxRouterDescription \<and> length (rc_Examples c) \<le> maxRouterExamples \<and>
     list_all (\<lambda>e. one_line e \<and> e \<noteq> '''' \<and> length e \<le> maxRouterExample) (rc_Examples c) \<and> trim_space (rc_Target c) = rc_Target c"

definition router_ok :: "router_config \<Rightarrow> bool" where
  "router_ok c \<longleftrightarrow> second \<le> rt_Timeout c \<and> rt_Timeout c \<le> 600 * second \<and> trim_space (rt_Classifier c) = rt_Classifier c \<and>
     length (rt_Classes c) \<le> MaxRouterClasses \<and> distinct (map rc_Name (rt_Classes c)) \<and> list_all class_ok (rt_Classes c) \<and>
     (rt_Enabled c \<longrightarrow> rt_Classifier c \<noteq> '''' \<and> 2 \<le> length (rt_Classes c))"

lemma dropWhile_idem: "dropWhile P (dropWhile P xs) = dropWhile P xs"
  by (induction xs) auto

lemma trim_space_idem [simp]: "trim_space (trim_space s) = trim_space s"
proof -
  define t where "t = dropWhile is_space s"
  have "dropWhile is_space (rev (dropWhile is_space (rev t))) = rev (dropWhile is_space (rev t))"
  proof (cases "rev (dropWhile is_space (rev t))")
    case (Cons a as)
    have "\<exists>us. t = rev (dropWhile is_space (rev t)) @ us"
      by (metis rev_append rev_rev_ident takeWhile_dropWhile_id)
    with Cons obtain us where "t = a # us" by auto
    then have "\<not> is_space a" unfolding t_def by (metis dropWhile_eq_Cons_conv)
    with Cons show ?thesis by simp
  next
    case Nil
    then show ?thesis by (simp only: list.simps dropWhile.simps)
  qed
  then show ?thesis by (simp add: trim_space_def t_def dropWhile_idem)
qed

lemma fields_aux_ok: "list_all (\<lambda>c. \<not> is_space c) w \<Longrightarrow> list_all word_ok (fields_aux w s)"
proof (induction s arbitrary: w)
  case Nil
  then show ?case by (simp add: word_ok_def list_all_iff)
next
  case (Cons c s)
  have "word_ok (rev w)" if "w \<noteq> []" using that Cons.prems by (simp add: word_ok_def list_all_iff)
  with Cons.IH [of "[]"] Cons.IH [of "c # w"] Cons.prems show ?case by simp
qed

lemma fields_join: "list_all word_ok ws \<Longrightarrow> Prelude.fields (join_strings '' '' ws) = ws"
proof (induction "'' ''" ws rule: join_strings.induct)
  case 1
  show ?case by (simp add: Prelude.fields_def)
next
  case (2 w)
  then show ?case using fields_words(2) by simp
next
  case (3 w v ws)
  then show ?case using fields_words(1) [of w] by simp
qed

lemma oneLine_idem: "one_line (oneLine s)"
proof -
  have "list_all word_ok (Prelude.fields s)" by (simp add: Prelude.fields_def fields_aux_ok)
  then show ?thesis by (simp add: one_line_def oneLine_def fields_join)
qed

lemma join_no_newline: "list_all (\<lambda>w. newline \<notin> set w) ws \<Longrightarrow> newline \<notin> set (join_strings '' '' ws)"
  by (induction "'' ''" ws rule: join_strings.induct) auto

lemma one_line_newline:
  assumes "one_line s"
  shows "newline \<notin> set s"
proof -
  have "list_all word_ok (Prelude.fields s)" by (simp add: Prelude.fields_def fields_aux_ok)
  moreover have "newline \<notin> set w" if "word_ok w" for w using that by (auto simp: word_ok_def list_all_iff is_space_def)
  ultimately have "newline \<notin> set (join_strings '' '' (Prelude.fields s))"
    by (intro join_no_newline) (auto simp: list_all_iff)
  with assms show ?thesis by (simp add: one_line_def oneLine_def)
qed

lemma norm_examples_ok: "norm_examples n es = Inr ex \<Longrightarrow> list_all (\<lambda>e. one_line e \<and> e \<noteq> '''' \<and> length e \<le> maxRouterExample) ex \<and> length ex \<le> length es"
  by (induction es arbitrary: ex) (auto simp: Let_def oneLine_idem not_less split: if_splits sum.splits)

lemma norm_class_ok: "norm_class seen c = Inr c' \<Longrightarrow> class_ok c' \<and> rc_Name c' \<notin> set seen"
  using norm_examples_ok by (fastforce simp: norm_class_def Let_def class_ok_def oneLine_idem split: if_splits sum.splits)

lemma norm_classes_ok:
  "norm_classes seen cs = Inr cs' \<Longrightarrow> list_all class_ok cs' \<and> distinct (map rc_Name cs') \<and> set (map rc_Name cs') \<inter> set seen = {} \<and> length cs' = length cs"
proof (induction cs arbitrary: seen cs')
  case (Cons c cs)
  from Cons.prems obtain d ds where d: "norm_class seen c = Inr d" "norm_classes (rc_Name d # seen) cs = Inr ds" "cs' = d # ds"
    by (auto split: sum.splits)
  from norm_class_ok [OF d(1)] Cons.IH [OF d(2)] d(3) show ?case by auto
qed simp

lemma norm_examples_id: "list_all (\<lambda>e. one_line e \<and> e \<noteq> '''' \<and> length e \<le> maxRouterExample) ex \<Longrightarrow> norm_examples n ex = Inr ex"
  by (induction ex) (auto simp: one_line_def Let_def)

lemma routerClassName_trim:
  assumes "routerClassName s"
  shows "trim_space s = s"
proof -
  have "\<not> is_space c" if "class_name_char c" for c using that by (auto simp: class_name_char_def is_space_def less_eq_char_def)
  with assms have "list_all (\<lambda>c. \<not> is_space c) s" by (auto simp: routerClassName_def list_all_iff)
  then have "\<forall>c \<in> set s. \<not> is_space c" "s \<noteq> []" using assms by (auto simp: list_all_iff routerClassName_def)
  then show ?thesis by (intro trim_space_id) auto
qed

lemma norm_class_id: "class_ok c \<Longrightarrow> rc_Name c \<notin> set seen \<Longrightarrow> norm_class seen c = Inr c"
  by (cases c) (auto simp: norm_class_def class_ok_def Let_def norm_examples_id routerClassName_trim one_line_def)

lemma norm_classes_id:
  "list_all class_ok cs \<Longrightarrow> distinct (map rc_Name cs) \<Longrightarrow> set (map rc_Name cs) \<inter> set seen = {} \<Longrightarrow> norm_classes seen cs = Inr cs"
  by (induction cs arbitrary: seen) (auto simp: norm_class_id)

lemma default_classes_ok: "list_all class_ok DefaultRouterClasses \<and> distinct (map rc_Name DefaultRouterClasses) \<and> length DefaultRouterClasses = 6"
  by code_simp

lemma router_ok_default: "router_ok DefaultRouterConfig"
  using default_classes_ok by (simp add: router_ok_def DefaultRouterConfig_def second_def MaxRouterClasses_def trim_space_def)

text \<open>The result of an update as its parts.\<close>

definition upd_timeout :: "(string \<Rightarrow> go_duration option) \<Rightarrow> router_config \<Rightarrow> router_update \<Rightarrow> go_duration option" where
  "upd_timeout parse c u = (case ru_Timeout u of
     None \<Rightarrow> Some (rt_Timeout c)
   | Some t \<Rightarrow> (case parse t of Some d \<Rightarrow> if d < second \<or> d > 600 * second then None else Some d | None \<Rightarrow> None))"

definition upd_classes :: "router_config \<Rightarrow> router_update \<Rightarrow> settings_error + router_class list" where
  "upd_classes c u = (case ru_Classes u of None \<Rightarrow> Inr (if ru_ResetClasses u then DefaultRouterClasses else rt_Classes c) | Some cs \<Rightarrow> routerClasses cs)"

definition upd_enabled :: "router_config \<Rightarrow> router_update \<Rightarrow> bool" where
  "upd_enabled c u = (case ru_Enabled u of Some b \<Rightarrow> b | None \<Rightarrow> rt_Enabled c)"

definition upd_classifier :: "router_config \<Rightarrow> router_update \<Rightarrow> string" where
  "upd_classifier c u = (case ru_Classifier u of Some s \<Rightarrow> trim_space s | None \<Rightarrow> rt_Classifier c)"

lemma applyRouterUpdate_eq:
  "applyRouterUpdate parse c u =
     (case upd_timeout parse c u of
        None \<Rightarrow> Inl BadTimeout
      | Some d \<Rightarrow>
          (case upd_classes c u of
             Inl e \<Rightarrow> Inl e
           | Inr cs \<Rightarrow>
               if upd_enabled c u \<and> upd_classifier c u = '''' then Inl NeedsClassifier
               else if upd_enabled c u \<and> length cs < 2 then Inl NeedsClasses
               else Inr \<lparr>rt_Enabled = upd_enabled c u, rt_Classifier = upd_classifier c u, rt_Classes = cs, rt_Timeout = d\<rparr>))"
proof -
  have t: "(case ru_Timeout u of None \<Rightarrow> Some (rt_Timeout c') | Some t \<Rightarrow> (case parse t of Some d \<Rightarrow> if d < second \<or> d > 600 * second then None else Some d | None \<Rightarrow> None))
      = upd_timeout parse c u" if "rt_Timeout c' = rt_Timeout c" for c'
    by (simp only: upd_timeout_def that)
  define c1 where "c1 = (case ru_Enabled u of Some b \<Rightarrow> c\<lparr>rt_Enabled := b\<rparr> | None \<Rightarrow> c)"
  define c2 where "c2 = (case ru_Classifier u of Some s \<Rightarrow> c1\<lparr>rt_Classifier := trim_space s\<rparr> | None \<Rightarrow> c1)"
  have c2: "rt_Enabled c2 = upd_enabled c u" "rt_Classifier c2 = upd_classifier c u" "rt_Timeout c2 = rt_Timeout c" "rt_Classes c2 = rt_Classes c"
    by (simp_all add: c2_def c1_def upd_enabled_def upd_classifier_def split: option.split)
  have eq: "c2\<lparr>rt_Timeout := d, rt_Classes := cs\<rparr> = \<lparr>rt_Enabled = upd_enabled c u, rt_Classifier = upd_classifier c u, rt_Classes = cs, rt_Timeout = d\<rparr>" for d cs
    using c2 by (cases c2) simp
  have eq': "c2\<lparr>rt_Timeout := d, rt_Classes := a, rt_Classes := cs\<rparr> = c2\<lparr>rt_Timeout := d, rt_Classes := cs\<rparr>" for d a cs
    by simp
  show ?thesis
    unfolding applyRouterUpdate_def Let_def c1_def [symmetric] c2_def [symmetric] t [OF c2(3)]
    by (cases "upd_timeout parse c u"; cases "ru_Classes u"; cases "ru_ResetClasses u")
       (auto simp: upd_classes_def c2 eq split: sum.split)
qed

lemma applyRouterUpdate_Inr:
  assumes "applyRouterUpdate parse c u = Inr c'"
  shows "upd_timeout parse c u = Some (rt_Timeout c') \<and> upd_classes c u = Inr (rt_Classes c') \<and> rt_Enabled c' = upd_enabled c u \<and>
    rt_Classifier c' = upd_classifier c u \<and> (rt_Enabled c' \<longrightarrow> rt_Classifier c' \<noteq> '''' \<and> 2 \<le> length (rt_Classes c'))"
  using assms by (auto simp: applyRouterUpdate_eq split: option.splits sum.splits if_splits)

lemma routerClasses_ok:
  assumes "routerClasses xs = Inr cs"
  shows "length cs \<le> MaxRouterClasses \<and> distinct (map rc_Name cs) \<and> list_all class_ok cs"
proof -
  from assms have "norm_classes [] (map fst xs) = Inr cs" "length xs \<le> MaxRouterClasses" by (simp_all add: routerClasses_def split: if_splits)
  with norm_classes_ok [OF this(1)] show ?thesis by simp
qed

lemma router_ok_update:
  assumes ok: "router_ok c" and upd: "applyRouterUpdate parse c u = Inr c'"
  shows "router_ok c'"
proof -
  note r = applyRouterUpdate_Inr [OF upd]
  have "length (rt_Classes c') \<le> MaxRouterClasses \<and> distinct (map rc_Name (rt_Classes c')) \<and> list_all class_ok (rt_Classes c')"
    using r ok routerClasses_ok default_classes_ok
    by (cases "ru_Classes u") (auto simp: upd_classes_def router_ok_def MaxRouterClasses_def split: if_splits)
  moreover have "second \<le> rt_Timeout c' \<and> rt_Timeout c' \<le> 600 * second"
    using r ok by (auto simp: upd_timeout_def router_ok_def split: option.splits if_splits)
  moreover have "trim_space (rt_Classifier c') = rt_Classifier c'"
    using r ok by (simp add: upd_classifier_def router_ok_def split: option.splits)
  ultimately show ?thesis using r unfolding router_ok_def by blast
qed

text \<open>The updates an operator can make, from the defaults.\<close>

inductive router_reach :: "(string \<Rightarrow> go_duration option) \<Rightarrow> router_config \<Rightarrow> bool" for parse where
  defaults: "router_reach parse DefaultRouterConfig"
| update: "router_reach parse c \<Longrightarrow> applyRouterUpdate parse c u = Inr c' \<Longrightarrow> router_reach parse c'"

lemma router_reach_ok: "router_reach parse c \<Longrightarrow> router_ok c"
  by (induction rule: router_reach.induct) (auto intro: router_ok_default router_ok_update)

lemma fst_enumerate: "map fst (map (\<lambda>(i, c). (c, f i)) (enumerate n cs)) = cs"
  by (induction cs arbitrary: n) auto

lemma reload_ok:
  assumes "router_ok c" "parse (print (rt_Timeout c)) = Some (rt_Timeout c)"
  shows "routerFromSettings parse (routerSettings print c) = Inr c"
proof -
  have "routerClasses (map (\<lambda>(i, cl). (cl, RouterLetter i)) (enumerate 0 (rt_Classes c))) = Inr (rt_Classes c)"
    unfolding routerClasses_def fst_enumerate using assms(1) norm_classes_id [of "rt_Classes c" "[]"] by (simp add: router_ok_def)
  with assms show ?thesis
    by (cases c) (auto simp: routerFromSettings_def routerSettings_def applyRouterUpdate_eq upd_timeout_def upd_classes_def upd_enabled_def upd_classifier_def router_ok_def)
qed

text \<open>
  The settings of the router survive a restart: every configuration an operator can reach
  from the defaults by accepted updates is loaded again from what is stored of it, unchanged,
  as long as parsing a printed duration gives it back.  (Its classes are at most 12, with
  distinct names that are never the reserved \<open>fallback\<close>, and one-line texts.)
\<close>

theorem router_settings_roundtrip:
  assumes "router_reach parse c" "parse (print (rt_Timeout c)) = Some (rt_Timeout c)"
  shows "routerFromSettings parse (routerSettings print c) = Inr c \<and> router_ok c"
  using router_reach_ok [OF assms(1)] reload_ok [of c parse print] assms(2) by simp

subsection \<open>The prompt keeps its layout\<close>

definition newlines :: "string \<Rightarrow> nat" where
  "newlines s = length (filter (\<lambda>c. c = newline) s)"

lemma newlines_append [simp]: "newlines (s @ t) = newlines s + newlines t"
  by (simp add: newlines_def)

lemma newlines_Nil [simp]: "newlines [] = 0"
  by (simp add: newlines_def)

lemma newlines_Cons [simp]: "newlines (c # s) = (if c = newline then 1 else 0) + newlines s"
  by (simp add: newlines_def)

lemma newlines_0: "newlines s = 0 \<longleftrightarrow> newline \<notin> set s"
  by (auto simp: newlines_def filter_empty_conv)

lemma newlines_concat: "newlines (concat ss) = sum_list (map newlines ss)"
  by (induction ss) auto

lemma letter_newline: "i < 60 \<Longrightarrow> newlines (RouterLetter i) = 0"
  by (simp add: RouterLetter_def char_of_eq_iff take_bit_eq_mod)

lemma class_text_newline:
  assumes "class_ok c"
  shows "newlines (to_upper (rc_Name c)) = 0" "newlines (trim_suffix (rc_Description c) ''.'') = 0"
    "list_all (\<lambda>e. newlines e = 0) (rc_Examples c)"
proof -
  have up: "to_upper_char x \<noteq> newline" if "class_name_char x" for x
  proof (cases "CHR ''a'' \<le> x \<and> x \<le> CHR ''z''")
    case True
    then have "97 \<le> (of_char x :: nat)" "(of_char x :: nat) \<le> 122" by (simp_all add: less_eq_char_def)
    then show ?thesis by (simp add: to_upper_char_def True char_of_eq_iff take_bit_eq_mod)
  qed (use that in \<open>auto simp: to_upper_char_def class_name_char_def less_eq_char_def\<close>)
  then show "newlines (to_upper (rc_Name c)) = 0"
    using assms by (fastforce simp: newlines_0 to_upper_def class_ok_def routerClassName_def list_all_iff)
  have "newline \<notin> set (rc_Description c)" using assms one_line_newline by (simp add: class_ok_def)
  then show "newlines (trim_suffix (rc_Description c) ''.'') = 0"
    by (auto simp: newlines_0 trim_suffix_def dest: in_set_takeD)
  show "list_all (\<lambda>e. newlines e = 0) (rc_Examples c)"
    using assms one_line_newline by (auto simp: class_ok_def list_all_iff newlines_0)
qed

lemma class_line_newlines: "class_ok c \<Longrightarrow> i < 60 \<Longrightarrow> newlines (class_line i c) = 1"
  by (simp add: class_line_def letter_newline class_text_newline)

lemma example_lines_newlines: "class_ok c \<Longrightarrow> i < 60 \<Longrightarrow> newlines (example_lines i c) = length (rc_Examples c)"
proof -
  assume "class_ok c" "i < 60"
  then have "newlines (concat (map (\<lambda>e. ''<request>'' @ e @ ''</request> Answer: '' @ RouterLetter i @ [newline]) es)) = length es"
    if "list_all (\<lambda>e. newlines e = 0) es" for es
    using that by (induction es) (simp_all add: letter_newline)
  with class_text_newline(3) [OF \<open>class_ok c\<close>] show ?thesis by (simp add: example_lines_def)
qed

lemma sum_enumerate:
  assumes "\<And>i c. i < k \<Longrightarrow> c \<in> set cs \<Longrightarrow> newlines (f i c) = h c" "n + length cs \<le> k"
  shows "newlines (concat (map (\<lambda>(i, c). f i c) (enumerate n cs))) = sum_list (map h cs)"
  using assms by (induction cs arbitrary: n) auto

lemma letter_list_newlines:
  assumes "n \<le> 60"
  shows "newlines (letter_list (map RouterLetter [0..<n])) = 0 \<or> n = 0"
proof -
  have j: "newlines (join_strings '', '' ws) = 0" if "list_all (\<lambda>w. newlines w = 0) ws" for ws
    using that by (induction "'', ''" ws rule: join_strings.induct) auto
  have all: "list_all (\<lambda>w. newlines w = 0) (map RouterLetter [0..<n])" using assms by (simp add: list_all_iff letter_newline)
  then have "list_all (\<lambda>w. newlines w = 0) (take (n - 1) (map RouterLetter [0..<n]))"
    unfolding list_all_iff by (meson in_set_takeD)
  from j [OF this] all show ?thesis
    by (auto simp: letter_list_def Let_def list_all_iff letter_newline)
qed

lemma layout:
  assumes "list_all class_ok cs" "length cs \<le> MaxRouterClasses" "cs \<noteq> []"
  shows "newlines (fst (buildRouterSystem cs)) =
    2 + length cs + (if list_all (\<lambda>c. rc_Examples c = []) cs then 0 else 1 + sum_list (map (\<lambda>c. length (rc_Examples c)) cs))"
proof -
  have len: "length cs \<le> 12" using assms(2) by (simp add: MaxRouterClasses_def)
  let ?b = "concat (map (\<lambda>(i, c). class_line i c) (enumerate 0 cs))" and ?ex = "concat (map (\<lambda>(i, c). example_lines i c) (enumerate 0 cs))"
  have b: "newlines ?b = length cs"
    using sum_enumerate [of 60 cs class_line "\<lambda>_. 1" 0] class_line_newlines assms(1) len by (simp add: list_all_iff sum_list_triv)
  have ex: "newlines ?ex = sum_list (map (\<lambda>c. length (rc_Examples c)) cs)"
    using sum_enumerate [of 60 cs example_lines "\<lambda>c. length (rc_Examples c)" 0] example_lines_newlines assms(1) len by (simp add: list_all_iff)
  have "(?ex = []) = list_all (\<lambda>c. rc_Examples c = []) cs"
    by (induction cs arbitrary: rule: rev_induct) (auto simp: example_lines_def enumerate_append_eq)
  moreover have "newlines (letter_list (map RouterLetter [0..<length cs])) = 0"
    using letter_list_newlines [of "length cs"] len assms(3) by auto
  ultimately show ?thesis by (simp add: buildRouterSystem_def Let_def b ex)
qed

text \<open>
  No class an operator can configure breaks the layout of the classifier's prompt: it has
  its first and its last line, one line per class, and one line per example after a blank one.
\<close>

theorem router_prompt_layout:
  assumes "router_reach parse c" "rt_Classes c \<noteq> []"
  shows "newlines (rs_system (SetRouter c)) = 2 + length (rt_Classes c) +
    (if list_all (\<lambda>cl. rc_Examples cl = []) (rt_Classes c) then 0 else 1 + sum_list (map (\<lambda>cl. length (rc_Examples cl)) (rt_Classes c)))"
  using layout [of "rt_Classes c"] router_reach_ok [OF assms(1)] assms(2) by (simp add: router_ok_def SetRouter_def)

subsection \<open>The router only reroutes\<close>

lemma letterProbs_nonneg: "letterProbs jlog raw = Inr probs \<Longrightarrow> probs l \<ge> 0"
  by (auto simp: letterProbs_def Let_def exp_letters_nonneg split: option.splits if_splits prod.splits)

lemma askClassifier_nonneg: "askClassifier jlog net other b st text g = (Inr probs, g') \<Longrightarrow> probs l \<ge> 0"
  by (auto simp: askClassifier_def Let_def letterProbs_nonneg split: ask_result.splits if_splits)

lemma class_target_ok:
  assumes "class_target env c = Inr t"
  shows "resolve (re_targets env) (if rc_Target c = '''' then KindAuto else rc_Target c) = Some t \<and>
     (\<exists>b \<in> set (routable (re_backends env)). allows t b) \<and> \<not> t_Disabled t"
proof -
  from assms have r: "resolve (re_targets env) (if rc_Target c = '''' then KindAuto else rc_Target c) = Some t"
    and "target_filter t (routable (re_backends env)) \<noteq> []"
    by (auto simp: class_target_def Let_def split: option.splits if_splits)
  then obtain b where b: "b \<in> set (routable (re_backends env))" "allows t b" by (auto simp: target_filter_eq filter_empty_conv)
  then have "\<not> t_Disabled t" by (simp add: allows_def split: if_splits)
  with r b show ?thesis by blast
qed

lemma classify_Inr:
  assumes "classify env st meta g = (Inr (class, p, t), g')"
  obtains b tx probs i mass g1 where "askClassifier (re_log env) (re_net env) (re_other env) b st tx g1 = (Inr probs, g')"
    "bestClass probs (length (rt_Classes (rs_cfg st))) = (i, p, mass)" "mass \<ge> routerMinMass"
    "class = rc_Name (rt_Classes (rs_cfg st) ! i)" "class_target env (rt_Classes (rs_cfg st) ! i) = Inr t"
  using assms that by (auto simp: classify_def Let_def split: if_splits option.splits prod.splits sum.splits)

lemma classify_spec:
  assumes "classify env st meta g = (Inr (class, p, t), g')"
  shows "\<exists>c \<in> set (rt_Classes (rs_cfg st)). class = rc_Name c \<and> 0 < p \<and> p \<le> 1 \<and>
    resolve (re_targets env) (if rc_Target c = '''' then KindAuto else rc_Target c) = Some t \<and>
    (\<exists>b \<in> set (routable (re_backends env)). allows t b) \<and> \<not> t_Disabled t"
  using assms
proof (rule classify_Inr)
  fix b tx probs i mass g1
  assume ask: "askClassifier (re_log env) (re_net env) (re_other env) b st tx g1 = (Inr probs, g')"
    and best: "bestClass probs (length (rt_Classes (rs_cfg st))) = (i, p, mass)" "mass \<ge> routerMinMass"
    and c: "class = rc_Name (rt_Classes (rs_cfg st) ! i)" "class_target env (rt_Classes (rs_cfg st) ! i) = Inr t"
  have "mass > 0" using best(2) by (simp add: routerMinMass_def)
  then have "i < length (rt_Classes (rs_cfg st)) \<and> 0 < p \<and> p \<le> 1"
    using bestClass_spec [OF best(1) askClassifier_nonneg [OF ask]] by blast
  with c class_target_ok [OF c(2)] show ?thesis by (auto intro!: bexI [of _ "rt_Classes (rs_cfg st) ! i"])
qed

lemma routeAuto_cases:
  assumes "routeAuto env st tgt meta g = ((t, hdr), g')"
  shows "t = tgt \<and> (hdr = None \<or> hdr = Some RouteFallback) \<or>
    rt_Enabled (rs_cfg st) \<and> (\<exists>c \<in> set (rt_Classes (rs_cfg st)). hdr = Some (rc_Name c) \<and>
      resolve (re_targets env) (if rc_Target c = '''' then KindAuto else rc_Target c) = Some t \<and>
      (\<exists>b \<in> set (routable (re_backends env)). allows t b) \<and> \<not> t_Disabled t)"
proof (cases "rt_Enabled (rs_cfg st)")
  case False
  with assms show ?thesis by (simp add: routeAuto_def)
next
  case True
  obtain res g1 where c: "classify env st meta g = (res, g1)" by (cases "classify env st meta g")
  show ?thesis
  proof (cases res)
    case (Inl e)
    with assms True c show ?thesis by (simp add: routeAuto_def)
  next
    case (Inr r)
    obtain cls p t1 where r: "r = (cls, p, t1)" by (cases r)
    with assms True c Inr have "t = t1" "hdr = Some cls" by (simp_all add: routeAuto_def)
    moreover from c Inr r have "classify env st meta g = (Inr (cls, p, t1), g1)" by simp
    ultimately show ?thesis using classify_spec True by blast
  qed
qed

lemma ServeChat_auto:
  assumes "m_Model meta = KindAuto" "\<not> t_Disabled (route (no_target\<lparr>t_Label := KindAuto\<rparr>))"
  shows "fst (ServeChat targets route orch bs path (Some body) (Some meta) princ g) \<noteq> DRefused code reason"
proof -
  have "resolve targets (m_Model meta) = Some (no_target\<lparr>t_Label := KindAuto\<rparr>)" by (simp add: resolve_def assms(1))
  with assms show ?thesis by (simp add: ServeChat_def Let_def split: option.split)
qed

text \<open>
  C27. The router never refuses an ``auto'' request: what it is routed to is ``auto'' itself, or
  the target of one of the configured classes, which is then not disabled and has a routable
  node at that moment; so whatever the classifier answers, the dispatch ends in a target or in
  a Super Borg pool.
\<close>

theorem router_only_reroutes:
  assumes "m_Model meta = KindAuto"
    and "routeAuto env st (no_target\<lparr>t_Label := KindAuto\<rparr>) meta g = ((t, hdr), g')"
  shows "(t = no_target\<lparr>t_Label := KindAuto\<rparr> \<or>
      rt_Enabled (rs_cfg st) \<and> (\<exists>c \<in> set (rt_Classes (rs_cfg st)). hdr = Some (rc_Name c) \<and>
        resolve (re_targets env) (if rc_Target c = '''' then KindAuto else rc_Target c) = Some t \<and>
        (\<exists>b \<in> set (routable (re_backends env)). allows t b))) \<and>
    (\<forall>code reason. fst (ServeChat (re_targets env) (\<lambda>tgt. fst (fst (routeAuto env st tgt meta g))) orch (re_backends env) path
        (Some body) (Some meta) princ g2) \<noteq> DRefused code reason)"
proof -
  note cs = routeAuto_cases [OF assms(2)]
  then have "\<not> t_Disabled t" by (auto simp: no_target_def)
  then have "fst (ServeChat (re_targets env) (\<lambda>tgt. fst (fst (routeAuto env st tgt meta g))) orch (re_backends env) path
        (Some body) (Some meta) princ g2) \<noteq> DRefused code reason" for code reason
    using assms by (intro ServeChat_auto) simp_all
  with cs show ?thesis by blast
qed

text \<open>
  What it can do is make a request fail later: the class's target is only checked for a routable
  node, not for one with a context that the request fits in.
\<close>

lemma routed_target_too_small:
  assumes "list_all (\<lambda>b. 0 < b_CtxSize b \<and> b_CtxSize b < est) (target_filter t (routable bs))"
    and "b \<in> set (target_filter (no_target\<lparr>t_Label := KindAuto\<rparr>) (routable bs))" "b_CtxSize b = 0" "b_MaxConcurrency b = 0"
  shows "candidates g now (target_filter t (routable bs)) (\<lambda>_. False) est = []"
    and "candidates g now (target_filter (no_target\<lparr>t_Label := KindAuto\<rparr>) (routable bs)) (\<lambda>_. False) est \<noteq> []"
proof -
  have "filter (\<lambda>b. \<not> skipped g (\<lambda>_. False) est b) (target_filter t (routable bs)) = []"
    using assms(1) by (auto simp: filter_empty_conv list_all_iff skipped_def)
  then show "candidates g now (target_filter t (routable bs)) (\<lambda>_. False) est = []" by (simp add: candidates_def)
  let ?u = "filter (\<lambda>b. \<not> skipped g (\<lambda>_. False) est b) (target_filter (no_target\<lparr>t_Label := KindAuto\<rparr>) (routable bs))"
  have "b \<in> set ?u" using assms(2-4) by (simp add: skipped_def)
  then show "candidates g now (target_filter (no_target\<lparr>t_Label := KindAuto\<rparr>) (routable bs)) (\<lambda>_. False) est \<noteq> []"
    by (auto simp: candidates_def Let_def filter_empty_conv)
qed

subsection \<open>Samples\<close>

definition sample_router_env :: "affinity router_env" where
  "sample_router_env = \<lparr>re_targets = None, re_backends = [sample_backend ''a'' ''m'' 1 False], re_msg = ((\<lambda>_. None), Some, (\<lambda>_. [])),
     re_log = (\<lambda>_. None), re_net = (\<lambda>_ _. AskFailed), re_other = id, re_now = 0\<rparr>"

theorem router_only_reroutes_witness:
  "fst (routeAuto sample_router_env (SetRouter (DefaultRouterConfig\<lparr>rt_Enabled := True, rt_Classifier := ''m''\<rparr>)) (no_target\<lparr>t_Label := KindAuto\<rparr>) sample_meta sample_gateway)
     = (no_target\<lparr>t_Label := KindAuto\<rparr>, Some RouteFallback) \<and>
   fst (ServeChat (re_targets sample_router_env) (\<lambda>tgt. fst (fst (routeAuto sample_router_env (SetRouter (DefaultRouterConfig\<lparr>rt_Enabled := True, rt_Classifier := ''m''\<rparr>)) tgt sample_meta sample_gateway)))
     (\<lambda>_ _. None) (re_backends sample_router_env) ''/v1/completions'' (Some ''{}'') (Some sample_meta) ''bob'' sample_gateway) \<noteq> DRefused 503 ''pool_disabled''"
proof -
  let ?st = "SetRouter (DefaultRouterConfig\<lparr>rt_Enabled := True, rt_Classifier := ''m''\<rparr>)"
  let ?r = "routeAuto sample_router_env ?st (no_target\<lparr>t_Label := KindAuto\<rparr>) sample_meta sample_gateway"
  have c: "fst (classify sample_router_env ?st sample_meta sample_gateway) = Inl (ClassifierFailed ''a'')"
    by (simp add: classify_def Let_def SetRouter_def DefaultRouterConfig_def DefaultRouterClasses_def sample_router_env_def requestText_def
        sample_meta_def clip_def routerMaxText_def trim_space_def is_space_def resolve_def is_virtual_def has_prefix_def sample_backend_def
        no_target_def allows_def routable_def candidates_def skipped_def cooling_def sample_gateway_def leastBusy_def askClassifier_def addInflight_def)
  then have r: "fst ?r = (no_target\<lparr>t_Label := KindAuto\<rparr>, Some RouteFallback)"
    by (cases "classify sample_router_env ?st sample_meta sample_gateway") (simp add: routeAuto_def SetRouter_def DefaultRouterConfig_def)
  then obtain g' where "?r = ((no_target\<lparr>t_Label := KindAuto\<rparr>, Some RouteFallback), g')" by (metis prod.collapse)
  moreover have "m_Model sample_meta = KindAuto" by (simp add: sample_meta_def)
  ultimately show ?thesis using router_only_reroutes r by blast
qed

theorem router_settings_roundtrip_witness:
  "routerFromSettings (\<lambda>_. Some (20 * second)) (routerSettings (\<lambda>_. ''20s'') DefaultRouterConfig) = Inr DefaultRouterConfig"
  using router_settings_roundtrip [OF router_reach.defaults, of "\<lambda>_. Some (20 * second)" "\<lambda>_. ''20s''"] by (simp add: DefaultRouterConfig_def)

theorem router_prompt_layout_witness: "newlines (rs_system (SetRouter DefaultRouterConfig)) = 21"
  using router_prompt_layout [OF router_reach.defaults [of "\<lambda>_. None"]] by (simp add: DefaultRouterConfig_def DefaultRouterClasses_def)

end
