(* ===== verification/Routing.thy ===== *)
theory Routing
  imports Pools Router
begin

text \<open>
  Pools at work (\<^verbatim>\<open>controller/pools.go\<close>, and the start in \<^verbatim>\<open>controller/server.go\<close>): the pool
  table and its admin handlers, the routing file, the members and the gateway target of a
  pool, the resolver of names and its list of models.

  The JSON text of the file and of request bodies, the success of a write, the catalog's
  \<open>Get\<close> and the state of Big Brain heads are arguments.  A Go map of pools is an association list.
\<close>

subsection \<open>Members, target, resolver\<close>

text \<open>What the server reads while it computes members: registry, externals, settings, heads, backends.\<close>

record server_view =
  vw_reg :: registry
  vw_host :: string
  vw_limit :: real
  vw_ext :: externals
  vw_bb :: "string \<Rightarrow> bigbrain_status"
  vw_tags :: "string \<Rightarrow> string list"
  vw_size :: "string \<Rightarrow> int"
  vw_backends :: "backend list"

definition stopped_status :: bigbrain_status where
  "stopped_status = \<lparr>bbs_State = BigBrainStopped, bbs_Reason = '''', bbs_NeedBytes = 0, bbs_HaveBytes = 0, bbs_TensorSplit = [],
     bbs_Port = 0, bbs_LoadStartedAt = None, bbs_LoadSeconds = 0, bbs_GenTPS = 0, bbs_PromptTPS = 0, bbs_Restarts = 0\<rparr>"

definition eligible_pairs :: "pool_member list \<Rightarrow> (node_id \<times> string) list" where
  "eligible_pairs ms = map (\<lambda>m. (pm_NodeID m, pm_Model m)) (filter pm_Eligible ms)"

definition poolTarget :: "pool \<Rightarrow> target" where
  "poolTarget p =
     (let es = eligible_pairs (pl_Members p);
          tgt = no_target\<lparr>t_Label := poolPrefix @ pl_Name p, t_Nodes := Some (\<lambda>i. i \<in> set (map fst es)), t_Models := Some (\<lambda>m. m \<in> set (map snd es))\<rparr>;
          tgt = (if pl_Routing p = RoutingSuperborg
                 then tgt\<lparr>t_Superborg := Some \<lparr>sb_Orchestrator = pl_Orchestrator p, sb_Thinking = pl_Thinking p\<rparr>\<rparr> else tgt)
      in if pl_Routing p = RoutingBigBrain
         then tgt\<lparr>t_Nodes := Some (\<lambda>i. i = bigBrainNodeID (pl_Name p) \<and>
                     (case pl_BigBrain p of None \<Rightarrow> False | Some st \<Rightarrow> bbs_State st = BigBrainReady)), t_Models := None\<rparr>
         else tgt)"

definition all_members :: "server_view \<Rightarrow> pool \<Rightarrow> pool_member list" where
  "all_members v p =
     poolMembers p (fst (View (vw_reg v))) (snd (View (vw_reg v))) (vw_limit v) @ externalMembers p (ext_list (\<lambda>_. 0) (\<lambda>_. 0) (vw_ext v))"

definition withMembers :: "server_view \<Rightarrow> pool \<Rightarrow> pool" where
  "withMembers v p =
     (if pl_Routing p = RoutingBigBrain then
        (let p = p\<lparr>pl_Members := bigBrainPoolMembers (vw_reg v) (vw_host v) p\<rparr>;
             st = (if pl_Disabled p then stopped_status else vw_bb v (pl_Name p));
             p = p\<lparr>pl_BigBrain := Some st\<rparr>;
             (status, reason) = bigBrainPoolStatus p st
         in p\<lparr>pl_Status := status, pl_StatusReason := reason\<rparr>)
      else
        (let p = p\<lparr>pl_Members := all_members v p\<rparr>;
             p = (if pl_Routing p = RoutingSuperborg \<and> \<not> pl_Disabled p then
                    (case SuperborgPlanFor (vw_tags v) (vw_size v) (vw_backends v) (poolTarget p) of
                       Some (orch, _) \<Rightarrow> p\<lparr>pl_ActiveOrchestrator := b_NodeID orch\<rparr>
                     | None \<Rightarrow> p)
                  else p);
             (status, reason) = poolStatus p
         in p\<lparr>pl_Status := status, pl_StatusReason := reason\<rparr>))"

type_synonym pool_map = "(string \<times> pool) list"

definition sorted_pools :: "pool_map \<Rightarrow> pool list" where
  "sorted_pools ps = sort_key pl_Name (map snd ps)"

text \<open>\<open>serverTargets.Resolve\<close> on the pool table.\<close>

definition Resolve :: "server_view \<Rightarrow> pool_map \<Rightarrow> string \<Rightarrow> target option" where
  "Resolve v ps name =
     (case cut_prefix name poolPrefix of
        Some pn \<Rightarrow>
          (case map_of ps pn of
             None \<Rightarrow> None
           | Some p \<Rightarrow>
               if pl_Disabled p then Some (no_target\<lparr>t_Label := name, t_Disabled := True\<rparr>)
               else
                 (let tgt = poolTarget (withMembers v p)
                  in Some (if pl_Routing p = RoutingSpread then tgt\<lparr>t_Picker := SpreadPicker\<rparr> else tgt)))
      | None \<Rightarrow>
          (case cut_prefix name nodePrefix of
             None \<Rightarrow> None
           | Some nn \<Rightarrow>
               (let ext = (case cut_prefix nn ExternalPrefix of Some e \<Rightarrow> e | None \<Rightarrow> nn)
                in if ext_has (vw_ext v) ext then Some (no_target\<lparr>t_Label := name, t_Node := ExternalPrefix @ ext\<rparr>)
                   else (let (i, ok) = Registry.Lookup (vw_reg v) nn
                         in if ok then Some (no_target\<lparr>t_Label := name, t_Node := i\<rparr>) else None))))"

definition pool_entry :: "server_view \<Rightarrow> pool \<Rightarrow> model_entry" where
  "pool_entry v p =
     \<lparr>me_ID = poolPrefix @ pl_Name p, me_Kind = KindPool,
      me_Nodes = (if pl_Routing p = RoutingBigBrain then (if bbs_State (vw_bb v (pl_Name p)) = BigBrainReady then 1 else 0)
                  else eligible_count (all_members v p)),
      me_Description = pl_Description p, me_Model = '''', me_Ready = None, me_External = False\<rparr>"

definition node_entry :: "server_view \<Rightarrow> node \<Rightarrow> model_entry" where
  "node_entry v n =
     (let reason = nodeReason n (snd (View (vw_reg v)) (nd_ID n)) (vw_limit v)
      in \<lparr>me_ID = nodePrefix @ nd_Alias n, me_Kind = KindNode, me_Nodes = 1, me_Description = '''',
          me_Model = (case node_runtime n of None \<Rightarrow> '''' | Some rt \<Rightarrow> rt_Model rt),
          me_Ready = Some (reason = '''' \<or> reason = ReasonHot), me_External = False\<rparr>)"

definition external_entry :: "external \<Rightarrow> model_entry" where
  "external_entry x =
     (let model = (case x_DiscoveredModels x of [] \<Rightarrow> '''' | m # _ \<Rightarrow> m)
      in \<lparr>me_ID = nodePrefix @ x_Name x, me_Kind = KindNode, me_Nodes = 1, me_Description = '''', me_Model = model,
          me_Ready = Some (x_State x = ExternalActive \<and> \<not> x_Drained x \<and> model \<noteq> ''''), me_External = True\<rparr>)"

definition Models :: "server_view \<Rightarrow> pool_map \<Rightarrow> model_entry list" where
  "Models v ps =
     map (pool_entry v) (filter (\<lambda>p. \<not> pl_Disabled p) (sorted_pools ps)) @
     map (node_entry v) (filter (\<lambda>n. nd_Alias n \<noteq> '''') (fst (View (vw_reg v)))) @
     map external_entry (ext_list (\<lambda>_. 0) (\<lambda>_. 0) (vw_ext v))"

text \<open>The gauge of eligible members per pool.\<close>

definition Collect_pools :: "server_view \<Rightarrow> pool_map \<Rightarrow> (string \<times> nat) list" where
  "Collect_pools v ps = map (\<lambda>p. (pl_Name p, eligible_count (all_members v p))) (sorted_pools ps)"

subsection \<open>The routing file\<close>

record legacy_superborg =
  ls_Enabled :: bool
  ls_Orchestrator :: string
  ls_Thinking :: bool

record routing_state =
  ro_Aliases :: "(node_id \<times> string) list"
  ro_Pools :: "pool list"
  ro_Performance :: node_perf
  ro_Router :: "router_settings option"
  ro_Superborg :: "legacy_superborg option"

definition empty_routing :: routing_state where
  "empty_routing = \<lparr>ro_Aliases = [], ro_Pools = [], ro_Performance = Map.empty, ro_Router = None, ro_Superborg = None\<rparr>"

definition routingFileVersion :: int where
  "routingFileVersion = 1"

definition superborg_pool :: "legacy_superborg \<Rightarrow> pool" where
  "superborg_pool l =
     \<lparr>pl_Name = RoutingSuperborg,
      pl_Description = ''Super Borg: an orchestrator phone delegating to the others (migrated from the cluster-wide mode)'',
      pl_Models = [], pl_Nodes = [], pl_Classes = [], pl_MinGenTPS = 0, pl_Routing = RoutingSuperborg,
      pl_Orchestrator = ls_Orchestrator l, pl_Thinking = ls_Thinking l, pl_Model = '''', pl_CtxSize = 0, pl_Disabled = False,
      pl_ActiveOrchestrator = '''', pl_Status = '''', pl_StatusReason = '''', pl_Members = [], pl_BigBrain = None\<rparr>"

definition migrateSuperborg :: "routing_state \<Rightarrow> pool_map \<Rightarrow> pool_map \<times> bool" where
  "migrateSuperborg st ps =
     (case ro_Superborg st of
        None \<Rightarrow> (ps, False)
      | Some l \<Rightarrow> if map_of ps RoutingSuperborg \<noteq> None then (ps, False)
                  else (AList.update RoutingSuperborg (superborg_pool l) ps, True))"

datatype read_result = Missing | Unreadable | Content string

datatype load_error = LoadRead | LoadJSON | LoadVersion int | LoadPool string pool_error

fun norm_pools :: "pool list \<Rightarrow> load_error + pool list" where
  "norm_pools [] = Inr []"
| "norm_pools (p # ps) =
     (case normPool p of
        Inl e \<Rightarrow> Inl (LoadPool (pl_Name p) e)
      | Inr q \<Rightarrow> (case norm_pools ps of Inl e \<Rightarrow> Inl e | Inr qs \<Rightarrow> Inr (q # qs)))"

definition LoadRouting :: "(string \<Rightarrow> (int \<times> routing_state) option) \<Rightarrow> read_result \<Rightarrow> load_error + routing_state" where
  "LoadRouting dec r =
     (case r of
        Missing \<Rightarrow> Inr empty_routing
      | Unreadable \<Rightarrow> Inl LoadRead
      | Content s \<Rightarrow>
          (case dec s of
             None \<Rightarrow> Inl LoadJSON
           | Some (ver, st) \<Rightarrow>
               if ver \<noteq> routingFileVersion then Inl (LoadVersion ver)
               else (case norm_pools (ro_Pools st) of Inl e \<Rightarrow> Inl e | Inr qs \<Rightarrow> Inr (st\<lparr>ro_Pools := qs\<rparr>))))"

text \<open>
  The parts of the server that the file holds: \<open>ss_path\<close> is whether there is a file, \<open>ss_disk\<close>
  its text, \<open>ss_replans\<close> counts the calls of \<open>Replan\<close>.
\<close>

record server_state =
  ss_byName :: pool_map
  ss_reg :: registry
  ss_ext :: externals
  ss_perf :: node_perf
  ss_router :: router_config
  ss_routerStored :: bool
  ss_path :: bool
  ss_disk :: "string option"
  ss_replans :: nat

definition routing_of :: "(go_duration \<Rightarrow> string) \<Rightarrow> server_state \<Rightarrow> routing_state" where
  "routing_of print s =
     \<lparr>ro_Aliases = rg_aliases (ss_reg s), ro_Pools = sorted_pools (ss_byName s), ro_Performance = ss_perf s,
      ro_Router = (if ss_routerStored s then Some (routerSettings print (ss_router s)) else None), ro_Superborg = None\<rparr>"

text \<open>\<open>saveRouting\<close>: \<open>ok\<close> tells whether the directory and the file can be written.\<close>

definition saveRouting ::
  "(go_duration \<Rightarrow> string) \<Rightarrow> (int \<times> routing_state \<Rightarrow> string) \<Rightarrow> bool \<Rightarrow> server_state \<Rightarrow> bool \<times> server_state" where
  "saveRouting print enc ok s =
     (if \<not> ss_path s then (True, s)
      else if ok then (True, s\<lparr>ss_disk := Some (enc (routingFileVersion, routing_of print s))\<rparr>)
      else (False, s))"

text \<open>The part of \<open>NewServer\<close> that installs a loaded state.\<close>

definition install_routing ::
  "(string \<Rightarrow> go_duration option) \<Rightarrow> (go_duration \<Rightarrow> string) \<Rightarrow> (int \<times> routing_state \<Rightarrow> string) \<Rightarrow> bool \<Rightarrow> routing_state \<Rightarrow> server_state \<Rightarrow> server_state" where
  "install_routing parse print enc ok st s =
     (let s = (if length (ro_Aliases st) > 0 then s\<lparr>ss_reg := LoadAliases (ro_Aliases st) (ss_reg s)\<rparr> else s);
          ps = foldl (\<lambda>ps p. AList.update (pl_Name p) p ps) [] (ro_Pools st);
          s = s\<lparr>ss_perf := ro_Performance st\<rparr>;
          (ps, migrated) = migrateSuperborg st ps;
          s = s\<lparr>ss_byName := ps\<rparr>;
          s = (case ro_Router st of
                 None \<Rightarrow> s
               | Some rs \<Rightarrow> (case routerFromSettings parse rs of Inl _ \<Rightarrow> s | Inr c \<Rightarrow> s\<lparr>ss_router := c, ss_routerStored := True\<rparr>))
      in if migrated then snd (saveRouting print enc ok s) else s)"

subsection \<open>Admin handlers\<close>

datatype answer = Status int | OKPool pool

text \<open>The arguments of a handler: the codecs, whether the write succeeds, the catalog, the view.\<close>

record handler_env =
  he_print :: "go_duration \<Rightarrow> string"
  he_enc :: "int \<times> routing_state \<Rightarrow> string"
  he_ok :: bool
  he_catalog :: "string \<Rightarrow> bool"
  he_view :: "server_state \<Rightarrow> server_view"

definition Replan_call :: "server_state \<Rightarrow> server_state" where
  "Replan_call s = s\<lparr>ss_replans := Suc (ss_replans s)\<rparr>"

definition catalog_check :: "(string \<Rightarrow> bool) \<Rightarrow> pool_error + pool \<Rightarrow> pool_error + pool" where
  "catalog_check cat r =
     (case r of
        Inl e \<Rightarrow> Inl e
      | Inr p \<Rightarrow> if pl_Routing p = RoutingBigBrain \<and> \<not> cat (pl_Model p) then Inl (ModelNotInCatalog (pl_Model p)) else Inr p)"

definition adminSetPool :: "handler_env \<Rightarrow> string \<Rightarrow> pool option \<Rightarrow> server_state \<Rightarrow> answer \<times> server_state" where
  "adminSetPool env name body s =
     (case body of
        None \<Rightarrow> (Status 400, s)
      | Some p \<Rightarrow>
          (case catalog_check (he_catalog env) (normPool (p\<lparr>pl_Name := name\<rparr>)) of
             Inl e \<Rightarrow> (Status 400, s)
           | Inr p \<Rightarrow>
               if poolConflict (ss_reg s) p (map snd (ss_byName s)) \<noteq> None then (Status 409, s)
               else
                 (let old = map_of (ss_byName s) (pl_Name p);
                      s = s\<lparr>ss_byName := AList.update (pl_Name p) p (ss_byName s)\<rparr>;
                      s = (if pl_Routing p = RoutingBigBrain \<or> (\<exists>o'. old = Some o' \<and> pl_Routing o' = RoutingBigBrain) then Replan_call s else s);
                      (ok, s) = saveRouting (he_print env) (he_enc env) (he_ok env) s
                  in if \<not> ok then (Status 500, s) else (OKPool (withMembers (he_view env s) p), s))))"

definition adminDeletePool :: "handler_env \<Rightarrow> string \<Rightarrow> server_state \<Rightarrow> answer \<times> server_state" where
  "adminDeletePool env name s =
     (let old = map_of (ss_byName s) name;
          s = s\<lparr>ss_byName := AList.delete name (ss_byName s)\<rparr>;
          s = (if (\<exists>o'. old = Some o' \<and> pl_Routing o' = RoutingBigBrain) then Replan_call s else s)
      in if old = None then (Status 404, s)
         else (let (ok, s) = saveRouting (he_print env) (he_enc env) (he_ok env) s
               in if ok then (Status 204, s) else (Status 500, s)))"

definition alias_status :: "reg_error \<Rightarrow> int" where
  "alias_status e = (case e of ErrAliasInvalid \<Rightarrow> 400 | ErrAliasTaken \<Rightarrow> 409 | ErrUnknownNode \<Rightarrow> 404)"

text \<open>The body is \<open>None\<close> when it is not JSON, \<open>Some None\<close> without an alias.\<close>

definition adminSetAlias :: "handler_env \<Rightarrow> node_id \<Rightarrow> string option option \<Rightarrow> server_state \<Rightarrow> answer \<times> server_state" where
  "adminSetAlias env i body s =
     (case body of
        None \<Rightarrow> (Status 400, s)
      | Some None \<Rightarrow> (Status 400, s)
      | Some (Some a) \<Rightarrow>
          if a \<noteq> '''' \<and> ext_has (ss_ext s) a then (Status 409, s)
          else (case SetAlias i a (ss_reg s) of
                  Inl e \<Rightarrow> (Status (alias_status e), s)
                | Inr r \<Rightarrow>
                    (let (ok, s) = saveRouting (he_print env) (he_enc env) (he_ok env) (s\<lparr>ss_reg := r\<rparr>)
                     in (Status (if ok then 200 else 500), s))))"

definition adminPools :: "handler_env \<Rightarrow> server_state \<Rightarrow> pool list" where
  "adminPools env s = map (withMembers (he_view env s)) (sorted_pools (ss_byName s))"

subsection \<open>Validation is stable\<close>

definition clean_ok :: "string list \<Rightarrow> bool" where
  "clean_ok vs \<longleftrightarrow> distinct vs \<and> list_all (\<lambda>v. v \<noteq> '''' \<and> trim_space v = v) vs"

lemma clean_list_ok: "clean_list out vs = Some res \<Longrightarrow> clean_ok out \<Longrightarrow> clean_ok res"
  by (induction vs arbitrary: out) (auto simp: Let_def clean_ok_def split: if_splits)

lemma clean_list_id: "clean_ok (out @ vs) \<Longrightarrow> clean_list out vs = Some (out @ vs)"
proof (induction vs arbitrary: out)
  case (Cons v vs)
  then have "clean_ok ((out @ [v]) @ vs)" "v \<noteq> ''''" "trim_space v = v" "v \<notin> set out" by (auto simp: clean_ok_def)
  with Cons.IH [of "out @ [v]"] show ?case by simp
qed simp

lemma clean_field_iff: "clean_field f vs = Inr res \<Longrightarrow> clean_ok res \<and> clean_field f res = Inr res"
  using clean_list_ok [of "[]" vs res] clean_list_id [of "[]" res]
  by (auto simp: clean_field_def clean_ok_def split: option.splits)

definition pool_ok :: "pool \<Rightarrow> bool" where
  "pool_ok p \<longleftrightarrow> normPool p = Inr p"

text \<open>What a valid pool satisfies, and that this is all.\<close>

definition pool_valid :: "pool \<Rightarrow> bool" where
  "pool_valid p \<longleftrightarrow> pl_Members p = [] \<and> pl_ActiveOrchestrator p = '''' \<and> pl_Status p = '''' \<and> pl_StatusReason p = '''' \<and> pl_BigBrain p = None \<and>
     trim_space (pl_Orchestrator p) = pl_Orchestrator p \<and> name_re (pl_Name p) \<and>
     clean_ok (pl_Models p) \<and> clean_ok (pl_Nodes p) \<and> clean_ok (pl_Classes p) \<and> list_all IsClass (pl_Classes p) \<and> pl_MinGenTPS p \<ge> 0 \<and>
     (pl_Routing p \<in> {RoutingSpread, RoutingAffinity, RoutingSuperborg} \<or>
      pl_Routing p = RoutingBigBrain \<and> trim_space (pl_Model p) = pl_Model p \<and> pl_Model p \<noteq> '''' \<and> length (pl_Nodes p) \<ge> 2 \<and>
        pl_Models p = [] \<and> pl_Classes p = [] \<and> pl_MinGenTPS p = 0 \<and> (pl_CtxSize p = 0 \<or> 512 \<le> pl_CtxSize p \<and> pl_CtxSize p \<le> 131072))"

lemma norm_routing_Inr:
  assumes "norm_routing p = Inr q"
  shows "pl_Routing p = '''' \<and> q = p\<lparr>pl_Routing := RoutingSpread\<rparr> \<or>
    pl_Routing p \<in> {RoutingSpread, RoutingAffinity, RoutingSuperborg} \<and> q = p \<or>
    pl_Routing p = RoutingBigBrain \<and> q = p\<lparr>pl_Model := trim_space (pl_Model p)\<rparr> \<and> trim_space (pl_Model p) \<noteq> '''' \<and> 2 \<le> length (pl_Nodes p) \<and>
      pl_Models p = [] \<and> pl_Classes p = [] \<and> \<not> pl_MinGenTPS p > 0 \<and> (pl_CtxSize p = 0 \<or> 512 \<le> pl_CtxSize p \<and> pl_CtxSize p \<le> 131072)"
proof -
  consider "pl_Routing p = ''''" | "pl_Routing p \<in> {RoutingSpread, RoutingAffinity, RoutingSuperborg}" | "pl_Routing p = RoutingBigBrain"
    using assms by (auto simp: norm_routing_def split: if_splits)
  then show ?thesis
  proof cases
    case 3
    with assms show ?thesis by (simp add: norm_routing_def Let_def not_less split: if_splits)
  qed (use assms in \<open>auto simp: norm_routing_def\<close>)
qed

lemma normPool_valid:
  assumes "normPool p = Inr q"
  shows "pool_valid q"
proof -
  let ?p = "p\<lparr>pl_Members := [], pl_ActiveOrchestrator := '''', pl_Status := '''', pl_StatusReason := '''', pl_BigBrain := None, pl_Orchestrator := trim_space (pl_Orchestrator p)\<rparr>"
  from assms obtain ms ns cs where f: "name_re (pl_Name p)" "clean_field ''models'' (pl_Models p) = Inr ms" "clean_field ''nodes'' (pl_Nodes p) = Inr ns"
    "clean_field ''classes'' (pl_Classes p) = Inr cs" "bad_class cs = None" "pl_MinGenTPS p \<ge> 0"
    and r: "norm_routing (?p\<lparr>pl_Models := ms, pl_Nodes := ns, pl_Classes := cs\<rparr>) = Inr q"
    by (auto simp: normPool_def Let_def not_less split: if_splits sum.splits option.splits)
  have "list_all IsClass cs" using f(5) by (auto simp: bad_class_def find_None_iff list_all_iff)
  with f(1,6) clean_field_iff [OF f(2)] clean_field_iff [OF f(3)] clean_field_iff [OF f(4)]
  have "list_all IsClass cs \<and> name_re (pl_Name p) \<and> pl_MinGenTPS p \<ge> 0 \<and> clean_ok ms \<and> clean_ok ns \<and> clean_ok cs" by simp
  with norm_routing_Inr [OF r] show ?thesis
    by (elim disjE conjE) (simp_all add: pool_valid_def)
qed

lemma valid_normPool:
  assumes "pool_valid p"
  shows "normPool p = Inr p"
proof -
  have c: "clean_field f vs = Inr vs" if "clean_ok vs" for f vs
    using clean_list_id [of "[]" vs] that by (simp add: clean_field_def)
  have b: "bad_class (pl_Classes p) = None" using assms by (auto simp: pool_valid_def bad_class_def find_None_iff list_all_iff)
  have eq: "p\<lparr>pl_Members := [], pl_ActiveOrchestrator := '''', pl_Status := '''', pl_StatusReason := '''', pl_BigBrain := None, pl_Orchestrator := pl_Orchestrator p\<rparr> = p"
    "p\<lparr>pl_Models := pl_Models p, pl_Nodes := pl_Nodes p, pl_Classes := pl_Classes p\<rparr> = p" "p\<lparr>pl_Model := pl_Model p\<rparr> = p"
    using assms by (cases p, simp add: pool_valid_def)+
  have r: "norm_routing p = Inr p"
  proof (cases "pl_Routing p = RoutingBigBrain")
    case True
    with assms have "trim_space (pl_Model p) = pl_Model p" "pl_Model p \<noteq> ''''" "\<not> length (pl_Nodes p) < 2" "pl_Models p = []" "pl_Classes p = []"
      "pl_MinGenTPS p = 0" "\<not> (pl_CtxSize p \<noteq> 0 \<and> (pl_CtxSize p < 512 \<or> pl_CtxSize p > 131072))"
      unfolding pool_valid_def by auto
    with True show ?thesis by (simp add: norm_routing_def eq(3))
  next
    case False
    with assms have "pl_Routing p \<in> {RoutingSpread, RoutingAffinity, RoutingSuperborg}" unfolding pool_valid_def by blast
    then show ?thesis by (auto simp: norm_routing_def)
  qed
  have v: "name_re (pl_Name p)" "trim_space (pl_Orchestrator p) = pl_Orchestrator p" "\<not> pl_MinGenTPS p < 0"
    "clean_ok (pl_Models p)" "clean_ok (pl_Nodes p)" "clean_ok (pl_Classes p)"
    using assms by (simp_all add: pool_valid_def)
  let ?p = "p\<lparr>pl_Members := [], pl_ActiveOrchestrator := '''', pl_Status := '''', pl_StatusReason := '''', pl_BigBrain := None\<rparr>"
  have "?p\<lparr>pl_Orchestrator := trim_space (pl_Orchestrator ?p)\<rparr> = p" using eq(1) v(2) by simp
  then show ?thesis unfolding normPool_def Let_def by (simp add: v c b eq(2) r)
qed

lemma norm_pools_ok: "norm_pools ps = Inr qs \<Longrightarrow> list_all pool_valid qs"
  using normPool_valid by (induction ps arbitrary: qs) (auto split: sum.splits)

lemma norm_pools_id: "list_all pool_valid ps \<Longrightarrow> norm_pools ps = Inr ps"
  by (induction ps) (auto simp: valid_normPool)

subsection \<open>Conflicts between pools\<close>

text \<open>What two pools must not be at the same time, for the names the registry has for nodes.\<close>

definition share_node :: "registry \<Rightarrow> pool \<Rightarrow> pool \<Rightarrow> bool" where
  "share_node r p q \<longleftrightarrow> (\<exists>m \<in> set (pl_Nodes p). \<exists>n \<in> set (pl_Nodes q). node_name_id r m = node_name_id r n)"

definition conflicting :: "registry \<Rightarrow> pool \<Rightarrow> pool \<Rightarrow> bool" where
  "conflicting r p q \<longleftrightarrow> pl_Name p \<noteq> pl_Name q \<and> \<not> pl_Disabled p \<and> \<not> pl_Disabled q \<and> share_node r p q \<and>
     (pl_Routing p = RoutingBigBrain \<and> pl_Routing q = RoutingBigBrain \<or>
      pl_Models p \<noteq> [] \<and> pl_Models q \<noteq> [] \<and> set (pl_Models p) \<inter> set (pl_Models q) = {})"

lemma conflicting_sym: "conflicting r p q \<longleftrightarrow> conflicting r q p"
  by (auto simp: conflicting_def share_node_def Int_commute) (metis)+

lemma find_conflict:
  assumes "find P os = Some x"
  shows "x \<in> set os \<and> P x"
  using find_Some_mem [OF assms] .

lemma share_find: "find (\<lambda>n. \<exists>m \<in> set ms. f m = f n) ns = None \<longleftrightarrow> \<not> (\<exists>n \<in> set ns. \<exists>m \<in> set ms. f m = f n)"
  by (auto simp: find_None_iff)

lemma poolConflict_None:
  assumes "pool_valid p" "list_all pool_valid os"
  shows "poolConflict r p os = None \<longleftrightarrow> list_all (\<lambda>q. \<not> conflicting r p q) os"
proof (cases "pl_Routing p = RoutingBigBrain \<and> \<not> pl_Disabled p")
  case True
  then have "pl_Models p = []" using assms(1) by (auto simp: pool_valid_def)
  with True show ?thesis
    by (auto simp: poolConflict_def Let_def share_find find_None_iff list_all_iff conflicting_def share_node_def split: option.splits dest!: find_Some_mem)
next
  case False
  show ?thesis
  proof (cases "pl_Disabled p \<or> length (pl_Nodes p) = 0 \<or> length (pl_Models p) = 0")
    case True
    with False show ?thesis by (auto simp: poolConflict_def list_all_iff conflicting_def share_node_def)
  next
    case go: False
    with False have "pl_Routing p \<noteq> RoutingBigBrain" by simp
    with False go show ?thesis
      by (auto simp: poolConflict_def Let_def share_find find_None_iff list_all_iff conflicting_def share_node_def split: option.splits dest!: find_Some_mem)
  qed
qed

text \<open>The pool table is keyed by valid pools' names, and no two of its pools conflict.\<close>

definition table_ok :: "pool_map \<Rightarrow> bool" where
  "table_ok ps \<longleftrightarrow> distinct (keys_of ps) \<and> list_all (\<lambda>(n, p). pl_Name p = n \<and> pool_valid p) ps"

definition no_conflicts :: "registry \<Rightarrow> pool_map \<Rightarrow> bool" where
  "no_conflicts r ps \<longleftrightarrow> (\<forall>p \<in> snd ` set ps. \<forall>q \<in> snd ` set ps. \<not> conflicting r p q)"

lemma set_update: "set (AList.update k v m) \<subseteq> insert (k, v) (set m)"
  by (induction m) (auto split: if_splits)

lemma table_ok_update: "table_ok ps \<Longrightarrow> pool_valid p \<Longrightarrow> table_ok (AList.update (pl_Name p) p ps)"
  using set_update [of "pl_Name p" p ps] by (fastforce simp: table_ok_def distinct_update list_all_iff)

lemma table_ok_delete: "table_ok ps \<Longrightarrow> table_ok (AList.delete n ps)"
  using set_delete_subset [of n ps] by (fastforce simp: table_ok_def distinct_delete list_all_iff)

lemma saveRouting_frame:
  assumes "saveRouting print enc ok s = (b, s')"
  shows "ss_byName s' = ss_byName s \<and> ss_reg s' = ss_reg s \<and> ss_ext s' = ss_ext s \<and> ss_perf s' = ss_perf s \<and> ss_router s' = ss_router s \<and>
    ss_routerStored s' = ss_routerStored s \<and> ss_path s' = ss_path s \<and>
    (b \<longrightarrow> ss_path s \<longrightarrow> ss_disk s' = Some (enc (routingFileVersion, routing_of print s')))"
  using assms by (auto simp: saveRouting_def routing_of_def split: if_splits)

lemma adminSetPool_table:
  assumes "adminSetPool env name body s = (a, s')"
  shows "ss_reg s' = ss_reg s \<and> ss_ext s' = ss_ext s \<and> ss_perf s' = ss_perf s \<and> ss_router s' = ss_router s \<and> ss_routerStored s' = ss_routerStored s \<and> ss_path s' = ss_path s \<and>
    (ss_byName s' = ss_byName s \<or>
     (\<exists>p. pool_valid p \<and> poolConflict (ss_reg s) p (map snd (ss_byName s)) = None \<and> ss_byName s' = AList.update (pl_Name p) p (ss_byName s)))"
proof (cases "\<exists>p q. body = Some p \<and> catalog_check (he_catalog env) (normPool (p\<lparr>pl_Name := name\<rparr>)) = Inr q \<and>
    poolConflict (ss_reg s) q (map snd (ss_byName s)) = None")
  case False
  have "s' = s"
  proof (cases body)
    case None
    with assms show ?thesis by (simp add: adminSetPool_def)
  next
    case (Some p)
    show ?thesis
    proof (cases "catalog_check (he_catalog env) (normPool (p\<lparr>pl_Name := name\<rparr>))")
      case (Inl e)
      with assms Some show ?thesis by (simp add: adminSetPool_def)
    next
      case (Inr q)
      with False Some have "poolConflict (ss_reg s) q (map snd (ss_byName s)) \<noteq> None" by simp
      with assms Some Inr show ?thesis by (simp add: adminSetPool_def)
    qed
  qed
  then show ?thesis by simp
next
  case True
  then obtain p q where q: "body = Some p" "catalog_check (he_catalog env) (normPool (p\<lparr>pl_Name := name\<rparr>)) = Inr q"
    "poolConflict (ss_reg s) q (map snd (ss_byName s)) = None" by blast
  define t where "t = (let old = map_of (ss_byName s) (pl_Name q); t = s\<lparr>ss_byName := AList.update (pl_Name q) q (ss_byName s)\<rparr>
    in if pl_Routing q = RoutingBigBrain \<or> (\<exists>o'. old = Some o' \<and> pl_Routing o' = RoutingBigBrain) then Replan_call t else t)"
  have t: "ss_byName t = AList.update (pl_Name q) q (ss_byName s)" "ss_reg t = ss_reg s" "ss_ext t = ss_ext s" "ss_perf t = ss_perf s"
    "ss_router t = ss_router s" "ss_routerStored t = ss_routerStored s" "ss_path t = ss_path s"
    by (simp_all add: t_def Let_def Replan_call_def)
  obtain b u where u: "saveRouting (he_print env) (he_enc env) (he_ok env) t = (b, u)" by fastforce
  have "adminSetPool env name body s = (let (ok, s) = saveRouting (he_print env) (he_enc env) (he_ok env) t
      in if \<not> ok then (Status 500, s) else (OKPool (withMembers (he_view env s) q), s))"
    unfolding adminSetPool_def t_def Let_def using q by simp
  with assms u have "s' = u" by (simp split: if_splits)
  moreover have "normPool (p\<lparr>pl_Name := name\<rparr>) = Inr q" using q(2) by (auto simp: catalog_check_def split: sum.splits if_splits)
  ultimately show ?thesis using saveRouting_frame [OF u] t q(3) normPool_valid by auto
qed

lemma adminDeletePool_table:
  assumes "adminDeletePool env name s = (a, s')"
  shows "ss_reg s' = ss_reg s \<and> ss_ext s' = ss_ext s \<and> ss_perf s' = ss_perf s \<and> ss_router s' = ss_router s \<and> ss_routerStored s' = ss_routerStored s \<and> ss_path s' = ss_path s \<and>
    ss_byName s' = AList.delete name (ss_byName s)"
proof -
  define t where "t = (let t = s\<lparr>ss_byName := AList.delete name (ss_byName s)\<rparr>
    in if (\<exists>o'. map_of (ss_byName s) name = Some o' \<and> pl_Routing o' = RoutingBigBrain) then Replan_call t else t)"
  have t: "ss_byName t = AList.delete name (ss_byName s)" "ss_reg t = ss_reg s" "ss_ext t = ss_ext s" "ss_perf t = ss_perf s"
    "ss_router t = ss_router s" "ss_routerStored t = ss_routerStored s" "ss_path t = ss_path s"
    by (simp_all add: t_def Let_def Replan_call_def)
  obtain b u where u: "saveRouting (he_print env) (he_enc env) (he_ok env) t = (b, u)" by fastforce
  have "adminDeletePool env name s = (if map_of (ss_byName s) name = None then (Status 404, t)
      else (let (ok, s) = saveRouting (he_print env) (he_enc env) (he_ok env) t in if ok then (Status 204, s) else (Status 500, s)))"
    unfolding adminDeletePool_def t_def Let_def ..
  with assms u have "s' = t \<or> s' = u" by (simp split: if_splits)
  with saveRouting_frame [OF u] t show ?thesis by auto
qed

lemma no_conflicts_update:
  assumes "table_ok ps" "pool_valid p" "poolConflict r p (map snd ps) = None" "no_conflicts r ps"
  shows "no_conflicts r (AList.update (pl_Name p) p ps)"
proof -
  have v: "list_all pool_valid (map snd ps)" using assms(1) by (auto simp: table_ok_def list_all_iff)
  have free: "\<not> conflicting r p q" if "q \<in> snd ` set ps" for q
    using poolConflict_None [OF assms(2) v] assms(3) that by (auto simp: list_all_iff)
  have self: "\<not> conflicting r p p" by (simp add: conflicting_def)
  have sub: "snd ` set (AList.update (pl_Name p) p ps) \<subseteq> insert p (snd ` set ps)" using set_update [of "pl_Name p" p ps] by auto
  show ?thesis
    unfolding no_conflicts_def
  proof (intro ballI)
    fix a b assume "a \<in> snd ` set (AList.update (pl_Name p) p ps)" "b \<in> snd ` set (AList.update (pl_Name p) p ps)"
    with sub have "a = p \<or> a \<in> snd ` set ps" "b = p \<or> b \<in> snd ` set ps" by auto
    with free self assms(4) conflicting_sym [of r a b] show "\<not> conflicting r a b" unfolding no_conflicts_def by auto
  qed
qed

inductive pool_step :: "server_state \<Rightarrow> server_state \<Rightarrow> bool" where
  step_set: "adminSetPool env name body s = (a, s') \<Longrightarrow> pool_step s s'"
| step_delete: "adminDeletePool env name s = (a, s') \<Longrightarrow> pool_step s s'"

lemma pool_step_inv:
  assumes "pool_step s s'" "table_ok (ss_byName s)" "no_conflicts (ss_reg s) (ss_byName s)"
  shows "table_ok (ss_byName s') \<and> no_conflicts (ss_reg s') (ss_byName s') \<and> ss_reg s' = ss_reg s"
  using assms(1)
proof cases
  case (step_set env name body a)
  from adminSetPool_table [OF step_set] assms(2,3) table_ok_update no_conflicts_update show ?thesis by metis
next
  case (step_delete env name a)
  have "snd ` set (AList.delete name (ss_byName s)) \<subseteq> snd ` set (ss_byName s)" using set_delete_subset by fastforce
  then have "no_conflicts (ss_reg s) (AList.delete name (ss_byName s))" using assms(3) unfolding no_conflicts_def by blast
  with adminDeletePool_table [OF step_delete] assms(2) table_ok_delete show ?thesis by simp
qed

text \<open>
  C21. While node names keep their meaning, the pool handlers keep the pools apart: after any
  sequence of requests that set and delete pools, whatever their bodies, the catalog and the
  disk, every stored pool is valid and stored under its name, and no two enabled pools claim a
  common node while being both Big Brain pools, or restricted to disjoint sets of models.
\<close>

theorem pools_never_conflict:
  assumes "pool_step\<^sup>*\<^sup>* s0 s" "ss_byName s0 = []"
  shows "table_ok (ss_byName s) \<and> no_conflicts (ss_reg s0) (ss_byName s)"
proof -
  from assms(1) have "table_ok (ss_byName s) \<and> no_conflicts (ss_reg s) (ss_byName s) \<and> ss_reg s = ss_reg s0"
  proof (induction rule: rtranclp_induct)
    case base
    show ?case using assms(2) by (simp add: table_ok_def no_conflicts_def)
  next
    case (step y z)
    from step(3) have "table_ok (ss_byName y)" "no_conflicts (ss_reg y) (ss_byName y)" "ss_reg y = ss_reg s0" by auto
    note y = this
    from pool_step_inv [OF step(2) y(1,2)] y(3) show ?case by metis
  qed
  then show ?thesis by metis
qed

text \<open>A new alias can make two stored pools conflict; \<open>adminSetAlias\<close> does not look at the pools.\<close>

lemma alias_creates_conflict:
  assumes "pl_Nodes p = [''x'']" "pl_Nodes q = [''a'']" "pl_Models p = [''m1'']" "pl_Models q = [''m2'']" "pl_Name p \<noteq> pl_Name q"
    "\<not> pl_Disabled p" "\<not> pl_Disabled q" "ss_reg s = sample_active" "\<not> ext_has (ss_ext s) ''x''" "ss_path s = False"
  shows "\<not> conflicting (ss_reg s) p q"
    and "fst (adminSetAlias env ''a'' (Some (Some ''x'')) s) = Status 200"
    and "conflicting (ss_reg (snd (adminSetAlias env ''a'' (Some (Some ''x'')) s))) p q"
proof -
  have al: "SetAlias ''a'' ''x'' sample_active = Inr (sample_active\<lparr>rg_aliases := [(''a'', ''x'')]\<rparr>)"
    by (simp add: SetAlias_def known_node_def sample_reg_defs validAlias_def name_re_def lower_or_digit_def has_prefix_def less_eq_char_def)
  have l: "node_name_id sample_active ''x'' = ''x''" "node_name_id sample_active ''a'' = ''a''"
    "node_name_id (sample_active\<lparr>rg_aliases := [(''a'', ''x'')]\<rparr>) ''x'' = ''a''" "node_name_id (sample_active\<lparr>rg_aliases := [(''a'', ''x'')]\<rparr>) ''a'' = ''a''"
    by (simp_all add: node_name_id_def Registry.Lookup_def known_node_def sample_reg_defs)
  show "\<not> conflicting (ss_reg s) p q" using assms l by (simp add: conflicting_def share_node_def)
  have r: "adminSetAlias env ''a'' (Some (Some ''x'')) s = (Status 200, s\<lparr>ss_reg := sample_active\<lparr>rg_aliases := [(''a'', ''x'')]\<rparr>\<rparr>)"
    using assms al by (simp add: adminSetAlias_def saveRouting_def)
  then show "fst (adminSetAlias env ''a'' (Some (Some ''x'')) s) = Status 200" by simp
  show "conflicting (ss_reg (snd (adminSetAlias env ''a'' (Some (Some ''x'')) s))) p q"
    using assms l r by (simp add: conflicting_def share_node_def)
qed

subsection \<open>A restart restores the routing state\<close>

text \<open>
  The steps that change what the file holds: pools, aliases and other registry changes,
  bandwidth, the router.
\<close>

inductive server_step :: "(string \<Rightarrow> go_duration option) \<Rightarrow> server_state \<Rightarrow> server_state \<Rightarrow> bool" for parse where
  server_pool: "pool_step s s' \<Longrightarrow> server_step parse s s'"
| server_alias: "adminSetAlias env i body s = (a, s') \<Longrightarrow> server_step parse s s'"
| server_registry: "reg_step (ss_reg s) r \<Longrightarrow> server_step parse s (s\<lparr>ss_reg := r\<rparr>)"
| server_perf: "perf_update i rt (ss_perf s) = (p, changed) \<Longrightarrow> server_step parse s (s\<lparr>ss_perf := p\<rparr>)"
| server_router: "applyRouterUpdate parse (ss_router s) u = Inr c \<Longrightarrow> server_step parse s (s\<lparr>ss_router := c, ss_routerStored := True\<rparr>)"

definition server_inv :: "server_state \<Rightarrow> bool" where
  "server_inv s \<longleftrightarrow> table_ok (ss_byName s) \<and> reg_inv (ss_reg s) \<and> router_ok (ss_router s) \<and>
     (\<not> ss_routerStored s \<longrightarrow> ss_router s = DefaultRouterConfig)"

text \<open>The server before a file is loaded.\<close>

definition fresh_server :: "go_duration \<Rightarrow> go_duration \<Rightarrow> externals \<Rightarrow> bool \<Rightarrow> string option \<Rightarrow> server_state" where
  "fresh_server sus off ext path disk = \<lparr>ss_byName = [], ss_reg = NewRegistry sus off, ss_ext = ext, ss_perf = Map.empty,
     ss_router = DefaultRouterConfig, ss_routerStored = False, ss_path = path, ss_disk = disk, ss_replans = 0\<rparr>"

lemma fresh_inv: "server_inv (fresh_server sus off ext path disk)"
  by (simp add: server_inv_def fresh_server_def table_ok_def reg_inv_New router_ok_default)

lemma server_inv_alias:
  assumes "adminSetAlias env i body s = (a, s')" "server_inv s"
  shows "server_inv s'"
proof -
  have "s' = s \<or> (\<exists>x r. SetAlias i x (ss_reg s) = Inr r \<and> s' = snd (saveRouting (he_print env) (he_enc env) (he_ok env) (s\<lparr>ss_reg := r\<rparr>)))"
    using assms(1) by (auto simp: adminSetAlias_def case_prod_beta split: option.splits if_splits sum.splits)
  then show ?thesis
  proof (elim disjE exE conjE)
    fix x r
    assume r: "SetAlias i x (ss_reg s) = Inr r" "s' = snd (saveRouting (he_print env) (he_enc env) (he_ok env) (s\<lparr>ss_reg := r\<rparr>))"
    obtain b where "saveRouting (he_print env) (he_enc env) (he_ok env) (s\<lparr>ss_reg := r\<rparr>) = (b, s')" using r(2) by (metis prod.collapse)
    from saveRouting_frame [OF this] assms(2) reg_inv_SetAlias [OF _ r(1)] show ?thesis by (simp add: server_inv_def)
  qed (use assms(2) in simp)
qed

lemma server_inv_pool:
  assumes "pool_step s s'" "server_inv s"
  shows "server_inv s'"
  using assms(1)
proof cases
  case (step_set env name body a)
  from adminSetPool_table [OF step_set] assms(2) table_ok_update show ?thesis unfolding server_inv_def by metis
next
  case (step_delete env name a)
  from adminDeletePool_table [OF step_delete] assms(2) table_ok_delete show ?thesis unfolding server_inv_def by metis
qed

lemma server_inv_step: "server_step parse s s' \<Longrightarrow> server_inv s \<Longrightarrow> server_inv s'"
proof (induction rule: server_step.induct)
  case (server_pool s s')
  then show ?case by (rule server_inv_pool)
next
  case (server_alias env i body s a s')
  then show ?case by (rule server_inv_alias)
next
  case (server_registry s r)
  then show ?case using reg_inv_step by (simp add: server_inv_def)
next
  case (server_perf i rt s p changed)
  then show ?case by (simp add: server_inv_def)
next
  case (server_router s u c)
  then have "router_ok c" using router_ok_update unfolding server_inv_def by blast
  with server_router(2) show ?case by (simp add: server_inv_def)
qed

lemma server_reach_inv: "(server_step parse)\<^sup>*\<^sup>* s0 s \<Longrightarrow> server_inv s0 \<Longrightarrow> server_inv s"
  by (induction rule: rtranclp_induct) (auto intro: server_inv_step)

lemma install_pools:
  assumes "distinct (map pl_Name ps)"
  shows "map_of (foldl (\<lambda>m p. AList.update (pl_Name p) p m) m0 ps) = map_of m0 ++ map_of (map (\<lambda>p. (pl_Name p, p)) ps)"
  using assms
proof (induction ps arbitrary: m0)
  case (Cons p ps)
  have "pl_Name p \<notin> fst ` set (map (\<lambda>p. (pl_Name p, p)) ps)" using Cons.prems by auto
  then have n: "map_of (map (\<lambda>p. (pl_Name p, p)) ps) (pl_Name p) = None" by (simp add: map_of_eq_None_iff)
  show ?case
    using Cons n by (auto simp: update_conv' map_add_def fun_eq_iff split: option.splits)
qed simp

lemma table_pairs:
  assumes "table_ok ps"
  shows "map (\<lambda>p. (pl_Name p, p)) (map snd ps) = ps"
proof -
  have "(\<lambda>e. (pl_Name (snd e), snd e)) e = e" if "e \<in> set ps" for e
    using that assms by (cases e) (auto simp: table_ok_def list_all_iff)
  then show ?thesis by (simp add: comp_def map_idI)
qed

lemma sorted_pools_map:
  assumes "table_ok ps"
  shows "distinct (map pl_Name (sorted_pools ps)) \<and> map_of (map (\<lambda>p. (pl_Name p, p)) (sorted_pools ps)) = map_of ps \<and>
    list_all pool_valid (sorted_pools ps)"
proof -
  let ?qs = "map (\<lambda>p. (pl_Name p, p)) (sorted_pools ps)"
  have "mset (sorted_pools ps) = mset (map snd ps)" by (simp add: sorted_pools_def)
  then have "mset ?qs = mset (map (\<lambda>p. (pl_Name p, p)) (map snd ps))" by (metis mset_map)
  then have ms: "mset ?qs = mset ps" by (simp only: table_pairs [OF assms])
  then have "mset (map fst ?qs) = mset (map fst ps)" by (metis mset_map)
  moreover have "distinct (map fst ps)" using assms by (simp add: table_ok_def)
  ultimately have d: "distinct (map fst ?qs)" by (metis mset_eq_imp_distinct_iff)
  have names: "map fst ?qs = map pl_Name (sorted_pools ps)" by (simp add: comp_def)
  have m: "map_of ?qs = map_of ps"
    using map_of_inject_set [OF d \<open>distinct (map fst ps)\<close>] mset_eq_setD [OF ms] by simp
  have v: "list_all pool_valid (sorted_pools ps)" using assms by (auto simp: sorted_pools_def table_ok_def list_all_iff)
  show ?thesis using d m v unfolding names by blast
qed

lemma load_aliases_id:
  assumes "reg_inv r"
  shows "filter (\<lambda>e. validAlias (snd e)) (rg_aliases r) = rg_aliases r"
  using assms by (auto simp: reg_inv_def intro!: filter_True)

text \<open>
  C28. A restart loses nothing the routing file is for: from a server in any state reachable by
  the handlers, once a write of the file succeeds, loading the file and starting a new server
  with it gives the same aliases, the same pools, the same measured bandwidths and the same
  router, as long as decoding gives back the state that was encoded.
\<close>

theorem restart_restores:
  assumes "(server_step parse)\<^sup>*\<^sup>* (fresh_server sus off ext True disk) s" "ss_path s"
    and "dec (enc (routingFileVersion, routing_of print s)) = Some (routingFileVersion, routing_of print s)"
    and "parse (print (rt_Timeout (ss_router s))) = Some (rt_Timeout (ss_router s))"
    and "saveRouting print enc True s = (True, s')"
  shows "\<exists>d st. ss_disk s' = Some d \<and> LoadRouting dec (Content d) = Inr st \<and>
    (let s2 = install_routing parse print enc ok st (fresh_server sus off ext True (Some d))
     in rg_aliases (ss_reg s2) = rg_aliases (ss_reg s) \<and> map_of (ss_byName s2) = map_of (ss_byName s) \<and>
        ss_perf s2 = ss_perf s \<and> ss_router s2 = ss_router s \<and> ss_routerStored s2 = ss_routerStored s)"
proof -
  have inv: "server_inv s" by (rule server_reach_inv [OF assms(1) fresh_inv])
  then have t: "table_ok (ss_byName s)" and r: "reg_inv (ss_reg s)" and ro: "router_ok (ss_router s)"
    and df: "\<not> ss_routerStored s \<Longrightarrow> ss_router s = DefaultRouterConfig" by (auto simp: server_inv_def)
  note sp = sorted_pools_map [OF t]
  define st where "st = routing_of print s"
  have d: "ss_disk s' = Some (enc (routingFileVersion, st))" using assms(2,5) by (auto simp: saveRouting_def st_def)
  have "norm_pools (ro_Pools st) = Inr (ro_Pools st)" using sp norm_pools_id by (simp add: st_def routing_of_def)
  then have l: "LoadRouting dec (Content (enc (routingFileVersion, st))) = Inr st"
    using assms(3) by (cases st) (simp add: LoadRouting_def st_def [symmetric])
  define s2 where "s2 = install_routing parse print enc ok st (fresh_server sus off ext True (Some (enc (routingFileVersion, st))))"
  have m: "map_of (foldl (\<lambda>m p. AList.update (pl_Name p) p m) [] (sorted_pools (ss_byName s))) = map_of (ss_byName s)"
    using install_pools [of "sorted_pools (ss_byName s)" "[]"] sp by simp
  have rt: "routerFromSettings parse (routerSettings print (ss_router s)) = Inr (ss_router s)"
    using ro assms(4) by (rule reload_ok)
  have "rg_aliases (ss_reg s2) = rg_aliases (ss_reg s)"
    by (auto simp: s2_def install_routing_def st_def routing_of_def migrateSuperborg_def fresh_server_def LoadAliases_def NewRegistry_def
        load_aliases_id [OF r] rt)
  moreover have "ss_byName s2 = foldl (\<lambda>m p. AList.update (pl_Name p) p m) [] (sorted_pools (ss_byName s))" "ss_perf s2 = ss_perf s"
    by (simp_all add: s2_def install_routing_def st_def routing_of_def migrateSuperborg_def fresh_server_def rt)
  moreover have "ss_router s2 = ss_router s" "ss_routerStored s2 = ss_routerStored s"
    using df by (simp_all add: s2_def install_routing_def st_def routing_of_def migrateSuperborg_def fresh_server_def rt)
  ultimately show ?thesis using d l m unfolding s2_def by (intro exI [of _ "enc (routingFileVersion, st)"] exI [of _ st]) (simp add: Let_def)
qed

subsection \<open>A pool's requests go to its eligible members\<close>

lemma nodeReason_ok:
  "nodeReason n dr limit = '''' \<longleftrightarrow> servable n \<and> \<not> dr \<and> \<not> too_hot limit (the (nd_LastHeartbeat n))"
  by (auto simp: nodeReason_def servable_def switching_def split: option.splits)

lemma eligible_node:
  assumes "member_reason p drained limit n = ''''"
  shows "servable n \<and> \<not> drained (nd_ID n)"
proof -
  have "nodeReason n (drained (nd_ID n)) limit = ''''"
    using assms by (auto simp: member_reason_def Let_def split: if_splits)
  then show ?thesis by (simp add: nodeReason_ok)
qed

lemma withMembers_fields:
  assumes "pl_Routing p \<noteq> RoutingBigBrain"
  shows "pl_Members (withMembers v p) = all_members v p" "pl_Routing (withMembers v p) = pl_Routing p" "pl_Name (withMembers v p) = pl_Name p"
  using assms by (auto simp: withMembers_def Let_def split: option.split prod.split)

lemma poolTarget_allows:
  assumes "pl_Routing p \<noteq> RoutingBigBrain" "\<not> b_OrchestratorOnly b" "\<not> b_PoolOnly b"
  shows "allows (poolTarget p) b \<longleftrightarrow> b_NodeID b \<in> set (map fst (eligible_pairs (pl_Members p))) \<and> b_Model b \<in> set (map snd (eligible_pairs (pl_Members p)))"
  using assms by (auto simp: poolTarget_def Let_def allows_def no_target_def in_set_map_def)

lemma set_Backends_registry:
  "set (Backends nodes dr host limit []) = (\<lambda>n. let nb = node_backend dr host limit n (the (nd_LastHeartbeat n)) (the (hb_Runtime (the (nd_LastHeartbeat n))));
      any = list_ex snd (node_backends dr host limit nodes)
    in if any \<and> \<not> snd nb then (fst nb)\<lparr>b_Speed := 0\<rparr> else fst nb) ` set (filter servable nodes)"
  by (auto simp: Backends_def node_backends_def Let_def case_prod_beta image_iff)

lemma backend_of_node:
  assumes "n \<in> set nodes" "servable n"
  shows "\<exists>b \<in> set (Backends nodes dr host limit []). b_NodeID b = nd_ID n \<and> b_Model b = rt_Model (the (node_runtime n)) \<and> b_Drained b = dr (nd_ID n)"
proof -
  have rt: "node_runtime n = hb_Runtime (the (nd_LastHeartbeat n))" using assms(2) by (auto simp: servable_def node_runtime_def split: option.splits)
  show ?thesis
    unfolding set_Backends_registry using assms
    by (intro bexI [OF _ imageI [of n]]) (auto simp: node_backend_def Let_def rt)
qed

lemma node_of_backend:
  assumes "b \<in> set (Backends nodes dr host limit [])"
  shows "\<not> b_OrchestratorOnly b \<and> \<not> b_PoolOnly b \<and> (\<exists>n \<in> set nodes. servable n \<and> b_NodeID b = nd_ID n)"
  using assms unfolding set_Backends_registry by (auto simp: node_backend_def Let_def split: if_splits)


text \<open>
  The target keeps nodes and models apart: a node that is eligible with one model also gets
  requests for another member's model that it is not eligible with, for instance because it
  generates it too slowly for the pool.
\<close>

lemma target_mixes_members:
  assumes "pl_Routing p \<noteq> RoutingBigBrain" "\<not> b_OrchestratorOnly b" "\<not> b_PoolOnly b"
    and "(b_NodeID b, m) \<in> set (eligible_pairs (pl_Members p))" "(j, b_Model b) \<in> set (eligible_pairs (pl_Members p))"
  shows "allows (poolTarget p) b"
  using poolTarget_allows [OF assms(1-3)] assms(4,5) by force

lemma slow_model_served:
  assumes "x_NodeID x = ''ext:x''" "x_Name x = ''x''" "x_Role x = ''''" "\<not> x_Drained x" "x_State x = ExternalActive" "x_SpeedTPS x = 0"
    "x_DiscoveredModels x = [''big'', ''small'']" "measured_tps (x_Measured x) ''big'' = 1" "measured_tps (x_Measured x) ''small'' = 20"
    and "y = x\<lparr>x_NodeID := ''ext:y'', x_Name := ''y'', x_DiscoveredModels := [''big''], x_SpeedTPS := 15\<rparr>"
    and "pl_Routing p = RoutingSpread" "pl_Nodes p = []" "pl_Classes p = []" "pl_Models p = []" "pl_MinGenTPS p = 10"
    and "b_NodeID b = ''ext:x''" "b_Model b = ''big''" "\<not> b_OrchestratorOnly b" "\<not> b_PoolOnly b" "pl_Members p = externalMembers p [x, y]"
  shows "ext_member_reason p x ''big'' = ReasonBelowMinTPS" and "allows (poolTarget p) b"
proof -
  have r: "ext_member_reason p x ''big'' = ReasonBelowMinTPS" "ext_member_reason p x ''small'' = ''''" "ext_member_reason p y ''big'' = ''''"
    using assms by (simp_all add: ext_member_reason_def)
  then show "ext_member_reason p x ''big'' = ReasonBelowMinTPS" by simp
  have "eligible_pairs (externalMembers p [x, y]) = [(''ext:x'', ''small''), (''ext:y'', ''big'')]"
    using assms r by (simp add: externalMembers_def eligible_pairs_def)
  with assms show "allows (poolTarget p) b" by (simp add: poolTarget_allows)
qed

subsection \<open>Samples\<close>

definition sample_pool :: "string \<Rightarrow> string list \<Rightarrow> pool" where
  "sample_pool name nodes = \<lparr>pl_Name = name, pl_Description = '''', pl_Models = [], pl_Nodes = nodes, pl_Classes = [], pl_MinGenTPS = 0,
     pl_Routing = RoutingSpread, pl_Orchestrator = '''', pl_Thinking = False, pl_Model = '''', pl_CtxSize = 0, pl_Disabled = False,
     pl_ActiveOrchestrator = '''', pl_Status = '''', pl_StatusReason = '''', pl_Members = [], pl_BigBrain = None\<rparr>"

definition sample_view :: server_view where
  "sample_view = \<lparr>vw_reg = sample_serving, vw_host = ''h'', vw_limit = 0, vw_ext = newExternals [], vw_bb = (\<lambda>_. stopped_status),
     vw_tags = (\<lambda>_. []), vw_size = (\<lambda>_. 0), vw_backends = []\<rparr>"

definition sample_handler :: handler_env where
  "sample_handler = \<lparr>he_print = (\<lambda>_. ''20s''), he_enc = (\<lambda>_. ''saved''), he_ok = True, he_catalog = (\<lambda>_. True), he_view = (\<lambda>_. sample_view)\<rparr>"

definition sample_server :: server_state where
  "sample_server = fresh_server 15 30 (newExternals []) True None"

definition sample_pooled :: server_state where
  "sample_pooled = snd (adminSetPool sample_handler ''tiny'' (Some (sample_pool '''' [''a''])) sample_server)"

lemma sample_step: "pool_step sample_server sample_pooled"
  unfolding sample_pooled_def by (rule step_set [OF prod.collapse [symmetric]])

lemma sample_pool_norm: "normPool ((sample_pool '''' [''a''])\<lparr>pl_Name := ''tiny''\<rparr>) = Inr (sample_pool ''tiny'' [''a''])"
  by (simp add: normPool_def Let_def sample_pool_def name_re_def lower_or_digit_def less_eq_char_def clean_field_def trim_space_def is_space_def bad_class_def norm_routing_def)

lemma sample_pooled_eq: "sample_pooled = sample_server\<lparr>ss_byName := [(''tiny'', sample_pool ''tiny'' [''a''])], ss_disk := Some ''saved''\<rparr>"
  by (simp add: sample_pooled_def adminSetPool_def sample_pool_norm catalog_check_def poolConflict_def sample_server_def fresh_server_def
      saveRouting_def sample_handler_def Let_def) (simp add: sample_pool_def)

theorem pools_never_conflict_witness: "table_ok (ss_byName sample_pooled) \<and> keys_of (ss_byName sample_pooled) = [''tiny'']"
proof -
  have "ss_byName sample_server = []" "keys_of (ss_byName sample_pooled) = [''tiny'']"
    by (simp_all add: sample_pooled_eq sample_server_def fresh_server_def)
  with pools_never_conflict [OF r_into_rtranclp [of pool_step, OF sample_step]] show ?thesis by blast
qed

theorem restart_restores_witness:
  "\<exists>st. LoadRouting (\<lambda>_. Some (routingFileVersion, routing_of (\<lambda>_. ''20s'') sample_pooled)) (Content ''saved'') = Inr st \<and>
     map_of (ss_byName (install_routing (\<lambda>_. Some (20 * second)) (\<lambda>_. ''20s'') (\<lambda>_. ''saved'') True st (fresh_server 15 30 (newExternals []) True (Some ''saved''))))
       = [''tiny'' \<mapsto> sample_pool ''tiny'' [''a'']]"
proof -
  let ?s' = "snd (saveRouting (\<lambda>_. ''20s'') (\<lambda>_. ''saved'') True sample_pooled)"
  have s: "saveRouting (\<lambda>_. ''20s'') (\<lambda>_. ''saved'') True sample_pooled = (True, ?s')" "ss_disk ?s' = Some ''saved''"
    by (simp_all add: saveRouting_def sample_pooled_eq sample_server_def fresh_server_def)
  have reach: "(server_step (\<lambda>_. Some (20 * second)))\<^sup>*\<^sup>* (fresh_server 15 30 (newExternals []) True None) sample_pooled"
    using sample_step by (simp add: sample_server_def r_into_rtranclp server_pool)
  have p: "ss_path sample_pooled" "rt_Timeout (ss_router sample_pooled) = 20 * second" "ss_byName sample_pooled = [(''tiny'', sample_pool ''tiny'' [''a''])]"
    by (simp_all add: sample_pooled_eq sample_server_def fresh_server_def DefaultRouterConfig_def)
  from restart_restores [OF reach p(1) _ _ s(1), of "\<lambda>_. Some (routingFileVersion, routing_of (\<lambda>_. ''20s'') sample_pooled)" True] s(2) p(2,3)
  show ?thesis by (auto simp: Let_def)
qed

lemma sample_nodes:
  "\<exists>n. fst (View sample_serving) = [n] \<and> nd_ID n = ''a'' \<and> nodeReason n False 0 = '''' \<and> snd (View sample_serving) ''a'' = False"
  by (simp add: View_def Snapshot_def sample_reg_defs nodeReason_def switching_def too_hot_def)



end
