(* ===== verification/BigBrain.thy ===== *)
theory BigBrain
  imports Routing Catalog
begin

text \<open>
  Big Brain heads (\<^verbatim>\<open>controller/bigbrain.go\<close>): for every enabled Big Brain pool the controller
  supervises one head process that drives the members over RPC.  The supervisor (one loop) takes
  the lock several times while it reconciles a pool; the goroutines that wait for a process to
  exit, or measure a ready head, run in between, which is a list of events between two regions.

  A process is a number, given by \<open>start\<close>; \<open>hd_run\<close> is the process whose \<open>cancel\<close> and \<open>done\<close> the
  head holds.  Log files and their tails, the health check and the clock are arguments.
\<close>

abbreviation "BigBrainLoading \<equiv> ''loading''"
abbreviation "BigBrainError \<equiv> ''error''"

definition bigBrainKVMargin :: "int \<Rightarrow> int" where
  "bigBrainKVMargin b = \<lfloor>real_of_int b * (105 / 100)\<rfloor>"

definition bigBrainMinBackoff :: go_duration where
  "bigBrainMinBackoff = 30 * second"

definition bigBrainMaxBackoff :: go_duration where
  "bigBrainMaxBackoff = 600 * second"

definition bigBrainSettle :: go_duration where
  "bigBrainSettle = 15 * second"

definition bigBrainDefaultCtx :: int where
  "bigBrainDefaultCtx = 4096"

record bb_options =
  bo_HeadBin :: string
  bo_BasePort :: int
  bo_Host :: string

record head =
  hd_key :: string
  hd_run :: "nat option"
  hd_exited :: bool
  hd_logTail :: string
  hd_status :: bigbrain_status
  hd_retryAt :: go_time
  hd_backoff :: go_duration
  hd_stopped :: go_time

text \<open>\<open>bb_procs\<close> are the live processes: number, pool, port, command line; \<open>bb_cancelled\<close> those told to stop.\<close>

record bigbrains =
  bb_opts :: bb_options
  bb_heads :: "(string \<times> head) list"
  bb_procs :: "(nat \<times> string \<times> int \<times> string list) list"
  bb_cancelled :: "nat list"
  bb_next :: nat

definition zero_status :: bigbrain_status where
  "zero_status = \<lparr>bbs_State = '''', bbs_Reason = '''', bbs_NeedBytes = 0, bbs_HaveBytes = 0, bbs_TensorSplit = [], bbs_Port = 0,
     bbs_LoadStartedAt = None, bbs_LoadSeconds = 0, bbs_GenTPS = 0, bbs_PromptTPS = 0, bbs_Restarts = 0\<rparr>"

definition new_head :: head where
  "new_head = \<lparr>hd_key = '''', hd_run = None, hd_exited = False, hd_logTail = '''', hd_status = zero_status, hd_retryAt = 0, hd_backoff = 0, hd_stopped = 0\<rparr>"

definition newBigBrains :: "bb_options \<Rightarrow> bigbrains" where
  "newBigBrains opts = \<lparr>bb_opts = opts\<lparr>bo_BasePort := (if bo_BasePort opts = 0 then 18200 else bo_BasePort opts)\<rparr>,
     bb_heads = [], bb_procs = [], bb_cancelled = [], bb_next = 0\<rparr>"

definition head_of :: "bigbrains \<Rightarrow> string \<Rightarrow> head option" where
  "head_of b name = map_of (bb_heads b) name"

definition set_head :: "string \<Rightarrow> head \<Rightarrow> bigbrains \<Rightarrow> bigbrains" where
  "set_head name h b = b\<lparr>bb_heads := AList.update name h (bb_heads b)\<rparr>"

text \<open>A head with a process that has not exited.\<close>

definition is_running :: "head \<Rightarrow> bool" where
  "is_running h \<longleftrightarrow> hd_run h \<noteq> None \<and> \<not> hd_exited h"

subsection \<open>Operations on one head\<close>

definition setState :: "string \<Rightarrow> string \<Rightarrow> string \<Rightarrow> bigbrains \<Rightarrow> bigbrains" where
  "setState pool state reason b =
     (case head_of b pool of
        None \<Rightarrow> b
      | Some h \<Rightarrow> set_head pool (h\<lparr>hd_status := (hd_status h)\<lparr>bbs_State := state, bbs_Reason := reason\<rparr>\<rparr>) b)"

definition cancel_run :: "head \<Rightarrow> bigbrains \<Rightarrow> bigbrains" where
  "cancel_run h b = (case hd_run h of None \<Rightarrow> b | Some pid \<Rightarrow> b\<lparr>bb_cancelled := pid # bb_cancelled b\<rparr>)"

text \<open>
  \<open>stop\<close> up to the wait for the process: the state in the status stays what it was, and is seen by
  everyone until the supervisor sets the next one after the wait.
\<close>

definition stop_head :: "go_time \<Rightarrow> string \<Rightarrow> bool \<Rightarrow> bigbrains \<Rightarrow> bigbrains" where
  "stop_head now pool forget b =
     (case head_of b pool of
        None \<Rightarrow> b
      | Some h \<Rightarrow>
          (let h' = h\<lparr>hd_run := None, hd_key := ''''\<rparr>;
               h' = (if hd_run h \<noteq> None then h'\<lparr>hd_exited := False, hd_stopped := now\<rparr> else h');
               h' = h'\<lparr>hd_status := (hd_status h')\<lparr>bbs_TensorSplit := [], bbs_Port := 0, bbs_GenTPS := 0, bbs_PromptTPS := 0,
                         bbs_LoadStartedAt := None, bbs_LoadSeconds := 0\<rparr>\<rparr>;
               b = (if forget then b\<lparr>bb_heads := AList.delete pool (bb_heads b)\<rparr> else set_head pool h' b)
           in cancel_run h b))"

text \<open>The lowest port no other running head uses, given enough fuel; the loop ends by then.\<close>

fun next_port :: "int list \<Rightarrow> nat \<Rightarrow> int \<Rightarrow> int" where
  "next_port used 0 port = port"
| "next_port used (Suc k) port = (if port \<in> set used then next_port used k (port + 1) else port)"

definition used_ports :: "string \<Rightarrow> bigbrains \<Rightarrow> int list" where
  "used_ports pool b = map (\<lambda>e. bbs_Port (hd_status (snd e))) (filter (\<lambda>e. fst e \<noteq> pool \<and> is_running (snd e)) (bb_heads b))"

definition freePortLocked :: "string \<Rightarrow> bigbrains \<Rightarrow> int" where
  "freePortLocked pool b = next_port (used_ports pool b) (Suc (length (used_ports pool b))) (bo_BasePort (bb_opts b))"

definition headArgs :: "string \<Rightarrow> string \<Rightarrow> int \<Rightarrow> int \<Rightarrow> string list \<Rightarrow> int list \<Rightarrow> string list" where
  "headArgs model path ctxSize port addrs split =
     [''-m'', path, ''-a'', model, ''--rpc'', join '','' addrs, ''-ngl'', ''99'', ''-ts'', join '','' (map itoa split),
      ''-c'', itoa ctxSize, ''-np'', ''1'', ''-fa'', ''on'', ''-ctk'', ''q8_0'', ''-ctv'', ''q8_0'', ''-t'', ''2'',
      ''--host'', ''127.0.0.1'', ''--port'', itoa port]"

text \<open>\<open>start\<close>; \<open>err\<close> is the error of starting the process, if any.\<close>

definition start_head ::
  "go_time \<Rightarrow> string option \<Rightarrow> pool \<Rightarrow> string \<Rightarrow> int \<Rightarrow> string list \<Rightarrow> int list \<Rightarrow> string \<Rightarrow> bigbrains \<Rightarrow> bigbrains" where
  "start_head now err p path ctxSize addrs split key b =
     (case head_of b (pl_Name p) of
        None \<Rightarrow> b
      | Some h \<Rightarrow>
          (let b = cancel_run h b;
               port = freePortLocked (pl_Name p) b
           in case err of
                Some e \<Rightarrow>
                  set_head (pl_Name p) (h\<lparr>hd_status := (hd_status h)\<lparr>bbs_State := BigBrainError, bbs_Reason := ''cannot start the head: '' @ e\<rparr>,
                    hd_exited := True, hd_logTail := e, hd_retryAt := now + bigBrainMinBackoff\<rparr>) b
              | None \<Rightarrow>
                  (let h' = h\<lparr>hd_key := key, hd_run := Some (bb_next b), hd_exited := False, hd_logTail := '''',
                        hd_status := zero_status\<lparr>bbs_State := BigBrainLoading,
                          bbs_Reason := ''loading '' @ pl_Model p @ '' onto '' @ itoa (int (length addrs)) @ '' phones'',
                          bbs_NeedBytes := bbs_NeedBytes (hd_status h), bbs_HaveBytes := bbs_HaveBytes (hd_status h),
                          bbs_TensorSplit := split, bbs_Port := port, bbs_LoadStartedAt := Some now, bbs_Restarts := bbs_Restarts (hd_status h)\<rparr>\<rparr>
                   in (set_head (pl_Name p) h' b)\<lparr>bb_procs := (bb_next b, pl_Name p, port, headArgs (pl_Model p) path ctxSize port addrs split) # bb_procs b,
                        bb_next := Suc (bb_next b)\<rparr>)))"

text \<open>The goroutine after \<open>Wait\<close>: process \<open>pid\<close> of \<open>pool\<close> is gone.\<close>

definition proc_exit :: "go_time \<Rightarrow> nat \<Rightarrow> string \<Rightarrow> string \<Rightarrow> bigbrains \<Rightarrow> bigbrains" where
  "proc_exit now pid pool tail b =
     (let b = b\<lparr>bb_procs := filter (\<lambda>e. fst e \<noteq> pid) (bb_procs b)\<rparr>
      in case head_of b pool of
           None \<Rightarrow> b
         | Some h \<Rightarrow>
             if hd_run h \<noteq> Some pid \<or> pid \<in> set (bb_cancelled b) then b
             else
               (let backoff = min (max (hd_backoff h * 2) bigBrainMinBackoff) bigBrainMaxBackoff
                in set_head pool (h\<lparr>hd_exited := True, hd_logTail := tail, hd_backoff := backoff, hd_retryAt := now + backoff,
                     hd_status := (hd_status h)\<lparr>bbs_Restarts := bbs_Restarts (hd_status h) + 1, bbs_State := BigBrainError,
                       bbs_Reason := ''head exited: '' @ tail\<rparr>\<rparr>) b))"

text \<open>\<open>pollBigBrain\<close>: what it reads, and what it does after the health check answered 200.\<close>

definition poll_port :: "string \<Rightarrow> bigbrains \<Rightarrow> int option" where
  "poll_port pool b =
     (case head_of b pool of
        None \<Rightarrow> None
      | Some h \<Rightarrow> if bbs_State (hd_status h) = BigBrainLoading then Some (bbs_Port (hd_status h)) else None)"

definition poll_ready :: "go_time \<Rightarrow> string \<Rightarrow> bigbrains \<Rightarrow> bigbrains" where
  "poll_ready now pool b =
     (case head_of b pool of
        None \<Rightarrow> b
      | Some h \<Rightarrow> set_head pool (h\<lparr>hd_backoff := 0, hd_status := (hd_status h)\<lparr>bbs_State := BigBrainReady, bbs_Reason := '''',
            bbs_LoadSeconds := (case bbs_LoadStartedAt (hd_status h) of Some t \<Rightarrow> now - t | None \<Rightarrow> now)\<rparr>\<rparr>) b)"

definition selfTest :: "string \<Rightarrow> int \<Rightarrow> real \<Rightarrow> real \<Rightarrow> bigbrains \<Rightarrow> bigbrains" where
  "selfTest pool port prompt gen b =
     (case head_of b pool of
        None \<Rightarrow> b
      | Some h \<Rightarrow> if bbs_Port (hd_status h) = port
                  then set_head pool (h\<lparr>hd_status := (hd_status h)\<lparr>bbs_GenTPS := gen, bbs_PromptTPS := prompt\<rparr>\<rparr>) b else b)"

text \<open>What other goroutines do meanwhile; a process that is gone has no further exit.\<close>

datatype bb_event = Exited go_time nat string | Measured string int real real

fun do_event :: "bigbrains \<Rightarrow> bb_event \<Rightarrow> bigbrains" where
  "do_event b (Exited now pid tail) =
     (case map_of (bb_procs b) pid of None \<Rightarrow> b | Some (pool, port, args) \<Rightarrow> proc_exit now pid pool tail b)"
| "do_event b (Measured pool port prompt gen) = selfTest pool port prompt gen b"

definition meanwhile :: "bb_event list \<Rightarrow> bigbrains \<Rightarrow> bigbrains" where
  "meanwhile evs b = foldl do_event b evs"

subsection \<open>The supervisor\<close>

text \<open>
  What one reconciliation of a pool meets: the registry, the catalog, the clock, the events
  between its lock regions, the error of a start, and whether the health check answers 200.
\<close>

record reconcile_env =
  rv_reg :: registry
  rv_cat :: catalog
  rv_now :: go_time
  rv_evs :: "nat \<Rightarrow> bb_event list"
  rv_err :: "string option"
  rv_health :: bool

text \<open>Why a member is waited for.\<close>

definition waiting_for :: "bool \<Rightarrow> bigbrain_member \<Rightarrow> string option" where
  "waiting_for running mb =
     (if bm_excluded mb \<noteq> '''' then Some (bm_name mb @ '' is '' @ bm_excluded mb)
      else if bm_rpcAddr mb = '''' then Some (bm_name mb @ '' is '' @ bm_state mb)
      else if bm_stale mb \<noteq> '''' \<and> \<not> running then Some (bm_name mb @ '' is '' @ bm_stale mb)
      else None)"

definition head_key :: "pool \<Rightarrow> string \<Rightarrow> int \<Rightarrow> string list \<Rightarrow> string" where
  "head_key p path ctxSize addrs = pl_Model p @ ''|'' @ path @ ''|'' @ itoa ctxSize @ ''|'' @ join '','' addrs"

definition pool_ctx :: "pool \<Rightarrow> int" where
  "pool_ctx p = (if pl_CtxSize p = 0 then bigBrainDefaultCtx else pl_CtxSize p)"

text \<open>\<open>stop\<close> with its wait, then the new state.\<close>

definition stop_and_set :: "reconcile_env \<Rightarrow> string \<Rightarrow> string \<Rightarrow> string \<Rightarrow> bigbrains \<Rightarrow> bigbrains" where
  "stop_and_set env pool state reason b = setState pool state reason (meanwhile (rv_evs env 2) (stop_head (rv_now env) pool False b))"

definition note_sizes :: "string \<Rightarrow> int \<Rightarrow> bool \<Rightarrow> int \<Rightarrow> bigbrains \<Rightarrow> bigbrains" where
  "note_sizes pool need running have_bytes b =
     (case head_of b pool of
        None \<Rightarrow> b
      | Some h \<Rightarrow>
          (let st = (hd_status h)\<lparr>bbs_NeedBytes := need\<rparr>;
               st = (if running then st else st\<lparr>bbs_HaveBytes := have_bytes\<rparr>)
           in set_head pool (h\<lparr>hd_status := st\<rparr>) b))"

definition pollBigBrain :: "reconcile_env \<Rightarrow> string \<Rightarrow> bigbrains \<Rightarrow> bigbrains" where
  "pollBigBrain env pool b =
     (case poll_port pool b of
        None \<Rightarrow> b
      | Some port \<Rightarrow>
          (let b = meanwhile (rv_evs env 3) b
           in if rv_health env then poll_ready (rv_now env) pool b else b))"

text \<open>The part of a reconciliation that may start a head; it was not running when it was looked at.\<close>

definition try_start :: "reconcile_env \<Rightarrow> pool \<Rightarrow> string \<Rightarrow> int \<Rightarrow> bigbrain_member list \<Rightarrow> bigbrains \<Rightarrow> bigbrains" where
  "try_start env p path need members b =
     (case head_of b (pl_Name p) of
        None \<Rightarrow> b
      | Some h \<Rightarrow>
          if hd_exited h \<and> rv_now env < hd_retryAt h then
            set_head (pl_Name p) (h\<lparr>hd_status := (hd_status h)\<lparr>bbs_State := BigBrainError,
              bbs_Reason := ''head exited, retrying: '' @ hd_logTail h\<rparr>\<rparr>) b
          else
            (let b = meanwhile (rv_evs env 4) b
             in if rv_now env - hd_stopped h < bigBrainSettle then
                  setState (pl_Name p) BigBrainPreparing ''waiting for the phones to free the previous load'' b
                else
                  (let (have_bytes, split) = bigBrainSplit members
                   in if have_bytes < need then
                        setState (pl_Name p) BigBrainError ''the members have too little memory free: add phones or pick a smaller model'' b
                      else start_head (rv_now env) (rv_err env) p path (pool_ctx p) (map bm_rpcAddr members) split
                             (head_key p path (pool_ctx p) (map bm_rpcAddr members)) b)))"

definition reconcileBigBrain :: "reconcile_env \<Rightarrow> pool \<Rightarrow> bigbrains \<Rightarrow> bigbrains" where
  "reconcileBigBrain env p b =
     (let found = File_model (rv_cat env) (pl_Model p);
          members = bigBrainMembers (rv_reg env) (bo_Host (bb_opts b)) p;
          need = (case found of Some (path, m) \<Rightarrow> bigBrainKVMargin (cm_SizeBytes m) | None \<Rightarrow> 0);
          b = (if head_of b (pl_Name p) = None then set_head (pl_Name p) new_head b else b);
          running = (case head_of b (pl_Name p) of Some h \<Rightarrow> is_running h | None \<Rightarrow> False);
          b = meanwhile (rv_evs env 0) b;
          waiting = List.map_filter (waiting_for running) members;
          b = note_sizes (pl_Name p) need running (fst (bigBrainSplit members)) b;
          b = meanwhile (rv_evs env 1) b
      in if bo_HeadBin (bb_opts b) = '''' then
           stop_and_set env (pl_Name p) BigBrainError ''the controller runs without -bigbrain-head (build it with make llama-head)'' b
         else case found of
           None \<Rightarrow> stop_and_set env (pl_Name p) BigBrainError (''model '' @ pl_Model p @ '' is not ready in the catalog'') b
         | Some (path, m) \<Rightarrow>
             if waiting \<noteq> [] then stop_and_set env (pl_Name p) BigBrainPreparing (''waiting: '' @ join '', '' waiting) b
             else if running \<and> (case head_of b (pl_Name p) of
                                  Some h \<Rightarrow> hd_key h \<noteq> head_key p path (pool_ctx p) (map bm_rpcAddr members) | None \<Rightarrow> False) then
               try_start env p path need members (meanwhile (rv_evs env 2) (stop_head (rv_now env) (pl_Name p) False b))
             else if running then pollBigBrain env (pl_Name p) b
             else try_start env p path need members b)"

definition bigBrainPools :: "pool_map \<Rightarrow> pool list" where
  "bigBrainPools ps = filter (\<lambda>p. pl_Routing p = RoutingBigBrain \<and> \<not> pl_Disabled p) (sorted_pools ps)"

text \<open>One tick: the pools one by one, each with its own environment, then the heads nobody wants.\<close>

definition stop_unwanted :: "go_time \<Rightarrow> (nat \<Rightarrow> bb_event list) \<Rightarrow> string list \<Rightarrow> bigbrains \<Rightarrow> bigbrains" where
  "stop_unwanted now evs names b =
     foldl (\<lambda>b (k, name). meanwhile (evs k) (stop_head now name True b)) b (enumerate 0 names)"

definition bigBrainTick :: "(string \<Rightarrow> reconcile_env) \<Rightarrow> go_time \<Rightarrow> (nat \<Rightarrow> bb_event list) \<Rightarrow> pool_map \<Rightarrow> bigbrains \<Rightarrow> bigbrains" where
  "bigBrainTick envs now evs ps b =
     (let wanted = bigBrainPools ps;
          b = foldl (\<lambda>b p. reconcileBigBrain (envs (pl_Name p)) p b) b wanted
      in stop_unwanted now evs (filter (\<lambda>n. n \<notin> pl_Name ` set wanted) (keys_of (bb_heads b))) b)"

definition stopAll :: "go_time \<Rightarrow> (nat \<Rightarrow> bb_event list) \<Rightarrow> bigbrains \<Rightarrow> bigbrains" where
  "stopAll now evs b = stop_unwanted now evs (keys_of (bb_heads b)) b"

subsection \<open>What the rest of the controller sees\<close>

definition bb_status :: "bigbrains \<Rightarrow> string \<Rightarrow> bigbrain_status" where
  "bb_status b pool =
     (case head_of b pool of
        None \<Rightarrow> zero_status\<lparr>bbs_State := BigBrainPreparing\<rparr>
      | Some h \<Rightarrow> if bbs_State (hd_status h) = '''' then zero_status\<lparr>bbs_State := BigBrainPreparing\<rparr> else hd_status h)"

definition bigBrainBackends :: "pool_map \<Rightarrow> bigbrains \<Rightarrow> backend list" where
  "bigBrainBackends ps b =
     List.map_filter (\<lambda>p. let st = bb_status b (pl_Name p)
       in if bbs_State st \<noteq> BigBrainReady then None
          else Some \<lparr>b_NodeID = bigBrainNodeID (pl_Name p), b_Model = pl_Model p, b_URL = ''http://127.0.0.1:'' @ itoa (bbs_Port st),
             b_Speed = bbs_GenTPS st, b_Drained = False, b_Hot = False, b_CtxSize = pool_ctx p, b_Alias = bigBrainNodeID (pl_Name p),
             b_External = False, b_APIKey = '''', b_MaxConcurrency = 1, b_OrchestratorOnly = False, b_PoolOnly = True\<rparr>) (bigBrainPools ps)"

text \<open>\<open>bigBrainModel\<close>: the model a node lends its memory to, and whether it is ready.\<close>

definition bigBrainModel :: "bigbrains \<Rightarrow> registry \<Rightarrow> catalog \<Rightarrow> pool_map \<Rightarrow> node_id \<Rightarrow> string \<times> bool" where
  "bigBrainModel b r c ps i =
     (if bo_HeadBin (bb_opts b) = '''' then ('''', False)
      else case find (\<lambda>p. \<exists>n \<in> set (pl_Nodes p). Registry.Lookup r n = (i, True) \<or> n = i) (bigBrainPools ps) of
             None \<Rightarrow> ('''', False)
           | Some p \<Rightarrow> (pl_Model p, File_model c (pl_Model p) \<noteq> None))"

subsection \<open>One process per pool, one port per process\<close>

text \<open>A process that was not told to stop.\<close>

definition live :: "bigbrains \<Rightarrow> nat \<times> string \<times> int \<times> string list \<Rightarrow> bool" where
  "live b e \<longleftrightarrow> e \<in> set (bb_procs b) \<and> fst e \<notin> set (bb_cancelled b)"

text \<open>The head of \<open>name\<close> runs process \<open>pid\<close> on \<open>port\<close>.\<close>

definition runs :: "bigbrains \<Rightarrow> string \<Rightarrow> nat \<Rightarrow> int \<Rightarrow> bool" where
  "runs b name pid port \<longleftrightarrow> (\<exists>h. head_of b name = Some h \<and> hd_run h = Some pid \<and> \<not> hd_exited h \<and> bbs_Port (hd_status h) = port)"

definition bb_inv :: "bigbrains \<Rightarrow> bool" where
  "bb_inv b \<longleftrightarrow> distinct (keys_of (bb_heads b)) \<and> distinct (map fst (bb_procs b)) \<and>
     (\<forall>pid \<in> fst ` set (bb_procs b) \<union> set (bb_cancelled b). pid < bb_next b) \<and>
     (\<forall>name h pid. head_of b name = Some h \<longrightarrow> hd_run h = Some pid \<longrightarrow> pid < bb_next b) \<and>
     (\<forall>pid name port args. live b (pid, name, port, args) \<longrightarrow> runs b name pid port) \<and>
     (\<forall>name pid port. runs b name pid port \<longrightarrow> bo_BasePort (bb_opts b) \<le> port \<and> (\<exists>args. live b (pid, name, port, args))) \<and>
     (\<forall>n m p q port. runs b n p port \<longrightarrow> runs b m q port \<longrightarrow> n = m) \<and>
     (\<forall>n m h k pid. head_of b n = Some h \<longrightarrow> head_of b m = Some k \<longrightarrow> hd_run h = Some pid \<longrightarrow> hd_run k = Some pid \<longrightarrow> n = m)"

text \<open>The invariant taken apart and put together, so that no proof unfolds it whole.\<close>

lemma bb_inv_parts:
  assumes "bb_inv b" shows 
 "distinct (keys_of (bb_heads b))" "distinct (map fst (bb_procs b))"
     "\<forall>pid \<in> fst ` set (bb_procs b) \<union> set (bb_cancelled b). pid < bb_next b"
     "\<forall>name h pid. head_of b name = Some h \<longrightarrow> hd_run h = Some pid \<longrightarrow> pid < bb_next b"
     "\<forall>pid name port args. live b (pid, name, port, args) \<longrightarrow> runs b name pid port"
     "\<forall>name pid port. runs b name pid port \<longrightarrow> bo_BasePort (bb_opts b) \<le> port \<and> (\<exists>args. live b (pid, name, port, args))"
     "\<forall>n m p q port. runs b n p port \<longrightarrow> runs b m q port \<longrightarrow> n = m"
     "\<forall>n m h k pid. head_of b n = Some h \<longrightarrow> head_of b m = Some k \<longrightarrow> hd_run h = Some pid \<longrightarrow> hd_run k = Some pid \<longrightarrow> n = m"
  by (insert assms, unfold bb_inv_def) (elim conjE, assumption)+

lemma bb_invD:
  assumes "bb_inv b"
  shows bb_inv_keys: "distinct (keys_of (bb_heads b))" and bb_inv_procs: "distinct (map fst (bb_procs b))"
    and bb_inv_pid: "pid \<in> fst ` set (bb_procs b) \<union> set (bb_cancelled b) \<Longrightarrow> pid < bb_next b"
    and bb_inv_head_pid: "head_of b name = Some h \<Longrightarrow> hd_run h = Some pid \<Longrightarrow> pid < bb_next b"
    and bb_inv_live: "live b (pid, name, port, args) \<Longrightarrow> runs b name pid port"
    and bb_inv_base: "runs b name pid port \<Longrightarrow> bo_BasePort (bb_opts b) \<le> port"
    and bb_inv_runs: "runs b name pid port \<Longrightarrow> \<exists>args. live b (pid, name, port, args)"
    and bb_inv_port: "runs b name pid port \<Longrightarrow> runs b m q port \<Longrightarrow> name = m"
    and bb_inv_owner: "head_of b name = Some h \<Longrightarrow> head_of b m = Some k \<Longrightarrow> hd_run h = Some pid \<Longrightarrow> hd_run k = Some pid \<Longrightarrow> name = m"
          apply (rule bb_inv_parts(1) [OF assms])
         apply (rule bb_inv_parts(2) [OF assms])
        using bb_inv_parts(3) [OF assms] apply blast
       using bb_inv_parts(4) [OF assms] apply blast
      using bb_inv_parts(5) [OF assms] apply blast
     using bb_inv_parts(6) [OF assms] apply blast
    using bb_inv_parts(6) [OF assms] apply blast
   using bb_inv_parts(7) [OF assms] apply blast
  using bb_inv_parts(8) [OF assms] apply blast
  done

lemma bb_invI:
  assumes "distinct (keys_of (bb_heads b))" "distinct (map fst (bb_procs b))"
    "\<And>pid. pid \<in> fst ` set (bb_procs b) \<union> set (bb_cancelled b) \<Longrightarrow> pid < bb_next b"
    "\<And>name h pid. head_of b name = Some h \<Longrightarrow> hd_run h = Some pid \<Longrightarrow> pid < bb_next b"
    "\<And>pid name port args. live b (pid, name, port, args) \<Longrightarrow> runs b name pid port"
    "\<And>name pid port. runs b name pid port \<Longrightarrow> bo_BasePort (bb_opts b) \<le> port"
    "\<And>name pid port. runs b name pid port \<Longrightarrow> \<exists>args. live b (pid, name, port, args)"
    "\<And>name m pid q port. runs b name pid port \<Longrightarrow> runs b m q port \<Longrightarrow> name = m"
    "\<And>name m h k pid. head_of b name = Some h \<Longrightarrow> head_of b m = Some k \<Longrightarrow> hd_run h = Some pid \<Longrightarrow> hd_run k = Some pid \<Longrightarrow> name = m"
  shows "bb_inv b"
  unfolding bb_inv_def
  apply (intro conjI)
  apply (rule assms(1))
  apply (rule assms(2))
  apply (intro ballI, erule assms(3))
  apply (intro allI impI, erule (1) assms(4))
  apply (intro allI impI, erule assms(5))
  apply (intro allI impI conjI, erule assms(6), erule assms(7))
  apply (intro allI impI, erule (1) assms(8))
  apply (intro allI impI, erule (3) assms(9))
  done

lemma head_of_set [simp]: "head_of (set_head n h b) m = (if m = n then Some h else head_of b m)"
  by (simp add: head_of_def set_head_def update_conv')

lemma set_head_simps [simp]:
  "bb_procs (set_head n h b) = bb_procs b" "bb_cancelled (set_head n h b) = bb_cancelled b" "bb_next (set_head n h b) = bb_next b"
  "bb_opts (set_head n h b) = bb_opts b"
  by (simp_all add: set_head_def)

text \<open>A change of a head that leaves its process, its port and whether it exited alone.\<close>

lemma live_set_head [simp]: "live (set_head n h b) e = live b e"
  by (simp add: live_def)

lemma bb_inv_same:
  assumes inv: "bb_inv b" and h: "head_of b n = Some h"
    and eq: "hd_run h' = hd_run h" "hd_exited h' = hd_exited h" "bbs_Port (hd_status h') = bbs_Port (hd_status h)"
  shows "bb_inv (set_head n h' b)"
proof -
  have r: "runs (set_head n h' b) m pid port = runs b m pid port" for m pid port using h eq by (auto simp: runs_def)
  have old: "\<exists>k0. head_of b m = Some k0 \<and> hd_run k0 = hd_run k" if "head_of (set_head n h' b) m = Some k" for m k
    using that h eq(1) by (cases "m = n") auto
  show ?thesis
  proof (rule bb_invI)
    show "distinct (keys_of (bb_heads (set_head n h' b)))" using bb_inv_keys [OF inv] by (simp add: set_head_def distinct_update)
    show "distinct (map fst (bb_procs (set_head n h' b)))" using bb_inv_procs [OF inv] by simp
    show "pid < bb_next (set_head n h' b)" if "pid \<in> fst ` set (bb_procs (set_head n h' b)) \<union> set (bb_cancelled (set_head n h' b))" for pid
      using that bb_inv_pid [OF inv, of pid] by simp
    show "pid < bb_next (set_head n h' b)" if "head_of (set_head n h' b) m = Some k" "hd_run k = Some pid" for m k pid
      using old [OF that(1)] that(2) bb_inv_head_pid [OF inv] by auto
    show "runs (set_head n h' b) m pid port" if "live (set_head n h' b) (pid, m, port, args)" for pid m port args
      using that bb_inv_live [OF inv, of pid m port args] by (simp add: r)
    show "bo_BasePort (bb_opts (set_head n h' b)) \<le> port" if "runs (set_head n h' b) m pid port" for m pid port
      using that bb_inv_base [OF inv, of m pid port] by (simp add: r)
    show "\<exists>args. live (set_head n h' b) (pid, m, port, args)" if "runs (set_head n h' b) m pid port" for m pid port
      using that bb_inv_runs [OF inv, of m pid port] by (simp add: r)
    show "m = m'" if "runs (set_head n h' b) m pid port" "runs (set_head n h' b) m' q port" for m m' pid q port
      using that bb_inv_port [OF inv, of m pid port m' q] by (simp add: r)
    show "m = m'" if "head_of (set_head n h' b) m = Some k" "head_of (set_head n h' b) m' = Some k'" "hd_run k = Some pid" "hd_run k' = Some pid" for m m' k k' pid
      using old [OF that(1)] old [OF that(2)] that(3,4) bb_inv_owner [OF inv] by metis
  qed
qed

text \<open>A head that stops running, its process gone or cancelled.\<close>

lemma runs_quiet:
  assumes "head_of b' = (head_of b)(n := k)" "k = None \<or> (\<exists>h'. k = Some h' \<and> \<not> is_running h')"
  shows "runs b' m pid port \<longleftrightarrow> m \<noteq> n \<and> runs b m pid port"
  using assms by (auto simp: runs_def is_running_def)

lemma bb_inv_quiet:
  assumes inv: "bb_inv b" and hs: "head_of b' = (head_of b)(n := k)" "k = None \<or> (\<exists>h'. k = Some h' \<and> \<not> is_running h' \<and> (\<forall>pid. hd_run h' = Some pid \<longrightarrow> (\<exists>h. head_of b n = Some h \<and> hd_run h = Some pid)))"
    and d: "distinct (keys_of (bb_heads b'))" "distinct (map fst (bb_procs b'))"
    and p: "set (bb_procs b') \<subseteq> set (bb_procs b)" "set (bb_cancelled b) \<subseteq> set (bb_cancelled b')" "\<forall>pid \<in> set (bb_cancelled b'). pid < bb_next b"
    and same: "bb_next b' = bb_next b" "bb_opts b' = bb_opts b"
    and gone: "\<And>pid port. runs b n pid port \<Longrightarrow> pid \<in> set (bb_cancelled b') \<or> pid \<notin> fst ` set (bb_procs b')"
    and only: "\<And>pid m port. runs b m pid port \<Longrightarrow> m \<noteq> n \<Longrightarrow> pid \<in> set (bb_cancelled b') \<Longrightarrow> pid \<in> set (bb_cancelled b)"
    and keep: "\<And>m port args pid. (pid, m, port, args) \<in> set (bb_procs b) \<Longrightarrow> runs b m pid port \<Longrightarrow> m \<noteq> n \<Longrightarrow> (pid, m, port, args) \<in> set (bb_procs b')"
  shows "bb_inv b'"
proof -
  have r: "runs b' m pid port \<longleftrightarrow> m \<noteq> n \<and> runs b m pid port" for m pid port
    using runs_quiet [OF hs(1)] hs(2) by blast
  have l1: "runs b' m pid port" if "live b' (pid, m, port, args)" for pid m port args
  proof -
    from that p(1,2) have "live b (pid, m, port, args)" by (auto simp: live_def)
    with inv have rb: "runs b m pid port" by (rule bb_inv_live)
    have "m \<noteq> n"
    proof
      assume "m = n"
      with rb gone [of pid port] that show False by (force simp: live_def)
    qed
    with rb r show ?thesis by simp
  qed
  have l7: "bo_BasePort (bb_opts b') \<le> port" if "runs b' m pid port" for m pid port
    using that r bb_inv_base [OF inv, of m pid port] same(2) by simp
  have l2: "\<exists>args. live b' (pid, m, port, args)" if "runs b' m pid port" for m pid port
  proof -
    from that r have m: "m \<noteq> n" "runs b m pid port" by auto
    from bb_inv_runs [OF inv m(2)] obtain args where a: "live b (pid, m, port, args)" by blast
    have "(pid, m, port, args) \<in> set (bb_procs b')" using keep [OF _ m(2,1)] a by (simp add: live_def)
    moreover have "pid \<notin> set (bb_cancelled b')" using only [OF m(2,1)] a by (auto simp: live_def)
    ultimately show ?thesis by (auto simp: live_def)
  qed
  have old: "\<exists>h0. head_of b x = Some h0 \<and> hd_run h0 = Some pid" if "head_of b' x = Some h1" "hd_run h1 = Some pid" for x h1 pid
    using that hs by (cases "x = n") auto
  have l3: "pid < bb_next b'" if "head_of b' x = Some h1" "hd_run h1 = Some pid" for x h1 pid
    using old [OF that] bb_inv_head_pid [OF inv] same(1) by auto
  have l6: "x = y" if "head_of b' x = Some h1" "head_of b' y = Some k1" "hd_run h1 = Some pid" "hd_run k1 = Some pid" for x y h1 k1 pid
    using old [OF that(1,3)] old [OF that(2,4)] bb_inv_owner [OF inv] by blast
  have "fst ` set (bb_procs b') \<subseteq> fst ` set (bb_procs b)" by (rule image_mono [OF p(1)])
  then have l5: "pid < bb_next b'" if "pid \<in> fst ` set (bb_procs b') \<union> set (bb_cancelled b')" for pid
    using that bb_inv_pid [OF inv, of pid] p(3) same(1) by auto
  show ?thesis
  proof (rule bb_invI)
    show "x = y" if "runs b' x p port" "runs b' y q port" for x y p q port
      using that bb_inv_port [OF inv, of x p port y q] by (simp add: r)
  qed (fact d(1), fact d(2), erule l5, erule (1) l3, erule l1, erule l7, erule l2, erule (3) l6)
qed

lemma bb_inv_setState: "bb_inv b \<Longrightarrow> bb_inv (setState pool st reason b)"
  by (auto simp: setState_def intro!: bb_inv_same split: option.split)

lemma bb_inv_note_sizes: "bb_inv b \<Longrightarrow> bb_inv (note_sizes pool need running hb b)"
  by (auto simp: note_sizes_def Let_def intro!: bb_inv_same split: option.split)

lemma bb_inv_poll_ready: "bb_inv b \<Longrightarrow> bb_inv (poll_ready now pool b)"
  by (auto simp: poll_ready_def intro!: bb_inv_same split: option.split)

lemma bb_inv_selfTest: "bb_inv b \<Longrightarrow> bb_inv (selfTest pool port prompt gen b)"
  by (auto simp: selfTest_def intro!: bb_inv_same split: option.split)

lemma bb_inv_new_head:
  assumes "bb_inv b" "head_of b n = None"
  shows "bb_inv (set_head n new_head b)"
proof (rule bb_inv_quiet [OF assms(1), where n = n and k = "Some new_head"])
  show "head_of (set_head n new_head b) = (head_of b)(n := Some new_head)" by (simp add: fun_eq_iff)
  show "distinct (keys_of (bb_heads (set_head n new_head b)))" "distinct (map fst (bb_procs (set_head n new_head b)))"
    using bb_inv_keys [OF assms(1)] bb_inv_procs [OF assms(1)] by (simp_all add: set_head_def distinct_update)
qed (use assms(2) bb_inv_pid [OF assms(1)] in \<open>auto simp: new_head_def is_running_def runs_def\<close>)

lemma runs_head: "bb_inv b \<Longrightarrow> runs b m pid port \<Longrightarrow> head_of b n = Some h \<Longrightarrow> hd_run h = Some pid \<Longrightarrow> m = n"
  unfolding runs_def by (blast intro: bb_inv_owner)

lemma bb_inv_proc_exit:
  assumes inv: "bb_inv b" and e: "map_of (bb_procs b) pid = Some (pool, port, args)"
  shows "bb_inv (proc_exit now pid pool tail b)"
proof -
  let ?b = "b\<lparr>bb_procs := filter (\<lambda>e. fst e \<noteq> pid) (bb_procs b)\<rparr>"
  have mem: "(pid, pool, port, args) \<in> set (bb_procs b)" using e by (rule map_of_SomeD)
  have d: "distinct (keys_of (bb_heads b))" "distinct (map fst (bb_procs b))" using bb_inv_keys [OF inv] bb_inv_procs [OF inv] by blast+
  have others: "(q, m, port', args') \<in> set (bb_procs ?b)" if "(q, m, port', args') \<in> set (bb_procs b)" "q \<noteq> pid" for q m port' args'
    using that by simp
  have pids: "\<forall>q \<in> set (bb_cancelled b). q < bb_next b" using bb_inv_pid [OF inv] by blast
  consider (stays) "proc_exit now pid pool tail b = ?b" "pid \<in> set (bb_cancelled b) \<or> (\<forall>h. head_of b pool = Some h \<longrightarrow> hd_run h \<noteq> Some pid)"
    | (exits) h h' where "head_of b pool = Some h" "hd_run h = Some pid" "hd_run h' = Some pid" "hd_exited h'"
        "proc_exit now pid pool tail b = set_head pool h' ?b"
  proof (cases "\<exists>h. head_of b pool = Some h \<and> hd_run h = Some pid \<and> pid \<notin> set (bb_cancelled b)")
    case True
    then obtain h where h: "head_of b pool = Some h" "hd_run h = Some pid" "pid \<notin> set (bb_cancelled b)" by blast
    have "head_of ?b pool = Some h" using h(1) by (simp add: head_of_def)
    with h(2,3) have "proc_exit now pid pool tail b = set_head pool (the (head_of (proc_exit now pid pool tail b) pool)) ?b"
      "hd_run (the (head_of (proc_exit now pid pool tail b) pool)) = Some pid" "hd_exited (the (head_of (proc_exit now pid pool tail b) pool))"
      unfolding proc_exit_def by (simp_all add: Let_def)
    with h(1,2) exits show ?thesis by blast
  next
    case False
    have "head_of ?b pool = head_of b pool" by (simp add: head_of_def)
    with False have "proc_exit now pid pool tail b = ?b" unfolding proc_exit_def Let_def by (auto split: option.split)
    with False stays show ?thesis by blast
  qed
  then show ?thesis
  proof cases
    case stays
    have none: "\<not> live b (pid, pool, port, args)"
    proof
      assume "live b (pid, pool, port, args)"
      with inv have "runs b pool pid port" by (rule bb_inv_live)
      with stays(2) \<open>live b (pid, pool, port, args)\<close> show False by (auto simp: runs_def live_def)
    qed
    have cancelled: "pid \<in> set (bb_cancelled b)" using none mem by (simp add: live_def)
    have no_run: "\<not> runs b m pid port'" for m port'
    proof
      assume "runs b m pid port'"
      from bb_inv_runs [OF inv this] obtain args' where "live b (pid, m, port', args')" by blast
      with cancelled show False by (simp add: live_def)
    qed
    have l: "live ?b e = live b e" for e using cancelled by (auto simp: live_def)
    have r: "runs ?b m q p = runs b m q p" for m q p by (simp add: runs_def head_of_def)
    show ?thesis
      unfolding stays(1)
    proof (rule bb_invI, unfold l r)
      show "distinct (map fst (bb_procs ?b))" using d(2) by (simp add: distinct_map_filter)
      show "q < bb_next ?b" if "q \<in> fst ` set (bb_procs ?b) \<union> set (bb_cancelled ?b)" for q using that bb_inv_pid [OF inv, of q] by auto
      show "q < bb_next ?b" if "head_of ?b m = Some k" "hd_run k = Some q" for m k q
        using that bb_inv_head_pid [OF inv, of m k q] by (simp add: head_of_def)
      show "x = y" if "head_of ?b x = Some h" "head_of ?b y = Some k" "hd_run h = Some q" "hd_run k = Some q" for x y h k q
        using that bb_inv_owner [OF inv, of x h y k q] by (simp add: head_of_def)
      show "x = y" if "runs b x p port'" "runs b y q port'" for x y p q port' using that by (rule bb_inv_port [OF inv])
    qed (use d(1) bb_inv_live [OF inv] bb_inv_runs [OF inv] bb_inv_base [OF inv] in \<open>simp_all\<close>)
  next
    case exits
    show ?thesis
      unfolding exits(5)
    proof (rule bb_inv_quiet [OF inv, where n = pool and k = "Some h'"])
      show "head_of (set_head pool h' ?b) = (head_of b)(pool := Some h')" by (rule ext) (simp, simp add: head_of_def)
      show "Some h' = None \<or> (\<exists>k. Some h' = Some k \<and> \<not> is_running k \<and> (\<forall>q. hd_run k = Some q \<longrightarrow> (\<exists>h. head_of b pool = Some h \<and> hd_run h = Some q)))"
        using exits by (simp add: is_running_def)
      show "distinct (keys_of (bb_heads (set_head pool h' ?b)))" using d by (simp add: set_head_def distinct_update)
      show "distinct (map fst (bb_procs (set_head pool h' ?b)))" using d by (simp add: distinct_map_filter)
      show "q \<in> set (bb_cancelled (set_head pool h' ?b)) \<or> q \<notin> fst ` set (bb_procs (set_head pool h' ?b))" if "runs b pool q port'" for q port'
        using that exits(1,2) by (auto simp: runs_def)
      show "(q, m, port', args') \<in> set (bb_procs (set_head pool h' ?b))" if "(q, m, port', args') \<in> set (bb_procs b)" "runs b m q port'" "m \<noteq> pool" for q m port' args'
        using that runs_head [OF inv that(2) exits(1)] exits(2) by auto
    qed (use pids in auto)
  qed
qed

lemma bb_inv_stop_head:
  assumes inv: "bb_inv b"
  shows "bb_inv (stop_head now pool forget b)"
proof (cases "head_of b pool")
  case None
  then show ?thesis using inv by (simp add: stop_head_def)
next
  case (Some h)
  obtain k where k: "k = None \<or> (\<exists>h'. k = Some h' \<and> hd_run h' = None)"
    and hs: "head_of (stop_head now pool forget b) = (head_of b)(pool := k)"
    and ks: "distinct (keys_of (bb_heads (stop_head now pool forget b)))"
  proof (cases forget)
    case True
    with Some have "stop_head now pool forget b = cancel_run h (b\<lparr>bb_heads := AList.delete pool (bb_heads b)\<rparr>)"
      by (simp add: stop_head_def Let_def)
    then show ?thesis
      using bb_inv_keys [OF inv] by (intro that [of None]) (auto simp: head_of_def cancel_run_def delete_conv' distinct_delete split: option.split)
  next
    case False
    with Some have "\<exists>h'. hd_run h' = None \<and> stop_head now pool forget b = cancel_run h (set_head pool h' b)"
      by (cases "hd_run h") (simp add: stop_head_def Let_def, rule exI, rule conjI [rotated], rule refl, simp)+
    then obtain h' where h': "hd_run h' = None" "stop_head now pool forget b = cancel_run h (set_head pool h' b)" by blast
    have "head_of (cancel_run h (set_head pool h' b)) = (head_of b)(pool := Some h')"
      by (auto simp: fun_eq_iff head_of_def cancel_run_def set_head_def update_conv' split: option.split)
    with h' show ?thesis
      using bb_inv_keys [OF inv]
      by (intro that [of "Some h'"]) (auto simp: cancel_run_def set_head_def distinct_update split: option.split)
  qed
  have same: "bb_procs (stop_head now pool forget b) = bb_procs b" "bb_next (stop_head now pool forget b) = bb_next b" "bb_opts (stop_head now pool forget b) = bb_opts b"
    "bb_cancelled (stop_head now pool forget b) = (case hd_run h of None \<Rightarrow> bb_cancelled b | Some pid \<Rightarrow> pid # bb_cancelled b)"
    using Some by (auto simp: stop_head_def cancel_run_def set_head_def Let_def split: option.split)
  show ?thesis
  proof (rule bb_inv_quiet [OF inv hs _ ks])
    show "pid \<in> set (bb_cancelled b)" if "runs b m pid port" "m \<noteq> pool" "pid \<in> set (bb_cancelled (stop_head now pool forget b))" for m pid port
      using that same(4) runs_head [OF inv that(1) Some] by (auto split: option.splits)
    show "\<forall>pid \<in> set (bb_cancelled (stop_head now pool forget b)). pid < bb_next b"
      using bb_inv_pid [OF inv] bb_inv_head_pid [OF inv Some] same(4) by (auto split: option.splits)
  qed (use k Some same bb_inv_procs [OF inv] in \<open>auto simp: is_running_def runs_def split: option.splits\<close>)
qed

text \<open>The loop over ports stops at the first free one: among \<open>length used + 1\<close> ports one is free.\<close>

lemma next_port_from: "port \<le> next_port used k port"
  by (induction used k port rule: next_port.induct) auto

lemma next_port_used: "port \<le> q \<Longrightarrow> q < next_port used k port \<Longrightarrow> q \<in> set used"
proof (induction used k port rule: next_port.induct)
  case (2 used k port)
  have in_used: "port \<in> set used"
  proof (rule ccontr)
    assume "port \<notin> set used"
    with "2.prems" show False by simp
  qed
  with "2.prems" have "q = port \<or> port + 1 \<le> q" "q < next_port used k (port + 1)" by auto
  with in_used "2.IH" show ?case by blast
qed simp

lemma next_port_fuel: "next_port used k port \<in> set used \<Longrightarrow> next_port used k port = port + int k"
  by (induction used k port rule: next_port.induct) (auto split: if_splits)

lemma next_port_free: "next_port used (Suc (length used)) port \<notin> set used"
proof
  let ?k = "Suc (length used)"
  assume used: "next_port used ?k port \<in> set used"
  then have "next_port used ?k port = port + int ?k" by (rule next_port_fuel)
  then have "{port..<port + int ?k} \<subseteq> set used" by (metis atLeastLessThan_iff next_port_used subsetI)
  then have "card {port..<port + int ?k} \<le> card (set used)" by (rule card_mono [rotated]) simp
  then show False using card_length [of used] by simp
qed

lemma freePortLocked_free: "freePortLocked pool b \<notin> set (used_ports pool b)"
  unfolding freePortLocked_def by (rule next_port_free)

lemma freePortLocked_base: "bo_BasePort (bb_opts b) \<le> freePortLocked pool b"
  unfolding freePortLocked_def by (rule next_port_from)

lemma freePortLocked_lowest: "bo_BasePort (bb_opts b) \<le> q \<Longrightarrow> q < freePortLocked pool b \<Longrightarrow> q \<in> set (used_ports pool b)"
  unfolding freePortLocked_def by (rule next_port_used)

lemma used_ports_iff:
  assumes "distinct (keys_of (bb_heads b))"
  shows "port \<in> set (used_ports pool b) \<longleftrightarrow> (\<exists>m pid. m \<noteq> pool \<and> runs b m pid port)"
proof
  assume "port \<in> set (used_ports pool b)"
  then obtain m h where m: "(m, h) \<in> set (bb_heads b)" "m \<noteq> pool" "is_running h" "port = bbs_Port (hd_status h)" by (auto simp: used_ports_def)
  from map_of_is_SomeI [OF assms m(1)] m(2-4) show "\<exists>m pid. m \<noteq> pool \<and> runs b m pid port"
    by (auto simp: runs_def is_running_def head_of_def)
next
  assume "\<exists>m pid. m \<noteq> pool \<and> runs b m pid port"
  then obtain m pid h where "m \<noteq> pool" "(m, h) \<in> set (bb_heads b)" "hd_run h = Some pid" "\<not> hd_exited h" "bbs_Port (hd_status h) = port"
    by (auto simp: runs_def head_of_def dest!: map_of_SomeD)
  then show "port \<in> set (used_ports pool b)" by (force simp: used_ports_def is_running_def)
qed

lemma bb_inv_spawn:
  assumes inv: "bb_inv b"
    and hs: "head_of b' = (head_of b)(n := Some h')" "hd_run h' = Some (bb_next b)" "\<not> hd_exited h'" "bbs_Port (hd_status h') = port"
    and d: "distinct (keys_of (bb_heads b'))"
    and b': "bb_procs b' = (bb_next b, n, port, args) # bb_procs b" "bb_cancelled b' = bb_cancelled b" "bb_next b' = Suc (bb_next b)" "bb_opts b' = bb_opts b"
    and quiet: "\<And>pid q. \<not> runs b n pid q" and free: "\<And>m pid. \<not> runs b m pid port" and base: "bo_BasePort (bb_opts b) \<le> port"
  shows "bb_inv b'"
proof -
  have r: "runs b' m pid q \<longleftrightarrow> (if m = n then pid = bb_next b \<and> q = port else runs b m pid q)" for m pid q
    using hs by (auto simp: runs_def)
  have new: "bb_next b \<notin> fst ` set (bb_procs b) \<union> set (bb_cancelled b)" using bb_inv_pid [OF inv] by blast
  have l: "live b' e \<longleftrightarrow> e = (bb_next b, n, port, args) \<or> live b e" for e using new b'(1,2) by (auto simp: live_def)
  have heads: "(m = n \<and> h = h') \<or> (m \<noteq> n \<and> head_of b m = Some h)" if "head_of b' m = Some h" for m h
    using that hs(1) by (auto split: if_splits)
  have no_pid: "hd_run h \<noteq> Some (bb_next b)" if "head_of b m = Some h" for m h
    using bb_inv_head_pid [OF inv that, of "bb_next b"] by auto
  show ?thesis
  proof (rule bb_invI)
    show "distinct (map fst (bb_procs b'))" using bb_inv_procs [OF inv] new b'(1) by simp
    show "pid < bb_next b'" if "pid \<in> fst ` set (bb_procs b') \<union> set (bb_cancelled b')" for pid
    proof -
      have "pid = bb_next b \<or> pid \<in> fst ` set (bb_procs b) \<union> set (bb_cancelled b)" using that b' by auto
      then show ?thesis unfolding b'(3) by (elim disjE) (simp, drule bb_inv_pid [OF inv], simp)
    qed
    show "pid < bb_next b'" if "head_of b' m = Some h" "hd_run h = Some pid" for m h pid
      using heads [OF that(1)] that(2) hs(2) b'(3) bb_inv_head_pid [OF inv, of m h pid] by auto
    show "runs b' m pid q" if "live b' (pid, m, q, as)" for pid m q as
      using that bb_inv_live [OF inv, of pid m q as] quiet [of pid q] by (auto simp: l r)
    show "bo_BasePort (bb_opts b') \<le> q" if "runs b' m pid q" for m pid q
      using that base bb_inv_base [OF inv, of m pid q] by (auto simp: r b' split: if_splits)
    show "\<exists>as. live b' (pid, m, q, as)" if "runs b' m pid q" for m pid q
      using that bb_inv_runs [OF inv, of m pid q] by (auto simp: r l split: if_splits)
    show "x = y" if "runs b' x p q" "runs b' y p' q" for x y p p' q
      using that free bb_inv_port [OF inv, of x p q y p'] by (auto simp: r split: if_splits)
    show "x = y" if "head_of b' x = Some h" "head_of b' y = Some k" "hd_run h = Some pid" "hd_run k = Some pid" for x y h k pid
      using heads [OF that(1)] heads [OF that(2)] that(3,4) hs(2) no_pid bb_inv_owner [OF inv, of x h y k pid] by auto
  qed (rule d)
qed

lemma cancel_run_simps [simp]:
  "bb_procs (cancel_run h b) = bb_procs b" "bb_next (cancel_run h b) = bb_next b" "bb_opts (cancel_run h b) = bb_opts b"
  "bb_heads (cancel_run h b) = bb_heads b" "head_of (cancel_run h b) = head_of b"
  "bb_cancelled (cancel_run h b) = (case hd_run h of None \<Rightarrow> bb_cancelled b | Some pid \<Rightarrow> pid # bb_cancelled b)"
  by (auto simp: cancel_run_def head_of_def fun_eq_iff split: option.split)

text \<open>A head whose process is cancelled and forgotten.\<close>

lemma bb_inv_cancel:
  assumes inv: "bb_inv b" and h: "head_of b n = Some h" and h': "hd_exited h'" "hd_run h' = hd_run h"
  shows "bb_inv (set_head n h' (cancel_run h b))"
proof (rule bb_inv_quiet [OF inv, where n = n and k = "Some h'"])
  show "head_of (set_head n h' (cancel_run h b)) = (head_of b)(n := Some h')" by (rule ext) simp
  show "distinct (keys_of (bb_heads (set_head n h' (cancel_run h b))))" using bb_inv_keys [OF inv] by (simp add: set_head_def distinct_update)
  show "pid \<in> set (bb_cancelled b)" if "runs b m pid port" "m \<noteq> n" "pid \<in> set (bb_cancelled (set_head n h' (cancel_run h b)))" for m pid port
    using that runs_head [OF inv that(1) h] by (auto split: option.splits)
  show "\<forall>pid \<in> set (bb_cancelled (set_head n h' (cancel_run h b))). pid < bb_next b"
    using bb_inv_pid [OF inv] bb_inv_head_pid [OF inv h] by (auto split: option.splits)
qed (use h h' bb_inv_procs [OF inv] in \<open>auto simp: is_running_def runs_def split: option.splits\<close>)

text \<open>What \<open>start\<close> leaves: an error and no process, or a new process on the lowest free port.\<close>

lemma start_head_cases:
  assumes h: "head_of b (pl_Name p) = Some h"
  obtains (error) h' where "hd_exited h'" "hd_run h' = hd_run h"
      "start_head now err p path c addrs split key b = set_head (pl_Name p) h' (cancel_run h b)"
  | (started) h' b' where "hd_run h' = Some (bb_next b)" "\<not> hd_exited h'" "bbs_Port (hd_status h') = freePortLocked (pl_Name p) b"
      "start_head now err p path c addrs split key b = b'" "head_of b' = (head_of b)(pl_Name p := Some h')"
      "bb_heads b' = AList.update (pl_Name p) h' (bb_heads b)"
      "bb_procs b' = (bb_next b, pl_Name p, freePortLocked (pl_Name p) b, headArgs (pl_Model p) path c (freePortLocked (pl_Name p) b) addrs split) # bb_procs b"
      "bb_cancelled b' = bb_cancelled (cancel_run h b)" "bb_next b' = Suc (bb_next b)" "bb_opts b' = bb_opts b"
proof (cases err)
  case (Some e)
  with h have "start_head now err p path c addrs split key b = set_head (pl_Name p) (h\<lparr>hd_status := (hd_status h)\<lparr>bbs_State := BigBrainError, bbs_Reason := ''cannot start the head: '' @ e\<rparr>,
                    hd_exited := True, hd_logTail := e, hd_retryAt := now + bigBrainMinBackoff\<rparr>) (cancel_run h b)"
    by (simp add: start_head_def Let_def)
  then show ?thesis by (intro error) simp_all
next
  case None
  have port: "freePortLocked (pl_Name p) (cancel_run h b) = freePortLocked (pl_Name p) b"
    by (simp add: freePortLocked_def used_ports_def)
  let ?b' = "start_head now err p path c addrs split key b"
  have "bb_heads ?b' = AList.update (pl_Name p) (the (head_of ?b' (pl_Name p))) (bb_heads b)"
    using None h by (simp add: start_head_def Let_def set_head_def head_of_def update_conv')
  moreover have "head_of ?b' = (head_of b)(pl_Name p := Some (the (head_of ?b' (pl_Name p))))"
    using None h by (simp add: start_head_def Let_def set_head_def head_of_def update_conv' fun_eq_iff)
  moreover have "hd_run (the (head_of ?b' (pl_Name p))) = Some (bb_next b)" "\<not> hd_exited (the (head_of ?b' (pl_Name p)))"
    "bbs_Port (hd_status (the (head_of ?b' (pl_Name p)))) = freePortLocked (pl_Name p) b"
    using None h port by (simp_all add: start_head_def Let_def set_head_def head_of_def update_conv')
  moreover have "bb_procs ?b' = (bb_next b, pl_Name p, freePortLocked (pl_Name p) b, headArgs (pl_Model p) path c (freePortLocked (pl_Name p) b) addrs split) # bb_procs b"
    "bb_cancelled ?b' = bb_cancelled (cancel_run h b)" "bb_next ?b' = Suc (bb_next b)" "bb_opts ?b' = bb_opts b"
    using None h port by (simp_all add: start_head_def Let_def)
  ultimately show ?thesis by (intro started [where h' = "the (head_of ?b' (pl_Name p))"]) (rule refl | assumption)+
qed

lemma bb_inv_start_head:
  assumes inv: "bb_inv b"
  shows "bb_inv (start_head now err p path c addrs split key b)"
proof (cases "head_of b (pl_Name p)")
  case None
  then show ?thesis using inv by (simp add: start_head_def)
next
  case (Some h)
  then show ?thesis
  proof (cases rule: start_head_cases [where now = now and err = err and path = path and c = c and addrs = addrs and split = split and key = key])
    case (error h')
    then show ?thesis using bb_inv_cancel [OF inv Some] by simp
  next
    case (started h' b')
    let ?n = "pl_Name p"
    define hq where "hq = h\<lparr>hd_exited := True\<rparr>"
    define c0 where "c0 = set_head ?n hq (cancel_run h b)"
    have c0: "bb_inv c0" unfolding c0_def by (rule bb_inv_cancel [OF inv Some]) (simp_all add: hq_def)
    have heads: "head_of c0 = (head_of b)(?n := Some hq)" unfolding c0_def by (rule ext) simp
    have quiet: "\<not> runs c0 ?n pid q" for pid q by (simp add: runs_def heads hq_def)
    have others: "runs c0 m pid q \<longleftrightarrow> m \<noteq> ?n \<and> runs b m pid q" for m pid q by (auto simp: runs_def heads hq_def)
    have "bb_inv b'"
    proof (rule bb_inv_spawn [OF c0, where h' = h' and n = ?n])
      show "head_of b' = (head_of c0)(?n := Some h')" by (simp add: started(5) heads)
      show "distinct (keys_of (bb_heads b'))" using bb_inv_keys [OF inv] by (simp add: started(6) distinct_update)
      show "\<not> runs c0 m pid (freePortLocked ?n b)" for m pid
        using freePortLocked_free [of ?n b] used_ports_iff [OF bb_inv_keys [OF inv], of "freePortLocked ?n b" ?n] by (auto simp: others)
    qed (use started quiet in \<open>simp_all add: c0_def freePortLocked_base\<close>)
    then show ?thesis using started(4) by simp
  qed
qed

lemma bb_inv_do_event: "bb_inv b \<Longrightarrow> bb_inv (do_event b e)"
  by (cases e) (auto intro: bb_inv_proc_exit bb_inv_selfTest split: option.split)

subsection \<open>What every step of the supervisor keeps\<close>

definition not_running :: "string \<Rightarrow> bigbrains \<Rightarrow> bool" where
  "not_running n b \<longleftrightarrow> (case head_of b n of Some h \<Rightarrow> \<not> is_running h | None \<Rightarrow> True)"

text \<open>What holds when a head of \<open>p\<close> is started: it can be run, every member answers, and the model fits.\<close>

definition head_justified :: "bb_options \<Rightarrow> reconcile_env \<Rightarrow> pool \<Rightarrow> string \<Rightarrow> int \<Rightarrow> bigbrain_member list \<Rightarrow> bool" where
  "head_justified opts env p path need members \<longleftrightarrow>
     bo_HeadBin opts \<noteq> '''' \<and> (\<exists>m. File_model (rv_cat env) (pl_Model p) = Some (path, m) \<and> need = bigBrainKVMargin (cm_SizeBytes m)) \<and>
     members = bigBrainMembers (rv_reg env) (bo_Host opts) p \<and>
     (\<forall>mb \<in> set members. bm_excluded mb = '''' \<and> bm_rpcAddr mb \<noteq> '''') \<and> need \<le> fst (bigBrainSplit members)"

lemma opts_setState [simp]: "bb_opts (setState n st r b) = bb_opts b"
  by (simp add: setState_def split: option.split)

lemma opts_note_sizes [simp]: "bb_opts (note_sizes n need running hb b) = bb_opts b"
  by (simp add: note_sizes_def Let_def split: option.split)

lemma opts_stop_head [simp]: "bb_opts (stop_head now n forget b) = bb_opts b"
  by (simp add: stop_head_def Let_def split: option.split)

lemma opts_do_event [simp]: "bb_opts (do_event b e) = bb_opts b"
  by (cases e) (auto simp: proc_exit_def selfTest_def Let_def split: option.split)

lemma opts_meanwhile [simp]: "bb_opts (meanwhile evs b) = bb_opts b"
  unfolding meanwhile_def by (induction evs arbitrary: b) simp_all

lemma not_running_setState: "not_running n b \<Longrightarrow> not_running n (setState m st r b)"
  by (auto simp: not_running_def setState_def is_running_def split: option.splits)

lemma not_running_note_sizes: "not_running n b \<Longrightarrow> not_running n (note_sizes m need running hb b)"
  by (auto simp: not_running_def note_sizes_def Let_def is_running_def split: option.splits)

lemma head_of_procs [simp]: "head_of (b\<lparr>bb_procs := x\<rparr>) = head_of b"
  by (simp add: head_of_def fun_eq_iff)

lemma not_running_do_event: "not_running n b \<Longrightarrow> not_running n (do_event b e)"
  by (cases e) (auto simp: not_running_def proc_exit_def selfTest_def Let_def is_running_def split: option.splits)

lemma not_running_meanwhile: "not_running n b \<Longrightarrow> not_running n (meanwhile evs b)"
  unfolding meanwhile_def by (rule foldl_invariant) (simp_all add: not_running_do_event)

lemma not_running_stop_head: "not_running n (stop_head now n forget b)"
  by (auto simp: not_running_def stop_head_def Let_def is_running_def head_of_def set_head_def update_conv' delete_conv' split: option.splits)

locale head_law =
  fixes R :: "bigbrains \<Rightarrow> bigbrains \<Rightarrow> bool" and ok :: "reconcile_env \<Rightarrow> pool \<Rightarrow> bool"
  assumes same: "R b b" and trans: "R b c \<Longrightarrow> R c d \<Longrightarrow> R b d"
    and event: "R b (do_event b e)"
    and state: "R b (setState n st r b)"
    and sizes: "R b (note_sizes n need running hb b)"
    and ready: "R b (poll_ready now n b)"
    and fresh: "head_of b n = None \<Longrightarrow> R b (set_head n new_head b)"
    and stop: "R b (stop_head now n forget b)"
    and start: "ok env p \<Longrightarrow> head_justified (bb_opts b) env p path need members \<Longrightarrow> not_running (pl_Name p) b \<Longrightarrow>
      R b (start_head (rv_now env) (rv_err env) p path (pool_ctx p) (map bm_rpcAddr members) (snd (bigBrainSplit members))
             (head_key p path (pool_ctx p) (map bm_rpcAddr members)) b)"
begin

lemma meanwhile: "R b (meanwhile evs b)"
  unfolding meanwhile_def by (rule foldl_invariant [where I = "R b"]) (auto intro: same trans event)

lemma stop_and_set: "R b (stop_and_set env n st r b)"
  unfolding stop_and_set_def by (rule trans [OF trans [OF stop meanwhile] state])

lemma try_start:
  assumes "ok env p" "not_running (pl_Name p) b"
    and j: "need \<le> fst (bigBrainSplit members) \<Longrightarrow> head_justified (bb_opts b) env p path need members"
  shows "R b (try_start env p path need members b)"
proof (cases "head_of b (pl_Name p)")
  case None
  then show ?thesis by (simp add: try_start_def same)
next
  case (Some h)
  let ?c = "meanwhile (rv_evs env 4) b"
  consider (wait) "hd_exited h \<and> rv_now env < hd_retryAt h"
    | (settle) "\<not> (hd_exited h \<and> rv_now env < hd_retryAt h)" "rv_now env - hd_stopped h < bigBrainSettle"
    | (small) "\<not> (hd_exited h \<and> rv_now env < hd_retryAt h)" "\<not> rv_now env - hd_stopped h < bigBrainSettle" "fst (bigBrainSplit members) < need"
    | (go) "\<not> (hd_exited h \<and> rv_now env < hd_retryAt h)" "\<not> rv_now env - hd_stopped h < bigBrainSettle" "need \<le> fst (bigBrainSplit members)"
    by linarith
  then show ?thesis
  proof cases
    case wait
    then have "try_start env p path need members b = setState (pl_Name p) BigBrainError (''head exited, retrying: '' @ hd_logTail h) b"
      using Some by (simp add: try_start_def setState_def)
    then show ?thesis by (simp only: state)
  next
    case settle
    show ?thesis using settle(2-) Some trans [OF meanwhile state] by (simp add: try_start_def if_not_P [OF settle(1)] Let_def)
  next
    case small
    show ?thesis using small(2-) Some trans [OF meanwhile state] by (simp add: try_start_def if_not_P [OF small(1)] Let_def case_prod_beta)
  next
    case go
    have "R ?c (start_head (rv_now env) (rv_err env) p path (pool_ctx p) (map bm_rpcAddr members) (snd (bigBrainSplit members))
             (head_key p path (pool_ctx p) (map bm_rpcAddr members)) ?c)"
      by (rule start [OF assms(1)]) (use j [OF go(3)] in simp, rule not_running_meanwhile [OF assms(2)])
    with go(2,3) show ?thesis using Some trans [OF meanwhile] by (simp add: try_start_def if_not_P [OF go(1)] Let_def case_prod_beta)
  qed
qed

lemma poll: "R b (pollBigBrain env n b)"
  by (auto simp: pollBigBrain_def Let_def same meanwhile split: option.split intro: trans [OF meanwhile ready])

end

lemma not_waiting: "waiting_for r mb = None \<Longrightarrow> bm_excluded mb = '''' \<and> bm_rpcAddr mb \<noteq> ''''"
  by (auto simp: waiting_for_def split: if_splits)

lemma none_waiting: "List.map_filter (waiting_for r) ms = [] \<Longrightarrow> mb \<in> set ms \<Longrightarrow> bm_excluded mb = '''' \<and> bm_rpcAddr mb \<noteq> ''''"
  by (induction ms) (auto simp: List.map_filter_simps dest: not_waiting split: option.splits)

text \<open>A reconciliation up to its second look at the head, and what follows.\<close>

definition first_look :: "reconcile_env \<Rightarrow> pool \<Rightarrow> int \<Rightarrow> bigbrain_member list \<Rightarrow> bigbrains \<Rightarrow> bool \<times> bigbrains" where
  "first_look env p need members b =
     (let b = (if head_of b (pl_Name p) = None then set_head (pl_Name p) new_head b else b);
          running = (case head_of b (pl_Name p) of Some h \<Rightarrow> is_running h | None \<Rightarrow> False)
      in (running, meanwhile (rv_evs env 1) (note_sizes (pl_Name p) need running (fst (bigBrainSplit members)) (meanwhile (rv_evs env 0) b))))"

lemma reconcileBigBrain_look:
  "reconcileBigBrain env p b =
     (let found = File_model (rv_cat env) (pl_Model p);
          members = bigBrainMembers (rv_reg env) (bo_Host (bb_opts b)) p;
          need = (case found of Some (path, m) \<Rightarrow> bigBrainKVMargin (cm_SizeBytes m) | None \<Rightarrow> 0);
          running = fst (first_look env p need members b); c = snd (first_look env p need members b);
          waiting = List.map_filter (waiting_for running) members
      in if bo_HeadBin (bb_opts b) = '''' then
           stop_and_set env (pl_Name p) BigBrainError ''the controller runs without -bigbrain-head (build it with make llama-head)'' c
         else case found of
           None \<Rightarrow> stop_and_set env (pl_Name p) BigBrainError (''model '' @ pl_Model p @ '' is not ready in the catalog'') c
         | Some (path, m) \<Rightarrow>
             if waiting \<noteq> [] then stop_and_set env (pl_Name p) BigBrainPreparing (''waiting: '' @ join '', '' waiting) c
             else if running \<and> (case head_of c (pl_Name p) of
                                  Some h \<Rightarrow> hd_key h \<noteq> head_key p path (pool_ctx p) (map bm_rpcAddr members) | None \<Rightarrow> False) then
               try_start env p path need members (meanwhile (rv_evs env 2) (stop_head (rv_now env) (pl_Name p) False c))
             else if running then pollBigBrain env (pl_Name p) c
             else try_start env p path need members c)"
proof -
  have "bb_opts (snd (first_look env p need members b)) = bb_opts b" for need members
    by (simp add: first_look_def Let_def)
  then show ?thesis
    unfolding reconcileBigBrain_def by (simp add: Let_def first_look_def cong: option.case_cong if_cong)
qed

lemma first_look_not_running:
  assumes "\<not> fst (first_look env p need members b)"
  shows "not_running (pl_Name p) (snd (first_look env p need members b))"
proof -
  let ?b = "if head_of b (pl_Name p) = None then set_head (pl_Name p) new_head b else b"
  have "not_running (pl_Name p) ?b"
    using assms by (auto simp: first_look_def Let_def not_running_def split: option.splits)
  then show ?thesis
    unfolding first_look_def Let_def snd_conv by (intro not_running_meanwhile not_running_note_sizes)
qed

lemma first_look_opts [simp]: "bb_opts (snd (first_look env p need members b)) = bb_opts b"
  by (simp add: first_look_def Let_def)

context head_law
begin

lemma look: "R b (snd (first_look env p need members b))"
proof -
  let ?b = "if head_of b (pl_Name p) = None then set_head (pl_Name p) new_head b else b"
  have "R b ?b" using fresh same by simp
  then show ?thesis
    unfolding first_look_def Let_def snd_conv by (rule trans [OF trans [OF trans [OF _ meanwhile] sizes] meanwhile])
qed

lemma reconcile:
  assumes "ok env p"
  shows "R b (reconcileBigBrain env p b)"
proof -
  define ms where "ms = bigBrainMembers (rv_reg env) (bo_Host (bb_opts b)) p"
  define need where "need = (case File_model (rv_cat env) (pl_Model p) of Some (path, m) \<Rightarrow> bigBrainKVMargin (cm_SizeBytes m) | None \<Rightarrow> 0)"
  define r where "r = fst (first_look env p need ms b)"
  define c where "c = snd (first_look env p need ms b)"
  define c2 where "c2 = meanwhile (rv_evs env 2) (stop_head (rv_now env) (pl_Name p) False c)"
  have bc: "R b c" unfolding c_def by (rule look)
  have oc: "bb_opts c = bb_opts b" "bb_opts c2 = bb_opts b" by (simp_all add: c_def c2_def)
  have tried: "R c' (try_start env p path need ms c')"
    if "not_running (pl_Name p) c'" "bb_opts c' = bb_opts b" "bo_HeadBin (bb_opts b) \<noteq> ''''" "File_model (rv_cat env) (pl_Model p) = Some (path, m)"
      "List.map_filter (waiting_for r) ms = []" for c' path m
  proof (rule try_start [OF assms that(1)])
    assume "need \<le> fst (bigBrainSplit ms)"
    with that(3-5) show "head_justified (bb_opts c') env p path need ms"
      unfolding head_justified_def that(2) using none_waiting [OF that(5)] by (auto simp: need_def ms_def)
  qed
  have nr: "not_running (pl_Name p) c2" unfolding c2_def by (intro not_running_meanwhile not_running_stop_head)
  have bc2: "R b c2" unfolding c2_def by (rule trans [OF trans [OF bc stop] meanwhile])
  have "R b (stop_and_set env (pl_Name p) st rs c)" for st rs by (rule trans [OF bc stop_and_set])
  moreover have "R b (pollBigBrain env (pl_Name p) c)" by (rule trans [OF bc poll])
  moreover have "R b (try_start env p path need ms c2)"
    if "bo_HeadBin (bb_opts b) \<noteq> ''''" "File_model (rv_cat env) (pl_Model p) = Some (path, m)" "List.map_filter (waiting_for r) ms = []" for path m
    by (rule trans [OF bc2 tried [OF nr oc(2) that]])
  moreover have "R b (try_start env p path need ms c)"
    if "bo_HeadBin (bb_opts b) \<noteq> ''''" "File_model (rv_cat env) (pl_Model p) = Some (path, m)" "List.map_filter (waiting_for r) ms = []" "\<not> r" for path m
    by (rule trans [OF bc tried [OF _ oc(1) that(1-3)]]) (use that(4) first_look_not_running in \<open>auto simp: r_def c_def\<close>)
  ultimately show ?thesis
    unfolding reconcileBigBrain_look Let_def ms_def [symmetric] need_def [symmetric] r_def [symmetric] c_def [symmetric] c2_def [symmetric]
    by (auto split: option.split)
qed

lemma stop_unwanted: "R b (stop_unwanted now evs names b)"
  unfolding stop_unwanted_def
  by (rule foldl_invariant [where I = "R b"]) (auto simp: same intro: trans [OF trans [OF _ stop] meanwhile])

lemma tick:
  assumes "\<And>p. p \<in> set (bigBrainPools ps) \<Longrightarrow> ok (envs (pl_Name p)) p"
  shows "R b (bigBrainTick envs now evs ps b)"
proof -
  have "R b (foldl (\<lambda>b p. reconcileBigBrain (envs (pl_Name p)) p b) b (bigBrainPools ps))"
    by (rule foldl_invariant [where I = "R b"], rule same, erule trans, rule reconcile, erule assms)
  then show ?thesis
    unfolding bigBrainTick_def Let_def by (rule trans [OF _ stop_unwanted])
qed

lemma stop_all: "R b (stopAll now evs b)"
  unfolding stopAll_def by (rule stop_unwanted)

end

subsection \<open>The contract: port leases\<close>

text \<open>
  What the supervisor promises, without its bookkeeping: a map from pools to leases (a process and
  its port).  A lease is granted to a pool without one, on the lowest port from the base that no
  lease holds, to a new process; or a lease is given back.
\<close>

type_synonym leases = "string \<rightharpoonup> nat \<times> int"

inductive lease_step :: "int \<Rightarrow> leases \<Rightarrow> leases \<Rightarrow> bool" for base :: int where
  grant: "L n = None \<Longrightarrow> base \<le> port \<Longrightarrow> (\<And>m pid'. L m \<noteq> Some (pid', port)) \<Longrightarrow> (\<And>m q. L m \<noteq> Some (pid, q)) \<Longrightarrow>
     (\<And>q. base \<le> q \<Longrightarrow> q < port \<Longrightarrow> \<exists>m pid'. L m = Some (pid', q)) \<Longrightarrow> lease_step base L (L(n \<mapsto> (pid, port)))"
| release: "lease_step base L (L(n := None))"

definition lease_of :: "head \<Rightarrow> (nat \<times> int) option" where
  "lease_of h = (if hd_exited h then None else map_option (\<lambda>pid. (pid, bbs_Port (hd_status h))) (hd_run h))"

definition leases :: "bigbrains \<Rightarrow> leases" where
  "leases b n = Option.bind (head_of b n) lease_of"

lemma leases_runs: "leases b n = Some (pid, port) \<longleftrightarrow> runs b n pid port"
  by (auto simp: leases_def lease_of_def runs_def split: Option.bind_split if_splits)

lemma leases_set_head: "leases (set_head n h b) = (leases b)(n := lease_of h)"
  by (simp add: leases_def fun_eq_iff)

lemma leases_same: "head_of b n = Some h \<Longrightarrow> lease_of h' = lease_of h \<Longrightarrow> leases (set_head n h' b) = leases b"
  by (auto simp: leases_set_head leases_def fun_eq_iff)

lemma leases_setState: "leases (setState n st r b) = leases b"
  by (auto simp: setState_def lease_of_def intro!: leases_same split: option.split)

lemma leases_note_sizes: "leases (note_sizes n need running hb b) = leases b"
  by (auto simp: note_sizes_def Let_def lease_of_def intro!: leases_same split: option.split)

lemma leases_poll_ready: "leases (poll_ready now n b) = leases b"
  by (auto simp: poll_ready_def lease_of_def intro!: leases_same split: option.split)

lemma leases_new_head: "head_of b n = None \<Longrightarrow> leases (set_head n new_head b) = leases b"
  by (auto simp: leases_set_head leases_def fun_eq_iff lease_of_def new_head_def)

lemma leases_heads: "bb_heads b' = bb_heads b \<Longrightarrow> leases b' = leases b"
  by (simp add: leases_def head_of_def fun_eq_iff)

lemma leases_do_event: "\<exists>n. leases (do_event b e) = leases b \<or> leases (do_event b e) = (leases b)(n := None)"
proof (cases e)
  case (Exited now pid tail)
  have "leases (proc_exit now pid n tail b) = leases b \<or> leases (proc_exit now pid n tail b) = (leases b)(n := None)" for n
    using leases_heads [of "b\<lparr>bb_procs := filter (\<lambda>e. fst e \<noteq> pid) (bb_procs b)\<rparr>" b]
    by (auto simp: proc_exit_def Let_def leases_set_head lease_of_def split: option.split)
  then show ?thesis using Exited by (auto split: option.split)
next
  case (Measured n port prompt gen)
  have "leases (selfTest n port prompt gen b) = leases b"
    by (auto simp: selfTest_def lease_of_def intro!: leases_same split: option.split)
  with Measured show ?thesis by simp
qed

lemma leases_stop_head: "leases (stop_head now n forget b) = leases b \<or> leases (stop_head now n forget b) = (leases b)(n := None)"
proof (cases "head_of b n")
  case None
  then show ?thesis by (simp add: stop_head_def)
next
  case (Some h)
  let ?b = "stop_head now n forget b"
  have "head_of ?b m = head_of b m" if "m \<noteq> n" for m
    using Some that by (auto simp: stop_head_def Let_def head_of_def set_head_def update_conv' delete_conv')
  moreover have "leases ?b n = None"
    using Some by (auto simp: stop_head_def Let_def leases_def lease_of_def head_of_def set_head_def update_conv' delete_conv')
  ultimately have "leases ?b = (leases b)(n := None)" by (auto simp: leases_def fun_eq_iff)
  then show ?thesis ..
qed

lemma leases_start_head:
  assumes inv: "bb_inv b" and nr: "not_running (pl_Name p) b"
  shows "leases (start_head now err p path c addrs split key b) = leases b \<or>
    lease_step (bo_BasePort (bb_opts b)) (leases b) (leases (start_head now err p path c addrs split key b))"
proof (cases "head_of b (pl_Name p)")
  case None
  then show ?thesis by (simp add: start_head_def)
next
  case (Some h)
  let ?n = "pl_Name p" and ?port = "freePortLocked (pl_Name p) b"
  have none: "leases b ?n = None" using nr Some by (auto simp: not_running_def is_running_def leases_def lease_of_def)
  have used: "q \<in> set (used_ports ?n b) \<longleftrightarrow> (\<exists>m pid. leases b m = Some (pid, q))" for q
    unfolding used_ports_iff [OF bb_inv_keys [OF inv]] leases_runs [symmetric] using none by (metis option.distinct(1))
  from Some show ?thesis
  proof (cases rule: start_head_cases [where now = now and err = err and path = path and c = c and addrs = addrs and split = split and key = key])
    case (error h')
    have "leases (set_head ?n h' (cancel_run h b)) = (leases b)(?n := None)"
      using error leases_heads [of "cancel_run h b" b] by (simp add: leases_set_head lease_of_def)
    also have "\<dots> = leases b" using none by (auto simp: fun_eq_iff)
    finally show ?thesis using error by simp
  next
    case (started h' b')
    have eq: "leases b' = (leases b)(?n \<mapsto> (bb_next b, ?port))"
      using started by (auto simp: leases_def fun_eq_iff lease_of_def)
    have "lease_step (bo_BasePort (bb_opts b)) (leases b) ((leases b)(?n \<mapsto> (bb_next b, ?port)))"
    proof (rule grant)
      show "leases b ?n = None" by (rule none)
      show "bo_BasePort (bb_opts b) \<le> ?port" by (rule freePortLocked_base)
      show "leases b m \<noteq> Some (pid', ?port)" for m pid' using freePortLocked_free [of ?n b] used by blast
      show "\<exists>m pid'. leases b m = Some (pid', q)" if "bo_BasePort (bb_opts b) \<le> q" "q < ?port" for q
        using freePortLocked_lowest [OF that] used by blast
      show "leases b m \<noteq> Some (bb_next b, q)" for m q
        using bb_inv_head_pid [OF inv, of m _ "bb_next b"] by (auto simp: leases_runs runs_def)
    qed
    then show ?thesis using started(4) eq by simp
  qed
qed

definition refines_leases :: "bigbrains \<Rightarrow> bigbrains \<Rightarrow> bool" where
  "refines_leases b b' \<longleftrightarrow> bb_opts b' = bb_opts b \<and>
     (bb_inv b \<longrightarrow> bb_inv b' \<and> (lease_step (bo_BasePort (bb_opts b)))\<^sup>*\<^sup>* (leases b) (leases b'))"

lemma refines_leases_same: "bb_opts b' = bb_opts b \<Longrightarrow> leases b' = leases b \<Longrightarrow> (bb_inv b \<Longrightarrow> bb_inv b') \<Longrightarrow> refines_leases b b'"
  by (simp add: refines_leases_def)

lemma refines_leases_release:
  "bb_opts b' = bb_opts b \<Longrightarrow> leases b' = leases b \<or> leases b' = (leases b)(n := None) \<Longrightarrow> (bb_inv b \<Longrightarrow> bb_inv b') \<Longrightarrow> refines_leases b b'"
  by (auto simp: refines_leases_def release r_into_rtranclp)

lemma opts_poll_ready [simp]: "bb_opts (poll_ready now n b) = bb_opts b"
  by (simp add: poll_ready_def split: option.split)

lemma opts_start_head [simp]: "bb_opts (start_head now err p path c addrs split key b) = bb_opts b"
  by (simp add: start_head_def Let_def split: option.split)

interpretation head_leases: head_law refines_leases "\<lambda>env p. True"
proof (unfold_locales, goal_cases)
  case (2 b c d)
  then show ?case by (auto simp: refines_leases_def)
next
  case (3 b e)
  from leases_do_event [of b e] obtain n where "leases (do_event b e) = leases b \<or> leases (do_event b e) = (leases b)(n := None)" ..
  then show ?case by (intro refines_leases_release) (simp_all add: bb_inv_do_event)
next
  case (8 b now n forget)
  show ?case by (rule refines_leases_release [OF _ leases_stop_head]) (simp_all add: bb_inv_stop_head)
next
  case (9 env p b path need members)
  show ?case
    unfolding refines_leases_def using bb_inv_start_head leases_start_head [OF _ 9(3)]
    by (metis (no_types, lifting) opts_start_head r_into_rtranclp rtranclp.rtrancl_refl)
qed (auto intro!: refines_leases_same simp: leases_setState leases_note_sizes leases_poll_ready leases_new_head
      bb_inv_setState bb_inv_note_sizes bb_inv_poll_ready bb_inv_new_head)

text \<open>Where a new process comes from: a pool the supervisor was given, justified by what it saw.\<close>

definition spawned_by :: "bb_options \<Rightarrow> reconcile_env \<Rightarrow> pool \<Rightarrow> nat \<times> string \<times> int \<times> string list \<Rightarrow> bool" where
  "spawned_by opts env p e \<longleftrightarrow> (\<exists>path need members. head_justified opts env p path need members \<and> fst (snd e) = pl_Name p \<and>
     snd (snd (snd e)) = headArgs (pl_Model p) path (pool_ctx p) (fst (snd (snd e))) (map bm_rpcAddr members) (snd (bigBrainSplit members)))"

definition spawns_justified :: "(reconcile_env \<Rightarrow> pool \<Rightarrow> bool) \<Rightarrow> bigbrains \<Rightarrow> bigbrains \<Rightarrow> bool" where
  "spawns_justified ok b b' \<longleftrightarrow> bb_opts b' = bb_opts b \<and>
     (\<forall>e \<in> set (bb_procs b'). e \<in> set (bb_procs b) \<or> (\<exists>env p. ok env p \<and> spawned_by (bb_opts b) env p e))"

lemma spawns_sub: "bb_opts b' = bb_opts b \<Longrightarrow> set (bb_procs b') \<subseteq> set (bb_procs b) \<Longrightarrow> spawns_justified ok b b'"
  by (auto simp: spawns_justified_def)

lemma procs_sub:
  "set (bb_procs (do_event b e)) \<subseteq> set (bb_procs b)" "bb_procs (setState n st r b) = bb_procs b" "bb_procs (note_sizes n need running hb b) = bb_procs b"
  "bb_procs (poll_ready now n b) = bb_procs b" "bb_procs (stop_head now n forget b) = bb_procs b"
  subgoal by (cases e) (auto simp: proc_exit_def selfTest_def Let_def split: option.split)
  by (auto simp: setState_def note_sizes_def poll_ready_def stop_head_def Let_def split: option.split)

lemma spawns_start_head:
  assumes "ok env p" "head_justified (bb_opts b) env p path need members"
  shows "spawns_justified ok b (start_head now err p path (pool_ctx p) (map bm_rpcAddr members) (snd (bigBrainSplit members)) key b)"
    (is "spawns_justified ok b ?b'")
proof (cases "head_of b (pl_Name p)")
  case None
  then show ?thesis by (simp add: start_head_def spawns_justified_def)
next
  case (Some h)
  then show ?thesis
  proof (cases rule: start_head_cases [where now = now and err = err and path = path and c = "pool_ctx p" and addrs = "map bm_rpcAddr members"
        and split = "snd (bigBrainSplit members)" and key = key])
    case (error h')
    then show ?thesis by (auto intro!: spawns_sub)
  next
    case (started h' b')
    let ?port = "freePortLocked (pl_Name p) b"
    have "spawned_by (bb_opts b) env p (bb_next b, pl_Name p, ?port, headArgs (pl_Model p) path (pool_ctx p) ?port (map bm_rpcAddr members) (snd (bigBrainSplit members)))"
      unfolding spawned_by_def using assms(2) by auto
    with assms(1) show ?thesis using started(4,7,10) by (auto simp: spawns_justified_def)
  qed
qed

lemma head_spawns_law: "head_law (spawns_justified ok) ok"
proof (unfold_locales, goal_cases)
  case (2 b c d)
  then show ?case unfolding spawns_justified_def by metis
next
  case (9 env p b path need members)
  then show ?case by (intro spawns_start_head)
qed (auto intro!: spawns_sub simp: procs_sub dest: subsetD [OF procs_sub(1)])

interpretation head_spawns: head_law "spawns_justified ok" ok for ok
  by (rule head_spawns_law)

subsection \<open>The properties\<close>

inductive bb_reach :: "bb_options \<Rightarrow> bigbrains \<Rightarrow> bool" for opts :: bb_options where
  boot: "bb_reach opts (newBigBrains opts)"
| tick: "bb_reach opts b \<Longrightarrow> bb_reach opts (bigBrainTick envs now evs ps b)"
| events: "bb_reach opts b \<Longrightarrow> bb_reach opts (meanwhile es b)"
| shutdown: "bb_reach opts b \<Longrightarrow> bb_reach opts (stopAll now evs b)"

lemma bb_inv_new: "bb_inv (newBigBrains opts)"
  by (rule bb_invI) (auto simp: newBigBrains_def head_of_def live_def runs_def)

lemma bb_inv_refines: "refines_leases b b' \<Longrightarrow> bb_inv b \<Longrightarrow> bb_inv b'"
  by (simp add: refines_leases_def)

lemma bb_reach_inv: "bb_reach opts b \<Longrightarrow> bb_inv b \<and> bb_opts b = bb_opts (newBigBrains opts)"
proof (induction rule: bb_reach.induct)
  case (tick b envs now evs ps)
  then show ?case using head_leases.tick [where ps = ps and envs = envs and b = b and now = now and evs = evs] by (simp add: refines_leases_def)
next
  case (events b es)
  then show ?case using head_leases.meanwhile [of b es] by (simp add: refines_leases_def)
next
  case (shutdown b now evs)
  then show ?case using head_leases.stop_all [of b now evs] by (simp add: refines_leases_def)
qed (simp add: bb_inv_new)

lemma live_pid:
  assumes inv: "bb_inv b" and l: "live b (pid, n, port, args)" "live b (pid', n', port', args')"
  shows "n = n' \<longleftrightarrow> pid = pid'" "n = n' \<longleftrightarrow> port = port'"
proof -
  have r: "runs b n pid port" "runs b n' pid' port'" using l by (auto intro: bb_inv_live [OF inv])
  have 1: "pid = pid' \<and> port = port'" if "n = n'" using r that by (auto simp: runs_def)
  have 2: "n = n'" if "pid = pid'" using r that by (auto simp: runs_def intro: bb_inv_owner [OF inv])
  have 3: "n = n'" if "port = port'" using r that bb_inv_port [OF inv] by blast
  from 1 2 show "n = n' \<longleftrightarrow> pid = pid'" by blast
  from 1 3 show "n = n' \<longleftrightarrow> port = port'" by blast
qed




text \<open>The next look at a pool whose members are ready starts its head.\<close>

lemma meanwhile_Nil [simp]: "meanwhile [] b = b"
  by (simp add: meanwhile_def)

lemma try_start_starts:
  assumes h: "head_of b (pl_Name p) = Some h"
    and due: "hd_exited h \<Longrightarrow> hd_retryAt h \<le> rv_now env" "hd_stopped h + bigBrainSettle \<le> rv_now env"
    and fits: "need \<le> fst (bigBrainSplit members)" and env: "rv_evs env = (\<lambda>_. [])" "rv_err env = None"
  shows "runs (try_start env p path need members b) (pl_Name p) (bb_next b) (freePortLocked (pl_Name p) b)"
proof -
  have "\<not> (hd_exited h \<and> rv_now env < hd_retryAt h)" using due(1) by auto
  then have "try_start env p path need members b = start_head (rv_now env) None p path (pool_ctx p) (map bm_rpcAddr members) (snd (bigBrainSplit members))
      (head_key p path (pool_ctx p) (map bm_rpcAddr members)) b"
    using h due(2) fits env by (simp add: try_start_def if_not_P Let_def case_prod_beta)
  moreover have "freePortLocked (pl_Name p) (cancel_run h b) = freePortLocked (pl_Name p) b"
    by (simp add: freePortLocked_def used_ports_def)
  ultimately show ?thesis using h by (simp add: start_head_def Let_def runs_def head_of_def set_head_def update_conv')
qed

text \<open>The head of a pool as the supervisor finds it: a new one if there is none.\<close>

definition pool_head :: "bigbrains \<Rightarrow> string \<Rightarrow> head" where
  "pool_head b n = (case head_of b n of None \<Rightarrow> new_head | Some h \<Rightarrow> h)"

lemma freePortLocked_set_head: "freePortLocked n (set_head n h b) = freePortLocked n b"
proof -
  have "filter (\<lambda>e. fst e \<noteq> k \<and> is_running (snd e)) (AList.update k v xs) = filter (\<lambda>e. fst e \<noteq> k \<and> is_running (snd e)) xs" for k :: string and v xs
    by (induction xs) auto
  then show ?thesis by (simp add: freePortLocked_def used_ports_def set_head_def)
qed

lemma reconcile_starts:
  assumes h: "\<not> is_running (pool_head b (pl_Name p))"
    and due: "hd_exited (pool_head b (pl_Name p)) \<Longrightarrow> hd_retryAt (pool_head b (pl_Name p)) \<le> rv_now env"
      "hd_stopped (pool_head b (pl_Name p)) + bigBrainSettle \<le> rv_now env"
    and can: "bo_HeadBin (bb_opts b) \<noteq> ''''" "File_model (rv_cat env) (pl_Model p) = Some (path, m)"
    and usable: "List.map_filter (waiting_for False) (bigBrainMembers (rv_reg env) (bo_Host (bb_opts b)) p) = []"
    and fits: "bigBrainKVMargin (cm_SizeBytes m) \<le> fst (bigBrainSplit (bigBrainMembers (rv_reg env) (bo_Host (bb_opts b)) p))"
    and env: "rv_evs env = (\<lambda>_. [])" "rv_err env = None"
  shows "runs (reconcileBigBrain env p b) (pl_Name p) (bb_next b) (freePortLocked (pl_Name p) b)"
proof -
  let ?ms = "bigBrainMembers (rv_reg env) (bo_Host (bb_opts b)) p" and ?need = "bigBrainKVMargin (cm_SizeBytes m)" and ?n = "pl_Name p"
  define d where "d = (if head_of b ?n = None then set_head ?n new_head b else b)"
  let ?c = "note_sizes ?n ?need False (fst (bigBrainSplit ?ms)) d"
  have d: "head_of d ?n = Some (pool_head b ?n)" "bb_next d = bb_next b" "freePortLocked ?n d = freePortLocked ?n b"
    by (auto simp: d_def pool_head_def freePortLocked_set_head split: option.split)
  then have "first_look env p ?need ?ms b = (False, ?c)" using h env by (simp add: first_look_def d_def [symmetric])
  then have *: "reconcileBigBrain env p b = try_start env p path ?need ?ms ?c"
    using can usable by (simp add: reconcileBigBrain_look Let_def)
  obtain h' where h': "?c = set_head ?n h' d" "hd_exited h' = hd_exited (pool_head b ?n)" "hd_retryAt h' = hd_retryAt (pool_head b ?n)"
      "hd_stopped h' = hd_stopped (pool_head b ?n)"
    using d(1) by (simp add: note_sizes_def Let_def)
  have "runs (try_start env p path ?need ?ms ?c) ?n (bb_next ?c) (freePortLocked ?n ?c)"
    unfolding h'(1) by (rule try_start_starts [where h = h']) (use due fits env h' in auto)
  then show ?thesis using * d(2,3) h'(1) by (simp add: freePortLocked_set_head)
qed

text \<open>
  C31. A reconciliation of a pool that has no running head starts one in this very call, on the
  lowest free port, when every condition holds and nothing else happens meanwhile: heads can be run,
  the model's file is ready, every member is reported usable, active and in RPC mode, their free
  memory covers the model with its margin, no retry delay and no settling delay runs, and the
  process starts.\<close>

theorem reconcile_starts_head:
  assumes "\<not> is_running (pool_head b (pl_Name p))"
    and "hd_exited (pool_head b (pl_Name p)) \<Longrightarrow> hd_retryAt (pool_head b (pl_Name p)) \<le> rv_now env"
      "hd_stopped (pool_head b (pl_Name p)) + bigBrainSettle \<le> rv_now env"
    and "bo_HeadBin (bb_opts b) \<noteq> ''''" "File_model (rv_cat env) (pl_Model p) = Some (path, m)"
    and "List.map_filter (waiting_for False) (bigBrainMembers (rv_reg env) (bo_Host (bb_opts b)) p) = []"
    and "bigBrainKVMargin (cm_SizeBytes m) \<le> fst (bigBrainSplit (bigBrainMembers (rv_reg env) (bo_Host (bb_opts b)) p))"
    and "rv_evs env = (\<lambda>_. [])" "rv_err env = None"
  shows "runs (reconcileBigBrain env p b) (pl_Name p) (bb_next b) (freePortLocked (pl_Name p) b)"
  by (rule reconcile_starts [OF assms])

text \<open>While \<open>stop\<close> waits for the process, a ready head is still ready to the gateway, on port 0.\<close>

lemma stopping_still_advertised:
  assumes "head_of b n = Some h" "bbs_State (hd_status h) = BigBrainReady"
  shows "bbs_State (bb_status (stop_head now n False b) n) = BigBrainReady \<and> bbs_Port (bb_status (stop_head now n False b) n) = 0"
  using assms by (auto simp: stop_head_def Let_def bb_status_def head_of_def set_head_def update_conv')

text \<open>A head that exits after its health check answered is called ready.\<close>

lemma ready_after_exit:
  assumes "head_of b n = Some h" "hd_exited h"
  shows "\<exists>h'. head_of (poll_ready now n b) n = Some h' \<and> hd_exited h' \<and> bbs_State (hd_status h') = BigBrainReady \<and> hd_backoff h' = 0"
  using assms by (simp add: poll_ready_def)

subsection \<open>Examples\<close>

definition sample_rpc :: registry where
  "sample_rpc = projr (Heartbeat 7 ((sample_heartbeat ''a'')\<lparr>hb_RAMAvailBytes := 2000000000,
     hb_Runtime := Some (zero_runtime\<lparr>rt_State := ModeRPC, rt_AdvertisePort := 8000\<rparr>)\<rparr>) sample_active)"

definition sample_big :: pool where
  "sample_big = (sample_pool ''big'' [''a''])\<lparr>pl_Routing := RoutingBigBrain, pl_Model := ''m''\<rparr>"

definition sample_stored :: catalog where
  "sample_stored = cat0\<lparr>ct_models := [(''m'', (the (map_of (ct_models cat3) ''m''))\<lparr>ce_m :=
     (ce_m (the (map_of (ct_models cat3) ''m'')))\<lparr>cm_Status := StatusReady, cm_SizeBytes := 100\<rparr>\<rparr>)]\<rparr>"

definition sample_env :: reconcile_env where
  "sample_env = \<lparr>rv_reg = sample_rpc, rv_cat = sample_stored, rv_now = 100 * second, rv_evs = (\<lambda>_. []), rv_err = None, rv_health = True\<rparr>"

definition sample_bbs :: bigbrains where
  "sample_bbs = newBigBrains \<lparr>bo_HeadBin = ''llama-server'', bo_BasePort = 0, bo_Host = ''h''\<rparr>"

definition sample_ticked :: bigbrains where
  "sample_ticked = bigBrainTick (\<lambda>_. sample_env) 0 (\<lambda>_. []) [(''big'', sample_big)] sample_bbs"

lemma sample_digits: "char_of (56 :: nat) = CHR ''8''" "char_of (48 :: nat) = CHR ''0''"
  by code_simp+

lemma sample_member: "bigBrainMembers sample_rpc ''h'' sample_big = [\<lparr>bm_name = ''a'', bm_id = ''a'', bm_rpcAddr = ''h:8000'',
   bm_state = ModeRPC, bm_freeRAM = 2000000000, bm_excluded = '''', bm_stale = ''''\<rparr>]"
  by (simp add: bigBrainMembers_def bigBrainMember_def sample_big_def sample_pool_def sample_rpc_def sample_reg_defs View_def Registry.Lookup_def
      Snapshot_def known_node_def alias_of_def node_runtime_def runtimeState_def itoa_def dec_digits.simps digit_def sample_digits)

lemma sample_file: "\<exists>m. File_model sample_stored ''m'' = Some (filePath sample_stored ''m'', m) \<and> cm_SizeBytes m = 100"
  by (simp add: File_model_def sample_stored_def entry_view_def)

lemma sample_conditions:
  "\<not> is_running (pool_head sample_bbs ''big'')" "\<not> hd_exited (pool_head sample_bbs ''big'')"
  "hd_stopped (pool_head sample_bbs ''big'') + bigBrainSettle \<le> rv_now sample_env"
  "bo_HeadBin (bb_opts sample_bbs) \<noteq> ''''" "rv_evs sample_env = (\<lambda>_. [])" "rv_err sample_env = None"
  "List.map_filter (waiting_for False) (bigBrainMembers (rv_reg sample_env) (bo_Host (bb_opts sample_bbs)) sample_big) = []"
  "bigBrainKVMargin 100 \<le> fst (bigBrainSplit (bigBrainMembers (rv_reg sample_env) (bo_Host (bb_opts sample_bbs)) sample_big))"
  by (simp_all add: pool_head_def sample_bbs_def newBigBrains_def head_of_def new_head_def is_running_def sample_env_def bigBrainSettle_def
      sample_member second_def waiting_for_def List.map_filter_simps bigBrainSplit_def bigBrainReserve_def bigBrainKVMargin_def)

lemma runs_stop_other: "m \<noteq> n \<Longrightarrow> runs (stop_head now m forget b) n pid port = runs b n pid port"
proof (cases "head_of b m")
  case (Some h)
  assume "m \<noteq> n"
  with Some have "head_of (stop_head now m forget b) n = head_of b n"
    by (auto simp: stop_head_def Let_def head_of_def set_head_def update_conv' delete_conv')
  then show ?thesis by (simp add: runs_def)
qed (simp add: stop_head_def)

lemma runs_stop_unwanted:
  assumes "n \<notin> set names"
  shows "runs (stop_unwanted now (\<lambda>_. []) names b) n pid port = runs b n pid port"
proof -
  have "\<forall>k. runs (foldl (\<lambda>b (k, name). meanwhile [] (stop_head now name True b)) b (enumerate k names)) n pid port = runs b n pid port"
    using assms by (induction names arbitrary: b) (auto simp: runs_stop_other)
  then show ?thesis by (simp add: stop_unwanted_def)
qed

lemma sample_start: "runs sample_ticked ''big'' 0 18200"
proof -
  obtain m where m: "File_model (rv_cat sample_env) ''m'' = Some (filePath sample_stored ''m'', m)" "cm_SizeBytes m = 100"
    using sample_file by (auto simp: sample_env_def)
  have n: "pl_Name sample_big = ''big''" "pl_Model sample_big = ''m''" by (simp_all add: sample_big_def sample_pool_def)
  have "runs (reconcileBigBrain sample_env sample_big sample_bbs) (pl_Name sample_big) (bb_next sample_bbs) (freePortLocked (pl_Name sample_big) sample_bbs)"
    using sample_conditions m n by (intro reconcile_starts [where path = "filePath sample_stored ''m''" and m = m]) simp_all
  moreover have "freePortLocked ''big'' sample_bbs = 18200" "bb_next sample_bbs = 0"
    by (simp_all add: freePortLocked_def used_ports_def sample_bbs_def newBigBrains_def)
  ultimately have 1: "runs (reconcileBigBrain sample_env sample_big sample_bbs) ''big'' 0 18200" using n by simp
  have "pl_Routing sample_big = RoutingBigBrain \<and> \<not> pl_Disabled sample_big" by (simp add: sample_big_def sample_pool_def)
  then have eq: "sample_ticked = stop_unwanted 0 (\<lambda>_. []) (filter (\<lambda>n. n \<noteq> ''big'') (keys_of (bb_heads (reconcileBigBrain sample_env sample_big sample_bbs))))
      (reconcileBigBrain sample_env sample_big sample_bbs)"
    using n by (simp add: sample_ticked_def bigBrainTick_def bigBrainPools_def sorted_pools_def Let_def)
  show ?thesis unfolding eq by (subst runs_stop_unwanted) (simp_all only: 1 set_filter mem_Collect_eq simp_thms)
qed

lemma sample_live: "\<exists>args. live sample_ticked (0, ''big'', 18200, args)" and sample_reach: "bb_reach (bb_opts sample_bbs) sample_ticked"
proof -
  have "sample_bbs = newBigBrains (bb_opts sample_bbs)" by (simp add: sample_bbs_def newBigBrains_def)
  then have "bb_reach (bb_opts sample_bbs) sample_bbs" by (metis boot)
  then show r: "bb_reach (bb_opts sample_bbs) sample_ticked" unfolding sample_ticked_def by (rule tick)
  from bb_inv_runs [OF _ sample_start] bb_reach_inv [OF r] show "\<exists>args. live sample_ticked (0, ''big'', 18200, args)" by blast
qed




theorem reconcile_starts_head_witness:
  "runs (reconcileBigBrain sample_env sample_big sample_bbs) ''big'' 0 (freePortLocked ''big'' sample_bbs)"
proof -
  obtain m where m: "File_model (rv_cat sample_env) ''m'' = Some (filePath sample_stored ''m'', m)" "cm_SizeBytes m = 100"
    using sample_file by (auto simp: sample_env_def)
  have n: "pl_Name sample_big = ''big''" "pl_Model sample_big = ''m''" "bb_next sample_bbs = 0"
    by (simp_all add: sample_big_def sample_pool_def sample_bbs_def newBigBrains_def)
  have "runs (reconcileBigBrain sample_env sample_big sample_bbs) (pl_Name sample_big) (bb_next sample_bbs) (freePortLocked (pl_Name sample_big) sample_bbs)"
    using sample_conditions m n by (intro reconcile_starts_head [where path = "filePath sample_stored ''m''" and m = m]) simp_all
  with n show ?thesis by simp
qed

end
