(* ===== verification/Placement.thy ===== *)
theory Placement
  imports BigBrain
begin

text \<open>
  Model management (\<^verbatim>\<open>controller/placement.go\<close>, \<^verbatim>\<open>controller/models_admin.go\<close>): the stored
  specification, the plan computed from it with the registry, the catalog and the measured
  bandwidths, the overrides of a running benchmark, what a node is told to serve, and the admin
  handlers over models and placement.

  A handler that runs the planner may panic with it, which is \<open>None\<close>.  A write of the placement
  file is its outcome \<open>ok\<close>; audit lines, log lines and JSON are left out.
\<close>

abbreviation "ReasonBenchmark \<equiv> ''benchmark''"

record placement_node =
  pv_NodeID :: node_id
  pv_Class :: string
  pv_RAMTotalBytes :: nat
  pv_CurrentModel :: string
  pv_State :: string
  pv_Progress :: real
  pv_Error :: string
  pv_Drained :: bool
  pv_BudgetBytes :: int
  pv_PerfTier :: string
  pv_GenGBps :: real
  pv_PromptGBps :: real

text \<open>The response of the placement handlers.\<close>

record placement_answer =
  an_Policies :: "policy list"
  an_DefaultModel :: string
  an_Plan :: "assignment list"
  an_Nodes :: "placement_node list"
  an_Warnings :: "plan_warning list"

text \<open>\<open>plc_path\<close>: is there a placement file; \<open>plc_file\<close>: the version and the specification it holds.\<close>

record placement =
  plc_path :: bool
  plc_file :: "(int \<times> spec) option"
  plc_spec :: spec
  plc_plan :: plan
  plc_nodes :: "placement_node list"
  plc_byNode :: "node_id \<rightharpoonup> assignment"
  plc_overrides :: "(node_id \<times> string) list"

text \<open>The parts of the server that model management reads.\<close>

record cluster =
  cl_reg :: registry
  cl_perf :: node_perf
  cl_cat :: catalog
  cl_bb :: bigbrains
  cl_pools :: pool_map
  cl_minTokS :: real
  cl_place :: placement

subsection \<open>The placement file\<close>

text \<open>\<open>LoadPlacement\<close>; \<open>dec\<close> is the JSON decoder.\<close>

definition LoadPlacement :: "(string \<Rightarrow> (int \<times> spec) option) \<Rightarrow> read_result \<Rightarrow> spec option" where
  "LoadPlacement dec f =
     (case f of
        Missing \<Rightarrow> Some \<lparr>sc_Policies = [], sc_DefaultModel = ''''\<rparr>
      | Unreadable \<Rightarrow> None
      | Content data \<Rightarrow>
          (case dec data of
             None \<Rightarrow> None
           | Some (version, sc) \<Rightarrow> if version \<noteq> 1 then None else Some sc))"

definition save :: "bool \<Rightarrow> placement \<Rightarrow> bool \<times> placement" where
  "save ok p =
     (if \<not> plc_path p then (True, p)
      else if ok then (True, p\<lparr>plc_file := Some (1, plc_spec p)\<rparr>) else (False, p))"

subsection \<open>Planning\<close>

definition override_policy :: "(node_id \<times> string) list \<Rightarrow> policy \<Rightarrow> policy option" where
  "override_policy ov p =
     (if po_Mode p = ModePin then
        (let p = p\<lparr>po_Nodes := filter (\<lambda>n. n \<notin> set (keys_of ov)) (po_Nodes p)\<rparr>
         in if length (po_Nodes p) = 0 then None else Some p)
      else Some p)"

definition override_pin :: "(node_id \<times> string) list \<Rightarrow> node_id \<Rightarrow> policy" where
  "override_pin ov n = \<lparr>po_ModelID = (case map_of ov n of Some m \<Rightarrow> m | None \<Rightarrow> ''''), po_Mode = ModePin, po_Nodes = [n],
     po_Replicas = 0, po_Percent = 0, po_Classes = [], po_MinTokS = 0\<rparr>"

definition withOverrides :: "spec \<Rightarrow> (node_id \<times> string) list \<Rightarrow> spec" where
  "withOverrides sc ov =
     \<lparr>sc_Policies = map (override_pin ov) (sort (keys_of ov)) @ List.map_filter (override_policy ov) (sc_Policies sc),
      sc_DefaultModel = sc_DefaultModel sc\<rparr>"

definition assigning :: "string \<Rightarrow> bool" where
  "assigning reason \<longleftrightarrow> reason \<in> {ReasonPin, ReasonReplicas, ReasonPercent, ReasonDefault, ReasonBenchmark}"

definition currentModel :: "runtime_status option \<Rightarrow> string" where
  "currentModel rt =
     (case rt of
        None \<Rightarrow> ''''
      | Some rt \<Rightarrow> if rt_ModelID rt \<noteq> '''' then rt_ModelID rt else rt_Model rt)"

definition lends :: "cluster \<Rightarrow> node_id \<Rightarrow> string \<times> bool" where
  "lends w i = bigBrainModel (cl_bb w) (cl_reg w) (cl_cat w) (cl_pools w) i"

definition planned :: "cluster \<Rightarrow> node \<Rightarrow> bool" where
  "planned w n \<longleftrightarrow> nd_State n \<noteq> StateOffline \<and> \<not> snd (lends w (nd_ID n))"

definition plan_node_of :: "cluster \<Rightarrow> (node_id \<rightharpoonup> assignment) \<Rightarrow> node \<Rightarrow> plan_node" where
  "plan_node_of w prev n =
     (let rt = node_runtime n; perf = perf_get (cl_perf w) (nd_ID n)
      in \<lparr>pn_ID = nd_ID n, pn_Class = ClassOf (inv_RAMTotalBytes (nd_Inventory n)), pn_RAMTotalBytes = inv_RAMTotalBytes (nd_Inventory n),
          pn_Speed = (case rt of Some rt \<Rightarrow> rt_GenTPS rt | None \<Rightarrow> 0), pn_GenGBps = pf_GenGBps perf, pn_PromptGBps = pf_PromptGBps perf,
          pn_CurrentModel = currentModel rt,
          pn_Assigned = (case prev (nd_ID n) of Some a \<Rightarrow> if assigning (as_Reason a) then as_ModelID a else '''' | None \<Rightarrow> ''''),
          pn_Drained = snd (View (cl_reg w)) (nd_ID n), pn_BudgetBytes = (case rt of Some rt \<Rightarrow> rt_BudgetBytes rt | None \<Rightarrow> 0)\<rparr>)"

definition placement_node_of :: "cluster \<Rightarrow> node \<Rightarrow> placement_node" where
  "placement_node_of w n =
     (let rt = node_runtime n; perf = perf_get (cl_perf w) (nd_ID n)
      in \<lparr>pv_NodeID = nd_ID n, pv_Class = ClassOf (inv_RAMTotalBytes (nd_Inventory n)), pv_RAMTotalBytes = inv_RAMTotalBytes (nd_Inventory n),
          pv_CurrentModel = currentModel rt, pv_State = runtimeState rt,
          pv_Progress = (case rt of Some rt \<Rightarrow> rt_Progress rt | None \<Rightarrow> 0), pv_Error = (case rt of Some rt \<Rightarrow> rt_Error rt | None \<Rightarrow> ''''),
          pv_Drained = snd (View (cl_reg w)) (nd_ID n), pv_BudgetBytes = (case rt of Some rt \<Rightarrow> rt_BudgetBytes rt | None \<Rightarrow> 0),
          pv_PerfTier = PerfTierOf (pf_GenGBps perf), pv_GenGBps = pf_GenGBps perf, pv_PromptGBps = pf_PromptGBps perf\<rparr>)"

definition ready_models :: "catalog \<Rightarrow> plan_model list" where
  "ready_models c = map PlanModel (filter (\<lambda>m. cm_Status m = StatusReady) (List_models c))"

definition planInputs :: "cluster \<Rightarrow> (node_id \<rightharpoonup> assignment) \<Rightarrow> plan_node list \<times> plan_model list \<times> placement_node list" where
  "planInputs w prev =
     (let ns = filter (planned w) (fst (View (cl_reg w)))
      in (map (plan_node_of w prev) ns, ready_models (cl_cat w), map (placement_node_of w) ns))"

definition mark_benchmark :: "(node_id \<times> string) list \<Rightarrow> assignment \<Rightarrow> assignment" where
  "mark_benchmark ov a = (if map_of ov (as_NodeID a) = Some (as_ModelID a) then a\<lparr>as_Reason := ReasonBenchmark\<rparr> else a)"

definition effective_spec :: "placement \<Rightarrow> spec" where
  "effective_spec p = (if length (plc_overrides p) > 0 then withOverrides (plc_spec p) (plc_overrides p) else plc_spec p)"

definition Replan :: "cluster \<Rightarrow> cluster option" where
  "Replan w =
     (let p = cl_place w; (nodes, ready, view) = planInputs w (plc_byNode p)
      in map_option (\<lambda>plan.
           let rows = map (mark_benchmark (plc_overrides p)) (pl_Assignments plan)
           in w\<lparr>cl_place := p\<lparr>plc_plan := plan\<lparr>pl_Assignments := rows\<rparr>, plc_nodes := view,
                plc_byNode := foldl (\<lambda>f a. f(as_NodeID a \<mapsto> a)) (\<lambda>_. None) rows\<rparr>\<rparr>)
           (make_plan (cl_minTokS w) (effective_spec p) nodes ready))"

definition SetBenchmarkOverride :: "node_id \<Rightarrow> string \<Rightarrow> cluster \<Rightarrow> cluster option" where
  "SetBenchmarkOverride n m w =
     (let p = cl_place w
      in Replan (w\<lparr>cl_place := p\<lparr>plc_overrides := (if m = '''' then AList.delete n (plc_overrides p) else AList.update n m (plc_overrides p))\<rparr>\<rparr>))"

definition view :: "placement \<Rightarrow> placement_answer" where
  "view p = \<lparr>an_Policies = sc_Policies (plc_spec p), an_DefaultModel = sc_DefaultModel (plc_spec p), an_Plan = pl_Assignments (plc_plan p),
     an_Nodes = plc_nodes p, an_Warnings = pl_Warnings (plc_plan p)\<rparr>"

subsection \<open>What a node is told\<close>

definition zero_desired :: desired_runtime where
  "zero_desired = \<lparr>dr_ModelID = '''', dr_URL = '''', dr_SHA256 = '''', dr_SizeBytes = 0, dr_ResidentBytes = 0, dr_CtxSize = 0,
     dr_Slots = 0, dr_KVType = '''', dr_Layers = 0, dr_KVHeads = 0, dr_HeadDim = 0, dr_Mode = ''''\<rparr>"

definition PathModelFiles :: string where
  "PathModelFiles = ''/v1/model-files/''"

definition desired :: "cluster \<Rightarrow> node_id \<Rightarrow> desired_runtime option" where
  "desired w i =
     (case lends w i of
        (model, True) \<Rightarrow> Some (zero_desired\<lparr>dr_Mode := ModeRPC, dr_ModelID := model\<rparr>)
      | (model, False) \<Rightarrow>
          (case plc_byNode (cl_place w) i of
             None \<Rightarrow> None
           | Some a \<Rightarrow>
               if \<not> assigning (as_Reason a) then None
               else case File_model (cl_cat w) (as_ModelID a) of
                 None \<Rightarrow> None
               | Some (path, m) \<Rightarrow>
                   Some \<lparr>dr_ModelID = cm_ID m, dr_URL = PathModelFiles @ cm_ID m, dr_SHA256 = cm_SHA256 m, dr_SizeBytes = cm_SizeBytes m,
                     dr_ResidentBytes = cm_ResidentBytes m, dr_CtxSize = as_CtxSize a, dr_Slots = as_Slots a, dr_KVType = as_KVType a,
                     dr_Layers = cm_Layers m, dr_KVHeads = cm_KVHeads m, dr_HeadDim = cm_HeadDim m, dr_Mode = ''''\<rparr>))"

definition nodesServing :: "node list \<Rightarrow> string \<Rightarrow> nat" where
  "nodesServing nodes m =
     length (filter (\<lambda>n. nd_State n = StateActive \<and>
       (case node_runtime n of None \<Rightarrow> False | Some rt \<Rightarrow> rt_Ready rt \<and> currentModel (Some rt) = m)) nodes)"

subsection \<open>The admin handlers\<close>

text \<open>
  An answer is a status with what the body holds.  \<open>body\<close> is the decoded request, \<open>None\<close> when
  \<open>decodeStrict\<close> refused it.
\<close>

datatype model_answer =
    ModelStatus nat
  | ModelBody nat cat_model
  | ModelListBody "cat_model list"
  | PlacementBody placement_answer

definition withState :: "cluster \<Rightarrow> cat_model list \<Rightarrow> cat_model list" where
  "withState w ms =
     map (\<lambda>m. m\<lparr>cm_Default := (cm_ID m = sc_DefaultModel (plc_spec (cl_place w))),
                cm_NodesServing := int (nodesServing (fst (View (cl_reg w))) (cm_ID m))\<rparr>) ms"

definition adminModels :: "cluster \<Rightarrow> model_answer" where
  "adminModels w = ModelListBody (withState w (List_models (cl_cat w)))"

definition modelError :: "cat_error \<Rightarrow> model_answer" where
  "modelError err =
     (case err of
        ErrInvalid _ \<Rightarrow> ModelStatus 400
      | ErrExists _ _ \<Rightarrow> ModelStatus 409
      | ErrUnknownModel \<Rightarrow> ModelStatus 404
      | _ \<Rightarrow> ModelStatus 500)"

text \<open>A failed save of the catalog still leaves the model in it.\<close>

definition adminAddModel ::
  "(string \<Rightarrow> src_url option) \<Rightarrow> string \<Rightarrow> bool \<Rightarrow> string option \<Rightarrow> add_request option \<Rightarrow> cluster \<Rightarrow> model_answer \<times> cluster" where
  "adminAddModel purl hfBase ok tmp body w =
     (case body of
        None \<Rightarrow> (ModelStatus 400, w)
      | Some req \<Rightarrow>
          (case Add_model purl hfBase ok tmp req (cl_cat w) of
             (Inl err, c) \<Rightarrow> (modelError err, w\<lparr>cl_cat := c\<rparr>)
           | (Inr (m, saved), c) \<Rightarrow>
               (let w = w\<lparr>cl_cat := c\<rparr> in (ModelBody 202 (hd (withState w [m])), w))))"

text \<open>\<open>setDefault\<close>: the error is a failed write; the change stays.\<close>

definition setDefault :: "bool \<Rightarrow> string \<Rightarrow> bool \<Rightarrow> cluster \<Rightarrow> (bool \<times> cluster) option" where
  "setDefault ok i on w =
     (let p = cl_place w;
          change = (\<lambda>d. let (saved, p) = save ok (p\<lparr>plc_spec := (plc_spec p)\<lparr>sc_DefaultModel := d\<rparr>\<rparr>)
                        in map_option (\<lambda>w. (saved, w)) (Replan (w\<lparr>cl_place := p\<rparr>)))
      in if on then change i
         else if sc_DefaultModel (plc_spec p) = i then change ''''
         else Some (True, w))"

definition adminUpdateModel :: "bool \<Rightarrow> bool \<Rightarrow> string \<Rightarrow> cat_patch option \<Rightarrow> cluster \<Rightarrow> (model_answer \<times> cluster) option" where
  "adminUpdateModel cat_ok place_ok i body w =
     (case body of
        None \<Rightarrow> Some (ModelStatus 400, w)
      | Some p \<Rightarrow>
          (case Get_model (cl_cat w) i of
             None \<Rightarrow> Some (modelError ErrUnknownModel, w)
           | Some m0 \<Rightarrow>
               (let (res, c) = Update_model cat_ok i p (cl_cat w); w = w\<lparr>cl_cat := c\<rparr>
                in case res of
                     Inl err \<Rightarrow> Some (modelError err, w)
                   | Inr (m, False) \<Rightarrow> Some (ModelStatus 500, w)
                   | Inr (m, True) \<Rightarrow>
                       (case pt_Default p of
                          None \<Rightarrow> Some (ModelBody 200 (hd (withState w [m])), w)
                        | Some on \<Rightarrow>
                            map_option (\<lambda>(saved, w). if saved then (ModelBody 200 (hd (withState w [m])), w) else (ModelStatus 500, w))
                              (setDefault place_ok i on w)))))"

text \<open>The handler looks at the placement, lets go of its lock, and then removes the model.\<close>

definition placement_users :: "string \<Rightarrow> cluster \<Rightarrow> string list" where
  "placement_users i w =
     map (\<lambda>p. po_Mode p @ '' policy'') (filter (\<lambda>p. po_ModelID p = i) (sc_Policies (plc_spec (cl_place w)))) @
     (if sc_DefaultModel (plc_spec (cl_place w)) = i then [''default_model''] else [])"

definition delete_unused :: "bool \<Rightarrow> string \<Rightarrow> cluster \<Rightarrow> model_answer \<times> cluster" where
  "delete_unused ok i w =
     (case remove_locked ok i (cl_cat w) of
        (Inl err, c) \<Rightarrow> (modelError err, w\<lparr>cl_cat := c\<rparr>)
      | (Inr saved, c) \<Rightarrow>
          (let w = w\<lparr>cl_cat := remove_files (ct_dir c) i c\<rparr>
           in if saved then (ModelStatus 204, w) else (ModelStatus 500, w)))"

definition adminDeleteModel :: "bool \<Rightarrow> string \<Rightarrow> cluster \<Rightarrow> model_answer \<times> cluster" where
  "adminDeleteModel ok i w = (if length (placement_users i w) > 0 then (ModelStatus 409, w) else delete_unused ok i w)"

definition validatePlacement :: "cluster \<Rightarrow> spec \<Rightarrow> spec_error list" where
  "validatePlacement w sc = validate sc (map nd_ID (fst (View (cl_reg w)))) (map cm_ID (List_models (cl_cat w)))"

definition adminPlacement :: "cluster \<Rightarrow> model_answer" where
  "adminPlacement w = PlacementBody (view (cl_place w))"

definition adminSetPlacement :: "bool \<Rightarrow> spec option \<Rightarrow> cluster \<Rightarrow> (model_answer \<times> cluster) option" where
  "adminSetPlacement ok body w =
     (case body of
        None \<Rightarrow> Some (ModelStatus 400, w)
      | Some sc \<Rightarrow>
          if validatePlacement w sc \<noteq> [] then Some (ModelStatus 400, w)
          else
            (let p = cl_place w; old = plc_spec p; (saved, p) = save ok (p\<lparr>plc_spec := sc\<rparr>)
             in if \<not> saved then Some (ModelStatus 500, w\<lparr>cl_place := p\<lparr>plc_spec := old\<rparr>\<rparr>)
                else map_option (\<lambda>w. (adminPlacement w, w)) (Replan (w\<lparr>cl_place := p\<rparr>))))"

definition adminPreviewPlacement :: "spec option \<Rightarrow> cluster \<Rightarrow> model_answer option" where
  "adminPreviewPlacement body w =
     (case body of
        None \<Rightarrow> Some (ModelStatus 400)
      | Some sc \<Rightarrow>
          if validatePlacement w sc \<noteq> [] then Some (ModelStatus 400)
          else
            (let (nodes, ready, nv) = planInputs w (plc_byNode (cl_place w))
             in map_option (\<lambda>plan. PlacementBody (view ((cl_place w)\<lparr>plc_spec := sc, plc_plan := plan, plc_nodes := nv\<rparr>)))
                  (make_plan (cl_minTokS w) sc nodes ready)))"

record class_row =
  cr_ID :: string
  cr_Nodes :: nat
  cr_Models :: "string list"

definition adminDeviceClasses :: "cluster \<Rightarrow> class_row list \<times> class_row list" where
  "adminDeviceClasses w =
     (let ns = filter (\<lambda>n. nd_State n \<noteq> StateOffline) (fst (View (cl_reg w)));
          ms = List_models (cl_cat w)
      in (map (\<lambda>c. \<lparr>cr_ID = dc_ID c, cr_Nodes = length (filter (\<lambda>n. ClassOf (inv_RAMTotalBytes (nd_Inventory n)) = dc_ID c) ns),
                    cr_Models = map cm_ID (filter (\<lambda>m. dc_ID c \<in> set (cm_RecommendedClasses m)) ms)\<rparr>) Classes,
          map (\<lambda>t. \<lparr>cr_ID = pt_ID t, cr_Nodes = length (filter (\<lambda>n. PerfTierOf (pf_GenGBps (perf_get (cl_perf w) (nd_ID n))) = pt_ID t) ns),
                    cr_Models = map cm_ID (filter (\<lambda>m. pt_ID t \<in> set (cm_RecommendedTiers m)) ms)\<rparr>) PerfTiers))"

text \<open>The gauges at scrape time: planned nodes per model, and the model and state of every node.\<close>

definition planned_nodes :: "cluster \<Rightarrow> (string \<times> nat) list" where
  "planned_nodes w =
     (let as = filter (\<lambda>a. as_ModelID a \<noteq> '''') (pl_Assignments (plc_plan (cl_place w)))
      in map (\<lambda>m. (m, length (filter (\<lambda>a. as_ModelID a = m) as)))
           (remdups (map cm_ID (List_models (cl_cat w)) @ map as_ModelID as)))"

definition node_models :: "cluster \<Rightarrow> (node_id \<times> string \<times> string) list" where
  "node_models w =
     List.map_filter (\<lambda>n. if nd_State n = StateOffline then None
       else map_option (\<lambda>rt. (nd_ID n, currentModel (Some rt), runtimeState (Some rt))) (node_runtime n)) (fst (View (cl_reg w)))"

subsection \<open>Runs\<close>

text \<open>
  What happens to the cluster one step after the other: the handlers, a benchmark's overrides,
  replanning (at changes and periodically), the steps of the catalog's downloads, and whatever
  else the registry, the pools, the heads and the measurements do.
\<close>

inductive cluster_step :: "cluster \<Rightarrow> cluster \<Rightarrow> bool" where
  st_add: "adminAddModel purl hfBase ok tmp body w = (res, w') \<Longrightarrow> tmp \<noteq> Some '''' \<Longrightarrow> cluster_step w w'"
| st_update: "adminUpdateModel cat_ok place_ok i body w = Some (res, w') \<Longrightarrow> cluster_step w w'"
| st_delete: "adminDeleteModel ok i w = (res, w') \<Longrightarrow> cluster_step w w'"
| st_place: "adminSetPlacement ok body w = Some (res, w') \<Longrightarrow> cluster_step w w'"
| st_override: "SetBenchmarkOverride n m w = Some w' \<Longrightarrow> cluster_step w w'"
| st_replan: "Replan w = Some w' \<Longrightarrow> cluster_step w w'"
| st_attempt: "attempt_step env k r (cl_cat w) = (r', c) \<Longrightarrow> cluster_step w (w\<lparr>cl_cat := c\<rparr>)"
| st_hash: "hash_step sha read_meta r (cl_cat w) = (r', c) \<Longrightarrow> cluster_step w (w\<lparr>cl_cat := c\<rparr>)"
| st_finish: "finish_run rename_ok save_ok fr r (cl_cat w) = (r', c) \<Longrightarrow> cluster_step w (w\<lparr>cl_cat := c\<rparr>)"
| st_others: "reg_inv r \<Longrightarrow> cluster_step w (w\<lparr>cl_reg := r, cl_perf := pf, cl_bb := b, cl_pools := ps\<rparr>)"

definition cluster_start :: "cluster \<Rightarrow> bool" where
  "cluster_start w \<longleftrightarrow> reg_inv (cl_reg w) \<and> ct_models (cl_cat w) = [] \<and> plc_overrides (cl_place w) = [] \<and>
     plc_spec (cl_place w) = \<lparr>sc_Policies = [], sc_DefaultModel = ''''\<rparr>"

definition cluster_reach :: "cluster \<Rightarrow> bool" where
  "cluster_reach w \<longleftrightarrow> (\<exists>w0. cluster_start w0 \<and> cluster_step\<^sup>*\<^sup>* w0 w)"

text \<open>The catalog knows its models by their ids.\<close>

definition ids_ok :: "catalog \<Rightarrow> bool" where
  "ids_ok c \<longleftrightarrow> distinct (keys_of (ct_models c)) \<and> (\<forall>i e. map_of (ct_models c) i = Some e \<longrightarrow> cm_ID (ce_m e) = i \<and> i \<noteq> '''')"

definition cat_ids :: "catalog \<Rightarrow> string set" where
  "cat_ids c = set (keys_of (ct_models c))"

definition spec_ok :: "string set \<Rightarrow> spec \<Rightarrow> bool" where
  "spec_ok ids sc \<longleftrightarrow> distinct (pin_nodes (sc_Policies sc)) \<and>
     (\<forall>p \<in> set (sc_Policies sc). po_ModelID p \<in> ids \<and> (po_Mode p = ModeReplicas \<longrightarrow> 1 \<le> po_Replicas p)) \<and>
     (sc_DefaultModel sc = '''' \<or> sc_DefaultModel sc \<in> ids)"

definition cluster_ok :: "cluster \<Rightarrow> bool" where
  "cluster_ok w \<longleftrightarrow> reg_inv (cl_reg w) \<and> ids_ok (cl_cat w) \<and> spec_ok (cat_ids (cl_cat w)) (plc_spec (cl_place w)) \<and>
     distinct (keys_of (plc_overrides (cl_place w)))"

lemma spec_ok_mono: "spec_ok ids sc \<Longrightarrow> ids \<subseteq> ids' \<Longrightarrow> spec_ok ids' sc"
  by (auto simp: spec_ok_def)



lemma List_models_ids:
  assumes "ids_ok c"
  shows "set (map cm_ID (List_models c)) = cat_ids c"
proof -
  have "cm_ID (ce_m (snd x)) = fst x" if "x \<in> set (ct_models c)" for x
    using assms that map_of_is_SomeI [of "ct_models c" "fst x" "snd x"] unfolding ids_ok_def by auto
  then have "(\<lambda>x. cm_ID (ce_m (snd x))) ` set (ct_models c) = fst ` set (ct_models c)" by (intro image_cong) auto
  then show ?thesis by (simp add: List_models_def cat_ids_def Catalog.entry_view_ID image_image case_prod_beta)
qed

lemma ids_ok_nonempty: "ids_ok c \<Longrightarrow> '''' \<notin> cat_ids c"
  unfolding ids_ok_def cat_ids_def by (metis map_of_eq_None_iff not_None_eq list.set_map)

lemma validate_spec_ok:
  assumes "ids_ok (cl_cat w)" "validatePlacement w sc = []"
  shows "spec_ok (cat_ids (cl_cat w)) sc"
proof -
  have "'''' \<notin> set (map cm_ID (List_models (cl_cat w)))"
    using ids_ok_nonempty [OF assms(1)] List_models_ids [OF assms(1)] by simp
  from validate_of [OF assms(2) [unfolded validatePlacement_def] this] List_models_ids [OF assms(1)] show ?thesis
    by (auto simp: spec_ok_def policy_ok_def)
qed

text \<open>Replanning keeps everything but the plan, and does not panic on a valid specification.\<close>

definition planned_nodes_of :: "cluster \<Rightarrow> plan_node list" where
  "planned_nodes_of w = map (plan_node_of w (plc_byNode (cl_place w))) (filter (planned w) (fst (View (cl_reg w))))"

definition marked_rows :: "placement \<Rightarrow> plan \<Rightarrow> assignment list" where
  "marked_rows p plan = map (mark_benchmark (plc_overrides p)) (pl_Assignments plan)"

definition by_row :: "assignment list \<Rightarrow> node_id \<rightharpoonup> assignment" where
  "by_row rows = foldl (\<lambda>f a. f(as_NodeID a \<mapsto> a)) (\<lambda>_. None) rows"

lemma Replan_eq:
  "Replan w = map_option (\<lambda>plan. w\<lparr>cl_place := (cl_place w)\<lparr>plc_plan := plan\<lparr>pl_Assignments := marked_rows (cl_place w) plan\<rparr>,
       plc_nodes := map (placement_node_of w) (filter (planned w) (fst (View (cl_reg w)))), plc_byNode := by_row (marked_rows (cl_place w) plan)\<rparr>\<rparr>)
     (make_plan (cl_minTokS w) (effective_spec (cl_place w)) (planned_nodes_of w) (ready_models (cl_cat w)))"
  by (simp only: Replan_def planInputs_def Let_def prod.case planned_nodes_of_def marked_rows_def by_row_def)

lemma Replan_Some:
  assumes "Replan w = Some w'"
  obtains plan nv where "make_plan (cl_minTokS w) (effective_spec (cl_place w)) (planned_nodes_of w) (ready_models (cl_cat w)) = Some plan"
    and "w' = w\<lparr>cl_place := (cl_place w)\<lparr>plc_plan := plan\<lparr>pl_Assignments := marked_rows (cl_place w) plan\<rparr>,
       plc_nodes := nv, plc_byNode := by_row (marked_rows (cl_place w) plan)\<rparr>\<rparr>"
  using assms unfolding Replan_eq by (auto simp only: map_option_eq_Some)

lemma Replan_place:
  assumes "Replan w = Some w'"
  shows "cl_reg w' = cl_reg w" "cl_cat w' = cl_cat w" "cl_bb w' = cl_bb w" "cl_pools w' = cl_pools w" "cl_perf w' = cl_perf w" "cl_minTokS w' = cl_minTokS w"
    "plc_spec (cl_place w') = plc_spec (cl_place w)" "plc_overrides (cl_place w') = plc_overrides (cl_place w)"
    "plc_path (cl_place w') = plc_path (cl_place w)" "plc_file (cl_place w') = plc_file (cl_place w)"
  by (rule Replan_Some [OF assms], simp)+

lemma cluster_ok_Replan: "Replan w = Some w' \<Longrightarrow> cluster_ok w' = cluster_ok w"
  by (simp add: cluster_ok_def Replan_place)

lemma effective_policies:
  "p \<in> set (sc_Policies (effective_spec pl)) \<Longrightarrow> po_Mode p = ModePin \<or> p \<in> set (sc_Policies (plc_spec pl))"
  by (auto simp: effective_spec_def withOverrides_def override_pin_def override_policy_def List.map_filter_def Let_def split: if_splits)

lemma Replan_total:
  assumes "spec_ok ids (plc_spec (cl_place w))"
  shows "Replan w \<noteq> None"
proof -
  have "\<not> panicking_policy t ns ms p" if "p \<in> set (sc_Policies (effective_spec (cl_place w)))" for t ns ms p
    using effective_policies [OF that] assms by (auto simp: panicking_policy_def spec_ok_def)
  then have "make_plan t (effective_spec (cl_place w)) ns ms \<noteq> None" for t ns ms
    by (simp add: make_plan_None staged_None)
  then show ?thesis by (simp add: Replan_eq)
qed

subsection \<open>Every step keeps the placement sound\<close>

definition ids_grow :: "catalog \<Rightarrow> catalog \<Rightarrow> bool" where
  "ids_grow c c' \<longleftrightarrow> (ids_ok c \<longrightarrow> ids_ok c' \<and> cat_ids c \<subseteq> cat_ids c')"

lemma ids_grow_same: "ct_models c' = ct_models c \<Longrightarrow> ids_grow c c'"
  by (simp add: ids_grow_def ids_ok_def cat_ids_def)

lemma ids_grow_update:
  assumes "ct_models c' = AList.update i e (ct_models c)" "cm_ID (ce_m e) = i" "i \<noteq> ''''"
  shows "ids_grow c c'"
  using assms by (auto simp: ids_grow_def ids_ok_def cat_ids_def update_conv distinct_update dom_update)

text \<open>An entry that is replaced under its own id.\<close>

lemma ids_grow_entry:
  assumes "map_of (ct_models c) i = Some e" "cm_ID (ce_m e') = cm_ID (ce_m e)" "ct_models c' = AList.update i e' (ct_models c)"
  shows "ids_grow c c'"
  unfolding ids_grow_def
proof
  assume "ids_ok c"
  with assms(1) have "cm_ID (ce_m e) = i" "i \<noteq> ''''" by (auto simp: ids_ok_def)
  with ids_grow_update [OF assms(3)] assms(2) \<open>ids_ok c\<close> show "ids_ok c' \<and> cat_ids c \<subseteq> cat_ids c'" by (simp add: ids_grow_def)
qed

lemma ids_grow_counters: "ids_grow c (store_counters g i cs c)"
proof (cases "\<exists>a e. cs = Some a \<and> map_of (ct_models c) i = Some e \<and> ce_gen e = g")
  case True
  then obtain a b e where "cs = Some (a, b)" "map_of (ct_models c) i = Some e" "ce_gen e = g" by auto
  then show ?thesis
    by (intro ids_grow_entry [of _ i e "e\<lparr>ce_written := a, ce_total := b\<rparr>"]) (simp_all add: store_counters_def)
next
  case False
  then have "store_counters g i cs c = c"
    by (cases cs; cases "map_of (ct_models c) i") (simp_all add: store_counters_def case_prod_beta)
  then show ?thesis by (simp add: ids_grow_same)
qed

lemma ids_grow_store_counters: "ids_grow c (store_counters g i cs (c\<lparr>ct_fs := fs\<rparr>))"
proof -
  have "ids_ok (c\<lparr>ct_fs := fs\<rparr>) = ids_ok c" "cat_ids (c\<lparr>ct_fs := fs\<rparr>) = cat_ids c" by (simp_all add: ids_ok_def cat_ids_def)
  with ids_grow_counters [of "c\<lparr>ct_fs := fs\<rparr>" g i cs] show ?thesis unfolding ids_grow_def by metis
qed



lemma ids_grow_attempt:
  assumes "attempt_step env k r c = (r', c')"
  shows "ids_grow c c'"
proof -
  from attempt_catalog [OF assms] obtain part counters where
    "c' = store_counters (rn_gen r) (rn_id r) counters (c\<lparr>ct_fs := (ct_fs c)(partPath c (rn_id r) := part)\<rparr>)" .
  then show ?thesis by (rule ssubst) (rule ids_grow_store_counters)
qed

lemma ids_grow_hash: "hash_step sha rm r c = (r', c') \<Longrightarrow> ids_grow c c'"
  by (auto simp: hash_step_def file_remove_def intro!: ids_grow_same split: option.splits)

lemma rename_part_models: "rename_part ok i c = Some c' \<Longrightarrow> ct_models c' = ct_models c"
  by (auto simp: rename_part_def split: option.splits if_splits)

lemma ids_grow_finish:
  assumes "finish_run rok sok res r c = (r', c')"
  shows "ids_grow c c'"
proof (cases "c' = c")
  case True
  then show ?thesis by (simp add: ids_grow_same)
next
  case False
  with assms obtain e where e: "map_of (ct_models c) (rn_id r) = Some e" "ce_gen e = rn_gen r"
    by (auto simp: finish_run_def Let_def split: option.splits if_splits)
  have "\<exists>e'. cm_ID (ce_m e') = cm_ID (ce_m e) \<and> ct_models c' = AList.update (rn_id r) e' (ct_models c)"
    using assms e
    by (auto simp: finish_run_def Let_def rename_part_models split: sum.splits option.splits prod.splits)
      (rule exI, rule conjI [rotated], rule refl, simp)+
  then show ?thesis using ids_grow_entry [OF e(1)] by blast
qed

lemma ids_grow_add:
  assumes "Add_model purl hfBase ok tmp req c = (res, c')" "tmp \<noteq> Some ''''"
  shows "ids_grow c c'"
proof (cases res)
  case (Inl err)
  then show ?thesis using Add_model_Inl [of purl hfBase ok tmp req c err c'] assms(1) by (simp add: ids_grow_same)
next
  case (Inr ms)
  obtain m saved where "ms = (m, saved)" by (cases ms)
  with assms(1) Inr have "Add_model purl hfBase ok tmp req c = (Inr (m, saved), c')" by simp
  then obtain d e where "ValidID (cm_ID m)" "cm_ID (ce_m e) = cm_ID m"
    "c' = fst (saveLocked ok (startLocked (cm_ID m) e ((drop_stale_part (cm_ID m) (cm_Source (ce_m e)) c)\<lparr>ct_dir := d\<rparr>)))"
    using Add_model_Inr [OF _ assms(2)] by metis
  then show ?thesis
    by (intro ids_grow_update [where i = "cm_ID m" and e = "e\<lparr>ce_gen := ct_gen c, ce_cancel := True, ce_written := 0, ce_total := 0\<rparr>"])
      (auto simp: startLocked_def ValidID_def)
qed

lemma ids_grow_Update:
  assumes "Update_model ok i p c = (res, c')"
  shows "ids_grow c c'"
proof (cases "c' = c")
  case False
  with assms obtain e tags classes tiers where "map_of (ct_models c) i = Some e"
      "ct_models c' = AList.update i (e\<lparr>ce_m := patched p tags classes tiers (ce_m e)\<rparr>) (ct_models c)"
    by (auto simp: Update_model_def Let_def case_prod_beta split: sum.splits option.splits if_splits)
  then show ?thesis by (intro ids_grow_entry) simp_all
qed (simp add: ids_grow_same)

lemma cluster_ok_grow:
  assumes "cluster_ok w" "ids_grow (cl_cat w) (cl_cat w')" "cl_reg w' = cl_reg w" "plc_overrides (cl_place w') = plc_overrides (cl_place w)"
    "plc_spec (cl_place w') = plc_spec (cl_place w)"
  shows "cluster_ok w'"
  using assms spec_ok_mono by (auto simp: cluster_ok_def ids_grow_def)

lemma save_simps [simp]:
  "plc_spec (snd (save ok p)) = plc_spec p" "plc_overrides (snd (save ok p)) = plc_overrides p"
  by (simp_all add: save_def)

lemma cluster_ok_setDefault:
  assumes "setDefault ok i on w = Some (saved, w')" "cluster_ok w" "i \<in> cat_ids (cl_cat w)"
  shows "cluster_ok w'"
proof -
  let ?with = "\<lambda>d. w\<lparr>cl_place := snd (save ok ((cl_place w)\<lparr>plc_spec := (plc_spec (cl_place w))\<lparr>sc_DefaultModel := d\<rparr>\<rparr>))\<rparr>"
  have change: "cluster_ok w'" if "Replan (?with d) = Some w'" "d = '''' \<or> d = i" for d
    using cluster_ok_Replan [OF that(1)] assms(2,3) that(2) by (auto simp: cluster_ok_def spec_ok_def)
  consider (set) "Replan (?with i) = Some w'" | (clear) "Replan (?with '''') = Some w'" | (keep) "w' = w"
  proof (cases on)
    case True
    with assms(1) set show ?thesis by (simp add: setDefault_def Let_def case_prod_beta)
  next
    case False
    with assms(1) clear keep show ?thesis
      by (cases "sc_DefaultModel (plc_spec (cl_place w)) = i") (simp_all add: setDefault_def Let_def case_prod_beta)
  qed
  then show ?thesis using change assms(2) by cases blast+
qed

lemma cat_ids_mem: "i \<in> cat_ids c \<longleftrightarrow> map_of (ct_models c) i \<noteq> None"
  by (simp add: cat_ids_def map_of_eq_None_iff)

lemma cluster_ok_update:
  assumes "adminUpdateModel cat_ok place_ok i body w = Some (res, w')" "cluster_ok w"
  shows "cluster_ok w'"
proof (cases "w' = w")
  case False
  then obtain p where p: "body = Some p" using assms(1) by (cases body) (auto simp: adminUpdateModel_def)
  obtain m0 where m0: "Get_model (cl_cat w) i = Some m0" using assms(1) False p by (cases "Get_model (cl_cat w) i") (auto simp: adminUpdateModel_def)
  obtain r c where u: "Update_model cat_ok i p (cl_cat w) = (r, c)" by (cases "Update_model cat_ok i p (cl_cat w)")
  let ?w = "w\<lparr>cl_cat := c\<rparr>"
  have grow: "ids_grow (cl_cat w) c" by (rule ids_grow_Update [OF u])
  have ok: "cluster_ok ?w" by (rule cluster_ok_grow [OF assms(2)]) (simp_all add: grow)
  have "i \<in> cat_ids (cl_cat w)" using m0 by (auto simp: cat_ids_mem Get_model_def)
  then have i: "i \<in> cat_ids (cl_cat ?w)" using grow assms(2) by (auto simp: ids_grow_def cluster_ok_def)
  have "w' = ?w \<or> (\<exists>on saved. setDefault place_ok i on ?w = Some (saved, w'))"
    using assms(1) u m0 p by (cases r) (auto simp: adminUpdateModel_def Let_def split: option.splits bool.splits prod.splits if_splits)
  then show ?thesis using ok cluster_ok_setDefault [OF _ ok i] by blast
qed (use assms(2) in simp)

lemma cluster_ok_place:
  assumes "adminSetPlacement ok body w = Some (res, w')" "cluster_ok w"
  shows "cluster_ok w'"
proof (cases "\<exists>sc. body = Some sc \<and> validatePlacement w sc = []")
  case True
  then obtain sc where sc: "body = Some sc" "validatePlacement w sc = []" by blast
  have valid: "spec_ok (cat_ids (cl_cat w)) sc" using validate_spec_ok sc(2) assms(2) by (simp add: cluster_ok_def)
  let ?p = "save ok ((cl_place w)\<lparr>plc_spec := sc\<rparr>)"
  show ?thesis
  proof (cases "fst ?p")
    case False
    then have "w' = w\<lparr>cl_place := (snd ?p)\<lparr>plc_spec := plc_spec (cl_place w)\<rparr>\<rparr>"
      using assms(1) sc by (simp add: adminSetPlacement_def Let_def case_prod_beta)
    then show ?thesis using assms(2) by (simp add: cluster_ok_def)
  next
    case True
    then have "Replan (w\<lparr>cl_place := snd ?p\<rparr>) = Some w'"
      using assms(1) sc by (auto simp: adminSetPlacement_def Let_def case_prod_beta)
    from cluster_ok_Replan [OF this] assms(2) valid show ?thesis by (simp add: cluster_ok_def)
  qed
next
  case False
  then show ?thesis using assms by (auto simp: adminSetPlacement_def Let_def split: option.splits if_splits)
qed

lemma placement_users_none: "placement_users i w = [] \<longleftrightarrow>
    (\<forall>p \<in> set (sc_Policies (plc_spec (cl_place w))). po_ModelID p \<noteq> i) \<and> sc_DefaultModel (plc_spec (cl_place w)) \<noteq> i"
  by (auto simp: placement_users_def filter_empty_conv)

lemma cluster_ok_delete:
  assumes "adminDeleteModel ok i w = (res, w')" "cluster_ok w"
  shows "cluster_ok w'"
proof (cases "w' = w")
  case False
  then have none: "placement_users i w = []" and d: "delete_unused ok i w = (res, w')"
    using assms(1) by (auto simp: adminDeleteModel_def split: if_splits)
  from d False obtain saved c where r: "remove_locked ok i (cl_cat w) = (Inr saved, c)" and w': "w' = w\<lparr>cl_cat := remove_files (ct_dir c) i c\<rparr>"
    by (auto simp: delete_unused_def remove_locked_def Let_def split: prod.splits sum.splits option.splits if_splits)
  have models: "ct_models (cl_cat w') = AList.delete i (ct_models (cl_cat w))"
    using r by (auto simp: w' remove_files_def remove_locked_def Let_def case_prod_beta split: option.splits if_splits)
  have "ids_ok (cl_cat w')" "cat_ids (cl_cat w') = cat_ids (cl_cat w) - {i}"
    using assms(2) models distinct_delete [of "ct_models (cl_cat w)" i]
    by (auto simp: cluster_ok_def ids_ok_def cat_ids_def delete_conv' delete_keys split: if_splits)
  moreover have "spec_ok (cat_ids (cl_cat w) - {i}) (plc_spec (cl_place w))"
    using assms(2) none by (auto simp: cluster_ok_def spec_ok_def placement_users_none)
  ultimately show ?thesis using assms(2) w' by (simp add: cluster_ok_def)
qed (use assms(2) in simp)

lemma cluster_ok_step: "cluster_step w w' \<Longrightarrow> cluster_ok w \<Longrightarrow> cluster_ok w'"
proof (induction rule: cluster_step.induct)
  case (st_add purl hfBase ok tmp body w res w')
  have "\<exists>c. w' = w\<lparr>cl_cat := c\<rparr> \<and> ids_grow (cl_cat w) c"
  proof (cases body)
    case None
    with st_add(1) show ?thesis by (intro exI [of _ "cl_cat w"]) (simp add: adminAddModel_def ids_grow_same)
  next
    case (Some req)
    obtain r c where a: "Add_model purl hfBase ok tmp req (cl_cat w) = (r, c)" by (cases "Add_model purl hfBase ok tmp req (cl_cat w)")
    with Some st_add(1) have "w' = w\<lparr>cl_cat := c\<rparr>" by (auto simp: adminAddModel_def Let_def split: sum.splits prod.splits)
    with ids_grow_add [OF a st_add(2)] show ?thesis by blast
  qed
  then show ?case using cluster_ok_grow [OF st_add(3)] by auto
next
  case (st_override n m w w')
  have "cluster_ok (w\<lparr>cl_place := (cl_place w)\<lparr>plc_overrides := ov\<rparr>\<rparr>)" if "distinct (keys_of ov)" for ov
    using st_override(2) that by (simp add: cluster_ok_def)
  moreover have "distinct (keys_of (plc_overrides (cl_place w)))" using st_override(2) by (simp add: cluster_ok_def)
  ultimately show ?case
    using cluster_ok_Replan [OF st_override(1) [unfolded SetBenchmarkOverride_def Let_def]] by (simp add: distinct_update distinct_delete)
next
  case (st_attempt env k r w r' c)
  show ?case by (rule cluster_ok_grow [OF st_attempt(2)]) (simp_all add: ids_grow_attempt [OF st_attempt(1)])
next
  case (st_hash sha read_meta r w r' c)
  show ?case by (rule cluster_ok_grow [OF st_hash(2)]) (simp_all add: ids_grow_hash [OF st_hash(1)])
next
  case (st_finish rename_ok save_ok fr r w r' c)
  show ?case by (rule cluster_ok_grow [OF st_finish(2)]) (simp_all add: ids_grow_finish [OF st_finish(1)])
next
  case (st_others r w pf b ps)
  then show ?case by (simp add: cluster_ok_def)
qed (auto simp: cluster_ok_Replan intro: cluster_ok_update cluster_ok_delete cluster_ok_place)

lemma cluster_reach_ok:
  assumes "cluster_reach w"
  shows "cluster_ok w"
proof -
  from assms obtain w0 where "cluster_start w0" "cluster_step\<^sup>*\<^sup>* w0 w" by (auto simp: cluster_reach_def)
  from this(2) show ?thesis
  proof (induction rule: rtranclp_induct)
    case base
    with \<open>cluster_start w0\<close> show ?case by (simp add: cluster_start_def cluster_ok_def ids_ok_def spec_ok_def pin_nodes_def)
  qed (rule cluster_ok_step)
qed

subsection \<open>The plan a node is told from\<close>

lemma by_row_eq: "by_row rows = map_of (map (\<lambda>a. (as_NodeID a, a)) (rev rows))"
proof -
  have "foldl (\<lambda>f a. f(as_NodeID a \<mapsto> a)) g rows = g ++ map_of (map (\<lambda>a. (as_NodeID a, a)) (rev rows))" for g
    by (induction rows arbitrary: g) (simp_all add: map_add_def fun_eq_iff split: option.split)
  from this [of "\<lambda>_. None"] show ?thesis by (simp add: by_row_def map_add_def fun_eq_iff split: option.split)
qed

lemma by_row_Some: "by_row rows i = Some a \<Longrightarrow> a \<in> set rows \<and> as_NodeID a = i"
  by (auto simp: by_row_eq dest!: map_of_SomeD)

lemma by_row_distinct: "distinct (map as_NodeID rows) \<Longrightarrow> a \<in> set rows \<Longrightarrow> by_row rows (as_NodeID a) = Some a"
  unfolding by_row_eq by (rule map_of_is_SomeI) (auto simp: rev_map [symmetric] comp_def)

lemma mark_benchmark_simps [simp]: "as_NodeID (mark_benchmark ov a) = as_NodeID a" "as_ModelID (mark_benchmark ov a) = as_ModelID a"
  by (simp_all add: mark_benchmark_def)

lemma planned_nodes_IDs:
  assumes "reg_inv (cl_reg w)"
  shows "distinct (map pn_ID (planned_nodes_of w))"
proof -
  have "map pn_ID (planned_nodes_of w) = map nd_ID (filter (planned w) (Snapshot (cl_reg w)))"
    by (simp add: planned_nodes_of_def View_def plan_node_of_def Let_def)
  then show ?thesis using distinct_Snapshot [OF assms] by (simp add: distinct_map_filter)
qed

text \<open>The rows of a replan: one per planned node, each with its reason.\<close>

lemma Replan_rows:
  assumes "Replan w = Some w'" "reg_inv (cl_reg w)"
  obtains plan where "make_plan (cl_minTokS w) (effective_spec (cl_place w)) (planned_nodes_of w) (ready_models (cl_cat w)) = Some plan"
    "plc_byNode (cl_place w') = by_row (marked_rows (cl_place w) plan)" "distinct (map as_NodeID (marked_rows (cl_place w) plan))"
    "\<And>a. a \<in> set (pl_Assignments plan) \<Longrightarrow> \<exists>n \<in> set (planned_nodes_of w). as_NodeID a = pn_ID n \<and>
       row_justified (cl_minTokS w) (effective_spec (cl_place w)) (ready_models (cl_cat w)) n a"
proof -
  from Replan_Some [OF assms(1)] obtain plan nv where p: "make_plan (cl_minTokS w) (effective_spec (cl_place w)) (planned_nodes_of w) (ready_models (cl_cat w)) = Some plan"
    and w': "w' = w\<lparr>cl_place := (cl_place w)\<lparr>plc_plan := plan\<lparr>pl_Assignments := marked_rows (cl_place w) plan\<rparr>,
       plc_nodes := nv, plc_byNode := by_row (marked_rows (cl_place w) plan)\<rparr>\<rparr>" .
  have ids: "map as_NodeID (pl_Assignments plan) = sort (map pn_ID (planned_nodes_of w))"
    and rows: "list_all2 (row_justified (cl_minTokS w) (effective_spec (cl_place w)) (ready_models (cl_cat w))) (sort_key pn_ID (planned_nodes_of w)) (pl_Assignments plan)"
    using plan_rows [OF p planned_nodes_IDs [OF assms(2)]] by auto
  have row_id: "as_NodeID a = pn_ID n" if "row_justified t sc ms n a" for t sc ms n a
    using that by (auto simp: row_justified_def)
  show thesis
  proof (rule that [OF p])
    show "plc_byNode (cl_place w') = by_row (marked_rows (cl_place w) plan)" by (simp add: w')
    show "distinct (map as_NodeID (marked_rows (cl_place w) plan))"
      using ids planned_nodes_IDs [OF assms(2)] by (simp add: marked_rows_def comp_def)
    show "\<exists>n \<in> set (planned_nodes_of w). as_NodeID a = pn_ID n \<and>
       row_justified (cl_minTokS w) (effective_spec (cl_place w)) (ready_models (cl_cat w)) n a" if "a \<in> set (pl_Assignments plan)" for a
    proof -
      from that obtain k where k: "k < length (pl_Assignments plan)" "a = pl_Assignments plan ! k" by (auto simp: in_set_conv_nth)
      let ?n = "sort_key pn_ID (planned_nodes_of w) ! k"
      have "?n \<in> set (planned_nodes_of w)" "row_justified (cl_minTokS w) (effective_spec (cl_place w)) (ready_models (cl_cat w)) ?n a"
        using rows k nth_mem [of k "sort_key pn_ID (planned_nodes_of w)"] by (auto simp: list_all2_conv_all_nth)
      with row_id show ?thesis by blast
    qed
  qed
qed

lemma pin_nodes_overrides: "pin_nodes (List.map_filter (override_policy ov) ps) = filter (\<lambda>n. n \<notin> set (keys_of ov)) (pin_nodes ps)"
  by (induction ps) (auto simp: pin_nodes_def List.map_filter_simps override_policy_def Let_def split: option.split)

lemma pin_nodes_pins: "pin_nodes (map (override_pin ov) ns) = ns"
  by (induction ns) (simp_all add: pin_nodes_def override_pin_def)

lemma distinct_effective_pins:
  assumes "distinct (pin_nodes (sc_Policies (plc_spec p)))" "distinct (keys_of (plc_overrides p))"
  shows "distinct (pin_nodes (sc_Policies (effective_spec p)))"
proof -
  have "pin_nodes (xs @ ys) = pin_nodes xs @ pin_nodes ys" for xs ys by (simp add: pin_nodes_def)
  with assms show ?thesis by (auto simp: effective_spec_def withOverrides_def pin_nodes_overrides pin_nodes_pins)
qed

text \<open>A model that is ready is one the planner can place.\<close>

lemma ready_by_model:
  assumes "ids_ok c" "File_model c m = Some (path, md)"
  obtains pm where "by_model (ready_models c) m = Some pm" "pm_ID pm = m"
proof -
  from assms(2) obtain e where e: "map_of (ct_models c) m = Some e" "cm_Status (ce_m e) = StatusReady"
    by (auto simp: File_model_def split: option.splits if_splits)
  then have "cm_ID (ce_m e) = m" using assms(1) by (simp add: ids_ok_def)
  moreover have "entry_view e \<in> set (List_models c)" using e(1) by (force simp: List_models_def dest: map_of_SomeD)
  moreover have "cm_Status (entry_view e) = StatusReady" using e(2) by (simp add: entry_view_def Let_def)
  ultimately have "PlanModel (entry_view e) \<in> set (ready_models c)" "pm_ID (PlanModel (entry_view e)) = m"
    unfolding ready_models_def by (simp, simp add: PlanModel_def Catalog.entry_view_ID)
  then have "m \<in> fst ` set (map (\<lambda>m. (pm_ID m, m)) (rev (ready_models c)))" by (auto simp: image_image)
  then have "by_model (ready_models c) m \<noteq> None" by (metis by_model_eq map_of_eq_None_iff)
  with by_model_Some that show thesis by blast
qed

lemma override_told:
  assumes "cluster_reach w" "SetBenchmarkOverride n m w = Some w'" "m \<noteq> ''''"
    and "File_model (cl_cat w) m = Some (path, md)" "nd \<in> set (Snapshot (cl_reg w))" "nd_ID nd = n" "planned w nd"
  shows "\<exists>d a. desired w' n = Some d \<and> dr_ModelID d = m \<and> plc_byNode (cl_place w') n = Some a \<and> as_Reason a = ReasonBenchmark"
proof -
  let ?ov = "AList.update n m (plc_overrides (cl_place w))"
  let ?w = "w\<lparr>cl_place := (cl_place w)\<lparr>plc_overrides := ?ov\<rparr>\<rparr>"
  have ok: "cluster_ok w" by (rule cluster_reach_ok [OF assms(1)])
  then have inv: "reg_inv (cl_reg ?w)" "ids_ok (cl_cat w)" "distinct (keys_of ?ov)" "distinct (pin_nodes (sc_Policies (plc_spec (cl_place w))))"
    by (simp_all add: cluster_ok_def spec_ok_def distinct_update)
  have r: "Replan ?w = Some w'" using assms(2,3) by (simp add: SetBenchmarkOverride_def Let_def)
  have ov: "map_of ?ov n = Some m" "?ov \<noteq> []" by (simp add: update_conv') (cases "plc_overrides (cl_place w)", auto)
  obtain pm where pm: "by_model (ready_models (cl_cat w)) m = Some pm" "pm_ID pm = m" by (rule ready_by_model [OF inv(2) assms(4)])
  obtain plan where plan: "make_plan (cl_minTokS ?w) (effective_spec (cl_place ?w)) (planned_nodes_of ?w) (ready_models (cl_cat ?w)) = Some plan"
    "plc_byNode (cl_place w') = by_row (marked_rows (cl_place ?w) plan)" "distinct (map as_NodeID (marked_rows (cl_place ?w) plan))"
    by (rule Replan_rows [OF r inv(1)])
  let ?pn = "plan_node_of ?w (plc_byNode (cl_place w)) nd"
  have "planned ?w nd" "lends ?w = lends w" using assms(7) by (simp_all add: planned_def lends_def fun_eq_iff)
  then have pn: "?pn \<in> set (planned_nodes_of ?w)" "pn_ID ?pn = n"
    using assms(5,6) by (auto simp: planned_nodes_of_def View_def plan_node_of_def Let_def)
  have p: "override_pin ?ov n \<in> set (sc_Policies (effective_spec (cl_place ?w)))" "po_ModelID (override_pin ?ov n) = m"
    "po_Mode (override_pin ?ov n) = ModePin" "po_Nodes (override_pin ?ov n) = [n]"
    using ov by (auto simp: effective_spec_def withOverrides_def override_pin_def dom_update)
  have "mk_assignment ?pn pm ReasonPin \<in> set (pl_Assignments plan)"
    by (rule pinned_row [OF plan(1) planned_nodes_IDs [OF inv(1)] _ _ p(1,3)])
      (use distinct_effective_pins [of "cl_place ?w"] inv(3,4) pm p pn assms(3) in simp_all)
  then have row: "mark_benchmark ?ov (mk_assignment ?pn pm ReasonPin) \<in> set (marked_rows (cl_place ?w) plan)" by (simp add: marked_rows_def)
  from by_row_distinct [OF plan(3) row] have a: "plc_byNode (cl_place w') n = Some ((mk_assignment ?pn pm ReasonPin)\<lparr>as_Reason := ReasonBenchmark\<rparr>)"
    using pn(2) pm(2) ov(1) by (simp add: plan(2) mark_benchmark_def)
  have "\<not> snd (lends w' n)" using Replan_place [OF r] assms(6,7) by (simp add: lends_def planned_def)
  moreover have "cm_ID md = m"
    using assms(4) inv(2) by (auto simp: File_model_def ids_ok_def Catalog.entry_view_ID split: option.splits if_splits)
  ultimately show ?thesis
    using a assms(4) pm(2) Replan_place(2) [OF r] by (cases "lends w' n") (simp add: desired_def assigning_def)
qed

text \<open>
  A benchmark's override wins: after it is set, a node that is planned at all is told to run
  exactly the override's model, when the catalog has it ready, whatever the policies, the default
  model, the memory, the drained flag and the earlier overrides say.
\<close>

theorem override_wins:
  assumes "cluster_reach w" "SetBenchmarkOverride n m w = Some w'" "m \<noteq> ''''"
    and "File_model (cl_cat w) m = Some (path, md)" "nd \<in> set (Snapshot (cl_reg w))" "nd_ID nd = n" "planned w nd"
  shows "\<exists>d a. desired w' n = Some d \<and> dr_ModelID d = m \<and> plc_byNode (cl_place w') n = Some a \<and> as_Reason a = ReasonBenchmark"
  by (rule override_told [OF assms])

text \<open>Where a row of the effective specification comes from.\<close>

lemma effective_pin:
  assumes "p \<in> set (sc_Policies (effective_spec pl))" "po_Mode p = ModePin" "i \<in> set (po_Nodes p)" "distinct (keys_of (plc_overrides pl))"
  shows "map_of (plc_overrides pl) i = Some (po_ModelID p) \<or>
    (\<exists>q \<in> set (sc_Policies (plc_spec pl)). po_Mode q = ModePin \<and> po_ModelID q = po_ModelID p \<and> i \<in> set (po_Nodes q))"
proof (cases "p \<in> set (sc_Policies (plc_spec pl))")
  case False
  with assms(1) have ov: "p \<in> override_pin (plc_overrides pl) ` set (keys_of (plc_overrides pl)) \<or>
      (\<exists>q \<in> set (sc_Policies (plc_spec pl)). override_policy (plc_overrides pl) q = Some p)"
    by (auto simp: effective_spec_def withOverrides_def List.map_filter_def split: if_splits)
  then show ?thesis
  proof
    assume "p \<in> override_pin (plc_overrides pl) ` set (keys_of (plc_overrides pl))"
    then obtain n m where "map_of (plc_overrides pl) n = Some m" "p = override_pin (plc_overrides pl) n"
      using assms(4) by (metis imageE map_of_eq_None_iff not_None_eq list.set_map)
    with assms(3) show ?thesis by (simp add: override_pin_def)
  next
    assume "\<exists>q \<in> set (sc_Policies (plc_spec pl)). override_policy (plc_overrides pl) q = Some p"
    with assms(2,3) show ?thesis by (auto simp: override_policy_def Let_def split: if_splits)
  qed
qed (use assms in blast)

text \<open>
  Why node \<open>i\<close> may be told \<open>model\<close>: it is its benchmark override, the model of a policy, or the
  default model; and on a drained node it is its override or what a pin names for it.
\<close>

definition told_why :: "cluster \<Rightarrow> node_id \<Rightarrow> string \<Rightarrow> bool" where
  "told_why w i model \<longleftrightarrow>
     map_of (plc_overrides (cl_place w)) i = Some model \<or>
     (\<exists>p \<in> set (sc_Policies (plc_spec (cl_place w))). po_ModelID p = model \<and>
        (po_Mode p = ModePin \<and> i \<in> set (po_Nodes p) \<or> i \<notin> set (rg_drained (cl_reg w)))) \<or>
     model = sc_DefaultModel (plc_spec (cl_place w)) \<and> i \<notin> set (rg_drained (cl_reg w))"

lemma row_told:
  assumes just: "row_justified t (effective_spec (cl_place w)) ms pn a" and n: "pn_ID pn = i" "pn_Drained pn \<longleftrightarrow> i \<in> set (rg_drained (cl_reg w))"
    and asg: "assigning (as_Reason (mark_benchmark (plc_overrides (cl_place w)) a))" and d: "distinct (keys_of (plc_overrides (cl_place w)))"
  shows "told_why w i (as_ModelID a)"
proof (cases "map_of (plc_overrides (cl_place w)) (as_NodeID a) = Some (as_ModelID a)")
  case True
  with just n(1) show ?thesis by (auto simp: told_why_def row_justified_def)
next
  case False
  with asg have r: "assigning (as_Reason a)" by (simp add: mark_benchmark_def)
  from just consider (pin) p m where "p \<in> set (sc_Policies (effective_spec (cl_place w)))" "po_Mode p = ModePin" "by_model ms (po_ModelID p) = Some m"
      "i \<in> set (po_Nodes p)" "a = mk_assignment pn m ReasonPin"
    | (policy) p m where "p \<in> set (sc_Policies (effective_spec (cl_place w)))" "po_Mode p \<in> {ModeReplicas, ModePercent}" "by_model ms (po_ModelID p) = Some m"
      "\<not> pn_Drained pn" "a = mk_assignment pn m (po_Mode p)"
    | (default) m where "by_model ms (sc_DefaultModel (effective_spec (cl_place w))) = Some m" "\<not> pn_Drained pn" "a = mk_assignment pn m ReasonDefault"
    | (keep) "a = keep_row (by_model ms) pn"
    unfolding row_justified_def n(1) eligible_def by blast
  then show ?thesis
  proof cases
    case pin
    then show ?thesis using effective_pin [OF pin(1,2,4) d] by_model_Some [OF pin(3)] by (auto simp: told_why_def)
  next
    case policy
    then have "p \<in> set (sc_Policies (plc_spec (cl_place w)))" using effective_policies by fastforce
    then show ?thesis using policy(4,5) by_model_Some [OF policy(3)] n(2) by (auto simp: told_why_def)
  next
    case default
    then show ?thesis using by_model_Some [OF default(1)] n(2) by (simp add: told_why_def effective_spec_def withOverrides_def split: if_splits)
  next
    case keep
    with r show ?thesis by (simp add: assigning_def keep_row_def Let_def split: option.splits if_splits)
  qed
qed



text \<open>
  The handlers are not atomic: one that deletes a model lets go of the placement's lock before it
  removes it, so a placement stored in between keeps naming a model that is gone.
\<close>

lemma delete_race:
  assumes "cluster_ok w" "placement_users i w = []" "adminSetPlacement True (Some sc) w = Some (res, w1)"
    and "validatePlacement w sc = []" "sc_DefaultModel sc = i" "i \<noteq> ''''" "delete_unused ok i w1 = (res', w2)"
  shows "sc_DefaultModel (plc_spec (cl_place w2)) = i \<and> i \<notin> cat_ids (cl_cat w2)"
proof -
  have "spec_ok (cat_ids (cl_cat w)) sc" using validate_spec_ok assms(1,4) by (simp add: cluster_ok_def)
  then have i: "i \<in> cat_ids (cl_cat w)" using assms(5,6) by (simp add: spec_ok_def)
  let ?w = "w\<lparr>cl_place := snd (save True ((cl_place w)\<lparr>plc_spec := sc\<rparr>))\<rparr>"
  have "fst (save True p)" for p by (simp add: save_def)
  then have r: "Replan ?w = Some w1" using assms(3,4) by (auto simp: adminSetPlacement_def Let_def case_prod_beta)
  have w1: "sc_DefaultModel (plc_spec (cl_place w1)) = i" "cl_cat w1 = cl_cat w" using Replan_place [OF r] assms(5) by simp_all
  from i obtain e where "map_of (ct_models (cl_cat w1)) i = Some e" by (auto simp: cat_ids_mem w1(2))
  with assms(7) obtain c where "w2 = w1\<lparr>cl_cat := c\<rparr>" "ct_models c = AList.delete i (ct_models (cl_cat w1))"
    by (auto simp: delete_unused_def remove_locked_def remove_files_def Let_def case_prod_beta split: if_splits)
  with w1(1) show ?thesis by (simp add: cat_ids_def delete_keys)
qed

text \<open>A default model that could not be stored stays the default until the restart.\<close>

lemma failed_default_stays:
  assumes "plc_path (cl_place w)" "setDefault False i True w = Some (saved, w')"
  shows "\<not> saved \<and> sc_DefaultModel (plc_spec (cl_place w')) = i \<and> plc_file (cl_place w') = plc_file (cl_place w)"
proof -
  from assms have "Replan (w\<lparr>cl_place := (cl_place w)\<lparr>plc_spec := (plc_spec (cl_place w))\<lparr>sc_DefaultModel := i\<rparr>\<rparr>\<rparr>) = Some w'" "\<not> saved"
    by (auto simp: setDefault_def save_def Let_def)
  with Replan_place [OF this(1)] show ?thesis by simp
qed

text \<open>
  A preview tells what storing the placement would do: when no benchmark runs and the file can
  be written, the handler that stores a specification answers with exactly the policies, plan,
  nodes and warnings the preview of it answers with in the same state.
\<close>

theorem preview_is_faithful:
  assumes "plc_overrides (cl_place w) = []" "adminSetPlacement True (Some sc) w = Some (res, w')"
  shows "adminPreviewPlacement (Some sc) w = Some res"
proof (cases "validatePlacement w sc = []")
  case True
  let ?w = "w\<lparr>cl_place := snd (save True ((cl_place w)\<lparr>plc_spec := sc\<rparr>))\<rparr>"
  have "fst (save True p)" for p by (simp add: save_def)
  then have r: "Replan ?w = Some w'" "res = adminPlacement w'"
    using assms(2) True by (auto simp: adminSetPlacement_def Let_def case_prod_beta)
  have same: "planned (w\<lparr>cl_place := p\<rparr>) = planned w" "plan_node_of (w\<lparr>cl_place := p\<rparr>) = plan_node_of w"
    "placement_node_of (w\<lparr>cl_place := p\<rparr>) = placement_node_of w" for p
    by (simp_all add: fun_eq_iff planned_def lends_def plan_node_of_def placement_node_of_def Let_def)
  have eff: "effective_spec ((cl_place w)\<lparr>plc_spec := sc\<rparr>) = sc" "effective_spec ((cl_place w)\<lparr>plc_spec := sc, plc_file := f\<rparr>) = sc" for f
    using assms(1) by (simp_all add: effective_spec_def)
  have id: "mark_benchmark [] = id" by (simp add: fun_eq_iff mark_benchmark_def)
  show ?thesis
    using r True assms(1)
    by (auto simp: Replan_eq adminPreviewPlacement_def planInputs_def planned_nodes_of_def same eff Let_def adminPlacement_def view_def marked_rows_def id save_def)
next
  case False
  then show ?thesis using assms(2) by (auto simp: adminSetPlacement_def adminPreviewPlacement_def)
qed

subsection \<open>Examples\<close>

definition placed0 :: cluster where
  "placed0 = \<lparr>cl_reg = sample_serving, cl_perf = (\<lambda>_. None), cl_cat = cat0, cl_bb = newBigBrains \<lparr>bo_HeadBin = '''', bo_BasePort = 0, bo_Host = ''h''\<rparr>,
     cl_pools = [], cl_minTokS = 0, cl_place = \<lparr>plc_path = True, plc_file = None, plc_spec = \<lparr>sc_Policies = [], sc_DefaultModel = ''''\<rparr>,
       plc_plan = \<lparr>pl_Assignments = [], pl_Warnings = []\<rparr>, plc_nodes = [], plc_byNode = (\<lambda>_. None), plc_overrides = []\<rparr>\<rparr>"

definition run1 :: run where "run1 = start_run sample_purl '''' (the (map_of (ct_models cat1) ''m''))"
definition att1 :: "run \<times> catalog" where "att1 = attempt_step sample_fetch 1 run1 cat1"
definition hash1 :: "run \<times> catalog" where "hash1 = hash_step (\<lambda>s. s) (\<lambda>_. Some sample_meta) (fst att1) (snd att1)"
definition fin1 :: "run \<times> catalog" where "fin1 = finish_run True True (Inr (''GGUF'', 4, sample_meta)) (fst hash1) (snd hash1)"

definition placed1 :: cluster where
  "placed1 = placed0\<lparr>cl_cat := snd fin1\<rparr>"

lemma placed1_facts:
  "rn_id (fst hash1) = ''m''" "map_option ce_gen (map_of (ct_models (snd hash1)) ''m'') = Some (rn_gen (fst hash1))"
  "ct_fs (snd hash1) (partPath (snd hash1) ''m'') \<noteq> None" "ct_dir (snd hash1) = ''d''"
  by code_simp+

lemma adminAddModel_cat:
  "snd (adminAddModel purl hfBase ok tmp (Some req) w) = w\<lparr>cl_cat := snd (Add_model purl hfBase ok tmp req (cl_cat w))\<rparr>"
  by (simp add: adminAddModel_def Let_def split: sum.split prod.split)

lemma placed1_reach: "cluster_reach placed1"
proof -
  have "reg_inv sample_serving" using sample_reachable reachable_inv by blast
  then have s: "cluster_start placed0" by (simp add: cluster_start_def placed0_def cat0_def empty_catalog_def)
  let ?req = "\<lparr>ar_Source = ''file:///m.gguf'', ar_ID = ''m'', ar_Name = '''', ar_Tags = [], ar_RecommendedClasses = [], ar_RecommendedTiers = []\<rparr>"
  have "cl_cat placed0 = cat0" by (simp add: placed0_def)
  then have "snd (adminAddModel sample_purl '''' True None (Some ?req) placed0) = placed0\<lparr>cl_cat := cat1\<rparr>"
    unfolding adminAddModel_cat cat1_def sample_add_def by simp
  then have "cluster_step placed0 (placed0\<lparr>cl_cat := cat1\<rparr>)" by (intro st_add [where tmp = None]) (auto simp: prod_eq_iff)
  moreover have "cluster_step (placed0\<lparr>cl_cat := cat1\<rparr>) (placed0\<lparr>cl_cat := snd att1\<rparr>)"
    using st_attempt [of sample_fetch 1 run1 "placed0\<lparr>cl_cat := cat1\<rparr>" "fst att1" "snd att1"] by (simp add: att1_def)
  moreover have "cluster_step (placed0\<lparr>cl_cat := snd att1\<rparr>) (placed0\<lparr>cl_cat := snd hash1\<rparr>)"
    using st_hash [of "\<lambda>s. s" "\<lambda>_. Some sample_meta" "fst att1" "placed0\<lparr>cl_cat := snd att1\<rparr>" "fst hash1" "snd hash1"] by (simp add: hash1_def)
  moreover have "cluster_step (placed0\<lparr>cl_cat := snd hash1\<rparr>) placed1"
    using st_finish [of True True "Inr (''GGUF'', 4, sample_meta)" "fst hash1" "placed0\<lparr>cl_cat := snd hash1\<rparr>" "fst fin1" "snd fin1"]
    by (simp add: fin1_def placed1_def)
  ultimately have "cluster_step\<^sup>*\<^sup>* placed0 placed1" by (meson converse_rtranclp_into_rtranclp r_into_rtranclp)
  with s show ?thesis by (auto simp: cluster_reach_def)
qed

lemma placed1_ready: "\<exists>md. File_model (cl_cat placed1) ''m'' = Some (filePath (snd fin1) ''m'', md)"
proof -
  obtain e where "map_of (ct_models (snd hash1)) (rn_id (fst hash1)) = Some e" "ce_gen e = rn_gen (fst hash1)"
    using placed1_facts(1,2) by auto
  from finish_ready [OF this, of True "''GGUF''" 4 sample_meta] placed1_facts(1,3,4) show ?thesis
    unfolding fin1_def placed1_def by (auto simp: File_model_def)
qed

lemma placed1_node: "\<exists>nd \<in> set (Snapshot sample_serving). nd_ID nd = ''a'' \<and> nd_State nd = StateActive"
  by (simp add: Snapshot_def sample_reg_defs)

lemma placed1_planned:
  assumes "nd_State nd = StateActive"
  shows "planned placed1 nd"
  using assms by (simp add: planned_def lends_def bigBrainModel_def placed1_def placed0_def newBigBrains_def)

lemma placed1_override: "\<exists>w'. SetBenchmarkOverride ''a'' ''m'' placed1 = Some w' \<and> cluster_reach w'"
proof -
  let ?w = "placed1\<lparr>cl_place := (cl_place placed1)\<lparr>plc_overrides := AList.update ''a'' ''m'' (plc_overrides (cl_place placed1))\<rparr>\<rparr>"
  have "spec_ok (cat_ids (cl_cat placed1)) (plc_spec (cl_place ?w))" using cluster_reach_ok [OF placed1_reach] by (simp add: cluster_ok_def)
  then obtain w' where "Replan ?w = Some w'" using Replan_total by blast
  then have "SetBenchmarkOverride ''a'' ''m'' placed1 = Some w'" by (simp add: SetBenchmarkOverride_def Let_def)
  moreover from this placed1_reach have "cluster_reach w'" unfolding cluster_reach_def by (meson rtranclp.rtrancl_into_rtrancl st_override)
  ultimately show ?thesis by blast
qed

theorem override_wins_witness:
  "\<exists>w' d. SetBenchmarkOverride ''a'' ''m'' placed1 = Some w' \<and> desired w' ''a'' = Some d \<and> dr_ModelID d = ''m''"
proof -
  obtain w' where w': "SetBenchmarkOverride ''a'' ''m'' placed1 = Some w'" using placed1_override by blast
  obtain md where md: "File_model (cl_cat placed1) ''m'' = Some (filePath (snd fin1) ''m'', md)" using placed1_ready by blast
  obtain nd where nd: "nd \<in> set (Snapshot (cl_reg placed1))" "nd_ID nd = ''a''" "nd_State nd = StateActive"
    using placed1_node by (auto simp: placed1_def placed0_def)
  from override_wins [OF placed1_reach w' _ md nd(1,2) placed1_planned [OF nd(3)]] w' show ?thesis by auto
qed



theorem preview_is_faithful_witness:
  "\<exists>res w'. adminSetPlacement True (Some \<lparr>sc_Policies = [], sc_DefaultModel = ''''\<rparr>) placed1 = Some (res, w') \<and>
     adminPreviewPlacement (Some \<lparr>sc_Policies = [], sc_DefaultModel = ''''\<rparr>) placed1 = Some res"
proof -
  let ?sc = "\<lparr>sc_Policies = [], sc_DefaultModel = ''''\<rparr>"
  have v: "validatePlacement placed1 ?sc = []" by (simp add: validatePlacement_def validate_def Classes_def Let_def)
  let ?w = "placed1\<lparr>cl_place := (cl_place placed1)\<lparr>plc_spec := ?sc, plc_file := Some (1, ?sc)\<rparr>\<rparr>"
  have "Replan ?w \<noteq> None" by (rule Replan_total [of "{}"]) (simp add: spec_ok_def pin_nodes_def)
  then obtain w' where "Replan ?w = Some w'" by blast
  with v have s: "adminSetPlacement True (Some ?sc) placed1 = Some (adminPlacement w', w')"
    by (simp add: adminSetPlacement_def save_def Let_def placed1_def placed0_def)
  moreover have "plc_overrides (cl_place placed1) = []" by (simp add: placed1_def placed0_def)
  ultimately show ?thesis using preview_is_faithful by blast
qed

end
