(* ===== verification/JobOps.thy ===== *)
theory JobOps
  imports Superborg
begin

text \<open>
  The operations on one Super Borg job (\<^verbatim>\<open>controller/gateway/jobs.go\<close>): its event log, documents and
  task list, the tools the orchestrator may call, the assignment of delegated subtasks, and the
  prompts.  The store of all jobs and its runner are in the theory \<open>Jobs\<close>.

  Every definition here is one critical section of the code: it runs under the lock \<open>mu\<close> and reads
  the clock once (\<open>now\<close>).  JSON documents are decoded, and Unicode letters lowered, by the functions
  of a record \<open>job_lib\<close>.  Counters that start at zero and only grow are natural numbers.
\<close>

subsection \<open>Data\<close>

definition jobMaxStepsPerRun :: nat where
  "jobMaxStepsPerRun = 80"

definition jobWorkerMaxTokens :: int where
  "jobWorkerMaxTokens = 1200"

definition jobOrchMaxTokens :: int where
  "jobOrchMaxTokens = 3000"

definition jobContextMaxBytes :: nat where
  "jobContextMaxBytes = 12000"

definition jobPreviewBytes :: nat where
  "jobPreviewBytes = 160"

definition jobReadMaxBytes :: nat where
  "jobReadMaxBytes = 6000"

definition jobRecentSteps :: nat where
  "jobRecentSteps = 6"

definition jobMaxEvents :: nat where
  "jobMaxEvents = 500"

definition jobMaxErrors :: nat where
  "jobMaxErrors = 5"

definition jobMaxNoTool :: nat where
  "jobMaxNoTool = 3"

definition jobPrincipalDefault :: string where
  "jobPrincipalDefault = ''job''"

abbreviation "JobQueued \<equiv> ''queued''"
abbreviation "JobRunning \<equiv> ''running''"
abbreviation "JobWaiting \<equiv> ''waiting''"
abbreviation "JobDone \<equiv> ''done''"
abbreviation "JobFailed \<equiv> ''failed''"
abbreviation "JobCancelled \<equiv> ''cancelled''"

record job_task =
  jt_ID :: nat
  jt_Title :: string
  jt_Doc :: string
  jt_Status :: string

record job_doc =
  jd_Name :: string
  jd_Text :: string
  jd_Author :: string
  jd_Updated :: go_time

record job_event =
  jv_Seq :: nat
  jv_Time :: go_time
  jv_Kind :: string
  jv_Text :: string

record job_step =
  js_N :: nat
  js_Tool :: string
  js_Args :: string
  js_Result :: string

record job =
  jb_ID :: string
  jb_Title :: string
  jb_Goal :: string
  jb_Messages :: "string list"
  jb_Principal :: string
  jb_Pool :: string
  jb_Status :: string
  jb_Question :: string
  jb_Error :: string
  jb_Tasks :: "job_task list"
  jb_Docs :: "job_doc list"
  jb_Result :: "string list"
  jb_Summary :: string
  jb_Steps :: nat
  jb_Recent :: "job_step list"
  jb_PlannedAt :: nat
  jb_Language :: string
  jb_FinishAsked :: bool
  jb_noTool :: nat
  jb_Events :: "job_event list"
  jb_Created :: go_time
  jb_Updated :: go_time

record job_summary =
  sm_ID :: string
  sm_Title :: string
  sm_Pool :: string
  sm_Status :: string
  sm_Question :: string
  sm_Steps :: nat
  sm_TasksDone :: nat
  sm_Tasks :: nat
  sm_Docs :: nat
  sm_Created :: go_time
  sm_Updated :: go_time

text \<open>The arguments of a tool call (\<open>tasks\<close> stays raw), an entry of a plan, and a delegated task.\<close>

record job_args =
  ja_Tasks :: string
  ja_Name :: string
  ja_Text :: string
  ja_Question :: string
  ja_Summary :: string
  ja_Docs :: "string list"
  ja_Language :: string

record plan_entry =
  pe_Title :: string
  pe_Doc :: string

record job_subtask =
  ju_Task :: string
  ju_Context :: "string list"
  ju_SaveAs :: string

text \<open>
  The library calls: \<open>json.Unmarshal\<close> of arguments (an error text or the value), of plans and of
  subtasks, \<open>strings.ToLower\<close>, and the verb \<open>%q\<close>.
\<close>

record job_lib =
  jl_args :: "string \<Rightarrow> string + job_args"
  jl_plan :: "string \<Rightarrow> plan_entry list option"
  jl_subtasks :: "string \<Rightarrow> job_subtask list option"
  jl_lower :: "string \<Rightarrow> string"
  jl_quote :: "string \<Rightarrow> string"

subsection \<open>Names and texts\<close>

definition nl :: string where
  "nl = [CHR 0x0A]"

definition arrow_to :: string where
  "arrow_to = [CHR 0xE2, CHR 0x86, CHR 0x92]"

definition arrow_from :: string where
  "arrow_from = [CHR 0xE2, CHR 0x86, CHR 0x90]"

fun join_with :: "string \<Rightarrow> string list \<Rightarrow> string" where
  "join_with sep [] = ''''"
| "join_with sep [s] = s"
| "join_with sep (s # t # ts) = s @ sep @ join_with sep (t # ts)"

text \<open>\<open>strings.NewReplacer\<close> with the pairs of \<open>asciiFold\<close>: every letter is two bytes of UTF-8.\<close>

definition asciiFold :: "(string \<times> string) list" where
  "asciiFold =
     [([CHR 0xC4, CHR 0x85], ''a''), ([CHR 0xC4, CHR 0x87], ''c''), ([CHR 0xC4, CHR 0x99], ''e''),
      ([CHR 0xC5, CHR 0x82], ''l''), ([CHR 0xC5, CHR 0x84], ''n''), ([CHR 0xC3, CHR 0xB3], ''o''),
      ([CHR 0xC5, CHR 0x9B], ''s''), ([CHR 0xC5, CHR 0xBA], ''z''), ([CHR 0xC5, CHR 0xBC], ''z''),
      ([CHR 0xC3, CHR 0xA4], ''a''), ([CHR 0xC3, CHR 0xB6], ''o''), ([CHR 0xC3, CHR 0xBC], ''u''),
      ([CHR 0xC3, CHR 0x9F], ''ss''), ([CHR 0xC3, CHR 0xA9], ''e''), ([CHR 0xC3, CHR 0xA8], ''e''),
      ([CHR 0xC3, CHR 0xA0], ''a''), ([CHR 0xC3, CHR 0xA7], ''c''), ([CHR 0xC4, CHR 0x8D], ''c''),
      ([CHR 0xC5, CHR 0xA1], ''s''), ([CHR 0xC5, CHR 0xBE], ''z''), ([CHR 0xC5, CHR 0x99], ''r''),
      ([CHR 0xC3, CHR 0xBD], ''y''), ([CHR 0xC3, CHR 0xAD], ''i''), ([CHR 0xC3, CHR 0xA1], ''a'')]"

fun fold_letters :: "(string \<times> string) list \<Rightarrow> string \<Rightarrow> string" where
  "fold_letters ps (a # b # cs) =
     (case find (\<lambda>p. fst p = [a, b]) ps of
        Some p \<Rightarrow> snd p @ fold_letters ps cs
      | None \<Rightarrow> a # fold_letters ps (b # cs))"
| "fold_letters ps cs = cs"

text \<open>\<open>docNameRE\<close> removes every character outside this class.\<close>

definition name_char :: "char \<Rightarrow> bool" where
  "name_char c \<longleftrightarrow> CHR ''a'' \<le> c \<and> c \<le> CHR ''z'' \<or> CHR ''0'' \<le> c \<and> c \<le> CHR ''9'' \<or> c = CHR ''_'' \<or> c = CHR ''-''"

definition docName :: "job_lib \<Rightarrow> string \<Rightarrow> string" where
  "docName lib s =
     (let s = fold_letters asciiFold (jl_lower lib (trim_space s));
          s = filter name_char (map (\<lambda>c. if c = CHR '' '' then CHR ''_'' else c) s)
      in if length s > 40 then take 40 s else s)"

definition words :: "string \<Rightarrow> nat" where
  "words s = length (Prelude.fields s)"

definition words_text :: "string \<Rightarrow> string" where
  "words_text s = itoa (int (words s))"

definition oneLine :: "string \<Rightarrow> string" where
  "oneLine s = join_with '' '' (Prelude.fields s)"

subsection \<open>Events and documents\<close>

definition log_event :: "string \<Rightarrow> string \<Rightarrow> go_time \<Rightarrow> job \<Rightarrow> job" where
  "log_event kind txt now job =
     (let seq = (if length (jb_Events job) > 0 then jv_Seq (last (jb_Events job)) + 1 else 1);
          es = jb_Events job @ [\<lparr>jv_Seq = seq, jv_Time = now, jv_Kind = kind, jv_Text = txt\<rparr>]
      in job\<lparr>jb_Events := (if length es > jobMaxEvents then drop (length es - jobMaxEvents) es else es), jb_Updated := now\<rparr>)"

definition findDoc :: "job \<Rightarrow> string \<Rightarrow> job_doc option" where
  "findDoc job name = find (\<lambda>d. jd_Name d = name) (jb_Docs job)"

text \<open>The first document of the name is overwritten in place, or a new one is appended.\<close>

fun set_doc :: "job_doc \<Rightarrow> job_doc list \<Rightarrow> job_doc list" where
  "set_doc d [] = [d]"
| "set_doc d (e # es) =
     (if jd_Name e = jd_Name d then e\<lparr>jd_Text := jd_Text d, jd_Author := jd_Author d, jd_Updated := jd_Updated d\<rparr> # es
      else e # set_doc d es)"

definition mark_done :: "string \<Rightarrow> job_task list \<Rightarrow> job_task list" where
  "mark_done name ts = map (\<lambda>t. if jt_Doc t = name then t\<lparr>jt_Status := ''done''\<rparr> else t) ts"

definition putDoc :: "string \<Rightarrow> string \<Rightarrow> string \<Rightarrow> go_time \<Rightarrow> job \<Rightarrow> job" where
  "putDoc name txt author now job =
     log_event ''doc'' (name @ '' saved by '' @ author @ '' ('' @ words_text txt @ '' words)'') now
       (job\<lparr>jb_Docs := set_doc \<lparr>jd_Name = name, jd_Text = txt, jd_Author = author, jd_Updated = now\<rparr> (jb_Docs job),
            jb_Tasks := mark_done name (jb_Tasks job), jb_FinishAsked := False\<rparr>)"

definition summarize :: "job \<Rightarrow> job_summary" where
  "summarize job =
     \<lparr>sm_ID = jb_ID job, sm_Title = jb_Title job, sm_Pool = jb_Pool job, sm_Status = jb_Status job,
      sm_Question = jb_Question job, sm_Steps = jb_Steps job,
      sm_TasksDone = length (filter (\<lambda>t. jt_Status t = ''done'') (jb_Tasks job)),
      sm_Tasks = length (jb_Tasks job), sm_Docs = length (jb_Docs job),
      sm_Created = jb_Created job, sm_Updated = jb_Updated job\<rparr>"

text \<open>The job that \<open>Create\<close> makes; \<open>nid\<close> is the result of \<open>newID\<close>.\<close>

definition new_job :: "string \<Rightarrow> string \<Rightarrow> string \<Rightarrow> string \<Rightarrow> string \<Rightarrow> go_time \<Rightarrow> job" where
  "new_job nid title goal princ pool now =
     (let title = trim_space title; goal = trim_space goal
      in \<lparr>jb_ID = nid, jb_Title = (if title = '''' then clip (oneLine goal) 60 else title), jb_Goal = goal, jb_Messages = [],
          jb_Principal = (if princ = '''' then jobPrincipalDefault else princ), jb_Pool = pool,
          jb_Status = JobQueued, jb_Question = '''', jb_Error = '''', jb_Tasks = [], jb_Docs = [], jb_Result = [], jb_Summary = '''',
          jb_Steps = 0, jb_Recent = [], jb_PlannedAt = 0, jb_Language = '''', jb_FinishAsked = False, jb_noTool = 0, jb_Events = [],
          jb_Created = now, jb_Updated = now\<rparr>)"

subsection \<open>Steps and tools\<close>

text \<open>\<open>record\<close> and \<open>repeats\<close>.\<close>

definition record_step :: "string \<Rightarrow> string \<Rightarrow> string \<Rightarrow> go_time \<Rightarrow> job \<Rightarrow> job" where
  "record_step nm args res now job =
     (let n = jb_Steps job + 1;
          rs = jb_Recent job @ [\<lparr>js_N = n, js_Tool = nm, js_Args = args, js_Result = res\<rparr>]
      in job\<lparr>jb_Steps := n, jb_Recent := (if length rs > jobRecentSteps then drop (length rs - jobRecentSteps) rs else rs),
             jb_Updated := now\<rparr>)"

definition repeats :: "job \<Rightarrow> tool_call \<Rightarrow> bool" where
  "repeats job c \<longleftrightarrow> tc_Name c \<noteq> ''finish'' \<and> length (jb_Recent job) > 0 \<and>
     js_Tool (last (jb_Recent job)) = tc_Name c \<and> js_Args (last (jb_Recent job)) = tc_Arguments c"

text \<open>The new tasks of a plan: one per document that no kept or earlier task produces.\<close>

fun plan_add :: "job_lib \<Rightarrow> string list \<Rightarrow> job_task list \<Rightarrow> plan_entry list \<Rightarrow> job_task list" where
  "plan_add lib seen kept [] = kept"
| "plan_add lib seen kept (t # ts) =
     (let doc = docName lib (pe_Doc t)
      in if trim_space (pe_Title t) = '''' \<or> (doc \<noteq> '''' \<and> doc \<in> set seen) then plan_add lib seen kept ts
         else plan_add lib (doc # seen)
                (kept @ [\<lparr>jt_ID = 0, jt_Title = trim_space (pe_Title t), jt_Doc = doc, jt_Status = ''todo''\<rparr>]) ts)"

definition number_tasks :: "job_task list \<Rightarrow> job_task list" where
  "number_tasks ts = map (\<lambda>(i, t). t\<lparr>jt_ID := i + 1\<rparr>) (enumerate 0 ts)"

definition plan_tasks :: "job_lib \<Rightarrow> job_args \<Rightarrow> go_time \<Rightarrow> job \<Rightarrow> job \<times> string" where
  "plan_tasks lib args now job =
     (case jl_plan lib (ja_Tasks args) of
        None \<Rightarrow> (job, ''error: plan_tasks needs tasks: [{title, doc}]'')
      | Some tasks \<Rightarrow>
          if length tasks = 0 then (job, ''error: plan_tasks needs tasks: [{title, doc}]'')
          else
            (let old = filter (\<lambda>t. jt_Status t = ''done'') (jb_Tasks job);
                 kept = plan_add lib (map jt_Doc old) old tasks;
                 added = length kept - length old;
                 l = trim_space (ja_Language args);
                 job = job\<lparr>jb_Tasks := number_tasks kept, jb_PlannedAt := length (jb_Messages job),
                           jb_Language := (if l \<noteq> '''' then clip l 40 else jb_Language job)\<rparr>
             in (log_event ''plan'' (''plan set: '' @ itoa (int added) @ '' tasks to do'') now job,
                 ''plan set: '' @ itoa (int added) @ '' tasks to do ('' @ itoa (int (length kept - added)) @ '' tasks were already done)'')))"

definition write_doc :: "job_lib \<Rightarrow> job_args \<Rightarrow> go_time \<Rightarrow> job \<Rightarrow> job \<times> string" where
  "write_doc lib args now job =
     (let name = docName lib (ja_Name args)
      in if name = '''' \<or> trim_space (ja_Text args) = '''' then (job, ''error: write_doc needs name and text'')
         else (putDoc name (ja_Text args) ''orchestrator'' now job,
               ''saved '' @ name @ '' ('' @ words_text (ja_Text args) @ '' words)''))"

definition read_doc :: "job_lib \<Rightarrow> job_args \<Rightarrow> go_time \<Rightarrow> job \<Rightarrow> job \<times> string" where
  "read_doc lib args now job =
     (case findDoc job (docName lib (ja_Name args)) of
        None \<Rightarrow> (job, ''error: no document '' @ ja_Name args)
      | Some d \<Rightarrow> (log_event ''read'' (jd_Name d) now job, jd_Name d @ '':'' @ nl @ clip (jd_Text d) jobReadMaxBytes))"

definition ask_user :: "job_args \<Rightarrow> go_time \<Rightarrow> job \<Rightarrow> job \<times> string" where
  "ask_user args now job =
     (let q = trim_space (ja_Question args)
      in (log_event ''ask'' q now (job\<lparr>jb_Status := JobWaiting, jb_Question := q\<rparr>), ''asked the user: '' @ q))"

definition finish_refusal :: string where
  "finish_refusal =
     ''not finished yet: compare the documents with the GOAL first (every part it asks for, e.g. the number '' @
     ''of chapters, and their length). If anything is missing, call plan_tasks with the missing tasks. '' @
     ''If the goal is fully met, call finish again.''"

definition finish :: "job_lib \<Rightarrow> job_args \<Rightarrow> go_time \<Rightarrow> job \<Rightarrow> job \<times> string" where
  "finish lib args now job =
     (if \<not> jb_FinishAsked job then (job\<lparr>jb_FinishAsked := True\<rparr>, finish_refusal)
      else
        (let names = filter (\<lambda>n. findDoc job n \<noteq> None) (map (docName lib) (ja_Docs args));
             summary = trim_space (ja_Summary args)
         in (log_event ''finish'' summary now (job\<lparr>jb_Status := JobDone, jb_Result := names, jb_Summary := summary\<rparr>),
             ''finished'')))"

text \<open>\<open>tool\<close>: a call is answered under the lock, or is a delegation that works outside it.\<close>

datatype tool_outcome = ToolResult job string | ToolDelegate string

definition tool_result :: "job \<times> string \<Rightarrow> tool_outcome" where
  "tool_result r = ToolResult (fst r) (snd r)"

definition tool :: "job_lib \<Rightarrow> bool \<Rightarrow> tool_call \<Rightarrow> go_time \<Rightarrow> job \<Rightarrow> tool_outcome" where
  "tool lib canPlan c now job =
     (case jl_args lib (tc_Arguments c) of
        Inl err \<Rightarrow> ToolResult job (''error: invalid arguments: '' @ err)
      | Inr args \<Rightarrow>
          if tc_Name c = ''plan_tasks'' then
            (if \<not> canPlan then ToolResult job ''error: the plan is already set; do the NEXT TASK''
             else tool_result (plan_tasks lib args now job))
          else if tc_Name c = ''write_doc'' then tool_result (write_doc lib args now job)
          else if tc_Name c = ''read_doc'' then tool_result (read_doc lib args now job)
          else if tc_Name c = ''ask_user'' then tool_result (ask_user args now job)
          else if tc_Name c = ''finish'' then tool_result (finish lib args now job)
          else if tc_Name c = ''delegate'' then ToolDelegate (ja_Tasks args)
          else ToolResult job (''error: unknown tool '' @ jl_quote lib (tc_Name c)))"

subsection \<open>Delegation\<close>

text \<open>The first context document that a task will produce but that does not exist yet.\<close>

fun missingContext :: "job_lib \<Rightarrow> job \<Rightarrow> string list \<Rightarrow> string" where
  "missingContext lib job [] = ''''"
| "missingContext lib job (n # ns) =
     (let name = docName lib n
      in if findDoc job name = None \<and> list_ex (\<lambda>t. jt_Doc t = name) (jb_Tasks job) then name
         else missingContext lib job ns)"

text \<open>\<open>fastestFree\<close>: two passes over the workers; \<open>None\<close> is the panic on an empty list.\<close>

definition fastestFree :: "inflight \<Rightarrow> backend list \<Rightarrow> node_id list \<Rightarrow> backend option" where
  "fastestFree n workers used =
     (case least_pass n (\<lambda>i. i \<in> set used) None workers of
        Some b \<Rightarrow> Some b
      | None \<Rightarrow> least_pass n (\<lambda>_. False) None workers)"

text \<open>
  The numbering of a name that an earlier task of the call writes: \<open>cur\<close> is the name tried, and
  \<open>fuel\<close> bounds the further tries; \<open>None\<close> is fuel that ran out.
\<close>

fun free_name :: "nat \<Rightarrow> string \<Rightarrow> nat \<Rightarrow> string list \<Rightarrow> string \<Rightarrow> string option" where
  "free_name fuel base n taken cur =
     (if cur \<notin> set taken then Some cur
      else case fuel of
        0 \<Rightarrow> None
      | Suc f \<Rightarrow> free_name f base (n + 1) taken (base @ ''_'' @ itoa (int n)))"

declare free_name.simps [simp del]

fun context_docs :: "job_lib \<Rightarrow> job \<Rightarrow> int \<Rightarrow> string list \<Rightarrow> string" where
  "context_docs lib job budget [] = ''''"
| "context_docs lib job budget (n # ns) =
     (case findDoc job (docName lib n) of
        None \<Rightarrow> context_docs lib job budget ns
      | Some d \<Rightarrow>
          if budget \<le> 0 then context_docs lib job budget ns
          else
            (let txt = clip (jd_Text d) (nat budget)
             in ''### Document: '' @ jd_Name d @ nl @ txt @ nl @ nl @ context_docs lib job (budget - int (length txt)) ns))"

definition workerPrompt :: "job_lib \<Rightarrow> job \<Rightarrow> string list \<Rightarrow> string \<Rightarrow> string" where
  "workerPrompt lib job ctx task =
     context_docs lib job (int jobContextMaxBytes) ctx @ ''### Your task'' @ nl @ task"

definition jobWorkerSystem :: string where
  "jobWorkerSystem =
     ''You are a worker in a cluster of phones and write one part of a larger work. Use the documents '' @
     ''you are given as context. Do exactly the task: output only the requested text, in the language '' @
     ''of the task, with no preamble or comments.''"

text \<open>A subtask of a delegation: refused with its result line, or given to a worker.\<close>

datatype job_slot =
    SlotRefused string
  | SlotStarted (sl_worker: backend) (sl_save: string) (sl_system: string) (sl_prompt: string)

definition save_base :: "job_lib \<Rightarrow> job \<Rightarrow> nat \<Rightarrow> job_subtask \<Rightarrow> string" where
  "save_base lib job k t =
     (let name = docName lib (ju_SaveAs t)
      in if name = '''' then ''result_'' @ itoa (int (jb_Steps job + 1)) @ ''_'' @ itoa (int (k + 1)) else name)"

text \<open>
  The assignment loop; \<open>used\<close> are the nodes given a task, \<open>taken\<close> the names of the tasks before
  this one, \<open>k\<close> its index, and \<open>busy k\<close> the in-flight counts at that time.
\<close>

fun assign_slots ::
  "job_lib \<Rightarrow> (nat \<Rightarrow> inflight) \<Rightarrow> backend list \<Rightarrow> go_time \<Rightarrow> node_id list \<Rightarrow> string list \<Rightarrow> nat \<Rightarrow> job_subtask list \<Rightarrow> job \<Rightarrow>
   (job_slot list \<times> job) option" where
  "assign_slots lib busy workers now used taken k [] job = Some ([], job)"
| "assign_slots lib busy workers now used taken k (t # ts) job =
     (let missing = missingContext lib job (ju_Context t)
      in if missing \<noteq> '''' then
           map_option (\<lambda>(slots, job).
               (SlotRefused (docName lib (ju_SaveAs t) @ '': not started: document '' @ missing @ '' does not exist yet; write it first'') # slots, job))
             (assign_slots lib busy workers now used (taken @ [ju_SaveAs t]) (Suc k) ts job)
         else
           (case fastestFree (busy k) workers used of
              None \<Rightarrow> None
            | Some b \<Rightarrow>
                (let base = save_base lib job k t
                 in case free_name (length taken) base 2 taken base of
                      None \<Rightarrow> None
                    | Some save \<Rightarrow>
                        (let sys = jobWorkerSystem @ (if jb_Language job \<noteq> '''' then '' Write in '' @ jb_Language job @ ''.'' else '''');
                             slot = SlotStarted b save sys (workerPrompt lib job (ju_Context t) (ju_Task t));
                             ev = arrow_to @ '' '' @ workerName b @ '': '' @ clip (ju_Task t) 160 @ '' '' @ arrow_to @ '' '' @ save
                         in map_option (\<lambda>(slots, job). (slot # slots, job))
                              (assign_slots lib busy workers now (b_NodeID b # used) (taken @ [save]) (Suc k) ts
                                 (log_event ''delegate'' ev now job))))))"

text \<open>
  The start of \<open>delegate\<close>: \<open>Inl\<close> an error for the orchestrator, \<open>Inr\<close> the slots; \<open>None\<close> a panic.
\<close>

definition delegate_start ::
  "job_lib \<Rightarrow> (nat \<Rightarrow> inflight) \<Rightarrow> backend list \<Rightarrow> string \<Rightarrow> go_time \<Rightarrow> job \<Rightarrow> (string + job_slot list \<times> job) option" where
  "delegate_start lib busy workers raw now job =
     (if length workers = 0 then Some (Inl ''error: no workers are ready; do the task yourself with write_doc'')
      else case jl_subtasks lib raw of
        None \<Rightarrow> Some (Inl ''error: delegate needs tasks: [{task, context, save_as}]'')
      | Some tasks \<Rightarrow>
          if length tasks = 0 then Some (Inl ''error: delegate needs tasks: [{task, context, save_as}]'')
          else map_option Inr (assign_slots lib busy workers now [] [] 0 tasks job))"

text \<open>
  The end of one subtask: \<open>b\<close> is the worker that answered last, \<open>out\<close> its error or its text, and
  \<open>secs\<close> the printed duration.
\<close>

definition subtask_end ::
  "job_lib \<Rightarrow> string \<Rightarrow> backend \<times> (string + string) \<Rightarrow> string \<Rightarrow> go_time \<Rightarrow> job \<Rightarrow> job \<times> string" where
  "subtask_end lib save r secs now job =
     (let (b, out) = r;
          out = (case out of Inr txt \<Rightarrow> if txt = '''' then Inl ''empty answer'' else Inr txt | Inl err \<Rightarrow> Inl err)
      in case out of
           Inl err \<Rightarrow>
             (log_event ''error'' (arrow_from @ '' '' @ workerName b @ '' failed after '' @ secs @ '' s: '' @ err) now job,
              save @ '': error from '' @ workerName b @ '': '' @ err)
         | Inr txt \<Rightarrow>
             (log_event ''worker'' (arrow_from @ '' '' @ workerName b @ '': '' @ save @ '' done in '' @ secs @ '' s ('' @ words_text txt @ '' words)'') now
                (putDoc save txt (workerName b) now job),
              save @ '' '' @ arrow_from @ '' '' @ workerName b @ '' ('' @ words_text txt @ '' words): '' @ jl_quote lib (clip txt jobPreviewBytes)))"

text \<open>The results in task order, however the subtasks end.\<close>

definition delegate_result :: "job_slot list \<Rightarrow> (nat \<rightharpoonup> string) \<Rightarrow> string" where
  "delegate_result slots ended =
     join_with nl (map (\<lambda>(i, s). case s of SlotRefused r \<Rightarrow> r | SlotStarted _ _ _ _ \<Rightarrow> the (ended i)) (enumerate 0 slots))"

subsection \<open>Workers and prompts\<close>

text \<open>
  What a step reads of the gateway: the resolver of pools, the catalog's tags and size of a model, its
  size label and tags (\<open>modelInfoFor\<close>), and the ready nodes.  \<open>sscan\<close> is \<open>fmt.Sscanf\<close> with \<open>%g\<close>,
  \<open>tps\<close> prints a speed.
\<close>

record job_view =
  jg_targets :: "(string \<Rightarrow> target option) option"
  jg_tags :: "string \<Rightarrow> string list"
  jg_msize :: "string \<Rightarrow> int"
  jg_info :: "string \<Rightarrow> (string \<times> string list) option"
  jg_backends :: "backend list"
  jg_sscan :: "string \<Rightarrow> real option"
  jg_tps :: "real \<Rightarrow> string"

definition jobMinWorkerParams :: real where
  "jobMinWorkerParams = 1500000000"

definition upper_char :: "char \<Rightarrow> char" where
  "upper_char c = (if CHR ''a'' \<le> c \<and> c \<le> CHR ''z'' then char_of (of_char c - 32 :: nat) else c)"

definition size_unit :: "char \<Rightarrow> real" where
  "size_unit c =
     (if c = CHR ''K'' then 1000 else if c = CHR ''M'' then 1000000 else if c = CHR ''B'' then 1000000000
      else if c = CHR ''T'' then 1000000000000 else 0)"

definition parseParams :: "(string \<Rightarrow> real option) \<Rightarrow> string \<Rightarrow> real option" where
  "parseParams sscan s =
     (let s = trim_space (map upper_char s)
      in if s = '''' \<or> size_unit (last s) = 0 then None
         else case sscan (butlast s) of None \<Rightarrow> None | Some n \<Rightarrow> Some (n * size_unit (last s)))"

definition jobWorkers :: "job_view \<Rightarrow> backend \<Rightarrow> backend list \<Rightarrow> backend list" where
  "jobWorkers gv orch pool =
     filter (\<lambda>w. let params = (case jg_info gv (b_Model w) of Some i \<Rightarrow> fst i | None \<Rightarrow> '''')
                 in case parseParams (jg_sscan gv) params of None \<Rightarrow> True | Some n \<Rightarrow> n \<ge> jobMinWorkerParams)
       (superborgWorkers orch pool)"

definition roster_line :: "job_view \<Rightarrow> backend \<Rightarrow> string" where
  "roster_line gv w =
     (let notes = (case jg_info gv (b_Model w) of
                     None \<Rightarrow> []
                   | Some (params, tags) \<Rightarrow>
                       (if params \<noteq> '''' then [params @ '' params''] else []) @
                       (if length tags > 0 then [join_with '', '' tags] else []));
          notes = notes @ (if b_Speed w > 0 then [''~'' @ jg_tps gv (b_Speed w) @ '' tok/s''] else [])
      in ''- '' @ workerName w @ '': '' @ b_Model w @ (if length notes > 0 then '' ('' @ join_with ''; '' notes @ '')'' else '''') @ nl)"

definition roster :: "job_view \<Rightarrow> backend list \<Rightarrow> string" where
  "roster gv workers = concat (map (roster_line gv) workers)"

definition job_system_head :: string where
  "job_system_head =
     ''You are SuperBorg, the orchestrator of a cluster of phones running small language models. You '' @
     ''work on a long job step by step. In every step you see the goal, the task list, the documents '' @
     ''and your last steps, and you call exactly one tool.'' @ nl @ nl @ ''Workers:'' @ nl"

definition job_system_rules :: string where
  "job_system_rules =
     nl @ ''How to work:'' @ nl @
     ''1. If there are no tasks yet, call plan_tasks once with the whole ordered list, covering the '' @
     ''WHOLE goal up to the finished result (e.g. every chapter it asks for), not only the first step; '' @
     ''each task produces one document with a short English name. Example for a story in 10 chapters: '' @
     ''ideas_1, ideas_2 (workers brainstorm), outline (you: plot, characters, one line per chapter), '' @ ''chapter_01 '' @
     ellipsis @ '' chapter_10 (workers, one chapter each). Each chapter or part is its own task and document: '' @
     ''never one task for several chapters.'' @ nl @
     ''2. Write short or key documents yourself with write_doc (the plan, the list of characters). '' @
     ''Give longer texts to workers with delegate: send several tasks in one call (as many as there '' @
     ''are workers); they run in parallel on the fastest free phones, which the gateway picks.'' @ nl @
     ''3. Workers see only their task and the documents you list in context: always pass what they '' @
     ''need (e.g. the outline and the chapter list, so chapters written in parallel fit together) and '' @
     ''a save_as name. Make each task concrete: content of that part, length, style.'' @ nl @
     ''4. Tasks in one delegate call run at the same time: never let one need another's result.'' @ nl @
     ''5. Use read_doc to check a document when unsure; redo a bad one by delegating again with the '' @ ''same save_as.'' @ nl @
     ''6. When every task is done, call finish with the documents that form the result, in order.'' @ nl @
     ''7. Write everything in the language of the goal. Use ask_user only if the goal is truly unclear.'' @ nl"

definition jobSystem :: "job_view \<Rightarrow> backend list \<Rightarrow> string" where
  "jobSystem gv workers =
     job_system_head @ roster gv workers @
     (if length workers = 0 then ''(none ready: write documents yourself)'' @ nl else '''') @ job_system_rules"

definition task_line :: "job_task \<Rightarrow> string" where
  "task_line t =
     itoa (int (jt_ID t)) @ ''. ['' @ jt_Status t @ ''] '' @ jt_Title t @
     (if jt_Doc t \<noteq> '''' then '' '' @ arrow_to @ '' '' @ jt_Doc t else '''') @ nl"

definition doc_line :: "job_lib \<Rightarrow> job_doc \<Rightarrow> string" where
  "doc_line lib d =
     ''- '' @ jd_Name d @ '' ('' @ words_text (jd_Text d) @ '' words, by '' @ jd_Author d @ ''): '' @
     jl_quote lib (clip (oneLine (jd_Text d)) 100) @ nl"

definition step_line :: "nat \<Rightarrow> nat \<times> job_step \<Rightarrow> string" where
  "step_line n s =
     ''- step '' @ itoa (int (js_N (snd s))) @ '' '' @ js_Tool (snd s) @ '': '' @
     (if fst s + 1 < n then clip (js_Result (snd s)) 400 else js_Result (snd s)) @ nl"

text \<open>The next tasks offered: as many open ones as there are workers, at least one.\<close>

definition next_tasks :: "job \<Rightarrow> nat \<Rightarrow> job_task list" where
  "next_tasks job workers = take (max workers 1) (filter (\<lambda>t. jt_Status t \<noteq> ''done'') (jb_Tasks job))"

definition next_line :: "job_task \<Rightarrow> string" where
  "next_line t = itoa (int (jt_ID t)) @ ''. '' @ jt_Title t @ '' '' @ arrow_to @ '' '' @ jt_Doc t"

definition next_text :: "job \<Rightarrow> nat \<Rightarrow> string" where
  "next_text job workers =
     (case map next_line (next_tasks job workers) of
        [] \<Rightarrow> ''''
      | [t] \<Rightarrow> nl @ ''NEXT TASK: '' @ t @ ''. Do it now (write_doc or delegate).''
      | ts \<Rightarrow>
          nl @ ''NEXT TASKS ('' @ itoa (int workers) @
          '' workers are ready; delegate these together in one call so they run in parallel, '' @
          ''each with the context documents it needs; write a key document such as an outline yourself first if a task needs it):'' @
          nl @ join_with nl ts)"

definition all_done :: "job \<Rightarrow> bool" where
  "all_done job \<longleftrightarrow> length (jb_Tasks job) > 0 \<and> \<not> list_ex (\<lambda>t. jt_Status t \<noteq> ''done'') (jb_Tasks job)"

definition jobPrompt :: "job_lib \<Rightarrow> job \<Rightarrow> nat \<Rightarrow> string" where
  "jobPrompt lib job workers =
     ''GOAL:'' @ nl @ jb_Goal job @ nl @
     (if jb_Language job \<noteq> '''' then
        nl @ ''LANGUAGE: write every document and every worker task in '' @ jb_Language job @ ''.'' @ nl else '''') @
     (if length (jb_Messages job) > 0 then
        nl @ ''LATER MESSAGES FROM THE USER (newest last, they override the goal):'' @ nl @
        concat (map (\<lambda>m. ''- '' @ m @ nl) (jb_Messages job)) else '''') @
     nl @ ''TASKS:'' @ nl @
     (if length (jb_Tasks job) = 0 then ''(none yet: start with plan_tasks)'' @ nl else '''') @
     concat (map task_line (jb_Tasks job)) @
     nl @ ''DOCUMENTS:'' @ nl @
     (if length (jb_Docs job) = 0 then ''(none yet)'' @ nl else '''') @
     concat (map (doc_line lib) (jb_Docs job)) @
     (if length (jb_Recent job) > 0 then
        nl @ ''YOUR LAST STEPS:'' @ nl @
        concat (map (step_line (length (jb_Recent job))) (enumerate 0 (jb_Recent job))) else '''') @
     next_text job workers @
     (if all_done job then nl @ ''All tasks are done: check the result if needed, then call finish.'' else '''') @
     nl @ ''Call exactly one tool.''"

subsection \<open>The tools offered and the start of a step\<close>

text \<open>JSON values of the tool list; the order of an object's members is not significant.\<close>

datatype tool_json = JText string | JArray "tool_json list" | JObject "(string \<times> tool_json) list"

definition tool_fn :: "string \<Rightarrow> string \<Rightarrow> (string \<times> tool_json) list \<Rightarrow> string list \<Rightarrow> tool_json" where
  "tool_fn name desc props required =
     JObject [(''type'', JText ''function''),
       (''function'', JObject [(''name'', JText name), (''description'', JText desc),
          (''parameters'', JObject [(''type'', JText ''object''), (''properties'', JObject props),
             (''required'', JArray (map JText required))])])]"

definition tool_str :: "string \<Rightarrow> tool_json" where
  "tool_str desc = JObject [(''type'', JText ''string''), (''description'', JText desc)]"

definition tool_strs :: "string \<Rightarrow> tool_json" where
  "tool_strs desc =
     JObject [(''type'', JText ''array''), (''items'', JObject [(''type'', JText ''string'')]), (''description'', JText desc)]"

definition tool_objects :: "(string \<times> tool_json) list \<Rightarrow> string list \<Rightarrow> tool_json" where
  "tool_objects props required =
     JObject [(''type'', JText ''array''),
       (''items'', JObject [(''type'', JText ''object''), (''properties'', JObject props), (''required'', JArray (map JText required))])]"

definition jobTools :: "bool \<Rightarrow> tool_json list" where
  "jobTools canPlan =
     (let tools =
        [tool_fn ''plan_tasks'' ''Set the plan: replaces every task that is not done yet. One task per document, in order.''
           [(''language'', tool_str ''language every text must be written in: the language of the goal, e.g. Polish''),
            (''tasks'', tool_objects [(''title'', tool_str ''what to do''), (''doc'', tool_str ''name of the document the task produces'')]
               [''title'', ''doc''])]
           [''language'', ''tasks''],
         tool_fn ''delegate'' ''Run tasks on worker phones in parallel (the fastest free phones are chosen for you); each result is saved as a document.''
           [(''tasks'', tool_objects
               [(''task'', tool_str ''complete instructions: what to write, length, style''),
                (''context'', tool_strs ''names of documents the worker needs''),
                (''save_as'', tool_str ''document name for the result'')]
               [''task'', ''save_as''])]
           [''tasks''],
         tool_fn ''write_doc'' ''Write or replace a document yourself.''
           [(''name'', tool_str ''document name''), (''text'', tool_str ''full text'')] [''name'', ''text''],
         tool_fn ''read_doc'' ''Read a document in full (shown in your next step).'' [(''name'', tool_str ''document name'')] [''name''],
         tool_fn ''ask_user'' ''Ask the user a question and wait for the answer.'' [(''question'', tool_str ''the question'')] [''question''],
         tool_fn ''finish'' ''Finish the job when every task is done.''
           [(''summary'', tool_str ''one or two sentences for the user''),
            (''docs'', tool_strs ''documents that form the result, in order'')]
           [''summary'', ''docs'']]
      in if \<not> canPlan then drop 1 tools else tools)"

text \<open>
  \<open>jobPool\<close>: \<open>Inl\<close> is the message of \<open>errBadPool\<close>.
\<close>

definition bad_pool :: "string \<Rightarrow> string" where
  "bad_pool s = ''not a Super Borg pool: '' @ s"

definition job_pool :: "job_view \<Rightarrow> string \<Rightarrow> string + superborg_cfg \<times> backend list" where
  "job_pool gv name =
     (if name = '''' then Inr (\<lparr>sb_Orchestrator = '''', sb_Thinking = False\<rparr>, target_filter no_target (routable (jg_backends gv)))
      else case resolve (jg_targets gv) name of
        None \<Rightarrow> Inl (bad_pool (name @ '' (set the pool's routing to \"superborg\", then send a message)''))
      | Some tgt \<Rightarrow>
          if t_Disabled tgt then Inl (bad_pool (name @ '' is disabled (enable it, then send a message)''))
          else case t_Superborg tgt of
            None \<Rightarrow> Inl (bad_pool (name @ '' (set the pool's routing to \"superborg\", then send a message)''))
          | Some sb \<Rightarrow> Inr (sb, target_filter tgt (routable (jg_backends gv))))"

text \<open>The request of a step to the orchestrator.\<close>

record job_request =
  rq_system :: string
  rq_prompt :: string
  rq_tools :: "tool_json list"
  rq_max_tokens :: int
  rq_thinking :: bool

datatype job_start =
    StartBadPool string
  | StartNoNode
  | StartCall backend "backend list" bool job_request

text \<open>
  The part of \<open>step\<close> before the request.  The pool's name never changes, so the pool is looked up
  and the prompt built in one definition.
\<close>

definition can_plan :: "job \<Rightarrow> bool" where
  "can_plan job \<longleftrightarrow> length (jb_Tasks job) = 0 \<or> all_done job \<or> length (jb_Messages job) > jb_PlannedAt job"

definition step_start :: "job_lib \<Rightarrow> job_view \<Rightarrow> job \<Rightarrow> job_start" where
  "step_start lib gv job =
     (case job_pool gv (jb_Pool job) of
        Inl err \<Rightarrow> StartBadPool err
      | Inr (sb, pool) \<Rightarrow>
          (case pickOrchestrator (jg_tags gv) (jg_msize gv) (routable (jg_backends gv)) sb pool (\<lambda>_. False) of
             None \<Rightarrow> StartNoNode
           | Some orch \<Rightarrow>
               (let workers = jobWorkers gv orch pool
                in StartCall orch workers (can_plan job)
                     \<lparr>rq_system = jobSystem gv workers, rq_prompt = jobPrompt lib job (length workers),
                      rq_tools = jobTools (can_plan job), rq_max_tokens = jobOrchMaxTokens,
                      rq_thinking = (sb_Thinking sb \<and> length (jb_Tasks job) = 0)\<rparr>)))"

text \<open>After the answer: the streamed text becomes an event, and a step without a call is counted.\<close>

definition think_event :: "string \<Rightarrow> go_time \<Rightarrow> job \<Rightarrow> job" where
  "think_event sent now job =
     (let t = trim_space (stripThink sent)
      in if t \<noteq> '''' then log_event ''think'' (clip t 600) now job else job)"

definition no_tool_question :: "backend \<Rightarrow> string" where
  "no_tool_question orch =
     ''The orchestrator '' @ workerName orch @ '' ('' @ b_Model orch @ '') made no tool call in '' @ itoa (int jobMaxNoTool) @
     '' steps in a row; it probably cannot call tools. '' @
     ''Make a tool-capable node (e.g. one serving Qwen3) the orchestrator, then send a message to continue.''"

definition no_tool_call :: "backend \<Rightarrow> go_time \<Rightarrow> job \<Rightarrow> job" where
  "no_tool_call orch now job =
     (let job = job\<lparr>jb_noTool := jb_noTool job + 1\<rparr>
      in if jb_noTool job \<ge> jobMaxNoTool then
           log_event ''error'' (no_tool_question orch) now
             (job\<lparr>jb_noTool := 0, jb_Status := JobWaiting, jb_Question := no_tool_question orch\<rparr>)
         else job)"

subsection \<open>The numbering of names\<close>

definition dec_value :: "string \<Rightarrow> nat" where
  "dec_value s = foldl (\<lambda>a c. 10 * a + (of_char c - 48)) 0 s"

lemma dec_value_dec_digits: "dec_value (dec_digits n) = n"
proof (induction n rule: dec_digits.induct)
  case (1 n)
  have d: "of_char (digit k) - 48 = k" if "k < 10" for k :: nat
    using that by (simp add: digit_def)
  show ?case
  proof (cases "n < 10")
    case True
    with d show ?thesis by (simp add: dec_digits.simps [of n] dec_value_def)
  next
    case False
    with 1 have "dec_value (dec_digits (n div 10)) = n div 10" by simp
    with False d [of "n mod 10"] show ?thesis
      by (simp add: dec_digits.simps [of n] dec_value_def)
  qed
qed

lemma itoa_nat_inj: "itoa (int m) = itoa (int n) \<longleftrightarrow> m = n"
proof
  assume "itoa (int m) = itoa (int n)"
  then have "dec_digits m = dec_digits n" by (simp add: itoa_def)
  then have "dec_value (dec_digits m) = dec_value (dec_digits n)" by (rule arg_cong)
  then show "m = n" by (simp only: dec_value_dec_digits)
qed simp

lemma free_name_fresh: "free_name fuel base n taken cur = Some s \<Longrightarrow> s \<notin> set taken"
  by (induction fuel arbitrary: n cur)
     (simp_all add: free_name.simps [of 0] free_name.simps [of "Suc _"] split: if_splits)

lemma free_name_nonempty:
  "free_name fuel base n taken cur = Some s \<Longrightarrow> cur \<noteq> '''' \<Longrightarrow> s \<noteq> ''''"
  by (induction fuel arbitrary: n cur)
     (auto simp: free_name.simps [of 0] free_name.simps [of "Suc _"] split: if_splits)

lemma free_name_None:
  assumes "free_name fuel base n taken cur = None"
  shows "cur \<in> set taken \<and> (\<forall>k < fuel. base @ ''_'' @ itoa (int (n + k)) \<in> set taken)"
  using assms
proof (induction fuel arbitrary: n cur)
  case 0
  then show ?case by (simp add: free_name.simps [of 0] split: if_splits)
next
  case (Suc fuel)
  from Suc.prems have cur: "cur \<in> set taken"
    and rest: "free_name fuel base (n + 1) taken (base @ ''_'' @ itoa (int n)) = None"
    by (simp_all add: free_name.simps [of "Suc _"] split: if_splits)
  from Suc.IH [OF rest]
  have first: "base @ ''_'' @ itoa (int n) \<in> set taken"
    and later: "\<And>k. k < fuel \<Longrightarrow> base @ ''_'' @ itoa (int (n + 1 + k)) \<in> set taken" by blast+
  have "base @ ''_'' @ itoa (int (n + k)) \<in> set taken" if "k < Suc fuel" for k
  proof (cases k)
    case 0
    with first show ?thesis by simp
  next
    case (Suc j)
    with that have "j < fuel" by simp
    from later [OF this] Suc show ?thesis by (simp add: algebra_simps)
  qed
  with cur show ?case by blast
qed

text \<open>As many further tries as there are names taken are enough: the loop ends.\<close>

lemma free_name_total: "free_name (length taken) base 2 taken base \<noteq> None"
proof
  let ?L = "length taken"
  let ?f = "\<lambda>k. base @ ''_'' @ itoa (int (2 + k))"
  assume "free_name ?L base 2 taken base = None"
  from free_name_None [OF this] have sub: "insert base (?f ` {..<?L}) \<subseteq> set taken" by auto
  have inj: "inj_on ?f {..<?L}"
    by (rule inj_onI) (simp only: append_same_eq same_append_eq itoa_nat_inj add_left_cancel)
  have "base \<notin> ?f ` {..<?L}" by auto
  with inj have "card (insert base (?f ` {..<?L})) = Suc ?L" by (simp add: card_image)
  moreover from card_mono [OF finite_set sub] have "card (insert base (?f ` {..<?L})) \<le> card (set taken)" .
  ultimately show False using card_length [of taken] by linarith
qed

subsection \<open>The invariant of a job\<close>

definition consecutive :: "nat list \<Rightarrow> bool" where
  "consecutive xs \<longleftrightarrow> xs = [hd xs..<hd xs + length xs]"

definition log_ok :: "job \<Rightarrow> bool" where
  "log_ok job \<longleftrightarrow> length (jb_Events job) \<le> jobMaxEvents \<and> consecutive (map jv_Seq (jb_Events job))"

definition steps_ok :: "job \<Rightarrow> bool" where
  "steps_ok job \<longleftrightarrow> length (jb_Recent job) \<le> jobRecentSteps \<and> length (jb_Recent job) \<le> jb_Steps job \<and>
     map js_N (jb_Recent job) = [Suc (jb_Steps job) - length (jb_Recent job)..<Suc (jb_Steps job)]"

definition task_ok :: "string list \<Rightarrow> job_task \<Rightarrow> bool" where
  "task_ok docs t \<longleftrightarrow>
     jt_Status t = ''todo'' \<or> jt_Status t = ''done'' \<and> jt_Doc t \<noteq> '''' \<and> jt_Doc t \<in> set docs"

definition named_docs :: "job_task list \<Rightarrow> string list" where
  "named_docs ts = filter (\<lambda>d. d \<noteq> '''') (map jt_Doc ts)"

definition work_ok :: "job \<Rightarrow> bool" where
  "work_ok job \<longleftrightarrow>
     map jt_ID (jb_Tasks job) = [1..<Suc (length (jb_Tasks job))] \<and>
     distinct (named_docs (jb_Tasks job)) \<and>
     list_all (task_ok (map jd_Name (jb_Docs job))) (jb_Tasks job) \<and>
     distinct (map jd_Name (jb_Docs job)) \<and> '''' \<notin> set (map jd_Name (jb_Docs job)) \<and>
     set (jb_Result job) \<subseteq> set (map jd_Name (jb_Docs job))"

definition job_ok :: "job \<Rightarrow> bool" where
  "job_ok job \<longleftrightarrow> log_ok job \<and> steps_ok job \<and> work_ok job \<and>
     jb_noTool job < jobMaxNoTool \<and> jb_PlannedAt job \<le> length (jb_Messages job)"

named_theorems job_intro "operations that keep the invariant of a job"

lemma consecutive_snoc:
  assumes "consecutive xs" "xs \<noteq> []"
  shows "consecutive (xs @ [last xs + 1])"
proof -
  from assms have xs: "xs = [hd xs..<hd xs + length xs]" by (simp add: consecutive_def)
  from assms(2) have "last [hd xs..<hd xs + length xs] = hd xs + length xs - 1" by (simp add: last_upt)
  with xs have "last xs = hd xs + length xs - 1" by metis
  with assms(2) have l: "last xs + 1 = hd xs + length xs" by (cases xs) auto
  have "[hd xs..<hd xs + length (xs @ [last xs + 1])] = [hd xs..<hd xs + length xs] @ [hd xs + length xs]" by simp
  also have "\<dots> = xs @ [last xs + 1]" using xs l by simp
  finally have "xs @ [last xs + 1] = [hd xs..<hd xs + length (xs @ [last xs + 1])]" by (rule sym)
  with assms(2) show ?thesis by (simp add: consecutive_def)
qed

lemma consecutive_drop:
  assumes "consecutive xs"
  shows "consecutive (drop n xs)"
proof (cases "drop n xs")
  case (Cons a as)
  then have n: "n < length xs" by (metis drop_eq_Nil linorder_not_le list.distinct(1))
  from assms have "drop n xs = drop n [hd xs..<hd xs + length xs]" by (metis consecutive_def)
  with n have d: "drop n xs = [hd xs + n..<hd xs + length xs]" by simp
  with n have "hd (drop n xs) = hd xs + n" by simp
  with d n show ?thesis by (simp add: consecutive_def)
qed (simp add: consecutive_def)

lemma log_ok_event [job_intro]: "log_ok job \<Longrightarrow> log_ok (log_event kind txt now job)"
proof -
  assume ok: "log_ok job"
  let ?xs = "map jv_Seq (jb_Events job)"
  let ?seq = "if length (jb_Events job) > 0 then jv_Seq (last (jb_Events job)) + 1 else 1"
  from ok have xs: "consecutive ?xs" by (simp add: log_ok_def)
  have "consecutive (?xs @ [?seq])"
  proof (cases "jb_Events job = []")
    case True
    then show ?thesis by (simp add: consecutive_def)
  next
    case False
    with consecutive_snoc [OF xs] show ?thesis by (simp add: last_map)
  qed
  moreover define es where "es = jb_Events job @ [\<lparr>jv_Seq = ?seq, jv_Time = now, jv_Kind = kind, jv_Text = txt\<rparr>]"
  ultimately have c: "consecutive (map jv_Seq es)" by simp
  have d: "consecutive (map jv_Seq (drop n es))" for n
    using consecutive_drop [OF c, of n] by (simp only: drop_map)
  have "jb_Events (log_event kind txt now job) =
      (if length es > jobMaxEvents then drop (length es - jobMaxEvents) es else es)"
    by (simp add: log_event_def Let_def es_def)
  with c d show ?thesis by (simp add: log_ok_def)
qed

text \<open>An event touches nothing but the log and the time of the last change.\<close>

lemma log_event_frame [simp]:
  "jb_Tasks (log_event k t now job) = jb_Tasks job"
  "jb_Docs (log_event k t now job) = jb_Docs job"
  "jb_Result (log_event k t now job) = jb_Result job"
  "jb_Recent (log_event k t now job) = jb_Recent job"
  "jb_Steps (log_event k t now job) = jb_Steps job"
  "jb_noTool (log_event k t now job) = jb_noTool job"
  "jb_PlannedAt (log_event k t now job) = jb_PlannedAt job"
  "jb_Messages (log_event k t now job) = jb_Messages job"
  "jb_Status (log_event k t now job) = jb_Status job"
  "jb_ID (log_event k t now job) = jb_ID job"
  "jb_FinishAsked (log_event k t now job) = jb_FinishAsked job"
  "jb_Question (log_event k t now job) = jb_Question job"
  "jb_Error (log_event k t now job) = jb_Error job"
  "jb_Language (log_event k t now job) = jb_Language job"
  "jb_Created (log_event k t now job) = jb_Created job"
  by (simp_all add: log_event_def Let_def)

lemma set_doc_names: "map jd_Name (set_doc d ds) = map jd_Name ds @ (if jd_Name d \<in> set (map jd_Name ds) then [] else [jd_Name d])"
  by (induction ds) auto

lemma named_docs_mark [simp]: "named_docs (mark_done name ts) = named_docs ts"
proof -
  have "map jt_Doc (mark_done name ts) = map jt_Doc ts" by (simp add: mark_done_def)
  then show ?thesis by (simp add: named_docs_def)
qed

lemma mark_done_frame [simp]:
  "map jt_ID (mark_done name ts) = map jt_ID ts" "length (mark_done name ts) = length ts"
  by (simp_all add: mark_done_def)

lemma steps_ok_cong:
  "jb_Recent a = jb_Recent b \<Longrightarrow> jb_Steps a = jb_Steps b \<Longrightarrow> steps_ok a = steps_ok b"
  by (simp add: steps_ok_def)

lemma work_ok_cong:
  "jb_Tasks a = jb_Tasks b \<Longrightarrow> jb_Docs a = jb_Docs b \<Longrightarrow> jb_Result a = jb_Result b \<Longrightarrow> work_ok a = work_ok b"
  by (simp add: work_ok_def)

lemma log_ok_cong: "jb_Events a = jb_Events b \<Longrightarrow> log_ok a = log_ok b"
  by (simp add: log_ok_def)

lemma job_ok_event [job_intro]: "job_ok job \<Longrightarrow> job_ok (log_event k t now job)"
  by (simp add: job_ok_def log_ok_event steps_ok_cong [of "log_event k t now job" job] work_ok_cong [of "log_event k t now job" job])

text \<open>Fields that the invariant does not read may be set at will.\<close>

lemma job_ok_set [simp]:
  "job_ok (job\<lparr>jb_Status := x\<rparr>) = job_ok job"
  "job_ok (job\<lparr>jb_Question := q\<rparr>) = job_ok job"
  "job_ok (job\<lparr>jb_Error := q\<rparr>) = job_ok job"
  "job_ok (job\<lparr>jb_Summary := q\<rparr>) = job_ok job"
  "job_ok (job\<lparr>jb_FinishAsked := f\<rparr>) = job_ok job"
  "job_ok (job\<lparr>jb_Language := q\<rparr>) = job_ok job"
  by (simp_all add: job_ok_def log_ok_def steps_ok_def work_ok_def)

lemma job_ok_message [job_intro]: "job_ok job \<Longrightarrow> job_ok (job\<lparr>jb_Messages := jb_Messages job @ [m]\<rparr>)"
  by (simp add: job_ok_def log_ok_def steps_ok_def work_ok_def)

lemma job_ok_noTool [job_intro]: "job_ok job \<Longrightarrow> n < jobMaxNoTool \<Longrightarrow> job_ok (job\<lparr>jb_noTool := n\<rparr>)"
  by (simp add: job_ok_def log_ok_def steps_ok_def work_ok_def)

lemma putDoc_frame [simp]:
  "jb_Status (putDoc name txt author now job) = jb_Status job"
  "jb_ID (putDoc name txt author now job) = jb_ID job"
  "jb_Tasks (putDoc name txt author now job) = mark_done name (jb_Tasks job)"
  "jb_FinishAsked (putDoc name txt author now job) = False"
  by (simp_all add: putDoc_def)

lemma job_ok_putDoc [job_intro]:
  assumes ok: "job_ok job" and name: "name \<noteq> ''''"
  shows "job_ok (putDoc name txt author now job)"
proof -
  let ?d = "\<lparr>jd_Name = name, jd_Text = txt, jd_Author = author, jd_Updated = now\<rparr>"
  let ?j = "job\<lparr>jb_Docs := set_doc ?d (jb_Docs job), jb_Tasks := mark_done name (jb_Tasks job), jb_FinishAsked := False\<rparr>"
  have names: "set (map jd_Name (set_doc ?d (jb_Docs job))) = insert name (set (map jd_Name (jb_Docs job)))"
    by (simp only: set_doc_names) auto
  have tasks: "list_all (task_ok (map jd_Name (set_doc ?d (jb_Docs job)))) (mark_done name (jb_Tasks job))"
    if "list_all (task_ok (map jd_Name (jb_Docs job))) (jb_Tasks job)"
    using that name unfolding list_all_iff mark_done_def task_ok_def names by auto
  have dist: "distinct (map jd_Name (set_doc ?d (jb_Docs job)))" if "distinct (map jd_Name (jb_Docs job))"
    using that by (simp add: set_doc_names del: set_map)
  have "work_ok ?j"
    using ok name names dist tasks unfolding job_ok_def work_ok_def
    by (auto simp del: set_map)
  moreover have "log_ok ?j" "steps_ok ?j" "jb_noTool ?j < jobMaxNoTool" "jb_PlannedAt ?j \<le> length (jb_Messages ?j)"
    using ok by (simp_all add: job_ok_def log_ok_def steps_ok_def)
  ultimately have "job_ok ?j" by (simp add: job_ok_def)
  then show ?thesis unfolding putDoc_def by (rule job_ok_event)
qed

lemma record_step_frame [simp]:
  "jb_Status (record_step nm args res now job) = jb_Status job"
  "jb_ID (record_step nm args res now job) = jb_ID job"
  by (simp_all add: record_step_def Let_def)

lemma job_ok_record [job_intro]:
  assumes ok: "job_ok job"
  shows "job_ok (record_step nm args res now job)"
proof -
  let ?n = "jb_Steps job + 1"
  define rs where "rs = jb_Recent job @ [\<lparr>js_N = ?n, js_Tool = nm, js_Args = args, js_Result = res\<rparr>]"
  let ?r = "if length rs > jobRecentSteps then drop (length rs - jobRecentSteps) rs else rs"
  have r: "jb_Recent (record_step nm args res now job) = ?r" "jb_Steps (record_step nm args res now job) = ?n"
    by (simp_all add: record_step_def Let_def rs_def)
  from ok have len: "length (jb_Recent job) \<le> jb_Steps job" "length (jb_Recent job) \<le> jobRecentSteps"
    and ns: "map js_N (jb_Recent job) = [Suc (jb_Steps job) - length (jb_Recent job)..<Suc (jb_Steps job)]"
    by (simp_all add: job_ok_def steps_ok_def)
  from len ns have rs: "map js_N rs = [Suc ?n - length rs..<Suc ?n]" "length rs \<le> ?n"
    by (simp_all add: rs_def)
  then have "map js_N ?r = [Suc ?n - length ?r..<Suc ?n]" by (simp add: drop_map [symmetric] del: upt_Suc)
  with rs(2) have "steps_ok (record_step nm args res now job)"
    by (simp add: steps_ok_def r del: upt_Suc)
  with ok show ?thesis
    by (simp add: job_ok_def log_ok_def work_ok_def record_step_def Let_def)
qed

text \<open>The plan: documents of the kept tasks stay distinct, and new tasks are still to do.\<close>

lemma plan_add_ok:
  assumes "distinct (named_docs kept)" "set (named_docs kept) \<subseteq> set seen" "list_all (task_ok docs) kept"
  shows "distinct (named_docs (plan_add lib seen kept ts)) \<and> list_all (task_ok docs) (plan_add lib seen kept ts)"
  using assms
proof (induction lib seen kept ts rule: plan_add.induct)
  case (2 lib seen kept t ts)
  let ?doc = "docName lib (pe_Doc t)"
  show ?case
  proof (cases "trim_space (pe_Title t) = '''' \<or> (?doc \<noteq> '''' \<and> ?doc \<in> set seen)")
    case True
    with 2 show ?thesis by (simp add: Let_def)
  next
    case False
    let ?t = "\<lparr>jt_ID = 0, jt_Title = trim_space (pe_Title t), jt_Doc = ?doc, jt_Status = ''todo''\<rparr>"
    have "distinct (named_docs (kept @ [?t]))" "set (named_docs (kept @ [?t])) \<subseteq> set (?doc # seen)"
      "list_all (task_ok docs) (kept @ [?t])"
      using False 2(3-5) by (auto simp: named_docs_def) (simp_all add: task_ok_def)
    from 2(2) [OF refl False this] show ?thesis unfolding plan_add.simps Let_def if_not_P [OF False] .
  qed
qed simp

lemma plan_add_prefix: "\<exists>added. plan_add lib seen kept ts = kept @ added"
proof (induction lib seen kept ts rule: plan_add.induct)
  case (2 lib seen kept t ts)
  then show ?case by (auto simp: Let_def)
qed simp

lemma number_tasks_frame:
  "map jt_ID (number_tasks ts) = [1..<Suc (length ts)]" "length (number_tasks ts) = length ts"
  "map jt_Doc (number_tasks ts) = map jt_Doc ts" "map jt_Status (number_tasks ts) = map jt_Status ts"
  by (rule nth_equalityI, simp_all add: number_tasks_def enumerate_eq_zip del: upt_Suc)+

lemma task_ok_number: "list_all (task_ok docs) (number_tasks ts) = list_all (task_ok docs) ts"
proof -
  have "task_ok docs (number_tasks ts ! i) = task_ok docs (ts ! i)" if "i < length ts" for i
    using that by (simp add: task_ok_def number_tasks_def enumerate_eq_zip)
  then show ?thesis by (simp add: list_all_length number_tasks_frame(2))
qed

lemma named_docs_filter: "distinct (named_docs ts) \<Longrightarrow> distinct (named_docs (filter P ts))"
  by (induction ts) (auto simp: named_docs_def)

lemma job_ok_plan [job_intro]:
  assumes ok: "job_ok job"
  shows "job_ok (fst (plan_tasks lib args now job))"
proof -
  let ?old = "filter (\<lambda>t. jt_Status t = ''done'') (jb_Tasks job)"
  let ?docs = "map jd_Name (jb_Docs job)"
  from ok have d: "distinct (named_docs (jb_Tasks job))" and t: "list_all (task_ok ?docs) (jb_Tasks job)"
    by (simp_all add: job_ok_def work_ok_def)
  let ?kept = "plan_add lib (map jt_Doc ?old) ?old"
  have old: "distinct (named_docs ?old)" "set (named_docs ?old) \<subseteq> set (map jt_Doc ?old)" "list_all (task_ok ?docs) ?old"
    using named_docs_filter [OF d] t by (auto simp: named_docs_def list_all_iff)
  have new: "distinct (named_docs (?kept ts))" "list_all (task_ok ?docs) (?kept ts)" for ts
    using plan_add_ok [OF old, of lib ts] by blast+
  let ?j = "\<lambda>l ts. job\<lparr>jb_Tasks := number_tasks (?kept ts), jb_PlannedAt := length (jb_Messages job), jb_Language := l\<rparr>"
  have "work_ok (?j l ts)" for l ts
    using ok new [of ts] unfolding job_ok_def work_ok_def
    by (simp add: number_tasks_frame task_ok_number named_docs_def del: upt_Suc)
  then have "job_ok (?j l ts)" for l ts
    using ok by (simp add: job_ok_def log_ok_def steps_ok_def)
  then show ?thesis
    using ok by (auto simp: plan_tasks_def Let_def intro!: job_ok_event split: option.split)
qed

lemma job_ok_finish [job_intro]:
  assumes ok: "job_ok job"
  shows "job_ok (fst (finish lib args now job))"
proof -
  let ?names = "filter (\<lambda>n. findDoc job n \<noteq> None) (map (docName lib) (ja_Docs args))"
  have "set ?names \<subseteq> set (map jd_Name (jb_Docs job))"
    by (force simp: findDoc_def dest!: find_Some_mem)
  with ok have "job_ok (job\<lparr>jb_Status := JobDone, jb_Result := ?names, jb_Summary := s\<rparr>)" for s
    by (simp add: job_ok_def work_ok_def log_ok_def steps_ok_def del: set_filter set_map)
  with ok show ?thesis by (simp add: finish_def Let_def job_ok_event)
qed

lemma docName_nonempty_write:
  "job_ok job \<Longrightarrow> job_ok (fst (write_doc lib args now job))"
  by (simp add: write_doc_def Let_def job_ok_putDoc)

lemma job_ok_ask [job_intro]: "job_ok job \<Longrightarrow> job_ok (fst (ask_user args now job))"
  by (simp add: ask_user_def Let_def job_ok_event)

lemma job_ok_read [job_intro]: "job_ok job \<Longrightarrow> job_ok (fst (read_doc lib args now job))"
  by (simp add: read_doc_def job_ok_event split: option.split)

lemmas job_ok_tools = job_ok_plan docName_nonempty_write job_ok_read job_ok_ask job_ok_finish

text \<open>A tool call keeps the invariant and the id, and at most ends the run of the job.\<close>

lemma plan_tasks_frame:
  "jb_ID (fst (plan_tasks lib args now job)) = jb_ID job" "jb_Status (fst (plan_tasks lib args now job)) = jb_Status job"
  by (simp_all add: plan_tasks_def Let_def split: option.split)

lemma write_doc_frame:
  "jb_ID (fst (write_doc lib args now job)) = jb_ID job" "jb_Status (fst (write_doc lib args now job)) = jb_Status job"
  by (simp_all add: write_doc_def Let_def)

lemma read_doc_frame:
  "jb_ID (fst (read_doc lib args now job)) = jb_ID job" "jb_Status (fst (read_doc lib args now job)) = jb_Status job"
  by (simp_all add: read_doc_def split: option.split)

lemma ask_user_frame:
  "jb_ID (fst (ask_user args now job)) = jb_ID job" "jb_Status (fst (ask_user args now job)) = JobWaiting"
  by (simp_all add: ask_user_def Let_def)

lemma finish_frame:
  "jb_ID (fst (finish lib args now job)) = jb_ID job"
  "jb_Status (fst (finish lib args now job)) = (if jb_FinishAsked job then JobDone else jb_Status job)"
  by (simp_all add: finish_def Let_def)

lemmas tool_frames = plan_tasks_frame write_doc_frame read_doc_frame ask_user_frame finish_frame

lemma tool_keeps:
  assumes "tool lib canPlan c now job = ToolResult job' res" "job_ok job"
  shows "job_ok job'" "jb_ID job' = jb_ID job" "jb_Status job' \<in> {jb_Status job, JobWaiting, JobDone}"
  using assms by (auto simp: tool_def tool_result_def job_ok_tools tool_frames split: sum.splits if_splits)

lemma job_ok_think [job_intro]: "job_ok job \<Longrightarrow> job_ok (think_event sent now job)"
  by (simp add: think_event_def Let_def job_ok_event)

lemma think_event_frame [simp]:
  "jb_Status (think_event sent now job) = jb_Status job" "jb_ID (think_event sent now job) = jb_ID job"
  by (simp_all add: think_event_def Let_def)

lemma job_ok_no_tool [job_intro]: "job_ok job \<Longrightarrow> job_ok (no_tool_call orch now job)"
proof -
  assume ok: "job_ok job"
  then have "job_ok (job\<lparr>jb_noTool := n\<rparr>)" if "n < jobMaxNoTool" for n
    using that by (rule job_ok_noTool)
  from this [of "jb_noTool job + 1"] this [of 0] show ?thesis
  proof (cases "jb_noTool job + 1 \<ge> jobMaxNoTool")
    case True
    have "job_ok (job\<lparr>jb_noTool := 0, jb_Status := JobWaiting, jb_Question := q\<rparr>)" for q
      using job_ok_noTool [OF ok, of 0] by (simp add: job_ok_def log_ok_def steps_ok_def work_ok_def jobMaxNoTool_def)
    with True show ?thesis by (simp add: no_tool_call_def Let_def job_ok_event)
  next
    case False
    with job_ok_noTool [OF ok, of "jb_noTool job + 1"] show ?thesis
      by (simp add: no_tool_call_def Let_def)
  qed
qed

lemma no_tool_call_frame:
  "jb_ID (no_tool_call orch now job) = jb_ID job"
  "jb_Status (no_tool_call orch now job) \<in> {jb_Status job, JobWaiting}"
  by (simp_all add: no_tool_call_def Let_def)

lemma subtask_end_keeps:
  assumes "job_ok job" "save \<noteq> ''''"
  shows "job_ok (fst (subtask_end lib save r secs now job))"
    "jb_ID (fst (subtask_end lib save r secs now job)) = jb_ID job"
    "jb_Status (fst (subtask_end lib save r secs now job)) = jb_Status job"
  using assms
  by (auto simp: subtask_end_def Let_def job_ok_event job_ok_putDoc split: prod.splits sum.splits if_splits)

text \<open>The slots of a delegation write to distinct, non-empty names.\<close>

definition slot_save :: "job_slot \<Rightarrow> string option" where
  "slot_save s = (case s of SlotRefused _ \<Rightarrow> None | SlotStarted _ save _ _ \<Rightarrow> Some save)"

definition slot_saves :: "job_slot list \<Rightarrow> string list" where
  "slot_saves ss = List.map_filter slot_save ss"

lemma slot_saves_simps [simp]:
  "slot_saves [] = []" "slot_saves (SlotRefused r # ss) = slot_saves ss"
  "slot_saves (SlotStarted b s sys p # ss) = s # slot_saves ss"
  by (simp_all add: slot_saves_def List.map_filter_def slot_save_def)

lemma fastestFree_some:
  assumes "workers \<noteq> []"
  obtains b where "fastestFree n workers used = Some b" "b \<in> set workers"
proof -
  have "fastestFree n workers used = leastBusy n workers (\<lambda>i. i \<in> set used)"
    by (simp add: fastestFree_def leastBusy_def)
  with leastBusy_spec [where n = n and workers = workers and used = "\<lambda>i. i \<in> set used"] assms that show thesis
    by (auto split: option.splits)
qed

lemma assign_slots_total:
  assumes "workers \<noteq> []"
  shows "assign_slots lib busy workers now used taken k ts job \<noteq> None"
proof (induction ts arbitrary: used taken k job)
  case (Cons t ts)
  obtain b where b: "fastestFree (busy k) workers used = Some b" by (rule fastestFree_some [OF assms])
  obtain save where save: "free_name (length taken) (save_base lib job k t) 2 taken (save_base lib job k t) = Some save"
    using free_name_total [of taken "save_base lib job k t"] by blast
  have rec: "map_option f (assign_slots lib busy workers now used' taken' (Suc k) ts job') \<noteq> None" for f used' taken' job'
    using Cons.IH by simp
  show ?case
  proof (cases "missingContext lib job (ju_Context t) \<noteq> ''''")
    case True
    show ?thesis unfolding assign_slots.simps Let_def if_P [OF True] by (rule rec)
  next
    case False
    show ?thesis unfolding assign_slots.simps Let_def if_not_P [OF False] b option.case save by (rule rec)
  qed
qed simp

text \<open>What the assignment leaves alone, and what it promises of the names.\<close>

definition slots_ok :: "backend list \<Rightarrow> string list \<Rightarrow> job_slot list \<Rightarrow> bool" where
  "slots_ok workers taken slots \<longleftrightarrow>
     distinct (slot_saves slots) \<and> set (slot_saves slots) \<inter> set taken = {} \<and> '''' \<notin> set (slot_saves slots) \<and>
     list_all (\<lambda>s. case s of SlotRefused _ \<Rightarrow> True | SlotStarted b _ _ _ \<Rightarrow> b \<in> set workers) slots"

definition same_work :: "job \<Rightarrow> job \<Rightarrow> bool" where
  "same_work a b \<longleftrightarrow> jb_ID a = jb_ID b \<and> jb_Status a = jb_Status b \<and> jb_Tasks a = jb_Tasks b \<and> jb_Docs a = jb_Docs b \<and>
     jb_FinishAsked a = jb_FinishAsked b"

lemma assign_slots_ok:
  assumes "assign_slots lib busy workers now used taken k ts job = Some (slots, job')" "job_ok job" "workers \<noteq> []"
  shows "job_ok job' \<and> same_work job' job \<and> slots_ok workers taken slots \<and> length slots = length ts"
  using assms(1,2)
proof (induction ts arbitrary: used taken k job slots)
  case Nil
  then show ?case by (simp add: slots_ok_def same_work_def)
next
  case (Cons t ts)
  show ?case
  proof (cases "missingContext lib job (ju_Context t) \<noteq> ''''")
    case True
    with Cons.prems(1) obtain rest r where
        r: "assign_slots lib busy workers now used (taken @ [ju_SaveAs t]) (Suc k) ts job = Some (rest, job')"
        and slots: "slots = SlotRefused r # rest"
      by (auto simp: Let_def)
    from Cons.IH [OF r Cons.prems(2)] show ?thesis by (auto simp: slots slots_ok_def)
  next
    case False
    obtain b where b: "fastestFree (busy k) workers used = Some b" "b \<in> set workers" by (rule fastestFree_some [OF assms(3)])
    define base where "base = save_base lib job k t"
    obtain save where save: "free_name (length taken) base 2 taken base = Some save"
      using free_name_total [of taken base] by blast
    have s: "save \<notin> set taken" "save \<noteq> ''''"
      using free_name_fresh [OF save] free_name_nonempty [OF save] by (simp_all add: base_def save_base_def Let_def)
    from Cons.prems(1) obtain rest sys p ev where
        r: "assign_slots lib busy workers now (b_NodeID b # used) (taken @ [save]) (Suc k) ts (log_event ''delegate'' ev now job) = Some (rest, job')"
        and slots: "slots = SlotStarted b save sys p # rest"
      using False b(1) save [unfolded base_def] by (auto simp: Let_def)
    from Cons.IH [OF r job_ok_event [OF Cons.prems(2)]] show ?thesis
      using s b(2) by (auto simp: slots slots_ok_def same_work_def)
  qed
qed

subsection \<open>The ends of the subtasks, in any order\<close>

text \<open>The goroutine of slot \<open>i\<close> ends: \<open>ended\<close> holds the result lines so far.\<close>

definition slot_end ::
  "job_lib \<Rightarrow> job_slot list \<Rightarrow> backend \<times> (string + string) \<Rightarrow> string \<Rightarrow> go_time \<Rightarrow> nat \<Rightarrow> job \<times> (nat \<rightharpoonup> string) \<Rightarrow> job \<times> (nat \<rightharpoonup> string)" where
  "slot_end lib slots r secs now i s =
     (case slots ! i of
        SlotRefused _ \<Rightarrow> s
      | SlotStarted _ save _ _ \<Rightarrow>
          (let (job, line) = subtask_end lib save r secs now (fst s) in (job, (snd s)(i \<mapsto> line))))"

definition started :: "job_slot list \<Rightarrow> nat list" where
  "started slots = filter (\<lambda>i. slot_save (slots ! i) \<noteq> None) [0..<length slots]"

fun run_slots ::
  "job_lib \<Rightarrow> job_slot list \<Rightarrow> (nat \<Rightarrow> backend \<times> (string + string)) \<Rightarrow> (nat \<Rightarrow> string) \<Rightarrow> (nat \<Rightarrow> go_time) \<Rightarrow> nat list \<Rightarrow>
   job \<times> (nat \<rightharpoonup> string) \<Rightarrow> job \<times> (nat \<rightharpoonup> string)" where
  "run_slots lib slots out secs now [] s = s"
| "run_slots lib slots out secs now (i # is) s =
     run_slots lib slots out secs now is (slot_end lib slots (out i) (secs i) (now i) i s)"

text \<open>What a slot that ended well writes: the name, with the text and its author.\<close>

definition slot_text :: "job_slot list \<Rightarrow> (nat \<Rightarrow> backend \<times> (string + string)) \<Rightarrow> nat \<Rightarrow> (string \<times> string \<times> string) option" where
  "slot_text slots out i =
     (case (slot_save (slots ! i), out i) of
        (Some save, b, Inr txt) \<Rightarrow> if txt = '''' then None else Some (save, txt, workerName b)
      | _ \<Rightarrow> None)"

definition slot_line :: "job_lib \<Rightarrow> job_slot list \<Rightarrow> (nat \<Rightarrow> backend \<times> (string + string)) \<Rightarrow> nat \<Rightarrow> string" where
  "slot_line lib slots out i =
     (let save = the (slot_save (slots ! i)); (b, r) = out i
      in case slot_text slots out i of
           None \<Rightarrow> save @ '': error from '' @ workerName b @ '': '' @ (case r of Inl e \<Rightarrow> e | Inr _ \<Rightarrow> ''empty answer'')
         | Some (_, txt, _) \<Rightarrow>
             save @ '' '' @ arrow_from @ '' '' @ workerName b @ '' ('' @ words_text txt @ '' words): '' @ jl_quote lib (clip txt jobPreviewBytes))"

definition doc_of :: "job \<Rightarrow> string \<rightharpoonup> string \<times> string" where
  "doc_of job name = map_option (\<lambda>d. (jd_Text d, jd_Author d)) (findDoc job name)"

definition mark_set :: "string set \<Rightarrow> job_task list \<Rightarrow> job_task list" where
  "mark_set names ts = map (\<lambda>t. if jt_Doc t \<in> names then t\<lparr>jt_Status := ''done''\<rparr> else t) ts"

lemma find_set_doc:
  "find (\<lambda>e. jd_Name e = name) (set_doc d ds) =
     (if name = jd_Name d then
        Some (case find (\<lambda>e. jd_Name e = name) ds of
                None \<Rightarrow> d
              | Some e \<Rightarrow> e\<lparr>jd_Text := jd_Text d, jd_Author := jd_Author d, jd_Updated := jd_Updated d\<rparr>)
      else find (\<lambda>e. jd_Name e = name) ds)"
  by (induction ds) auto

lemma doc_of_event [simp]: "doc_of (log_event k t now job) = doc_of job"
  by (rule ext) (simp add: doc_of_def findDoc_def)

lemma doc_of_putDoc: "doc_of (putDoc name txt author now job) = (doc_of job)(name \<mapsto> (txt, author))"
  by (rule ext) (simp add: doc_of_def findDoc_def putDoc_def find_set_doc split: option.split)

lemma slot_end_effect:
  assumes "slot_save (slots ! i) \<noteq> None"
  shows "doc_of (fst (slot_end lib slots (out i) secs now i s)) =
      (case slot_text slots out i of None \<Rightarrow> doc_of (fst s) | Some (n, v) \<Rightarrow> (doc_of (fst s))(n \<mapsto> v))"
    "jb_Tasks (fst (slot_end lib slots (out i) secs now i s)) =
      (case slot_text slots out i of None \<Rightarrow> jb_Tasks (fst s) | Some (n, v) \<Rightarrow> mark_done n (jb_Tasks (fst s)))"
    "jb_FinishAsked (fst (slot_end lib slots (out i) secs now i s)) =
      (case slot_text slots out i of None \<Rightarrow> jb_FinishAsked (fst s) | Some _ \<Rightarrow> False)"
    "snd (slot_end lib slots (out i) secs now i s) = (snd s)(i \<mapsto> slot_line lib slots out i)"
  using assms
  by (auto simp: slot_end_def slot_text_def slot_line_def slot_save_def subtask_end_def Let_def doc_of_putDoc
      split: job_slot.splits prod.splits sum.splits)

lemma mark_set_simps [simp]: "mark_set {} ts = ts" "mark_set A (mark_done n ts) = mark_set (insert n A) ts"
  by (simp_all add: mark_set_def mark_done_def)

text \<open>The effect of a run of ends is determined by the pairs they write.\<close>

lemma run_slots_effect:
  fixes lib secs now s
  assumes "distinct is" "\<And>i. i \<in> set is \<Longrightarrow> slot_save (slots ! i) \<noteq> None"
    and "distinct (map fst (List.map_filter (slot_text slots out) is))"
  defines "ps \<equiv> List.map_filter (slot_text slots out) is"
    and "r \<equiv> run_slots lib slots out secs now is s"
  shows "doc_of (fst r) = doc_of (fst s) ++ map_of ps \<and> jb_Tasks (fst r) = mark_set (fst ` set ps) (jb_Tasks (fst s)) \<and>
    jb_FinishAsked (fst r) = (jb_FinishAsked (fst s) \<and> ps = []) \<and>
    snd r = (\<lambda>i. if i \<in> set is then Some (slot_line lib slots out i) else snd s i)"
  unfolding ps_def r_def using assms(1-3)
proof (induction "is" arbitrary: s)
  case Nil
  then show ?case by (simp add: List.map_filter_def)
next
  case (Cons i js)
  have i: "slot_save (slots ! i) \<noteq> None" and js: "\<And>k. k \<in> set js \<Longrightarrow> slot_save (slots ! k) \<noteq> None"
    using Cons.prems(2) by auto
  have d: "distinct js" "distinct (map fst (List.map_filter (slot_text slots out) js))"
    using Cons.prems(1,3) by (auto simp: List.map_filter_simps split: option.splits)
  note IH = Cons.IH [OF d(1) js d(2)] and eff = slot_end_effect [where lib = lib and out = out and s = s, OF i]
  have new: "n \<notin> dom (map_of (List.map_filter (slot_text slots out) js))" if "slot_text slots out i = Some (n, v)" for n v
    using Cons.prems(3) that by (simp add: List.map_filter_simps dom_map_of_conv_image_fst)
  show ?case
  proof (intro conjI)
    show "snd (run_slots lib slots out secs now (i # js) s) =
        (\<lambda>k. if k \<in> set (i # js) then Some (slot_line lib slots out k) else snd s k)"
      using Cons.prems(1) by (auto simp: IH eff fun_eq_iff)
    show "doc_of (fst (run_slots lib slots out secs now (i # js) s)) =
        doc_of (fst s) ++ map_of (List.map_filter (slot_text slots out) (i # js))"
    proof (cases "slot_text slots out i")
      case (Some nv)
      obtain n v where nv: "nv = (n, v)" by (cases nv)
      with Some new [of n v] show ?thesis
        by (auto simp: IH eff List.map_filter_simps fun_eq_iff map_add_def split: option.split)
    qed (simp add: IH eff List.map_filter_simps)
  qed (simp_all add: IH eff List.map_filter_simps split: option.split)
qed

text \<open>Slots that write to distinct names give pairs with distinct names, whatever the order.\<close>

lemma map_filter_eq: "List.map_filter f xs = map (the \<circ> f) (filter (\<lambda>x. f x \<noteq> None) xs)"
  by (simp add: List.map_filter_def)

lemma set_started: "set (started slots) = {i. i < length slots \<and> slot_save (slots ! i) \<noteq> None}"
  by (auto simp: started_def)

lemma slot_save_inj:
  assumes "distinct (slot_saves slots)"
  shows "inj_on (\<lambda>i. slot_save (slots ! i)) (set (started slots))"
  using assms
proof (induction slots)
  case (Cons s ss)
  have mem: "a \<in> set (slot_saves ss)" if "k < length ss" "slot_save (ss ! k) = Some a" for k a
    using that by (auto simp: slot_saves_def map_filter_eq intro!: image_eqI [of _ _ "ss ! k"])
  have d: "distinct (slot_saves ss)" and s: "slot_save s = Some a \<Longrightarrow> a \<notin> set (slot_saves ss)" for a
    using Cons.prems by (auto simp: slot_saves_def List.map_filter_simps split: option.splits)
  show ?case
  proof (rule inj_onI)
    fix i j
    assume ij: "i \<in> set (started (s # ss))" "j \<in> set (started (s # ss))" and eq: "slot_save ((s # ss) ! i) = slot_save ((s # ss) ! j)"
    from ij obtain a where a: "slot_save ((s # ss) ! i) = Some a" by (auto simp: set_started)
    show "i = j"
    proof (cases i; cases j)
      fix k l assume "i = Suc k" "j = Suc l"
      with ij eq Cons.IH [OF d] show "i = j" by (auto simp: set_started dest!: inj_onD)
    next
      fix k assume "i = 0" "j = Suc k"
      with ij eq a mem [of k a] s [of a] show "i = j" by (simp add: set_started)
    next
      fix k assume "i = Suc k" "j = 0"
      with ij eq a mem [of k a] s [of a] show "i = j" by (simp add: set_started)
    qed simp
  qed
qed (simp add: started_def)

lemma slot_texts_distinct:
  assumes "distinct (slot_saves slots)" "distinct is" "set is \<subseteq> set (started slots)"
  shows "distinct (map fst (List.map_filter (slot_text slots out) is))"
proof -
  have wr: "slot_save (slots ! i) = Some n" if "slot_text slots out i = Some (n, v)" for i n v
    using that by (auto simp: slot_text_def split: option.splits prod.splits sum.splits if_splits)
  have "inj_on (fst \<circ> (the \<circ> slot_text slots out)) (set (filter (\<lambda>i. slot_text slots out i \<noteq> None) is))"
  proof (rule inj_onI)
    fix i j
    assume ij: "i \<in> set (filter (\<lambda>i. slot_text slots out i \<noteq> None) is)" "j \<in> set (filter (\<lambda>i. slot_text slots out i \<noteq> None) is)"
      and eq: "(fst \<circ> (the \<circ> slot_text slots out)) i = (fst \<circ> (the \<circ> slot_text slots out)) j"
    from ij obtain n v m w where nv: "slot_text slots out i = Some (n, v)" "slot_text slots out j = Some (m, w)" by auto
    with eq have "slot_save (slots ! i) = slot_save (slots ! j)" by (simp add: wr)
    with slot_save_inj [OF assms(1)] ij assms(3) show "i = j" by (auto dest: inj_onD)
  qed
  with assms(2) show ?thesis by (simp add: map_filter_eq distinct_map)
qed

lemma run_slots_any_order:
  fixes out secs now secs' now'
  assumes start: "delegate_start lib busy workers raw t0 job = Some (Inr (slots, job1))" and ok: "job_ok job"
    and p: "distinct p" "set p = set (started slots)" and q: "distinct q" "set q = set (started slots)"
  defines "a \<equiv> run_slots lib slots out secs now p (job1, Map.empty)"
    and "b \<equiv> run_slots lib slots out secs' now' q (job1, Map.empty)"
  shows "delegate_result slots (snd a) = delegate_result slots (snd b) \<and> doc_of (fst a) = doc_of (fst b) \<and>
    jb_Tasks (fst a) = jb_Tasks (fst b) \<and> jb_FinishAsked (fst a) = jb_FinishAsked (fst b)"
proof -
  from start obtain tasks where w: "workers \<noteq> []" and s: "assign_slots lib busy workers t0 [] [] 0 tasks job = Some (slots, job1)"
    by (auto simp: delegate_start_def split: if_splits option.splits)
  from assign_slots_ok [OF s ok w] have dist: "distinct (slot_saves slots)" by (simp add: slots_ok_def)
  let ?ps = "\<lambda>is. List.map_filter (slot_text slots out) is"
  have saved: "\<And>i. i \<in> set p \<Longrightarrow> slot_save (slots ! i) \<noteq> None" "\<And>i. i \<in> set q \<Longrightarrow> slot_save (slots ! i) \<noteq> None"
    using p(2) q(2) by (simp_all add: set_started)
  have dp: "distinct (map fst (?ps p))" and dq: "distinct (map fst (?ps q))"
    by (rule slot_texts_distinct [OF dist]; simp add: p q)+
  have same: "set (?ps p) = set (?ps q)"
    using p(2) q(2) by (simp add: map_filter_eq)
  then have "map_of (?ps p) = map_of (?ps q)" using dp dq by (simp add: map_of_inject_set)
  moreover from same have "?ps p = [] \<longleftrightarrow> ?ps q = []" by (metis set_empty)
  moreover note run_slots_effect [OF p(1) saved(1) dp, where lib = lib and secs = secs and now = now and s = "(job1, Map.empty)"]
    run_slots_effect [OF q(1) saved(2) dq, where lib = lib and secs = secs' and now = now' and s = "(job1, Map.empty)"]
  ultimately show ?thesis unfolding a_def b_def using same p(2) q(2) by simp
qed

subsection \<open>Theorems\<close>

text \<open>
  C33. The order in which the parallel subtasks of one delegation end, and how long they take, does
  not change its result: whatever worker and outcome each subtask has, for two orders \<open>p\<close> and \<open>q\<close> of
  their ends the orchestrator gets the same result text, and the job has the same text and author
  under every document name, the same task list and the same pending check of finish.
\<close>

theorem delegate_order_irrelevant:
  assumes "delegate_start lib busy workers raw t0 job = Some (Inr (slots, job1))" "job_ok job"
    and "distinct p" "set p = set (started slots)" "distinct q" "set q = set (started slots)"
  shows "delegate_result slots (snd (run_slots lib slots out secs now p (job1, Map.empty))) =
      delegate_result slots (snd (run_slots lib slots out secs' now' q (job1, Map.empty)))
    \<and> doc_of (fst (run_slots lib slots out secs now p (job1, Map.empty))) =
      doc_of (fst (run_slots lib slots out secs' now' q (job1, Map.empty)))
    \<and> jb_Tasks (fst (run_slots lib slots out secs now p (job1, Map.empty))) =
      jb_Tasks (fst (run_slots lib slots out secs' now' q (job1, Map.empty)))
    \<and> jb_FinishAsked (fst (run_slots lib slots out secs now p (job1, Map.empty))) =
      jb_FinishAsked (fst (run_slots lib slots out secs' now' q (job1, Map.empty)))"
  by (rule run_slots_any_order [OF assms])

definition sample_job_lib :: job_lib where
  "sample_job_lib =
     \<lparr>jl_args = (\<lambda>raw. Inr \<lparr>ja_Tasks = raw, ja_Name = raw, ja_Text = raw, ja_Question = raw, ja_Summary = raw, ja_Docs = [raw], ja_Language = ''''\<rparr>),
      jl_plan = (\<lambda>raw. Some [\<lparr>pe_Title = raw, pe_Doc = raw\<rparr>]),
      jl_subtasks = (\<lambda>raw. Some [\<lparr>ju_Task = raw, ju_Context = [], ju_SaveAs = ''a''\<rparr>, \<lparr>ju_Task = raw, ju_Context = [], ju_SaveAs = ''a''\<rparr>]),
      jl_lower = (\<lambda>s. s), jl_quote = (\<lambda>s. s)\<rparr>"

lemma job_ok_new: "job_ok (new_job nid title goal princ pool now)"
  by (simp add: new_job_def Let_def job_ok_def log_ok_def steps_ok_def work_ok_def consecutive_def named_docs_def jobMaxNoTool_def)

lemma sample_delegate_start:
  "\<exists>slots job1. delegate_start sample_job_lib (\<lambda>_ _. 0) [sample_backend ''w'' ''m'' 1 False] ''write'' 0 (new_job ''j'' '''' ''g'' '''' '''' 0)
      = Some (Inr (slots, job1)) \<and> slot_saves slots = [''a'', ''a_2''] \<and> set (started slots) = {0, 1}"
proof -
  have n: "docName sample_job_lib ''a'' = ''a''"
    by (simp add: docName_def sample_job_lib_def trim_space_def is_space_def name_char_def less_eq_char_def)
  have f: "free_name 0 ''a'' 2 [] ''a'' = Some ''a''" "free_name (Suc 0) ''a'' 2 [''a''] ''a'' = Some ''a_2''"
    by code_simp+
  have sub: "jl_subtasks sample_job_lib raw =
      Some [\<lparr>ju_Task = raw, ju_Context = [], ju_SaveAs = ''a''\<rparr>, \<lparr>ju_Task = raw, ju_Context = [], ju_SaveAs = ''a''\<rparr>]" for raw
    by (simp add: sample_job_lib_def)
  have "\<exists>b1 s1 p1 b2 s2 p2 job1. delegate_start sample_job_lib (\<lambda>_ _. 0) [sample_backend ''w'' ''m'' 1 False] ''write'' 0 (new_job ''j'' '''' ''g'' '''' '''' 0)
      = Some (Inr ([SlotStarted b1 ''a'' s1 p1, SlotStarted b2 ''a_2'' s2 p2], job1))"
    using n f sub by (simp add: delegate_start_def fastestFree_def save_base_def Let_def)
  then obtain b1 s1 p1 b2 s2 p2 job1 where st: "delegate_start sample_job_lib (\<lambda>_ _. 0) [sample_backend ''w'' ''m'' 1 False] ''write'' 0 (new_job ''j'' '''' ''g'' '''' '''' 0)
      = Some (Inr ([SlotStarted b1 ''a'' s1 p1, SlotStarted b2 ''a_2'' s2 p2], job1))"
    by blast
  have "set (started [SlotStarted b1 ''a'' s1 p1, SlotStarted b2 ''a_2'' s2 p2]) = {0, 1}"
    by (auto simp: set_started slot_save_def less_Suc_eq)
  with st show ?thesis by (intro exI conjI) (assumption, simp_all)
qed

theorem delegate_order_irrelevant_witness:
  "\<exists>slots job1. delegate_start sample_job_lib (\<lambda>_ _. 0) [sample_backend ''w'' ''m'' 1 False] ''write'' 0 (new_job ''j'' '''' ''g'' '''' '''' 0)
       = Some (Inr (slots, job1)) \<and> slot_saves slots = [''a'', ''a_2''] \<and>
     delegate_result slots (snd (run_slots sample_job_lib slots (\<lambda>_. (sample_backend ''w'' ''m'' 1 False, Inr ''hi'')) (\<lambda>_. ''1'') (\<lambda>_. 5) [0, 1] (job1, Map.empty))) =
     delegate_result slots (snd (run_slots sample_job_lib slots (\<lambda>_. (sample_backend ''w'' ''m'' 1 False, Inr ''hi'')) (\<lambda>_. ''2'') (\<lambda>_. 6) [1, 0] (job1, Map.empty)))"
proof -
  obtain slots job1 where s: "delegate_start sample_job_lib (\<lambda>_ _. 0) [sample_backend ''w'' ''m'' 1 False] ''write'' 0 (new_job ''j'' '''' ''g'' '''' '''' 0)
      = Some (Inr (slots, job1))" "slot_saves slots = [''a'', ''a_2'']" "set (started slots) = {0, 1}"
    using sample_delegate_start by blast
  have o: "distinct [0, 1 :: nat]" "set [0, 1] = set (started slots)" "distinct [1, 0 :: nat]" "set [1, 0] = set (started slots)"
    using s(3) by auto
  from s(1,2) conjunct1 [OF delegate_order_irrelevant [OF s(1) job_ok_new o]] show ?thesis by blast
qed

text \<open>
  A number makes a name longer than \<open>docName\<close> lets one be: such a document cannot be named in
  read_doc, a context or finish, where its name reads as the document it was numbered after.
\<close>

lemma numbered_name_unreachable:
  "let base = docName sample_job_lib (replicate 40 (CHR ''a''))
   in free_name 1 base 2 [base] base = Some (base @ ''_2'') \<and> docName sample_job_lib (base @ ''_2'') = base"
  by code_simp

text \<open>A planned task without a document stays to do whatever is written.\<close>

lemma task_without_doc_open: "job_ok job \<Longrightarrow> t \<in> set (jb_Tasks job) \<Longrightarrow> jt_Doc t = '''' \<Longrightarrow> jt_Status t = ''todo''"
  by (auto simp: job_ok_def work_ok_def list_all_iff task_ok_def)

end
