(* ===== verification/Jobs.thy ===== *)
theory Jobs
  imports JobOps
begin

text \<open>
  The store of Super Borg jobs and its runner (\<^verbatim>\<open>controller/gateway/jobs.go\<close>).

  The code shares one \<open>*Job\<close> between the map of jobs and the runner, also after the job is deleted
  from the map: \<open>jj_heap\<close> holds every job by its id, and \<open>jj_ids\<close> are the ids in the map, in one
  iteration order.  The runner is the relation \<open>runner\<close>, one rule per critical section, with the
  program counter \<open>pc\<close>; the calls of the API, the end of the controller and its restart interleave
  with it in \<open>system\<close>.
\<close>

subsection \<open>The store\<close>

text \<open>
  \<open>jj_stop\<close>: the field \<open>stop\<close> is set; \<open>jj_cancelled\<close>: the context of the run has ended;
  \<open>jj_shutdown\<close>: the controller's context has ended; \<open>jj_files\<close>: the stored files by id;
  \<open>jj_issued\<close>: the ids that \<open>newID\<close> gave out, which it never gives again.
\<close>

record jobs =
  jj_heap :: "string \<rightharpoonup> job"
  jj_ids :: "string list"
  jj_dir :: bool
  jj_files :: "(string \<times> job) list"
  jj_running :: string
  jj_stop :: bool
  jj_cancelled :: bool
  jj_shutdown :: bool
  jj_wake :: bool
  jj_issued :: "string set"

datatype job_err = ErrJobNotFound | EmptyMessage | RemoveFailed

text \<open>The stored form: \<open>noTool\<close> is not stored.\<close>

definition stored :: "job \<Rightarrow> job" where
  "stored job = job\<lparr>jb_noTool := 0\<rparr>"

definition job_at :: "jobs \<Rightarrow> string \<Rightarrow> job option" where
  "job_at s i = (if i \<in> set (jj_ids s) then jj_heap s i else None)"

definition set_job :: "string \<Rightarrow> job \<Rightarrow> jobs \<Rightarrow> jobs" where
  "set_job i job s = s\<lparr>jj_heap := (jj_heap s)(i \<mapsto> job)\<rparr>"

text \<open>\<open>saveLocked\<close>; \<open>ok\<close> tells whether the disk works.  A deleted job is not stored again.\<close>

definition saveLocked :: "bool \<Rightarrow> string \<Rightarrow> jobs \<Rightarrow> jobs" where
  "saveLocked ok i s =
     (case job_at s i of
        None \<Rightarrow> s
      | Some job \<Rightarrow> if \<not> jj_dir s then s else if ok then s\<lparr>jj_files := AList.update i (stored job) (jj_files s)\<rparr> else s)"

definition poke :: "jobs \<Rightarrow> jobs" where
  "poke s = s\<lparr>jj_wake := True\<rparr>"

text \<open>\<open>LoadJobs\<close> on the files in the order of \<open>Glob\<close>, each with its error or its job.\<close>

fun load_files :: "(string \<times> (string + job)) list \<Rightarrow> (string \<times> job) list \<Rightarrow> string + (string \<times> job) list" where
  "load_files [] acc = Inr acc"
| "load_files ((f, r) # fs) acc =
     (case r of
        Inl err \<Rightarrow> Inl err
      | Inr job \<Rightarrow>
          (let job = (if jb_Status job = JobRunning then job\<lparr>jb_Status := JobQueued\<rparr> else job)
           in load_files fs (AList.update (jb_ID job) job acc)))"

definition LoadJobs :: "bool \<Rightarrow> (string \<times> (string + job)) list \<Rightarrow> string + (string \<times> job) list" where
  "LoadJobs dir files = (if \<not> dir then Inr [] else load_files files [])"

definition NewJobs :: "bool \<Rightarrow> (string \<times> job) list \<Rightarrow> (string \<times> job) list \<Rightarrow> string set \<Rightarrow> jobs" where
  "NewJobs dir loaded files issued =
     \<lparr>jj_heap = map_of loaded, jj_ids = map fst loaded, jj_dir = dir, jj_files = files, jj_running = '''', jj_stop = False,
      jj_cancelled = False, jj_shutdown = False, jj_wake = False, jj_issued = issued\<rparr>"

subsection \<open>The API\<close>

text \<open>\<open>next\<close>: the first of the oldest queued jobs in the map's order.\<close>

fun oldest_queued :: "(string \<rightharpoonup> job) \<Rightarrow> job option \<Rightarrow> string list \<Rightarrow> job option" where
  "oldest_queued h best [] = best"
| "oldest_queued h best (i # is) =
     oldest_queued h
       (case h i of
          None \<Rightarrow> best
        | Some job \<Rightarrow>
            if jb_Status job = JobQueued \<and> (case best of None \<Rightarrow> True | Some b \<Rightarrow> jb_Created job < jb_Created b) then Some job else best) is"

definition next_job :: "jobs \<Rightarrow> string option" where
  "next_job s = map_option jb_ID (oldest_queued (jj_heap s) None (jj_ids s))"

definition Create :: "string \<Rightarrow> string \<Rightarrow> string \<Rightarrow> string \<Rightarrow> string \<Rightarrow> go_time \<Rightarrow> bool \<Rightarrow> jobs \<Rightarrow> job_summary \<times> jobs" where
  "Create nid title goal princ pool now ok s =
     (let job = log_event ''user'' (trim_space goal) now (new_job nid title goal princ pool now);
          s = set_job nid job (s\<lparr>jj_ids := jj_ids s @ [nid], jj_issued := insert nid (jj_issued s)\<rparr>)
      in (summarize job, poke (saveLocked ok nid s)))"

text \<open>The sort by \<open>Created\<close> is not stable; on equal times this is one of its results.\<close>

definition List_jobs :: "jobs \<Rightarrow> job_summary list" where
  "List_jobs s = sort_key (\<lambda>m. - sm_Created m) (map (\<lambda>i. summarize (the (jj_heap s i))) (jj_ids s))"

definition Get :: "string \<Rightarrow> jobs \<Rightarrow> job_err + job" where
  "Get i s =
     (case job_at s i of
        None \<Rightarrow> Inl ErrJobNotFound
      | Some job \<Rightarrow> Inr ((stored job)\<lparr>jb_Docs := map (\<lambda>d. d\<lparr>jd_Text := clip (jd_Text d) jobPreviewBytes\<rparr>) (jb_Docs job)\<rparr>))"

definition Doc :: "string \<Rightarrow> string \<Rightarrow> jobs \<Rightarrow> job_err + job_doc" where
  "Doc i name s =
     (case job_at s i of
        None \<Rightarrow> Inl ErrJobNotFound
      | Some job \<Rightarrow> (case findDoc job name of None \<Rightarrow> Inl ErrJobNotFound | Some d \<Rightarrow> Inr d))"

definition Say :: "string \<Rightarrow> string \<Rightarrow> go_time \<Rightarrow> bool \<Rightarrow> jobs \<Rightarrow> job_err + jobs" where
  "Say i msg now ok s =
     (let msg = trim_space msg
      in if msg = '''' then Inl EmptyMessage
         else case job_at s i of
           None \<Rightarrow> Inl ErrJobNotFound
         | Some job \<Rightarrow>
             (let job = log_event ''user'' msg now (job\<lparr>jb_Messages := jb_Messages job @ [msg]\<rparr>);
                  job = (if jb_Status job \<noteq> JobRunning then job\<lparr>jb_Status := JobQueued, jb_Question := '''', jb_Error := ''''\<rparr> else job)
              in Inr (poke (saveLocked ok i (set_job i job s)))))"

text \<open>\<open>stop()\<close> ends the context of the current run.\<close>

definition stop_run :: "job \<Rightarrow> jobs \<Rightarrow> jobs" where
  "stop_run job s = (if jb_Status job = JobRunning \<and> jj_stop s then s\<lparr>jj_cancelled := True\<rparr> else s)"

definition Cancel :: "string \<Rightarrow> go_time \<Rightarrow> bool \<Rightarrow> jobs \<Rightarrow> job_err + jobs" where
  "Cancel i now ok s =
     (case job_at s i of
        None \<Rightarrow> Inl ErrJobNotFound
      | Some job \<Rightarrow>
          Inr (saveLocked ok i (set_job i (log_event ''status'' ''cancelled'' now (job\<lparr>jb_Status := JobCancelled\<rparr>)) (stop_run job s))))"

text \<open>\<open>Delete\<close>: when the file cannot be removed the job has left the map all the same.\<close>

definition Delete :: "string \<Rightarrow> bool \<Rightarrow> jobs \<Rightarrow> job_err option \<times> jobs" where
  "Delete i ok s =
     (case job_at s i of
        None \<Rightarrow> (Some ErrJobNotFound, s)
      | Some job \<Rightarrow>
          (let s = (stop_run job s)\<lparr>jj_ids := remove1 i (jj_ids s)\<rparr>
           in if \<not> jj_dir s then (None, s)
              else if ok then (None, s\<lparr>jj_files := AList.delete i (jj_files s)\<rparr>)
              else (Some RemoveFailed, s)))"

fun doc_names :: "string list \<Rightarrow> job_task list \<Rightarrow> string list" where
  "doc_names names [] = names"
| "doc_names names (t # ts) =
     doc_names (if jt_Doc t \<noteq> '''' \<and> jt_Doc t \<notin> set names then names @ [jt_Doc t] else names) ts"

definition Result :: "string \<Rightarrow> jobs \<Rightarrow> job_err + string" where
  "Result i s =
     (case job_at s i of
        None \<Rightarrow> Inl ErrJobNotFound
      | Some job \<Rightarrow>
          (let names = (if length (jb_Result job) = 0 then doc_names [] (jb_Tasks job) else jb_Result job)
           in Inr (''# '' @ jb_Title job @ nl @ nl @
                concat (map (\<lambda>n. case findDoc job n of None \<Rightarrow> '''' | Some d \<Rightarrow> trim_space (jd_Text d) @ nl @ nl) names))))"

subsection \<open>The runner\<close>

text \<open>The job being run, the loop counter \<open>n\<close> and the errors in a row.\<close>

record run_ctx =
  rn_id :: string
  rn_n :: nat
  rn_fail :: nat

datatype step_err = ErrBadPool string | ErrNoNode | ErrOther string

definition err_text :: "step_err \<Rightarrow> string" where
  "err_text e = (case e of ErrBadPool m \<Rightarrow> m | ErrNoNode \<Rightarrow> ''no ready node to orchestrate; retrying'' | ErrOther m \<Rightarrow> m)"

datatype pc =
    Resting
  | Idle
  | Chosen string
  | Looping run_ctx
  | Stepping run_ctx
  | Calling run_ctx backend "backend list" bool job_request
  | Silent run_ctx backend
  | Counting run_ctx backend
  | Acting run_ctx "backend list" bool "tool_call list"
  | Delegating run_ctx "backend list" bool "job_slot list" "nat \<rightharpoonup> string" tool_call "tool_call list"
  | Recording run_ctx "backend list" bool tool_call string "tool_call list"
  | Checking run_ctx "backend list" bool "tool_call list"
  | Ending run_ctx
  | Errored run_ctx step_err
  | Failing run_ctx step_err
  | Pausing run_ctx
  | Leaving run_ctx
  | Stopped

definition budget_text :: string where
  "budget_text =
     ''Step budget of '' @ itoa (int jobMaxStepsPerRun) @ '' steps reached; send a message (e.g. \"continue\") to go on.''"

text \<open>The critical sections of \<open>run\<close>: its start, the top of the loop, the end of a step, an error.\<close>

definition run_begin :: "string \<Rightarrow> go_time \<Rightarrow> bool \<Rightarrow> jobs \<Rightarrow> jobs \<times> pc" where
  "run_begin i now ok s =
     (case job_at s i of
        None \<Rightarrow> (s, Resting)
      | Some job \<Rightarrow>
          if jb_Status job \<noteq> JobQueued then (s, Resting)
          else
            (let s = s\<lparr>jj_running := i, jj_stop := True, jj_cancelled := jj_shutdown s\<rparr>
             in (saveLocked ok i (set_job i (log_event ''status'' ''running'' now (job\<lparr>jb_Status := JobRunning\<rparr>)) s),
                 Looping \<lparr>rn_id = i, rn_n = 0, rn_fail = 0\<rparr>)))"

definition run_top :: "run_ctx \<Rightarrow> go_time \<Rightarrow> bool \<Rightarrow> job \<Rightarrow> jobs \<Rightarrow> jobs \<times> pc" where
  "run_top r now ok job s =
     (if jj_cancelled s \<or> jb_Status job \<noteq> JobRunning then (s, Leaving r)
      else if rn_n r \<ge> jobMaxStepsPerRun then
        (saveLocked ok (rn_id r) (set_job (rn_id r)
           (log_event ''status'' budget_text now (job\<lparr>jb_Status := JobWaiting, jb_Question := budget_text\<rparr>)) s), Leaving r)
      else (s, Stepping r))"

definition run_step :: "job_lib \<Rightarrow> job_view \<Rightarrow> run_ctx \<Rightarrow> job \<Rightarrow> pc" where
  "run_step lib gv r job =
     (case step_start lib gv job of
        StartBadPool m \<Rightarrow> Errored r (ErrBadPool m)
      | StartNoNode \<Rightarrow> Errored r ErrNoNode
      | StartCall orch workers canPlan req \<Rightarrow> Calling r orch workers canPlan req)"

definition run_answer :: "run_ctx \<Rightarrow> backend \<Rightarrow> backend list \<Rightarrow> bool \<Rightarrow> string \<Rightarrow> tool_call list \<Rightarrow> go_time \<Rightarrow> job \<Rightarrow> job \<times> pc" where
  "run_answer r orch workers canPlan sent calls now job =
     (let job = think_event sent now job
      in if length calls = 0 then (job, Silent r orch)
         else (job\<lparr>jb_noTool := 0\<rparr>, Acting r workers canPlan calls))"

definition run_call ::
  "job_lib \<Rightarrow> (nat \<Rightarrow> inflight) \<Rightarrow> run_ctx \<Rightarrow> backend list \<Rightarrow> bool \<Rightarrow> tool_call \<Rightarrow> tool_call list \<Rightarrow> go_time \<Rightarrow> job \<Rightarrow> (job \<times> pc) option" where
  "run_call lib busy r workers canPlan c cs now job =
     (if repeats job c then
        Some (job, Recording r workers canPlan c ''error: you just made exactly this call; do the NEXT TASK instead'' cs)
      else case tool lib canPlan c now job of
        ToolResult job res \<Rightarrow> Some (job, Recording r workers canPlan c res cs)
      | ToolDelegate raw \<Rightarrow>
          (case delegate_start lib busy workers raw now job of
             None \<Rightarrow> None
           | Some (Inl err) \<Rightarrow> Some (job, Recording r workers canPlan c err cs)
           | Some (Inr (slots, job)) \<Rightarrow> Some (job, Delegating r workers canPlan slots Map.empty c cs)))"

definition run_fail :: "run_ctx \<Rightarrow> step_err \<Rightarrow> go_time \<Rightarrow> bool \<Rightarrow> job \<Rightarrow> jobs \<Rightarrow> jobs \<times> pc" where
  "run_fail r e now ok job s =
     (let job = log_event ''error'' (err_text e) now job
      in case e of
           ErrBadPool m \<Rightarrow>
             (saveLocked ok (rn_id r) (set_job (rn_id r) (job\<lparr>jb_Status := JobWaiting, jb_Question := m\<rparr>) s), Leaving r)
         | ErrNoNode \<Rightarrow> (saveLocked ok (rn_id r) (set_job (rn_id r) job s), Pausing r)
         | ErrOther m \<Rightarrow>
             (let r = r\<lparr>rn_fail := rn_fail r + 1\<rparr>;
                  job = (if rn_fail r \<ge> jobMaxErrors then
                           log_event ''status'' (''failed after '' @ itoa (int (rn_fail r)) @ '' errors in a row; send a message to retry'') now
                             (job\<lparr>jb_Status := JobFailed, jb_Error := m\<rparr>)
                         else job)
              in (saveLocked ok (rn_id r) (set_job (rn_id r) job s), Pausing r)))"

definition run_again :: "run_ctx \<Rightarrow> run_ctx" where
  "run_again r = r\<lparr>rn_n := rn_n r + 1\<rparr>"

text \<open>
  One critical section of the runner.  The clock, the disk, the gateway's view, the answer of the
  orchestrator and the ends of the subtasks are free.
\<close>

inductive runner :: "job_lib \<Rightarrow> jobs \<times> pc \<Rightarrow> jobs \<times> pc \<Rightarrow> bool" for lib where
  Pick: "next_job s = Some i \<Longrightarrow> runner lib (s, Resting) (s, Chosen i)"
| NonePick: "next_job s = None \<Longrightarrow> runner lib (s, Resting) (s, Idle)"
| Wake: "jj_wake s \<Longrightarrow> runner lib (s, Idle) (s\<lparr>jj_wake := False\<rparr>, Resting)"
| Halt: "jj_shutdown s \<Longrightarrow> runner lib (s, Idle) (s, Stopped)"
| Begin: "runner lib (s, Chosen i) (run_begin i now ok s)"
| Top: "jj_heap s (rn_id r) = Some job \<Longrightarrow> runner lib (s, Looping r) (run_top r now ok job s)"
| Start: "jj_heap s (rn_id r) = Some job \<Longrightarrow> runner lib (s, Stepping r) (s, run_step lib gv r job)"
| CallFails: "runner lib (s, Calling r orch workers canPlan req)
      (s, Errored r (ErrOther (''orchestrator '' @ workerName orch @ '': '' @ err)))"
| Answer: "jj_heap s (rn_id r) = Some job \<Longrightarrow> run_answer r orch workers canPlan sent calls now job = (job', p) \<Longrightarrow>
    runner lib (s, Calling r orch workers canPlan req) (set_job (rn_id r) job' s, p)"
| NoCall: "jj_heap s (rn_id r) = Some job \<Longrightarrow>
    runner lib (s, Silent r orch)
      (set_job (rn_id r) (record_step ''none'' '''' ''error: you must call exactly one tool'' now job) s, Counting r orch)"
| Count: "jj_heap s (rn_id r) = Some job \<Longrightarrow>
    runner lib (s, Counting r orch) (set_job (rn_id r) (no_tool_call orch now job) s, Ending r)"
| Call: "jj_heap s (rn_id r) = Some job \<Longrightarrow> run_call lib busy r workers canPlan c cs now job = Some (job', p) \<Longrightarrow>
    runner lib (s, Acting r workers canPlan (c # cs)) (set_job (rn_id r) job' s, p)"
| Subtask: "jj_heap s (rn_id r) = Some job \<Longrightarrow> i \<in> set (started slots) \<Longrightarrow> ended i = None \<Longrightarrow>
    slot_end lib slots out secs now i (job, ended) = (job', ended') \<Longrightarrow>
    runner lib (s, Delegating r workers canPlan slots ended c cs)
      (set_job (rn_id r) job' s, Delegating r workers canPlan slots ended' c cs)"
| Join: "\<forall>i \<in> set (started slots). ended i \<noteq> None \<Longrightarrow>
    runner lib (s, Delegating r workers canPlan slots ended c cs)
      (s, Recording r workers canPlan c (delegate_result slots ended) cs)"
| Record: "jj_heap s (rn_id r) = Some job \<Longrightarrow>
    runner lib (s, Recording r workers canPlan c res cs)
      (set_job (rn_id r) (record_step (tc_Name c) (tc_Arguments c) res now job) s, Checking r workers canPlan cs)"
| Check: "jj_heap s (rn_id r) = Some job \<Longrightarrow>
    runner lib (s, Checking r workers canPlan cs)
      (s, if jb_Status job \<noteq> JobRunning \<or> cs = [] then Ending r else Acting r workers canPlan cs)"
| End: "runner lib (s, Ending r) (saveLocked ok (rn_id r) s, Looping (run_again r\<lparr>rn_fail := 0\<rparr>))"
| ErrorGone: "jj_cancelled s \<Longrightarrow> runner lib (s, Errored r e) (s, Leaving r)"
| Error: "\<not> jj_cancelled s \<Longrightarrow> runner lib (s, Errored r e) (s, Failing r e)"
| Fail: "jj_heap s (rn_id r) = Some job \<Longrightarrow> runner lib (s, Failing r e) (run_fail r e now ok job s)"
| PauseGone: "jj_cancelled s \<Longrightarrow> runner lib (s, Pausing r) (s, Leaving r)"
| Pause: "runner lib (s, Pausing r) (s, Looping (run_again r))"
| Leave: "runner lib (s, Leaving r) (s\<lparr>jj_running := '''', jj_stop := False\<rparr>, Resting)"

text \<open>
  The whole system: a move of the runner, a call of the API, the end of the controller's context,
  or a restart that loads the stored files.
\<close>

inductive system :: "job_lib \<Rightarrow> jobs \<times> pc \<Rightarrow> jobs \<times> pc \<Rightarrow> bool" for lib where
  Runner: "runner lib x y \<Longrightarrow> system lib x y"
| ApiCreate: "nid \<notin> jj_issued s \<Longrightarrow> system lib (s, p) (snd (Create nid title goal princ pool now ok s), p)"
| ApiSay: "Say i msg now ok s = Inr s' \<Longrightarrow> system lib (s, p) (s', p)"
| ApiCancel: "Cancel i now ok s = Inr s' \<Longrightarrow> system lib (s, p) (s', p)"
| ApiDelete: "system lib (s, p) (snd (Delete i ok s), p)"
| Shutdown: "system lib (s, p) (s\<lparr>jj_shutdown := True, jj_cancelled := True\<rparr>, p)"
| Restart: "LoadJobs (jj_dir s) (map (\<lambda>(i, job). (i, Inr job)) (jj_files s)) = Inr loaded \<Longrightarrow>
    system lib (s, p) (NewJobs (jj_dir s) loaded (jj_files s) (jj_issued s), Resting)"

text \<open>The states reached from an empty store.\<close>

inductive jobs_reachable :: "job_lib \<Rightarrow> bool \<Rightarrow> jobs \<times> pc \<Rightarrow> bool" for lib dir where
  Init: "jobs_reachable lib dir (NewJobs dir [] [] {}, Resting)"
| Move: "jobs_reachable lib dir x \<Longrightarrow> system lib x y \<Longrightarrow> jobs_reachable lib dir y"

subsection \<open>The invariant\<close>

fun pc_run :: "pc \<Rightarrow> run_ctx option" where
  "pc_run (Looping r) = Some r"
| "pc_run (Stepping r) = Some r"
| "pc_run (Calling r _ _ _ _) = Some r"
| "pc_run (Silent r _) = Some r"
| "pc_run (Counting r _) = Some r"
| "pc_run (Acting r _ _ _) = Some r"
| "pc_run (Delegating r _ _ _ _ _ _) = Some r"
| "pc_run (Recording r _ _ _ _ _) = Some r"
| "pc_run (Checking r _ _ _) = Some r"
| "pc_run (Ending r) = Some r"
| "pc_run (Errored r _) = Some r"
| "pc_run (Failing r _) = Some r"
| "pc_run (Pausing r) = Some r"
| "pc_run (Leaving r) = Some r"
| "pc_run _ = None"

text \<open>The step budget, and what a step in progress has promised.\<close>

fun pc_ok :: "pc \<Rightarrow> bool" where
  "pc_ok (Looping r) \<longleftrightarrow> rn_n r \<le> jobMaxStepsPerRun"
| "pc_ok (Leaving r) \<longleftrightarrow> rn_n r \<le> jobMaxStepsPerRun"
| "pc_ok (Acting r _ _ cs) \<longleftrightarrow> rn_n r < jobMaxStepsPerRun \<and> cs \<noteq> []"
| "pc_ok (Delegating r _ _ slots ended _ _) \<longleftrightarrow>
     rn_n r < jobMaxStepsPerRun \<and> distinct (slot_saves slots) \<and> '''' \<notin> set (slot_saves slots)"
| "pc_ok p \<longleftrightarrow> (case pc_run p of None \<Rightarrow> True | Some r \<Rightarrow> rn_n r < jobMaxStepsPerRun)"

definition runs :: "pc \<Rightarrow> string \<Rightarrow> bool" where
  "runs p i \<longleftrightarrow> (\<exists>r. pc_run p = Some r \<and> rn_id r = i \<and> p \<noteq> Leaving r)"

definition store_ok :: "jobs \<Rightarrow> bool" where
  "store_ok s \<longleftrightarrow> distinct (jj_ids s) \<and> set (jj_ids s) \<subseteq> dom (jj_heap s) \<and> dom (jj_heap s) \<subseteq> jj_issued s \<and>
     fst ` set (jj_files s) \<subseteq> jj_issued s \<and> (\<forall>i job. jj_heap s i = Some job \<longrightarrow> jb_ID job = i \<and> job_ok job) \<and>
     (\<forall>(i, job) \<in> set (jj_files s). jb_ID job = i \<and> job_ok job)"

definition running_ok :: "jobs \<Rightarrow> pc \<Rightarrow> bool" where
  "running_ok s p \<longleftrightarrow>
     (\<forall>i job. job_at s i = Some job \<and> jb_Status job = JobRunning \<longrightarrow> jj_shutdown s \<or> runs p i \<and> \<not> jj_cancelled s)"

definition current_ok :: "jobs \<Rightarrow> pc \<Rightarrow> bool" where
  "current_ok s p \<longleftrightarrow>
     (case pc_run p of
        None \<Rightarrow> jj_running s = '''' \<and> \<not> jj_stop s
      | Some r \<Rightarrow> jj_heap s (rn_id r) \<noteq> None \<and> jj_running s = rn_id r \<and> jj_stop s)"

definition wake_ok :: "jobs \<Rightarrow> pc \<Rightarrow> bool" where
  "wake_ok s p \<longleftrightarrow> (p = Idle \<and> (\<exists>i job. job_at s i = Some job \<and> jb_Status job = JobQueued) \<longrightarrow> jj_wake s)"

definition jobs_inv :: "jobs \<times> pc \<Rightarrow> bool" where
  "jobs_inv x \<longleftrightarrow> store_ok (fst x) \<and> running_ok (fst x) (snd x) \<and> current_ok (fst x) (snd x) \<and> wake_ok (fst x) (snd x) \<and> pc_ok (snd x)"

lemma jobs_invD:
  assumes "jobs_inv (s, p)"
  shows "store_ok s" "running_ok s p" "current_ok s p" "wake_ok s p" "pc_ok p"
  using assms by (simp_all add: jobs_inv_def)

lemma jobs_invI:
  "store_ok s \<Longrightarrow> running_ok s p \<Longrightarrow> current_ok s p \<Longrightarrow> wake_ok s p \<Longrightarrow> pc_ok p \<Longrightarrow> jobs_inv (s, p)"
  by (simp add: jobs_inv_def)

lemma store_ok_job: "store_ok s \<Longrightarrow> jj_heap s i = Some job \<Longrightarrow> jb_ID job = i \<and> job_ok job"
  by (simp add: store_ok_def)

lemma job_at_heap: "job_at s i = Some job \<Longrightarrow> jj_heap s i = Some job \<and> i \<in> set (jj_ids s)"
  by (simp add: job_at_def split: if_splits)

lemma job_at_set_job: "job_at (set_job i job s) k = (if k = i \<and> i \<in> set (jj_ids s) then Some job else job_at s k)"
  by (simp add: job_at_def set_job_def)

lemma job_ok_stored: "job_ok job \<Longrightarrow> job_ok (stored job) \<and> jb_ID (stored job) = jb_ID job"
  unfolding stored_def by (simp add: job_ok_noTool jobMaxNoTool_def)

text \<open>Storing a job changes the files only.\<close>

lemma saveLocked_frame [simp]:
  "jj_heap (saveLocked ok i s) = jj_heap s" "jj_ids (saveLocked ok i s) = jj_ids s"
  "jj_issued (saveLocked ok i s) = jj_issued s" "jj_shutdown (saveLocked ok i s) = jj_shutdown s"
  "jj_cancelled (saveLocked ok i s) = jj_cancelled s" "jj_running (saveLocked ok i s) = jj_running s"
  "jj_stop (saveLocked ok i s) = jj_stop s" "jj_wake (saveLocked ok i s) = jj_wake s" "jj_dir (saveLocked ok i s) = jj_dir s"
  by (simp_all add: saveLocked_def split: option.split)

lemma job_at_saveLocked [simp]: "job_at (saveLocked ok i s) = job_at s"
  by (rule ext) (simp add: job_at_def)

lemma files_update: "set (AList.update k v m) \<subseteq> insert (k, v) (set m)"
  by (induction m) auto

lemma store_ok_save:
  assumes ok: "store_ok s"
  shows "store_ok (saveLocked d i s)"
proof (cases "\<exists>job. job_at s i = Some job \<and> jj_dir s \<and> d")
  case True
  then obtain job where job: "job_at s i = Some job" "jj_dir s" "d" by blast
  from job_at_heap [OF job(1)] have h: "jj_heap s i = Some job" "i \<in> set (jj_ids s)" by simp_all
  have f: "jj_files (saveLocked d i s) = AList.update i (stored job) (jj_files s)"
    using job by (simp add: saveLocked_def)
  have i: "i \<in> jj_issued s" and new: "jb_ID (stored job) = i \<and> job_ok (stored job)"
    using ok h job_ok_stored [of job] store_ok_job [OF ok h(1)] by (auto simp: store_ok_def)
  have "(\<forall>(k, j) \<in> set (AList.update i (stored job) (jj_files s)). jb_ID j = k \<and> job_ok j)"
    using ok new files_update [of i "stored job" "jj_files s"] unfolding store_ok_def by blast
  moreover have "fst ` set (AList.update i (stored job) (jj_files s)) \<subseteq> jj_issued s"
    using ok i by (simp add: store_ok_def dom_update)
  ultimately show ?thesis using ok unfolding store_ok_def by (simp add: f)
next
  case False
  then have "saveLocked d i s = s" by (auto simp: saveLocked_def split: option.split)
  with ok show ?thesis by simp
qed

lemma jobs_inv_save: "jobs_inv (s, p) \<Longrightarrow> jobs_inv (saveLocked d i s, p)"
  by (auto simp: jobs_inv_def store_ok_save running_ok_def current_ok_def wake_ok_def split: option.splits)

lemma set_job_frame [simp]:
  "jj_ids (set_job i job s) = jj_ids s" "jj_files (set_job i job s) = jj_files s" "jj_issued (set_job i job s) = jj_issued s"
  "jj_shutdown (set_job i job s) = jj_shutdown s" "jj_cancelled (set_job i job s) = jj_cancelled s"
  "jj_running (set_job i job s) = jj_running s" "jj_stop (set_job i job s) = jj_stop s" "jj_wake (set_job i job s) = jj_wake s"
  "jj_dir (set_job i job s) = jj_dir s" "jj_heap (set_job i job s) = (jj_heap s)(i \<mapsto> job)"
  by (simp_all add: set_job_def)

lemma store_ok_set_job:
  assumes "store_ok s" "jj_heap s i = Some job" "jb_ID job' = jb_ID job" "job_ok job'"
  shows "store_ok (set_job i job' s)"
proof -
  from store_ok_job [OF assms(1,2)] assms(3,4) have "jb_ID job' = i \<and> job_ok job'" by simp
  with assms(1,2) show ?thesis by (auto simp: store_ok_def)
qed

text \<open>
  The runner's step on its job: the status stays, or becomes one that is neither running nor queued;
  the run goes on, or leaves a job that is not running.
\<close>

definition ends_run :: "job \<Rightarrow> job \<Rightarrow> bool" where
  "ends_run job job' \<longleftrightarrow> jb_Status job' = jb_Status job \<or> jb_Status job' \<in> {JobWaiting, JobDone, JobFailed}"

lemma jobs_inv_move:
  assumes inv: "jobs_inv (s, p)" and r: "pc_run p = Some r" and h: "jj_heap s (rn_id r) = Some job"
    and job': "jb_ID job' = jb_ID job" "job_ok job'" "ends_run job job'"
    and p': "pc_run p' = Some r'" "rn_id r' = rn_id r" "pc_ok p'"
    and leave: "p' = Leaving r' \<Longrightarrow> jb_Status job' \<noteq> JobRunning \<or> jj_cancelled s"
  shows "jobs_inv (set_job (rn_id r) job' s, p')"
proof (rule jobs_invI)
  show "store_ok (set_job (rn_id r) job' s)" by (rule store_ok_set_job [OF jobs_invD(1) [OF inv] h job'(1,2)])
  show "current_ok (set_job (rn_id r) job' s) p'"
    using jobs_invD(3) [OF inv] r p' by (simp add: current_ok_def)
  show "wake_ok (set_job (rn_id r) job' s) p'" using p'(1) by (auto simp: wake_ok_def)
  show "pc_ok p'" by (rule p'(3))
  show "running_ok (set_job (rn_id r) job' s) p'"
    unfolding running_ok_def
  proof (intro allI impI)
    fix i j
    assume a: "job_at (set_job (rn_id r) job' s) i = Some j \<and> jb_Status j = JobRunning"
    have "\<exists>j. job_at s i = Some j \<and> jb_Status j = JobRunning"
    proof (cases "i = rn_id r")
      case True
      with a have "i \<in> set (jj_ids s)" "j = job'" by (auto simp: job_at_def set_job_def split: if_splits)
      with a True h job'(3) show ?thesis by (auto simp: job_at_def ends_run_def)
    next
      case False
      with a show ?thesis by (auto simp: job_at_set_job)
    qed
    with jobs_invD(2) [OF inv] have old: "jj_shutdown s \<or> runs p i \<and> \<not> jj_cancelled s" unfolding running_ok_def by blast
    show "jj_shutdown (set_job (rn_id r) job' s) \<or> runs p' i \<and> \<not> jj_cancelled (set_job (rn_id r) job' s)"
    proof (cases "jj_shutdown s")
      case False
      with old r have i: "i = rn_id r" "\<not> jj_cancelled s" by (auto simp: runs_def)
      with a have "jb_Status job' = JobRunning" by (auto simp: job_at_def set_job_def split: if_splits)
      with leave i(2) have "p' \<noteq> Leaving r'" by blast
      with p' i show ?thesis by (auto simp: runs_def)
    qed simp
  qed
qed

lemma set_job_same: "jj_heap s i = Some job \<Longrightarrow> set_job i job s = s"
  by (cases s) (simp add: set_job_def fun_upd_idem)

text \<open>The same for a move that leaves the store alone.\<close>

lemma jobs_inv_jump:
  assumes inv: "jobs_inv (s, p)" and r: "pc_run p = Some r"
    and p': "pc_run p' = Some r'" "rn_id r' = rn_id r" "pc_ok p'"
    and leave: "p' = Leaving r' \<Longrightarrow> jj_cancelled s \<or> jb_Status (the (jj_heap s (rn_id r))) \<noteq> JobRunning"
  shows "jobs_inv (s, p')"
proof -
  from jobs_invD(3) [OF inv] r obtain job where h: "jj_heap s (rn_id r) = Some job" by (auto simp: current_ok_def)
  have "jobs_inv (set_job (rn_id r) job s, p')"
    by (rule jobs_inv_move [OF inv r h refl _ _ p'])
      (use leave h store_ok_job [OF jobs_invD(1) [OF inv] h] in \<open>auto simp: ends_run_def\<close>)
  with h show ?thesis by (simp add: set_job_same)
qed

lemma ends_run_refl [simp]: "jb_Status job' = jb_Status job \<Longrightarrow> ends_run job job'"
  by (simp add: ends_run_def)

lemma run_call_keeps:
  assumes "run_call lib busy r workers canPlan c cs now job = Some (job', p)" "job_ok job" "rn_n r < jobMaxStepsPerRun"
  shows "jb_ID job' = jb_ID job \<and> job_ok job' \<and> ends_run job job' \<and> pc_run p = Some r \<and> pc_ok p \<and> p \<noteq> Leaving r"
proof (cases "repeats job c")
  case True
  with assms show ?thesis by (auto simp: run_call_def)
next
  case norep: False
  show ?thesis
  proof (cases "tool lib canPlan c now job")
    case (ToolResult job1 res)
    with tool_keeps [OF this assms(2)] assms norep show ?thesis by (auto simp: run_call_def ends_run_def)
  next
    case (ToolDelegate raw)
    with norep assms(1) obtain d where d: "delegate_start lib busy workers raw now job = Some d" by (auto simp: run_call_def split: option.splits)
    show ?thesis
    proof (cases d)
      case (Inl err)
      with ToolDelegate d norep assms show ?thesis by (auto simp: run_call_def)
    next
      case (Inr sj)
      then obtain slots where sj: "sj = (slots, job')" "p = Delegating r workers canPlan slots Map.empty c cs"
        using ToolDelegate d norep assms(1) by (cases sj) (auto simp: run_call_def)
      with d Inr obtain tasks where w: "workers \<noteq> []" and a: "assign_slots lib busy workers now [] [] 0 tasks job = Some (slots, job')"
        by (auto simp: delegate_start_def split: if_splits option.splits)
      from assign_slots_ok [OF a assms(2) w] sj assms(3) show ?thesis
        by (auto simp: same_work_def slots_ok_def)
    qed
  qed
qed

lemma slot_end_keeps:
  assumes "slot_end lib slots out secs now i (job, ended) = (job', ended')" "job_ok job" "i \<in> set (started slots)"
    "'''' \<notin> set (slot_saves slots)"
  shows "jb_ID job' = jb_ID job \<and> job_ok job' \<and> jb_Status job' = jb_Status job"
proof -
  from assms(3) obtain b save sys q where s: "slots ! i = SlotStarted b save sys q" "i < length slots"
    by (auto simp: set_started slot_save_def split: job_slot.splits)
  then have "save \<in> set (slot_saves slots)"
    using nth_mem [OF s(2)] by (auto simp: slot_saves_def map_filter_eq slot_save_def intro!: image_eqI [of _ _ "slots ! i"])
  with assms(4) have "save \<noteq> ''''" by blast
  from assms(1) s(1) have "job' = fst (subtask_end lib save out secs now job)"
    by (simp add: slot_end_def split: prod.splits)
  with subtask_end_keeps [OF assms(2) \<open>save \<noteq> ''''\<close>] show ?thesis by simp
qed

lemma run_fail_inv:
  assumes inv: "jobs_inv (s, Failing r e)" and h: "jj_heap s (rn_id r) = Some job"
  shows "jobs_inv (run_fail r e now ok job s)"
proof -
  from store_ok_job [OF jobs_invD(1) [OF inv] h] have j: "job_ok job" by simp
  from jobs_invD(5) [OF inv] have n: "rn_n r < jobMaxStepsPerRun" by simp
  let ?j = "log_event ''error'' (err_text e) now job"
  have mv: "jobs_inv (saveLocked ok (rn_id r) (set_job (rn_id r) job' s), p')"
    if "jb_ID job' = jb_ID job" "job_ok job'" "ends_run job job'" "pc_run p' = Some r'" "rn_id r' = rn_id r" "pc_ok p'"
      "p' = Leaving r' \<Longrightarrow> jb_Status job' \<noteq> JobRunning" for job' p' r'
    by (rule jobs_inv_save, rule jobs_inv_move [OF inv _ h that(1-6)], simp, rule disjI1, erule that(7))
  show ?thesis
  proof (cases e)
    case (ErrBadPool m)
    show ?thesis unfolding run_fail_def Let_def ErrBadPool step_err.case
      by (rule mv [where r' = r]) (use j n in \<open>simp_all add: ends_run_def job_ok_event\<close>)
  next
    case ErrNoNode
    show ?thesis unfolding run_fail_def Let_def ErrNoNode step_err.case
      by (rule mv [where r' = r]) (use j n in \<open>simp_all add: job_ok_event\<close>)
  next
    case (ErrOther m)
    have i: "rn_id (r\<lparr>rn_fail := rn_fail r + 1\<rparr>) = rn_id r" by simp
    show ?thesis unfolding run_fail_def Let_def ErrOther step_err.case i
      by (rule mv [where r' = "r\<lparr>rn_fail := rn_fail r + 1\<rparr>"]) (use j n in \<open>simp_all add: ends_run_def job_ok_event\<close>)
  qed
qed

lemma oldest_queued_spec:
  assumes "oldest_queued h best is = r"
    "\<And>b. best = Some b \<Longrightarrow> jb_Status b = JobQueued"
  shows "(\<forall>b. r = Some b \<longrightarrow> jb_Status b = JobQueued \<and> (best = Some b \<or> (\<exists>i \<in> set is. h i = Some b))) \<and>
    (r = None \<longrightarrow> best = None \<and> (\<forall>i \<in> set is. \<forall>job. h i = Some job \<longrightarrow> jb_Status job \<noteq> JobQueued))"
  using assms
proof (induction h best "is" rule: oldest_queued.induct)
  case (2 h best i "is")
  let ?b = "case h i of None \<Rightarrow> best
     | Some job \<Rightarrow> if jb_Status job = JobQueued \<and> (case best of None \<Rightarrow> True | Some b \<Rightarrow> jb_Created job < jb_Created b) then Some job else best"
  have q: "jb_Status b = JobQueued" if "?b = Some b" for b
    using that 2(3) by (auto split: option.splits if_splits)
  have r: "oldest_queued h ?b is = r" using 2(2) by simp
  from 2(1) [OF r q] 2(3) show ?case by (auto split: option.splits if_splits)
qed simp

lemma next_job_None: "store_ok s \<Longrightarrow> next_job s = None \<Longrightarrow> job_at s i = Some job \<Longrightarrow> jb_Status job \<noteq> JobQueued"
  using oldest_queued_spec [OF refl, of None "jj_heap s" "jj_ids s"]
  by (auto simp: next_job_def dest: job_at_heap)

lemma next_job_Some:
  assumes "store_ok s" "next_job s = Some i"
  shows "\<exists>job. job_at s i = Some job \<and> jb_Status job = JobQueued"
proof -
  from assms(2) obtain b where b: "oldest_queued (jj_heap s) None (jj_ids s) = Some b" "jb_ID b = i" by (auto simp: next_job_def)
  from oldest_queued_spec [OF b(1)] have "jb_Status b = JobQueued" "\<exists>k \<in> set (jj_ids s). jj_heap s k = Some b" by simp_all
  then obtain k where k: "k \<in> set (jj_ids s)" "jj_heap s k = Some b" "jb_Status b = JobQueued" by blast
  from store_ok_job [OF assms(1) k(2)] b(2) have "k = i" by simp
  with k show ?thesis by (simp add: job_at_def)
qed

text \<open>A move between the program points outside a run.\<close>

lemma jobs_inv_idle:
  assumes inv: "jobs_inv (s, p)" and "pc_run p = None" "pc_run p' = None" "wake_ok s p'"
  shows "jobs_inv (s, p')"
proof (rule jobs_invI)
  show "store_ok s" by (rule jobs_invD(1) [OF inv])
  show "running_ok s p'" using jobs_invD(2) [OF inv] assms(2,3) by (simp add: running_ok_def runs_def)
  show "current_ok s p'" using jobs_invD(3) [OF inv] assms(2,3) by (simp add: current_ok_def)
  show "pc_ok p'" using assms(3) by (cases p') simp_all
qed (rule assms(4))

lemma run_begin_inv:
  assumes inv: "jobs_inv (s, Chosen i)"
  shows "jobs_inv (run_begin i now ok s)"
proof (cases "\<exists>job. job_at s i = Some job \<and> jb_Status job = JobQueued")
  case False
  then have b: "run_begin i now ok s = (s, Resting)" by (auto simp: run_begin_def split: option.splits)
  show ?thesis unfolding b by (rule jobs_inv_idle [OF inv]) (simp_all add: wake_ok_def)
next
  case True
  then obtain job where job: "job_at s i = Some job" "jb_Status job = JobQueued" by blast
  from job_at_heap [OF job(1)] have h: "jj_heap s i = Some job" by simp
  let ?s = "s\<lparr>jj_running := i, jj_stop := True, jj_cancelled := jj_shutdown s\<rparr>"
  let ?j = "log_event ''status'' ''running'' now (job\<lparr>jb_Status := JobRunning\<rparr>)"
  let ?p = "Looping \<lparr>rn_id = i, rn_n = 0, rn_fail = 0\<rparr>"
  from store_ok_job [OF jobs_invD(1) [OF inv] h] have j: "jb_ID ?j = jb_ID job" "job_ok ?j" by (simp_all add: job_ok_event)
  have "jobs_inv (set_job i ?j ?s, ?p)"
  proof (rule jobs_invI)
    have "store_ok ?s" using jobs_invD(1) [OF inv] by (simp add: store_ok_def)
    then show "store_ok (set_job i ?j ?s)" by (rule store_ok_set_job) (simp_all add: h j)
    have old: "jj_shutdown s" if "job_at s k = Some j" "jb_Status j = JobRunning" for k j
      using jobs_invD(2) [OF inv] that by (auto simp: running_ok_def runs_def)
    show "running_ok (set_job i ?j ?s) ?p"
      unfolding running_ok_def
    proof (intro allI impI)
      fix k j
      assume a: "job_at (set_job i ?j ?s) k = Some j \<and> jb_Status j = JobRunning"
      show "jj_shutdown (set_job i ?j ?s) \<or> runs ?p k \<and> \<not> jj_cancelled (set_job i ?j ?s)"
      proof (cases "k = i")
        case False
        with a have "job_at s k = Some j" by (auto simp: job_at_def set_job_def split: if_splits)
        with old a show ?thesis by simp
      qed (simp add: runs_def)
    qed
  qed (simp_all add: current_ok_def wake_ok_def)
  then show ?thesis using job by (simp add: run_begin_def jobs_inv_save)
qed

lemma run_top_inv:
  assumes inv: "jobs_inv (s, Looping r)" and h: "jj_heap s (rn_id r) = Some job"
  shows "jobs_inv (run_top r now ok job s)"
proof -
  from jobs_invD(5) [OF inv] have n: "rn_n r \<le> jobMaxStepsPerRun" by simp
  from store_ok_job [OF jobs_invD(1) [OF inv] h] have j: "job_ok job" by simp
  consider (leave) "jj_cancelled s \<or> jb_Status job \<noteq> JobRunning"
    | (budget) "\<not> (jj_cancelled s \<or> jb_Status job \<noteq> JobRunning)" "rn_n r \<ge> jobMaxStepsPerRun"
    | (go) "\<not> (jj_cancelled s \<or> jb_Status job \<noteq> JobRunning)" "\<not> rn_n r \<ge> jobMaxStepsPerRun" by blast
  then show ?thesis
  proof cases
    case leave
    show ?thesis unfolding run_top_def if_P [OF leave]
      by (rule jobs_inv_jump [OF inv, where r' = r]) (use leave n h in auto)
  next
    case budget
    show ?thesis unfolding run_top_def if_not_P [OF budget(1)] if_P [OF budget(2)]
      by (rule jobs_inv_save, rule jobs_inv_move [OF inv _ h, where r' = r])
        (use n j in \<open>simp_all add: ends_run_def job_ok_event\<close>)
  next
    case go
    show ?thesis unfolding run_top_def if_not_P [OF go(1)] if_not_P [OF go(2)]
      by (rule jobs_inv_jump [OF inv, where r' = r]) (use go(2) in simp_all)
  qed
qed

lemma run_step_pc:
  "rn_n r < jobMaxStepsPerRun \<Longrightarrow> pc_run (run_step lib gv r job) = Some r \<and> pc_ok (run_step lib gv r job) \<and> run_step lib gv r job \<noteq> Leaving q"
  by (auto simp: run_step_def split: job_start.split)

lemma run_answer_keeps:
  assumes "run_answer r orch workers canPlan sent calls now job = (job', p)" "job_ok job" "rn_n r < jobMaxStepsPerRun"
  shows "jb_ID job' = jb_ID job \<and> job_ok job' \<and> jb_Status job' = jb_Status job \<and> pc_run p = Some r \<and> pc_ok p \<and> p \<noteq> Leaving r"
  using assms job_ok_noTool [OF job_ok_think [OF assms(2)], of 0]
  by (auto simp: run_answer_def Let_def job_ok_think jobMaxNoTool_def split: if_splits)

lemma runner_inv:
  assumes "runner lib x y" "jobs_inv x"
  shows "jobs_inv y"
  using assms
proof (induction rule: runner.induct)
  case (Pick s i)
  show ?case by (rule jobs_inv_idle [OF Pick(2)]) (simp_all add: wake_ok_def)
next
  case (NonePick s)
  from next_job_None [OF jobs_invD(1) [OF NonePick(2)] NonePick(1)] have "wake_ok s Idle" by (auto simp: wake_ok_def)
  then show ?case by (rule jobs_inv_idle [OF NonePick(2), rotated -1]) simp_all
next
  case (Wake s)

  from jobs_invD [OF Wake(2)] show ?case
    by (intro jobs_invI) (simp_all add: store_ok_def running_ok_def current_ok_def wake_ok_def job_at_def runs_def)
next
  case (Halt s)
  show ?case by (rule jobs_inv_idle [OF Halt(2)]) (simp_all add: wake_ok_def)
next
  case (Begin s i now ok)
  from Begin show ?case by (rule run_begin_inv)
next
  case (Top s r job now ok)
  then show ?case by (intro run_top_inv)
next
  case (Start s r job gv)
  from jobs_invD(5) [OF Start(2)] run_step_pc [where r = r and lib = lib and gv = gv and job = job and q = r] show ?case
    by (intro jobs_inv_jump [OF Start(2), where r' = r]) simp_all
next
  case (CallFails s r orch workers canPlan req err)
  from jobs_invD(5) [OF CallFails] show ?case by (intro jobs_inv_jump [OF CallFails, where r' = r]) simp_all
next
  case (Answer s r job orch workers canPlan sent calls now job' p req)
  from store_ok_job [OF jobs_invD(1) [OF Answer(3)] Answer(1)] jobs_invD(5) [OF Answer(3)]
    run_answer_keeps [OF Answer(2)] show ?case
    by (intro jobs_inv_move [OF Answer(3) _ Answer(1), where r' = r]) simp_all
next
  case (NoCall s r job now orch)
  from store_ok_job [OF jobs_invD(1) [OF NoCall(2)] NoCall(1)] jobs_invD(5) [OF NoCall(2)] show ?case
    by (intro jobs_inv_move [OF NoCall(2) _ NoCall(1), where r' = r]) (simp_all add: job_ok_record)
next
  case (Count s r job orch now)
  from store_ok_job [OF jobs_invD(1) [OF Count(2)] Count(1)] jobs_invD(5) [OF Count(2)] show ?case
    using no_tool_call_frame [of orch now job]
    by (intro jobs_inv_move [OF Count(2) _ Count(1), where r' = r]) (auto simp: job_ok_no_tool ends_run_def)
next
  case (Call s r job busy workers canPlan c cs now job' p)
  from store_ok_job [OF jobs_invD(1) [OF Call(3)] Call(1)] jobs_invD(5) [OF Call(3)] run_call_keeps [OF Call(2)] show ?case
    by (intro jobs_inv_move [OF Call(3) _ Call(1), where r' = r]) simp_all
next
  case (Subtask s r job i slots ended out secs now job' ended' workers canPlan c cs)
  from store_ok_job [OF jobs_invD(1) [OF Subtask(5)] Subtask(1)] jobs_invD(5) [OF Subtask(5)]
    slot_end_keeps [OF Subtask(4) _ Subtask(2)] show ?case
    by (intro jobs_inv_move [OF Subtask(5) _ Subtask(1), where r' = r]) simp_all
next
  case (Join slots ended s r workers canPlan c cs)
  from jobs_invD(5) [OF Join(2)] show ?case by (intro jobs_inv_jump [OF Join(2), where r' = r]) simp_all
next
  case (Record s r job workers canPlan c res cs now)
  from store_ok_job [OF jobs_invD(1) [OF Record(2)] Record(1)] jobs_invD(5) [OF Record(2)] show ?case
    by (intro jobs_inv_move [OF Record(2) _ Record(1), where r' = r]) (simp_all add: job_ok_record)
next
  case (Check s r job workers canPlan cs)
  from jobs_invD(5) [OF Check(2)] show ?case
    by (intro jobs_inv_jump [OF Check(2), where r' = r]) (simp_all split: if_splits)
next
  case (End s r ok)
  from jobs_invD(5) [OF End] show ?case
    by (intro jobs_inv_save jobs_inv_jump [OF End, where r' = "run_again r\<lparr>rn_fail := 0\<rparr>"]) (simp_all add: run_again_def)
next
  case (ErrorGone s r e)
  from jobs_invD(5) [OF ErrorGone(2)] ErrorGone(1) show ?case by (intro jobs_inv_jump [OF ErrorGone(2), where r' = r]) simp_all
next
  case (Error s r e)
  from jobs_invD(5) [OF Error(2)] show ?case by (intro jobs_inv_jump [OF Error(2), where r' = r]) simp_all
next
  case (Fail s r job e now ok)
  then show ?case by (intro run_fail_inv)
next
  case (PauseGone s r)
  from jobs_invD(5) [OF PauseGone(2)] PauseGone(1) show ?case by (intro jobs_inv_jump [OF PauseGone(2), where r' = r]) simp_all
next
  case (Pause s r)
  from jobs_invD(5) [OF Pause] show ?case by (intro jobs_inv_jump [OF Pause, where r' = "run_again r"]) (simp_all add: run_again_def)
next
  case (Leave s r)
  from jobs_invD [OF Leave] show ?case
    by (intro jobs_invI) (simp_all add: store_ok_def running_ok_def current_ok_def wake_ok_def job_at_def runs_def)
qed

subsection \<open>The API and the restart keep the invariant\<close>

text \<open>What the runner relies on when the API changes the store: the running job's object stays.\<close>

lemma current_ok_grow:
  assumes "current_ok s p" "jj_running s' = jj_running s" "jj_stop s' = jj_stop s" "dom (jj_heap s) \<subseteq> dom (jj_heap s')"
  shows "current_ok s' p"
  using assms by (auto simp: current_ok_def split: option.splits)

lemma jobs_inv_poke:
  assumes "store_ok s" "running_ok s p" "current_ok s p" "pc_ok p"
  shows "jobs_inv (poke (saveLocked ok i s), p)"
proof -
  let ?s = "saveLocked ok i s"
  have "store_ok (poke ?s) = store_ok ?s" "running_ok (poke ?s) p = running_ok s p" "current_ok (poke ?s) p = current_ok s p"
    by (simp_all add: store_ok_def running_ok_def current_ok_def poke_def job_at_def split: option.split)
  with assms store_ok_save [OF assms(1)] show ?thesis
    by (intro jobs_invI) (simp_all add: wake_ok_def poke_def)
qed

lemma create_inv:
  assumes inv: "jobs_inv (s, p)" and nid: "nid \<notin> jj_issued s"
  shows "jobs_inv (snd (Create nid title goal princ pool now ok s), p)"
proof -
  let ?j = "log_event ''user'' (trim_space goal) now (new_job nid title goal princ pool now)"
  let ?s = "set_job nid ?j (s\<lparr>jj_ids := jj_ids s @ [nid], jj_issued := insert nid (jj_issued s)\<rparr>)"
  note I = jobs_invD [OF inv]
  from I(1) nid have new: "nid \<notin> set (jj_ids s)" "jj_heap s nid = None" by (auto simp: store_ok_def)
  have j: "jb_ID ?j = nid" "job_ok ?j" "jb_Status ?j = JobQueued"
    by (simp_all add: job_ok_event job_ok_new) (simp_all add: new_job_def Let_def)
  have at: "job_at ?s k = (if k = nid then Some ?j else job_at s k)" for k
    by (simp add: job_at_def set_job_def)
  have "store_ok ?s" using I(1) new j(1,2) by (auto simp: store_ok_def)
  moreover have "running_ok ?s p" using I(2) j(3) by (simp add: running_ok_def at)
  moreover have "current_ok ?s p" by (rule current_ok_grow [OF I(3)]) auto
  ultimately have "jobs_inv (poke (saveLocked ok nid ?s), p)" by (rule jobs_inv_poke [OF _ _ _ I(5)])
  then show ?thesis by (simp add: Create_def Let_def)
qed

lemma say_inv:
  assumes inv: "jobs_inv (s, p)" and say: "Say i msg now ok s = Inr s'"
  shows "jobs_inv (s', p)"
proof -
  note I = jobs_invD [OF inv]
  from say obtain job where at: "job_at s i = Some job" by (auto simp: Say_def Let_def split: if_splits option.splits)
  let ?j = "log_event ''user'' (trim_space msg) now (job\<lparr>jb_Messages := jb_Messages job @ [trim_space msg]\<rparr>)"
  define j' where "j' = (if jb_Status ?j \<noteq> JobRunning then ?j\<lparr>jb_Status := JobQueued, jb_Question := '''', jb_Error := ''''\<rparr> else ?j)"
  from say at have s': "s' = poke (saveLocked ok i (set_job i j' s))"
    unfolding j'_def by (auto simp: Say_def Let_def split: if_splits)
  from job_at_heap [OF at] have h: "jj_heap s i = Some job" by simp
  from store_ok_job [OF I(1) h] have "job_ok ?j" by (simp add: job_ok_event job_ok_message)
  then have j: "jb_ID j' = jb_ID job" "job_ok j'" by (simp_all add: j'_def)
  have st: "jb_Status j' = JobRunning \<Longrightarrow> jb_Status job = JobRunning" by (simp add: j'_def split: if_splits)
  show ?thesis unfolding s'
  proof (rule jobs_inv_poke [OF _ _ _ I(5)])
    show "store_ok (set_job i j' s)" by (rule store_ok_set_job [OF I(1) h j])
    show "current_ok (set_job i j' s) p" by (rule current_ok_grow [OF I(3)]) auto
    show "running_ok (set_job i j' s) p"
      using I(2) st at unfolding running_ok_def job_at_set_job by (auto split: if_splits)
  qed
qed

lemma stop_run_frame [simp]:
  "jj_heap (stop_run job s) = jj_heap s" "jj_ids (stop_run job s) = jj_ids s" "jj_issued (stop_run job s) = jj_issued s"
  "jj_files (stop_run job s) = jj_files s" "jj_running (stop_run job s) = jj_running s" "jj_stop (stop_run job s) = jj_stop s"
  "jj_shutdown (stop_run job s) = jj_shutdown s" "jj_wake (stop_run job s) = jj_wake s" "jj_dir (stop_run job s) = jj_dir s"
  by (simp_all add: stop_run_def)

lemma job_at_stop [simp]: "job_at (stop_run job s) = job_at s"
  by (rule ext) (simp add: job_at_def)

lemma store_ok_stop [simp]: "store_ok (stop_run job s) = store_ok s"
  by (simp add: store_ok_def)

text \<open>The stopped job was the one being run: no other job of the map runs, unless the controller ends.\<close>

lemma stop_only_running:
  assumes "running_ok s p" "job_at s i = Some job" "job_at s k = Some j" "jb_Status j = JobRunning" "k \<noteq> i"
  shows "jj_shutdown s \<or> runs p k \<and> \<not> jj_cancelled (stop_run job s)"
proof (cases "jj_shutdown s \<or> jb_Status job \<noteq> JobRunning")
  case True
  with assms show ?thesis by (auto simp: running_ok_def stop_run_def)
next
  case False
  with assms have "runs p i" "runs p k" by (auto simp: running_ok_def)
  with assms(5) show ?thesis by (auto simp: runs_def)
qed

lemma cancel_inv:
  assumes inv: "jobs_inv (s, p)" and cancel: "Cancel i now ok s = Inr s'"
  shows "jobs_inv (s', p)"
proof -
  note I = jobs_invD [OF inv]
  from cancel obtain job where at: "job_at s i = Some job" by (auto simp: Cancel_def split: option.splits)
  let ?j = "log_event ''status'' ''cancelled'' now (job\<lparr>jb_Status := JobCancelled\<rparr>)"
  let ?s = "set_job i ?j (stop_run job s)"
  from cancel at have s': "s' = saveLocked ok i ?s" by (simp add: Cancel_def)
  from job_at_heap [OF at] have h: "jj_heap s i = Some job" by simp
  from store_ok_job [OF I(1) h] have j: "job_ok ?j" "jb_ID ?j = jb_ID job" by (simp_all add: job_ok_event)
  show ?thesis unfolding s'
  proof (rule jobs_inv_save, rule jobs_invI)
    show "store_ok ?s" by (rule store_ok_set_job [OF _ _ j(2,1)]) (simp_all add: I(1) h)
    show "current_ok ?s p" by (rule current_ok_grow [OF I(3)]) auto
    show "wake_ok ?s p" using I(4) by (auto simp: wake_ok_def job_at_set_job split: if_splits)
    show "running_ok ?s p"
      unfolding running_ok_def
    proof (intro allI impI)
      fix k j
      assume a: "job_at ?s k = Some j \<and> jb_Status j = JobRunning"
      from job_at_heap [OF at] have "i \<in> set (jj_ids s)" by simp
      with a have "k \<noteq> i" by (auto simp: job_at_set_job)
      with a have "job_at s k = Some j" by (simp add: job_at_set_job)
      from stop_only_running [OF I(2) at this _ \<open>k \<noteq> i\<close>] a
      show "jj_shutdown ?s \<or> runs p k \<and> \<not> jj_cancelled ?s" by simp
    qed
  qed (rule I(5))
qed

lemma store_ok_files:
  assumes "store_ok s" "set fs \<subseteq> set (jj_files s)"
  shows "store_ok (s\<lparr>jj_files := fs\<rparr>)"
proof -
  have "fst ` set fs \<subseteq> fst ` set (jj_files s)" by (rule image_mono [OF assms(2)])
  moreover have "\<forall>(i, job) \<in> set fs. jb_ID job = i \<and> job_ok job"
    using assms(1) unfolding store_ok_def by (elim conjE) (rule ballI, drule subsetD [OF assms(2)], blast)
  moreover have "fst ` set (jj_files s) \<subseteq> jj_issued s" using assms(1) by (simp add: store_ok_def)
  ultimately show ?thesis using assms(1) by (simp add: store_ok_def)
qed

lemma delete_inv:
  assumes inv: "jobs_inv (s, p)"
  shows "jobs_inv (snd (Delete i ok s), p)"
proof (cases "job_at s i")
  case None
  with inv show ?thesis by (simp add: Delete_def)
next
  case (Some job)
  note I = jobs_invD [OF inv]
  define t where "t = (stop_run job s)\<lparr>jj_ids := remove1 i (jj_ids s)\<rparr>"
  from I(1) have dist: "distinct (jj_ids s)" by (simp add: store_ok_def)
  then have at: "job_at t k = (if k = i then None else job_at s k)" for k
    by (simp add: t_def job_at_def)
  have "store_ok t" using I(1) set_remove1_subset [of i "jj_ids s"] by (auto simp: store_ok_def t_def)
  moreover have "current_ok t p" by (rule current_ok_grow [OF I(3)]) (simp_all add: t_def)
  moreover have "jj_wake t = jj_wake s" by (simp add: t_def)
  then have "wake_ok t p" using I(4) by (auto simp: wake_ok_def at split: if_splits)
  moreover have "running_ok t p"
    unfolding running_ok_def
  proof (intro allI impI)
    fix k j
    assume a: "job_at t k = Some j \<and> jb_Status j = JobRunning"
    then have k: "k \<noteq> i" "job_at s k = Some j" by (auto simp: at split: if_splits)
    from stop_only_running [OF I(2) Some k(2) _ k(1)] a show "jj_shutdown t \<or> runs p k \<and> \<not> jj_cancelled t" by (simp add: t_def)
  qed
  ultimately have t: "jobs_inv (t, p)" by (simp add: jobs_inv_def I(5))
  have tf: "jobs_inv (t\<lparr>jj_files := AList.delete i (jj_files s)\<rparr>, p)"
  proof -
    have f: "set (AList.delete i (jj_files s)) \<subseteq> set (jj_files t)" by (simp add: t_def set_delete_subset)
    have "store_ok (t\<lparr>jj_files := AList.delete i (jj_files s)\<rparr>)"
      by (rule store_ok_files [OF jobs_invD(1) [OF t] f])
    with jobs_invD [OF t] show ?thesis
      by (intro jobs_invI) (simp_all add: running_ok_def current_ok_def wake_ok_def job_at_def split: option.splits)
  qed
  have "snd (Delete i ok s) \<in> {t, t\<lparr>jj_files := AList.delete i (jj_files s)\<rparr>}"
    by (simp add: Delete_def Let_def Some t_def)
  with t tf show ?thesis by (elim insertE) simp_all
qed

lemma shutdown_inv: "jobs_inv (s, p) \<Longrightarrow> jobs_inv (s\<lparr>jj_shutdown := True, jj_cancelled := True\<rparr>, p)"
  by (simp add: jobs_inv_def store_ok_def running_ok_def current_ok_def wake_ok_def job_at_def split: option.splits)

text \<open>Loading: the keys are the ids, distinct, and no job is running.\<close>

definition loaded_ok :: "(string \<times> job) list \<Rightarrow> bool" where
  "loaded_ok m \<longleftrightarrow> distinct (keys_of m) \<and> (\<forall>(i, job) \<in> set m. jb_ID job = i \<and> job_ok job \<and> jb_Status job \<noteq> JobRunning)"

lemma loaded_ok_update:
  assumes "loaded_ok m" "job_ok job" "jb_Status job \<noteq> JobRunning"
  shows "loaded_ok (AList.update (jb_ID job) job m)"
  using assms files_update [of "jb_ID job" job m] unfolding loaded_ok_def by (auto simp: distinct_update)

definition file_ok :: "string set \<Rightarrow> string + job \<Rightarrow> bool" where
  "file_ok A r \<longleftrightarrow> (case r of Inl _ \<Rightarrow> True | Inr job \<Rightarrow> job_ok job \<and> jb_ID job \<in> A)"

lemma load_files_ok:
  assumes "load_files fs acc = Inr loaded" "loaded_ok acc" "list_all (\<lambda>x. file_ok A (snd x)) fs" "fst ` set acc \<subseteq> A"
  shows "loaded_ok loaded \<and> fst ` set loaded \<subseteq> A"
  using assms
proof (induction fs arbitrary: acc)
  case (Cons x fs)
  obtain f job where x: "x = (f, Inr job)" using Cons.prems(1) by (cases x) (auto split: sum.splits)
  let ?j = "if jb_Status job = JobRunning then job\<lparr>jb_Status := JobQueued\<rparr> else job"
  have j: "job_ok ?j" "jb_Status ?j \<noteq> JobRunning" "jb_ID ?j = jb_ID job" "jb_ID job \<in> A"
    using Cons.prems(3) by (simp_all add: x file_ok_def)
  from Cons.prems(1) have r: "load_files fs (AList.update (jb_ID ?j) ?j acc) = Inr loaded" by (simp add: x Let_def)
  have h: "list_all (\<lambda>x. file_ok A (snd x)) fs" using Cons.prems(3) by simp
  have k: "fst ` set (AList.update (jb_ID ?j) ?j acc) \<subseteq> A"
    using Cons.prems(4) j(3,4) by (simp only: dom_update) simp
  show ?case by (rule Cons.IH [OF r loaded_ok_update [OF Cons.prems(2) j(1,2)] h k])
qed simp

lemma restart_inv:
  assumes inv: "jobs_inv (s, p)" and load: "LoadJobs (jj_dir s) (map (\<lambda>(i, job). (i, Inr job)) (jj_files s)) = Inr loaded"
  shows "jobs_inv (NewJobs (jj_dir s) loaded (jj_files s) (jj_issued s), Resting)"
proof -
  note I = jobs_invD [OF inv]
  have files: "\<And>i job. (i, job) \<in> set (jj_files s) \<Longrightarrow> jb_ID job = i \<and> job_ok job" "fst ` set (jj_files s) \<subseteq> jj_issued s"
    using I(1) by (auto simp: store_ok_def)
  have l: "loaded_ok loaded \<and> fst ` set loaded \<subseteq> jj_issued s"
  proof (cases "jj_dir s")
    case True
    with load have r: "load_files (map (\<lambda>(i, job). (i, Inr job)) (jj_files s)) [] = Inr loaded" by (simp add: LoadJobs_def)
    have "list_all (\<lambda>x. file_ok (jj_issued s) (snd x)) (map (\<lambda>(i, job). (i, Inr job)) (jj_files s))"
      using files by (force simp: list_all_iff file_ok_def)
    then show ?thesis by (intro load_files_ok [OF r]) (simp_all add: loaded_ok_def)
  next
    case False
    with load show ?thesis by (simp add: LoadJobs_def loaded_ok_def)
  qed
  then have at: "(i, job) \<in> set loaded" if "map_of loaded i = Some job" for i job using that by (rule_tac map_of_SomeD)
  show ?thesis
  proof (rule jobs_invI)
    show "store_ok (NewJobs (jj_dir s) loaded (jj_files s) (jj_issued s))"
      using l I(1) at by (auto simp: store_ok_def NewJobs_def loaded_ok_def dom_map_of_conv_image_fst)
    show "running_ok (NewJobs (jj_dir s) loaded (jj_files s) (jj_issued s)) Resting"
      using l at by (auto simp: running_ok_def NewJobs_def loaded_ok_def job_at_def split: if_splits)
  qed (simp_all add: current_ok_def wake_ok_def NewJobs_def)
qed

lemma system_inv:
  assumes "system lib x y" "jobs_inv x"
  shows "jobs_inv y"
  using assms
proof (induction rule: system.induct)
  case (Runner x y) then show ?case by (rule runner_inv)
next
  case (ApiCreate nid s p title goal princ pool now ok) from ApiCreate(2,1) show ?case by (rule create_inv)
next
  case (ApiSay i msg now ok s s' p) from ApiSay(2,1) show ?case by (rule say_inv)
next
  case (ApiCancel i now ok s s' p) from ApiCancel(2,1) show ?case by (rule cancel_inv)
next
  case (ApiDelete s p i ok) then show ?case by (rule delete_inv)
next
  case (Shutdown s p) then show ?case by (rule shutdown_inv)
next
  case (Restart s loaded p) from Restart(2,1) show ?case by (rule restart_inv)
qed

lemma jobs_reachable_inv: "jobs_reachable lib dir x \<Longrightarrow> jobs_inv x"
proof (induction rule: jobs_reachable.induct)
  case Init
  show ?case
    by (rule jobs_invI) (simp_all add: NewJobs_def store_ok_def running_ok_def current_ok_def wake_ok_def job_at_def)
next
  case (Move x y)
  from Move(2) Move(3) show ?case by (rule system_inv)
qed

subsection \<open>A deleted job\<close>

definition file_ids :: "jobs \<Rightarrow> string set" where
  "file_ids s = fst ` set (jj_files s)"

lemma saveLocked_keys: "file_ids (saveLocked ok i s) \<subseteq> file_ids s \<union> set (jj_ids s)"
proof (cases "job_at s i")
  case (Some job)
  from job_at_heap [OF Some] have "i \<in> set (jj_ids s)" by simp
  with Some show ?thesis by (auto simp: saveLocked_def file_ids_def dom_update)
qed (auto simp: saveLocked_def)

definition files_within :: "jobs \<Rightarrow> jobs \<Rightarrow> bool" where
  "files_within s t \<longleftrightarrow> jj_ids t = jj_ids s \<and> jj_issued t = jj_issued s \<and> jj_dir t = jj_dir s \<and>
     file_ids t \<subseteq> file_ids s \<union> set (jj_ids s)"

lemma files_within_same [simp]: "jj_ids t = jj_ids s \<Longrightarrow> jj_issued t = jj_issued s \<Longrightarrow> jj_dir t = jj_dir s \<Longrightarrow> jj_files t = jj_files s \<Longrightarrow> files_within s t"
  by (simp add: files_within_def file_ids_def)

lemma files_within_save: "files_within s t \<Longrightarrow> files_within s (saveLocked ok i t)"
  using saveLocked_keys [of ok i t] unfolding files_within_def saveLocked_frame by (elim conjE) (simp, blast)

lemma files_within_poke: "files_within s t \<Longrightarrow> files_within s (poke t)"
  by (simp add: files_within_def file_ids_def poke_def)

lemma runner_files: "runner lib x y \<Longrightarrow> files_within (fst x) (fst y)"
proof (induction rule: runner.induct)
  case (Begin s i now ok)
  show ?case by (auto simp: run_begin_def intro!: files_within_save split: option.split)
next
  case (Top s r job now ok)
  show ?case by (auto simp: run_top_def intro!: files_within_save)
next
  case (End s r ok)
  show ?case by (auto intro!: files_within_save)
next
  case (Fail s r job e now ok)
  show ?case by (auto simp: run_fail_def Let_def intro!: files_within_save split: step_err.split)
qed simp_all

definition gone :: "string \<Rightarrow> jobs \<Rightarrow> bool" where
  "gone i s \<longleftrightarrow> i \<in> jj_issued s \<and> i \<notin> set (jj_ids s) \<and> i \<notin> file_ids s"

lemma gone_within: "gone i s \<Longrightarrow> files_within s t \<Longrightarrow> gone i t"
  by (auto simp: gone_def files_within_def)

lemma say_files: "Say i msg now ok s = Inr t \<Longrightarrow> files_within s t"
  by (auto simp: Say_def Let_def intro!: files_within_poke files_within_save split: if_splits option.splits)

lemma cancel_files: "Cancel i now ok s = Inr t \<Longrightarrow> files_within s t"
  by (auto simp: Cancel_def intro!: files_within_save split: option.splits)

lemma load_keys:
  assumes "store_ok s" "LoadJobs (jj_dir s) (map (\<lambda>(i, job). (i, Inr job)) (jj_files s)) = Inr loaded"
  shows "fst ` set loaded \<subseteq> file_ids s"
proof (cases "jj_dir s")
  case True
  with assms(2) have r: "load_files (map (\<lambda>(i, job). (i, Inr job)) (jj_files s)) [] = Inr loaded" by (simp add: LoadJobs_def)
  have "file_ok (file_ids s) (Inr job)" if "(i, job) \<in> set (jj_files s)" for i job
  proof -
    from that assms(1) have "jb_ID job = i \<and> job_ok job" unfolding store_ok_def by blast
    with that show ?thesis by (force simp: file_ok_def file_ids_def)
  qed
  then have "list_all (\<lambda>x. file_ok (file_ids s) (snd x)) (map (\<lambda>(i, job). (i, Inr job)) (jj_files s))"
    by (auto simp: list_all_iff)
  from load_files_ok [OF r _ this] show ?thesis by (simp add: loaded_ok_def)
next
  case False
  with assms(2) show ?thesis by (simp add: LoadJobs_def)
qed

lemma system_gone:
  assumes "system lib x y" "jobs_inv x" "gone i (fst x)"
  shows "gone i (fst y)"
  using assms
proof (induction rule: system.induct)
  case (Runner x y)
  show ?case by (rule gone_within [OF Runner(3) runner_files [OF Runner(1)]])
next
  case (ApiCreate nid s p title goal princ pool now ok)
  from ApiCreate(1,3) have n: "nid \<noteq> i" by (auto simp: gone_def)
  let ?t = "set_job nid (log_event ''user'' (trim_space goal) now (new_job nid title goal princ pool now))
      (s\<lparr>jj_ids := jj_ids s @ [nid], jj_issued := insert nid (jj_issued s)\<rparr>)"
  from saveLocked_keys [of ok nid ?t] ApiCreate(3) n show ?case
    by (auto simp: Create_def Let_def poke_def gone_def file_ids_def)
next
  case (ApiSay k msg now ok s s' p)
  then show ?case using gone_within [OF _ say_files [OF ApiSay(1)]] by simp
next
  case (ApiCancel k now ok s s' p)
  then show ?case using gone_within [OF _ cancel_files [OF ApiCancel(1)]] by simp
next
  case (ApiDelete s p k ok)
  have "fst ` set (AList.delete k (jj_files s)) \<subseteq> file_ids s"
    unfolding file_ids_def by (rule image_mono [OF set_delete_subset])
  with ApiDelete(2) set_remove1_subset [of k "jj_ids s"] show ?case
    by (auto simp: Delete_def Let_def gone_def file_ids_def split: option.split)
next
  case (Restart s loaded p)
  from load_keys [OF jobs_invD(1) [OF Restart(2)] Restart(1)] Restart(3) show ?case by (auto simp: gone_def NewJobs_def file_ids_def)
qed (simp add: gone_def file_ids_def)

lemma gone_forever:
  assumes "(system lib)\<^sup>*\<^sup>* x y" "jobs_inv x" "gone i (fst x)"
  shows "jobs_inv y \<and> gone i (fst y)"
  using assms
proof (induction rule: rtranclp_induct)
  case (step y z)
  then have y: "jobs_inv y" "gone i (fst y)" by blast+
  from system_inv [OF step(2) y(1)] system_gone [OF step(2) y] show ?case by (rule conjI)
qed simp

lemma delete_gone:
  assumes "jobs_inv (s, p)" "jj_dir s" "Delete i ok s = (None, s1)"
  shows "gone i s1"
proof -
  note I = jobs_invD [OF assms(1)]
  from assms(3) obtain job where at: "job_at s i = Some job" by (auto simp: Delete_def split: option.splits)
  from I(1) have d: "distinct (jj_ids s)" "dom (jj_heap s) \<subseteq> jj_issued s" by (simp_all add: store_ok_def)
  from job_at_heap [OF at] d(2) have "i \<in> jj_issued s" by blast
  moreover from assms(2,3) at have "s1 = (stop_run job s)\<lparr>jj_ids := remove1 i (jj_ids s), jj_files := AList.delete i (jj_files s)\<rparr>"
    by (auto simp: Delete_def Let_def split: if_splits)
  ultimately show ?thesis using d(1) by (auto simp: gone_def file_ids_def AList.delete_eq)
qed

subsection \<open>The runner comes to rest\<close>

definition queued :: "jobs \<Rightarrow> string \<Rightarrow> bool" where
  "queued s i \<longleftrightarrow> (case jj_heap s i of None \<Rightarrow> False | Some job \<Rightarrow> jb_Status job = JobQueued)"

definition queued_n :: "jobs \<Rightarrow> nat" where
  "queued_n s = length (filter (queued s) (jj_ids s))"

definition budget_left :: "pc \<Rightarrow> nat" where
  "budget_left p = (case pc_run p of None \<Rightarrow> 0 | Some r \<Rightarrow> Suc (jobMaxStepsPerRun - rn_n r))"

fun phase :: "jobs \<Rightarrow> pc \<Rightarrow> nat" where
  "phase s (Chosen i) = (if job_at s i \<noteq> None \<and> queued s i then 0 else 6)"
| "phase s Resting = (if jj_wake s then 5 else 3)"
| "phase s Idle = (if jj_wake s then 4 else 2)"
| "phase s Stopped = 1"
| "phase s (Looping r) = 9"
| "phase s (Stepping r) = 8"
| "phase s (Calling r _ _ _ _) = 7"
| "phase s (Silent r _) = 4"
| "phase s (Counting r _) = 3"
| "phase s (Ending r) = 2"
| "phase s (Errored r _) = 5"
| "phase s (Failing r _) = 4"
| "phase s (Pausing r) = 2"
| "phase s (Leaving r) = 0"
| "phase s p = 6"

fun calls_left :: "pc \<Rightarrow> nat" where
  "calls_left (Acting _ _ _ cs) = 4 * length cs"
| "calls_left (Delegating _ _ _ _ _ _ cs) = 4 * length cs + 3"
| "calls_left (Recording _ _ _ _ _ cs) = 4 * length cs + 2"
| "calls_left (Checking _ _ _ cs) = 4 * length cs + 1"
| "calls_left p = 0"

fun subtasks_left :: "pc \<Rightarrow> nat" where
  "subtasks_left (Delegating _ _ _ slots ended _ _) = length (filter (\<lambda>i. ended i = None) (started slots))"
| "subtasks_left p = 0"

definition rest_measure :: "jobs \<times> pc \<Rightarrow> nat \<times> nat \<times> nat \<times> nat \<times> nat" where
  "rest_measure x = (queued_n (fst x), budget_left (snd x), phase (fst x) (snd x), calls_left (snd x), subtasks_left (snd x))"

definition lex5 :: "((nat \<times> nat \<times> nat \<times> nat \<times> nat) \<times> (nat \<times> nat \<times> nat \<times> nat \<times> nat)) set" where
  "lex5 = less_than <*lex*> less_than <*lex*> less_than <*lex*> less_than <*lex*> less_than"

lemma lex5_iff:
  "((a, b, c, d, e), (a', b', c', d', e')) \<in> lex5 \<longleftrightarrow>
     a < a' \<or> a = a' \<and> (b < b' \<or> b = b' \<and> (c < c' \<or> c = c' \<and> (d < d' \<or> d = d' \<and> e < e')))"
  by (simp add: lex5_def)

lemma wf_lex5: "wf lex5"
  by (simp add: lex5_def wf_lex_prod)

text \<open>A move of the runner queues no job.\<close>

lemma filter_length_mono: "(\<And>x. x \<in> set xs \<Longrightarrow> P x \<Longrightarrow> Q x) \<Longrightarrow> length (filter P xs) \<le> length (filter Q xs)"
  by (induction xs) auto

lemma filter_length_less:
  assumes "i \<in> set xs" "P i" "\<And>k. Q k \<longleftrightarrow> k \<noteq> i \<and> P k"
  shows "length (filter Q xs) < length (filter P xs)"
proof -
  have "filter Q xs = filter (\<lambda>k. k \<noteq> i) (filter P xs)"
    unfolding filter_filter by (rule filter_cong) (auto simp: assms(3))
  moreover have "length (filter (\<lambda>k. k \<noteq> i) (filter P xs)) < length (filter P xs)"
    by (rule length_filter_less [of i]) (use assms(1,2) in simp_all)
  ultimately show ?thesis by simp
qed

lemma queued_set:
  assumes "jj_heap s i = Some job" "ends_run job job'"
  shows "queued_n (set_job i job' s) \<le> queued_n s"
  unfolding queued_n_def set_job_frame
proof (rule filter_length_mono)
  fix k
  assume "queued (set_job i job' s) k"
  with assms show "queued s k" by (auto simp: queued_def ends_run_def split: if_splits)
qed

lemma queued_n_save [simp]: "queued_n (saveLocked ok i s) = queued_n s"
  by (simp add: queued_n_def queued_def [abs_def])

lemma begin_dequeues:
  assumes "distinct (jj_ids s)" "job_at s i = Some job" "jb_Status job = JobQueued" "jb_Status job' = JobRunning"
    "jj_heap t = jj_heap s" "jj_ids t = jj_ids s"
  shows "queued_n (set_job i job' t) < queued_n s"
proof -
  from job_at_heap [OF assms(2)] have h: "jj_heap s i = Some job" "i \<in> set (jj_ids s)" by simp_all
  have q: "queued (set_job i job' t) k \<longleftrightarrow> k \<noteq> i \<and> queued s k" for k
    using assms(4,5) by (simp add: queued_def)
  have "set (filter (queued (set_job i job' t)) (jj_ids s)) = set (filter (queued s) (jj_ids s)) - {i}"
    unfolding set_filter q by blast
  moreover have "i \<in> set (filter (queued s) (jj_ids s))"
    using h assms(3) by (simp add: queued_def)
  ultimately have "card (set (filter (queued (set_job i job' t)) (jj_ids s))) < card (set (filter (queued s) (jj_ids s)))"
    by (simp only: card_Diff1_less [OF finite_set])
  then show ?thesis
    unfolding queued_n_def set_job_frame assms(6)
      distinct_card [OF distinct_filter [OF assms(1)]] .
qed

text \<open>The rest of the measure goes down with every move inside a run.\<close>

lemma lex5_le: "a \<le> a' \<Longrightarrow> ((0, r), (0, r')) \<in> lex5 \<Longrightarrow> ((a, r), (a', r')) \<in> lex5"
  by (cases r, cases r') (auto simp: lex5_iff)

lemma rest_move:
  assumes "jj_heap s (rn_id r) = Some job" "ends_run job job'"
    and "((0, budget_left p', phase (set_job (rn_id r) job' s) p', calls_left p', subtasks_left p'),
          (0, budget_left p, phase s p, calls_left p, subtasks_left p)) \<in> lex5"
  shows "(rest_measure (set_job (rn_id r) job' s, p'), rest_measure (s, p)) \<in> lex5"
  unfolding rest_measure_def fst_conv snd_conv by (rule lex5_le [OF queued_set [OF assms(1,2)] assms(3)])

lemma rest_jump:
  assumes "((0, budget_left p', phase s p', calls_left p', subtasks_left p'),
      (0, budget_left p, phase s p, calls_left p, subtasks_left p)) \<in> lex5"
  shows "(rest_measure (s, p'), rest_measure (s, p)) \<in> lex5"
  unfolding rest_measure_def fst_conv snd_conv by (rule lex5_le [OF order_refl assms])

lemma rest_save: "(rest_measure (s, p'), m) \<in> lex5 \<Longrightarrow> (rest_measure (saveLocked ok i s, p'), m) \<in> lex5"
proof -
  have "phase (saveLocked ok i s) p' = phase s p'"
    by (cases p') (simp_all add: queued_def job_at_def)
  then show "(rest_measure (s, p'), m) \<in> lex5 \<Longrightarrow> (rest_measure (saveLocked ok i s, p'), m) \<in> lex5"
    by (simp add: rest_measure_def)
qed

lemma rest_call:
  assumes "run_call lib busy r workers canPlan c cs now job = Some (job', p)"
  shows "budget_left p = budget_left (Acting r workers canPlan (c # cs)) \<and> phase s p = 6 \<and> calls_left p < 4 * length (c # cs)"
  using assms
  by (auto simp: run_call_def budget_left_def split: if_splits tool_outcome.splits option.splits sum.splits)

lemma rest_fail:
  assumes h: "jj_heap s (rn_id r) = Some job"
  shows "(rest_measure (run_fail r e now ok job s), rest_measure (s, Failing r e)) \<in> lex5"
proof (cases e)
  case (ErrBadPool m)
  show ?thesis unfolding run_fail_def Let_def ErrBadPool step_err.case
    by (rule rest_save, rule rest_move [OF h]) (simp_all add: ends_run_def lex5_iff budget_left_def)
next
  case ErrNoNode
  show ?thesis unfolding run_fail_def Let_def ErrNoNode step_err.case
    by (rule rest_save, rule rest_move [OF h]) (simp_all add: lex5_iff budget_left_def)
next
  case (ErrOther m)
  have i: "rn_id (r\<lparr>rn_fail := rn_fail r + 1\<rparr>) = rn_id r" by simp
  show ?thesis unfolding run_fail_def Let_def ErrOther step_err.case i
    by (rule rest_save, rule rest_move [OF h]) (simp_all add: ends_run_def lex5_iff budget_left_def)
qed

lemma rest_begin:
  assumes inv: "jobs_inv (s, Chosen i)"
  shows "(rest_measure (run_begin i now ok s), rest_measure (s, Chosen i)) \<in> lex5"
proof (cases "\<exists>job. job_at s i = Some job \<and> jb_Status job = JobQueued")
  case True
  then obtain job where job: "job_at s i = Some job" "jb_Status job = JobQueued" by blast
  from jobs_invD(1) [OF inv] have d: "distinct (jj_ids s)" by (simp add: store_ok_def)
  let ?t = "s\<lparr>jj_running := i, jj_stop := True, jj_cancelled := jj_shutdown s\<rparr>"
  let ?j = "log_event ''status'' ''running'' now (job\<lparr>jb_Status := JobRunning\<rparr>)"
  have "queued_n (set_job i ?j ?t) < queued_n s" by (rule begin_dequeues [OF d job]) simp_all
  then have "(rest_measure (set_job i ?j ?t, Looping \<lparr>rn_id = i, rn_n = 0, rn_fail = 0\<rparr>), rest_measure (s, Chosen i)) \<in> lex5"
    by (simp add: rest_measure_def lex5_iff)
  from rest_save [OF this] show ?thesis using job by (simp add: run_begin_def)
next
  case False
  then have b: "run_begin i now ok s = (s, Resting)" by (auto simp: run_begin_def split: option.splits)
  have "\<not> (job_at s i \<noteq> None \<and> queued s i)"
    using False by (auto simp: queued_def job_at_def split: if_splits option.splits)
  then have "phase s (Chosen i) = 6" by (simp only: phase.simps if_False)
  then show ?thesis unfolding b by (intro rest_jump) (simp add: lex5_iff budget_left_def)
qed

lemma rest_top:
  assumes inv: "jobs_inv (s, Looping r)" and h: "jj_heap s (rn_id r) = Some job"
  shows "(rest_measure (run_top r now ok job s), rest_measure (s, Looping r)) \<in> lex5"
proof -
  have jump: "(rest_measure (s, p'), rest_measure (s, Looping r)) \<in> lex5" if "p' = Leaving r \<or> p' = Stepping r" for p'
    by (rule rest_jump) (use that in \<open>auto simp: lex5_iff budget_left_def\<close>)
  have budget: "(rest_measure (saveLocked ok (rn_id r) (set_job (rn_id r) job' s), Leaving r), rest_measure (s, Looping r)) \<in> lex5"
    if "ends_run job job'" for job'
    by (rule rest_save, rule rest_move [OF h that]) (simp add: lex5_iff budget_left_def)
  show ?thesis unfolding run_top_def
    by (simp add: jump budget ends_run_def)
qed

lemma runner_rest:
  assumes "runner lib x y" "jobs_inv x"
  shows "(rest_measure y, rest_measure x) \<in> lex5"
  using assms
proof (induction rule: runner.induct)
  case (Pick s i)
  from next_job_Some [OF jobs_invD(1) [OF Pick(2)] Pick(1)] have "job_at s i \<noteq> None \<and> queued s i"
    by (auto simp: queued_def dest: job_at_heap)
  then have "phase s (Chosen i) = 0" by simp
  then show ?case by (intro rest_jump) (simp add: lex5_iff budget_left_def)
next
  case (NonePick s)
  show ?case by (rule rest_jump) (simp add: lex5_iff budget_left_def)
next
  case (Wake s)
  have "queued_n (s\<lparr>jj_wake := False\<rparr>) = queued_n s" by (simp add: queued_n_def queued_def [abs_def])
  with Wake(1) show ?case by (simp add: rest_measure_def lex5_iff budget_left_def)
next
  case (Halt s)
  show ?case by (rule rest_jump) (simp add: lex5_iff budget_left_def)
next
  case (Begin s i now ok)
  from Begin show ?case by (rule rest_begin)
next
  case (Top s r job now ok)
  from Top(2,1) show ?case by (rule rest_top)
next
  case (Start s r job gv)
  have "phase s (run_step lib gv r job) < 8" "pc_run (run_step lib gv r job) = Some r"
    by (simp_all add: run_step_def split: job_start.split)
  then show ?case by (intro rest_jump) (simp add: lex5_iff budget_left_def)
next
  case (CallFails s r orch workers canPlan req err)
  show ?case by (rule rest_jump) (simp add: lex5_iff budget_left_def)
next
  case (Answer s r job orch workers canPlan sent calls now job' p req)
  from Answer(2) have "ends_run job job'" "\<And>t. phase t p < 7" "pc_run p = Some r"
    by (auto simp: run_answer_def Let_def split: if_splits)
  then show ?case by (intro rest_move [OF Answer(1)]) (simp_all add: lex5_iff budget_left_def)
next
  case (NoCall s r job now orch)
  show ?case by (rule rest_move [OF NoCall(1)]) (simp_all add: lex5_iff budget_left_def)
next
  case (Count s r job orch now)
  have "ends_run job (no_tool_call orch now job)" using no_tool_call_frame(2) [of orch now job] by (auto simp: ends_run_def)
  then show ?case by (rule rest_move [OF Count(1)]) (simp add: lex5_iff budget_left_def)
next
  case (Call s r job busy workers canPlan c cs now job' p)
  from jobs_invD(5) [OF Call(3)] have n: "rn_n r < jobMaxStepsPerRun" by simp
  from store_ok_job [OF jobs_invD(1) [OF Call(3)] Call(1)] have j: "job_ok job" by simp
  from run_call_keeps [OF Call(2) j n] have "ends_run job job'" by simp
  then show ?case using rest_call [OF Call(2)] by (intro rest_move [OF Call(1)]) (simp_all add: lex5_iff)
next
  case (Subtask s r job i slots ended out secs now job' ended' workers canPlan c cs)
  from store_ok_job [OF jobs_invD(1) [OF Subtask(5)] Subtask(1)] jobs_invD(5) [OF Subtask(5)] slot_end_keeps [OF Subtask(4) _ Subtask(2)]
  have st: "ends_run job job'" by simp
  have e: "ended' = ended(i \<mapsto> the (ended' i)) \<and> ended' i \<noteq> None"
    using Subtask(2,4) by (auto simp: slot_end_def set_started slot_save_def split: job_slot.splits prod.splits)
  have "length (filter (\<lambda>k. ended' k = None) (started slots)) < length (filter (\<lambda>k. ended k = None) (started slots))"
  proof (rule filter_length_less [OF Subtask(2)])
    fix k
    from e have "ended' k = (if k = i then Some (the (ended' i)) else ended k)" by (metis fun_upd_apply)
    then show "ended' k = None \<longleftrightarrow> k \<noteq> i \<and> ended k = None" by simp
  qed (rule Subtask(3))
  with st show ?case by (intro rest_move [OF Subtask(1)]) (simp_all add: lex5_iff budget_left_def)
next
  case (Join slots ended s r workers canPlan c cs)
  show ?case by (rule rest_jump) (simp add: lex5_iff budget_left_def)
next
  case (Record s r job workers canPlan c res cs now)
  show ?case by (rule rest_move [OF Record(1)]) (simp_all add: lex5_iff budget_left_def)
next
  case (Check s r job workers canPlan cs)
  show ?case by (rule rest_jump) (simp add: lex5_iff budget_left_def)
next
  case (End s r ok)
  from jobs_invD(5) [OF End] have n: "rn_n r < jobMaxStepsPerRun" by simp
  then show ?case by (intro rest_save rest_jump) (simp add: lex5_iff budget_left_def run_again_def)
next
  case (ErrorGone s r e)
  show ?case by (rule rest_jump) (simp add: lex5_iff budget_left_def)
next
  case (Error s r e)
  show ?case by (rule rest_jump) (simp add: lex5_iff budget_left_def)
next
  case (Fail s r job e now ok)
  from Fail(1) show ?case by (rule rest_fail)
next
  case (PauseGone s r)
  show ?case by (rule rest_jump) (simp add: lex5_iff budget_left_def)
next
  case (Pause s r)
  from jobs_invD(5) [OF Pause] have n: "rn_n r < jobMaxStepsPerRun" by simp
  then show ?case by (intro rest_jump) (simp add: lex5_iff budget_left_def run_again_def)
next
  case (Leave s r)
  have "queued_n (s\<lparr>jj_running := '''', jj_stop := False\<rparr>) = queued_n s" by (simp add: queued_n_def queued_def [abs_def])
  then show ?case by (simp add: rest_measure_def lex5_iff budget_left_def)
qed

lemma run_call_total: "run_call lib busy r workers canPlan c cs now job \<noteq> None"
proof -
  have d: "delegate_start lib busy workers raw now job \<noteq> None" for raw
    using assign_slots_total [of workers lib busy now "[]" "[]" 0 _ job]
    by (cases "workers = []") (simp_all add: delegate_start_def split: option.split)
  show ?thesis
  proof (cases "tool lib canPlan c now job")
    case (ToolDelegate raw)
    obtain x where "delegate_start lib busy workers raw now job = Some x" using d [of raw] by blast
    with ToolDelegate show ?thesis by (simp add: run_call_def split: sum.split prod.split)
  qed (simp add: run_call_def)
qed

text \<open>Outside a wait for work the runner can always move.\<close>

lemma runner_moves:
  assumes inv: "jobs_inv (s, p)" and p: "p \<noteq> Stopped" "p \<noteq> Idle"
  shows "\<exists>y. runner lib (s, p) y"
proof -
  have h: "\<exists>job. jj_heap s (rn_id r) = Some job" if "pc_run p = Some r" for r
    using jobs_invD(3) [OF inv] that by (auto simp: current_ok_def)
  show ?thesis
  proof (cases p)
    case Resting then show ?thesis by (cases "next_job s") (blast intro: runner.intros)+
  next
    case (Acting r workers canPlan cs)
    with jobs_invD(5) [OF inv] obtain c cs' where cs: "cs = c # cs'" by (cases cs) auto
    from h [of r] Acting obtain job where job: "jj_heap s (rn_id r) = Some job" by auto
    obtain job' q where "run_call lib (\<lambda>_ _. 0) r workers canPlan c cs' 0 job = Some (job', q)"
      using run_call_total [of lib "\<lambda>_ _. 0" r workers canPlan c cs' 0 job] by auto
    with job show ?thesis unfolding Acting cs by (blast intro: runner.Call)
  next
    case (Delegating r workers canPlan slots ended c cs)
    from h [of r] Delegating obtain job where job: "jj_heap s (rn_id r) = Some job" by auto
    show ?thesis
    proof (cases "\<forall>i \<in> set (started slots). ended i \<noteq> None")
      case True
      then show ?thesis unfolding Delegating by (blast intro: runner.Join)
    next
      case False
      then obtain i where i: "i \<in> set (started slots)" "ended i = None" by blast
      obtain job' ended' where "slot_end lib slots (undefined, Inl '''') '''' 0 i (job, ended) = (job', ended')" by fastforce
      with job i show ?thesis unfolding Delegating by (blast intro: runner.Subtask)
    qed
  next
    case (Calling r orch workers canPlan req) then show ?thesis by (blast intro: runner.CallFails)
  next
    case (Chosen i) then show ?thesis by (blast intro: runner.Begin)
  next
    case (Looping r) with h [of r] show ?thesis by (auto simp del: split_paired_Ex intro: runner.Top)
  next
    case (Stepping r) with h [of r] show ?thesis by (auto simp del: split_paired_Ex intro: runner.Start)
  next
    case (Silent r orch) with h [of r] show ?thesis by (auto simp del: split_paired_Ex intro: runner.NoCall)
  next
    case (Counting r orch) with h [of r] show ?thesis by (auto simp del: split_paired_Ex intro: runner.Count)
  next
    case (Recording r workers canPlan c res cs) with h [of r] show ?thesis by (auto simp del: split_paired_Ex intro: runner.Record)
  next
    case (Checking r workers canPlan cs) with h [of r] show ?thesis by (auto simp del: split_paired_Ex intro: runner.Check)
  next
    case (Failing r e) with h [of r] show ?thesis by (auto simp del: split_paired_Ex intro: runner.Fail)
  next
    case (Errored r e) then show ?thesis by (cases "jj_cancelled s") (blast intro: runner.ErrorGone runner.Error)+
  qed (use p in \<open>blast intro: runner.End runner.Pause runner.Leave\<close>)+
qed

lemma rest_state:
  assumes inv: "jobs_inv (s, p)" and stuck: "\<nexists>y. runner lib (s, p) y"
  shows "p = Stopped \<or> p = Idle \<and> (\<forall>i job. job_at s i = Some job \<longrightarrow> jb_Status job \<noteq> JobQueued)"
proof -
  from runner_moves [OF inv] stuck have "p = Stopped \<or> p = Idle" by blast
  moreover have "\<not> jj_wake s" if "p = Idle" using stuck that by (blast intro: runner.Wake)
  ultimately show ?thesis using jobs_invD(4) [OF inv] by (auto simp: wake_ok_def)
qed

lemma no_endless_run:
  assumes "jobs_inv x" "f 0 = x" "\<And>k. runner lib (f k) (f (Suc k))"
  shows False
proof -
  have inv: "jobs_inv (f k)" for k
  proof (induction k)
    case (Suc k)
    from assms(3) Suc show ?case by (rule runner_inv)
  qed (simp add: assms(1,2))
  then have "(rest_measure (f (Suc k)), rest_measure (f k)) \<in> lex5" for k by (rule runner_rest [OF assms(3)])
  then have "\<exists>g. \<forall>k. (g (Suc k), g k) \<in> lex5" by (rule_tac exI [of _ "rest_measure \<circ> f"]) simp
  with wf_lex5 show False by (simp add: wf_iff_no_infinite_down_chain)
qed

subsection \<open>Theorems\<close>

text \<open>
  C12. In every state that creations, messages, cancels, deletions, the runner's steps, failing
  disks, shutdowns and restarts can reach, in any interleaving: at most one job of the store is
  running unless the controller is shutting down; every job in the store and every stored file
  satisfies the invariant of a job (a bounded log with consecutive numbers, at most six recent
  steps, tasks numbered from one with distinct documents, done only when the document exists,
  distinct document names, a result made of existing documents); a queued job never waits for a
  wake-up that is lost; and a run is within its step budget.
\<close>

theorem jobs_invariant:
  assumes "jobs_reachable lib dir (s, p)"
  shows "(\<forall>i a. job_at s i = Some a \<longrightarrow> jb_ID a = i \<and> job_ok a) \<and>
    (\<forall>i a. (i, a) \<in> set (jj_files s) \<longrightarrow> jb_ID a = i \<and> job_ok a) \<and>
    (\<forall>i a k b. job_at s i = Some a \<and> job_at s k = Some b \<and> jb_Status a = JobRunning \<and> jb_Status b = JobRunning \<longrightarrow>
       i = k \<or> jj_shutdown s) \<and>
    wake_ok s p \<and> pc_ok p"
proof -
  note I = jobs_invD [OF jobs_reachable_inv [OF assms]]
  have "jb_ID a = i \<and> job_ok a" if "job_at s i = Some a" for i a
    using job_at_heap [OF that] store_ok_job [OF I(1)] by blast
  moreover have "jb_ID a = i \<and> job_ok a" if "(i, a) \<in> set (jj_files s)" for i a
    using that I(1) unfolding store_ok_def by blast
  moreover have "i = k \<or> jj_shutdown s"
    if "job_at s i = Some a" "job_at s k = Some b" "jb_Status a = JobRunning" "jb_Status b = JobRunning" for i a k b
  proof -
    from that I(2) have "jj_shutdown s \<or> runs p i" "jj_shutdown s \<or> runs p k" unfolding running_ok_def by blast+
    then show ?thesis by (auto simp: runs_def)
  qed
  ultimately show ?thesis using I(4,5) by blast
qed

definition sample_store :: jobs where
  "sample_store = snd (Create ''j'' ''book'' ''write a book'' '''' '''' 5 True (NewJobs True [] [] {}))"

lemma sample_store_job:
  "job_at sample_store ''j'' = Some (log_event ''user'' (trim_space ''write a book'') 5 (new_job ''j'' ''book'' ''write a book'' '''' '''' 5))"
  "jj_dir sample_store" "jj_ids sample_store = [''j'']"
  by (simp_all add: sample_store_def Create_def Let_def poke_def job_at_def NewJobs_def)

lemma sample_next: "next_job sample_store = Some ''j''"
  using sample_store_job(1,3)
  by (simp add: next_job_def job_at_def) (simp add: new_job_def Let_def)

lemma sample_store_reachable: "jobs_reachable sample_job_lib True (sample_store, Resting)"
  unfolding sample_store_def
  by (rule jobs_reachable.Move [OF jobs_reachable.Init], rule system.ApiCreate) (simp add: NewJobs_def)

lemma sample_running_reachable: "jobs_reachable sample_job_lib True (run_begin ''j'' 6 True sample_store)"
proof -
  have "jobs_reachable sample_job_lib True (sample_store, Chosen ''j'')"
    by (rule jobs_reachable.Move [OF sample_store_reachable], rule system.Runner, rule runner.Pick, rule sample_next)
  then show ?thesis by (rule jobs_reachable.Move) (rule system.Runner, rule runner.Begin)
qed

lemma sample_running: "\<exists>a. job_at (fst (run_begin ''j'' 6 True sample_store)) ''j'' = Some a \<and> jb_Status a = JobRunning"
proof -
  have "jb_Status (log_event ''user'' (trim_space ''write a book'') 5 (new_job ''j'' ''book'' ''write a book'' '''' '''' 5)) = JobQueued"
    by (simp add: new_job_def Let_def)
  then show ?thesis
    by (simp add: run_begin_def sample_store_job(1) Let_def job_at_set_job)
      (simp add: sample_store_job(3))
qed

theorem jobs_invariant_witness:
  "\<exists>s p a. (s, p) = run_begin ''j'' 6 True sample_store \<and> job_at s ''j'' = Some a \<and> jb_Status a = JobRunning \<and> job_ok a \<and> pc_ok p"
proof -
  obtain s p where sp: "run_begin ''j'' 6 True sample_store = (s, p)" by fastforce
  from sample_running obtain a where a: "job_at s ''j'' = Some a" "jb_Status a = JobRunning" by (auto simp: sp)
  from jobs_invariant [OF sample_running_reachable [unfolded sp]] a(1) have "job_ok a \<and> pc_ok p" by blast
  with sp a show ?thesis by (intro exI conjI) auto
qed

text \<open>
  C34. A deleted job stays deleted: once Delete has removed a job and its file, whatever follows
  (steps of a run of that job still in progress, calls of the API, shutdowns, restarts), the job is
  neither in the store nor in the files again.
\<close>

theorem deleted_job_stays_deleted:
  assumes "jobs_reachable lib dir (s, p)" "jj_dir s" "Delete i ok s = (None, s1)"
    and "(system lib)\<^sup>*\<^sup>* (s1, p) (s2, p2)"
  shows "job_at s2 i = None \<and> map_of (jj_files s2) i = None"
proof -
  note inv = jobs_reachable_inv [OF assms(1)]
  have "jobs_inv (s1, p)" using delete_inv [OF inv, of i ok] assms(3) by simp
  from gone_forever [OF assms(4) this] delete_gone [OF inv assms(2,3)] have "gone i s2" by simp
  then show ?thesis by (simp add: gone_def job_at_def file_ids_def map_of_eq_None_iff)
qed

theorem deleted_job_stays_deleted_witness:
  "\<exists>s1. Delete ''j'' True sample_store = (None, s1) \<and> map_of (jj_files sample_store) ''j'' \<noteq> None \<and>
     job_at s1 ''j'' = None \<and> map_of (jj_files s1) ''j'' = None"
proof -
  obtain s1 where s1: "Delete ''j'' True sample_store = (None, s1)"
    by (simp add: Delete_def sample_store_job)
  have f: "map_of (jj_files sample_store) ''j'' \<noteq> None"
    by (simp add: sample_store_def Create_def Let_def poke_def saveLocked_def job_at_set_job NewJobs_def update_conv')
  from deleted_job_stays_deleted [OF sample_store_reachable sample_store_job(2) s1 rtranclp.rtrancl_refl] s1 f show ?thesis by blast
qed

text \<open>
  C23. Without calls of the API the runner comes to rest: from every reachable state no endless
  sequence of its steps exists, whatever the orchestrators, the workers and the disk do; and where
  it cannot move it has stopped, or waits with no job of the store queued.
\<close>

theorem jobs_come_to_rest:
  assumes "jobs_reachable lib dir (s, p)"
  shows "(\<nexists>f. f 0 = (s, p) \<and> (\<forall>k. runner lib (f k) (f (Suc k)))) \<and>
    ((\<exists>y. runner lib (s, p) y) \<or> p = Stopped \<or> p = Idle \<and> (\<forall>i job. job_at s i = Some job \<longrightarrow> jb_Status job \<noteq> JobQueued))"
proof -
  note inv = jobs_reachable_inv [OF assms]
  show ?thesis
  proof (rule conjI)
    show "\<nexists>f. f 0 = (s, p) \<and> (\<forall>k. runner lib (f k) (f (Suc k)))"
      by (rule notI) (elim exE conjE, erule no_endless_run [OF inv], erule spec)
    show "(\<exists>y. runner lib (s, p) y) \<or> p = Stopped \<or> p = Idle \<and> (\<forall>i job. job_at s i = Some job \<longrightarrow> jb_Status job \<noteq> JobQueued)"
      by (cases "\<exists>y. runner lib (s, p) y", erule disjI1, rule disjI2, erule rest_state [OF inv])
  qed
qed

theorem jobs_come_to_rest_witness:
  "\<nexists>f. f 0 = (sample_store, Resting) \<and> (\<forall>k. runner sample_job_lib (f k) (f (Suc k)))"
  by (rule conjunct1 [OF jobs_come_to_rest [OF sample_store_reachable]])

text \<open>
  A cancel that comes between the check of the status and the next tool call is overwritten: the
  call runs on the cancelled job, and a finish makes it done.
\<close>

lemma cancel_lost:
  assumes "tc_Name c = ''finish''" "jl_args lib (tc_Arguments c) = Inr args" "jb_FinishAsked job" "jb_Status job = JobCancelled"
  shows "\<exists>job' p. run_call lib busy r workers canPlan c cs now job = Some (job', p) \<and> jb_Status job' = JobDone"
  using assms by (simp add: run_call_def repeats_def tool_def tool_result_def finish_frame)

text \<open>
  A message to a running job is not acted upon when the step in progress finishes the job: the
  message leaves the status alone, and the job is done with it unseen.
\<close>

lemma message_lost:
  assumes "job_at s i = Some job" "jb_Status job = JobRunning" "trim_space msg \<noteq> ''''" "Say i msg now ok s = Inr s'"
    and "tc_Name c = ''finish''" "jl_args lib (tc_Arguments c) = Inr args" "jb_FinishAsked job"
  shows "\<exists>job1 job' p. job_at s' i = Some job1 \<and> last (jb_Messages job1) = trim_space msg \<and>
     run_call lib busy r workers canPlan c cs now' job1 = Some (job', p) \<and> jb_Status job' = JobDone"
proof -
  let ?j = "log_event ''user'' (trim_space msg) now (job\<lparr>jb_Messages := jb_Messages job @ [trim_space msg]\<rparr>)"
  have "Say i msg now ok s = Inr (poke (saveLocked ok i (set_job i ?j s)))"
    unfolding Say_def Let_def if_not_P [OF assms(3)] assms(1) option.case by (simp add: assms(2))
  with assms(4) have s': "s' = poke (saveLocked ok i (set_job i ?j s))" by simp
  from job_at_heap [OF assms(1)] have "job_at s' i = Some ?j"
    unfolding s' by (simp add: poke_def job_at_def)
  moreover have "last (jb_Messages ?j) = trim_space msg" by simp
  moreover have "\<exists>job' p. run_call lib busy r workers canPlan c cs now' ?j = Some (job', p) \<and> jb_Status job' = JobDone"
    using assms(5-7) by (simp add: run_call_def repeats_def tool_def tool_result_def finish_frame)
  ultimately show ?thesis by blast
qed

end
