(* ===== verification/JobsAdmin.thy ===== *)
theory JobsAdmin
  imports Jobs Routing
begin

text \<open>
  The admin API of jobs (\<^verbatim>\<open>controller/jobs_admin.go\<close>): the pool a new job runs on, the handlers, and
  the exported counts.  A body is \<open>None\<close> when it does not decode; audit lines are left out.
\<close>

text \<open>\<open>jobPool\<close>: \<open>Inl\<close> is an error message; \<open>q\<close> is the verb \<open>%q\<close>.\<close>

fun job_pool_scan :: "(string \<Rightarrow> string) \<Rightarrow> string \<Rightarrow> pool list \<Rightarrow> (string + string) option" where
  "job_pool_scan q name [] = None"
| "job_pool_scan q name (p # ps) =
     (if pl_Routing p \<noteq> RoutingSuperborg \<or> (name = '''' \<and> pl_Disabled p) then job_pool_scan q name ps
      else if pl_Name p = name \<and> pl_Disabled p then Some (Inl (''pool '' @ q name @ '' is disabled''))
      else if name = '''' \<or> pl_Name p = name then Some (Inr (poolPrefix @ pl_Name p))
      else job_pool_scan q name ps)"

definition jobPool :: "(string \<Rightarrow> string) \<Rightarrow> string \<Rightarrow> pool_map \<Rightarrow> string + string" where
  "jobPool q name ps =
     (let name = (case cut_prefix name poolPrefix of Some n \<Rightarrow> n | None \<Rightarrow> name)
      in case job_pool_scan q name (sorted_pools ps) of
           Some r \<Rightarrow> r
         | None \<Rightarrow> if name = '''' then Inr '''' else Inl (''no Super Borg pool '' @ q name @ '' (a pool with routing '' @ q RoutingSuperborg @ '')''))"

record job_create =
  jc_Title :: string
  jc_Goal :: string
  jc_Pool :: string

datatype job_answer =
    BadBody
  | JobError int string
  | JobListed "job_summary list"
  | JobCreated job_summary
  | JobShown job
  | DocShown job_doc
  | ResultShown string string
  | JobRemoved

definition PanelPrincipal :: string where
  "PanelPrincipal = ''panel''"

definition jobError :: "string \<Rightarrow> job_err \<Rightarrow> job_answer" where
  "jobError os e =
     (case e of
        ErrJobNotFound \<Rightarrow> JobError 404 ''no such job or document''
      | EmptyMessage \<Rightarrow> JobError 400 ''empty message''
      | RemoveFailed \<Rightarrow> JobError 400 os)"

definition adminJobs :: "jobs \<Rightarrow> job_answer" where
  "adminJobs s = JobListed (List_jobs s)"

definition adminCreateJob :: "(string \<Rightarrow> string) \<Rightarrow> string \<Rightarrow> go_time \<Rightarrow> bool \<Rightarrow> pool_map \<Rightarrow> job_create option \<Rightarrow> jobs \<Rightarrow> job_answer \<times> jobs" where
  "adminCreateJob q nid now ok ps body s =
     (case body of
        None \<Rightarrow> (BadBody, s)
      | Some c \<Rightarrow>
          if trim_space (jc_Goal c) = '''' then (JobError 400 ''goal is required'', s)
          else case jobPool q (jc_Pool c) ps of
            Inl err \<Rightarrow> (JobError 400 err, s)
          | Inr pool \<Rightarrow> (let (m, s) = Create nid (jc_Title c) (jc_Goal c) PanelPrincipal pool now ok s in (JobCreated m, s)))"

definition adminJob :: "string \<Rightarrow> jobs \<Rightarrow> job_answer" where
  "adminJob i s = (case Get i s of Inl e \<Rightarrow> jobError '''' e | Inr job \<Rightarrow> JobShown job)"

definition adminJobDoc :: "string \<Rightarrow> string \<Rightarrow> jobs \<Rightarrow> job_answer" where
  "adminJobDoc i name s = (case Doc i name s of Inl e \<Rightarrow> jobError '''' e | Inr d \<Rightarrow> DocShown d)"

definition adminJobResult :: "string \<Rightarrow> jobs \<Rightarrow> job_answer" where
  "adminJobResult i s =
     (case Result i s of Inl e \<Rightarrow> jobError '''' e | Inr md \<Rightarrow> ResultShown (''job-'' @ i @ ''.md'') md)"

definition adminJobMessage :: "string \<Rightarrow> go_time \<Rightarrow> bool \<Rightarrow> string option \<Rightarrow> jobs \<Rightarrow> job_answer \<times> jobs" where
  "adminJobMessage i now ok body s =
     (case body of
        None \<Rightarrow> (BadBody, s)
      | Some msg \<Rightarrow> (case Say i msg now ok s of Inl e \<Rightarrow> (jobError '''' e, s) | Inr s \<Rightarrow> (adminJob i s, s)))"

definition adminJobCancel :: "string \<Rightarrow> go_time \<Rightarrow> bool \<Rightarrow> jobs \<Rightarrow> job_answer \<times> jobs" where
  "adminJobCancel i now ok s =
     (case Cancel i now ok s of Inl e \<Rightarrow> (jobError '''' e, s) | Inr s \<Rightarrow> (adminJob i s, s))"

definition adminDeleteJob :: "string \<Rightarrow> string \<Rightarrow> bool \<Rightarrow> jobs \<Rightarrow> job_answer \<times> jobs" where
  "adminDeleteJob os i ok s =
     (case Delete i ok s of (Some e, s) \<Rightarrow> (jobError os e, s) | (None, s) \<Rightarrow> (JobRemoved, s))"

definition job_statuses :: "string list" where
  "job_statuses = [JobQueued, JobRunning, JobWaiting, JobDone, JobFailed, JobCancelled]"

text \<open>The collector: a count for every status, those without a job included.\<close>

definition Collect_jobs :: "jobs \<Rightarrow> (string \<times> nat) list" where
  "Collect_jobs s =
     foldl (\<lambda>n m. AList.update (sm_Status m) (Suc (case map_of n (sm_Status m) of Some k \<Rightarrow> k | None \<Rightarrow> 0)) n)
       (map (\<lambda>st. (st, 0)) job_statuses) (List_jobs s)"

subsection \<open>The pool of an accepted job\<close>

lemma job_pool_scan_Some:
  "job_pool_scan q name ps = Some (Inr pn) \<Longrightarrow>
     \<exists>p \<in> set ps. pn = poolPrefix @ pl_Name p \<and> pl_Routing p = RoutingSuperborg \<and> \<not> pl_Disabled p \<and> (name = '''' \<or> pl_Name p = name)"
  by (induction ps) (auto split: if_splits)

lemma withMembers_frame:
  "pl_Routing (withMembers v p) = pl_Routing p" "pl_Name (withMembers v p) = pl_Name p"
  "pl_Orchestrator (withMembers v p) = pl_Orchestrator p" "pl_Thinking (withMembers v p) = pl_Thinking p"
  by (simp_all add: withMembers_def Let_def split: prod.split option.split)

lemma job_pool_accepted:
  assumes table: "table_ok ps" and pn: "jobPool q name ps = Inr pn" and gv: "jg_targets gv = Some (Resolve v ps)"
  shows "\<exists>sb bs. job_pool gv pn = Inr (sb, bs) \<and> set bs \<subseteq> set (routable (jg_backends gv)) \<and>
    (pn = '''' \<or> (\<exists>p \<in> snd ` set ps. pn = poolPrefix @ pl_Name p \<and> pl_Routing p = RoutingSuperborg \<and> \<not> pl_Disabled p \<and>
        sb = \<lparr>sb_Orchestrator = pl_Orchestrator p, sb_Thinking = pl_Thinking p\<rparr>))"
proof (cases "pn = ''''")
  case True
  then show ?thesis by (auto simp: job_pool_def)
next
  case False
  let ?n = "case cut_prefix name poolPrefix of Some n \<Rightarrow> n | None \<Rightarrow> name"
  from pn False have "job_pool_scan q ?n (sorted_pools ps) = Some (Inr pn)"
    unfolding jobPool_def Let_def by (cases "job_pool_scan q ?n (sorted_pools ps)") (simp_all split: if_splits)
  from job_pool_scan_Some [OF this] obtain p where p: "p \<in> snd ` set ps" "pn = poolPrefix @ pl_Name p"
      "pl_Routing p = RoutingSuperborg" "\<not> pl_Disabled p" by (auto simp: sorted_pools_def)
  from p(1) obtain k where k: "(k, p) \<in> set ps" by auto
  with table have m: "map_of ps (pl_Name p) = Some p" by (auto simp: table_ok_def list_all_iff)
  let ?w = "withMembers v p"
  have r: "Resolve v ps pn = Some (poolTarget ?w)"
    unfolding Resolve_def p(2) cut_prefix_append option.case m by (simp add: p(3,4) Let_def)
  have v: "is_virtual pn" "pn \<noteq> KindAuto"
    by (simp_all add: p(2) is_virtual_def) (simp add: has_prefix_def)
  from r v have t: "resolve (jg_targets gv) pn = Some (poolTarget ?w)" by (simp add: resolve_def gv)
  have "t_Superborg (poolTarget ?w) = Some \<lparr>sb_Orchestrator = pl_Orchestrator p, sb_Thinking = pl_Thinking p\<rparr>"
    "\<not> t_Disabled (poolTarget ?w)"
    by (simp_all add: poolTarget_def Let_def withMembers_frame p(3) no_target_def)
  with False t show ?thesis
    using p by (simp add: job_pool_def) blast
qed

text \<open>
  A job that the admin API accepts can run: the pool it is created with is the whole cluster or
  an enabled Super Borg pool of the table, and while the pool table stays the same the runner's
  lookup of that name succeeds with the pool's own settings and only ready, undrained nodes, so the
  job is never stopped for a bad pool.
\<close>

theorem accepted_job_has_pool:
  assumes "table_ok ps" "jobPool q name ps = Inr pn" "jg_targets gv = Some (Resolve v ps)"
  shows "\<exists>sb bs. job_pool gv pn = Inr (sb, bs) \<and> set bs \<subseteq> set (routable (jg_backends gv)) \<and>
    (pn = '''' \<or> (\<exists>p \<in> snd ` set ps. pn = poolPrefix @ pl_Name p \<and> pl_Routing p = RoutingSuperborg \<and> \<not> pl_Disabled p \<and>
        sb = \<lparr>sb_Orchestrator = pl_Orchestrator p, sb_Thinking = pl_Thinking p\<rparr>))"
  by (rule job_pool_accepted [OF assms])

definition sample_job_pools :: pool_map where
  "sample_job_pools = [(''team'', (sample_pool ''team'' [''a''])\<lparr>pl_Routing := RoutingSuperborg, pl_Orchestrator := ''a''\<rparr>)]"

definition sample_job_view :: job_view where
  "sample_job_view = \<lparr>jg_targets = Some (Resolve sample_view sample_job_pools), jg_tags = (\<lambda>_. []), jg_msize = (\<lambda>_. 0), jg_info = (\<lambda>_. None),
     jg_backends = [], jg_sscan = (\<lambda>_. None), jg_tps = (\<lambda>_. ''1'')\<rparr>"

theorem accepted_job_has_pool_witness:
  "jobPool (\<lambda>s. s) '''' sample_job_pools = Inr ''pool/team'' \<and> (\<exists>sb bs. job_pool sample_job_view ''pool/team'' = Inr (sb, bs))"
proof -
  have t: "table_ok sample_job_pools"
    by (simp add: table_ok_def sample_job_pools_def sample_pool_def pool_valid_def clean_ok_def trim_space_def is_space_def name_re_def lower_or_digit_def less_eq_char_def)
  have p: "jobPool (\<lambda>s. s) '''' sample_job_pools = Inr ''pool/team''"
    by (simp add: jobPool_def sample_job_pools_def sample_pool_def sorted_pools_def cut_prefix_def has_prefix_def)
  have v: "jg_targets sample_job_view = Some (Resolve sample_view sample_job_pools)" by (simp add: sample_job_view_def)
  from accepted_job_has_pool [OF t p v] p show ?thesis by blast
qed

end
