(* ===== verification/Ollama.thy ===== *)
theory Ollama
  imports Gateway Auth
begin

text \<open>
  The Ollama-compatible front end (\<^verbatim>\<open>gateway/ollama.go\<close>): the documents it builds for the gateway's own
  chat and completion paths, the request it makes for them, and the translation of answers, streamed
  ones piece by piece.

  JSON documents are values of \<open>jval\<close>; a raw message stays a string.  What \<open>encoding/json\<close> reads from a
  body, the clock and the gateway behind \<open>handleProxy\<close> (as the writes it makes for a request) are
  arguments.
\<close>

subsection \<open>Documents and replies\<close>

datatype jval =
    JStr string
  | JInt int
  | JReal real
  | JBool bool
  | JRaw string
  | JList "jval list"
  | JObj "(string \<times> jval) list"

type_synonym jobject = "(string \<times> jval) list"

abbreviation put :: "string \<Rightarrow> jval \<Rightarrow> jobject \<Rightarrow> jobject" where
  "put k v m \<equiv> AList.update k v m"

text \<open>A reply of the front end: its status and the JSON documents written, one to a line.\<close>

record ollama_reply =
  or_status :: int
  or_ndjson :: bool
  or_lines :: "jval list"

definition writeOllamaJSON :: "int \<Rightarrow> jval \<Rightarrow> ollama_reply" where
  "writeOllamaJSON status v = \<lparr>or_status = status, or_ndjson = False, or_lines = [v]\<rparr>"

definition ollamaError :: "int \<Rightarrow> string \<Rightarrow> ollama_reply" where
  "ollamaError status msg = writeOllamaJSON status (JObj [(''error'', JStr msg)])"

definition auth_message :: "auth_error \<Rightarrow> string" where
  "auth_message err =
     (if err = ErrRemoteRequiresKey
      then ''PhoneBorg accepts requests from other machines only with an API key (see -gateway-access)''
      else ''invalid or missing API key'')"

definition ollamaAuth :: "auth_error + principal \<Rightarrow> 'p gateway \<Rightarrow> (ollama_reply + principal) \<times> 'p gateway" where
  "ollamaAuth decision g =
     (case decision of
        Inr p \<Rightarrow> (Inr p, g)
      | Inl err \<Rightarrow>
          (let (status, reason) = (if err = ErrRemoteRequiresKey then (403, ''remote_requires_api_key'') else (401, ''unauthorized''))
           in (Inl (ollamaError status (auth_message err)), reject reason g)))"

text \<open>The handlers that only describe the cluster run after authentication.\<close>

definition with_auth :: "auth_error + principal \<Rightarrow> 'p gateway \<Rightarrow> ollama_reply \<Rightarrow> ollama_reply \<times> 'p gateway" where
  "with_auth decision g reply =
     (case ollamaAuth decision g of (Inl err, g) \<Rightarrow> (err, g) | (Inr p, g) \<Rightarrow> (reply, g))"

definition handleOllamaVersion :: "auth_error + principal \<Rightarrow> 'p gateway \<Rightarrow> ollama_reply \<times> 'p gateway" where
  "handleOllamaVersion decision g =
     with_auth decision g (writeOllamaJSON 200 (JObj [(''version'', JStr ''0.0.0-phoneborg'')]))"

definition handleOllamaUnsupported :: "string \<Rightarrow> auth_error + principal \<Rightarrow> 'p gateway \<Rightarrow> ollama_reply \<times> 'p gateway" where
  "handleOllamaUnsupported path decision g =
     (let msg = path @ '' is not supported by PhoneBorg'' @
                (if path = ''/api/pull'' then ''; add models with `pbctl models add <source>` instead'' else '''')
      in with_auth decision g (ollamaError 501 msg))"

subsection \<open>Models\<close>

record model_info =
  mi_SizeBytes :: int
  mi_SHA256 :: string
  mi_Arch :: string
  mi_Params :: string
  mi_Quant :: string
  mi_Tags :: "string list"

type_synonym model_infos = "(string \<Rightarrow> model_info option) option"

definition modelInfoFor :: "model_infos \<Rightarrow> string \<Rightarrow> model_info option" where
  "modelInfoFor f i = (case f of None \<Rightarrow> None | Some f \<Rightarrow> f i)"

definition SetModelInfo :: "(string \<Rightarrow> model_info option) \<Rightarrow> model_infos \<Rightarrow> model_infos" where
  "SetModelInfo f infos = Some f"

record model_details =
  md_Format :: string
  md_Family :: string
  md_Families :: "string list"
  md_ParameterSize :: string
  md_QuantizationLevel :: string

record tag_model =
  tg_Name :: string
  tg_Model :: string
  tg_ModifiedAt :: go_time
  tg_Size :: int
  tg_Digest :: string
  tg_Details :: model_details

definition placeholderDigest :: string where
  "placeholderDigest = ''sha256:'' @ replicate 64 (CHR ''0'')"

definition or_unknown :: "string \<Rightarrow> string" where
  "or_unknown s = (if s \<noteq> '''' then s else ''unknown'')"

definition ollamaModelFor :: "model_infos \<Rightarrow> go_time \<Rightarrow> string \<Rightarrow> string \<Rightarrow> tag_model" where
  "ollamaModelFor infos now i servedModel =
     (case modelInfoFor infos (if servedModel \<noteq> '''' then servedModel else i) of
        None \<Rightarrow>
          \<lparr>tg_Name = i, tg_Model = i, tg_ModifiedAt = now, tg_Size = 0, tg_Digest = placeholderDigest,
           tg_Details = \<lparr>md_Format = ''gguf'', md_Family = ''unknown'', md_Families = [], md_ParameterSize = ''unknown'',
             md_QuantizationLevel = ''unknown''\<rparr>\<rparr>
      | Some info \<Rightarrow>
          \<lparr>tg_Name = i, tg_Model = i, tg_ModifiedAt = now, tg_Size = mi_SizeBytes info,
           tg_Digest = (if mi_SHA256 info \<noteq> '''' then ''sha256:'' @ mi_SHA256 info else placeholderDigest),
           tg_Details = \<lparr>md_Format = ''gguf'', md_Family = or_unknown (mi_Arch info),
             md_Families = (if mi_Arch info \<noteq> '''' then [mi_Arch info] else []),
             md_ParameterSize = or_unknown (mi_Params info), md_QuantizationLevel = or_unknown (mi_Quant info)\<rparr>\<rparr>)"

definition details_doc :: "model_details \<Rightarrow> jval" where
  "details_doc d = JObj ([(''parent_model'', JStr ''''), (''format'', JStr (md_Format d)), (''family'', JStr (md_Family d))] @
     (if md_Families d = [] then [] else [(''families'', JList (map JStr (md_Families d)))]) @
     [(''parameter_size'', JStr (md_ParameterSize d)), (''quantization_level'', JStr (md_QuantizationLevel d))])"

definition tag_doc :: "(go_time \<Rightarrow> string) \<Rightarrow> tag_model \<Rightarrow> jval" where
  "tag_doc ftime m = JObj [(''name'', JStr (tg_Name m)), (''model'', JStr (tg_Model m)), (''modified_at'', JStr (ftime (tg_ModifiedAt m))),
     (''size'', JInt (tg_Size m)), (''digest'', JStr (tg_Digest m)), (''details'', details_doc (tg_Details m))]"

definition models_doc :: "(go_time \<Rightarrow> string) \<Rightarrow> tag_model list \<Rightarrow> jval" where
  "models_doc ftime ms = JObj [(''models'', JList (map (tag_doc ftime) ms))]"

definition tag_models :: "model_infos \<Rightarrow> go_time \<Rightarrow> backend list \<Rightarrow> model_entry list \<Rightarrow> tag_model list" where
  "tag_models infos now bs resolver_models =
     map (\<lambda>e. ollamaModelFor infos now (me_ID e) (me_Model e)) (ModelEntries bs resolver_models)"

definition handleOllamaTags ::
  "model_infos \<Rightarrow> go_time \<Rightarrow> (go_time \<Rightarrow> string) \<Rightarrow> backend list \<Rightarrow> model_entry list \<Rightarrow> auth_error + principal \<Rightarrow> 'p gateway \<Rightarrow>
   ollama_reply \<times> 'p gateway" where
  "handleOllamaTags infos now ftime bs resolver_models decision g =
     with_auth decision g (writeOllamaJSON 200 (models_doc ftime (tag_models infos now bs resolver_models)))"

text \<open>The body of \<open>/api/show\<close>, decoded: the model and its older name, or the error of the decoder.\<close>

definition handleOllamaShow ::
  "model_infos \<Rightarrow> go_time \<Rightarrow> (go_time \<Rightarrow> string) \<Rightarrow> string + (string \<times> string) \<Rightarrow> auth_error + principal \<Rightarrow> 'p gateway \<Rightarrow>
   ollama_reply \<times> 'p gateway" where
  "handleOllamaShow infos now ftime body decision g =
     with_auth decision g
       (case body of
          Inl err \<Rightarrow> ollamaError 400 (''invalid JSON: '' @ err)
        | Inr (model, name) \<Rightarrow>
            (let i = (if model = '''' then name else model)
             in if i = '''' then ollamaError 400 ''model is required''
                else (let m = ollamaModelFor infos now i ''''
                      in writeOllamaJSON 200 (JObj [(''modelfile'', JStr ''# PhoneBorg: no Modelfile is kept; served over the cluster's OpenAI-compatible gateway''),
                           (''details'', details_doc (tg_Details m)), (''modified_at'', JStr (ftime (tg_ModifiedAt m)))]))))"

fun loaded_models :: "string list \<Rightarrow> backend list \<Rightarrow> string list" where
  "loaded_models seen [] = []"
| "loaded_models seen (b # bs) =
     (if b_Model b = '''' \<or> b_Model b \<in> set seen then loaded_models seen bs
      else b_Model b # loaded_models (b_Model b # seen) bs)"

definition handleOllamaPS ::
  "model_infos \<Rightarrow> go_time \<Rightarrow> (go_time \<Rightarrow> string) \<Rightarrow> backend list \<Rightarrow> auth_error + principal \<Rightarrow> 'p gateway \<Rightarrow> ollama_reply \<times> 'p gateway" where
  "handleOllamaPS infos now ftime bs decision g =
     with_auth decision g (writeOllamaJSON 200 (models_doc ftime
       (map (\<lambda>m. ollamaModelFor infos now m '''') (loaded_models [] (routable bs)))))"

subsection \<open>Requests\<close>

record ollama_options =
  oo_Temperature :: "real option"
  oo_TopP :: "real option"
  oo_TopK :: "int option"
  oo_NumPredict :: "int option"
  oo_Stop :: "string list"
  oo_Seed :: "int option"
  oo_NumCtx :: "int option"

definition put_opt :: "string \<Rightarrow> jval option \<Rightarrow> jobject \<Rightarrow> jobject" where
  "put_opt k v m = (case v of None \<Rightarrow> m | Some v \<Rightarrow> put k v m)"

definition applyTo :: "ollama_options option \<Rightarrow> jobject \<Rightarrow> jobject" where
  "applyTo opts m =
     (case opts of
        None \<Rightarrow> m
      | Some p \<Rightarrow>
          (let m = put_opt ''temperature'' (map_option JReal (oo_Temperature p)) m;
               m = put_opt ''top_p'' (map_option JReal (oo_TopP p)) m;
               m = put_opt ''top_k'' (map_option JInt (oo_TopK p)) m;
               m = (case oo_NumPredict p of None \<Rightarrow> m | Some n \<Rightarrow> if n \<ge> 0 then put ''max_tokens'' (JInt n) m else m);
               m = (if length (oo_Stop p) > 0 then put ''stop'' (JList (map JStr (oo_Stop p))) m else m)
           in put_opt ''seed'' (map_option JInt (oo_Seed p)) m))"

text \<open>\<open>jstr\<close> decodes a raw document that is a JSON string.\<close>

definition isJSONFormat :: "(string \<Rightarrow> string option) \<Rightarrow> string \<Rightarrow> bool" where
  "isJSONFormat jstr f \<longleftrightarrow> length f > 0 \<and> jstr f = Some ''json''"

definition addResponseFormat :: "(string \<Rightarrow> string option) \<Rightarrow> string \<Rightarrow> jobject \<Rightarrow> jobject" where
  "addResponseFormat jstr format m =
     (if isJSONFormat jstr format then put ''response_format'' (JObj [(''type'', JStr ''json_object'')]) m else m)"

record ollama_chat =
  oc_Model :: string
  oc_Messages :: "string list"
  oc_Stream :: "bool option"
  oc_Format :: string
  oc_Options :: "ollama_options option"
  oc_Tools :: string

definition openAIBody :: "(string \<Rightarrow> string option) \<Rightarrow> ollama_chat \<Rightarrow> bool \<Rightarrow> jobject" where
  "openAIBody jstr req stream =
     (let m = [(''model'', JStr (oc_Model req)), (''messages'', JList (map JRaw (oc_Messages req))), (''stream'', JBool stream)];
          m = (if length (oc_Tools req) > 0 \<and> oc_Tools req \<noteq> ''null'' then put ''tools'' (JRaw (oc_Tools req)) m else m)
      in applyTo (oc_Options req) (addResponseFormat jstr (oc_Format req) m))"

record ollama_generate =
  og_Model :: string
  og_Prompt :: string
  og_System :: string
  og_Stream :: "bool option"
  og_Format :: string
  og_Options :: "ollama_options option"
  og_Raw :: bool

definition role_msg :: "string \<Rightarrow> string \<Rightarrow> jval" where
  "role_msg role content = JObj [(''role'', JStr role), (''content'', JStr content)]"

definition chatBody :: "(string \<Rightarrow> string option) \<Rightarrow> ollama_generate \<Rightarrow> bool \<Rightarrow> jobject" where
  "chatBody jstr req stream =
     (let messages = (if og_System req \<noteq> '''' then [role_msg ''system'' (og_System req)] else []) @ [role_msg ''user'' (og_Prompt req)];
          m = [(''model'', JStr (og_Model req)), (''messages'', JList messages), (''stream'', JBool stream)]
      in applyTo (og_Options req) (addResponseFormat jstr (og_Format req) m))"

definition completionBody :: "(string \<Rightarrow> string option) \<Rightarrow> ollama_generate \<Rightarrow> bool \<Rightarrow> jobject" where
  "completionBody jstr req stream =
     (let m = [(''model'', JStr (og_Model req)), (''prompt'', JStr (og_Prompt req)), (''stream'', JBool stream)]
      in applyTo (og_Options req) (addResponseFormat jstr (og_Format req) m))"

text \<open>
  The internal request: its path and body, and of the caller's headers the credentials, the request id
  and the address.  No other header is carried over.
\<close>

record internal_request =
  ir_Path :: string
  ir_Body :: jobject
  ir_Auth :: http_request
  ir_RequestId :: string

definition internalRequest :: "http_request \<Rightarrow> string \<Rightarrow> string \<Rightarrow> jobject \<Rightarrow> internal_request" where
  "internalRequest r requestId path body =
     \<lparr>ir_Path = path, ir_Body = body,
      ir_Auth = \<lparr>hq_Authorization = hq_Authorization r, hq_XAPIKey = hq_XAPIKey r, hq_RemoteAddr = hq_RemoteAddr r, hq_ForwardedFor = ''''\<rparr>,
      ir_RequestId = requestId\<rparr>"

subsection \<open>Statistics and errors\<close>

record ollama_stats =
  st_TotalDuration :: int
  st_LoadDuration :: int
  st_PromptEvalCount :: int
  st_PromptEvalDuration :: int
  st_EvalCount :: int
  st_EvalDuration :: int

text \<open>The conversion \<open>int64\<close> of a float that is not negative.\<close>

definition eval_duration :: "int \<Rightarrow> real \<Rightarrow> int" where
  "eval_duration n tps = (if tps > 0 \<and> n > 0 then \<lfloor>real_of_int n / tps * 1000000000\<rfloor> else 0)"

definition fillStats :: "usage \<Rightarrow> go_duration \<Rightarrow> ollama_stats" where
  "fillStats u elapsed =
     \<lparr>st_TotalDuration = elapsed, st_LoadDuration = 0, st_PromptEvalCount = u_PromptTokens u,
      st_PromptEvalDuration = eval_duration (u_PromptTokens u) (u_PromptTPS u), st_EvalCount = u_CompletionTokens u,
      st_EvalDuration = eval_duration (u_CompletionTokens u) (u_GenTPS u)\<rparr>"

definition stats_doc :: "ollama_stats \<Rightarrow> jobject" where
  "stats_doc s = [(''total_duration'', JInt (st_TotalDuration s)), (''load_duration'', JInt (st_LoadDuration s)),
     (''prompt_eval_count'', JInt (st_PromptEvalCount s)), (''prompt_eval_duration'', JInt (st_PromptEvalDuration s)),
     (''eval_count'', JInt (st_EvalCount s)), (''eval_duration'', JInt (st_EvalDuration s))]"

definition usage_of :: "(string \<Rightarrow> usage_doc option) \<Rightarrow> string \<Rightarrow> bool \<Rightarrow> usage" where
  "usage_of ujson body stream = (case parseUsage ujson body stream of Some u \<Rightarrow> u
     | None \<Rightarrow> \<lparr>u_PromptTokens = 0, u_CompletionTokens = 0, u_CachedTokens = 0, u_PromptTPS = 0, u_GenTPS = 0\<rparr>)"

text \<open>What \<open>encoding/json\<close> makes of an error body: the nested message, and the flat one.\<close>

record error_reader =
  er_nested :: "string \<Rightarrow> string option"
  er_flat :: "string \<Rightarrow> string option"

definition extractOpenAIErrorMessage :: "error_reader \<Rightarrow> string \<Rightarrow> string" where
  "extractOpenAIErrorMessage er body =
     (if er_nested er body \<notin> {None, Some ''''} then the (er_nested er body)
      else if er_flat er body \<notin> {None, Some ''''} then the (er_flat er body)
      else trim_space body)"

subsection \<open>What the gateway writes\<close>

datatype gw_write = WriteHeader int | Write string

record buffered =
  bw_status :: int
  bw_body :: string

fun bw_write :: "buffered \<Rightarrow> gw_write \<Rightarrow> buffered" where
  "bw_write b (WriteHeader code) = b\<lparr>bw_status := code\<rparr>"
| "bw_write b (Write p) = b\<lparr>bw_body := bw_body b @ p\<rparr>"

definition buffered_of :: "gw_write list \<Rightarrow> buffered" where
  "buffered_of ws = foldl bw_write \<lparr>bw_status = 200, bw_body = ''''\<rparr> ws"

text \<open>The first choice of a whole answer; \<open>None\<close> when there is none or the body is not JSON.\<close>

record whole_choice =
  wc_Role :: string
  wc_Content :: string
  wc_ToolCalls :: string
  wc_Text :: string
  wc_Finish :: string

definition done_reason :: "whole_choice option \<Rightarrow> string" where
  "done_reason ch = (case ch of Some c \<Rightarrow> if wc_Finish c \<noteq> '''' then wc_Finish c else ''stop'' | None \<Rightarrow> ''stop'')"

definition writeOllamaChatResult ::
  "(string \<Rightarrow> usage_doc option) \<Rightarrow> (string \<Rightarrow> whole_choice option) \<Rightarrow> error_reader \<Rightarrow> buffered \<Rightarrow> string \<Rightarrow> string \<Rightarrow> go_duration \<Rightarrow> ollama_reply" where
  "writeOllamaChatResult ujson jresp er bw model now elapsed =
     (if bw_status bw \<ge> 400 then ollamaError (bw_status bw) (extractOpenAIErrorMessage er (bw_body bw))
      else
        (let ch = jresp (bw_body bw);
             message = (case ch of None \<Rightarrow> [(''role'', JStr ''assistant''), (''content'', JStr '''')]
               | Some c \<Rightarrow> [(''role'', JStr (if wc_Role c \<noteq> '''' then wc_Role c else ''assistant'')), (''content'', JStr (wc_Content c))] @
                   (if length (wc_ToolCalls c) > 0 \<and> wc_ToolCalls c \<noteq> ''null'' then [(''tool_calls'', JRaw (wc_ToolCalls c))] else []))
         in writeOllamaJSON 200 (JObj ([(''model'', JStr model), (''created_at'', JStr now), (''message'', JObj message), (''done'', JBool True),
              (''done_reason'', JStr (done_reason ch))] @ stats_doc (fillStats (usage_of ujson (bw_body bw) False) elapsed)))))"

definition writeOllamaGenerateResult ::
  "(string \<Rightarrow> usage_doc option) \<Rightarrow> (string \<Rightarrow> whole_choice option) \<Rightarrow> error_reader \<Rightarrow> buffered \<Rightarrow> string \<Rightarrow> string \<Rightarrow> go_duration \<Rightarrow> ollama_reply" where
  "writeOllamaGenerateResult ujson jresp er bw model now elapsed =
     (if bw_status bw \<ge> 400 then ollamaError (bw_status bw) (extractOpenAIErrorMessage er (bw_body bw))
      else
        (let ch = jresp (bw_body bw);
             response = (case ch of None \<Rightarrow> '''' | Some c \<Rightarrow> if wc_Content c \<noteq> '''' then wc_Content c else wc_Text c)
         in writeOllamaJSON 200 (JObj ([(''model'', JStr model), (''created_at'', JStr now), (''response'', JStr response), (''done'', JBool True),
              (''done_reason'', JStr (done_reason ch))] @ stats_doc (fillStats (usage_of ujson (bw_body bw) False) elapsed)))))"

subsection \<open>The stream adapter\<close>

datatype ollama_field = FieldMessage | FieldResponse

text \<open>The first choice of an event; an event without choices, or that is not JSON, has none.\<close>

record stream_choice =
  ch_Content :: string
  ch_Text :: string
  ch_Finish :: "string option"

text \<open>\<open>oa_sent\<close> is the status and the lines written to the client, in order.\<close>

record stream_adapter =
  oa_model :: string
  oa_field :: ollama_field
  oa_completionText :: bool
  oa_status :: int
  oa_wroteHeader :: bool
  oa_isErr :: bool
  oa_lineBuf :: string
  oa_raw :: string
  oa_doneReason :: string
  oa_sent :: "int option \<times> jval list"

definition newOllamaStreamAdapter :: "string \<Rightarrow> ollama_field \<Rightarrow> bool \<Rightarrow> stream_adapter" where
  "newOllamaStreamAdapter model field completionText =
     \<lparr>oa_model = model, oa_field = field, oa_completionText = completionText, oa_status = 0, oa_wroteHeader = False,
      oa_isErr = False, oa_lineBuf = '''', oa_raw = '''', oa_doneReason = ''stop'', oa_sent = (None, [])\<rparr>"

definition oa_WriteHeader :: "int \<Rightarrow> stream_adapter \<Rightarrow> stream_adapter" where
  "oa_WriteHeader code a =
     (if oa_wroteHeader a then a
      else
        (let a = a\<lparr>oa_wroteHeader := True, oa_status := code\<rparr>
         in if code \<ge> 400 then a\<lparr>oa_isErr := True\<rparr> else a\<lparr>oa_sent := (Some 200, snd (oa_sent a))\<rparr>))"

text \<open>\<open>stamp\<close> formats the time of the \<open>k\<close>-th line.\<close>

definition emit_doc :: "string \<Rightarrow> ollama_field \<Rightarrow> string \<Rightarrow> string \<Rightarrow> bool \<Rightarrow> jobject \<Rightarrow> jval" where
  "emit_doc model field now content fin extra =
     JObj ([(''model'', JStr model), (''created_at'', JStr now), (''done'', JBool fin),
       (if field = FieldResponse then (''response'', JStr content) else (''message'', role_msg ''assistant'' content))] @ extra)"

definition emit :: "(nat \<Rightarrow> string) \<Rightarrow> string \<Rightarrow> bool \<Rightarrow> jobject \<Rightarrow> stream_adapter \<Rightarrow> stream_adapter" where
  "emit stamp content fin extra a =
     a\<lparr>oa_sent := (fst (oa_sent a),
        snd (oa_sent a) @ [emit_doc (oa_model a) (oa_field a) (stamp (length (snd (oa_sent a)))) content fin extra])\<rparr>"

text \<open>The payload of a line: what follows \<open>data:\<close>, unless it is empty or the end marker.\<close>

definition sse_data :: "string \<Rightarrow> string option" where
  "sse_data line =
     (case cut_prefix (trim_space line) ''data:'' of
        None \<Rightarrow> None
      | Some d \<Rightarrow> (let d = trim_space d in if d = '''' \<or> d = ''[DONE]'' then None else Some d))"

definition handleLine ::
  "(nat \<Rightarrow> string) \<Rightarrow> (string \<Rightarrow> stream_choice option) \<Rightarrow> string \<Rightarrow> stream_adapter \<Rightarrow> stream_adapter" where
  "handleLine stamp jchunk line a =
     (case sse_data line of
        None \<Rightarrow> a
      | Some d \<Rightarrow>
          (case jchunk d of
             None \<Rightarrow> a
           | Some c \<Rightarrow>
               (let a = (case ch_Finish c of None \<Rightarrow> a | Some f \<Rightarrow> if f \<noteq> '''' then a\<lparr>oa_doneReason := f\<rparr> else a)
                in emit stamp (if oa_completionText a then ch_Text c else ch_Content c) False [] a)))"

text \<open>The loop over the complete lines of \<open>lineBuf\<close>; \<open>acc\<close> is the line being read, reversed.\<close>

fun oa_lines :: "(nat \<Rightarrow> string) \<Rightarrow> (string \<Rightarrow> stream_choice option) \<Rightarrow> string \<Rightarrow> string \<Rightarrow> stream_adapter \<Rightarrow> stream_adapter" where
  "oa_lines stamp jchunk acc [] a = a\<lparr>oa_lineBuf := rev acc\<rparr>"
| "oa_lines stamp jchunk acc (c # cs) a =
     (if c = CHR 0x0A then oa_lines stamp jchunk [] cs (handleLine stamp jchunk (rev (dropWhile (\<lambda>x. x = CHR 0x0D) acc)) a)
      else oa_lines stamp jchunk (c # acc) cs a)"

definition oa_Write :: "(nat \<Rightarrow> string) \<Rightarrow> (string \<Rightarrow> stream_choice option) \<Rightarrow> string \<Rightarrow> stream_adapter \<Rightarrow> stream_adapter" where
  "oa_Write stamp jchunk p a =
     (let a = (if oa_wroteHeader a then a else oa_WriteHeader 200 a);
          a = a\<lparr>oa_raw := oa_raw a @ p\<rparr>
      in if oa_isErr a then a else oa_lines stamp jchunk [] (oa_lineBuf a @ p) a)"

definition oa_finish ::
  "(nat \<Rightarrow> string) \<Rightarrow> (string \<Rightarrow> stream_choice option) \<Rightarrow> (string \<Rightarrow> usage_doc option) \<Rightarrow> error_reader \<Rightarrow> go_duration \<Rightarrow>
   stream_adapter \<Rightarrow> ollama_reply" where
  "oa_finish stamp jchunk ujson er elapsed a =
     (let a = (if \<not> oa_isErr a \<and> length (oa_lineBuf a) > 0 then (handleLine stamp jchunk (oa_lineBuf a) a)\<lparr>oa_lineBuf := ''''\<rparr> else a);
          a = (if oa_wroteHeader a then a else oa_WriteHeader 200 a)
      in if oa_isErr a then ollamaError (oa_status a) (extractOpenAIErrorMessage er (oa_raw a))
         else
           (let a = emit stamp '''' True ((''done_reason'', JStr (oa_doneReason a)) # stats_doc (fillStats (usage_of ujson (oa_raw a) True) elapsed)) a
            in \<lparr>or_status = the (fst (oa_sent a)), or_ndjson = True, or_lines = snd (oa_sent a)\<rparr>))"

fun oa_call :: "(nat \<Rightarrow> string) \<Rightarrow> (string \<Rightarrow> stream_choice option) \<Rightarrow> stream_adapter \<Rightarrow> gw_write \<Rightarrow> stream_adapter" where
  "oa_call stamp jchunk a (WriteHeader code) = oa_WriteHeader code a"
| "oa_call stamp jchunk a (Write p) = oa_Write stamp jchunk p a"

subsection \<open>The two handlers\<close>

text \<open>
  \<open>handleOllamaChat\<close> and \<open>handleOllamaGenerate\<close>: \<open>proxy\<close> is \<open>handleProxy\<close>, as the writes it makes for the
  internal request.
\<close>

record decoders =
  dc_string :: "string \<Rightarrow> string option"
  dc_usage :: "string \<Rightarrow> usage_doc option"
  dc_chunk :: "string \<Rightarrow> stream_choice option"
  dc_answer :: "string \<Rightarrow> whole_choice option"
  dc_error :: error_reader

definition stream_reply :: "decoders \<Rightarrow> (nat \<Rightarrow> string) \<Rightarrow> go_duration \<Rightarrow> stream_adapter \<Rightarrow> gw_write list \<Rightarrow> ollama_reply" where
  "stream_reply dc stamp elapsed a ws =
     oa_finish stamp (dc_chunk dc) (dc_usage dc) (dc_error dc) elapsed (foldl (oa_call stamp (dc_chunk dc)) a ws)"

definition handleOllamaChat ::
  "decoders \<Rightarrow> (nat \<Rightarrow> string) \<Rightarrow> go_duration \<Rightarrow> (internal_request \<Rightarrow> gw_write list) \<Rightarrow> http_request \<Rightarrow> string \<Rightarrow>
   string + ollama_chat \<Rightarrow> ollama_reply" where
  "handleOllamaChat dc stamp elapsed proxy r requestId body =
     (case body of
        Inl err \<Rightarrow> ollamaError 400 (''invalid JSON: '' @ err)
      | Inr req \<Rightarrow>
          (let stream = (case oc_Stream req of None \<Rightarrow> True | Some s \<Rightarrow> s);
               ws = proxy (internalRequest r requestId ''/v1/chat/completions'' (openAIBody (dc_string dc) req stream))
           in if stream then stream_reply dc stamp elapsed (newOllamaStreamAdapter (oc_Model req) FieldMessage False) ws
              else writeOllamaChatResult (dc_usage dc) (dc_answer dc) (dc_error dc) (buffered_of ws) (oc_Model req) (stamp 0) elapsed))"

definition handleOllamaGenerate ::
  "decoders \<Rightarrow> (nat \<Rightarrow> string) \<Rightarrow> go_duration \<Rightarrow> (internal_request \<Rightarrow> gw_write list) \<Rightarrow> http_request \<Rightarrow> string \<Rightarrow>
   string + ollama_generate \<Rightarrow> ollama_reply" where
  "handleOllamaGenerate dc stamp elapsed proxy r requestId body =
     (case body of
        Inl err \<Rightarrow> ollamaError 400 (''invalid JSON: '' @ err)
      | Inr req \<Rightarrow>
          (let stream = (case og_Stream req of None \<Rightarrow> True | Some s \<Rightarrow> s);
               (path, doc) = (if og_Raw req then (''/v1/completions'', completionBody (dc_string dc) req stream)
                              else (''/v1/chat/completions'', chatBody (dc_string dc) req stream));
               ws = proxy (internalRequest r requestId path doc)
           in if stream then stream_reply dc stamp elapsed (newOllamaStreamAdapter (og_Model req) FieldResponse (og_Raw req)) ws
              else writeOllamaGenerateResult (dc_usage dc) (dc_answer dc) (dc_error dc) (buffered_of ws) (og_Model req) (stamp 0) elapsed))"

subsection \<open>A streamed answer does not depend on its pieces\<close>

text \<open>The choice a line carries, and those of a whole body.\<close>

definition line_choices :: "(string \<Rightarrow> stream_choice option) \<Rightarrow> string \<Rightarrow> stream_choice list" where
  "line_choices jchunk line =
     (case sse_data line of None \<Rightarrow> [] | Some d \<Rightarrow> (case jchunk d of None \<Rightarrow> [] | Some c \<Rightarrow> [c]))"

definition body_choices :: "(string \<Rightarrow> stream_choice option) \<Rightarrow> string \<Rightarrow> stream_choice list" where
  "body_choices jchunk body = concat (map (line_choices jchunk) (split_nl [] body))"

definition finish_reason :: "string \<Rightarrow> stream_choice \<Rightarrow> string" where
  "finish_reason r c = (case ch_Finish c of None \<Rightarrow> r | Some f \<Rightarrow> if f \<noteq> '''' then f else r)"

definition choice_docs :: "string \<Rightarrow> ollama_field \<Rightarrow> bool \<Rightarrow> (nat \<Rightarrow> string) \<Rightarrow> stream_choice list \<Rightarrow> jval list" where
  "choice_docs model field ct stamp cs =
     map (\<lambda>(k, c). emit_doc model field (stamp k) (if ct then ch_Text c else ch_Content c) False []) (enumerate 0 cs)"

text \<open>The answer as a function of the status and the whole body.\<close>

definition ollama_answer ::
  "decoders \<Rightarrow> (nat \<Rightarrow> string) \<Rightarrow> go_duration \<Rightarrow> string \<Rightarrow> ollama_field \<Rightarrow> bool \<Rightarrow> int \<Rightarrow> string \<Rightarrow> ollama_reply" where
  "ollama_answer dc stamp elapsed model field ct status body =
     (if status \<ge> 400 then ollamaError status (extractOpenAIErrorMessage (dc_error dc) body)
      else
        (let cs = body_choices (dc_chunk dc) body
         in \<lparr>or_status = 200, or_ndjson = True,
             or_lines = choice_docs model field ct stamp cs @
               [emit_doc model field (stamp (length cs)) '''' True
                  ((''done_reason'', JStr (foldl finish_reason ''stop'' cs)) #
                   stats_doc (fillStats (usage_of (dc_usage dc) body True) elapsed))]\<rparr>))"

fun written_body :: "gw_write list \<Rightarrow> string" where
  "written_body [] = ''''"
| "written_body (WriteHeader code # ws) = written_body ws"
| "written_body (Write p # ws) = p @ written_body ws"

definition written_status :: "gw_write list \<Rightarrow> int" where
  "written_status ws = (case ws of WriteHeader code # _ \<Rightarrow> code | _ \<Rightarrow> 200)"

lemma split_nl_ne [simp]: "split_nl w s \<noteq> []"
  by (induction w s rule: split_nl.induct) auto

lemma split_nl_append:
  "split_nl w (x @ p) = butlast (split_nl w x) @ split_nl (rev (last (split_nl w x))) p"
  by (induction w x rule: split_nl.induct) auto

lemma dropWhile_all: "(\<And>x. x \<in> set r \<Longrightarrow> P x) \<Longrightarrow> dropWhile P (r @ s) = dropWhile P s"
  by (induction r) auto

lemma trim_space_cr: "trim_space (rev (dropWhile (\<lambda>x. x = CHR 0x0D) acc)) = trim_space (rev acc)"
proof -
  let ?r = "takeWhile (\<lambda>x. x = CHR 0x0D) acc" and ?d = "dropWhile (\<lambda>x. x = CHR 0x0D) acc"
  have sp: "is_space x" if "x \<in> set ?r" for x using set_takeWhileD [OF that] by (simp add: is_space_def)
  have acc: "rev acc = rev ?d @ rev ?r" by (metis takeWhile_dropWhile_id rev_append)
  show ?thesis
  proof (cases "\<forall>x \<in> set ?d. is_space x")
    case True
    then have d: "dropWhile is_space (rev ?d) = []" "dropWhile is_space (rev acc) = []"
      using sp unfolding acc by (auto simp: dropWhile_eq_Nil_conv)
    show ?thesis unfolding trim_space_def d by simp
  next
    case False
    then have "dropWhile is_space (rev ?d @ rev ?r) = dropWhile is_space (rev ?d) @ rev ?r"
      by (auto simp: dropWhile_append)
    then show ?thesis
      unfolding trim_space_def acc using dropWhile_all [of ?r is_space "rev (dropWhile is_space (rev ?d))"] sp by simp
  qed
qed

lemma handleLine_choices:
  "handleLine stamp jchunk line a =
     foldl (\<lambda>a c. emit stamp (if oa_completionText a then ch_Text c else ch_Content c) False []
              (a\<lparr>oa_doneReason := finish_reason (oa_doneReason a) c\<rparr>)) a (line_choices jchunk line)"
  by (simp add: handleLine_def line_choices_def finish_reason_def Let_def split: option.split)

lemma handleLine_trim:
  "handleLine stamp jchunk (rev (dropWhile (\<lambda>x. x = CHR 0x0D) acc)) a = handleLine stamp jchunk (rev acc) a"
  by (simp add: handleLine_def sse_data_def trim_space_cr)

lemma oa_lines_split:
  "oa_lines stamp jchunk w s a =
     (foldl (\<lambda>a l. handleLine stamp jchunk l a) a (butlast (split_nl w s)))\<lparr>oa_lineBuf := last (split_nl w s)\<rparr>"
  by (induction w s arbitrary: a rule: split_nl.induct) (simp_all add: handleLine_trim)

text \<open>The adapter after the choices \<open>cs\<close> of a body, with a line \<open>l\<close> not ended yet.\<close>

definition streamed :: "int \<Rightarrow> string \<Rightarrow> ollama_field \<Rightarrow> bool \<Rightarrow> (nat \<Rightarrow> string) \<Rightarrow> stream_choice list \<Rightarrow> string \<Rightarrow> string \<Rightarrow> stream_adapter" where
  "streamed st model field ct stamp cs l body =
     \<lparr>oa_model = model, oa_field = field, oa_completionText = ct, oa_status = st, oa_wroteHeader = True, oa_isErr = False,
      oa_lineBuf = l, oa_raw = body, oa_doneReason = foldl finish_reason ''stop'' cs,
      oa_sent = (Some 200, choice_docs model field ct stamp cs)\<rparr>"

lemma streamed_simps [simp]:
  "oa_completionText (streamed st model field ct stamp cs l body) = ct" "oa_wroteHeader (streamed st model field ct stamp cs l body)"
  "\<not> oa_isErr (streamed st model field ct stamp cs l body)" "oa_lineBuf (streamed st model field ct stamp cs l body) = l"
  "oa_raw (streamed st model field ct stamp cs l body) = body"
  "(streamed st model field ct stamp cs l body)\<lparr>oa_lineBuf := l'\<rparr> = streamed st model field ct stamp cs l' body"
  "(streamed st model field ct stamp cs l body)\<lparr>oa_raw := body'\<rparr> = streamed st model field ct stamp cs l body'"
  by (simp_all add: streamed_def)

lemma streamed_choice:
  "emit stamp (if ct then ch_Text c else ch_Content c) False []
     ((streamed st model field ct stamp cs l body)\<lparr>oa_doneReason := finish_reason (oa_doneReason (streamed st model field ct stamp cs l body)) c\<rparr>) =
   streamed st model field ct stamp (cs @ [c]) l body"
  by (simp add: streamed_def emit_def choice_docs_def enumerate_append_eq)

lemma streamed_line:
  "handleLine stamp jchunk line (streamed st model field ct stamp cs l body) =
   streamed st model field ct stamp (cs @ line_choices jchunk line) l body"
proof -
  have "foldl (\<lambda>a c. emit stamp (if oa_completionText a then ch_Text c else ch_Content c) False []
              (a\<lparr>oa_doneReason := finish_reason (oa_doneReason a) c\<rparr>)) (streamed st model field ct stamp cs l body) cs' =
        streamed st model field ct stamp (cs @ cs') l body" for cs'
    by (induction cs' arbitrary: cs) (simp_all add: streamed_choice)
  then show ?thesis by (simp add: handleLine_choices)
qed

lemma streamed_lines:
  "foldl (\<lambda>a l. handleLine stamp jchunk l a) (streamed st model field ct stamp cs l body) ls =
   streamed st model field ct stamp (cs @ concat (map (line_choices jchunk) ls)) l body"
  by (induction ls arbitrary: cs) (simp_all add: streamed_line)

definition complete_choices :: "(string \<Rightarrow> stream_choice option) \<Rightarrow> string \<Rightarrow> stream_choice list" where
  "complete_choices jchunk body = concat (map (line_choices jchunk) (butlast (split_nl [] body)))"

definition open_line :: "string \<Rightarrow> string" where
  "open_line body = last (split_nl [] body)"

lemma choices_split: "body_choices jchunk body = complete_choices jchunk body @ line_choices jchunk (open_line body)"
proof -
  have "concat (map f xs) = concat (map f (butlast xs)) @ f (last xs)" if "xs \<noteq> []"
    for f :: "string \<Rightarrow> stream_choice list" and xs
    using that by (induction xs) auto
  then show ?thesis by (simp add: body_choices_def complete_choices_def open_line_def)
qed

lemma split_nl_open: "split_nl (rev (open_line body)) [] = [open_line body]"
  by simp

lemma open_line_append:
  "complete_choices jchunk (body @ p) = complete_choices jchunk body @ concat (map (line_choices jchunk) (butlast (split_nl (rev (open_line body)) p)))"
  "open_line (body @ p) = last (split_nl (rev (open_line body)) p)"
  by (simp_all add: complete_choices_def open_line_def split_nl_append butlast_append)

text \<open>An open line has no newline in it.\<close>

lemma split_nl_last: "CHR 0x0A \<notin> set w \<Longrightarrow> CHR 0x0A \<notin> set (last (split_nl w s))"
  by (induction w s rule: split_nl.induct) auto

lemma split_nl_plain: "CHR 0x0A \<notin> set l \<Longrightarrow> split_nl w (l @ p) = split_nl (rev l @ w) p"
  by (induction l arbitrary: w) auto

lemma streamed_write:
  "oa_Write stamp jchunk p (streamed st model field ct stamp (complete_choices jchunk body) (open_line body) body) =
   streamed st model field ct stamp (complete_choices jchunk (body @ p)) (open_line (body @ p)) (body @ p)"
proof -
  have "CHR 0x0A \<notin> set (open_line body)" by (simp add: open_line_def split_nl_last)
  then have "split_nl [] (open_line body @ p) = split_nl (rev (open_line body)) p" by (simp add: split_nl_plain)
  then show ?thesis by (simp add: oa_Write_def Let_def oa_lines_split streamed_lines open_line_append)
qed

lemma streamed_calls:
  "foldl (oa_call stamp jchunk) (streamed st model field ct stamp (complete_choices jchunk body) (open_line body) body) ws =
   (let b = body @ written_body ws in streamed st model field ct stamp (complete_choices jchunk b) (open_line b) b)"
proof (induction ws arbitrary: body)
  case (Cons w ws)
  show ?case
  proof (cases w)
    case (WriteHeader code)
    then show ?thesis using Cons [of body] by (simp add: oa_WriteHeader_def)
  next
    case (Write p)
    then show ?thesis using Cons [of "body @ p"] by (simp add: streamed_write)
  qed
qed simp

lemma errored_calls:
  "oa_wroteHeader a \<Longrightarrow> oa_isErr a \<Longrightarrow> foldl (oa_call stamp jchunk) a ws = a\<lparr>oa_raw := oa_raw a @ written_body ws\<rparr>"
proof (induction ws arbitrary: a)
  case (Cons w ws)
  then show ?case by (cases w) (simp_all add: oa_WriteHeader_def oa_Write_def Let_def)
qed simp

lemma finish_streamed:
  "oa_finish stamp (dc_chunk dc) (dc_usage dc) (dc_error dc) elapsed
     (streamed st model field ct stamp (complete_choices (dc_chunk dc) body) (open_line body) body) =
   (let cs = body_choices (dc_chunk dc) body
    in \<lparr>or_status = 200, or_ndjson = True,
        or_lines = choice_docs model field ct stamp cs @
          [emit_doc model field (stamp (length cs)) '''' True ((''done_reason'', JStr (foldl finish_reason ''stop'' cs)) #
             stats_doc (fillStats (usage_of (dc_usage dc) body True) elapsed))]\<rparr>)"
proof -
  let ?st = "\<lambda>cs l. streamed st model field ct stamp cs l body"
  have e: "line_choices (dc_chunk dc) '''' = []" by (simp add: line_choices_def sse_data_def trim_space_def cut_prefix_def has_prefix_def)
  have "(if \<not> oa_isErr (?st cs l) \<and> length (oa_lineBuf (?st cs l)) > 0
         then (handleLine stamp (dc_chunk dc) (oa_lineBuf (?st cs l)) (?st cs l))\<lparr>oa_lineBuf := ''''\<rparr> else ?st cs l) =
        ?st (cs @ line_choices (dc_chunk dc) l) ''''" for cs l
    using e by (simp add: streamed_line)
  then show ?thesis
    unfolding oa_finish_def Let_def choices_split by (simp add: emit_def streamed_def choice_docs_def)
qed

text \<open>
  C35. A streamed Ollama answer depends only on the status and the concatenated body of what the gateway
  writes, not on how the body was split into writes: a status of 400 or more becomes one error document
  with the gateway's message; otherwise each event of the body with a choice becomes one line, in order,
  and one last line ends the answer with the last reason given and the usage of the whole body.
\<close>

theorem ollama_stream_chunking:
  "stream_reply dc stamp elapsed (newOllamaStreamAdapter model field ct) ws =
   ollama_answer dc stamp elapsed model field ct (written_status ws) (written_body ws)"
proof -
  let ?new = "newOllamaStreamAdapter model field ct" and ?call = "oa_call stamp (dc_chunk dc)"
  let ?st = "\<lambda>code b. streamed code model field ct stamp (complete_choices (dc_chunk dc) b) (open_line b) b"
  have start: "oa_WriteHeader code ?new = ?st code ''''" if "\<not> code \<ge> 400" for code
    using that by (simp add: oa_WriteHeader_def newOllamaStreamAdapter_def streamed_def complete_choices_def open_line_def choice_docs_def)
  have ok: "stream_reply dc stamp elapsed a ws' = ollama_answer dc stamp elapsed model field ct code (b @ written_body ws')"
    if "a = ?st code b" "\<not> code \<ge> 400" for a code b ws'
    using that by (simp add: stream_reply_def streamed_calls finish_streamed ollama_answer_def Let_def)
  show ?thesis
  proof (cases ws)
    case Nil
    have "stream_reply dc stamp elapsed ?new [] = stream_reply dc stamp elapsed (oa_WriteHeader 200 ?new) []"
      by (simp add: stream_reply_def oa_finish_def oa_WriteHeader_def newOllamaStreamAdapter_def)
    then show ?thesis using ok [OF start [of 200], of "[]"] by (simp add: Nil written_status_def)
  next
    case (Cons w ws')
    show ?thesis
    proof (cases w)
      case (WriteHeader code)
      show ?thesis
      proof (cases "code \<ge> 400")
        case True
        let ?err = "oa_WriteHeader code ?new"
        have "foldl ?call ?err ws' = ?err\<lparr>oa_raw := written_body ws'\<rparr>"
          by (subst errored_calls) (simp_all add: True oa_WriteHeader_def newOllamaStreamAdapter_def)
        then show ?thesis
          using True by (simp add: Cons WriteHeader stream_reply_def oa_finish_def oa_WriteHeader_def newOllamaStreamAdapter_def
              ollama_answer_def written_status_def)
      next
        case False
        then show ?thesis
          using ok [OF start [OF False] False, of ws'] by (simp add: Cons WriteHeader stream_reply_def written_status_def)
      qed
    next
      case (Write p)
      have "oa_Write stamp (dc_chunk dc) p ?new = oa_Write stamp (dc_chunk dc) p (oa_WriteHeader 200 ?new)"
        by (simp add: oa_Write_def oa_WriteHeader_def newOllamaStreamAdapter_def)
      then have "oa_Write stamp (dc_chunk dc) p ?new = ?st 200 p" using streamed_write [of _ _ p] by (simp add: start)
      then show ?thesis using ok [of _ 200 p ws'] by (simp add: Cons Write stream_reply_def written_status_def)
    qed
  qed
qed

subsection \<open>Who the caller is\<close>

text \<open>The peer of a request as \<open>remoteIP\<close> finds it.\<close>

definition peer_of :: "(string \<Rightarrow> 'ip option) \<Rightarrow> (string \<Rightarrow> string option) \<Rightarrow> http_request \<Rightarrow> 'ip option" where
  "peer_of pip split r = pip (case split (hq_RemoteAddr r) of None \<Rightarrow> hq_RemoteAddr r | Some h \<Rightarrow> h)"

text \<open>
  C36. The gateway decides on the internal request as it would on the caller's own, unless the caller comes
  through a trusted proxy that names another address: credentials and peer are carried over, and the
  header \<open>X-Forwarded-For\<close>, which is lost, counts for peers among the trusted proxies only.
\<close>

theorem ollama_same_decision:
  assumes "hq_ForwardedFor r = '''' \<or> (\<forall>ip. peer_of pip split r = Some ip \<longrightarrow> \<not> list_ex (\<lambda>n. n ip) (ac_TrustedProxies a))"
  shows "Authenticate sha pip split a (ir_Auth (internalRequest r requestId path body)) = Authenticate sha pip split a r"
proof -
  let ?r = "ir_Auth (internalRequest r requestId path body)"
  have k: "Lookup_key sha (ac_Keys a) ?r = Lookup_key sha (ac_Keys a) r"
    by (simp add: Lookup_key_def request_key_def internalRequest_def cong: option.case_cong)
  have "remoteIP pip split ?r (ac_TrustedProxies a) = remoteIP pip split r (ac_TrustedProxies a)"
    using assms by (auto simp: remoteIP_def internalRequest_def peer_of_def Let_def split: option.split)
  then have "isTrusted pip split a ?r = isTrusted pip split a r" by (simp add: isTrusted_def)
  then show ?thesis by (simp add: Authenticate_def k)
qed

definition sample_caller :: http_request where
  "sample_caller = \<lparr>hq_Authorization = '''', hq_XAPIKey = '''', hq_RemoteAddr = ''127.0.0.1'', hq_ForwardedFor = ''203.0.113.9''\<rparr>"

definition sample_access :: "(string \<Rightarrow> bool) list \<Rightarrow> string access_control" where
  "sample_access proxies = \<lparr>ac_Keys = NewStaticKeys '''',
     ac_Mode = AccessLocal, ac_Trusted = [\<lambda>ip. ip = ''127.0.0.1''], ac_TrustedProxies = proxies\<rparr>"

lemma ollama_same_decision_witness:
  "Authenticate id Some (\<lambda>_. None) (sample_access []) (ir_Auth (internalRequest sample_caller '''' ''/v1/chat/completions'' [])) =
   Authenticate id Some (\<lambda>_. None) (sample_access []) sample_caller"
  by (rule ollama_same_decision) (simp add: sample_access_def)

text \<open>
  Behind a trusted proxy on a trusted address a remote client without a key is refused by the OpenAI
  paths, but the Ollama chat and generate paths take it for a local one.
\<close>

lemma ollama_forwarded_client_trusted:
  "Authenticate id Some (\<lambda>_. None) (sample_access [\<lambda>ip. ip = ''127.0.0.1'']) sample_caller = Inl ErrRemoteRequiresKey"
  "Authenticate id Some (\<lambda>_. None) (sample_access [\<lambda>ip. ip = ''127.0.0.1''])
     (ir_Auth (internalRequest sample_caller '''' ''/v1/chat/completions'' [])) = Inr \<lparr>p_Name = Local\<rparr>"
  by (simp_all add: Authenticate_def sample_access_def sample_caller_def Lookup_key_def request_key_def isTrusted_def remoteIP_def
      internalRequest_def has_prefix_def first_of_list_def trim_space_def is_space_def cut_prefix_def NewStaticKeys_def)

text \<open>Every loaded model is listed once.\<close>

lemma loaded_models_distinct:
  "distinct (loaded_models seen bs) \<and> set (loaded_models seen bs) = {b_Model b |b. b \<in> set bs \<and> b_Model b \<noteq> ''''} - set seen"
  by (induction seen bs rule: loaded_models.induct) auto

end
