(* ===== verification/AgentFiles.thy ===== *)
theory AgentFiles
  imports Catalog MemPlan
begin

text \<open>
  The model files on a phone (\<^verbatim>\<open>node-agent/download.go\<close>): the cache of checksums, the resumable
  download, and the eviction of cached models.

  The directory is an association list from paths to files, in the order of \<open>ReadDir\<close>.  \<open>sha\<close> is the
  hex digest; replies of the server, failures of the disk and the clock are arguments.
\<close>

record model_file =
  mf_data :: string
  mf_mtime :: go_time
  mf_dir :: bool

type_synonym model_files = "(string \<times> model_file) list"

definition mf_size :: "model_file \<Rightarrow> int" where
  "mf_size f = int (length (mf_data f))"

text \<open>\<open>strings.EqualFold\<close> on hex digests.\<close>

definition equal_fold :: "string \<Rightarrow> string \<Rightarrow> bool" where
  "equal_fold a b \<longleftrightarrow> to_lower a = to_lower b"

definition fileHasSHA256 :: "(string \<Rightarrow> string) \<Rightarrow> model_files \<Rightarrow> string \<Rightarrow> string \<Rightarrow> bool" where
  "fileHasSHA256 sha fs path wantSHA =
     (if wantSHA = '''' then False
      else case map_of fs path of None \<Rightarrow> False | Some f \<Rightarrow> equal_fold (sha (mf_data f)) wantSHA)"

subsection \<open>The cache of checksums\<close>

record sha_cache =
  sh_path :: string
  sh_size :: int
  sh_mtime :: go_time
  sh_sha :: string

text \<open>\<open>readable\<close> tells whether the file can be read to its end.\<close>

definition verify :: "(string \<Rightarrow> string) \<Rightarrow> bool \<Rightarrow> model_files \<Rightarrow> string \<Rightarrow> sha_cache \<Rightarrow> string option \<times> sha_cache" where
  "verify sha readable fs path c =
     (case map_of fs path of
        None \<Rightarrow> (None, c)
      | Some f \<Rightarrow>
          if sh_path c = path \<and> sh_size c = mf_size f \<and> sh_mtime c = mf_mtime f then (Some (sh_sha c), c)
          else if \<not> readable then (None, c)
          else (Some (sha (mf_data f)), \<lparr>sh_path = path, sh_size = mf_size f, sh_mtime = mf_mtime f, sh_sha = sha (mf_data f)\<rparr>))"

subsection \<open>The download\<close>

text \<open>
  A reply: its status, the content length (negative: unknown), the pieces of the body, and the error
  that ends them (\<open>None\<close>: end of file).  Each operation on the part file may fail.
\<close>

record dl_reply =
  dl_status :: int
  dl_length :: int
  dl_chunks :: "string list"
  dl_end :: "string option"

record dl_env =
  de_open :: "string option"
  de_reply :: "string + dl_reply"
  de_truncate :: "string option"
  de_seek :: "string option"
  de_write :: "nat \<Rightarrow> (string \<times> nat) option"
  de_sync :: "string option"
  de_close :: "string option"
  de_rename :: "string option"
  de_now :: go_time

text \<open>The loop over the pieces; a write that fails may have written the first \<open>j\<close> bytes of its piece.\<close>

fun dl_write :: "(nat \<Rightarrow> (string \<times> nat) option) \<Rightarrow> nat \<Rightarrow> string list \<Rightarrow> string \<Rightarrow> string option \<times> string" where
  "dl_write w k [] data = (None, data)"
| "dl_write w k (c # cs) data =
     (if c = '''' then dl_write w (Suc k) cs data
      else case w k of
        Some (err, j) \<Rightarrow> (Some err, data @ take j c)
      | None \<Rightarrow> dl_write w (Suc k) cs (data @ c))"

definition part_file :: "string \<Rightarrow> string" where
  "part_file dest = dest @ ''.part''"

text \<open>Opening creates the part file; truncating or writing it changes its content and its time.\<close>

definition open_part :: "string \<Rightarrow> go_time \<Rightarrow> model_files \<Rightarrow> model_files" where
  "open_part dest now fs =
     (case map_of fs (part_file dest) of
        Some f \<Rightarrow> fs
      | None \<Rightarrow> AList.update (part_file dest) \<lparr>mf_data = '''', mf_mtime = now, mf_dir = False\<rparr> fs)"

definition part_data :: "string \<Rightarrow> model_files \<Rightarrow> string" where
  "part_data dest fs = (case map_of fs (part_file dest) of None \<Rightarrow> '''' | Some f \<Rightarrow> mf_data f)"

definition put_part :: "string \<Rightarrow> string \<Rightarrow> go_time \<Rightarrow> model_files \<Rightarrow> model_files" where
  "put_part dest data now fs =
     (if part_data dest fs = data then fs
      else AList.update (part_file dest) \<lparr>mf_data = data, mf_mtime = now, mf_dir = False\<rparr> fs)"

definition rename_part_file :: "string \<Rightarrow> model_files \<Rightarrow> model_files" where
  "rename_part_file dest fs =
     (case map_of fs (part_file dest) of None \<Rightarrow> fs
      | Some f \<Rightarrow> AList.update dest f (AList.delete (part_file dest) fs))"

text \<open>The range asked for: \<open>Some k\<close> is \<open>bytes=k-\<close>.\<close>

definition dl_range :: "string \<Rightarrow> model_files \<Rightarrow> nat option" where
  "dl_range dest fs =
     (case map_of fs (part_file dest) of
        None \<Rightarrow> None
      | Some f \<Rightarrow> if length (mf_data f) > 0 then Some (length (mf_data f)) else None)"

definition downloadModel ::
  "(string \<Rightarrow> string) \<Rightarrow> string \<Rightarrow> string \<Rightarrow> string \<Rightarrow> dl_env \<Rightarrow> model_files \<Rightarrow> string option \<times> model_files" where
  "downloadModel sha url dest wantSHA env fs =
     (case de_open env of
        Some err \<Rightarrow> (Some (''open '' @ part_file dest @ '': '' @ err), fs)
      | None \<Rightarrow>
          (let old = part_data dest fs;
               fs = open_part dest (de_now env) fs
           in case de_reply env of
                Inl err \<Rightarrow> (Some err, fs)
              | Inr rep \<Rightarrow>
                  if dl_status rep \<noteq> 200 \<and> dl_status rep \<noteq> 206 then
                    (Some (''GET '' @ url @ '': HTTP '' @ itoa (dl_status rep)), fs)
                  else
                    (case (if dl_status rep = 200 then de_truncate env else None) of
                       Some err \<Rightarrow> (Some err, fs)
                     | None \<Rightarrow>
                    (let data = (if dl_status rep = 200 then '''' else old);
                         fs = put_part dest data (de_now env) fs
                     in case de_seek env of
                          Some err \<Rightarrow> (Some err, fs)
                        | None \<Rightarrow>
                            (let (werr, data) = dl_write (de_write env) 0 (dl_chunks rep) data;
                                 fs = put_part dest data (de_now env) fs
                             in case werr of
                                  Some err \<Rightarrow> (Some err, fs)
                                | None \<Rightarrow>
                                    (case dl_end rep of
                                       Some err \<Rightarrow> (Some err, fs)
                                     | None \<Rightarrow>
                                         (case de_sync env of
                                            Some err \<Rightarrow> (Some err, fs)
                                          | None \<Rightarrow>
                                              if \<not> equal_fold (sha data) wantSHA then
                                                (Some (''sha256 mismatch: got '' @ sha data @ '', want '' @ wantSHA), fs)
                                              else
                                                (case de_close env of
                                                   Some err \<Rightarrow> (Some err, fs)
                                                 | None \<Rightarrow>
                                                     (case de_rename env of
                                                        Some err \<Rightarrow> (Some err, fs)
                                                      | None \<Rightarrow>
                                                          (None, rename_part_file dest fs))))))))))"

text \<open>The progress reported after a piece: \<open>written / total\<close>, where the total is known.\<close>

definition dl_total :: "int \<Rightarrow> int \<Rightarrow> dl_reply \<Rightarrow> int" where
  "dl_total hint offset rep = (if dl_length rep \<ge> 0 then (if dl_status rep = 200 then 0 else offset) + dl_length rep else hint)"

subsection \<open>Eviction\<close>

fun evict_loop :: "(string \<Rightarrow> bool) \<Rightarrow> int \<Rightarrow> int \<Rightarrow> (string \<times> model_file) list \<Rightarrow> model_files \<Rightarrow> int \<times> model_files" where
  "evict_loop removable free needed [] fs = (free, fs)"
| "evict_loop removable free needed ((p, f) # ms) fs =
     (if free \<ge> needed then (free, fs)
      else if \<not> removable p then evict_loop removable free needed ms fs
      else evict_loop removable (free + mf_size f) needed ms (AList.delete p fs))"

text \<open>The entries of \<open>ReadDir dir\<close>: the paths one level below it.\<close>

definition dir_entry :: "string \<Rightarrow> string \<Rightarrow> string option" where
  "dir_entry dir p = (case cut_prefix p (dir @ ''/'') of None \<Rightarrow> None
     | Some n \<Rightarrow> if n = '''' \<or> CHR ''/'' \<in> set n then None else Some n)"

definition evictable :: "string \<Rightarrow> string \<Rightarrow> string \<Rightarrow> string \<times> model_file \<Rightarrow> bool" where
  "evictable dir keep dest e \<longleftrightarrow>
     \<not> mf_dir (snd e) \<and> (case dir_entry dir (fst e) of None \<Rightarrow> False | Some n \<Rightarrow> has_suffix n ''.gguf'') \<and>
     fst e \<noteq> keep \<and> fst e \<noteq> dest"

definition evict_candidates :: "string \<Rightarrow> string \<Rightarrow> string \<Rightarrow> model_files \<Rightarrow> model_files" where
  "evict_candidates dir keep dest fs = sort_key (\<lambda>e. mf_mtime (snd e)) (filter (evictable dir keep dest) fs)"

text \<open>
  \<open>evictLRU\<close>: \<open>removable\<close> tells which files \<open>os.Remove\<close> can delete, \<open>listed\<close> whether the directory can be
  read.  The sort by time is not stable; on equal times this is one of its results.
\<close>

definition evictLRU ::
  "(string \<Rightarrow> bool) \<Rightarrow> bool \<Rightarrow> string \<Rightarrow> string \<Rightarrow> string \<Rightarrow> int \<Rightarrow> int \<Rightarrow> model_files \<Rightarrow> string option \<times> model_files" where
  "evictLRU removable listed dir keep dest free needed fs =
     (if free \<ge> needed then (None, fs)
      else if \<not> listed then (Some (''read '' @ dir), fs)
      else
        (let (free, fs) = evict_loop removable free needed (evict_candidates dir keep dest fs) fs
         in if free < needed then
              (Some (''not enough storage: need '' @ itoa (trunc_div needed mib) @ '' MiB, have '' @ itoa (trunc_div free mib) @ '' MiB free''), fs)
            else (None, fs)))"

subsection \<open>What a download does to the directory\<close>

lemma part_file_neq [simp]: "part_file d \<noteq> d" "d \<noteq> part_file d"
  by (simp_all add: part_file_def)

lemma open_part_other: "p \<noteq> part_file dest \<Longrightarrow> map_of (open_part dest now fs) p = map_of fs p"
  by (simp add: open_part_def update_conv split: option.split)

lemma put_part_other: "p \<noteq> part_file dest \<Longrightarrow> map_of (put_part dest data now fs) p = map_of fs p"
  by (simp add: put_part_def update_conv)

lemma open_part_data [simp]: "part_data dest (open_part dest now fs) = part_data dest fs"
  by (simp add: open_part_def part_data_def update_conv split: option.split)

lemma put_part_data [simp]: "part_data dest (put_part dest data now fs) = data"
  by (simp add: put_part_def part_data_def update_conv)

lemma open_part_exists: "map_of (open_part dest now fs) (part_file dest) \<noteq> None"
  by (simp add: open_part_def update_conv split: option.split)

lemma put_part_exists: "map_of fs (part_file dest) \<noteq> None \<Longrightarrow> map_of (put_part dest data now fs) (part_file dest) \<noteq> None"
  by (simp add: put_part_def update_conv)

lemma rename_part_file_conv:
  assumes "map_of fs (part_file dest) = Some f"
  shows "map_of (rename_part_file dest fs) = (map_of fs)(part_file dest := None, dest \<mapsto> f)"
  by (rule ext) (simp add: rename_part_file_def assms update_conv delete_conv)

lemma dl_write_ok: "dl_write w k cs data = (None, d) \<Longrightarrow> d = data @ concat cs"
  by (induction w k cs data arbitrary: d rule: dl_write.induct) (auto split: if_splits option.splits)

text \<open>The bytes a successful download ends with, by the status of the reply.\<close>

definition dl_result :: "string \<Rightarrow> model_files \<Rightarrow> dl_reply \<Rightarrow> string" where
  "dl_result dest fs rep = (if dl_status rep = 200 then '''' else part_data dest fs) @ concat (dl_chunks rep)"

lemma downloadModel_frame:
  assumes "downloadModel sha url dest wantSHA env fs = (err, fs')" "p \<noteq> part_file dest" "p \<noteq> dest \<or> err \<noteq> None"
  shows "map_of fs' p = map_of fs p"
  using assms unfolding downloadModel_def Let_def
  by (auto simp: open_part_other put_part_other rename_part_file_def update_conv delete_conv
      split: option.splits sum.splits if_splits prod.splits)

lemma downloadModel_ok:
  assumes "downloadModel sha url dest wantSHA env fs = (None, fs')"
  obtains rep f where "de_reply env = Inr rep" "map_of fs' dest = Some f" "mf_data f = dl_result dest fs rep"
    "equal_fold (sha (mf_data f)) wantSHA" "map_of fs' (part_file dest) = None"
proof -
  obtain rep d where rep: "de_reply env = Inr rep"
    and w: "dl_write (de_write env) 0 (dl_chunks rep) (if dl_status rep = 200 then '''' else part_data dest fs) = (None, d)"
    and h: "equal_fold (sha d) wantSHA"
    and fs': "fs' = rename_part_file dest (put_part dest d (de_now env)
        (put_part dest (if dl_status rep = 200 then '''' else part_data dest fs) (de_now env) (open_part dest (de_now env) fs)))"
      (is "_ = rename_part_file dest (put_part dest d _ ?g)")
    using assms unfolding downloadModel_def Let_def
    by (auto split: option.splits sum.splits if_splits prod.splits)
  have "map_of (put_part dest d (de_now env) ?g) (part_file dest) \<noteq> None"
    by (intro put_part_exists open_part_exists)
  then obtain f where f: "map_of (put_part dest d (de_now env) ?g) (part_file dest) = Some f" by blast
  have "mf_data f = d"
    using put_part_data [of dest d "de_now env" ?g] f by (simp add: part_data_def)
  then have md: "mf_data f = dl_result dest fs rep" "equal_fold (sha (mf_data f)) wantSHA"
    using dl_write_ok [OF w] h by (simp_all add: dl_result_def)
  show thesis by (rule that [OF rep _ md]) (simp_all add: fs' rename_part_file_conv [OF f])
qed

text \<open>
  C37. A download replaces the model only by verified content: if \<open>downloadModel\<close> succeeds, the
  destination holds the bytes kept from the part file (none after a 200) followed by the body, their
  digest is the one wanted, and the part file is gone; if it fails the destination is as before.  No
  other file changes in either case.
\<close>

theorem download_verified:
  assumes "downloadModel sha url dest wantSHA env fs = (err, fs')"
  shows "(case err of
      None \<Rightarrow> \<exists>rep f. de_reply env = Inr rep \<and> map_of fs' dest = Some f \<and> mf_data f = dl_result dest fs rep \<and>
          equal_fold (sha (mf_data f)) wantSHA \<and> map_of fs' (part_file dest) = None
    | Some e \<Rightarrow> map_of fs' dest = map_of fs dest) \<and>
    (\<forall>p. p \<noteq> dest \<longrightarrow> p \<noteq> part_file dest \<longrightarrow> map_of fs' p = map_of fs p)"
proof (cases err)
  case None
  obtain rep f where "de_reply env = Inr rep" "map_of fs' dest = Some f" "mf_data f = dl_result dest fs rep"
    "equal_fold (sha (mf_data f)) wantSHA" "map_of fs' (part_file dest) = None"
    using downloadModel_ok [OF assms [unfolded None]] by blast
  then show ?thesis using downloadModel_frame [OF assms] None by auto
next
  case (Some e)
  then show ?thesis using downloadModel_frame [OF assms] by simp
qed

text \<open>A download of three bytes that resumes after the first two.\<close>

definition sample_reply :: dl_reply where
  "sample_reply = \<lparr>dl_status = 206, dl_length = 1, dl_chunks = [''c''], dl_end = None\<rparr>"

definition sample_dl_env :: dl_env where
  "sample_dl_env = \<lparr>de_open = None, de_reply = Inr sample_reply, de_truncate = None, de_seek = None, de_write = (\<lambda>k. None),
     de_sync = None, de_close = None, de_rename = None, de_now = 9\<rparr>"

definition sample_part :: model_files where
  "sample_part = [(''m/a.gguf.part'', \<lparr>mf_data = ''ab'', mf_mtime = 5, mf_dir = False\<rparr>)]"

lemma sample_download:
  "downloadModel id ''u'' ''m/a.gguf'' ''ABC'' sample_dl_env sample_part =
     (None, [(''m/a.gguf'', \<lparr>mf_data = ''abc'', mf_mtime = 9, mf_dir = False\<rparr>)])"
  by code_simp

lemma download_verified_witness:
  "\<exists>f. map_of [(''m/a.gguf'', \<lparr>mf_data = ''abc'', mf_mtime = 9, mf_dir = False\<rparr>)] ''m/a.gguf'' = Some f \<and>
     mf_data f = ''abc'' \<and> equal_fold (id (mf_data f)) ''ABC''"
  using download_verified [OF sample_download] by auto

subsection \<open>What eviction deletes\<close>

definition evict_sizes :: "(string \<times> model_file) list \<Rightarrow> int" where
  "evict_sizes es = sum_list (map (\<lambda>e. mf_size (snd e)) es)"

lemma evict_loop_prefix:
  assumes "evict_loop removable free needed ms fs = (free', fs')"
  shows "\<exists>k \<le> length (filter (\<lambda>e. removable (fst e)) ms). let gone = take k (filter (\<lambda>e. removable (fst e)) ms) in
      free' = free + evict_sizes gone \<and> map_of fs' = map_of fs |` (- fst ` set gone) \<and>
      (\<forall>j < k. free + evict_sizes (take j gone) < needed) \<and>
      (gone = filter (\<lambda>e. removable (fst e)) ms \<or> needed \<le> free')"
  using assms
proof (induction removable free needed ms fs rule: evict_loop.induct)
  case (1 removable free needed fs)
  then show ?case by (simp add: evict_sizes_def restrict_map_def)
next
  case (2 removable free needed p f ms fs)
  consider "needed \<le> free" | "\<not> needed \<le> free" "\<not> removable p" | "\<not> needed \<le> free" "removable p" by blast
  then show ?case
  proof cases
    case 1
    then show ?thesis using "2.prems" by (intro exI [of _ 0]) (simp add: evict_sizes_def restrict_map_def)
  next
    case 2
    then show ?thesis using "2.IH"(1) "2.prems" by simp
  next
    case 3
    let ?es = "filter (\<lambda>e. removable (fst e)) ms"
    have l: "evict_loop removable (free + mf_size f) needed ms (AList.delete p fs) = (free', fs')"
      using "2.prems" 3 by simp
    obtain k where k: "k \<le> length ?es" "free' = free + mf_size f + evict_sizes (take k ?es)"
      "map_of fs' = map_of (AList.delete p fs) |` (- fst ` set (take k ?es))"
      "\<forall>j < k. free + mf_size f + evict_sizes (take j (take k ?es)) < needed"
      "take k ?es = ?es \<or> needed \<le> free'"
      using "2.IH"(2) [OF 3(1) _ l] 3(2) unfolding Let_def by blast
    have "free + evict_sizes (take j ((p, f) # take k ?es)) < needed" if "j < Suc k" for j
      using that k(4) 3(1) by (cases j) (auto simp: evict_sizes_def algebra_simps)
    moreover have "map_of fs' = map_of fs |` (- fst ` set ((p, f) # take k ?es))"
      unfolding k(3) by (rule ext) (simp add: restrict_map_def delete_conv)
    ultimately show ?thesis using 3 k by (intro exI [of _ "Suc k"]) (auto simp: evict_sizes_def)
  qed
qed

lemma evict_candidates_safe:
  "e \<in> set (evict_candidates dir keep dest fs) \<Longrightarrow> fst e \<noteq> keep \<and> fst e \<noteq> dest \<and> e \<in> set fs"
  by (simp add: evict_candidates_def evictable_def)

lemma sorted_take_rest:
  "sorted (map g xs) \<Longrightarrow> x \<in> set (take k xs) \<Longrightarrow> y \<in> set (drop k xs) \<Longrightarrow> g x \<le> g y"
  using sorted_append [of "map g (take k xs)" "map g (drop k xs)"]
  by (simp flip: map_append)

text \<open>
  Eviction is least recently used, minimal and safe: when the directory can be read, the files
  deleted are a prefix of the deletable candidates in the order of their times, so no candidate older
  than a deleted one survives; neither the model in use nor the destination is among them; before
  each deletion the space was still short; and the result is an error exactly when all of them
  together do not free enough.
\<close>

theorem evict_lru_minimal:
  assumes "evictLRU removable True dir keep dest free needed fs = (err, fs')"
  shows "\<exists>gone rest. gone @ rest = filter (\<lambda>e. removable (fst e)) (evict_candidates dir keep dest fs) \<and>
    map_of fs' = map_of fs |` (- fst ` set gone) \<and> keep \<notin> fst ` set gone \<and> dest \<notin> fst ` set gone \<and>
    (\<forall>e \<in> set gone. \<forall>e' \<in> set rest. mf_mtime (snd e) \<le> mf_mtime (snd e')) \<and>
    (\<forall>j < length gone. free + evict_sizes (take j gone) < needed) \<and>
    (err = None \<longleftrightarrow> needed \<le> free + evict_sizes gone) \<and> (err \<noteq> None \<longrightarrow> rest = [])"
proof -
  let ?cs = "evict_candidates dir keep dest fs"
  let ?es = "filter (\<lambda>e. removable (fst e)) ?cs"
  obtain free' fs1 where l: "evict_loop removable free needed ?cs fs = (free', fs1)" by fastforce
  obtain k where k: "k \<le> length ?es" "free' = free + evict_sizes (take k ?es)"
    "map_of fs1 = map_of fs |` (- fst ` set (take k ?es))"
    "\<forall>j < k. free + evict_sizes (take j (take k ?es)) < needed" "take k ?es = ?es \<or> needed \<le> free'"
    using evict_loop_prefix [OF l] unfolding Let_def by blast
  have full: "needed \<le> free \<Longrightarrow> fs1 = fs \<and> free' = free" using l by (cases ?cs) auto
  have fs': "fs' = fs1" "err = None \<longleftrightarrow> needed \<le> free'"
    using assms full by (auto simp: evictLRU_def l Let_def split: if_splits)
  have "sorted (map (\<lambda>e. mf_mtime (snd e)) ?cs)" by (simp add: evict_candidates_def)
  then have "sorted (map (\<lambda>e. mf_mtime (snd e)) ?es)" by (rule sorted_filter)
  note old = sorted_take_rest [OF this]
  have safe: "keep \<notin> fst ` set (take k ?es)" "dest \<notin> fst ` set (take k ?es)"
    using evict_candidates_safe by (fastforce dest: in_set_takeD)+
  have minimal: "\<forall>j < length (take k ?es). free + evict_sizes (take j (take k ?es)) < needed"
    using k(4) by simp
  have err: "err = None \<longleftrightarrow> needed \<le> free + evict_sizes (take k ?es)" using fs'(2) k(2) by simp
  then have all_gone: "err \<noteq> None \<longrightarrow> drop k ?es = []" using k(1,2,5) by (metis drop_all length_take min.absorb2 order_refl)
  show ?thesis
    by (intro exI [of _ "take k ?es"] exI [of _ "drop k ?es"] conjI ballI append_take_drop_id safe minimal err all_gone)
      (use k(3) fs'(1) old in \<open>blast+\<close>)
qed

definition sample_cache :: model_files where
  "sample_cache = [(''m/a.gguf'', \<lparr>mf_data = ''aaaa'', mf_mtime = 3, mf_dir = False\<rparr>),
     (''m/b.gguf'', \<lparr>mf_data = ''bbbb'', mf_mtime = 1, mf_dir = False\<rparr>),
     (''m/c.gguf'', \<lparr>mf_data = ''cccc'', mf_mtime = 2, mf_dir = False\<rparr>)]"

lemma sample_evict:
  "evictLRU (\<lambda>p. True) True ''m'' ''m/b.gguf'' ''m/d.gguf'' 2 6 sample_cache =
     (None, [(''m/a.gguf'', \<lparr>mf_data = ''aaaa'', mf_mtime = 3, mf_dir = False\<rparr>),
       (''m/b.gguf'', \<lparr>mf_data = ''bbbb'', mf_mtime = 1, mf_dir = False\<rparr>)])"
  by code_simp

lemma evict_lru_minimal_witness:
  "\<exists>gone rest. gone @ rest = filter (\<lambda>e. (\<lambda>p. True) (fst e)) (evict_candidates ''m'' ''m/b.gguf'' ''m/d.gguf'' sample_cache) \<and>
     (6::int) \<le> 2 + evict_sizes gone"
  using evict_lru_minimal [OF sample_evict] by blast

subsection \<open>A part file that is already complete\<close>

text \<open>
  A body whose digest is wrong stays in the part file; the next attempt asks for the range that starts
  at its end.  A server that answers such a range with 416, as \<open>http.ServeContent\<close> does, ends the
  attempt with an error that leaves the part file as it is, so the attempt after it is the same one.
\<close>

lemma mismatch_keeps_part:
  assumes "de_open env = None" "de_reply env = Inr rep" "dl_status rep = 200 \<or> dl_status rep = 206"
    "de_truncate env = None" "de_seek env = None" "de_write env = (\<lambda>k. None)" "dl_end rep = None" "de_sync env = None"
    "\<not> equal_fold (sha (dl_result dest fs rep)) wantSHA" "dl_result dest fs rep \<noteq> ''''"
  shows "let (err, fs') = downloadModel sha url dest wantSHA env fs in
    err \<noteq> None \<and> dl_range dest fs' = Some (length (dl_result dest fs rep))"
proof -
  have w: "dl_write (\<lambda>k. None) n cs data = (None, data @ concat cs)" for n cs data
    by (induction cs arbitrary: n data) auto
  have range: "dl_range dest fs' = (if part_data dest fs' = '''' then None else Some (length (part_data dest fs')))" for fs'
    by (simp add: dl_range_def part_data_def split: option.split)
  show ?thesis
    using assms by (auto simp: downloadModel_def Let_def w dl_result_def range)
qed

lemma complete_part_stuck:
  assumes "de_open env = None" "de_reply env = Inr rep" "dl_status rep = 416" "map_of fs (part_file dest) = Some f"
  shows "downloadModel sha url dest wantSHA env fs = (Some (''GET '' @ url @ '': HTTP '' @ itoa 416), fs)"
  using assms by (simp add: downloadModel_def open_part_def)

end
