(* ===== verification/Agent.thy ===== *)
theory Agent
  imports AgentFiles Proto
begin

text \<open>
  The model manager of a phone (\<^verbatim>\<open>node-agent/manager.go\<close>), the server it supervises
  (\<^verbatim>\<open>node-agent/runtime.go\<close>) and the heartbeat session that feeds it (\<^verbatim>\<open>node-agent/agent.go\<close>).

  The goroutine of \<open>Run\<close> works through a switch in phases between which heartbeats read and write the
  manager, so its program counter is part of the state: \<open>Waiting\<close> for a desired state, \<open>Checking\<close> the
  file on disk, \<open>Downloading\<close>, \<open>Sizing\<close>, and \<open>Loading\<close> until the new server is healthy.  Servers are
  the goroutines of \<open>Runtime.Run\<close>: a list in the order of \<open>NewRuntime\<close>, whose index is the pointer;
  \<open>ru_running\<close> holds until the goroutine has returned after its context was cancelled.

  Readings of memory and storage, clocks, probes and the effects of the network are arguments of the
  steps.  The end of the agent's context is not modelled, nor the log.
\<close>

subsection \<open>Servers\<close>

record runtime_config =
  rg_ServerBin :: string
  rg_ModelPath :: string
  rg_Port :: int
  rg_AdvertisePort :: int
  rg_Threads :: int
  rg_CtxSize :: int
  rg_Slots :: int
  rg_KVType :: string
  rg_Variant :: string
  rg_RPC :: bool
  rg_RPCCacheDir :: string

definition ModelName :: "string \<Rightarrow> string" where
  "ModelName p = trim_suffix (path_base p) ''.gguf''"

record runtime =
  ru_cfg :: runtime_config
  ru_running :: bool
  ru_pid :: int
  ru_restarts :: int
  ru_backoff :: go_duration
  ru_rpcUp :: bool
  ru_genTPS :: real
  ru_promptTPS :: real
  ru_selfTestAt :: "go_time option"

definition seconds :: "int \<Rightarrow> go_duration" where
  "seconds k = k * 1000000000"

definition NewRuntime :: "runtime_config \<Rightarrow> runtime" where
  "NewRuntime cfg = \<lparr>ru_cfg = cfg, ru_running = True, ru_pid = 0, ru_restarts = 0, ru_backoff = seconds 1, ru_rpcUp = False,
     ru_genTPS = 0, ru_promptTPS = 0, ru_selfTestAt = None\<rparr>"

text \<open>The command line of \<open>runOnce\<close> and of \<open>runRPC\<close>.\<close>

definition server_args :: "runtime_config \<Rightarrow> string list" where
  "server_args cfg =
     (if rg_RPC cfg then
        [''-H'', ''127.0.0.1'', ''-p'', itoa (rg_Port cfg), ''-t'', itoa (rg_Threads cfg), ''-c'']
      else
        (let slots = max (rg_Slots cfg) 1;
             args = [''-m'', rg_ModelPath cfg, ''-a'', ModelName (rg_ModelPath cfg), ''-t'', itoa (rg_Threads cfg),
                     ''-c'', itoa (rg_CtxSize cfg * slots), ''-np'', itoa slots, ''--host'', ''127.0.0.1'',
                     ''--port'', itoa (rg_Port cfg)]
         in if rg_KVType cfg = ''q8_0'' then args @ [''-ctk'', ''q8_0'', ''-ctv'', ''q8_0'', ''-fa'', ''on''] else args))"

text \<open>
  One turn of the loop of \<open>Run\<close>: the process starts with a pid, and later exits after \<open>lived\<close>
  nanoseconds; \<open>ru_backoff\<close> is the value the loop will wait next time.
\<close>

definition server_up :: "int \<Rightarrow> runtime \<Rightarrow> runtime" where
  "server_up pid r = (if rg_RPC (ru_cfg r) then r\<lparr>ru_rpcUp := False, ru_pid := pid\<rparr> else r\<lparr>ru_pid := pid\<rparr>)"

definition server_exit :: "go_duration \<Rightarrow> runtime \<Rightarrow> runtime" where
  "server_exit lived r =
     (let backoff = (if lived > seconds 60 then seconds 1 else ru_backoff r)
      in r\<lparr>ru_pid := 0, ru_restarts := ru_restarts r + 1, ru_backoff := min (backoff * 2) (seconds 60)\<rparr>)"

text \<open>\<open>healthy\<close>: \<open>probe\<close> is the answer of \<open>/health\<close>, or of the port in RPC mode.\<close>

definition healthy :: "bool \<Rightarrow> runtime \<Rightarrow> bool \<times> runtime" where
  "healthy probe r =
     (if rg_RPC (ru_cfg r) then
        (if ru_pid r = 0 then (False, r)
         else if ru_rpcUp r then (True, r)
         else if \<not> probe then (False, r)
         else (True, r\<lparr>ru_rpcUp := True\<rparr>))
      else (probe, r))"

definition self_tested :: "real \<Rightarrow> real \<Rightarrow> go_time \<Rightarrow> runtime \<Rightarrow> runtime" where
  "self_tested gen prompt now r = r\<lparr>ru_genTPS := gen, ru_promptTPS := prompt, ru_selfTestAt := Some now\<rparr>"

definition runtime_Status :: "bool \<Rightarrow> model_files \<Rightarrow> runtime \<Rightarrow> runtime_status \<times> runtime" where
  "runtime_Status probe fs r =
     (let cfg = ru_cfg r; (ready, r) = healthy probe r
      in (zero_runtime\<lparr>
            rt_Engine := (if rg_Variant cfg \<noteq> '''' then ''llama.cpp/'' @ rg_Variant cfg else ''llama.cpp''),
            rt_Model := ModelName (rg_ModelPath cfg), rt_ModelID := ModelName (rg_ModelPath cfg),
            rt_Slots := max (rg_Slots cfg) 1, rt_KVType := rg_KVType cfg, rt_AdvertisePort := rg_AdvertisePort cfg,
            rt_Restarts := ru_restarts r, rt_Threads := rg_Threads cfg, rt_CtxSize := rg_CtxSize cfg, rt_Ready := ready,
            rt_ModelBytes := (case map_of fs (rg_ModelPath cfg) of None \<Rightarrow> 0 | Some f \<Rightarrow> mf_size f),
            rt_GenTPS := ru_genTPS r, rt_PromptTPS := ru_promptTPS r, rt_SelfTestAt := ru_selfTestAt r\<rparr>, r))"

text \<open>\<open>waitHealthy\<close> on the answers of its probes, with the time of each; \<open>None\<close>: still waiting.\<close>

fun waitHealthy :: "go_time \<Rightarrow> (bool \<times> go_time) list \<Rightarrow> string option option" where
  "waitHealthy deadline [] = None"
| "waitHealthy deadline ((ok, t) # ps) =
     (if ok then Some None
      else if t > deadline then Some (Some ''llama-server did not become healthy within 2m0s'')
      else waitHealthy deadline ps)"

definition loadTimeout :: go_duration where
  "loadTimeout = seconds 120"

subsection \<open>The manager\<close>

record manager_config =
  mc_ServerBin :: string
  mc_Port :: int
  mc_AdvertisePort :: int
  mc_Threads :: int
  mc_Variant :: string
  mc_ModelsDir :: string
  mc_ControllerURL :: string
  mc_MemReserveMB :: int
  mc_StaticModelPath :: string
  mc_StaticCtxSize :: int
  mc_RPCServerBin :: string
  mc_RPCThreads :: int
  mc_RPCCacheDir :: string

record pre_rpc =
  pr_cfg :: runtime_config
  pr_current :: string
  pr_residentBytes :: int
  pr_lastApplied :: "desired_runtime option"

text \<open>What \<open>desiredCh\<close> carries: \<open>releaseRPC\<close>, which the code knows by its address, or a desired state.\<close>

datatype message = ReleaseRPC | Want desired_runtime

text \<open>
  The phases; \<open>Loading d plan i prev\<close> waits for server \<open>i\<close>, with the runtime, the model and its resident
  bytes that \<open>load\<close> read before it stopped them.
\<close>

datatype phase =
    Waiting
  | Checking desired_runtime
  | Downloading desired_runtime
  | Sizing desired_runtime
  | Loading desired_runtime sizing_plan nat "nat option" string int go_time

record manager =
  mg_phase :: phase
  mg_servers :: "runtime list"
  mg_files :: model_files
  mg_cacheModel :: "string option"
  mg_runtime :: "nat option"
  mg_current :: string
  mg_residentBytes :: int
  mg_lastApplied :: "desired_runtime option"
  mg_switching :: bool
  mg_subState :: string
  mg_target :: string
  mg_progress :: real
  mg_lastErr :: string
  mg_ramBytes :: int
  mg_lastFailed :: "desired_runtime option"
  mg_lastFailedBudget :: int
  mg_backoff :: go_duration
  mg_retryAt :: go_time
  mg_verified :: sha_cache
  mg_rpc :: bool
  mg_preRPC :: "pre_rpc option"
  mg_desiredCh :: "message option"

definition NewManager :: "model_files \<Rightarrow> string option \<Rightarrow> manager" where
  "NewManager fs cacheModel =
     \<lparr>mg_phase = Waiting, mg_servers = [], mg_files = fs, mg_cacheModel = cacheModel, mg_runtime = None, mg_current = '''',
      mg_residentBytes = 0, mg_lastApplied = None, mg_switching = False, mg_subState = '''', mg_target = '''',
      mg_progress = 0, mg_lastErr = '''', mg_ramBytes = 0, mg_lastFailed = None, mg_lastFailedBudget = 0,
      mg_backoff = 0, mg_retryAt = 0, mg_verified = \<lparr>sh_path = '''', sh_size = 0, sh_mtime = 0, sh_sha = ''''\<rparr>,
      mg_rpc = False, mg_preRPC = None, mg_desiredCh = None\<rparr>"

text \<open>Starting a server, and stopping one: \<open>cancel\<close>, then waiting for its goroutine to end.\<close>

definition start_server :: "runtime_config \<Rightarrow> manager \<Rightarrow> manager" where
  "start_server cfg m = m\<lparr>mg_servers := mg_servers m @ [NewRuntime cfg]\<rparr>"

definition stop_server :: "nat option \<Rightarrow> manager \<Rightarrow> manager" where
  "stop_server i m =
     (case i of None \<Rightarrow> m
      | Some i \<Rightarrow> m\<lparr>mg_servers := (mg_servers m)[i := (mg_servers m ! i)\<lparr>ru_running := False, ru_pid := 0\<rparr>]\<rparr>)"

text \<open>The runtime that the next \<open>start_server\<close> makes.\<close>

definition next_server :: "manager \<Rightarrow> nat" where
  "next_server m = length (mg_servers m)"

definition startStatic :: "manager_config \<Rightarrow> manager \<Rightarrow> manager" where
  "startStatic c m =
     (start_server \<lparr>rg_ServerBin = mc_ServerBin c, rg_ModelPath = mc_StaticModelPath c, rg_Port = mc_Port c,
        rg_AdvertisePort = mc_AdvertisePort c, rg_Threads = mc_Threads c, rg_CtxSize = mc_StaticCtxSize c, rg_Slots = 1,
        rg_KVType = '''', rg_Variant = mc_Variant c, rg_RPC = False, rg_RPCCacheDir = ''''\<rparr> m)
       \<lparr>mg_runtime := Some (next_server m), mg_current := ModelName (mc_StaticModelPath c)\<rparr>"

definition start_Run :: "manager_config \<Rightarrow> manager \<Rightarrow> manager" where
  "start_Run c m = (if mc_StaticModelPath c \<noteq> '''' then startStatic c m else m)"

definition SetDesired :: "desired_runtime option \<Rightarrow> manager \<Rightarrow> manager" where
  "SetDesired d m =
     (case d of
        None \<Rightarrow> if \<not> mg_rpc m then m else m\<lparr>mg_desiredCh := Some ReleaseRPC\<rparr>
      | Some d \<Rightarrow> m\<lparr>mg_desiredCh := Some (Want d)\<rparr>)"

subsection \<open>Failures and their backoff\<close>

definition minBackoff :: go_duration where "minBackoff = seconds 30"
definition maxBackoff :: go_duration where "maxBackoff = seconds 600"

definition resetBackoff :: "manager \<Rightarrow> manager" where
  "resetBackoff m = m\<lparr>mg_lastFailed := None, mg_backoff := 0, mg_retryAt := 0, mg_lastFailedBudget := 0\<rparr>"

definition shouldRetryNow :: "go_time \<Rightarrow> go_time \<Rightarrow> int \<Rightarrow> int \<Rightarrow> bool" where
  "shouldRetryNow now retryAt lastFailedBudget budget \<longleftrightarrow>
     retryAt \<le> now \<or> (lastFailedBudget > 0 \<and> budget > lastFailedBudget + trunc_div lastFailedBudget 10)"

text \<open>A reading of \<open>/proc\<close>: the memory available, and \<open>RssAnon\<close> of the server's process.\<close>

record mem_reading =
  mr_avail :: "64 word"
  mr_rss :: "64 word"

definition currentServerRssAnonBytes :: "mem_reading \<Rightarrow> manager \<Rightarrow> 64 word" where
  "currentServerRssAnonBytes rd m =
     (case mg_runtime m of None \<Rightarrow> 0 | Some i \<Rightarrow> if ru_pid (mg_servers m ! i) = 0 then 0 else mr_rss rd)"

definition budgetBytes :: "manager_config \<Rightarrow> mem_reading \<Rightarrow> manager \<Rightarrow> int" where
  "budgetBytes c rd m =
     sint (MemoryBudget (mr_avail rd) (currentServerRssAnonBytes rd m) (word_of_int (mc_MemReserveMB c * mib)))"

text \<open>\<open>fail\<close>, and the deferred end of the switch in \<open>reconcile\<close>.\<close>

definition fail :: "manager_config \<Rightarrow> mem_reading \<Rightarrow> go_time \<Rightarrow> desired_runtime \<Rightarrow> string \<Rightarrow> manager \<Rightarrow> manager" where
  "fail c rd now d err m =
     (let backoff = (if mg_lastFailed m = Some d then min (mg_backoff m * 2) maxBackoff else minBackoff)
      in m\<lparr>mg_lastErr := dr_ModelID d @ '': '' @ err, mg_backoff := backoff, mg_lastFailed := Some d,
           mg_lastFailedBudget := budgetBytes c rd m, mg_retryAt := now + backoff\<rparr>)"

definition end_switch :: "manager \<Rightarrow> manager" where
  "end_switch m = m\<lparr>mg_phase := Waiting, mg_switching := False\<rparr>"

definition setSubState :: "string \<Rightarrow> manager \<Rightarrow> manager" where
  "setSubState s m = m\<lparr>mg_subState := s, mg_progress := 0\<rparr>"

definition model_dest :: "manager_config \<Rightarrow> string \<Rightarrow> string" where
  "model_dest c i = mc_ModelsDir c @ ''/'' @ i @ ''.gguf''"

subsection \<open>Big Brain mode\<close>

definition clear_runtime :: "manager \<Rightarrow> manager" where
  "clear_runtime m = m\<lparr>mg_runtime := None, mg_current := '''', mg_residentBytes := 0\<rparr>"

text \<open>\<open>cache_ok\<close>: the emptied tensor cache and its \<open>.model\<close> file can be written again.\<close>

definition enterRPC :: "manager_config \<Rightarrow> bool \<Rightarrow> desired_runtime \<Rightarrow> manager \<Rightarrow> manager" where
  "enterRPC c cache_ok d m =
     (if mg_rpc m \<and> mg_lastApplied m = Some d then m
      else if mc_RPCServerBin c = '''' then
        m\<lparr>mg_lastErr := ''rpc: no ggml-rpc-server on this node (re-provision with a llama.cpp build that has it)''\<rparr>
      else
        (let m = m\<lparr>mg_preRPC := (if mg_rpc m then mg_preRPC m
                     else map_option (\<lambda>i. \<lparr>pr_cfg = ru_cfg (mg_servers m ! i), pr_current = mg_current m,
                            pr_residentBytes = mg_residentBytes m, pr_lastApplied = mg_lastApplied m\<rparr>) (mg_runtime m))\<rparr>;
             m = stop_server (mg_runtime m) m;
             m = m\<lparr>mg_cacheModel :=
                    (if trim_space (case mg_cacheModel m of None \<Rightarrow> '''' | Some s \<Rightarrow> s) = dr_ModelID d then mg_cacheModel m
                     else if cache_ok then Some (dr_ModelID d @ [CHR 0x0A]) else None)\<rparr>;
             i = next_server m;
             m = start_server \<lparr>rg_ServerBin = mc_RPCServerBin c, rg_ModelPath = '''', rg_Port = mc_Port c,
                   rg_AdvertisePort = mc_AdvertisePort c, rg_Threads = mc_RPCThreads c, rg_CtxSize = 0, rg_Slots = 0,
                   rg_KVType = '''', rg_Variant = mc_Variant c, rg_RPC = True, rg_RPCCacheDir = mc_RPCCacheDir c\<rparr> m
         in resetBackoff (m\<lparr>mg_runtime := Some i, mg_current := '''', mg_residentBytes := 0, mg_ramBytes := 0,
              mg_rpc := True, mg_lastApplied := Some d, mg_lastErr := ''''\<rparr>)))"

definition leaveRPC :: "manager \<Rightarrow> manager" where
  "leaveRPC m =
     (if \<not> mg_rpc m then m
      else
        (let i = mg_runtime m; prev = mg_preRPC m;
             m = clear_runtime (m\<lparr>mg_rpc := False, mg_preRPC := None, mg_lastApplied := None, mg_lastErr := ''''\<rparr>);
             m = stop_server i m
         in case prev of
              None \<Rightarrow> m
            | Some p \<Rightarrow>
                (start_server (pr_cfg p) m)\<lparr>mg_runtime := Some (next_server m), mg_current := pr_current p,
                   mg_residentBytes := pr_residentBytes p, mg_lastApplied := pr_lastApplied p\<rparr>))"

subsection \<open>Reconciling a desired state\<close>

text \<open>From the message to the first decision: already applied, backing off, or a switch.\<close>

definition reconcile_start :: "manager_config \<Rightarrow> bool \<Rightarrow> mem_reading \<Rightarrow> go_time \<Rightarrow> message \<Rightarrow> manager \<Rightarrow> manager" where
  "reconcile_start c cache_ok rd now msg m =
     (case msg of
        ReleaseRPC \<Rightarrow> leaveRPC m
      | Want d \<Rightarrow>
          if dr_Mode d = ModeRPC then enterRPC c cache_ok d m
          else
            (let m = leaveRPC m
             in if mg_lastApplied m = Some d then m
                else if mg_lastFailed m = Some d \<and> \<not> shouldRetryNow now (mg_retryAt m) (mg_lastFailedBudget m) (budgetBytes c rd m) then m
                else m\<lparr>mg_phase := Checking d, mg_switching := True, mg_target := dr_ModelID d, mg_lastErr := ''''\<rparr>))"

text \<open>Is the file on disk the wanted one; if not, downloading begins.\<close>

definition check_cached :: "manager_config \<Rightarrow> (string \<Rightarrow> string) \<Rightarrow> bool \<Rightarrow> desired_runtime \<Rightarrow> manager \<Rightarrow> manager" where
  "check_cached c sha readable d m =
     (let (got, cache) = (if dr_SHA256 d = '''' then (None, mg_verified m)
                          else verify sha readable (mg_files m) (model_dest c (dr_ModelID d)) (mg_verified m));
          m = m\<lparr>mg_verified := cache\<rparr>
      in if (case got of None \<Rightarrow> False | Some s \<Rightarrow> equal_fold s (dr_SHA256 d)) then m\<lparr>mg_phase := Sizing d\<rparr>
         else setSubState ''downloading'' (m\<lparr>mg_phase := Downloading d\<rparr>))"

text \<open>What a download meets: \<open>statfs\<close>, the deletions of eviction, the network and the disk.\<close>

record fetch_env =
  fe_free :: "string + int"
  fe_removable :: "string \<Rightarrow> bool"
  fe_listed :: bool
  fe_download :: dl_env

definition keep_path :: "manager_config \<Rightarrow> manager \<Rightarrow> string" where
  "keep_path c m = (if mg_current m \<noteq> '''' then model_dest c (mg_current m) else '''')"

definition makeRoom :: "manager_config \<Rightarrow> fetch_env \<Rightarrow> string \<Rightarrow> int \<Rightarrow> manager \<Rightarrow> string option \<times> manager" where
  "makeRoom c fe dest needed m =
     (case fe_free fe of
        Inl err \<Rightarrow> (Some (''statfs '' @ mc_ModelsDir c @ '': '' @ err), m)
      | Inr free \<Rightarrow>
          (let keep = keep_path c m;
               (err, fs) = evictLRU (fe_removable fe) (fe_listed fe) (mc_ModelsDir c) keep dest free needed (mg_files m)
           in (err, m\<lparr>mg_files := fs\<rparr>)))"

definition fetch :: "manager_config \<Rightarrow> (string \<Rightarrow> string) \<Rightarrow> fetch_env \<Rightarrow> mem_reading \<Rightarrow> go_time \<Rightarrow> desired_runtime \<Rightarrow> manager \<Rightarrow> manager" where
  "fetch c sha fe rd now d m =
     (let dest = model_dest c (dr_ModelID d); (err, m) = makeRoom c fe dest (dr_SizeBytes d) m
      in case err of
           Some err \<Rightarrow> end_switch (fail c rd now d err m)
         | None \<Rightarrow>
             (let (err, fs) = downloadModel sha (mc_ControllerURL c @ dr_URL d) dest (dr_SHA256 d) (fe_download fe) (mg_files m);
                  m = m\<lparr>mg_files := fs\<rparr>
              in case err of
                   Some err \<Rightarrow> end_switch (fail c rd now d err m)
                 | None \<Rightarrow> m\<lparr>mg_progress := 1, mg_phase := Sizing d\<rparr>))"

text \<open>The report of progress during a download, the last one of which is made before the digest is compared.\<close>

definition setProgress :: "real \<Rightarrow> manager \<Rightarrow> manager" where
  "setProgress p m = m\<lparr>mg_progress := p\<rparr>"

text \<open>Sizing, with the case of a model that already runs; then \<open>load\<close> up to its wait.\<close>

definition sizing_message :: "sizing_error \<Rightarrow> string" where
  "sizing_message e = (case e of NeedsMiB need budget \<Rightarrow>
     ''model needs '' @ itoa need @ '' MiB, budget '' @ itoa budget @ '' MiB'')"

definition sizing_of :: "manager_config \<Rightarrow> mem_reading \<Rightarrow> desired_runtime \<Rightarrow> model_file \<Rightarrow> manager \<Rightarrow> sizing_error + sizing_plan" where
  "sizing_of c rd d f m =
     PlanMemory \<lparr>sr_FileSizeBytes = mf_size f, sr_ResidentBytes = dr_ResidentBytes d,
       sr_Shape = \<lparr>s_Layers = dr_Layers d, s_KVHeads = dr_KVHeads d, s_HeadDim = dr_HeadDim d\<rparr>,
       sr_CtxSize = dr_CtxSize d, sr_Slots = dr_Slots d, sr_KVType = dr_KVType d, sr_BudgetBytes = budgetBytes c rd m\<rparr>"

definition serving :: "string \<Rightarrow> manager \<Rightarrow> bool" where
  "serving i m \<longleftrightarrow> mg_runtime m \<noteq> None \<and> mg_current m = i"

definition load_start :: "manager_config \<Rightarrow> go_time \<Rightarrow> desired_runtime \<Rightarrow> sizing_plan \<Rightarrow> manager \<Rightarrow> manager" where
  "load_start c now d plan m =
     (let i = next_server m;
          ph = Loading d plan i (mg_runtime m) (mg_current m) (mg_residentBytes m) (now + loadTimeout);
          m = stop_server (mg_runtime m) m
      in (start_server \<lparr>rg_ServerBin = mc_ServerBin c, rg_ModelPath = model_dest c (dr_ModelID d), rg_Port = mc_Port c,
            rg_AdvertisePort = mc_AdvertisePort c, rg_Threads = mc_Threads c, rg_CtxSize = sp_CtxSize plan,
            rg_Slots = sp_Slots plan, rg_KVType = sp_KVType plan, rg_Variant = mc_Variant c, rg_RPC = False,
            rg_RPCCacheDir = ''''\<rparr> m)\<lparr>mg_phase := ph\<rparr>)"

definition size_and_load :: "manager_config \<Rightarrow> mem_reading \<Rightarrow> go_time \<Rightarrow> desired_runtime \<Rightarrow> manager \<Rightarrow> manager" where
  "size_and_load c rd now d m =
     (let dest = model_dest c (dr_ModelID d)
      in case map_of (mg_files m) dest of
           None \<Rightarrow> end_switch (fail c rd now d (''stat '' @ dest @ '': stat '' @ dest @ '': no such file or directory'') m)
         | Some f \<Rightarrow>
             (case sizing_of c rd d f m of
                Inl e \<Rightarrow>
                  if serving (dr_ModelID d) m then
                    end_switch (resetBackoff (m\<lparr>mg_lastApplied := Some d, mg_lastErr := '''', mg_residentBytes := dr_ResidentBytes d\<rparr>))
                  else end_switch (fail c rd now d (sizing_message e) m)
              | Inr plan \<Rightarrow>
                  load_start c now d plan (setSubState ''loading'' (m\<lparr>mg_ramBytes := sp_RAMEstimateBytes plan\<rparr>))))"

text \<open>The end of the wait: the new server is kept, or stopped and the previous one restarted.\<close>

definition fallback :: "nat option \<Rightarrow> string \<Rightarrow> int \<Rightarrow> manager \<Rightarrow> manager" where
  "fallback prev prevModelID prevResidentBytes m =
     (case prev of
        None \<Rightarrow> clear_runtime m
      | Some j \<Rightarrow>
          (let cfg = ru_cfg (mg_servers m ! j)
           in if map_of (mg_files m) (rg_ModelPath cfg) = None then clear_runtime m
              else (start_server cfg m)\<lparr>mg_runtime := Some (next_server m), mg_current := prevModelID,
                     mg_residentBytes := prevResidentBytes\<rparr>))"

definition touch :: "string \<Rightarrow> go_time \<Rightarrow> model_files \<Rightarrow> model_files" where
  "touch p now fs = (case map_of fs p of None \<Rightarrow> fs | Some f \<Rightarrow> AList.update p (f\<lparr>mf_mtime := now\<rparr>) fs)"

definition load_end ::
  "manager_config \<Rightarrow> mem_reading \<Rightarrow> go_time \<Rightarrow> string option \<Rightarrow> desired_runtime \<Rightarrow> nat \<Rightarrow> nat option \<Rightarrow> string \<Rightarrow> int \<Rightarrow> manager \<Rightarrow> manager" where
  "load_end c rd now err d i prev prevModelID prevResidentBytes m =
     (case err of
        Some err \<Rightarrow>
          end_switch (fail c rd now d err (fallback prev prevModelID prevResidentBytes (stop_server (Some i) m)))
      | None \<Rightarrow>
          end_switch (resetBackoff
            (m\<lparr>mg_files := touch (model_dest c (dr_ModelID d)) now (mg_files m), mg_runtime := Some i,
               mg_current := dr_ModelID d, mg_residentBytes := dr_ResidentBytes d, mg_lastApplied := Some d, mg_lastErr := ''''\<rparr>)))"

subsection \<open>The heartbeat\<close>

text \<open>\<open>Status\<close> reads the runtime and the progress of the switch; a probe of the server may mark it up.\<close>

definition Status :: "manager_config \<Rightarrow> bool \<Rightarrow> mem_reading \<Rightarrow> manager \<Rightarrow> runtime_status \<times> manager" where
  "Status c probe rd m =
     (let (st, m) = (case mg_runtime m of
                       Some i \<Rightarrow> (let (st, r) = runtime_Status probe (mg_files m) (mg_servers m ! i)
                                 in (st, m\<lparr>mg_servers := (mg_servers m)[i := r]\<rparr>))
                     | None \<Rightarrow> (zero_runtime\<lparr>rt_AdvertisePort := mc_AdvertisePort c\<rparr>, m));
          st = st\<lparr>rt_RAMEstimateBytes := mg_ramBytes m, rt_ResidentBytes := mg_residentBytes m,
                  rt_BudgetBytes := budgetBytes c rd m, rt_Error := mg_lastErr m\<rparr>;
          st = (if mg_switching m then st\<lparr>rt_ModelID := mg_target m\<rparr> else st)
      in if mg_rpc m then
           (st\<lparr>rt_Model := '''', rt_ModelID := '''', rt_Ready := False, rt_ModelBytes := 0, rt_Slots := 0,
               rt_State := (if mg_lastErr m \<noteq> '''' then ''error'' else if rt_Ready st then ModeRPC else ''loading'')\<rparr>, m)
         else if mg_lastErr m \<noteq> '''' then (st\<lparr>rt_State := ''error''\<rparr>, m)
         else if mg_switching m then (st\<lparr>rt_State := mg_subState m, rt_Progress := mg_progress m\<rparr>, m)
         else if mg_runtime m \<noteq> None \<and> rt_Ready st then (st\<lparr>rt_State := ''serving''\<rparr>, m)
         else if mg_runtime m \<noteq> None then (st\<lparr>rt_State := ''loading''\<rparr>, m)
         else (st\<lparr>rt_State := ''idle''\<rparr>, m))"

text \<open>The heartbeats of a session: what ends it, after the manager got what they brought.\<close>

datatype heartbeat_reply = HbAnswer "desired_runtime option" | HbUnknownNode | HbFailed string

fun session_heartbeats :: "nat \<Rightarrow> heartbeat_reply list \<Rightarrow> manager \<Rightarrow> string option \<times> manager" where
  "session_heartbeats failures [] m = (None, m)"
| "session_heartbeats failures (HbAnswer d # hs) m = session_heartbeats 0 hs (SetDesired d m)"
| "session_heartbeats failures (HbUnknownNode # hs) m = (Some ''controller does not know this node'', m)"
| "session_heartbeats failures (HbFailed err # hs) m =
     (if failures + 1 \<ge> 3 then (Some (''heartbeat: '' @ err), m) else session_heartbeats (failures + 1) hs m)"

text \<open>The wait before the next registration, from the one before it.\<close>

definition session_backoff :: "bool \<Rightarrow> go_duration \<Rightarrow> go_duration" where
  "session_backoff unknown backoff = (if unknown then seconds 1 else min (backoff * 2) (seconds 30))"

subsection \<open>The steps of an agent\<close>

datatype server_event = Up int | Exit go_duration | Tested real real go_time

fun server_step :: "server_event \<Rightarrow> runtime \<Rightarrow> runtime" where
  "server_step (Up pid) r = server_up pid r"
| "server_step (Exit lived) r = server_exit lived r"
| "server_step (Tested gen prompt now) r = self_tested gen prompt now r"

text \<open>
  The goroutine of \<open>Run\<close>, the heartbeats and the servers move in any order.  Desired states name a model:
  the controller's catalog has no empty id.
\<close>

inductive agent_step :: "manager_config \<Rightarrow> (string \<Rightarrow> string) \<Rightarrow> manager \<Rightarrow> manager \<Rightarrow> bool" for c sha where
  answer: "(\<And>x. d = Some x \<Longrightarrow> dr_ModelID x \<noteq> '''') \<Longrightarrow> agent_step c sha m (SetDesired d m)"
| beat: "agent_step c sha m (snd (Status c probe rd m))"
| receive: "mg_phase m = Waiting \<Longrightarrow> mg_desiredCh m = Some msg \<Longrightarrow>
    agent_step c sha m (reconcile_start c cache_ok rd now msg (m\<lparr>mg_desiredCh := None\<rparr>))"
| check: "mg_phase m = Checking d \<Longrightarrow> agent_step c sha m (check_cached c sha readable d m)"
| progress: "mg_phase m = Downloading d \<Longrightarrow> agent_step c sha m (setProgress p m)"
| fetched: "mg_phase m = Downloading d \<Longrightarrow> agent_step c sha m (fetch c sha fe rd now d m)"
| sized: "mg_phase m = Sizing d \<Longrightarrow> agent_step c sha m (size_and_load c rd now d m)"
| loaded: "mg_phase m = Loading d plan i prev cur res deadline \<Longrightarrow> waitHealthy deadline probes = Some err \<Longrightarrow>
    agent_step c sha m (load_end c rd now err d i prev cur res m)"
| server: "i < length (mg_servers m) \<Longrightarrow> ru_running (mg_servers m ! i) \<Longrightarrow>
    agent_step c sha m (m\<lparr>mg_servers := (mg_servers m)[i := server_step e (mg_servers m ! i)]\<rparr>)"

inductive agent_reachable :: "manager_config \<Rightarrow> (string \<Rightarrow> string) \<Rightarrow> manager \<Rightarrow> bool" for c sha where
  init: "agent_reachable c sha (start_Run c (NewManager fs cacheModel))"
| step: "agent_reachable c sha m \<Longrightarrow> agent_step c sha m m' \<Longrightarrow> agent_reachable c sha m'"

subsection \<open>The invariant\<close>

text \<open>The server the manager counts on: the one being loaded, or the runtime.\<close>

definition active :: "manager \<Rightarrow> nat option" where
  "active m = (case mg_phase m of Loading d plan i prev cur res deadline \<Rightarrow> Some i | _ \<Rightarrow> mg_runtime m)"

definition server_cfg :: "manager \<Rightarrow> nat \<Rightarrow> runtime_config" where
  "server_cfg m i = ru_cfg (mg_servers m ! i)"

text \<open>One server at most runs, the active one.\<close>

definition one_server :: "manager \<Rightarrow> bool" where
  "one_server m \<longleftrightarrow>
     (\<forall>i < length (mg_servers m). ru_running (mg_servers m ! i) \<longleftrightarrow> active m = Some i) \<and>
     (\<forall>i. active m = Some i \<longrightarrow> i < length (mg_servers m)) \<and>
     (\<forall>i. mg_runtime m = Some i \<longrightarrow> i < length (mg_servers m))"

text \<open>Every server, past or to be restored, listens on the port of the configuration.\<close>

definition cfg_ok :: "manager_config \<Rightarrow> runtime_config \<Rightarrow> bool" where
  "cfg_ok c g \<longleftrightarrow> rg_Port g = mc_Port c \<and> rg_AdvertisePort g = mc_AdvertisePort c"

definition ports_ok :: "manager_config \<Rightarrow> manager \<Rightarrow> bool" where
  "ports_ok c m \<longleftrightarrow> (\<forall>r \<in> set (mg_servers m). cfg_ok c (ru_cfg r)) \<and> (\<forall>p. mg_preRPC m = Some p \<longrightarrow> cfg_ok c (pr_cfg p))"

text \<open>A model's server and the id the manager reports name the same file.\<close>

definition named :: "manager_config \<Rightarrow> runtime_config \<Rightarrow> string \<Rightarrow> bool" where
  "named c g cur \<longleftrightarrow> \<not> rg_RPC g \<and> cur \<noteq> '''' \<and>
     (rg_ModelPath g = model_dest c cur \<or>
      rg_ModelPath g = mc_StaticModelPath c \<and> mc_StaticModelPath c \<noteq> '''' \<and> cur = ModelName (mc_StaticModelPath c))"

definition mode_ok :: "manager_config \<Rightarrow> manager \<Rightarrow> bool" where
  "mode_ok c m \<longleftrightarrow>
     (if mg_rpc m then (\<exists>i. mg_runtime m = Some i \<and> rg_RPC (server_cfg m i)) \<and> mg_current m = ''''
      else mg_preRPC m = None \<and> (case mg_runtime m of None \<Rightarrow> mg_current m = '''' | Some i \<Rightarrow> named c (server_cfg m i) (mg_current m))) \<and>
     (\<forall>p. mg_preRPC m = Some p \<longrightarrow> named c (pr_cfg p) (pr_current p))"

text \<open>The phase agrees with the fields that heartbeats read.\<close>

definition phase_ok :: "manager_config \<Rightarrow> manager \<Rightarrow> bool" where
  "phase_ok c m \<longleftrightarrow>
     (mg_switching m \<longleftrightarrow> mg_phase m \<noteq> Waiting) \<and> (mg_switching m \<longrightarrow> \<not> mg_rpc m \<and> mg_lastErr m = '''') \<and>
     (case mg_phase m of
        Waiting \<Rightarrow> True
      | Checking d \<Rightarrow> dr_ModelID d \<noteq> '''' \<and> mg_target m = dr_ModelID d
      | Downloading d \<Rightarrow> dr_ModelID d \<noteq> '''' \<and> mg_target m = dr_ModelID d
      | Sizing d \<Rightarrow> dr_ModelID d \<noteq> '''' \<and> mg_target m = dr_ModelID d
      | Loading d plan i prev cur res deadline \<Rightarrow>
          dr_ModelID d \<noteq> '''' \<and> mg_target m = dr_ModelID d \<and> prev = mg_runtime m \<and> cur = mg_current m \<and>
          \<not> rg_RPC (server_cfg m i) \<and> rg_ModelPath (server_cfg m i) = model_dest c (dr_ModelID d) \<and>
          map_of (mg_files m) (model_dest c (dr_ModelID d)) \<noteq> None) \<and>
     (\<forall>d. mg_desiredCh m = Some (Want d) \<longrightarrow> dr_ModelID d \<noteq> '''')"

text \<open>The wait between attempts at a failing state lies between half a minute and ten minutes.\<close>

definition backoff_ok :: "manager \<Rightarrow> bool" where
  "backoff_ok m \<longleftrightarrow> (if mg_lastFailed m = None then mg_backoff m = 0 else minBackoff \<le> mg_backoff m \<and> mg_backoff m \<le> maxBackoff)"

definition agent_ok :: "manager_config \<Rightarrow> manager \<Rightarrow> bool" where
  "agent_ok c m \<longleftrightarrow> one_server m \<and> ports_ok c m \<and> mode_ok c m \<and> phase_ok c m \<and> backoff_ok m"

lemmas agent_ok_defs = one_server_def ports_ok_def mode_ok_def phase_ok_def backoff_ok_def

text \<open>The first model, given on the command line, is a \<open>.gguf\<close> file with a name.\<close>

definition static_ok :: "manager_config \<Rightarrow> bool" where
  "static_ok c \<longleftrightarrow> mc_StaticModelPath c = '''' \<or>
     has_suffix (mc_StaticModelPath c) ''.gguf'' \<and> ModelName (mc_StaticModelPath c) \<noteq> ''''"

lemma agent_ok_init: "static_ok c \<Longrightarrow> agent_ok c (start_Run c (NewManager fs cacheModel))"
  by (auto simp: agent_ok_def agent_ok_defs start_Run_def startStatic_def start_server_def next_server_def NewManager_def
      NewRuntime_def active_def server_cfg_def cfg_ok_def named_def static_ok_def)

subsection \<open>Servers started and stopped\<close>

lemma start_server_simps [simp]:
  "mg_phase (start_server g m) = mg_phase m" "mg_runtime (start_server g m) = mg_runtime m"
  "mg_current (start_server g m) = mg_current m" "mg_rpc (start_server g m) = mg_rpc m"
  "mg_preRPC (start_server g m) = mg_preRPC m" "mg_files (start_server g m) = mg_files m"
  "mg_switching (start_server g m) = mg_switching m" "mg_lastErr (start_server g m) = mg_lastErr m"
  "mg_lastFailed (start_server g m) = mg_lastFailed m" "mg_backoff (start_server g m) = mg_backoff m"
  "mg_target (start_server g m) = mg_target m" "mg_desiredCh (start_server g m) = mg_desiredCh m"
  "mg_residentBytes (start_server g m) = mg_residentBytes m" "mg_lastApplied (start_server g m) = mg_lastApplied m"
  "mg_servers (start_server g m) = mg_servers m @ [NewRuntime g]"
  by (simp_all add: start_server_def)

lemma stop_server_simps [simp]:
  "mg_phase (stop_server i m) = mg_phase m" "mg_runtime (stop_server i m) = mg_runtime m"
  "mg_current (stop_server i m) = mg_current m" "mg_rpc (stop_server i m) = mg_rpc m"
  "mg_preRPC (stop_server i m) = mg_preRPC m" "mg_files (stop_server i m) = mg_files m"
  "mg_switching (stop_server i m) = mg_switching m" "mg_lastErr (stop_server i m) = mg_lastErr m"
  "mg_lastFailed (stop_server i m) = mg_lastFailed m" "mg_backoff (stop_server i m) = mg_backoff m"
  "mg_target (stop_server i m) = mg_target m" "mg_desiredCh (stop_server i m) = mg_desiredCh m"
  "mg_residentBytes (stop_server i m) = mg_residentBytes m" "mg_lastApplied (stop_server i m) = mg_lastApplied m"
  "mg_cacheModel (stop_server i m) = mg_cacheModel m" "mg_ramBytes (stop_server i m) = mg_ramBytes m"
  "length (mg_servers (stop_server i m)) = length (mg_servers m)"
  by (simp_all add: stop_server_def split: option.split)

lemma NewRuntime_simps [simp]: "ru_cfg (NewRuntime g) = g" "ru_running (NewRuntime g)"
  by (simp_all add: NewRuntime_def)

lemma stop_server_cfg [simp]: "ru_cfg (mg_servers (stop_server i m) ! j) = ru_cfg (mg_servers m ! j)"
proof (cases i)
  case (Some k)
  then show ?thesis by (cases "j = k \<and> k < length (mg_servers m)") (auto simp: stop_server_def nth_list_update list_update_beyond)
qed (simp add: stop_server_def)

lemma stop_server_cfgs: "(\<forall>r \<in> set (mg_servers (stop_server i m)). P (ru_cfg r)) \<longleftrightarrow> (\<forall>r \<in> set (mg_servers m). P (ru_cfg r))"
  by (simp add: all_set_conv_all_nth)

text \<open>No server runs once the active one is stopped.\<close>

definition quiet :: "manager \<Rightarrow> bool" where
  "quiet m \<longleftrightarrow> (\<forall>r \<in> set (mg_servers m). \<not> ru_running r)"

lemma quiet_stop: "one_server m \<Longrightarrow> i = active m \<Longrightarrow> mg_servers m' = mg_servers m \<Longrightarrow> quiet (stop_server i m')"
  by (auto simp: one_server_def quiet_def stop_server_def all_set_conv_all_nth nth_list_update split: option.splits)

lemma one_server_start:
  assumes "quiet m" "mg_servers m' = mg_servers m @ [NewRuntime g]" "active m' = Some (length (mg_servers m))"
    "\<And>i. mg_runtime m' = Some i \<Longrightarrow> i \<le> length (mg_servers m)"
  shows "one_server m'"
  using assms by (auto simp: one_server_def quiet_def nth_append less_Suc_eq all_set_conv_all_nth)

lemma one_server_none: "quiet m \<Longrightarrow> active m = None \<Longrightarrow> mg_runtime m = None \<Longrightarrow> one_server m"
  by (auto simp: one_server_def quiet_def all_set_conv_all_nth)

lemma active_waiting [simp]: "mg_phase m = Waiting \<Longrightarrow> active m = mg_runtime m"
  by (simp add: active_def)

subsection \<open>Every step keeps the invariant\<close>

lemma nth_update_same: "(\<And>r. f (g r) = f r) \<Longrightarrow> f (xs[k := g (xs ! k)] ! i) = f (xs ! i)"
  by (cases "k < length xs"; cases "i = k") (simp_all add: list_update_beyond)

text \<open>What the invariant depends on: two states that agree on it are both good or both bad.\<close>

lemma agent_ok_frame:
  assumes "agent_ok c m" "mg_phase m' = mg_phase m" "mg_runtime m' = mg_runtime m" "mg_current m' = mg_current m"
    "mg_rpc m' = mg_rpc m" "mg_preRPC m' = mg_preRPC m" "mg_switching m' = mg_switching m" "mg_target m' = mg_target m"
    "mg_files m' = mg_files m" "mg_lastErr m' = mg_lastErr m" "mg_lastFailed m' = mg_lastFailed m" "mg_backoff m' = mg_backoff m"
    "length (mg_servers m') = length (mg_servers m)"
    "\<And>i. i < length (mg_servers m) \<Longrightarrow> ru_cfg (mg_servers m' ! i) = ru_cfg (mg_servers m ! i) \<and>
        ru_running (mg_servers m' ! i) = ru_running (mg_servers m ! i)"
    "mg_desiredCh m' = mg_desiredCh m \<or> (\<forall>d. mg_desiredCh m' = Some (Want d) \<longrightarrow> dr_ModelID d \<noteq> '''')"
  shows "agent_ok c m'"
proof -
  have act: "active m' = active m" using assms(2,3) by (simp add: active_def split: phase.split)
  have one: "one_server m'" using assms(1,3,13,14) by (auto simp: agent_ok_def one_server_def act)
  then have rt: "\<And>i. mg_runtime m = Some i \<Longrightarrow> server_cfg m' i = server_cfg m i" "\<And>i. active m = Some i \<Longrightarrow> server_cfg m' i = server_cfg m i"
    using assms(3,13,14) by (auto simp: one_server_def act server_cfg_def)
  have ports: "ports_ok c m'" using assms(1,6,13,14) by (auto simp: agent_ok_def ports_ok_def all_set_conv_all_nth)
  have mode: "mode_ok c m'"
    using assms(1,3,4,5,6) rt(1) by (auto simp: agent_ok_def mode_ok_def split: option.splits if_splits)
  have phase: "phase_ok c m'"
    using assms(1-5,7-10,15) rt(2) by (auto simp: agent_ok_def phase_ok_def active_def split: phase.splits)
  show ?thesis using one ports mode phase assms(1,11,12) by (simp add: agent_ok_def backoff_ok_def)
qed

lemma agent_ok_SetDesired: "agent_ok c m \<Longrightarrow> (\<And>x. d = Some x \<Longrightarrow> dr_ModelID x \<noteq> '''') \<Longrightarrow> agent_ok c (SetDesired d m)"
  by (erule agent_ok_frame) (auto simp: SetDesired_def split: option.splits if_splits)

lemma healthy_cfg: "healthy probe r = (ok, r') \<Longrightarrow> ru_cfg r' = ru_cfg r \<and> ru_running r' = ru_running r"
  by (auto simp: healthy_def split: if_splits)

lemma runtime_Status_cfg: "ru_cfg (snd (runtime_Status probe fs r)) = ru_cfg r" "ru_running (snd (runtime_Status probe fs r)) = ru_running r"
  by (cases "healthy probe r"; simp add: runtime_Status_def Let_def healthy_cfg)+

lemma Status_state:
  "snd (Status c probe rd m) =
     (case mg_runtime m of None \<Rightarrow> m
      | Some i \<Rightarrow> m\<lparr>mg_servers := (mg_servers m)[i := snd (runtime_Status probe (mg_files m) (mg_servers m ! i))]\<rparr>)"
  by (simp add: Status_def Let_def if_distrib [of snd] split: prod.split option.split)

lemma agent_ok_Status: "agent_ok c m \<Longrightarrow> agent_ok c (snd (Status c probe rd m))"
  by (erule agent_ok_frame)
    (auto simp: Status_state runtime_Status_cfg nth_update_same [of ru_cfg "\<lambda>r. snd (runtime_Status probe fs r)" for fs]
        nth_update_same [of ru_running "\<lambda>r. snd (runtime_Status probe fs r)" for fs] split: option.splits)

lemma server_step_cfg: "ru_cfg (server_step e r) = ru_cfg r" "ru_running (server_step e r) = ru_running r"
  by (cases e; simp add: server_up_def server_exit_def self_tested_def Let_def)+

lemma agent_ok_server:
  "agent_ok c m \<Longrightarrow> agent_ok c (m\<lparr>mg_servers := (mg_servers m)[i := server_step e (mg_servers m ! i)]\<rparr>)"
  by (erule agent_ok_frame) (auto simp: server_step_cfg nth_update_same [of ru_cfg "server_step e"] nth_update_same [of ru_running "server_step e"])

lemma agent_ok_setProgress: "agent_ok c m \<Longrightarrow> agent_ok c (setProgress p m)"
  by (erule agent_ok_frame) (auto simp: setProgress_def)

text \<open>A change of phase among those before \<open>Loading\<close>, or to the end of the switch.\<close>

definition named_phase :: "desired_runtime \<Rightarrow> phase \<Rightarrow> bool" where
  "named_phase d ph \<longleftrightarrow> ph = Checking d \<or> ph = Downloading d \<or> ph = Sizing d"

lemma agent_ok_phase:
  assumes "agent_ok c m" "named_phase d (mg_phase m)" "named_phase d (mg_phase m')" "mg_servers m' = mg_servers m"
    "mg_runtime m' = mg_runtime m" "mg_current m' = mg_current m" "mg_rpc m' = mg_rpc m" "mg_preRPC m' = mg_preRPC m"
    "mg_switching m' = mg_switching m" "mg_target m' = mg_target m" "mg_lastErr m' = mg_lastErr m"
    "mg_lastFailed m' = mg_lastFailed m" "mg_backoff m' = mg_backoff m" "mg_desiredCh m' = mg_desiredCh m"
  shows "agent_ok c m'"
  using assms unfolding named_phase_def
  by (elim disjE) (simp_all add: agent_ok_def agent_ok_defs active_def server_cfg_def cong: if_cong option.case_cong)

text \<open>A switch ends well when its servers and its mode are right.\<close>

definition settled :: "manager_config \<Rightarrow> manager \<Rightarrow> bool" where
  "settled c m \<longleftrightarrow> one_server (m\<lparr>mg_phase := Waiting\<rparr>) \<and> ports_ok c m \<and> mode_ok c m \<and> backoff_ok m \<and>
     (\<forall>d. mg_desiredCh m = Some (Want d) \<longrightarrow> dr_ModelID d \<noteq> '''')"

lemma agent_ok_fail: "settled c m \<Longrightarrow> agent_ok c (end_switch (fail c rd now d err m))"
  by (simp add: settled_def agent_ok_def agent_ok_defs end_switch_def fail_def Let_def server_cfg_def minBackoff_def
      maxBackoff_def seconds_def cong: if_cong option.case_cong) (auto)

lemma agent_ok_reset: "settled c m \<Longrightarrow> agent_ok c (end_switch (resetBackoff m))"
  by (simp add: settled_def agent_ok_def agent_ok_defs end_switch_def resetBackoff_def server_cfg_def
      cong: if_cong option.case_cong)

lemma settled_phase: "agent_ok c m \<Longrightarrow> named_phase d (mg_phase m) \<Longrightarrow> settled c m"
  unfolding named_phase_def by (elim disjE) (simp_all add: settled_def agent_ok_def one_server_def phase_ok_def active_def)

lemma agent_ok_waitingI:
  assumes "mg_phase m = Waiting" "\<not> mg_switching m" "one_server m" "ports_ok c m" "mode_ok c m" "backoff_ok m"
    "\<And>d. mg_desiredCh m = Some (Want d) \<Longrightarrow> dr_ModelID d \<noteq> ''''"
  shows "agent_ok c m"
  using assms by (simp add: agent_ok_def phase_ok_def)

lemma agent_ok_waitingD:
  assumes "agent_ok c m" "mg_phase m = Waiting"
  shows "\<not> mg_switching m" "one_server m" "ports_ok c m" "mode_ok c m" "backoff_ok m"
    "mg_desiredCh m = Some (Want d) \<Longrightarrow> dr_ModelID d \<noteq> ''''"
  using assms by (simp_all add: agent_ok_def phase_ok_def)

text \<open>The states of \<open>leaveRPC\<close>: the server of the pool stopped, then what ran before started again.\<close>

definition left_rpc :: "manager \<Rightarrow> manager" where
  "left_rpc m = stop_server (mg_runtime m)
     (clear_runtime (m\<lparr>mg_rpc := False, mg_preRPC := None, mg_lastApplied := None, mg_lastErr := ''''\<rparr>))"

lemma leaveRPC_eq:
  "leaveRPC m = (if \<not> mg_rpc m then m else case mg_preRPC m of None \<Rightarrow> left_rpc m
     | Some p \<Rightarrow> (start_server (pr_cfg p) (left_rpc m))\<lparr>mg_runtime := Some (length (mg_servers m)), mg_current := pr_current p,
         mg_residentBytes := pr_residentBytes p, mg_lastApplied := pr_lastApplied p\<rparr>)"
  by (simp add: leaveRPC_def left_rpc_def Let_def next_server_def clear_runtime_def split: option.split)

lemma left_rpc_simps [simp]:
  "mg_phase (left_rpc m) = mg_phase m" "mg_runtime (left_rpc m) = None" "mg_current (left_rpc m) = ''''"
  "mg_rpc (left_rpc m) = False" "mg_preRPC (left_rpc m) = None" "mg_switching (left_rpc m) = mg_switching m"
  "mg_files (left_rpc m) = mg_files m" "mg_lastErr (left_rpc m) = ''''" "mg_lastFailed (left_rpc m) = mg_lastFailed m"
  "mg_backoff (left_rpc m) = mg_backoff m" "mg_desiredCh (left_rpc m) = mg_desiredCh m"
  "length (mg_servers (left_rpc m)) = length (mg_servers m)" "ru_cfg (mg_servers (left_rpc m) ! i) = ru_cfg (mg_servers m ! i)"
  by (simp_all add: left_rpc_def clear_runtime_def)

lemma ports_ok_servers:
  assumes "ports_ok c m" "\<And>i. ru_cfg (mg_servers m' ! i) = ru_cfg (mg_servers m ! i)" "length (mg_servers m') = length (mg_servers m)"
  shows "\<forall>r \<in> set (mg_servers m'). cfg_ok c (ru_cfg r)"
  using assms by (simp add: ports_ok_def all_set_conv_all_nth)

lemma agent_ok_leaveRPC:
  assumes "agent_ok c m" "mg_phase m = Waiting"
  shows "agent_ok c (leaveRPC m)"
proof (cases "mg_rpc m")
  case True
  note ok = agent_ok_waitingD [OF assms]
  have q: "quiet (left_rpc m)"
    unfolding left_rpc_def by (rule quiet_stop [OF ok(2)]) (use assms(2) in \<open>simp_all add: clear_runtime_def\<close>)
  have ports: "\<forall>r \<in> set (mg_servers (left_rpc m)). cfg_ok c (ru_cfg r)" by (rule ports_ok_servers [OF ok(3)]) simp_all
  show ?thesis
  proof (cases "mg_preRPC m")
    case None
    have "agent_ok c (left_rpc m)"
      by (rule agent_ok_waitingI)
        (use ok q ports assms(2) in \<open>simp_all add: one_server_none ports_ok_def mode_ok_def backoff_ok_def\<close>)
    then show ?thesis using True None by (simp add: leaveRPC_eq)
  next
    case (Some p)
    let ?m = "(start_server (pr_cfg p) (left_rpc m))\<lparr>mg_runtime := Some (length (mg_servers m)), mg_current := pr_current p,
         mg_residentBytes := pr_residentBytes p, mg_lastApplied := pr_lastApplied p\<rparr>"
    have named: "named c (pr_cfg p) (pr_current p)" "cfg_ok c (pr_cfg p)"
      using ok(3,4) Some by (simp_all add: mode_ok_def ports_ok_def)
    have one: "one_server ?m" by (rule one_server_start [OF q, of _ "pr_cfg p"]) (use assms(2) in simp_all)
    have "agent_ok c ?m"
      by (rule agent_ok_waitingI [OF _ _ one])
        (use ok ports named assms(2) in \<open>simp_all add: ports_ok_def mode_ok_def backoff_ok_def server_cfg_def nth_append\<close>)
    then show ?thesis using True Some by (simp add: leaveRPC_eq)
  qed
qed (simp add: leaveRPC_def assms(1))

text \<open>The state \<open>enterRPC\<close> starts the pool's server in.\<close>

definition rpc_config :: "manager_config \<Rightarrow> runtime_config" where
  "rpc_config c = \<lparr>rg_ServerBin = mc_RPCServerBin c, rg_ModelPath = '''', rg_Port = mc_Port c,
     rg_AdvertisePort = mc_AdvertisePort c, rg_Threads = mc_RPCThreads c, rg_CtxSize = 0, rg_Slots = 0,
     rg_KVType = '''', rg_Variant = mc_Variant c, rg_RPC = True, rg_RPCCacheDir = mc_RPCCacheDir c\<rparr>"

definition saved_pre_rpc :: "manager \<Rightarrow> pre_rpc option" where
  "saved_pre_rpc m = (if mg_rpc m then mg_preRPC m
     else map_option (\<lambda>i. \<lparr>pr_cfg = server_cfg m i, pr_current = mg_current m, pr_residentBytes = mg_residentBytes m,
            pr_lastApplied = mg_lastApplied m\<rparr>) (mg_runtime m))"

lemma enterRPC_cases:
  obtains "enterRPC c cache_ok d m = m" "mg_rpc m" "mg_lastApplied m = Some d"
  | e where "enterRPC c cache_ok d m = m\<lparr>mg_lastErr := e\<rparr>" "e \<noteq> ''''"
  | s where "enterRPC c cache_ok d m = resetBackoff (start_server (rpc_config c)
        ((stop_server (mg_runtime m) (m\<lparr>mg_preRPC := saved_pre_rpc m\<rparr>))\<lparr>mg_cacheModel := s\<rparr>)
      \<lparr>mg_runtime := Some (length (mg_servers m)), mg_current := '''', mg_residentBytes := 0, mg_ramBytes := 0,
       mg_rpc := True, mg_lastApplied := Some d, mg_lastErr := ''''\<rparr>)"
proof -
  consider "mg_rpc m \<and> mg_lastApplied m = Some d" | "\<not> (mg_rpc m \<and> mg_lastApplied m = Some d)" "mc_RPCServerBin c = ''''"
    | "\<not> (mg_rpc m \<and> mg_lastApplied m = Some d)" "mc_RPCServerBin c \<noteq> ''''" by blast
  then show thesis
  proof cases
    case 1
    then show ?thesis using that(1) by (simp add: enterRPC_def)
  next
    case 2
    then show ?thesis using that(2) unfolding enterRPC_def by (metis list.distinct(1) append_Cons)
  next
    case 3
    then show ?thesis
      by (intro that(3) [of "if trim_space (case mg_cacheModel m of None \<Rightarrow> '''' | Some s \<Rightarrow> s) = dr_ModelID d then mg_cacheModel m
            else if cache_ok then Some (dr_ModelID d @ [CHR 0x0A]) else None"])
        (simp only: enterRPC_def Let_def rpc_config_def saved_pre_rpc_def server_cfg_def next_server_def if_False
           stop_server_simps simp_thms, simp)
  qed
qed

lemma saved_named:
  assumes "agent_ok c m" "saved_pre_rpc m = Some p"
  shows "named c (pr_cfg p) (pr_current p)" "cfg_ok c (pr_cfg p)"
proof -
  have "named c (pr_cfg p) (pr_current p) \<and> cfg_ok c (pr_cfg p)"
  proof (cases "mg_rpc m")
    case True
    then show ?thesis using assms by (simp add: saved_pre_rpc_def agent_ok_def mode_ok_def ports_ok_def)
  next
    case False
    then obtain i where i: "mg_runtime m = Some i" "pr_cfg p = server_cfg m i" "pr_current p = mg_current m"
      using assms(2) by (auto simp: saved_pre_rpc_def)
    then have "i < length (mg_servers m)" using assms(1) by (simp add: agent_ok_def one_server_def)
    then show ?thesis
      using i False assms(1) by (auto simp: agent_ok_def mode_ok_def ports_ok_def server_cfg_def all_set_conv_all_nth)
  qed
  then show "named c (pr_cfg p) (pr_current p)" "cfg_ok c (pr_cfg p)" by blast+
qed

lemma resetBackoff_simps [simp]:
  "mg_phase (resetBackoff m) = mg_phase m" "mg_runtime (resetBackoff m) = mg_runtime m" "mg_servers (resetBackoff m) = mg_servers m"
  "mg_current (resetBackoff m) = mg_current m" "mg_rpc (resetBackoff m) = mg_rpc m" "mg_preRPC (resetBackoff m) = mg_preRPC m"
  "mg_switching (resetBackoff m) = mg_switching m" "mg_files (resetBackoff m) = mg_files m"
  "mg_desiredCh (resetBackoff m) = mg_desiredCh m" "mg_lastErr (resetBackoff m) = mg_lastErr m" "backoff_ok (resetBackoff m)"
  by (simp_all add: resetBackoff_def backoff_ok_def)

lemma agent_ok_enterRPC:
  assumes "agent_ok c m" "mg_phase m = Waiting"
  shows "agent_ok c (enterRPC c cache_ok d m)"
proof (rule enterRPC_cases [of c cache_ok d m])
  fix e assume e: "enterRPC c cache_ok d m = m\<lparr>mg_lastErr := e\<rparr>"
  note ok = agent_ok_waitingD [OF assms]
  show ?thesis unfolding e
    by (rule agent_ok_waitingI)
      (use ok assms(2) in \<open>simp_all add: one_server_def ports_ok_def mode_ok_def backoff_ok_def server_cfg_def cong: if_cong option.case_cong\<close>)
next
  fix s let ?st = "stop_server (mg_runtime m) (m\<lparr>mg_preRPC := saved_pre_rpc m\<rparr>)"
  let ?ch = "?st\<lparr>mg_cacheModel := s\<rparr>"
  let ?m = "resetBackoff (start_server (rpc_config c) ?ch
      \<lparr>mg_runtime := Some (length (mg_servers m)), mg_current := '''', mg_residentBytes := 0, mg_ramBytes := 0,
       mg_rpc := True, mg_lastApplied := Some d, mg_lastErr := ''''\<rparr>)"
  assume e: "enterRPC c cache_ok d m = ?m"
  note ok = agent_ok_waitingD [OF assms]
  have "quiet ?st" by (rule quiet_stop [OF ok(2)]) (use assms(2) in simp_all)
  then have q: "quiet ?ch" by (simp add: quiet_def)
  have one: "one_server ?m" by (rule one_server_start [OF q, of _ "rpc_config c"]) (use assms(2) in simp_all)
  have ports: "\<forall>r \<in> set (mg_servers ?ch). cfg_ok c (ru_cfg r)" by (rule ports_ok_servers [OF ok(3)]) simp_all
  show ?thesis unfolding e
    by (rule agent_ok_waitingI [OF _ _ one])
      (use ok ports saved_named [OF assms(1)] assms(2) in
        \<open>simp_all add: ports_ok_def mode_ok_def server_cfg_def nth_append rpc_config_def cfg_ok_def\<close>)
qed (simp add: assms(1))

lemma agent_ok_reconcile_start:
  assumes "agent_ok c m" "mg_phase m = Waiting" "\<And>d. msg = Want d \<Longrightarrow> dr_ModelID d \<noteq> ''''"
  shows "agent_ok c (reconcile_start c cache_ok rd now msg m)"
proof (cases msg)
  case (Want d)
  let ?l = "leaveRPC m"
  have l: "agent_ok c ?l" "mg_phase ?l = Waiting" "\<not> mg_rpc ?l"
    using agent_ok_leaveRPC [OF assms(1,2)] assms(2) by (simp_all add: leaveRPC_eq split: option.split)
  have id: "dr_ModelID d \<noteq> ''''" using assms(3) Want .
  note ok = agent_ok_waitingD [OF l(1,2)]
  let ?n = "?l\<lparr>mg_phase := Checking d, mg_switching := True, mg_target := dr_ModelID d, mg_lastErr := ''''\<rparr>"
  have "agent_ok c ?n"
    unfolding agent_ok_def using ok l(2,3) id
    by (intro conjI)
      (simp_all add: one_server_def ports_ok_def mode_ok_def phase_ok_def backoff_ok_def active_def server_cfg_def cong: if_cong option.case_cong)
  then show ?thesis
    using agent_ok_enterRPC [OF assms(1,2)] l(1) by (simp add: reconcile_start_def Want Let_def)
qed (simp add: reconcile_start_def agent_ok_leaveRPC assms(1,2))

lemma agent_ok_check_cached: "agent_ok c m \<Longrightarrow> mg_phase m = Checking d \<Longrightarrow> agent_ok c (check_cached c sha readable d m)"
  by (erule agent_ok_phase [of _ _ d])
    (simp_all add: check_cached_def setSubState_def named_phase_def Let_def split: prod.split)

lemma makeRoom_files: "\<exists>err fs. makeRoom c fe dest needed m = (err, m\<lparr>mg_files := fs\<rparr>)"
proof (cases "fe_free fe")
  case (Inl err)
  have "m = m\<lparr>mg_files := mg_files m\<rparr>" by simp
  with Inl show ?thesis unfolding makeRoom_def by (intro exI [of _ "mg_files m"] exI) simp
next
  case (Inr free)
  then show ?thesis by (simp add: makeRoom_def Let_def split: prod.split) blast
qed

lemma fetch_cases:
  obtains (failed) err fs where "fetch c sha fe rd now d m = end_switch (fail c rd now d err (m\<lparr>mg_files := fs\<rparr>))"
  | (fetched) fs where "fetch c sha fe rd now d m = m\<lparr>mg_files := fs, mg_progress := 1, mg_phase := Sizing d\<rparr>"
proof -
  obtain err fs where r: "makeRoom c fe (model_dest c (dr_ModelID d)) (dr_SizeBytes d) m = (err, m\<lparr>mg_files := fs\<rparr>)"
    using makeRoom_files by blast
  obtain err' fs' where l: "downloadModel sha (mc_ControllerURL c @ dr_URL d) (model_dest c (dr_ModelID d)) (dr_SHA256 d)
      (fe_download fe) fs = (err', fs')" by fastforce
  show thesis
    using failed [of _ fs] failed [of _ fs'] fetched [of fs'] by (cases err; cases err') (simp_all add: fetch_def r l)
qed

lemma agent_ok_fetch:
  assumes "agent_ok c m" "mg_phase m = Downloading d"
  shows "agent_ok c (fetch c sha fe rd now d m)"
proof (rule fetch_cases [of c sha fe rd now d m])
  fix err fs assume e: "fetch c sha fe rd now d m = end_switch (fail c rd now d err (m\<lparr>mg_files := fs\<rparr>))"
  have "agent_ok c (m\<lparr>mg_files := fs\<rparr>)"
    by (rule agent_ok_phase [OF assms(1), of d]) (simp_all add: assms(2) named_phase_def)
  then have "settled c (m\<lparr>mg_files := fs\<rparr>)" by (rule settled_phase) (simp add: assms(2) named_phase_def)
  then show ?thesis unfolding e by (rule agent_ok_fail)
next
  fix fs assume e: "fetch c sha fe rd now d m = m\<lparr>mg_files := fs, mg_progress := 1, mg_phase := Sizing d\<rparr>"
  show ?thesis unfolding e by (rule agent_ok_phase [OF assms(1), of d]) (simp_all add: assms(2) named_phase_def)
qed

lemma size_and_load_cases:
  obtains err where "size_and_load c rd now d m = end_switch (fail c rd now d err m)"
  | "size_and_load c rd now d m =
       end_switch (resetBackoff (m\<lparr>mg_lastApplied := Some d, mg_lastErr := '''', mg_residentBytes := dr_ResidentBytes d\<rparr>))"
  | plan f where "map_of (mg_files m) (model_dest c (dr_ModelID d)) = Some f" "sizing_of c rd d f m = Inr plan"
      "size_and_load c rd now d m =
       load_start c now d plan (setSubState ''loading'' (m\<lparr>mg_ramBytes := sp_RAMEstimateBytes plan\<rparr>))"
proof (cases "map_of (mg_files m) (model_dest c (dr_ModelID d))")
  case None
  then show ?thesis using that(1) by (simp add: size_and_load_def Let_def)
next
  case (Some f)
  then show ?thesis
    using that by (cases "sizing_of c rd d f m"; cases "serving (dr_ModelID d) m") (simp_all add: size_and_load_def Let_def)
qed

lemma agent_ok_load_start:
  assumes "agent_ok c m" "mg_phase m = Sizing d" "map_of (mg_files m) (model_dest c (dr_ModelID d)) \<noteq> None"
  shows "agent_ok c (load_start c now d plan m)"
proof -
  let ?m = "load_start c now d plan m"
  have a: "one_server m" "active m = mg_runtime m" "\<not> mg_rpc m" "\<And>i. mg_runtime m = Some i \<Longrightarrow> i < length (mg_servers m)"
    using assms(1,2) by (auto simp: agent_ok_def phase_ok_def one_server_def active_def)
  have q: "quiet (stop_server (mg_runtime m) m)" by (rule quiet_stop [OF a(1)]) (simp_all add: a(2))
  have one: "one_server ?m"
    by (rule one_server_start [OF q])
      (use a(4) in \<open>fastforce simp: load_start_def Let_def active_def next_server_def\<close>)+
  have ports: "\<forall>r \<in> set (mg_servers (stop_server (mg_runtime m) m)). cfg_ok c (ru_cfg r)"
    by (rule ports_ok_servers [of c m]) (use assms(1) in \<open>simp_all add: agent_ok_def\<close>)
  have ports': "ports_ok c ?m"
    using ports assms(1) by (auto simp: load_start_def Let_def ports_ok_def agent_ok_def cfg_ok_def)
  have "mode_ok c ?m"
    using assms(1) a(3,4) by (auto simp: agent_ok_def mode_ok_def load_start_def Let_def server_cfg_def nth_append split: option.splits)
  then show ?thesis
    using one ports' assms a(3)
    by (simp add: agent_ok_def phase_ok_def backoff_ok_def load_start_def Let_def server_cfg_def nth_append next_server_def)
qed

lemma agent_ok_size_and_load:
  assumes "agent_ok c m" "mg_phase m = Sizing d"
  shows "agent_ok c (size_and_load c rd now d m)"
proof -
  have s: "settled c m" using settled_phase [OF assms(1)] assms(2) by (simp add: named_phase_def)
  have ok: "agent_ok c m'" if "m' = m\<lparr>mg_lastApplied := la, mg_residentBytes := res\<rparr>" for m' la res
    by (rule agent_ok_frame [OF assms(1)]) (simp_all add: that)
  show ?thesis
  proof (rule size_and_load_cases [of c rd now d m])
    fix err assume "size_and_load c rd now d m = end_switch (fail c rd now d err m)"
    then show ?thesis using agent_ok_fail [OF s] by simp
  next
    let ?m = "m\<lparr>mg_lastApplied := Some d, mg_lastErr := '''', mg_residentBytes := dr_ResidentBytes d\<rparr>"
    assume e: "size_and_load c rd now d m = end_switch (resetBackoff ?m)"
    have "mg_lastErr m = ''''" using assms by (simp add: agent_ok_def phase_ok_def)
    then have "agent_ok c ?m" by (intro agent_ok_frame [OF assms(1)]) simp_all
    then have "settled c ?m" by (rule settled_phase) (simp add: assms(2) named_phase_def)
    then show ?thesis unfolding e by (rule agent_ok_reset)
  next
    fix plan :: sizing_plan and f
    let ?m = "setSubState ''loading'' (m\<lparr>mg_ramBytes := sp_RAMEstimateBytes plan\<rparr>)"
    assume f: "map_of (mg_files m) (model_dest c (dr_ModelID d)) = Some f"
      and e: "size_and_load c rd now d m = load_start c now d plan ?m"
    have "agent_ok c ?m" by (rule agent_ok_frame [OF assms(1)]) (simp_all add: setSubState_def)
    then show ?thesis unfolding e by (rule agent_ok_load_start) (simp_all add: setSubState_def assms(2) f)
  qed
qed

lemma clear_runtime_simps [simp]:
  "mg_servers (clear_runtime m) = mg_servers m" "mg_runtime (clear_runtime m) = None" "mg_current (clear_runtime m) = ''''"
  "mg_rpc (clear_runtime m) = mg_rpc m" "mg_preRPC (clear_runtime m) = mg_preRPC m" "mg_files (clear_runtime m) = mg_files m"
  "mg_lastFailed (clear_runtime m) = mg_lastFailed m" "mg_backoff (clear_runtime m) = mg_backoff m"
  "mg_desiredCh (clear_runtime m) = mg_desiredCh m" "mg_lastApplied (clear_runtime m) = mg_lastApplied m"
  by (simp_all add: clear_runtime_def)

lemma fallback_simps [simp]:
  "mg_rpc (fallback prev cur res m) = mg_rpc m" "mg_preRPC (fallback prev cur res m) = mg_preRPC m"
  "mg_files (fallback prev cur res m) = mg_files m" "mg_lastApplied (fallback prev cur res m) = mg_lastApplied m"
  "mg_lastFailed (fallback prev cur res m) = mg_lastFailed m" "mg_backoff (fallback prev cur res m) = mg_backoff m"
  "mg_desiredCh (fallback prev cur res m) = mg_desiredCh m"
  by (simp_all add: fallback_def Let_def split: option.split)

lemma settled_fallback:
  assumes "quiet m" "\<And>r. r \<in> set (mg_servers m) \<Longrightarrow> cfg_ok c (ru_cfg r)" "\<not> mg_rpc m" "mg_preRPC m = None" "backoff_ok m"
    "\<And>d. mg_desiredCh m = Some (Want d) \<Longrightarrow> dr_ModelID d \<noteq> ''''"
    "\<And>j. prev = Some j \<Longrightarrow> j < length (mg_servers m) \<and> named c (server_cfg m j) cur"
  shows "settled c (fallback prev cur res m)"
proof -
  have clear: "settled c (clear_runtime m)"
    using assms by (simp add: settled_def one_server_none quiet_def ports_ok_def mode_ok_def backoff_ok_def)
  have start: "settled c ((start_server (ru_cfg (mg_servers m ! j)) m)\<lparr>mg_runtime := Some (next_server m), mg_current := cur,
      mg_residentBytes := res\<rparr>)" (is "settled c ?m") if j: "prev = Some j" for j
  proof -
    have "one_server (?m\<lparr>mg_phase := Waiting\<rparr>)"
      by (rule one_server_start [OF assms(1)]) (simp_all add: next_server_def)
    moreover have "cfg_ok c (ru_cfg (mg_servers m ! j))" "named c (ru_cfg (mg_servers m ! j)) cur"
      using assms(2,7) j by (simp_all add: server_cfg_def)
    ultimately show ?thesis
      using assms by (simp add: settled_def ports_ok_def mode_ok_def backoff_ok_def server_cfg_def next_server_def)
  qed
  show ?thesis using clear start by (simp add: fallback_def Let_def split: option.split)
qed

lemma agent_ok_load_end:
  assumes "agent_ok c m" "mg_phase m = Loading d plan i prev cur res deadline"
  shows "agent_ok c (load_end c rd now err d i prev cur res m)"
proof -
  have a: "active m = Some i" using assms(2) by (simp add: active_def)
  have ok: "one_server m" "ports_ok c m" "mode_ok c m" "backoff_ok m" "\<not> mg_rpc m" "prev = mg_runtime m" "cur = mg_current m"
    "dr_ModelID d \<noteq> ''''" "\<not> rg_RPC (server_cfg m i)" "rg_ModelPath (server_cfg m i) = model_dest c (dr_ModelID d)"
    "\<And>d. mg_desiredCh m = Some (Want d) \<Longrightarrow> dr_ModelID d \<noteq> ''''"
    using assms by (simp_all add: agent_ok_def phase_ok_def)
  have m: "mg_preRPC m = None" "\<And>j. prev = Some j \<Longrightarrow> j < length (mg_servers m) \<and> named c (server_cfg m j) cur"
    using ok by (auto simp: mode_ok_def one_server_def)
  show ?thesis
  proof (cases err)
    case None
    let ?m = "m\<lparr>mg_files := touch (model_dest c (dr_ModelID d)) now (mg_files m), mg_runtime := Some i,
               mg_current := dr_ModelID d, mg_residentBytes := dr_ResidentBytes d, mg_lastApplied := Some d, mg_lastErr := ''''\<rparr>"
    have "one_server (?m\<lparr>mg_phase := Waiting\<rparr>)" using ok(1) a by (simp add: one_server_def)
    moreover have "mode_ok c ?m" using ok m(1) by (simp add: mode_ok_def named_def server_cfg_def)
    ultimately have "settled c ?m" using ok by (simp add: settled_def ports_ok_def backoff_ok_def)
    then show ?thesis by (simp add: load_end_def None agent_ok_reset)
  next
    case (Some e)
    let ?s = "stop_server (Some i) m"
    have q: "quiet ?s" by (rule quiet_stop [OF ok(1)]) (simp_all add: a)
    have ports: "\<forall>r \<in> set (mg_servers ?s). cfg_ok c (ru_cfg r)" by (rule ports_ok_servers [OF ok(2)]) simp_all
    have "settled c (fallback prev cur res ?s)"
      by (rule settled_fallback [OF q]) (use ports ok m in \<open>auto simp: backoff_ok_def server_cfg_def\<close>)
    then show ?thesis by (simp add: load_end_def Some agent_ok_fail)
  qed
qed

lemma agent_ok_step: "agent_step c sha m m' \<Longrightarrow> agent_ok c m \<Longrightarrow> agent_ok c m'"
proof (induction rule: agent_step.induct)
  case (receive m msg cache_ok rd now)
  have "agent_ok c (m\<lparr>mg_desiredCh := None\<rparr>)" by (rule agent_ok_frame [OF receive.prems]) simp_all
  then show ?case
    by (rule agent_ok_reconcile_start) (use receive in \<open>auto simp: agent_ok_def phase_ok_def\<close>)
qed (simp_all add: agent_ok_SetDesired agent_ok_Status agent_ok_check_cached agent_ok_setProgress agent_ok_fetch
    agent_ok_size_and_load agent_ok_load_end agent_ok_server)

lemma agent_reachable_ok: "agent_reachable c sha m \<Longrightarrow> static_ok c \<Longrightarrow> agent_ok c m"
  by (induction rule: agent_reachable.induct) (auto intro: agent_ok_init agent_ok_step)

subsection \<open>The file of the running model stays\<close>

lemma split_slash_plain: "CHR ''/'' \<notin> set n \<Longrightarrow> split_slash n = [n]"
  by (induction n) auto

lemma split_slash_nonempty: "split_slash s \<noteq> []"
  by (induction s) (auto split: list.split)

lemma split_slash_append: "CHR ''/'' \<notin> set n \<Longrightarrow> split_slash (d @ CHR ''/'' # n) = split_slash d @ [n]"
  by (induction d) (auto simp: split_slash_plain split_slash_nonempty split: list.split)

lemma trim_right_slash_plain: "n \<noteq> '''' \<Longrightarrow> CHR ''/'' \<notin> set n \<Longrightarrow> trim_right_slash (d @ n) = d @ n"
  by (cases n rule: rev_cases) (auto simp: trim_right_slash_def)

lemma path_base_entry:
  assumes "n \<noteq> ''''" "CHR ''/'' \<notin> set n"
  shows "path_base (d @ CHR ''/'' # n) = n"
  using trim_right_slash_plain [OF assms, of "d @ ''/''"] by (simp add: path_base_def split_slash_append assms(2))

lemma dir_entry_Some: "dir_entry d p = Some n \<longleftrightarrow> p = d @ CHR ''/'' # n \<and> n \<noteq> '''' \<and> CHR ''/'' \<notin> set n"
proof -
  have c: "cut_prefix p (d @ ''/'') = Some t \<longleftrightarrow> p = d @ CHR ''/'' # t" for t by (simp add: cut_prefix_Some)
  show ?thesis
  proof (cases "cut_prefix p (d @ ''/'')")
    case None
    then have "p \<noteq> d @ CHR ''/'' # n" using c [of n] by simp
    then show ?thesis using None by (simp add: dir_entry_def)
  next
    case (Some t)
    then show ?thesis using c [of t] by (auto simp: dir_entry_def)
  qed
qed

lemma trim_suffix_has: "has_suffix n t \<Longrightarrow> trim_suffix n t @ t = n"
  unfolding has_suffix_def trim_suffix_def by (metis append_take_drop_id)

lemma named_not_evictable:
  assumes "named c g cur"
  shows "\<not> evictable (mc_ModelsDir c) (model_dest c cur) dest (rg_ModelPath g, f)"
proof
  assume e: "evictable (mc_ModelsDir c) (model_dest c cur) dest (rg_ModelPath g, f)"
  then obtain n where n: "dir_entry (mc_ModelsDir c) (rg_ModelPath g) = Some n" "has_suffix n ''.gguf''"
    and ne: "rg_ModelPath g \<noteq> model_dest c cur"
    by (auto simp: evictable_def split: option.splits)
  then have "rg_ModelPath g = mc_StaticModelPath c" "cur = ModelName (mc_StaticModelPath c)"
    using assms by (auto simp: named_def)
  then have "cur = trim_suffix n ''.gguf''"
    using n(1) by (auto simp: ModelName_def dir_entry_Some path_base_entry)
  then have "rg_ModelPath g = model_dest c cur"
    using n trim_suffix_has [OF n(2)] by (auto simp: dir_entry_Some model_dest_def)
  with ne show False by simp
qed

lemma named_not_part:
  assumes "named c g cur" "static_ok c"
  shows "rg_ModelPath g \<noteq> part_file dest"
proof
  assume p: "rg_ModelPath g = part_file dest"
  have "last (rg_ModelPath g) = CHR ''f''"
  proof (cases "rg_ModelPath g = model_dest c cur")
    case True
    then show ?thesis by (simp add: model_dest_def)
  next
    case False
    then have "has_suffix (rg_ModelPath g) ''.gguf''"
      using assms by (auto simp: named_def static_ok_def)
    then obtain d where "rg_ModelPath g = d @ ''.gguf''" using trim_suffix_has by metis
    then show ?thesis by simp
  qed
  with p show False by (simp add: part_file_def)
qed

lemma evictLRU_keeps:
  assumes "evictLRU removable listed dir keep dest free needed fs = (err, fs')" "\<And>f. \<not> evictable dir keep dest (p, f)"
  shows "map_of fs' p = map_of fs p"
proof -
  let ?cs = "evict_candidates dir keep dest fs"
  obtain free' fs1 where l: "evict_loop removable free needed ?cs fs = (free', fs1)" by fastforce
  have "p \<notin> fst ` set ?cs" using assms(2) by (auto simp: evict_candidates_def)
  moreover have "set (take k (filter (\<lambda>e. removable (fst e)) ?cs)) \<subseteq> set ?cs" for k
    by (rule order_trans [OF set_take_subset]) simp
  ultimately have n: "p \<notin> fst ` set (take k (filter (\<lambda>e. removable (fst e)) ?cs))" for k by blast
  obtain k where "map_of fs1 = map_of fs |` (- fst ` set (take k (filter (\<lambda>e. removable (fst e)) ?cs)))"
    using evict_loop_prefix [OF l] unfolding Let_def by blast
  then have "map_of fs1 p = map_of fs p" using n by (simp add: restrict_in)
  then show ?thesis using assms(1) by (auto simp: evictLRU_def l split: if_splits)
qed

lemma fetch_keeps:
  assumes "static_ok c" "named c g (mg_current m)" "map_of (mg_files m) (rg_ModelPath g) \<noteq> None"
  shows "map_of (mg_files (fetch c sha fe rd now d m)) (rg_ModelPath g) \<noteq> None"
proof -
  let ?dest = "model_dest c (dr_ModelID d)" and ?p = "rg_ModelPath g"
  obtain err fs where r: "makeRoom c fe ?dest (dr_SizeBytes d) m = (err, m\<lparr>mg_files := fs\<rparr>)"
    using makeRoom_files by blast
  have cur: "mg_current m \<noteq> ''''" using assms(2) by (simp add: named_def)
  have "map_of fs ?p = map_of (mg_files m) ?p"
  proof (cases "fe_free fe")
    case (Inl e)
    then have "snd (makeRoom c fe ?dest (dr_SizeBytes d) m) = m" by (simp add: makeRoom_def)
    then have "mg_files (m\<lparr>mg_files := fs\<rparr>) = mg_files m" unfolding r snd_conv by (rule arg_cong)
    then show ?thesis by simp
  next
    case (Inr free)
    obtain err' fs1 where e: "evictLRU (fe_removable fe) (fe_listed fe) (mc_ModelsDir c) (keep_path c m) ?dest free (dr_SizeBytes d) (mg_files m) = (err', fs1)"
      by fastforce
    then have "snd (makeRoom c fe ?dest (dr_SizeBytes d) m) = m\<lparr>mg_files := fs1\<rparr>" using Inr by (simp add: makeRoom_def)
    then have "mg_files (m\<lparr>mg_files := fs\<rparr>) = mg_files (m\<lparr>mg_files := fs1\<rparr>)" unfolding r snd_conv by (rule arg_cong)
    then have "fs = fs1" by simp
    then show ?thesis
      using evictLRU_keeps [OF e] named_not_evictable [OF assms(2)] cur by (simp add: keep_path_def)
  qed
  then have fs: "map_of fs ?p \<noteq> None" using assms(3) by simp
  obtain err' fs' where l: "downloadModel sha (mc_ControllerURL c @ dr_URL d) ?dest (dr_SHA256 d) (fe_download fe) fs = (err', fs')"
    by fastforce
  have fs': "map_of fs' ?p \<noteq> None"
  proof (cases "?p = ?dest \<and> err' = None")
    case True
    then show ?thesis using l by (auto elim!: downloadModel_ok)
  next
    case False
    then show ?thesis using downloadModel_frame [OF l named_not_part [OF assms(2,1)]] fs by auto
  qed
  show ?thesis
    using fs fs' by (simp add: fetch_def r l end_switch_def fail_def Let_def split: option.split)
qed

subsection \<open>A phone that serves keeps serving\<close>

text \<open>
  The model the phone falls back on: the one the runtime was started with or, in Big Brain mode, the one
  that ran before; its file is on disk.
\<close>

definition home_cfg :: "manager \<Rightarrow> runtime_config option" where
  "home_cfg m = (if mg_rpc m then map_option pr_cfg (mg_preRPC m) else map_option (server_cfg m) (mg_runtime m))"

definition has_model :: "manager \<Rightarrow> bool" where
  "has_model m \<longleftrightarrow> (case home_cfg m of None \<Rightarrow> False | Some g \<Rightarrow> map_of (mg_files m) (rg_ModelPath g) \<noteq> None)"

lemma has_model_frame:
  "has_model m \<Longrightarrow> home_cfg m' = home_cfg m \<Longrightarrow> mg_files m' = mg_files m \<Longrightarrow> has_model m'"
  by (cases "home_cfg m") (simp_all add: has_model_def)

lemma home_cfg_frame:
  "mg_rpc m' = mg_rpc m \<Longrightarrow> mg_preRPC m' = mg_preRPC m \<Longrightarrow> mg_runtime m' = mg_runtime m \<Longrightarrow>
   (\<And>i. mg_runtime m = Some i \<Longrightarrow> server_cfg m' i = server_cfg m i) \<Longrightarrow> home_cfg m' = home_cfg m"
  by (simp add: home_cfg_def split: option.split) (metis option.map(2) option.exhaust option.map(1))

lemma home_cfg_end_fail:
  "home_cfg (end_switch (fail c rd now d err m)) = home_cfg m" "mg_files (end_switch (fail c rd now d err m)) = mg_files m"
  by (auto intro: home_cfg_frame simp: end_switch_def fail_def Let_def server_cfg_def)

lemma home_cfg_named:
  "agent_ok c m \<Longrightarrow> home_cfg m = Some g \<Longrightarrow> \<exists>cur. named c g cur \<and> (\<not> mg_rpc m \<longrightarrow> cur = mg_current m)"
  by (auto simp: home_cfg_def agent_ok_def mode_ok_def split: if_splits)

lemma home_leaveRPC:
  "agent_ok c m \<Longrightarrow> mg_phase m = Waiting \<Longrightarrow> home_cfg (leaveRPC m) = home_cfg m" "mg_files (leaveRPC m) = mg_files m"
  by (auto simp: leaveRPC_eq home_cfg_def server_cfg_def nth_append split: option.split)

lemma home_enterRPC: "home_cfg (enterRPC c cache_ok d m) = home_cfg m" "mg_files (enterRPC c cache_ok d m) = mg_files m"
proof -
  have "home_cfg (enterRPC c cache_ok d m) = home_cfg m \<and> mg_files (enterRPC c cache_ok d m) = mg_files m"
    by (rule enterRPC_cases [of c cache_ok d m])
      (auto simp: home_cfg_def server_cfg_def [abs_def] saved_pre_rpc_def option.map_comp comp_def)
  then show "home_cfg (enterRPC c cache_ok d m) = home_cfg m" "mg_files (enterRPC c cache_ok d m) = mg_files m" by blast+
qed

lemma has_model_reconcile_start:
  assumes "agent_ok c m" "mg_phase m = Waiting" "has_model m"
  shows "has_model (reconcile_start c cache_ok rd now msg m)"
proof -
  have l: "has_model (leaveRPC m)" using has_model_frame [OF assms(3) home_leaveRPC(1) [OF assms(1,2)] home_leaveRPC(2)] .
  have e: "has_model (enterRPC c cache_ok d m)" for d using has_model_frame [OF assms(3) home_enterRPC] .
  have "has_model ((leaveRPC m)\<lparr>mg_phase := Checking d, mg_switching := True, mg_target := dr_ModelID d, mg_lastErr := ''''\<rparr>)" for d
    by (rule has_model_frame [OF l]) (auto intro: home_cfg_frame simp: server_cfg_def)
  then show ?thesis using l e by (simp add: reconcile_start_def Let_def split: message.split)
qed

lemma has_model_fetch:
  assumes "agent_ok c m" "mg_phase m = Downloading d" "has_model m" "static_ok c"
  shows "has_model (fetch c sha fe rd now d m)"
proof -
  have "\<not> mg_rpc m" using assms(1,2) by (simp add: agent_ok_def phase_ok_def)
  then obtain g where g: "home_cfg m = Some g" "named c g (mg_current m)" "map_of (mg_files m) (rg_ModelPath g) \<noteq> None"
    using assms(1,3) home_cfg_named by (fastforce simp: has_model_def split: option.splits)
  have "home_cfg (fetch c sha fe rd now d m) = home_cfg m"
    by (rule fetch_cases [of c sha fe rd now d m]) (auto simp: home_cfg_end_fail intro: home_cfg_frame simp: server_cfg_def)
  then show ?thesis using fetch_keeps [OF assms(4) g(2,3), of sha fe rd now d] g(1) by (simp add: has_model_def)
qed

lemma home_load_start:
  assumes "agent_ok c m" "mg_phase m = Sizing d"
  shows "home_cfg (load_start c now d plan m) = home_cfg m" "mg_files (load_start c now d plan m) = mg_files m"
proof -
  have "\<And>i. mg_runtime m = Some i \<Longrightarrow> i < length (mg_servers m)" using assms by (auto simp: agent_ok_def one_server_def)
  then show "home_cfg (load_start c now d plan m) = home_cfg m"
    by (intro home_cfg_frame) (auto simp: load_start_def Let_def server_cfg_def nth_append)
  show "mg_files (load_start c now d plan m) = mg_files m" by (simp add: load_start_def Let_def)
qed

lemma has_model_size_and_load:
  assumes "agent_ok c m" "mg_phase m = Sizing d" "has_model m"
  shows "has_model (size_and_load c rd now d m)"
proof (rule size_and_load_cases [of c rd now d m])
  fix err assume "size_and_load c rd now d m = end_switch (fail c rd now d err m)"
  then show ?thesis using has_model_frame [OF assms(3) home_cfg_end_fail] by simp
next
  let ?m = "m\<lparr>mg_lastApplied := Some d, mg_lastErr := '''', mg_residentBytes := dr_ResidentBytes d\<rparr>"
  assume e: "size_and_load c rd now d m = end_switch (resetBackoff ?m)"
  show ?thesis unfolding e
    by (rule has_model_frame [OF assms(3)]) (auto intro: home_cfg_frame simp: end_switch_def resetBackoff_def server_cfg_def)
next
  fix plan :: sizing_plan and f
  let ?m = "setSubState ''loading'' (m\<lparr>mg_ramBytes := sp_RAMEstimateBytes plan\<rparr>)"
  assume e: "size_and_load c rd now d m = load_start c now d plan ?m"
  have ok: "agent_ok c ?m" by (rule agent_ok_frame [OF assms(1)]) (simp_all add: setSubState_def)
  have h: "has_model ?m"
    by (rule has_model_frame [OF assms(3)]) (auto intro: home_cfg_frame simp: setSubState_def server_cfg_def)
  show ?thesis unfolding e
    by (rule has_model_frame [OF h home_load_start]) (use ok assms(2) in \<open>simp_all add: setSubState_def\<close>)
qed

lemma touch_exists: "map_of (touch p now fs) q \<noteq> None \<longleftrightarrow> map_of fs q \<noteq> None"
  by (auto simp: touch_def update_conv split: option.splits)

lemma home_fallback:
  assumes "\<not> mg_rpc m" "prev = Some j" "map_of (mg_files m) (rg_ModelPath (server_cfg m j)) \<noteq> None"
  shows "home_cfg (fallback prev cur res m) = Some (server_cfg m j)"
  using assms by (auto simp: fallback_def Let_def home_cfg_def server_cfg_def next_server_def nth_append)

lemma has_model_load_end:
  assumes "agent_ok c m" "mg_phase m = Loading d plan i prev cur res deadline" "has_model m"
  shows "has_model (load_end c rd now err d i prev cur res m)"
proof -
  have ok: "\<not> mg_rpc m" "prev = mg_runtime m" "rg_ModelPath (server_cfg m i) = model_dest c (dr_ModelID d)"
    "map_of (mg_files m) (model_dest c (dr_ModelID d)) \<noteq> None"
    using assms(1,2) by (simp_all add: agent_ok_def phase_ok_def)
  obtain j where j: "prev = Some j" "map_of (mg_files m) (rg_ModelPath (server_cfg m j)) \<noteq> None"
    using assms(3) ok(1,2) by (cases "mg_runtime m") (auto simp: has_model_def home_cfg_def)
  show ?thesis
  proof (cases err)
    case None
    then show ?thesis
      using ok touch_exists by (simp add: load_end_def has_model_def home_cfg_def end_switch_def server_cfg_def)
  next
    case (Some e)
    have "home_cfg (fallback prev cur res (stop_server (Some i) m)) = Some (server_cfg (stop_server (Some i) m) j)"
      by (rule home_fallback) (use ok(1) j in \<open>simp_all add: server_cfg_def\<close>)
    then show ?thesis
      using j(2) by (simp add: load_end_def Some has_model_def home_cfg_end_fail server_cfg_def)
  qed
qed

lemma has_model_step:
  assumes "agent_step c sha m m'" "agent_ok c m" "static_ok c" "has_model m"
  shows "has_model m'"
  using assms
proof (induction rule: agent_step.induct)
  case (answer d m)
  then show ?case
    by (intro has_model_frame [OF answer(4)] home_cfg_frame) (auto simp: SetDesired_def server_cfg_def split: option.split)
next
  case (beat m probe rd)
  then show ?case
    by (intro has_model_frame [OF beat(3)] home_cfg_frame)
      (auto simp: Status_state server_cfg_def runtime_Status_cfg nth_update_same [of ru_cfg "\<lambda>r. snd (runtime_Status probe fs r)" for fs] split: option.split)
next
  case (receive m msg cache_ok rd now)
  have "agent_ok c (m\<lparr>mg_desiredCh := None\<rparr>)" by (rule agent_ok_frame [OF receive(3)]) simp_all
  moreover have "has_model (m\<lparr>mg_desiredCh := None\<rparr>)"
    by (rule has_model_frame [OF receive(5)]) (auto intro: home_cfg_frame simp: server_cfg_def)
  ultimately show ?case by (intro has_model_reconcile_start) (simp_all add: receive(1))
next
  case (check m d readable)
  then show ?case
    by (intro has_model_frame [OF check(4)] home_cfg_frame)
      (auto simp: check_cached_def setSubState_def Let_def server_cfg_def split: prod.split)
next
  case (progress m d p)
  then show ?case by (intro has_model_frame [OF progress(4)] home_cfg_frame) (auto simp: setProgress_def server_cfg_def)
next
  case (server i m e)
  then show ?case
    by (intro has_model_frame [OF server(5)] home_cfg_frame)
      (auto simp: server_cfg_def server_step_cfg nth_update_same [of ru_cfg "server_step e"])
qed (simp_all add: has_model_fetch has_model_size_and_load has_model_load_end)

lemma steps_keep_model:
  assumes "(agent_step c sha)\<^sup>*\<^sup>* m m'" "agent_reachable c sha m" "static_ok c" "has_model m"
  shows "agent_reachable c sha m' \<and> has_model m'"
  using assms by (induction rule: rtranclp_induct) (auto intro: agent_reachable.step has_model_step agent_reachable_ok)

text \<open>
  C16. The manager of a phone keeps its state consistent in every reachable state, whatever the order of
  heartbeats, switches, Big Brain calls and crashes: a server goroutine runs exactly if it is the active
  one (the runtime, or the server being loaded), so two servers never compete for the port, which is the
  configured one; the manager is in Big Brain mode exactly if its runtime is a \<open>ggml-rpc-server\<close>, and
  then there is no switch; a switch is under way exactly while the goroutine of \<open>Run\<close> is in one; and
  after a failure the wait lies between half a minute and ten minutes.
\<close>

theorem agent_invariant:
  assumes "static_ok c" "agent_reachable c sha m"
  shows "(\<forall>i < length (mg_servers m). (ru_running (mg_servers m ! i) \<longleftrightarrow> active m = Some i) \<and>
      rg_Port (server_cfg m i) = mc_Port c) \<and>
    (mg_rpc m \<longleftrightarrow> (\<exists>i. mg_runtime m = Some i \<and> rg_RPC (server_cfg m i))) \<and>
    (mg_switching m \<longleftrightarrow> mg_phase m \<noteq> Waiting) \<and> (mg_rpc m \<longrightarrow> \<not> mg_switching m \<and> mg_current m = '''') \<and>
    (mg_lastFailed m \<noteq> None \<longrightarrow> minBackoff \<le> mg_backoff m \<and> mg_backoff m \<le> maxBackoff)"
proof -
  have ok: "one_server m" "ports_ok c m" "mode_ok c m" "phase_ok c m" "backoff_ok m"
    using agent_reachable_ok [OF assms(2,1)] by (simp_all add: agent_ok_def)
  have one: "\<forall>i < length (mg_servers m). (ru_running (mg_servers m ! i) \<longleftrightarrow> active m = Some i) \<and> rg_Port (server_cfg m i) = mc_Port c"
    using ok(1,2) by (auto simp: one_server_def ports_ok_def cfg_ok_def server_cfg_def all_set_conv_all_nth)
  have rpc: "mg_rpc m \<longleftrightarrow> (\<exists>i. mg_runtime m = Some i \<and> rg_RPC (server_cfg m i))"
    using ok(3) by (auto simp: mode_ok_def named_def split: if_splits)
  have sw: "mg_switching m \<longleftrightarrow> mg_phase m \<noteq> Waiting" "mg_switching m \<longrightarrow> \<not> mg_rpc m"
    using ok(4) by (simp_all add: phase_ok_def)
  have cur: "mg_rpc m \<longrightarrow> mg_current m = ''''" using ok(3) by (simp add: mode_ok_def)
  have bk: "mg_lastFailed m \<noteq> None \<longrightarrow> minBackoff \<le> mg_backoff m \<and> mg_backoff m \<le> maxBackoff"
    using ok(5) by (simp add: backoff_ok_def)
  show ?thesis using one rpc sw cur bk by blast
qed

text \<open>
  C6. A phone that serves keeps serving: from a reachable state whose model is on disk (the model of the
  runtime, or in Big Brain mode the one it left), after any further steps - failed downloads, evictions
  for lack of space, models that do not fit or never become healthy, calls into and out of Big Brain
  mode, crashed servers - there is again such a model on disk, and the goroutine of a server runs.
\<close>

theorem node_keeps_serving:
  assumes "static_ok c" "agent_reachable c sha m" "has_model m" "(agent_step c sha)\<^sup>*\<^sup>* m m'"
  shows "has_model m' \<and> (\<exists>i. active m' = Some i \<and> i < length (mg_servers m') \<and> ru_running (mg_servers m' ! i))"
proof -
  have m': "agent_reachable c sha m'" "has_model m'" using steps_keep_model [OF assms(4,2,1,3)] by blast+
  have ok: "one_server m'" "mode_ok c m'" using agent_reachable_ok [OF m'(1) assms(1)] by (simp_all add: agent_ok_def)
  have "mg_runtime m' \<noteq> None"
    using m'(2) ok(2) by (cases "mg_rpc m'"; cases "mg_runtime m'") (simp_all add: has_model_def home_cfg_def mode_ok_def)
  then obtain i where "active m' = Some i" by (cases "mg_phase m'") (auto simp: active_def)
  then show ?thesis using m'(2) ok(1) by (auto simp: one_server_def)
qed

text \<open>A phone started with one model, asked for another one.\<close>

definition sample_agent :: manager_config where
  "sample_agent = \<lparr>mc_ServerBin = ''llama-server'', mc_Port = 8080, mc_AdvertisePort = 9001, mc_Threads = 4, mc_Variant = '''',
     mc_ModelsDir = ''m'', mc_ControllerURL = ''http://c'', mc_MemReserveMB = 300, mc_StaticModelPath = ''m/a.gguf'',
     mc_StaticCtxSize = 4096, mc_RPCServerBin = '''', mc_RPCThreads = 4, mc_RPCCacheDir = ''r''\<rparr>"

definition sample_desired :: desired_runtime where
  "sample_desired = \<lparr>dr_ModelID = ''b'', dr_URL = ''/v1/model-files/b'', dr_SHA256 = ''00'', dr_SizeBytes = 4, dr_ResidentBytes = 0,
     dr_CtxSize = 0, dr_Slots = 1, dr_KVType = '''', dr_Layers = 1, dr_KVHeads = 1, dr_HeadDim = 1, dr_Mode = ''''\<rparr>"

definition sample_started :: manager where
  "sample_started = start_Run sample_agent (NewManager sample_cache None)"

lemma sample_static_ok: "static_ok sample_agent"
  by code_simp

lemma sample_started_reachable: "agent_reachable sample_agent sha sample_started"
  unfolding sample_started_def by (rule agent_reachable.init)

lemma sample_asked_reachable: "agent_reachable sample_agent sha (SetDesired (Some sample_desired) sample_started)"
  by (rule agent_reachable.step [OF sample_started_reachable agent_step.answer]) (simp add: sample_desired_def)

lemma agent_invariant_witness:
  "rg_Port (server_cfg (SetDesired (Some sample_desired) sample_started) 0) = 8080 \<and>
   ru_running (mg_servers (SetDesired (Some sample_desired) sample_started) ! 0)"
proof -
  have "length (mg_servers (SetDesired (Some sample_desired) sample_started)) = 1"
    "active (SetDesired (Some sample_desired) sample_started) = Some 0"
    by (simp_all add: sample_started_def start_Run_def sample_agent_def startStatic_def NewManager_def SetDesired_def
        active_def next_server_def)
  then show ?thesis
    using agent_invariant [OF sample_static_ok sample_asked_reachable [of id]] by (simp add: sample_agent_def)
qed

lemma node_keeps_serving_witness:
  "has_model (SetDesired (Some sample_desired) sample_started) \<and>
   (\<exists>i. active (SetDesired (Some sample_desired) sample_started) = Some i)"
proof -
  have h: "has_model sample_started" by code_simp
  have s: "(agent_step sample_agent id)\<^sup>*\<^sup>* sample_started (SetDesired (Some sample_desired) sample_started)"
    by (rule r_into_rtranclp, rule agent_step.answer) (simp add: sample_desired_def)
  show ?thesis using node_keeps_serving [OF sample_static_ok sample_started_reachable h s] by blast
qed

subsection \<open>An error that stays\<close>

text \<open>
  After a failed switch the previous model runs and \<open>lastApplied\<close> still names it.  When the controller asks
  for that model again, \<open>reconcile\<close> returns before it clears the error, and the node reports the state
  \<open>error\<close> while it serves what is wanted.
\<close>

lemma failed_switch_leaves_error:
  assumes "m' = load_end c rd now (Some e) d i prev cur res m" "\<not> mg_rpc m" "mg_lastApplied m = Some a" "dr_Mode a \<noteq> ModeRPC"
  shows "mg_lastErr m' \<noteq> ''''" "reconcile_start c cache_ok rd' now' (Want a) m' = m'" "rt_State (fst (Status c probe rd'' m')) = ''error''"
proof -
  show e: "mg_lastErr m' \<noteq> ''''" by (simp add: assms(1) load_end_def end_switch_def fail_def Let_def)
  have r: "\<not> mg_rpc m'" "mg_lastApplied m' = Some a"
    using assms(2,3) by (simp_all add: assms(1) load_end_def end_switch_def fail_def Let_def)
  then show "reconcile_start c cache_ok rd' now' (Want a) m' = m'"
    using assms(4) by (simp add: reconcile_start_def leaveRPC_def)
  show "rt_State (fst (Status c probe rd'' m')) = ''error''"
    using e r(1) by (cases "mg_runtime m'") (simp_all add: Status_def Let_def case_prod_beta)
qed

text \<open>A node without \<open>ggml-rpc-server\<close> that was asked to join a pool keeps its error when the request ends.\<close>

lemma refused_rpc_leaves_error:
  assumes "mc_RPCServerBin c = ''''" "\<not> mg_rpc m" "m' = enterRPC c cache_ok d m"
  shows "mg_lastErr m' \<noteq> ''''" "SetDesired None m' = m'"
  using assms by (simp_all add: enterRPC_def SetDesired_def)

end
