(* ===== verification/AdminTokens.thy ===== *)
theory AdminTokens
  imports Registry Auth
begin

text \<open>
  The named tokens of the admin API (\<^verbatim>\<open>admin_tokens.go\<close>) and the check before every admin handler
  (\<open>adminAuth\<close> in \<^verbatim>\<open>admin.go\<close>).

  A hash is its lower-case hex digits.  The map of tokens is an association list in its iteration order;
  the zero time is 0.  The random bytes, the clock, the time format and the faults of the disk are
  arguments.
\<close>

subsection \<open>Data\<close>

abbreviation "PrimaryAdminToken \<equiv> ''admin''"

datatype admin_token_error =
    ErrAdminTokenName
  | ErrAdminTokenExists
  | ErrAdminTokenUnknown
  | ErrAdminTokenPrimary
  | ErrRandom
  | ErrStore
  | ErrTokenLine nat
  | ErrTokenScan

record named_admin_token =
  nt_Hash :: string
  nt_Created :: go_time

type_synonym named_tokens = "(string \<times> named_admin_token) list"

record admin_tokens =
  at_path :: string
  at_primary :: string
  at_named :: named_tokens

record admin_token =
  ak_Name :: string
  ak_Created :: go_time
  ak_Primary :: bool

record created_admin_token =
  ct_Name :: string
  ct_Token :: string
  ct_Created :: go_time
  ct_Persisted :: bool

subsection \<open>The file of tokens\<close>

definition safeField :: "string list \<Rightarrow> nat \<Rightarrow> string" where
  "safeField f i = (if i < length f then f ! i else '''')"

text \<open>One line that is neither blank nor a comment.\<close>

definition parse_token_line :: "(string \<Rightarrow> go_time option) \<Rightarrow> string \<Rightarrow> (string \<times> named_admin_token) option" where
  "parse_token_line ptime line =
     (let f = Prelude.fields line
      in case cut_prefix (safeField f 1) hashPrefix of
           None \<Rightarrow> None
         | Some hexHash \<Rightarrow>
             if length f < 2 \<or> \<not> (length hexHash = 64 \<and> list_all hex_digit hexHash) \<or> \<not> name_re (f ! 0) \<or> f ! 0 = PrimaryAdminToken
             then None
             else Some (f ! 0, \<lparr>nt_Hash = to_lower hexHash,
                    nt_Created = (if length f > 2 then (case ptime (f ! 2) of Some t \<Rightarrow> t | None \<Rightarrow> 0) else 0)\<rparr>))"

fun load_token_lines :: "(string \<Rightarrow> go_time option) \<Rightarrow> nat \<Rightarrow> string list \<Rightarrow> named_tokens \<Rightarrow> admin_token_error + named_tokens" where
  "load_token_lines ptime n [] out = Inr out"
| "load_token_lines ptime n (l # ls) out =
     (if length l > 65535 then Inl ErrTokenScan
      else
        (let line = trim_space (drop_cr l)
         in if line = '''' \<or> has_prefix line ''#'' then load_token_lines ptime (n + 1) ls out
            else case parse_token_line ptime line of
                   None \<Rightarrow> Inl (ErrTokenLine n)
                 | Some (name, t) \<Rightarrow> load_token_lines ptime (n + 1) ls (AList.update name t out)))"

definition LoadAdminTokens :: "(string \<Rightarrow> go_time option) \<Rightarrow> file_system \<Rightarrow> string \<Rightarrow> admin_token_error + named_tokens" where
  "LoadAdminTokens ptime fs path =
     (if path = '''' then Inr []
      else case fs path of None \<Rightarrow> Inr [] | Some content \<Rightarrow> load_token_lines ptime 1 (split_lines [] content) [])"

definition newAdminTokens :: "(string \<Rightarrow> string) \<Rightarrow> string \<Rightarrow> string \<Rightarrow> named_tokens \<Rightarrow> admin_tokens" where
  "newAdminTokens sha path token named = \<lparr>at_path = path, at_primary = sha token, at_named = named\<rparr>"

definition tokens_header :: string where
  "tokens_header = ''# PhoneBorg named admin tokens (ADR-026): <name> sha256:<hex> <created>. Managed by the controller.''"

definition token_line :: "(go_time \<Rightarrow> string) \<Rightarrow> string \<times> named_admin_token \<Rightarrow> string" where
  "token_line ftime e = fst e @ '' '' @ hashPrefix @ nt_Hash (snd e) @ '' '' @ ftime (nt_Created (snd e))"

definition render_tokens :: "(go_time \<Rightarrow> string) \<Rightarrow> named_tokens \<Rightarrow> string" where
  "render_tokens ftime named =
     concat (map (\<lambda>l. l @ [CHR 0x0A]) (tokens_header # map (token_line ftime) (sort_key fst named)))"

text \<open>\<open>saveLocked\<close>; a directory that cannot be made is a fault before the first step of the write.\<close>

definition save_tokens ::
  "(go_time \<Rightarrow> string) \<Rightarrow> nat \<Rightarrow> string \<Rightarrow> admin_tokens \<Rightarrow> file_system \<Rightarrow> file_system \<times> bool" where
  "save_tokens ftime fault tmp t fs =
     (if at_path t = '''' then (fs, True)
      else WriteFileAtomic fault tmp (at_path t) (render_tokens ftime (at_named t)) fs)"

subsection \<open>Operations\<close>

definition match_token :: "(string \<Rightarrow> string) \<Rightarrow> admin_tokens \<Rightarrow> string \<Rightarrow> string option" where
  "match_token sha t tok0 =
     (let tok = trim_space tok0
      in if tok = '''' then None
         else
           (let h = sha tok;
                name = foldl (\<lambda>name e. if nt_Hash (snd e) = h then fst e else name)
                         (if h = at_primary t then PrimaryAdminToken else '''') (at_named t)
            in if name \<noteq> '''' then Some name else None))"

definition list_tokens :: "admin_tokens \<Rightarrow> bool \<times> admin_token list" where
  "list_tokens t = (at_path t \<noteq> '''', \<lparr>ak_Name = PrimaryAdminToken, ak_Created = 0, ak_Primary = True\<rparr> #
     sort_key ak_Name (map (\<lambda>e. \<lparr>ak_Name = fst e, ak_Created = nt_Created (snd e), ak_Primary = False\<rparr>) (at_named t)))"

definition hex_char :: "nat \<Rightarrow> char" where
  "hex_char k = (if k < 10 then char_of (48 + k) else char_of (87 + k))"

definition hex_encode :: "nat list \<Rightarrow> string" where
  "hex_encode bs = concat (map (\<lambda>b. [hex_char (b div 16 mod 16), hex_char (b mod 16)]) bs)"

text \<open>The table with a new token, and without one.\<close>

definition added :: "(string \<Rightarrow> string) \<Rightarrow> string \<Rightarrow> nat list \<Rightarrow> go_time \<Rightarrow> admin_tokens \<Rightarrow> admin_tokens" where
  "added sha name b now t = t\<lparr>at_named := AList.update name \<lparr>nt_Hash = sha (hex_encode b), nt_Created = now - now mod 1000000000\<rparr> (at_named t)\<rparr>"

definition removed :: "string \<Rightarrow> admin_tokens \<Rightarrow> admin_tokens" where
  "removed name t = t\<lparr>at_named := AList.delete name (at_named t)\<rparr>"

definition create_token ::
  "(string \<Rightarrow> string) \<Rightarrow> (go_time \<Rightarrow> string) \<Rightarrow> nat \<Rightarrow> string \<Rightarrow> nat list option \<Rightarrow> go_time \<Rightarrow> string \<Rightarrow>
   admin_tokens \<times> file_system \<Rightarrow> (admin_token_error + created_admin_token) \<times> (admin_tokens \<times> file_system)" where
  "create_token sha ftime fault tmp rnd now name st =
     (let (t, fs) = st in
      if \<not> name_re name then (Inl ErrAdminTokenName, st)
      else if name = PrimaryAdminToken then (Inl ErrAdminTokenExists, st)
      else case rnd of
             None \<Rightarrow> (Inl ErrRandom, st)
           | Some b \<Rightarrow>
               if map_of (at_named t) name \<noteq> None then (Inl ErrAdminTokenExists, st)
               else
                 (let t1 = added sha name b now t; (fs', ok) = save_tokens ftime fault tmp t1 fs
                  in if \<not> ok then (Inl ErrStore, (removed name t1, fs'))
                     else (Inr \<lparr>ct_Name = name, ct_Token = hex_encode b, ct_Created = now - now mod 1000000000,
                             ct_Persisted = at_path t \<noteq> ''''\<rparr>, (t1, fs'))))"

definition revoke_token ::
  "(go_time \<Rightarrow> string) \<Rightarrow> nat \<Rightarrow> string \<Rightarrow> string \<Rightarrow> admin_tokens \<times> file_system \<Rightarrow>
   admin_token_error option \<times> (admin_tokens \<times> file_system)" where
  "revoke_token ftime fault tmp name st =
     (let (t, fs) = st in
      if name = PrimaryAdminToken then (Some ErrAdminTokenPrimary, st)
      else case map_of (at_named t) name of
             None \<Rightarrow> (Some ErrAdminTokenUnknown, st)
           | Some old \<Rightarrow>
               (let t1 = removed name t;
                    (fs', ok) = save_tokens ftime fault tmp t1 fs
                in if \<not> ok then (Some ErrStore, (t1\<lparr>at_named := AList.update name old (at_named t1)\<rparr>, fs'))
                   else (None, (t1, fs'))))"

subsection \<open>The check before a handler\<close>

text \<open>
  \<open>adminAuth\<close>: the handler gets the name of the token and answers with a status; the action is counted
  with its result.
\<close>

definition admin_bearer :: "string \<Rightarrow> string" where
  "admin_bearer header = (case cut_prefix header ''Bearer '' of Some tok \<Rightarrow> tok | None \<Rightarrow> header)"

definition adminAuth ::
  "(string \<Rightarrow> string) \<Rightarrow> admin_tokens \<Rightarrow> string \<Rightarrow> string \<Rightarrow> (string \<Rightarrow> 's \<Rightarrow> int \<times> 's) \<Rightarrow> 's \<times> (string \<times> string) list \<Rightarrow>
   int \<times> ('s \<times> (string \<times> string) list)" where
  "adminAuth sha t action header handler st =
     (let (s, counted) = st in
      case match_token sha t (admin_bearer header) of
        None \<Rightarrow> (401, (s, counted @ [(action, ''unauthorized'')]))
      | Some name \<Rightarrow>
          (let (code, s) = handler name s
           in (code, (s, counted @ [(action, if code \<ge> 400 then ''error'' else ''ok'')]))))"

text \<open>The status of the two handlers that change the tokens.\<close>

definition adminCreateToken_status :: "admin_token_error + created_admin_token \<Rightarrow> int" where
  "adminCreateToken_status r = (case r of
     Inl ErrAdminTokenName \<Rightarrow> 400 | Inl ErrAdminTokenExists \<Rightarrow> 409 | Inl _ \<Rightarrow> 500 | Inr _ \<Rightarrow> 201)"

definition adminRevokeToken_status :: "admin_token_error option \<Rightarrow> int" where
  "adminRevokeToken_status r = (case r of
     Some ErrAdminTokenPrimary \<Rightarrow> 400 | Some ErrAdminTokenUnknown \<Rightarrow> 404 | Some _ \<Rightarrow> 500 | None \<Rightarrow> 204)"

subsection \<open>The file and back\<close>

definition token_wf :: "(go_time \<Rightarrow> string) \<Rightarrow> (string \<Rightarrow> go_time option) \<Rightarrow> string \<times> named_admin_token \<Rightarrow> bool" where
  "token_wf ftime ptime e \<longleftrightarrow> name_re (fst e) \<and> fst e \<noteq> PrimaryAdminToken \<and> length (nt_Hash (snd e)) = 64 \<and>
     list_all lower_hex (nt_Hash (snd e)) \<and> word_ok (ftime (nt_Created (snd e))) \<and>
     ptime (ftime (nt_Created (snd e))) = Some (nt_Created (snd e)) \<and> length (token_line ftime e) \<le> 65535"

lemma name_re_word:
  assumes "name_re s"
  shows "word_ok s" "hd s \<noteq> CHR ''#''"
proof -
  have c: "\<not> is_space c \<and> c \<noteq> CHR ''#''" if "lower_or_digit c \<or> c = CHR ''-''" for c
    using that by (auto simp: lower_or_digit_def is_space_def less_eq_char_def)
  have s: "s \<noteq> []" "lower_or_digit (hd s)" "\<forall>c \<in> set (tl s). lower_or_digit c \<or> c = CHR ''-''"
    using assms by (auto simp: name_re_def list_all_iff)
  show "hd s \<noteq> CHR ''#''" using c s(2) by blast
  show "word_ok s" unfolding word_ok_def list_all_iff using s c by (cases s) auto
qed

lemma parse_token:
  assumes "token_wf ftime ptime e"
  shows "trim_space (drop_cr (token_line ftime e)) = token_line ftime e" "\<not> has_prefix (token_line ftime e) ''#''"
    "token_line ftime e \<noteq> ''''" "parse_token_line ptime (token_line ftime e) = Some e"
proof -
  let ?l = "token_line ftime e" and ?h = "hashPrefix @ nt_Hash (snd e)" and ?t = "ftime (nt_Created (snd e))"
  have n: "word_ok (fst e)" "hd (fst e) \<noteq> CHR ''#''" using name_re_word assms by (auto simp: token_wf_def)
  have h: "list_all lower_hex (nt_Hash (snd e))" "length (nt_Hash (snd e)) = 64" and t: "word_ok ?t" "ptime ?t = Some (nt_Created (snd e))"
    using assms by (auto simp: token_wf_def)
  have wh: "word_ok ?h" by (rule word_ok_hash [OF h(1)])
  have hd: "hd ?l = hd (fst e)" "?l \<noteq> ''''" using n(1) by (auto simp: token_line_def word_ok_def)
  then show "?l \<noteq> ''''" by simp
  have last: "\<not> is_space (last ?l)" using word_ok_ends [OF t(1)] t(1) by (simp add: token_line_def word_ok_def)
  have "drop_cr ?l = ?l" using last by (auto simp: drop_cr_def is_space_def)
  then show "trim_space (drop_cr ?l) = ?l" using hd last word_ok_ends [OF n(1)] by (simp add: trim_space_id)
  show "\<not> has_prefix ?l ''#''" using hd n(2) by (cases ?l) (auto simp: has_prefix_def)
  have f: "Prelude.fields ?l = [fst e, ?h, ?t]"
    using fields_words(1) [OF n(1), of "?h @ CHR '' '' # ?t"] fields_words(1) [OF wh, of ?t] fields_words(2) [OF t(1)]
    by (simp add: token_line_def)
  have hex: "list_all hex_digit (nt_Hash (snd e))" "to_lower (nt_Hash (snd e)) = nt_Hash (snd e)"
    using h(1) lower_hex_facts by (auto simp: list_all_iff to_lower_def intro: map_idI)
  have cut: "cut_prefix ?h hashPrefix = Some (nt_Hash (snd e))" by (rule cut_prefix_append)
  have surj: "(fst e, \<lparr>nt_Hash = nt_Hash (snd e), nt_Created = nt_Created (snd e)\<rparr>) = e" by (cases e) simp
  have "safeField [fst e, ?h, ?t] 1 = ?h" by (simp add: safeField_def)
  then show "parse_token_line ptime ?l = Some e"
    using assms cut hex h(2) t(2) surj unfolding parse_token_line_def f Let_def by (simp add: token_wf_def)
qed

lemma alist_update_new: "k \<notin> fst ` set xs \<Longrightarrow> AList.update k v xs = xs @ [(k, v)]"
  by (induction xs) auto

lemma load_tokens:
  assumes "\<forall>e \<in> set es. token_wf ftime ptime e" "distinct (map fst (out @ es))"
  shows "load_token_lines ptime n (map (token_line ftime) es) out = Inr (out @ es)"
  using assms
proof (induction es arbitrary: n out)
  case (Cons e es)
  obtain name t where e: "e = (name, t)" by fastforce
  have wf: "token_wf ftime ptime e" using Cons.prems(1) by simp
  then have len: "length (token_line ftime e) \<le> 65535" by (simp add: token_wf_def)
  have "name \<notin> fst ` set out" using Cons.prems(2) by (auto simp: e)
  then have u: "AList.update name t out = out @ [(name, t)]" by (rule alist_update_new)
  have "load_token_lines ptime (n + 1) (map (token_line ftime) es) (out @ [e]) = Inr ((out @ [e]) @ es)"
    using Cons.prems by (intro Cons.IH) auto
  then show ?case using parse_token [OF wf] len by (simp add: Let_def e u)
qed simp

lemma token_no_newline: "token_wf ftime ptime e \<Longrightarrow> CHR 0x0A \<notin> set (token_line ftime e)"
proof -
  assume a: "token_wf ftime ptime e"
  have w: "word_ok w \<Longrightarrow> CHR 0x0A \<notin> set w" for w by (auto simp: word_ok_def list_all_iff is_space_def)
  show ?thesis
    using w [OF name_re_word(1)] w [OF word_ok_hash] w a unfolding token_wf_def token_line_def by auto
qed

lemma load_header: "load_token_lines ptime n (tokens_header # ls) out = load_token_lines ptime (n + 1) ls out"
proof -
  have "trim_space (drop_cr tokens_header) = tokens_header" "has_prefix tokens_header ''#''" "length tokens_header \<le> 65535"
    by (simp_all add: tokens_header_def drop_cr_def trim_space_def is_space_def has_prefix_def)
  then show ?thesis by (simp add: Let_def)
qed

text \<open>
  The tokens survive a restart: if the file is written, reading it gives the same names, hashes and
  times; if a step of the write fails, the file is as before; no other file changes.
\<close>

theorem admin_tokens_roundtrip:
  assumes "save_tokens ftime fault tmp t fs = (fs', ok)" "at_path t \<noteq> ''''" "fs tmp = None" "tmp \<noteq> at_path t"
    "\<forall>e \<in> set (at_named t). token_wf ftime ptime e" "distinct (map fst (at_named t))"
  shows "(if ok then (\<exists>named. LoadAdminTokens ptime fs' (at_path t) = Inr named \<and> map_of named = map_of (at_named t))
      else fs' (at_path t) = fs (at_path t)) \<and> (\<forall>p. p \<noteq> at_path t \<longrightarrow> fs' p = fs p)"
proof -
  let ?es = "sort_key fst (at_named t)"
  have w: "WriteFileAtomic fault tmp (at_path t) (render_tokens ftime (at_named t)) fs = (fs', ok)"
    using assms(1,2) by (simp add: save_tokens_def)
  note spec = WriteFileAtomic_spec [OF w assms(3,4)]
  have "CHR 0x0A \<notin> set tokens_header" by (simp add: tokens_header_def)
  then have "\<forall>l \<in> set (tokens_header # map (token_line ftime) ?es). CHR 0x0A \<notin> set l"
    using token_no_newline assms(5) by auto
  from split_lines_concat [OF this]
  have lines: "split_lines [] (render_tokens ftime (at_named t)) = tokens_header # map (token_line ftime) ?es"
    by (simp only: render_tokens_def)
  have d: "distinct (map fst ?es)" using assms(6) by (simp add: distinct_map inj_on_def)
  have "load_token_lines ptime 2 (map (token_line ftime) ?es) [] = Inr ([] @ ?es)"
    by (rule load_tokens) (use assms(5) d in simp_all)
  then have "LoadAdminTokens ptime fs' (at_path t) = Inr ?es" if ok
    using spec that assms(2)
    by (simp add: LoadAdminTokens_def lines load_header numeral_2_eq_2 del: load_token_lines.simps)
  moreover have "map_of ?es = map_of (at_named t)"
    by (rule map_of_inject_set [THEN iffD2]) (use d assms(6) in simp_all)
  ultimately show ?thesis using spec by auto
qed

subsection \<open>The life of a token\<close>

text \<open>The histories of a token table: created empty or from a file, then changed by the two operations.\<close>

inductive tokens_reach :: "(string \<Rightarrow> string) \<Rightarrow> (go_time \<Rightarrow> string) \<Rightarrow> (string \<Rightarrow> go_time option) \<Rightarrow> admin_tokens \<times> file_system \<Rightarrow> bool"
  for sha ftime ptime where
  start: "LoadAdminTokens ptime fs path = Inr named \<Longrightarrow> tokens_reach sha ftime ptime (newAdminTokens sha path token named, fs)"
| create: "tokens_reach sha ftime ptime st \<Longrightarrow> create_token sha ftime fault tmp rnd now name st = (r, st') \<Longrightarrow> tokens_reach sha ftime ptime st'"
| revoke: "tokens_reach sha ftime ptime st \<Longrightarrow> revoke_token ftime fault tmp name st = (e, st') \<Longrightarrow> tokens_reach sha ftime ptime st'"

definition tokens_ok :: "admin_tokens \<Rightarrow> bool" where
  "tokens_ok t \<longleftrightarrow> distinct (map fst (at_named t)) \<and> (\<forall>n \<in> fst ` set (at_named t). name_re n \<and> n \<noteq> PrimaryAdminToken)"

lemma load_token_lines_ok:
  "load_token_lines ptime n ls out = Inr named \<Longrightarrow> distinct (map fst out) \<Longrightarrow>
   (\<forall>n \<in> fst ` set out. name_re n \<and> n \<noteq> PrimaryAdminToken) \<Longrightarrow>
   distinct (map fst named) \<and> (\<forall>n \<in> fst ` set named. name_re n \<and> n \<noteq> PrimaryAdminToken)"
proof (induction ls arbitrary: n out)
  case (Cons l ls)
  show ?case
  proof (cases "trim_space (drop_cr l) = '''' \<or> has_prefix (trim_space (drop_cr l)) ''#''")
    case True
    then have "load_token_lines ptime (n + 1) ls out = Inr named" using Cons.prems(1) by (auto simp: Let_def split: if_splits)
    then show ?thesis using Cons.IH Cons.prems(2,3) by blast
  next
    case False
    then obtain name t where p: "parse_token_line ptime (trim_space (drop_cr l)) = Some (name, t)"
      "load_token_lines ptime (n + 1) ls (AList.update name t out) = Inr named"
      using Cons.prems(1) by (auto simp: Let_def split: if_splits option.splits)
    then have "name_re name \<and> name \<noteq> PrimaryAdminToken"
      by (auto simp: parse_token_line_def Let_def split: if_splits option.splits)
    then have "\<forall>n \<in> fst ` set (AList.update name t out). name_re n \<and> n \<noteq> PrimaryAdminToken"
      using Cons.prems(3) by (simp add: dom_update)
    then show ?thesis using Cons.IH [OF p(2) distinct_update [OF Cons.prems(2)]] by blast
  qed
qed simp

lemma tokens_ok_subset:
  assumes "tokens_ok t" "distinct (map fst (at_named t'))" "fst ` set (at_named t') \<subseteq> fst ` set (at_named t)"
  shows "tokens_ok t'"
  using assms unfolding tokens_ok_def by blast

lemma delete_names: "fst ` set (AList.delete name es) = fst ` set es - {name}"
  by (metis delete_keys list.set_map set_removeAll)

lemma tokens_ok_removed: "tokens_ok t \<Longrightarrow> tokens_ok (removed name t)"
  by (rule tokens_ok_subset, assumption) (auto simp: tokens_ok_def removed_def delete_names distinct_delete simp del: set_map)

lemma tokens_ok_added: "tokens_ok t \<Longrightarrow> name_re name \<Longrightarrow> name \<noteq> PrimaryAdminToken \<Longrightarrow> tokens_ok (added sha name b now t)"
  by (simp add: tokens_ok_def added_def dom_update distinct_update)

text \<open>A change of the table is the new token, the removal of one, or no change of its entries at all.\<close>

lemma create_token_result:
  assumes "create_token sha ftime fault tmp rnd now name (t, fs) = (r, (t', fs'))"
  shows "(\<exists>err. r = Inl err) \<and> map_of (at_named t') = map_of (at_named t) \<and> (tokens_ok t \<longrightarrow> tokens_ok t') \<or>
    (\<exists>b. rnd = Some b \<and> name_re name \<and> name \<noteq> PrimaryAdminToken \<and> map_of (at_named t) name = None \<and>
       r = Inr \<lparr>ct_Name = name, ct_Token = hex_encode b, ct_Created = now - now mod 1000000000, ct_Persisted = at_path t \<noteq> ''''\<rparr> \<and>
       t' = added sha name b now t)"
proof (cases "\<not> name_re name \<or> name = PrimaryAdminToken \<or> rnd = None \<or> map_of (at_named t) name \<noteq> None")
  case True
  then have "(\<exists>err. r = Inl err) \<and> t' = t" using assms by (cases rnd) (auto simp: create_token_def split: if_splits)
  then show ?thesis by simp
next
  case False
  then obtain b where b: "rnd = Some b" by auto
  obtain fs1 ok where s: "save_tokens ftime fault tmp (added sha name b now t) fs = (fs1, ok)" by fastforce
  show ?thesis
  proof (cases ok)
    case True
    then show ?thesis using assms False b s by (simp add: create_token_def Let_def)
  next
    case F: False
    then have r: "r = Inl ErrStore" "t' = removed name (added sha name b now t)"
      using assms False b s by (simp_all add: create_token_def Let_def)
    have "map_of (at_named t') = map_of (at_named t)"
      using False by (intro ext) (simp add: r(2) removed_def added_def delete_conv update_conv)
    moreover have "tokens_ok t'" if "tokens_ok t"
      unfolding r(2) using tokens_ok_removed [OF tokens_ok_added [OF that]] False by blast
    ultimately show ?thesis using r by simp
  qed
qed

lemma revoke_token_result:
  assumes "revoke_token ftime fault tmp name (t, fs) = (e, (t', fs'))"
  shows "e \<noteq> None \<and> map_of (at_named t') = map_of (at_named t) \<and> (tokens_ok t \<longrightarrow> tokens_ok t') \<or>
    e = None \<and> name \<noteq> PrimaryAdminToken \<and> map_of (at_named t) name \<noteq> None \<and> t' = removed name t"
proof (cases "name = PrimaryAdminToken \<or> map_of (at_named t) name = None")
  case True
  then have "e \<noteq> None \<and> t' = t"
    using assms by (cases "name = PrimaryAdminToken") (auto simp: revoke_token_def split: option.splits)
  then show ?thesis by simp
next
  case False
  then obtain old where o: "map_of (at_named t) name = Some old" by auto
  obtain fs1 ok where s: "save_tokens ftime fault tmp (removed name t) fs = (fs1, ok)" by fastforce
  show ?thesis
  proof (cases ok)
    case True
    then show ?thesis using assms False o s by (simp add: revoke_token_def Let_def)
  next
    case F: False
    then have r: "e = Some ErrStore" "t' = (removed name t)\<lparr>at_named := AList.update name old (at_named (removed name t))\<rparr>"
      using assms False o s by (simp_all add: revoke_token_def Let_def)
    have "map_of (at_named t') = map_of (at_named t)"
      using o by (intro ext) (simp add: r(2) removed_def delete_conv update_conv)
    moreover have "tokens_ok t'" if "tokens_ok t"
    proof (rule tokens_ok_subset [OF that])
      have "name \<in> fst ` set (at_named t)" using o by (metis map_of_eq_None_iff option.distinct(1))
      then show "fst ` set (at_named t') \<subseteq> fst ` set (at_named t)"
        by (simp add: r(2) removed_def dom_update delete_names del: set_map)
      show "distinct (map fst (at_named t'))"
        using that by (simp add: r(2) tokens_ok_def removed_def distinct_update distinct_delete)
    qed
    ultimately show ?thesis using r by simp
  qed
qed

lemma tokens_reach_ok: "tokens_reach sha ftime ptime st \<Longrightarrow> tokens_ok (fst st)"
proof (induction rule: tokens_reach.induct)
  case (start fs path named token)
  have "distinct (map fst named) \<and> (\<forall>n \<in> fst ` set named. name_re n \<and> n \<noteq> PrimaryAdminToken)"
    using start load_token_lines_ok [of ptime _ _ "[]"] by (fastforce simp: LoadAdminTokens_def split: if_splits option.splits)
  then show ?case by (simp add: tokens_ok_def newAdminTokens_def)
next
  case (create st fault tmp rnd now name r st')
  obtain t fs t' fs' where st: "st = (t, fs)" "st' = (t', fs')" by (cases st, cases st')
  show ?case
    using create_token_result [OF create.hyps(2) [unfolded st]] create.IH tokens_ok_added [of t name sha] unfolding st by fastforce
next
  case (revoke st fault tmp name e st')
  obtain t fs t' fs' where st: "st = (t, fs)" "st' = (t', fs')" by (cases st, cases st')
  show ?case
    using revoke_token_result [OF revoke.hyps(2) [unfolded st]] revoke.IH tokens_ok_removed [of t] unfolding st by auto
qed

text \<open>Which token a name stands for.\<close>

lemma match_fold:
  "foldl (\<lambda>name e. if nt_Hash (snd e) = h then fst e else name) start es =
     (if filter (\<lambda>e. nt_Hash (snd e) = h) es = [] then start else fst (last (filter (\<lambda>e. nt_Hash (snd e) = h) es)))"
  by (induction es rule: rev_induct) auto

lemma match_token_entry:
  assumes "tokens_ok t" "match_token sha t tok = Some n"
  shows "trim_space tok \<noteq> '''' \<and>
    (n = PrimaryAdminToken \<and> sha (trim_space tok) = at_primary t \<or>
     (\<exists>nt. map_of (at_named t) n = Some nt \<and> nt_Hash nt = sha (trim_space tok)))"
proof -
  let ?h = "sha (trim_space tok)" let ?es = "filter (\<lambda>e. nt_Hash (snd e) = ?h) (at_named t)"
  have ne: "trim_space tok \<noteq> ''''" using assms(2) by (auto simp: match_token_def Let_def)
  show ?thesis
  proof (cases ?es)
    case Nil
    then show ?thesis using assms(2) ne by (auto simp: match_token_def Let_def match_fold split: if_splits)
  next
    case (Cons x xs)
    then have n: "n = fst (last ?es)" using assms(2) by (auto simp: match_token_def Let_def match_fold split: if_splits)
    have "last ?es \<in> set ?es" using Cons by (metis last_in_set list.distinct(1))
    then have "(n, snd (last ?es)) \<in> set (at_named t)" "nt_Hash (snd (last ?es)) = ?h" using n by auto
    then show ?thesis using ne assms(1) by (auto simp: tokens_ok_def)
  qed
qed

lemma match_none:
  "match_token sha t tok = None \<longleftrightarrow>
     trim_space tok = '''' \<or>
     (if filter (\<lambda>e. nt_Hash (snd e) = sha (trim_space tok)) (at_named t) = [] then sha (trim_space tok) \<noteq> at_primary t
      else fst (last (filter (\<lambda>e. nt_Hash (snd e) = sha (trim_space tok)) (at_named t))) = '''')"
  by (auto simp: match_token_def Let_def match_fold)

lemma match_some:
  "match_token sha t tok = Some n \<longleftrightarrow>
     trim_space tok \<noteq> '''' \<and> n \<noteq> '''' \<and>
     n = (let es = filter (\<lambda>e. nt_Hash (snd e) = sha (trim_space tok)) (at_named t)
          in if es = [] then if sha (trim_space tok) = at_primary t then PrimaryAdminToken else '''' else fst (last es))"
  by (auto simp: match_token_def Let_def match_fold)

lemma filter_delete:
  "filter P (AList.delete k es) = filter (\<lambda>e. fst e \<noteq> k) (filter P es)"
  by (induction es) auto

lemma last_filter: "xs \<noteq> [] \<Longrightarrow> P (last xs) \<Longrightarrow> filter P xs \<noteq> [] \<and> last (filter P xs) = last xs"
  by (induction xs rule: rev_induct) auto

text \<open>What a revocation takes from the tokens, and what it leaves.\<close>

lemma match_removed_same:
  assumes "match_token sha t tok = Some n" "n \<noteq> name"
  shows "match_token sha (removed name t) tok = Some n"
proof -
  let ?es = "filter (\<lambda>e. nt_Hash (snd e) = sha (trim_space tok)) (at_named t)"
  have m: "trim_space tok \<noteq> ''''" "n \<noteq> ''''"
    "n = (if ?es = [] then if sha (trim_space tok) = at_primary t then PrimaryAdminToken else '''' else fst (last ?es))"
    using assms(1) unfolding match_some Let_def by blast+
  show ?thesis
  proof (cases "?es = []")
    case True
    then show ?thesis using m by (simp add: match_some Let_def removed_def filter_delete)
  next
    case False
    then have "filter (\<lambda>e. fst e \<noteq> name) ?es \<noteq> [] \<and> last (filter (\<lambda>e. fst e \<noteq> name) ?es) = last ?es"
      using last_filter [of ?es "\<lambda>e. fst e \<noteq> name"] m(3) assms(2) by simp
    then show ?thesis using m False unfolding match_some Let_def by (simp add: removed_def filter_delete del: filter_filter)
  qed
qed

lemma match_removed_not:
  assumes "tokens_ok t" "name \<noteq> PrimaryAdminToken"
  shows "match_token sha (removed name t) tok \<noteq> Some name"
proof
  assume m: "match_token sha (removed name t) tok = Some name"
  have "map_of (at_named (removed name t)) name = None" by (simp add: removed_def delete_conv')
  then show False using match_token_entry [OF tokens_ok_removed [OF assms(1)] m] assms(2) by simp
qed

lemma name_re_ne: "name_re n \<Longrightarrow> n \<noteq> ''''"
  by (auto simp: name_re_def)

lemma hex_char_word: "k < 16 \<Longrightarrow> \<not> is_space (hex_char k)"
proof -
  assume k: "k < 16"
  have "\<forall>k \<in> set [0..<16]. \<not> is_space (hex_char k)" by code_simp
  then show ?thesis using k by simp
qed

lemma hex_encode_word: "bs \<noteq> [] \<Longrightarrow> word_ok (hex_encode bs)"
  by (auto simp: hex_encode_def word_ok_def list_all_iff hex_char_word neq_Nil_conv)

lemma trim_token: "bs \<noteq> [] \<Longrightarrow> trim_space (hex_encode bs) = hex_encode bs \<and> hex_encode bs \<noteq> ''''"
  using word_ok_ends [OF hex_encode_word] hex_encode_word [of bs] by (auto simp: word_ok_def intro: trim_space_id)

text \<open>A table in any other order of its entries.\<close>

definition reordered :: "admin_tokens \<Rightarrow> admin_tokens \<Rightarrow> bool" where
  "reordered t t' \<longleftrightarrow> at_path t' = at_path t \<and> at_primary t' = at_primary t \<and> mset (at_named t') = mset (at_named t)"

lemma match_added:
  assumes "reordered (added sha name b now t) t1" "b \<noteq> []" "name_re name" "map_of (at_named t) name = None"
    "\<forall>e \<in> set (at_named t). nt_Hash (snd e) \<noteq> sha (hex_encode b)"
  shows "match_token sha t1 (hex_encode b) = Some name"
proof -
  let ?h = "sha (hex_encode b)" and ?v = "\<lparr>nt_Hash = sha (hex_encode b), nt_Created = now - now mod 1000000000\<rparr>"
  have "name \<notin> fst ` set (at_named t)" using assms(4) by (simp add: map_of_eq_None_iff)
  from alist_update_new [OF this]
  have "mset (at_named t1) = mset (at_named t @ [(name, ?v)])" using assms(1) by (simp add: reordered_def added_def)
  then have "mset (filter (\<lambda>e. nt_Hash (snd e) = ?h) (at_named t1)) = mset (filter (\<lambda>e. nt_Hash (snd e) = ?h) (at_named t @ [(name, ?v)]))"
    by (simp only: mset_filter)
  also have "filter (\<lambda>e. nt_Hash (snd e) = ?h) (at_named t @ [(name, ?v)]) = [(name, ?v)]" using assms(5) by simp
  finally have "filter (\<lambda>e. nt_Hash (snd e) = ?h) (at_named t1) = [(name, ?v)]"    by (cases "filter (\<lambda>e. nt_Hash (snd e) = ?h) (at_named t1)") (auto simp: add_eq_conv_ex)
  then show ?thesis using trim_token [OF assms(2)] name_re_ne [OF assms(3)] by (simp add: match_some Let_def)
qed

lemma token_life_helper:
  assumes "tokens_reach sha ftime ptime (t, fs)" "length b = 32"
    "create_token sha ftime fault tmp (Some b) now name (t, fs) = (Inr c, (t1, fs1))"
    "\<forall>e \<in> set (at_named t). nt_Hash (snd e) \<noteq> sha (ct_Token c)" "reordered t1 t2"
    "tokens_reach sha ftime ptime (t3, fs3)" "revoke_token ftime fault' tmp' name (t3, fs3) = (None, (t4, fs4))"
  shows "match_token sha t2 (ct_Token c) = Some name \<and> name \<noteq> PrimaryAdminToken \<and>
    (\<forall>tok. match_token sha t4 tok \<noteq> Some name) \<and>
    (\<forall>tok n. match_token sha t3 tok = Some n \<longrightarrow> n \<noteq> name \<longrightarrow> match_token sha t4 tok = Some n)"
proof -
  have c: "name_re name" "name \<noteq> PrimaryAdminToken" "map_of (at_named t) name = None" "ct_Token c = hex_encode b" "t1 = added sha name b now t"
    using create_token_result [OF assms(3)] by auto
  have t4: "t4 = removed name t3" using revoke_token_result [OF assms(7)] by simp
  have ok: "tokens_ok t3" using tokens_reach_ok [OF assms(6)] by simp
  have "match_token sha t2 (ct_Token c) = Some name"
    unfolding c(4) by (rule match_added) (use assms(2,4,5) c in auto)
  then show ?thesis using c(2) match_removed_not [OF ok c(2)] match_removed_same t4 by blast
qed

text \<open>
  C15. A created token is admitted under its name, in whatever order the map is walked, if no other entry has
  its hash; the action is counted with the status of the handler.  Once the name is revoked, at any later
  state of the table, no token whatsoever acts under it, every token of another name acts as before, and a
  token that matched only the revoked name gets 401 without a handler running.
\<close>

theorem admin_token_life:
  assumes "tokens_reach sha ftime ptime (t, fs)" "length b = 32"
    "create_token sha ftime fault tmp (Some b) now name (t, fs) = (Inr c, (t1, fs1))"
    "\<forall>e \<in> set (at_named t). nt_Hash (snd e) \<noteq> sha (ct_Token c)" "reordered t1 t2"
    "tokens_reach sha ftime ptime (t3, fs3)" "revoke_token ftime fault' tmp' name (t3, fs3) = (None, (t4, fs4))"
  shows "adminAuth sha t2 action (''Bearer '' @ ct_Token c) handler (s, counted) =
      (fst (handler name s), (snd (handler name s), counted @ [(action, if fst (handler name s) \<ge> 400 then ''error'' else ''ok'')])) \<and>
    (\<forall>tok. match_token sha t4 tok \<noteq> Some name) \<and>
    (\<forall>tok n. match_token sha t3 tok = Some n \<longrightarrow> n \<noteq> name \<longrightarrow> match_token sha t4 tok = Some n) \<and>
    ((\<forall>e \<in> set (at_named t4). nt_Hash (snd e) \<noteq> sha (ct_Token c)) \<longrightarrow> at_primary t4 \<noteq> sha (ct_Token c) \<longrightarrow>
      adminAuth sha t4 action (''Bearer '' @ ct_Token c) handler (s, counted) = (401, (s, counted @ [(action, ''unauthorized'')])))"
proof -
  note life = token_life_helper [OF assms]
  have b: "admin_bearer (''Bearer '' @ ct_Token c) = ct_Token c"
    unfolding admin_bearer_def cut_prefix_append by simp
  have "ct_Token c = hex_encode b" using create_token_result [OF assms(3)] by auto
  moreover have "b \<noteq> []" using assms(2) by auto
  ultimately have "trim_space (ct_Token c) = ct_Token c" using trim_token [of b] by simp
  then have "match_token sha t4 (ct_Token c) = None"
    if "\<forall>e \<in> set (at_named t4). nt_Hash (snd e) \<noteq> sha (ct_Token c)" "at_primary t4 \<noteq> sha (ct_Token c)"
    using that by (auto simp: match_none)
  then show ?thesis using life unfolding adminAuth_def b Let_def by (auto simp: split_beta)
qed

text \<open>Its witness: a stand-in hash, a table in memory, one token created and revoked.\<close>

definition witness_sha :: "string \<Rightarrow> string" where
  "witness_sha s = (if length s = 64 then ''aa'' else ''bb'')"

definition witness_tokens :: admin_tokens where
  "witness_tokens = newAdminTokens witness_sha '''' ''root'' []"

theorem admin_token_life_witness:
  "adminAuth witness_sha (added witness_sha ''ops'' (replicate 32 7) 0 witness_tokens) ''x''
      (''Bearer '' @ hex_encode (replicate 32 7)) (\<lambda>_ s. (200, s)) ((), []) = (200, ((), [(''x'', ''ok'')])) \<and>
   (\<forall>tok. match_token witness_sha witness_tokens tok \<noteq> Some ''ops'')"
proof -
  let ?b = "replicate 32 (7 :: nat)" and ?t = witness_tokens and ?fs = "(\<lambda>_. None) :: file_system"
  let ?c = "\<lparr>ct_Name = ''ops'', ct_Token = hex_encode ?b, ct_Created = 0, ct_Persisted = False\<rparr>"
  let ?t1 = "added witness_sha ''ops'' ?b 0 ?t"
  have s: "tokens_reach witness_sha (\<lambda>_. '''') (\<lambda>_. None) (?t, ?fs)"
    unfolding witness_tokens_def by (rule tokens_reach.start) (simp add: LoadAdminTokens_def)
  have c: "create_token witness_sha (\<lambda>_. '''') 0 ''tmp'' (Some ?b) 0 ''ops'' (?t, ?fs) = (Inr ?c, (?t1, ?fs))"
    by (simp add: create_token_def witness_tokens_def newAdminTokens_def added_def save_tokens_def name_re_def lower_or_digit_def)
  have r: "revoke_token (\<lambda>_. '''') 0 ''tmp'' ''ops'' (?t1, ?fs) = (None, (?t, ?fs))"
    by (simp add: revoke_token_def witness_tokens_def newAdminTokens_def added_def removed_def save_tokens_def)
  show ?thesis
    using admin_token_life [OF s _ c _ _ tokens_reach.create [OF s c] r, of ?t1 "''x''" "\<lambda>_ s. (200, s)" "()" "[]"]
    by (simp add: reordered_def witness_tokens_def newAdminTokens_def)
qed

end
