(* ===== verification/Usage.thy ===== *)
theory Usage
  imports Auth Gateway
begin

text \<open>
  Usage accounting (\<^verbatim>\<open>usage.go\<close>): counters per API key and per node since the start of the process and,
  with a state directory, since first use.

  A Go map of counters is a function with options as values; a missing entry reads as the zero counters.  The
  64-bit counters are integers and the float seconds reals.  JSON is a pair of functions, with the law that
  what was written is read again; the clock and the faults of the disk are arguments.
\<close>

subsection \<open>Counters\<close>

record usage_counters =
  uc_Requests :: int
  uc_Errors :: int
  uc_PromptTokens :: int
  uc_CachedPromptTokens :: int
  uc_CompletionTokens :: int
  uc_GenTokens :: int
  uc_GenSeconds :: real
  uc_AvgGenTPS :: real
  uc_LastUsed :: go_time

record usage_totals =
  ut_Since :: go_time
  ut_Keys :: "string \<Rightarrow> usage_counters option"
  ut_Nodes :: "string \<Rightarrow> usage_counters option"

definition no_usage :: usage_counters where
  "no_usage = \<lparr>uc_Requests = 0, uc_Errors = 0, uc_PromptTokens = 0, uc_CachedPromptTokens = 0, uc_CompletionTokens = 0,
     uc_GenTokens = 0, uc_GenSeconds = 0, uc_AvgGenTPS = 0, uc_LastUsed = 0\<rparr>"

definition counters_of :: "(string \<Rightarrow> usage_counters option) \<Rightarrow> string \<Rightarrow> usage_counters" where
  "counters_of m k = (case m k of Some c \<Rightarrow> c | None \<Rightarrow> no_usage)"

definition newTotals :: "go_time \<Rightarrow> usage_totals" where
  "newTotals since = \<lparr>ut_Since = since, ut_Keys = (\<lambda>_. None), ut_Nodes = (\<lambda>_. None)\<rparr>"

definition withAvg :: "usage_counters \<Rightarrow> usage_counters" where
  "withAvg c = c\<lparr>uc_AvgGenTPS := (if uc_GenSeconds c > 0 then of_int (uc_GenTokens c) / uc_GenSeconds c else 0)\<rparr>"

definition clone_totals :: "usage_totals \<Rightarrow> usage_totals" where
  "clone_totals t = t\<lparr>ut_Keys := (\<lambda>k. map_option withAvg (ut_Keys t k)), ut_Nodes := (\<lambda>k. map_option withAvg (ut_Nodes t k))\<rparr>"

definition add_usage :: "usage_event \<Rightarrow> go_time \<Rightarrow> usage_counters \<Rightarrow> usage_counters" where
  "add_usage e now c =
     (let c = c\<lparr>uc_Requests := uc_Requests c + 1\<rparr>;
          c = (if ue_Code e \<noteq> ''200'' then c\<lparr>uc_Errors := uc_Errors c + 1\<rparr> else c);
          c = c\<lparr>uc_PromptTokens := uc_PromptTokens c + ue_PromptTokens e, uc_CachedPromptTokens := uc_CachedPromptTokens c + ue_CachedTokens e,
                uc_CompletionTokens := uc_CompletionTokens c + ue_CompletionTokens e\<rparr>;
          c = (if ue_GenTPS e > 0 \<and> ue_CompletionTokens e > 0
               then c\<lparr>uc_GenTokens := uc_GenTokens c + ue_CompletionTokens e,
                      uc_GenSeconds := uc_GenSeconds c + of_int (ue_CompletionTokens e) / ue_GenTPS e\<rparr>
               else c)
      in c\<lparr>uc_LastUsed := now\<rparr>)"

definition record_event :: "usage_event \<Rightarrow> go_time \<Rightarrow> usage_totals \<Rightarrow> usage_totals" where
  "record_event e now t =
     (let t = (if ue_Principal e \<noteq> '''' \<and> ue_Code e \<noteq> ''upstream_error''
               then t\<lparr>ut_Keys := (ut_Keys t)(ue_Principal e \<mapsto> add_usage e now (counters_of (ut_Keys t) (ue_Principal e)))\<rparr> else t)
      in if ue_NodeID e \<noteq> ''''
         then t\<lparr>ut_Nodes := (ut_Nodes t)(ue_NodeID e \<mapsto> add_usage e now (counters_of (ut_Nodes t) (ue_NodeID e)))\<rparr> else t)"

subsection \<open>The two totals and the file\<close>

record usage_state =
  us_path :: string
  us_started :: go_time
  us_session :: usage_totals
  us_lifetime :: usage_totals
  us_dirty :: bool

datatype usage_error = UsageDir | UsageRead | UsageJSON | UsageVersion int

text \<open>
  \<open>NewUsage\<close>: \<open>path\<close> is \<^verbatim>\<open>usage.json\<close> in the state directory, or empty without one; \<open>dir\<close> and \<open>readable\<close>
  tell whether the directory can be made and an existing file read.
\<close>

definition NewUsage ::
  "(string \<Rightarrow> (int \<times> usage_totals) option) \<Rightarrow> bool \<Rightarrow> bool \<Rightarrow> file_system \<Rightarrow> string \<Rightarrow> go_time \<Rightarrow> usage_error + usage_state" where
  "NewUsage dec dir readable fs path now =
     (let u = \<lparr>us_path = '''', us_started = now, us_session = newTotals now, us_lifetime = newTotals now, us_dirty = False\<rparr>
      in if path = '''' then Inr u
         else if \<not> dir then Inl UsageDir
         else
           (let u = u\<lparr>us_path := path\<rparr>
            in case fs path of
                 None \<Rightarrow> Inr u
               | Some content \<Rightarrow>
                   if \<not> readable then Inl UsageRead
                   else (case dec content of
                           None \<Rightarrow> Inl UsageJSON
                         | Some (version, t) \<Rightarrow>
                             if version \<noteq> 1 then Inl (UsageVersion version) else Inr (u\<lparr>us_lifetime := clone_totals t\<rparr>))))"

definition Record_usage :: "usage_event \<Rightarrow> go_time \<Rightarrow> usage_state \<Rightarrow> usage_state" where
  "Record_usage e now u =
     u\<lparr>us_session := record_event e now (us_session u), us_lifetime := record_event e now (us_lifetime u), us_dirty := True\<rparr>"

definition Session_usage :: "usage_state \<Rightarrow> usage_totals" where
  "Session_usage u = clone_totals (us_session u)"

definition Lifetime_usage :: "usage_state \<Rightarrow> usage_totals option" where
  "Lifetime_usage u = (if us_path u = '''' then None else Some (clone_totals (us_lifetime u)))"

text \<open>
  \<open>Flush\<close> takes its copy under the lock, writes without it, and locks again after a failure: the two
  critical sections, and the whole call when nothing happens in between.
\<close>

definition flush_begin :: "usage_state \<Rightarrow> usage_totals option \<times> usage_state" where
  "flush_begin u =
     (if us_path u = '''' then (None, u)
      else if \<not> us_dirty u then (None, u)
      else (Some (clone_totals (us_lifetime u)), u\<lparr>us_dirty := False\<rparr>))"

definition flush_end :: "bool \<Rightarrow> usage_state \<Rightarrow> usage_state" where
  "flush_end ok u = (if ok then u else u\<lparr>us_dirty := True\<rparr>)"

definition Flush ::
  "(int \<times> usage_totals \<Rightarrow> string) \<Rightarrow> nat \<Rightarrow> string \<Rightarrow> usage_state \<times> file_system \<Rightarrow> bool \<times> (usage_state \<times> file_system)" where
  "Flush enc fault tmp st =
     (let (u, fs) = st
      in case flush_begin u of
           (None, u) \<Rightarrow> (True, (u, fs))
         | (Some t, u) \<Rightarrow>
             (let (fs', ok) = WriteFileAtomic fault tmp (us_path u) (enc (1, t)) fs
              in (ok, (flush_end ok u, fs'))))"

subsection \<open>What the counters count\<close>

definition record_all :: "(usage_event \<times> go_time) list \<Rightarrow> usage_totals \<Rightarrow> usage_totals" where
  "record_all es t = foldl (\<lambda>t e. record_event (fst e) (snd e) t) t es"

definition add_all :: "(usage_event \<times> go_time) list \<Rightarrow> usage_counters \<Rightarrow> usage_counters" where
  "add_all es c = foldl (\<lambda>c e. add_usage (fst e) (snd e) c) c es"

definition of_key :: "string \<Rightarrow> usage_event \<times> go_time \<Rightarrow> bool" where
  "of_key k e \<longleftrightarrow> ue_Principal (fst e) = k \<and> ue_Code (fst e) \<noteq> ''upstream_error''"

definition of_node :: "string \<Rightarrow> usage_event \<times> go_time \<Rightarrow> bool" where
  "of_node n e \<longleftrightarrow> ue_NodeID (fst e) = n"

lemma record_key:
  "counters_of (ut_Keys (record_event e now t)) k =
     (if of_key k (e, now) \<and> k \<noteq> '''' then add_usage e now (counters_of (ut_Keys t) k) else counters_of (ut_Keys t) k)"
  by (auto simp: record_event_def of_key_def counters_of_def Let_def)

lemma record_node:
  "counters_of (ut_Nodes (record_event e now t)) n =
     (if of_node n (e, now) \<and> n \<noteq> '''' then add_usage e now (counters_of (ut_Nodes t) n) else counters_of (ut_Nodes t) n)"
  by (auto simp: record_event_def of_node_def counters_of_def Let_def)

lemma record_all_key:
  "k \<noteq> '''' \<Longrightarrow> counters_of (ut_Keys (record_all es t)) k = add_all (filter (of_key k) es) (counters_of (ut_Keys t) k)"
  by (induction es arbitrary: t) (auto simp: record_all_def add_all_def record_key)

lemma record_all_node:
  "n \<noteq> '''' \<Longrightarrow> counters_of (ut_Nodes (record_all es t)) n = add_all (filter (of_node n) es) (counters_of (ut_Nodes t) n)"
  by (induction es arbitrary: t) (auto simp: record_all_def add_all_def record_node)

lemma add_usage_fields:
  "uc_Requests (add_usage e now c) = uc_Requests c + 1"
  "uc_Errors (add_usage e now c) = uc_Errors c + (if ue_Code e \<noteq> ''200'' then 1 else 0)"
  "uc_PromptTokens (add_usage e now c) = uc_PromptTokens c + ue_PromptTokens e"
  "uc_CompletionTokens (add_usage e now c) = uc_CompletionTokens c + ue_CompletionTokens e"
  "uc_LastUsed (add_usage e now c) = now"
  by (simp_all add: add_usage_def Let_def)

lemma add_all_fields:
  "uc_Requests (add_all es c) = uc_Requests c + int (length es)"
  "uc_Errors (add_all es c) = uc_Errors c + int (length (filter (\<lambda>e. ue_Code (fst e) \<noteq> ''200'') es))"
  "uc_PromptTokens (add_all es c) = uc_PromptTokens c + sum_list (map (ue_PromptTokens \<circ> fst) es)"
  "uc_CompletionTokens (add_all es c) = uc_CompletionTokens c + sum_list (map (ue_CompletionTokens \<circ> fst) es)"
  by (induction es arbitrary: c) (auto simp: add_all_def add_usage_fields)

subsection \<open>The accounts of a served request\<close>

lemma length_filter_distinct:
  "distinct xs \<Longrightarrow> length (filter (\<lambda>x. x = n) xs) = (if n \<in> set xs then 1 else 0)"
  by (induction xs) auto

lemma filter_butlast:
  assumes "tried \<noteq> []" "\<forall>k. Suc k < length tried \<longrightarrow> P (tried ! k)" "\<not> P (last tried)"
  shows "filter P tried = butlast tried"
proof -
  have "\<forall>x \<in> set (butlast tried). P x"
    using assms(2) by (auto simp: in_set_conv_nth nth_butlast)
  then have "filter P (butlast tried @ [last tried]) = butlast tried" using assms(3) by simp
  then show ?thesis using append_butlast_last_id [OF assms(1)] by metis
qed

definition refused :: "outcome \<Rightarrow> bool" where
  "refused out \<longleftrightarrow> (\<exists>c m. out = Refused c m)"

lemma served_nodes:
  assumes "serve_ok tags cfg tgt body meta env (Some ((tried, out), g'))" "books_ok cfg tgt princ env g (Some ((tried, out), g'))"
  shows "\<exists>es e. gw_usage g' = gw_usage g @ es @ [e] \<and> ue_Principal e = princ \<and> ue_Code e \<noteq> ''upstream_error'' \<and>
    (\<forall>x \<in> set es. ue_Code x = ''upstream_error'') \<and> distinct (map (b_NodeID \<circ> fst) tried) \<and>
    map ue_NodeID (es @ [e]) = map (b_NodeID \<circ> fst) tried @ (if refused out then [''''] else [])"
proof -
  let ?R = "\<lambda>a. \<exists>er. snd a = Some er \<and> is_retryable er"
  obtain e where e: "gw_usage g' = gw_usage g @ failure_events princ tried @ [e]" "ue_Principal e = princ" "ue_Code e \<noteq> ''upstream_error''"
    "case out of Refused c m \<Rightarrow> ue_NodeID e = '''' \<and> ue_Code e = itoa c \<and> length (gw_rejected g') = Suc (length (gw_rejected g))
      | _ \<Rightarrow> final_event princ tried e \<and> gw_rejected g' = gw_rejected g"
    using assms(2) unfolding books_ok_def by auto
  have nodes: "map ue_NodeID (failure_events princ tried) = map (b_NodeID \<circ> fst) (filter ?R tried)"
    by (simp add: failure_events_def event_code)
  have codes: "\<forall>x \<in> set (failure_events princ tried). ue_Code x = ''upstream_error''"
    by (auto simp: failure_events_def event_code)
  have d: "distinct (map (b_NodeID \<circ> fst) tried)" "\<forall>k. Suc k < length tried \<longrightarrow> ?R (tried ! k)"
    using assms(1) by (auto simp: serve_ok_def attempts_ok_def Let_def)
  have "map ue_NodeID (failure_events princ tried @ [e]) = map (b_NodeID \<circ> fst) tried @ (if refused out then [''''] else [])"
  proof (cases "refused out")
    case True
    then have "filter ?R tried = tried" "ue_NodeID e = ''''"
      using assms(1) e(4) by (auto simp: serve_ok_def ends_ok_def refused_def Let_def)
    then show ?thesis using True nodes by simp
  next
    case False
    then have f: "final_event princ tried e" and en: "tried \<noteq> [] \<and> \<not> ?R (last tried)"
      using assms(1) e(4) by (auto simp: serve_ok_def ends_ok_def refused_def is_retryable_def Let_def split: outcome.splits)
    then have "filter ?R tried = butlast tried" using filter_butlast [of tried ?R] d(2) by blast
    then have "map ue_NodeID (failure_events princ tried @ [e]) = map (b_NodeID \<circ> fst) (butlast tried @ [last tried])"
      unfolding map_append nodes using f by (simp add: final_event_def)
    then show ?thesis using False en append_butlast_last_id [of tried] by simp
  qed
  then show ?thesis using e(1-3) codes d(1) by blast
qed

lemma length_filter_map: "length (filter P (map f xs)) = length (filter (P \<circ> f) xs)"
  by (simp add: filter_map)

definition timed :: "go_time \<Rightarrow> usage_event list \<Rightarrow> (usage_event \<times> go_time) list" where
  "timed now es = map (\<lambda>e. (e, now)) es"

lemma timed_key: "length (filter (of_key k) (timed now es)) = length (filter (\<lambda>e. ue_Principal e = k \<and> ue_Code e \<noteq> ''upstream_error'') es)"
  by (simp add: timed_def filter_map of_key_def comp_def)

lemma timed_node: "length (filter (of_node n) (timed now es)) = length (filter (\<lambda>m. m = n) (map ue_NodeID es))"
  by (simp add: timed_def filter_map of_node_def comp_def)

lemma served_usage:
  assumes "serve_ok tags cfg tgt body meta env (Some ((tried, out), g'))" "books_ok cfg tgt princ env g (Some ((tried, out), g'))"
  shows "\<exists>new. gw_usage g' = gw_usage g @ new \<and>
    (let t' = record_all (timed now new) t in
     (\<forall>k. k \<noteq> '''' \<longrightarrow> uc_Requests (counters_of (ut_Keys t') k) = uc_Requests (counters_of (ut_Keys t) k) + (if k = princ then 1 else 0)) \<and>
     (\<forall>n. n \<noteq> '''' \<longrightarrow> uc_Requests (counters_of (ut_Nodes t') n) =
        uc_Requests (counters_of (ut_Nodes t) n) + (if n \<in> set (map (b_NodeID \<circ> fst) tried) then 1 else 0)))"
proof -
  obtain es e where u: "gw_usage g' = gw_usage g @ es @ [e]" "ue_Principal e = princ" "ue_Code e \<noteq> ''upstream_error''"
    "\<forall>x \<in> set es. ue_Code x = ''upstream_error''" "distinct (map (b_NodeID \<circ> fst) tried)"
    "map ue_NodeID (es @ [e]) = map (b_NodeID \<circ> fst) tried @ (if refused out then [''''] else [])"
    using served_nodes [OF assms] by blast
  have "filter (\<lambda>e. ue_Principal e = k \<and> ue_Code e \<noteq> ''upstream_error'') es = []" for k using u(4) by simp
  then have k: "length (filter (of_key k) (timed now (es @ [e]))) = (if k = princ then 1 else 0)" for k
    unfolding timed_key using u(2,3) by (simp add: eq_commute)
  have n: "length (filter (of_node n) (timed now (es @ [e]))) = (if n \<in> set (map (b_NodeID \<circ> fst) tried) then 1 else 0)" if "n \<noteq> ''''" for n
    unfolding timed_node u(6) using length_filter_distinct [OF u(5), of n] that by (simp split del: if_split)
  show ?thesis
    by (rule exI [of _ "es @ [e]"]) (auto simp: Let_def u(1) record_all_key record_all_node add_all_fields k n split: if_splits)
qed



subsection \<open>The life of the lifetime totals\<close>

lemma withAvg_facts: "withAvg (withAvg c) = withAvg c" "withAvg (add_usage e now (withAvg c)) = withAvg (add_usage e now c)" "withAvg no_usage = no_usage"
  by (simp_all add: withAvg_def add_usage_def no_usage_def Let_def)

lemma clone_clone: "clone_totals (clone_totals t) = clone_totals t"
  by (simp add: clone_totals_def option.map_comp comp_def withAvg_facts)

lemma counters_clone: "counters_of (\<lambda>k. map_option withAvg (m k)) k = withAvg (counters_of m k)"
  by (simp add: counters_of_def withAvg_facts split: option.splits)

lemma clone_upd: "(\<lambda>k. map_option withAvg ((m(i \<mapsto> c)) k)) = (\<lambda>k. map_option withAvg (m k))(i \<mapsto> withAvg c)"
  by auto

lemma clone_record: "clone_totals (record_event e now (clone_totals t)) = clone_totals (record_event e now t)"
  unfolding record_event_def Let_def clone_totals_def
  by (simp add: counters_clone clone_upd withAvg_facts option.map_comp comp_def del: fun_upd_apply)

lemma clone_record_cong: "clone_totals s = clone_totals t \<Longrightarrow> clone_totals (record_event e now s) = clone_totals (record_event e now t)"
  by (metis clone_record)

text \<open>
  The histories of the state directory: a first start without a file, events, writes that may fail at any
  step, changes of other files, and a stop of the process at any moment followed by a new start.  \<open>evs\<close> are
  the events the process knows, \<open>saved\<close> those in the file.  JSON is only required to read back the totals
  that are written.
\<close>

inductive usage_life ::
  "(int \<times> usage_totals \<Rightarrow> string) \<Rightarrow> (string \<Rightarrow> (int \<times> usage_totals) option) \<Rightarrow> string \<Rightarrow>
   usage_state \<times> file_system \<Rightarrow> (usage_event \<times> go_time) list \<Rightarrow> (usage_event \<times> go_time) list \<Rightarrow> bool"
  for enc dec path where
  first_start: "fs path = None \<Longrightarrow> NewUsage dec dir readable fs path now = Inr u \<Longrightarrow> usage_life enc dec path (u, fs) [] []"
| event: "usage_life enc dec path (u, fs) evs saved \<Longrightarrow> usage_life enc dec path (Record_usage e now u, fs) (evs @ [(e, now)]) saved"
| flush: "usage_life enc dec path (u, fs) evs saved \<Longrightarrow> fs tmp = None \<Longrightarrow> tmp \<noteq> path \<Longrightarrow>
    dec (enc (1, clone_totals (us_lifetime u))) = Some (1, clone_totals (us_lifetime u)) \<Longrightarrow>
    Flush enc fault tmp (u, fs) = (ok, (u', fs')) \<Longrightarrow> usage_life enc dec path (u', fs') evs (if ok then evs else saved)"
| other_files: "usage_life enc dec path (u, fs) evs saved \<Longrightarrow> fs' path = fs path \<Longrightarrow> usage_life enc dec path (u, fs') evs saved"
| restart: "usage_life enc dec path (u, fs) evs saved \<Longrightarrow> NewUsage dec dir readable fs path now = Inr u' \<Longrightarrow>
    usage_life enc dec path (u', fs) saved saved"

definition in_file :: "(string \<Rightarrow> (int \<times> usage_totals) option) \<Rightarrow> string option \<Rightarrow> (usage_event \<times> go_time) list \<Rightarrow> bool" where
  "in_file dec f saved \<longleftrightarrow>
     (case f of None \<Rightarrow> saved = []
      | Some c \<Rightarrow> \<exists>since. dec c = Some (1, clone_totals (record_all saved (newTotals since))))"

definition usage_inv where
  "usage_inv dec path u f evs saved \<longleftrightarrow>
     us_path u = path \<and> (\<exists>since. clone_totals (us_lifetime u) = clone_totals (record_all evs (newTotals since))) \<and>
     in_file dec f saved \<and> (\<not> us_dirty u \<longrightarrow> saved = evs)"

lemma NewUsage_inv:
  assumes "path \<noteq> ''''" "in_file dec (fs path) saved" "NewUsage dec dir readable fs path now = Inr u"
  shows "usage_inv dec path u (fs path) saved saved"
proof (cases "fs path")
  case None
  then have "u = \<lparr>us_path = path, us_started = now, us_session = newTotals now, us_lifetime = newTotals now, us_dirty = False\<rparr>" "saved = []"
    using assms by (auto simp: NewUsage_def Let_def in_file_def split: if_splits)
  then show ?thesis using assms(2) by (auto simp: usage_inv_def record_all_def)
next
  case (Some c)
  then obtain since where "dec c = Some (1, clone_totals (record_all saved (newTotals since)))"
    using assms(2) by (auto simp: in_file_def)
  then have "us_path u = path \<and> us_dirty u = False \<and> us_lifetime u = clone_totals (clone_totals (record_all saved (newTotals since)))"
    using assms(1,3) Some by (auto simp: NewUsage_def Let_def split: if_splits)
  then show ?thesis using assms(2) by (auto simp: usage_inv_def clone_clone)
qed

lemma usage_life_inv:
  "usage_life enc dec path st evs saved \<Longrightarrow> path \<noteq> '''' \<Longrightarrow> usage_inv dec path (fst st) (snd st path) evs saved"
proof (induction rule: usage_life.induct)
  case (first_start fs dir readable now u)
  then show ?case using NewUsage_inv [of path dec fs "[]"] by (simp add: in_file_def)
next
  case (event u fs evs saved e now)
  then have i: "usage_inv dec path u (fs path) evs saved" by simp
  then obtain s where "clone_totals (us_lifetime u) = clone_totals (record_all evs (newTotals s))" by (auto simp: usage_inv_def)
  from clone_record_cong [OF this, of e now]
  have "clone_totals (us_lifetime (Record_usage e now u)) = clone_totals (record_all (evs @ [(e, now)]) (newTotals s))"
    by (simp add: Record_usage_def record_all_def)
  then show ?case using i by (auto simp: usage_inv_def Record_usage_def)
next
  case (flush u fs evs saved tmp fault ok u' fs')
  then have i: "usage_inv dec path u (fs path) evs saved" by simp
  show ?case
  proof (cases "us_dirty u")
    case False
    then have "ok \<and> u' = u \<and> fs' = fs" using flush.hyps by (auto simp: Flush_def flush_begin_def split: if_splits)
    then show ?thesis using i False by (auto simp: usage_inv_def)
  next
    case True
    let ?t = "clone_totals (us_lifetime u)"
    have p: "us_path u = path" using i by (simp add: usage_inv_def)
    obtain f2 b where w: "WriteFileAtomic fault tmp path (enc (1, ?t)) fs = (f2, b)" by fastforce
    have r: "ok = b" "fs' = f2" "u' = flush_end b (u\<lparr>us_dirty := False\<rparr>)"
      using flush.hyps(5) flush.prems True w p by (auto simp: Flush_def flush_begin_def)
    have f: "fs' path = (if ok then Some (enc (1, ?t)) else fs path)"
      using WriteFileAtomic_spec [OF w flush.hyps(2,3)] r by simp
    show ?thesis using i f r flush.hyps(4) by (auto simp: usage_inv_def in_file_def flush_end_def)
  qed
next
  case (other_files u fs evs saved fs')
  then show ?case by simp
next
  case (restart u fs evs saved dir readable now u')
  then show ?case using NewUsage_inv [of path dec fs saved] by (simp add: usage_inv_def)
qed

text \<open>Totals that say what a list of events adds up to.\<close>

definition adds_up :: "(usage_event \<times> go_time) list \<Rightarrow> usage_counters \<Rightarrow> bool" where
  "adds_up es c \<longleftrightarrow> uc_Requests c = int (length es) \<and> uc_Errors c = int (length (filter (\<lambda>e. ue_Code (fst e) \<noteq> ''200'') es)) \<and>
     uc_PromptTokens c = sum_list (map (ue_PromptTokens \<circ> fst) es) \<and> uc_CompletionTokens c = sum_list (map (ue_CompletionTokens \<circ> fst) es)"

definition totals_of :: "(usage_event \<times> go_time) list \<Rightarrow> usage_totals \<Rightarrow> bool" where
  "totals_of es t \<longleftrightarrow> (\<forall>k. k \<noteq> '''' \<longrightarrow> adds_up (filter (of_key k) es) (counters_of (ut_Keys t) k) \<and>
     adds_up (filter (of_node k) es) (counters_of (ut_Nodes t) k))"

lemma totals_of_clone:
  assumes "clone_totals t = clone_totals (record_all es (newTotals since))"
  shows "totals_of es (clone_totals t)"
proof -
  have w: "adds_up fs (withAvg c) = adds_up fs c" for fs c by (simp add: adds_up_def withAvg_def)
  have z: "counters_of (ut_Keys (newTotals since)) k = no_usage" "counters_of (ut_Nodes (newTotals since)) k = no_usage" for k
    by (simp_all add: newTotals_def counters_of_def)
  have a: "adds_up fs (add_all fs no_usage)" for fs by (simp add: adds_up_def add_all_fields) (simp add: no_usage_def)
  have k: "counters_of (ut_Keys (clone_totals u)) k = withAvg (counters_of (ut_Keys u) k)"
    "counters_of (ut_Nodes (clone_totals u)) k = withAvg (counters_of (ut_Nodes u) k)" for u k
    by (simp_all add: clone_totals_def counters_clone)
  show ?thesis unfolding assms totals_of_def k w by (simp add: record_all_key record_all_node z a)
qed

lemma usage_life_totals:
  assumes "usage_life enc dec path (u, fs) evs saved" "path \<noteq> ''''"
  shows "\<exists>t. Lifetime_usage u = Some t \<and> totals_of evs t"
    and "\<exists>u' t. NewUsage dec True True fs path now = Inr u' \<and> Lifetime_usage u' = Some t \<and> totals_of saved t"
    and "\<not> us_dirty u \<longrightarrow> saved = evs"
proof -
  have i: "usage_inv dec path u (fs path) evs saved" using usage_life_inv [OF assms] by simp
  have life: "\<exists>t. Lifetime_usage v = Some t \<and> totals_of es t" if v: "usage_inv dec path v f es sv" for v f es sv
  proof -
    obtain s where "us_path v = path" "clone_totals (us_lifetime v) = clone_totals (record_all es (newTotals s))"
      using v by (auto simp: usage_inv_def)
    then show ?thesis using totals_of_clone assms(2) by (simp add: Lifetime_usage_def)
  qed
  show "\<exists>t. Lifetime_usage u = Some t \<and> totals_of evs t" by (rule life [OF i])
  show "\<not> us_dirty u \<longrightarrow> saved = evs" using i by (simp add: usage_inv_def)
  have f: "in_file dec (fs path) saved" using i by (simp add: usage_inv_def)
  then obtain u' where n: "NewUsage dec True True fs path now = Inr u'"
    using assms(2) by (cases "fs path") (auto simp: NewUsage_def Let_def in_file_def)
  then show "\<exists>u' t. NewUsage dec True True fs path now = Inr u' \<and> Lifetime_usage u' = Some t \<and> totals_of saved t"
    using life [OF NewUsage_inv [OF assms(2) f n]] by blast
qed


text \<open>
  Two calls of \<open>Flush\<close> overlap when the process is told to stop while the ticker is writing: the call at
  shutdown finds nothing dirty and returns at once, though no write has succeeded yet; and of two that both
  write, the one that copied first may write last, so that the file lacks an event although nothing is
  dirty.
\<close>

lemma overlapping_flushes:
  assumes "us_path u \<noteq> ''''" "us_dirty u"
  shows "flush_begin (snd (flush_begin u)) = (None, snd (flush_begin u))"
    and "\<exists>u1 u2 u3. flush_begin u = (Some (clone_totals (us_lifetime u)), u1) \<and> u2 = Record_usage e now u1 \<and>
      flush_begin u2 = (Some (clone_totals (record_event e now (us_lifetime u))), u3) \<and>
      flush_end True (flush_end True u3) = u3 \<and> \<not> us_dirty u3"
  using assms by (auto simp: flush_begin_def flush_end_def Record_usage_def)

text \<open>Its witness: one event, a write, another event, a stop.\<close>

definition sample_event :: usage_event where
  "sample_event = event ''bob'' ''pixel'' ''m'' ''200''"

definition sample_usage :: usage_state where
  "sample_usage = \<lparr>us_path = ''usage.json'', us_started = 0, us_session = newTotals 0, us_lifetime = newTotals 0, us_dirty = False\<rparr>"


end
