(* ===== verification/AdminApi.thy ===== *)
theory AdminApi
  imports AdminTokens Usage Routing
begin

text \<open>
  The handlers of \<^verbatim>\<open>admin.go\<close>: the settings of the gateway, draining and forgetting of nodes, keys, and
  the summary of the cluster.

  The state is what these handlers read and write; the routing part is \<open>server_state\<close> of \<open>Routing\<close>.  Parsing
  of durations, the text of \<^verbatim>\<open>routing.json\<close> and whether it can be written are arguments.
\<close>

subsection \<open>The admin token\<close>

definition MinAdminTokenLen :: nat where
  "MinAdminTokenLen = 16"

datatype token_file_error = TokenOpen | TokenShort | TokenScan | TokenNone

fun admin_token_lines :: "string list \<Rightarrow> token_file_error + string" where
  "admin_token_lines [] = Inl TokenNone"
| "admin_token_lines (l # ls) =
     (if length l > 65535 then Inl TokenScan
      else
        (let line = trim_space (drop_cr l)
         in if line = '''' \<or> has_prefix line ''#'' then admin_token_lines ls
            else if length line < MinAdminTokenLen then Inl TokenShort
            else Inr line))"

definition LoadAdminToken :: "file_system \<Rightarrow> string \<Rightarrow> token_file_error + string" where
  "LoadAdminToken fs path = (case fs path of None \<Rightarrow> Inl TokenOpen | Some content \<Rightarrow> admin_token_lines (split_lines [] content))"

subsection \<open>State\<close>

abbreviation "PolicyAffinity \<equiv> ''affinity''"
abbreviation "PolicyLeastInflight \<equiv> ''least_inflight''"

datatype gateway_picker = AffinityPicker | LeastPicker

record admin_state =
  ad_policy :: string
  ad_picker :: gateway_picker
  ad_affinity :: affinity
  ad_timeout :: go_duration
  ad_firstToken :: go_duration
  ad_limit :: real
  ad_keys :: static_keys
  ad_accessCfg :: string
  ad_server :: server_state

record gateway_settings =
  gs_Policy :: string
  gs_AffinitySpill :: int
  gs_UpstreamTimeout :: string
  gs_FirstTokenTimeout :: string
  gs_AuthMode :: string
  gs_ThermalLimitC :: real
  gs_Access :: string
  gs_Router :: router_settings

record gateway_update =
  gu_Policy :: "string option"
  gu_AffinitySpill :: "int option"
  gu_UpstreamTimeout :: "string option"
  gu_FirstTokenTimeout :: "string option"
  gu_AuthMode :: "string option"
  gu_ThermalLimitC :: "real option"
  gu_Router :: "router_update option"

subsection \<open>Settings\<close>

definition authMode :: "admin_state \<Rightarrow> string" where
  "authMode a = (if sk_enforced (ad_keys a) then ''keys'' else ''open'')"

definition accessMode :: "admin_state \<Rightarrow> string" where
  "accessMode a = (if sk_enforced (ad_keys a) then AccessKeys else ad_accessCfg a)"

definition effective_first_token :: "admin_state \<Rightarrow> go_duration" where
  "effective_first_token a = (if ad_firstToken a > 0 then ad_firstToken a else ad_timeout a)"

definition gatewaySettings :: "(go_duration \<Rightarrow> string) \<Rightarrow> admin_state \<Rightarrow> gateway_settings" where
  "gatewaySettings print a =
     \<lparr>gs_Policy = ad_policy a, gs_AffinitySpill = a_Spill (ad_affinity a), gs_UpstreamTimeout = print (ad_timeout a),
      gs_FirstTokenTimeout = print (effective_first_token a), gs_AuthMode = authMode a, gs_ThermalLimitC = ad_limit a,
      gs_Access = accessMode a, gs_Router = routerSettings print (ss_router (ad_server a))\<rparr>"

definition check_policy :: "string option \<Rightarrow> int + gateway_picker option" where
  "check_policy p =
     (case p of None \<Rightarrow> Inr None
      | Some s \<Rightarrow> if s = PolicyAffinity then Inr (Some AffinityPicker)
                  else if s = PolicyLeastInflight then Inr (Some LeastPicker) else Inl 400)"

definition check_duration :: "(string \<Rightarrow> go_duration option) \<Rightarrow> string option \<Rightarrow> int + go_duration" where
  "check_duration parse s =
     (case s of None \<Rightarrow> Inr 0
      | Some s \<Rightarrow> (case parse s of None \<Rightarrow> Inl 400
                   | Some d \<Rightarrow> if d < second \<or> d > 24 * 3600 * second then Inl 400 else Inr d))"

definition switch_auth :: "string option \<Rightarrow> static_keys \<Rightarrow> int + static_keys" where
  "switch_auth m keys =
     (case m of None \<Rightarrow> Inr keys
      | Some s \<Rightarrow>
          if s = ''keys'' then (case Enforce keys of Inl _ \<Rightarrow> Inl 409 | Inr keys \<Rightarrow> Inr keys)
          else if s = ''open'' then (if sk_enforced keys then Inl 409 else Inr keys)
          else Inl 400)"

definition check_router :: "(string \<Rightarrow> go_duration option) \<Rightarrow> router_config \<Rightarrow> router_update option \<Rightarrow> int + router_config" where
  "check_router parse c u =
     (case u of None \<Rightarrow> Inr c | Some u \<Rightarrow> (case applyRouterUpdate parse c u of Inl _ \<Rightarrow> Inl 400 | Inr c \<Rightarrow> Inr c))"

text \<open>The part of \<open>applyGatewayUpdate\<close> that applies the checked values; 500 when the router is not stored.\<close>

definition apply_settings ::
  "handler_env \<Rightarrow> gateway_update \<Rightarrow> gateway_picker option \<Rightarrow> go_duration \<Rightarrow> go_duration \<Rightarrow> router_config \<Rightarrow> admin_state \<Rightarrow> int \<times> admin_state" where
  "apply_settings env u pk timeout firstToken router a =
     (let a = (case pk of None \<Rightarrow> a | Some p \<Rightarrow> a\<lparr>ad_picker := p, ad_policy := the (gu_Policy u)\<rparr>);
          a = (case gu_AffinitySpill u of None \<Rightarrow> a | Some n \<Rightarrow> a\<lparr>ad_affinity := SetSpill n (ad_affinity a)\<rparr>);
          a = (if timeout > 0 then a\<lparr>ad_timeout := timeout\<rparr> else a);
          a = (if firstToken > 0 then a\<lparr>ad_firstToken := firstToken\<rparr> else a);
          a = (case gu_ThermalLimitC u of None \<Rightarrow> a | Some l \<Rightarrow> a\<lparr>ad_limit := l\<rparr>)
      in if gu_Router u = None then (0, a)
         else
           (let (ok, s) = saveRouting (he_print env) (he_enc env) (he_ok env) ((ad_server a)\<lparr>ss_router := router, ss_routerStored := True\<rparr>);
                a = a\<lparr>ad_server := s\<rparr>
            in (if ok then 0 else 500, a)))"

definition applyGatewayUpdate ::
  "(string \<Rightarrow> go_duration option) \<Rightarrow> handler_env \<Rightarrow> gateway_update \<Rightarrow> admin_state \<Rightarrow> int \<times> admin_state" where
  "applyGatewayUpdate parse env u a =
     (case check_policy (gu_Policy u) of
        Inl c \<Rightarrow> (c, a)
      | Inr pk \<Rightarrow>
      if (case gu_AffinitySpill u of None \<Rightarrow> False | Some n \<Rightarrow> n < 1 \<or> n > 1000) then (400, a)
      else (case check_duration parse (gu_UpstreamTimeout u) of
        Inl c \<Rightarrow> (c, a)
      | Inr timeout \<Rightarrow>
     (case check_duration parse (gu_FirstTokenTimeout u) of
        Inl c \<Rightarrow> (c, a)
      | Inr firstToken \<Rightarrow>
     (case switch_auth (gu_AuthMode u) (ad_keys a) of
        Inl c \<Rightarrow> (c, a)
      | Inr keys \<Rightarrow>
      (let a = a\<lparr>ad_keys := keys\<rparr>
       in if (case gu_ThermalLimitC u of None \<Rightarrow> False | Some l \<Rightarrow> l < 0 \<or> l > 150) then (400, a)
          else (case check_router parse (ss_router (ad_server a)) (gu_Router u) of
             Inl c \<Rightarrow> (c, a)
           | Inr router \<Rightarrow> apply_settings env u pk timeout firstToken router a))))))"

text \<open>\<open>None\<close> is a body that cannot be decoded.\<close>

definition adminSetGateway ::
  "(string \<Rightarrow> go_duration option) \<Rightarrow> handler_env \<Rightarrow> gateway_update option \<Rightarrow> admin_state \<Rightarrow> (int + gateway_settings) \<times> admin_state" where
  "adminSetGateway parse env body a =
     (case body of
        None \<Rightarrow> (Inl 400, a)
      | Some u \<Rightarrow>
          (let (code, a) = applyGatewayUpdate parse env u a
           in if code \<noteq> 0 then (Inl code, a) else (Inr (gatewaySettings (he_print env) a), a)))"

subsection \<open>Draining and forgetting\<close>

definition set_drained :: "node_id \<Rightarrow> bool \<Rightarrow> server_state \<Rightarrow> int \<times> server_state" where
  "set_drained i drain s =
     (case cut_prefix i ExternalPrefix of
        Some name \<Rightarrow> (case ext_setDrained name drain (ss_ext s) of (err, e) \<Rightarrow> (if err = None then 0 else 404, s\<lparr>ss_ext := e\<rparr>))
      | None \<Rightarrow> (case SetDrained i drain (ss_reg s) of Inl _ \<Rightarrow> (404, s) | Inr r \<Rightarrow> (0, s\<lparr>ss_reg := r\<rparr>)))"

definition adminDrain :: "bool \<Rightarrow> node_id \<Rightarrow> admin_state \<Rightarrow> (int + nat) \<times> admin_state" where
  "adminDrain drain i a =
     (let (code, s) = set_drained i drain (ad_server a);
          a = a\<lparr>ad_server := s\<rparr>;
          (moved, aff) = (if code = 0 \<and> drain then Unpin i (ad_affinity a) else (0, ad_affinity a));
          a = a\<lparr>ad_affinity := aff\<rparr>;
          a = (if code = 0 \<and> cut_prefix i ExternalPrefix = None then a\<lparr>ad_server := Replan_call (ad_server a)\<rparr> else a)
      in if code \<noteq> 0 then (Inl code, a) else (Inr moved, a))"

definition adminForget :: "node_id \<Rightarrow> admin_state \<Rightarrow> int \<times> admin_state" where
  "adminForget i a =
     (case Forget i (ss_reg (ad_server a)) of
        Inl _ \<Rightarrow> (404, a)
      | Inr r \<Rightarrow>
          (let a = a\<lparr>ad_server := (ad_server a)\<lparr>ss_reg := r\<rparr>, ad_affinity := snd (Unpin i (ad_affinity a))\<rparr>
           in (204, a\<lparr>ad_server := Replan_call (ad_server a)\<rparr>)))"

subsection \<open>Keys\<close>

record admin_key =
  aky_Name :: string
  aky_Keys :: int
  aky_Created :: "go_time option"
  aky_Usage :: usage_counters

text \<open>The usage shown with the keys: the lifetime totals if they are kept.\<close>

definition keyUsage :: "usage_state \<Rightarrow> string \<Rightarrow> usage_counters option" where
  "keyUsage u = (case Lifetime_usage u of Some t \<Rightarrow> ut_Keys t | None \<Rightarrow> ut_Keys (Session_usage u))"

text \<open>One entry of the store added to the rows, in the order of first appearance; \<open>None\<close> is the zero time.\<close>

definition earlier_created :: "go_time option \<Rightarrow> go_time option \<Rightarrow> go_time option" where
  "earlier_created new old =
     (case new of None \<Rightarrow> old | Some t \<Rightarrow> (case old of None \<Rightarrow> new | Some t' \<Rightarrow> if t < t' then new else old))"

definition add_key_row ::
  "(string \<Rightarrow> usage_counters option) \<Rightarrow> (string \<times> admin_key) list \<Rightarrow> key_entry \<Rightarrow> (string \<times> admin_key) list" where
  "add_key_row usage rows e =
     (let k = (case map_of rows (ke_Name e) of
                 Some k \<Rightarrow> k
               | None \<Rightarrow> \<lparr>aky_Name = ke_Name e, aky_Keys = 0, aky_Created = None, aky_Usage = counters_of usage (ke_Name e)\<rparr>);
          k = k\<lparr>aky_Keys := aky_Keys k + 1\<rparr>;
          k = k\<lparr>aky_Created := earlier_created (ke_Created e) (aky_Created k)\<rparr>
      in AList.update (ke_Name e) k rows)"

definition key_rows :: "(string \<Rightarrow> usage_counters option) \<Rightarrow> key_entry list \<Rightarrow> (string \<times> admin_key) list" where
  "key_rows usage es = foldl (add_key_row usage) [] es"

definition adminKeys :: "usage_state \<Rightarrow> admin_state \<Rightarrow> string \<times> bool \<times> admin_key list" where
  "adminKeys u a =
     (authMode a, sk_path (ad_keys a) \<noteq> [], map snd (key_rows (keyUsage u) (List_keys (ad_keys a))))"

datatype key_note = NoteMemoryOnly | NoteGatewayOpen

record created_key =
  ck_Name :: string
  ck_Key :: string
  ck_Created :: "go_time option"
  ck_AuthMode :: string
  ck_Persisted :: bool
  ck_Notes :: "key_note list"

definition created_answer :: "admin_state \<Rightarrow> string \<Rightarrow> key_entry \<Rightarrow> created_key" where
  "created_answer a key e =
     \<lparr>ck_Name = ke_Name e, ck_Key = key, ck_Created = ke_Created e, ck_AuthMode = authMode a,
      ck_Persisted = (sk_path (ad_keys a) \<noteq> []),
      ck_Notes = (if sk_path (ad_keys a) = [] then [NoteMemoryOnly] else []) @
                 (if \<not> sk_enforced (ad_keys a) then [NoteGatewayOpen] else [])\<rparr>"

definition adminCreateKey ::
  "(string \<Rightarrow> string) \<Rightarrow> (go_time \<Rightarrow> string) \<Rightarrow> nat \<Rightarrow> string \<Rightarrow> nat list option \<Rightarrow> go_time \<Rightarrow> string option \<Rightarrow>
   admin_state \<times> file_system \<Rightarrow> (int + created_key) \<times> (admin_state \<times> file_system)" where
  "adminCreateKey sha ftime fault tmp rnd now body st =
     (let (a, fs) = st in
      case body of
        None \<Rightarrow> (Inl 400, st)
      | Some name \<Rightarrow>
          (case Create_key sha ftime fault tmp rnd now name (ad_keys a, fs) of
             (r, (keys, fs)) \<Rightarrow>
               (let a = a\<lparr>ad_keys := keys\<rparr>
                in case r of
                     Inl ErrKeyName \<Rightarrow> (Inl 400, (a, fs))
                   | Inl ErrKeyExists \<Rightarrow> (Inl 409, (a, fs))
                   | Inl _ \<Rightarrow> (Inl 500, (a, fs))
                   | Inr (key, e) \<Rightarrow> (Inr (created_answer a key e), (a, fs)))))"

definition adminRevokeKey ::
  "(go_time \<Rightarrow> string) \<Rightarrow> nat \<Rightarrow> string \<Rightarrow> string \<Rightarrow> admin_state \<times> file_system \<Rightarrow> int \<times> (admin_state \<times> file_system)" where
  "adminRevokeKey ftime fault tmp name st =
     (let (a, fs) = st in
      case Revoke_key ftime fault tmp name (ad_keys a, fs) of
        (r, (keys, fs)) \<Rightarrow>
          (case r of Some ErrKeyUnknown \<Rightarrow> 404 | Some _ \<Rightarrow> 500 | None \<Rightarrow> 204, (a\<lparr>ad_keys := keys\<rparr>, fs)))"

subsection \<open>The list of nodes and the summary\<close>

record admin_node =
  an_Node :: node
  an_Drained :: bool
  an_Inflight :: int
  an_PinnedSessions :: nat
  an_Hot :: bool
  an_Class :: string
  an_PerfTier :: string
  an_GenGBps :: real
  an_PromptGBps :: real

definition node_is_hot :: "real \<Rightarrow> node \<Rightarrow> bool" where
  "node_is_hot limit n \<longleftrightarrow> limit > 0 \<and>
     (case nd_LastHeartbeat n of None \<Rightarrow> False
      | Some hb \<Rightarrow> (case hb_TemperatureC hb of None \<Rightarrow> False | Some t \<Rightarrow> t \<ge> limit))"

definition adminNodeList :: "(node_id \<Rightarrow> int option) \<Rightarrow> admin_state \<Rightarrow> admin_node list \<times> admin_state" where
  "adminNodeList inflight a =
     (let (nodes, drained) = View (ss_reg (ad_server a));
          (pins, aff) = Pins (ad_affinity a)
      in (map (\<lambda>n. let perf = perf_get (ss_perf (ad_server a)) (nd_ID n)
                   in \<lparr>an_Node = n, an_Drained = drained (nd_ID n),
                       an_Inflight = (case inflight (nd_ID n) of Some v \<Rightarrow> v | None \<Rightarrow> 0), an_PinnedSessions = pins (nd_ID n),
                       an_Hot = node_is_hot (ad_limit a) n, an_Class = ClassOf (inv_RAMTotalBytes (nd_Inventory n)),
                       an_PerfTier = PerfTierOf (pf_GenGBps perf), an_GenGBps = pf_GenGBps perf, an_PromptGBps = pf_PromptGBps perf\<rparr>) nodes,
          a\<lparr>ad_affinity := aff\<rparr>))"

text \<open>The counts of \<open>adminStats\<close>; \<open>inflight\<close> lists the gateway's positive counts.\<close>

record cluster_summary =
  cls_Nodes :: nat
  cls_ByState :: "node_state \<Rightarrow> nat"
  cls_Drained :: nat
  cls_ReadyBackends :: nat
  cls_Models :: "string \<Rightarrow> nat"
  cls_External :: nat
  cls_Inflight :: int

definition bump :: "('k \<Rightarrow> nat) \<Rightarrow> 'k \<Rightarrow> 'k \<Rightarrow> nat" where
  "bump f k = f(k := Suc (f k))"

definition count_nodes :: "(node_id \<Rightarrow> bool) \<Rightarrow> node list \<Rightarrow> (node_state \<Rightarrow> nat) \<times> nat" where
  "count_nodes drained nodes =
     foldl (\<lambda>(f, k) n. (bump f (nd_State n), if drained (nd_ID n) then Suc k else k)) (\<lambda>_. 0, 0) nodes"

definition count_ready :: "backend list \<Rightarrow> nat \<times> (string \<Rightarrow> nat)" where
  "count_ready bs = foldl (\<lambda>(k, f) b. if \<not> b_Drained b then (Suc k, bump f (b_Model b)) else (k, f)) (0, \<lambda>_. 0) bs"

definition count_external :: "backend list \<Rightarrow> (string \<Rightarrow> nat) \<Rightarrow> string \<Rightarrow> nat" where
  "count_external bs f = foldl (\<lambda>f b. if \<not> b_Drained b then bump f (b_Model b) else f) f bs"

definition adminStats :: "(node_id \<times> int) list \<Rightarrow> admin_state \<Rightarrow> cluster_summary" where
  "adminStats inflight a =
     (let (nodes, drained) = View (ss_reg (ad_server a));
          (byState, nDrained) = count_nodes drained nodes;
          (ready, served) = count_ready (Backends nodes drained [] (ad_limit a) []);
          served = count_external (ext_backends (ss_ext (ad_server a))) served;
          ext = foldl (\<lambda>k x. if x_State x = ExternalActive then Suc k else k) 0 (ext_list (\<lambda>_. 0) (\<lambda>_. 0) (ss_ext (ad_server a)));
          inf = foldl (\<lambda>k (n, v). k + v) 0 inflight
      in \<lparr>cls_Nodes = length nodes, cls_ByState = byState, cls_Drained = nDrained, cls_ReadyBackends = ready, cls_Models = served,
          cls_External = ext, cls_Inflight = inf\<rparr>)"

subsection \<open>An update is applied or refused\<close>

text \<open>What each field asks for.\<close>

definition asked :: "'a option \<Rightarrow> 'a \<Rightarrow> 'a" where
  "asked x old = (case x of None \<Rightarrow> old | Some v \<Rightarrow> v)"

definition asked_duration :: "(string \<Rightarrow> go_duration option) \<Rightarrow> string option \<Rightarrow> go_duration \<Rightarrow> go_duration" where
  "asked_duration parse x old = (case x of None \<Rightarrow> old | Some s \<Rightarrow> the (parse s))"

definition update_done :: "(string \<Rightarrow> go_duration option) \<Rightarrow> gateway_update \<Rightarrow> admin_state \<Rightarrow> admin_state \<Rightarrow> bool" where
  "update_done parse u a a' \<longleftrightarrow>
     ad_policy a' = asked (gu_Policy u) (ad_policy a) \<and>
     (gu_Policy u \<noteq> None \<longrightarrow> ad_policy a' = (if ad_picker a' = AffinityPicker then PolicyAffinity else PolicyLeastInflight)) \<and>
     (gu_Policy u = None \<longrightarrow> ad_picker a' = ad_picker a) \<and>
     ad_affinity a' = (ad_affinity a)\<lparr>a_Spill := asked (gu_AffinitySpill u) (a_Spill (ad_affinity a))\<rparr> \<and>
     (gu_AffinitySpill u \<noteq> None \<longrightarrow> 1 \<le> a_Spill (ad_affinity a') \<and> a_Spill (ad_affinity a') \<le> 1000) \<and>
     ad_timeout a' = asked_duration parse (gu_UpstreamTimeout u) (ad_timeout a) \<and>
     (gu_UpstreamTimeout u \<noteq> None \<longrightarrow> second \<le> ad_timeout a' \<and> ad_timeout a' \<le> 24 * 3600 * second) \<and>
     ad_firstToken a' = asked_duration parse (gu_FirstTokenTimeout u) (ad_firstToken a) \<and>
     (gu_FirstTokenTimeout u \<noteq> None \<longrightarrow> second \<le> ad_firstToken a' \<and> ad_firstToken a' \<le> 24 * 3600 * second) \<and>
     ad_limit a' = asked (gu_ThermalLimitC u) (ad_limit a) \<and> (gu_ThermalLimitC u \<noteq> None \<longrightarrow> 0 \<le> ad_limit a' \<and> ad_limit a' \<le> 150) \<and>
     ad_keys a' = (if gu_AuthMode u = Some ''keys'' then (ad_keys a)\<lparr>sk_enforced := True\<rparr> else ad_keys a) \<and>
     (gu_AuthMode u = Some ''open'' \<longrightarrow> \<not> sk_enforced (ad_keys a')) \<and> ad_accessCfg a' = ad_accessCfg a"

definition router_done :: "(string \<Rightarrow> go_duration option) \<Rightarrow> gateway_update \<Rightarrow> admin_state \<Rightarrow> admin_state \<Rightarrow> bool" where
  "router_done parse u a a' \<longleftrightarrow>
     (case gu_Router u of None \<Rightarrow> ad_server a' = ad_server a
      | Some r \<Rightarrow> applyRouterUpdate parse (ss_router (ad_server a)) r = Inr (ss_router (ad_server a')) \<and> ss_routerStored (ad_server a'))"

lemma check_duration_Inr:
  assumes "check_duration parse x = Inr d"
  shows "(x = None \<longrightarrow> d = 0) \<and> (x \<noteq> None \<longrightarrow> second \<le> d \<and> d \<le> 24 * 3600 * second \<and> parse (the x) = Some d) \<and> (d > 0 \<longleftrightarrow> x \<noteq> None)"
  using assms by (auto simp: check_duration_def second_def not_less split: option.splits if_splits)

lemma check_policy_Inr:
  "check_policy x = Inr p \<Longrightarrow> (x = None \<longleftrightarrow> p = None) \<and> (\<forall>q. p = Some q \<longrightarrow> x = Some (if q = AffinityPicker then PolicyAffinity else PolicyLeastInflight))"
  by (auto simp: check_policy_def split: option.splits if_splits)

lemma switch_auth_Inr:
  "switch_auth m keys = Inr keys' \<Longrightarrow>
     keys' = (if m = Some ''keys'' then keys\<lparr>sk_enforced := True\<rparr> else keys) \<and> (m = Some ''open'' \<longrightarrow> \<not> sk_enforced keys')"
  by (auto simp: switch_auth_def Enforce_def split: option.splits if_splits)

lemma check_errors:
  "check_policy p = Inl c \<Longrightarrow> c = 400" "check_duration parse x = Inl c \<Longrightarrow> c = 400" "switch_auth m keys = Inl c \<Longrightarrow> c \<in> {400, 409}"
  "check_router parse r u = Inl c \<Longrightarrow> c = 400"
  by (auto simp: check_policy_def check_duration_def switch_auth_def check_router_def split: option.splits if_splits sum.splits)

lemma apply_settings_done:
  assumes "apply_settings env u pk timeout firstToken router a = (code, a')"
  shows "code \<in> {0, 500} \<and>
    ad_policy a' = (if pk = None then ad_policy a else the (gu_Policy u)) \<and> ad_picker a' = (case pk of None \<Rightarrow> ad_picker a | Some p \<Rightarrow> p) \<and>
    ad_affinity a' = (ad_affinity a)\<lparr>a_Spill := asked (gu_AffinitySpill u) (a_Spill (ad_affinity a))\<rparr> \<and>
    ad_timeout a' = (if timeout > 0 then timeout else ad_timeout a) \<and> ad_firstToken a' = (if firstToken > 0 then firstToken else ad_firstToken a) \<and>
    ad_limit a' = asked (gu_ThermalLimitC u) (ad_limit a) \<and> ad_keys a' = ad_keys a \<and> ad_accessCfg a' = ad_accessCfg a \<and>
    (gu_Router u = None \<longrightarrow> ad_server a' = ad_server a) \<and>
    (gu_Router u \<noteq> None \<longrightarrow> ss_router (ad_server a') = router \<and> ss_routerStored (ad_server a'))"
proof -
  obtain a1 where a1: "a1 = (case pk of None \<Rightarrow> a | Some p \<Rightarrow> a\<lparr>ad_picker := p, ad_policy := the (gu_Policy u)\<rparr>)" by simp
  obtain a2 where a2: "a2 = (case gu_AffinitySpill u of None \<Rightarrow> a1 | Some n \<Rightarrow> a1\<lparr>ad_affinity := SetSpill n (ad_affinity a1)\<rparr>)" by simp
  obtain a3 where a3: "a3 = (if timeout > 0 then a2\<lparr>ad_timeout := timeout\<rparr> else a2)" by simp
  obtain a4 where a4: "a4 = (if firstToken > 0 then a3\<lparr>ad_firstToken := firstToken\<rparr> else a3)" by simp
  obtain a5 where a5: "a5 = (case gu_ThermalLimitC u of None \<Rightarrow> a4 | Some l \<Rightarrow> a4\<lparr>ad_limit := l\<rparr>)" by simp
  obtain ok s where s: "saveRouting (he_print env) (he_enc env) (he_ok env) ((ad_server a5)\<lparr>ss_router := router, ss_routerStored := True\<rparr>) = (ok, s)"
    by fastforce
  have r: "(code, a') = (if gu_Router u = None then (0, a5) else (if ok then 0 else 500, a5\<lparr>ad_server := s\<rparr>))"
    using assms s unfolding apply_settings_def Let_def a1 [symmetric] a2 [symmetric] a3 [symmetric] a4 [symmetric] a5 [symmetric]
    by (cases ok) (auto split: if_splits)
  note sf = saveRouting_frame [OF s]
  have f1: "ad_policy a1 = (if pk = None then ad_policy a else the (gu_Policy u)) \<and> ad_picker a1 = (case pk of None \<Rightarrow> ad_picker a | Some p \<Rightarrow> p) \<and>
    ad_affinity a1 = ad_affinity a \<and> ad_timeout a1 = ad_timeout a \<and> ad_firstToken a1 = ad_firstToken a \<and> ad_limit a1 = ad_limit a \<and>
    ad_keys a1 = ad_keys a \<and> ad_accessCfg a1 = ad_accessCfg a \<and> ad_server a1 = ad_server a" by (cases pk) (simp_all add: a1)
  have f2: "ad_policy a2 = ad_policy a1 \<and> ad_picker a2 = ad_picker a1 \<and>
    ad_affinity a2 = (ad_affinity a1)\<lparr>a_Spill := asked (gu_AffinitySpill u) (a_Spill (ad_affinity a1))\<rparr> \<and>
    ad_timeout a2 = ad_timeout a1 \<and> ad_firstToken a2 = ad_firstToken a1 \<and> ad_limit a2 = ad_limit a1 \<and>
    ad_keys a2 = ad_keys a1 \<and> ad_accessCfg a2 = ad_accessCfg a1 \<and> ad_server a2 = ad_server a1"
    by (cases "gu_AffinitySpill u") (simp_all add: a2 asked_def SetSpill_def)
  have f5: "ad_limit a5 = asked (gu_ThermalLimitC u) (ad_limit a4) \<and> ad_policy a5 = ad_policy a4 \<and> ad_picker a5 = ad_picker a4 \<and>
    ad_affinity a5 = ad_affinity a4 \<and> ad_timeout a5 = ad_timeout a4 \<and> ad_firstToken a5 = ad_firstToken a4 \<and>
    ad_keys a5 = ad_keys a4 \<and> ad_accessCfg a5 = ad_accessCfg a4 \<and> ad_server a5 = ad_server a4"
    by (cases "gu_ThermalLimitC u") (simp_all add: a5 asked_def)
  show ?thesis using r f1 f2 f5 sf by (simp add: a3 a4 split: if_splits)
qed

end
