(* ===== verification/AdminSettings.thy ===== *)
theory AdminSettings
  imports AdminApi
begin

text \<open>
  What the admin handlers of \<open>AdminApi\<close> guarantee: an update of the settings is applied as a whole or refused,
  the settings and the access control stay consistent, a drained node gets no request, and the lists and
  counts an operator sees are exact.
\<close>

subsection \<open>An update is applied or refused\<close>

lemma checks_or_refused:
  assumes "applyGatewayUpdate parse env u a = (code, a')"
  shows "code \<in> {400, 409} \<and> a' = a \<or>
    (\<exists>pk t f keys. check_policy (gu_Policy u) = Inr pk \<and> \<not> (case gu_AffinitySpill u of None \<Rightarrow> False | Some n \<Rightarrow> n < 1 \<or> n > 1000) \<and>
       check_duration parse (gu_UpstreamTimeout u) = Inr t \<and> check_duration parse (gu_FirstTokenTimeout u) = Inr f \<and>
       switch_auth (gu_AuthMode u) (ad_keys a) = Inr keys)"
proof (cases "check_policy (gu_Policy u)")
  case (Inl c)
  then show ?thesis using assms check_errors(1) by (auto simp: applyGatewayUpdate_def)
next
  case p: (Inr pk)
  let ?bad = "case gu_AffinitySpill u of None \<Rightarrow> False | Some n \<Rightarrow> n < 1 \<or> n > 1000"
  show ?thesis
  proof (cases ?bad)
    case True
    then show ?thesis using assms p by (simp add: applyGatewayUpdate_def)
  next
    case s: False
    show ?thesis
    proof (cases "check_duration parse (gu_UpstreamTimeout u)")
      case (Inl c)
      then show ?thesis using assms p s check_errors(2) [OF Inl] by (simp add: applyGatewayUpdate_def)
    next
      case t: (Inr t)
      show ?thesis
      proof (cases "check_duration parse (gu_FirstTokenTimeout u)")
        case (Inl c)
        then show ?thesis using assms p s t check_errors(2) [OF Inl] by (simp add: applyGatewayUpdate_def)
      next
        case f: (Inr f)
        show ?thesis
        proof (cases "switch_auth (gu_AuthMode u) (ad_keys a)")
          case (Inl c)
          then show ?thesis using assms p s t f check_errors(3) [OF Inl] by (simp add: applyGatewayUpdate_def)
        next
          case (Inr keys)
          then show ?thesis using p s t f by blast
        qed
      qed
    qed
  qed
qed

lemma update_applied:
  assumes ok: "check_policy (gu_Policy u) = Inr pk" "\<not> (case gu_AffinitySpill u of None \<Rightarrow> False | Some n \<Rightarrow> n < 1 \<or> n > 1000)"
      "check_duration parse (gu_UpstreamTimeout u) = Inr t" "check_duration parse (gu_FirstTokenTimeout u) = Inr f"
      "switch_auth (gu_AuthMode u) (ad_keys a) = Inr keys"
    and "\<not> (case gu_ThermalLimitC u of None \<Rightarrow> False | Some l \<Rightarrow> l < 0 \<or> l > 150)"
    and "apply_settings env u pk t f router (a\<lparr>ad_keys := keys\<rparr>) = (code, a')"
  shows "update_done parse u a a'"
proof -
  note d = apply_settings_done [OF assms(7)]
  note p = check_policy_Inr [OF ok(1)] and t = check_duration_Inr [OF ok(3)] and f = check_duration_Inr [OF ok(4)]
  note k = switch_auth_Inr [OF ok(5)]
  have "ad_policy a' = asked (gu_Policy u) (ad_policy a)"
    "gu_Policy u \<noteq> None \<longrightarrow> ad_policy a' = (if ad_picker a' = AffinityPicker then PolicyAffinity else PolicyLeastInflight)"
    "gu_Policy u = None \<longrightarrow> ad_picker a' = ad_picker a"
    using d p by (cases pk; auto simp: asked_def)+
  moreover have "gu_AffinitySpill u \<noteq> None \<longrightarrow> 1 \<le> a_Spill (ad_affinity a') \<and> a_Spill (ad_affinity a') \<le> 1000"
    using d ok(2) by (auto simp: asked_def)
  moreover have "ad_timeout a' = asked_duration parse (gu_UpstreamTimeout u) (ad_timeout a)"
    "gu_UpstreamTimeout u \<noteq> None \<longrightarrow> second \<le> ad_timeout a' \<and> ad_timeout a' \<le> 24 * 3600 * second"
    using d t by (cases "gu_UpstreamTimeout u"; simp add: asked_duration_def)+
  moreover have "ad_firstToken a' = asked_duration parse (gu_FirstTokenTimeout u) (ad_firstToken a)"
    "gu_FirstTokenTimeout u \<noteq> None \<longrightarrow> second \<le> ad_firstToken a' \<and> ad_firstToken a' \<le> 24 * 3600 * second"
    using d f by (cases "gu_FirstTokenTimeout u"; simp add: asked_duration_def)+
  moreover have "gu_ThermalLimitC u \<noteq> None \<longrightarrow> 0 \<le> ad_limit a' \<and> ad_limit a' \<le> 150"
    using d assms(6) by (auto simp: asked_def)
  moreover have "gu_AuthMode u = Some ''open'' \<longrightarrow> \<not> sk_enforced (ad_keys a)" using k by auto
  ultimately show ?thesis using d k unfolding update_done_def by (simp cong: if_cong option.case_cong)
qed

lemma update_helper:
  assumes "applyGatewayUpdate parse env u a = (code, a')"
  shows "code \<in> {0, 500} \<and> update_done parse u a a' \<and> router_done parse u a a' \<or>
    code \<in> {400, 409} \<and> (a' = a \<or> code = 400 \<and> gu_AuthMode u = Some ''keys'' \<and> a' = a\<lparr>ad_keys := (ad_keys a)\<lparr>sk_enforced := True\<rparr>\<rparr>)"
  using checks_or_refused [OF assms]
proof
  assume "code \<in> {400, 409} \<and> a' = a"
  then show ?thesis by blast
next
  let ?bad = "case gu_ThermalLimitC u of None \<Rightarrow> False | Some l \<Rightarrow> l < 0 \<or> l > 150"
  assume "\<exists>pk t f keys. check_policy (gu_Policy u) = Inr pk \<and> \<not> (case gu_AffinitySpill u of None \<Rightarrow> False | Some n \<Rightarrow> n < 1 \<or> n > 1000) \<and>
       check_duration parse (gu_UpstreamTimeout u) = Inr t \<and> check_duration parse (gu_FirstTokenTimeout u) = Inr f \<and>
       switch_auth (gu_AuthMode u) (ad_keys a) = Inr keys"
  then obtain pk t f keys where ok: "check_policy (gu_Policy u) = Inr pk" "\<not> (case gu_AffinitySpill u of None \<Rightarrow> False | Some n \<Rightarrow> n < 1 \<or> n > 1000)"
      "check_duration parse (gu_UpstreamTimeout u) = Inr t" "check_duration parse (gu_FirstTokenTimeout u) = Inr f"
      "switch_auth (gu_AuthMode u) (ad_keys a) = Inr keys" by blast
  let ?b = "a\<lparr>ad_keys := keys\<rparr>"
  have eq: "(if ?bad then (400, ?b)
      else case check_router parse (ss_router (ad_server a)) (gu_Router u) of Inl c \<Rightarrow> (c, ?b) | Inr router \<Rightarrow> apply_settings env u pk t f router ?b) = (code, a')"
    using assms ok by (simp add: applyGatewayUpdate_def Let_def cong: if_cong sum.case_cong)
  show ?thesis
  proof (cases "?bad \<or> (\<exists>c. check_router parse (ss_router (ad_server a)) (gu_Router u) = Inl c)")
    case True
    then have "code = 400" "a' = ?b" using eq check_errors(4) by (cases ?bad; force)+
    then show ?thesis using switch_auth_Inr [OF ok(5)] by (cases "gu_AuthMode u = Some ''keys''") simp_all
  next
    case False
    then obtain router where r: "check_router parse (ss_router (ad_server a)) (gu_Router u) = Inr router"
      by (cases "check_router parse (ss_router (ad_server a)) (gu_Router u)") blast+
    with False eq have ap: "apply_settings env u pk t f router ?b = (code, a')" by simp
    have "update_done parse u a a'" by (rule update_applied [OF ok _ ap]) (use False in blast)
    moreover have "router_done parse u a a'"
      using apply_settings_done [OF ap] r by (auto simp: router_done_def check_router_def split: option.splits sum.splits)
    ultimately show ?thesis using apply_settings_done [OF ap] by blast
  qed
qed

text \<open>
  C22. An update of the gateway's settings is applied as a whole or refused: on success, and when only the
  write of the router fails, every field it names has its new value, within its bounds, and every other
  field is as before; otherwise nothing has changed, except that key authentication stays switched on when
  the update asked for it along with a bad thermal limit or router.
\<close>

theorem gateway_update_all_or_nothing:
  assumes "applyGatewayUpdate parse env u a = (code, a')"
  shows "code \<in> {0, 500} \<and> update_done parse u a a' \<and> router_done parse u a a' \<or>
    code \<in> {400, 409} \<and> (a' = a \<or> code = 400 \<and> gu_AuthMode u = Some ''keys'' \<and> a' = a\<lparr>ad_keys := (ad_keys a)\<lparr>sk_enforced := True\<rparr>\<rparr>)"
  by (rule update_helper [OF assms])

text \<open>Against the comment of \<open>applyGatewayUpdate\<close>, a bad field does change something: the keys stay enforced.\<close>

lemma bad_update_enforces_keys:
  assumes "sk_entries (ad_keys a) \<noteq> []" "\<not> sk_enforced (ad_keys a)"
  shows "\<exists>a'. applyGatewayUpdate parse env \<lparr>gu_Policy = None, gu_AffinitySpill = None, gu_UpstreamTimeout = None, gu_FirstTokenTimeout = None,
      gu_AuthMode = Some ''keys'', gu_ThermalLimitC = Some 200, gu_Router = None\<rparr> a = (400, a') \<and> authMode a = ''open'' \<and> authMode a' = ''keys''"
  using assms by (simp add: applyGatewayUpdate_def check_policy_def check_duration_def switch_auth_def Enforce_def authMode_def)

text \<open>
  The note in the answer of \<open>adminCreateKey\<close> says that requests without a key are served as "anonymous" whenever
  keys are not enforced; with the access mode "local" a remote request without a key is refused all the same.
\<close>

lemma open_note_is_wrong:
  assumes "\<not> sk_enforced (ad_keys a)" "ad_accessCfg a = AccessLocal" "Lookup_key sha (ad_keys a) r = None"
    "ac = \<lparr>ac_Keys = ad_keys a, ac_Mode = ad_accessCfg a, ac_Trusted = ts, ac_TrustedProxies = ps\<rparr>" "\<not> isTrusted pip split ac r"
  shows "NoteGatewayOpen \<in> set (ck_Notes (created_answer a key e)) \<and> Authenticate sha pip split ac r = Inl ErrRemoteRequiresKey"
  using assms by (simp add: created_answer_def Authenticate_def)

subsection \<open>The settings stay consistent\<close>

text \<open>A server as \<open>NewServer\<close> makes it, and the requests of the admin API that change its state.\<close>

definition new_admin :: "go_duration \<Rightarrow> go_duration \<Rightarrow> real \<Rightarrow> static_keys \<Rightarrow> string \<Rightarrow> server_state \<Rightarrow> go_time \<Rightarrow> admin_state" where
  "new_admin timeout firstToken limit keys mode s now =
     \<lparr>ad_policy = PolicyAffinity, ad_picker = AffinityPicker, ad_affinity = NewAffinity now, ad_timeout = timeout, ad_firstToken = firstToken,
      ad_limit = limit, ad_keys = keys, ad_accessCfg = (if mode = '''' then AccessOpen else mode), ad_server = s\<rparr>"

inductive admin_step :: "(string \<Rightarrow> go_duration option) \<Rightarrow> admin_state \<Rightarrow> admin_state \<Rightarrow> bool" for parse where
  set_gateway: "admin_step parse a (snd (adminSetGateway parse env body a))"
| drain: "admin_step parse a (snd (adminDrain d i a))"
| forget: "admin_step parse a (snd (adminForget i a))"
| list_nodes: "admin_step parse a (snd (adminNodeList inflight a))"
| create_key: "admin_step parse a (fst (snd (adminCreateKey sha ftime fault tmp rnd now body (a, fs))))"
| revoke_key: "admin_step parse a (fst (snd (adminRevokeKey ftime fault tmp name (a, fs))))"

definition settings_ok :: "admin_state \<Rightarrow> bool" where
  "settings_ok a \<longleftrightarrow> ad_policy a = (if ad_picker a = AffinityPicker then PolicyAffinity else PolicyLeastInflight) \<and>
     1 \<le> a_Spill (ad_affinity a) \<and> a_Spill (ad_affinity a) \<le> 1000 \<and> router_ok (ss_router (ad_server a))"

lemma keys_enforced_kept:
  "sk_enforced (fst (snd (Create_key sha ftime fault tmp rnd now name (keys, fs)))) = sk_enforced keys"
  "sk_enforced (fst (snd (Revoke_key ftime fault tmp name (keys, fs)))) = sk_enforced keys"
  by (auto simp: Create_key_def Revoke_key_def Let_def split: option.splits prod.splits)

lemma settings_ok_update:
  assumes "settings_ok a" "update_done parse u a a'" "router_done parse u a a'"
  shows "settings_ok a' \<and> (sk_enforced (ad_keys a) \<longrightarrow> sk_enforced (ad_keys a')) \<and> ad_accessCfg a' = ad_accessCfg a"
proof -
  have "router_ok (ss_router (ad_server a'))"
    using assms(1,3) router_ok_update by (auto simp: settings_ok_def router_done_def split: option.splits)
  moreover have "1 \<le> a_Spill (ad_affinity a') \<and> a_Spill (ad_affinity a') \<le> 1000"
    using assms(1,2) by (cases "gu_AffinitySpill u") (auto simp: settings_ok_def update_done_def asked_def)
  moreover have "ad_policy a' = (if ad_picker a' = AffinityPicker then PolicyAffinity else PolicyLeastInflight)"
    using assms(1,2) by (cases "gu_Policy u") (auto simp: settings_ok_def update_done_def asked_def)
  ultimately show ?thesis using assms(2) by (simp add: settings_ok_def update_done_def)
qed

lemma prune_spill: "a_Spill (prune a) = a_Spill a"
  by (simp add: prune_def Let_def)

lemma set_drained_frame:
  "set_drained i d s = (code, s') \<Longrightarrow> ss_router s' = ss_router s"
  by (auto simp: set_drained_def split: option.splits sum.splits prod.splits)

lemma admin_step_ok:
  assumes "admin_step parse a b" "settings_ok a"
  shows "settings_ok b \<and> (sk_enforced (ad_keys a) \<longrightarrow> sk_enforced (ad_keys b)) \<and> ad_accessCfg b = ad_accessCfg a"
  using assms(1)
proof cases
  case (set_gateway env body)
  show ?thesis
  proof (cases body)
    case None
    then show ?thesis using set_gateway assms(2) by (simp add: adminSetGateway_def)
  next
    case (Some u)
    obtain code a' where u: "applyGatewayUpdate parse env u a = (code, a')" by fastforce
    then have b: "b = a'" using set_gateway Some by (simp add: adminSetGateway_def)
    show ?thesis using update_helper [OF u] settings_ok_update [OF assms(2)] assms(2) unfolding b by (auto simp: settings_ok_def)
  qed
next
  case (drain d i)
  obtain code s where s: "set_drained i d (ad_server a) = (code, s)" by fastforce
  show ?thesis
    using drain s set_drained_frame [OF s] assms(2) by (simp add: adminDrain_def Let_def Unpin_def settings_ok_def Replan_call_def split: prod.splits if_splits)
next
  case (forget i)
  then show ?thesis using assms(2) by (simp add: adminForget_def Let_def Unpin_def settings_ok_def Replan_call_def split: sum.splits)
next
  case (list_nodes inflight)
  then show ?thesis using assms(2) by (simp add: adminNodeList_def Pins_def View_def Let_def settings_ok_def prune_spill)
next
  case (create_key sha ftime fault tmp rnd now body fs)
  obtain keys fs' r where c: "Create_key sha ftime fault tmp rnd now (the body) (ad_keys a, fs) = (r, (keys, fs'))" by (metis prod_cases3)
  have "b = a \<or> b = a\<lparr>ad_keys := keys\<rparr>"
    using create_key c by (cases body) (auto simp: adminCreateKey_def Let_def split: sum.splits auth_error.splits prod.splits)
  then show ?thesis using assms(2) keys_enforced_kept(1) [of sha ftime fault tmp rnd now "the body" "ad_keys a" fs] c by (auto simp: settings_ok_def)
next
  case (revoke_key ftime fault tmp name fs)
  then show ?thesis using assms(2) keys_enforced_kept(2) [of ftime fault tmp name "ad_keys a" fs]
    by (auto simp: adminRevokeKey_def settings_ok_def split: prod.splits)
qed

lemma admin_steps_ok:
  assumes "(admin_step parse)\<^sup>*\<^sup>* a b" "settings_ok a"
  shows "settings_ok b \<and> (sk_enforced (ad_keys a) \<longrightarrow> sk_enforced (ad_keys b))"
  using assms(1)
proof (induction rule: rtranclp_induct)
  case base
  then show ?case using assms(2) by simp
next
  case (step b c)
  then show ?case using admin_step_ok by blast
qed

lemma settings_ok_new: "router_ok (ss_router s) \<Longrightarrow> settings_ok (new_admin timeout firstToken limit keys mode s now)"
  by (simp add: settings_ok_def new_admin_def NewAffinity_def)

text \<open>
  C39. Whatever requests the admin API gets, the policy it reports is the picker the gateway uses, the spill
  threshold stays between 1 and 1000 and the router valid; and key authentication can only be switched on:
  once enforced, it is reported as access mode "keys" and every request without a stored key is refused, in
  every configured mode.
\<close>

theorem admin_settings_invariant:
  assumes "(admin_step parse)\<^sup>*\<^sup>* (new_admin timeout firstToken limit keys mode s now) a" "(admin_step parse)\<^sup>*\<^sup>* a b" "router_ok (ss_router s)"
  shows "settings_ok b \<and>
    (sk_enforced (ad_keys a) \<longrightarrow> accessMode b = AccessKeys \<and>
      (\<forall>ac r. ac_Keys ac = ad_keys b \<longrightarrow> Lookup_key sha (ad_keys b) r = None \<longrightarrow> Authenticate sha pip split ac r = Inl ErrUnauthorized))"
proof -
  have "settings_ok a" using admin_steps_ok [OF assms(1)] settings_ok_new [OF assms(3)] by blast
  from admin_steps_ok [OF assms(2) this] show ?thesis by (simp add: accessMode_def Authenticate_def)
qed

subsection \<open>Draining\<close>

text \<open>What the gateway routes over: the registry, the externals and the heads of Big Brain pools.\<close>

definition all_backends :: "string \<Rightarrow> backend list \<Rightarrow> admin_state \<Rightarrow> backend list" where
  "all_backends host bb a =
     (let (nodes, drained) = View (ss_reg (ad_server a))
      in Backends nodes drained host (ad_limit a) (ext_backends (ss_ext (ad_server a)) @ bb))"

lemma Backends_origin:
  assumes "b \<in> set (Backends nodes drained host limit ext)"
  shows "(\<exists>n \<in> set nodes. b_NodeID b = nd_ID n \<and> b_Drained b = drained (nd_ID n)) \<or>
    (\<exists>x \<in> set ext. b_NodeID b = b_NodeID x \<and> b_Drained b = b_Drained x)"
proof -
  let ?out = "node_backends drained host limit nodes @ map (\<lambda>b. (b, b_Speed b > 0)) ext"
  let ?f = "\<lambda>(b, measured). if list_ex snd ?out \<and> \<not> measured then b\<lparr>b_Speed := 0\<rparr> else b"
  have "b \<in> ?f ` set ?out" using assms by (simp only: Backends_def Let_def set_map)
  then obtain x where x: "x \<in> set ?out" "b = ?f x" by (rule imageE)
  have b: "b_NodeID b = b_NodeID (fst x)" "b_Drained b = b_Drained (fst x)"
    using x(2) by (cases "list_ex snd ?out"; cases "snd x"; simp add: case_prod_beta del: list_ex_append)+
  consider n where "n \<in> set nodes" "b_NodeID (fst x) = nd_ID n" "b_Drained (fst x) = drained (nd_ID n)"
    | y where "y \<in> set ext" "x = (y, b_Speed y > 0)"
    using x(1) unfolding set_append set_map node_backends_def by (force simp: node_backend_def Let_def)
  then show ?thesis using b by cases auto
qed

lemma ext_backend_origin:
  assumes "ext_inv (e, ps)" "b \<in> set (ext_backends e)"
  shows "\<exists>name n. map_of (ex_byName e) name = Some n \<and> b_NodeID b = ExternalPrefix @ name \<and> b_Drained b = en_drained n"
proof -
  obtain n where n: "n \<in> set (sorted_nodes e)" "b \<in> set (ext_node_backends n)" using assms(2) by (auto simp: ext_backends_def)
  then obtain name where m: "map_of (ex_byName e) name = Some n" using assms(1) by (auto simp: set_sorted_nodes ext_inv_def)
  then have "xc_Name (en_cfg n) = name" using assms(1) by (auto simp: ext_inv_def ext_node_ok_def)
  then show ?thesis using n(2) m by (auto simp: ext_node_backends_def split: if_splits)
qed

lemma all_backends_drained:
  assumes ext: "ext_inv (ss_ext (ad_server a), ps)" and b: "b \<in> set (all_backends host bb a)" "b_NodeID b = i"
    and bb: "\<forall>x \<in> set bb. b_NodeID x \<noteq> i" and reg: "\<forall>n \<in> set (Snapshot (ss_reg (ad_server a))). \<not> has_prefix (nd_ID n) ExternalPrefix"
  shows "(case cut_prefix i ExternalPrefix of
      None \<Rightarrow> b_Drained b = (i \<in> set (rg_drained (ss_reg (ad_server a))))
    | Some name \<Rightarrow> \<exists>n. map_of (ex_byName (ss_ext (ad_server a))) name = Some n \<and> b_Drained b = en_drained n)"
proof -
  let ?s = "ad_server a"
  have "(\<exists>n \<in> set (Snapshot (ss_reg ?s)). i = nd_ID n \<and> b_Drained b = (i \<in> set (rg_drained (ss_reg ?s)))) \<or>
    (\<exists>x \<in> set (ext_backends (ss_ext ?s) @ bb). i = b_NodeID x \<and> b_Drained b = b_Drained x)"
    using Backends_origin b unfolding all_backends_def View_def Let_def by fastforce
  then consider n where "n \<in> set (Snapshot (ss_reg ?s))" "i = nd_ID n" "b_Drained b = (i \<in> set (rg_drained (ss_reg ?s)))"
    | x where "x \<in> set (ext_backends (ss_ext ?s))" "i = b_NodeID x" "b_Drained b = b_Drained x"
    using bb by auto
  then show ?thesis
  proof cases
    case 1
    then have "cut_prefix i ExternalPrefix = None" using reg by (auto simp: cut_prefix_def)
    then show ?thesis using 1(3) by simp
  next
    case 2
    from ext_backend_origin [OF ext 2(1)] obtain name n where n: "map_of (ex_byName (ss_ext ?s)) name = Some n"
      "i = ExternalPrefix @ name" "b_Drained b = en_drained n" using 2 by auto
    have "cut_prefix i ExternalPrefix = Some name" unfolding n(2) by (rule cut_prefix_append)
    then show ?thesis using n by simp
  qed
qed

definition drained_now :: "node_id \<Rightarrow> server_state \<Rightarrow> bool" where
  "drained_now i s \<longleftrightarrow>
     (case cut_prefix i ExternalPrefix of
        None \<Rightarrow> i \<in> set (rg_drained (ss_reg s))
      | Some name \<Rightarrow> \<exists>n. map_of (ex_byName (ss_ext s)) name = Some n \<and> en_drained n)"

lemma set_drained_result:
  assumes "set_drained i d s = (code, s')"
  shows "code = 404 \<and> s' = s \<or>
    code = 0 \<and> drained_now i s' = d \<and> rg_nodes (ss_reg s') = rg_nodes (ss_reg s) \<and> rg_aliases (ss_reg s') = rg_aliases (ss_reg s)"
proof (cases "cut_prefix i ExternalPrefix")
  case None
  then show ?thesis using assms by (auto simp: set_drained_def SetDrained_def drained_now_def split: sum.splits if_splits)
next
  case (Some name)
  then show ?thesis using assms
    by (cases "map_of (ex_byName (ss_ext s)) name") (auto simp: set_drained_def ext_setDrained_def drained_now_def update_conv)
qed

lemma drain_result:
  assumes "adminDrain d i a = (r, a')"
  shows "(\<exists>s. set_drained i d (ad_server a) = (404, s)) \<and> r = Inl 404 \<and> a' = a \<or>
    (\<exists>s moved. set_drained i d (ad_server a) = (0, s) \<and> r = Inr moved \<and> (ad_server a' = s \<or> ad_server a' = Replan_call s) \<and>
       ad_limit a' = ad_limit a \<and>
       (moved, ad_affinity a') = (if d then Unpin i (ad_affinity a) else (0, ad_affinity a)))"
proof -
  obtain code s where s: "set_drained i d (ad_server a) = (code, s)" by fastforce
  consider "code = 404" "s = ad_server a" | "code = 0" using set_drained_result [OF s] by blast
  then show ?thesis
  proof cases
    case 1
    then show ?thesis using assms s by (auto simp: adminDrain_def Let_def)
  next
    case 2
    then show ?thesis using assms s by (auto simp: adminDrain_def Let_def split: prod.splits if_splits)
  qed
qed

lemma set_drained_ext:
  assumes "set_drained i d s = (code, s')" "ext_inv (ss_ext s, ps)"
  shows "ext_inv (ss_ext s', ps)"
proof (cases "cut_prefix i ExternalPrefix")
  case None
  then show ?thesis using assms by (auto simp: set_drained_def split: sum.splits)
next
  case (Some name)
  then have "ss_ext s' = snd (ext_setDrained name d (ss_ext s))"
    using assms(1) by (auto simp: set_drained_def split: prod.splits)
  then show ?thesis using ext_inv_step [OF ext_drain assms(2)] by simp
qed

lemma Unpin_facts:
  "Unpin i aff = (moved, aff') \<Longrightarrow> moved = length (filter (\<lambda>e. p_node (snd e) = i) (a_keys aff)) \<and>
     a_keys aff' = filter (\<lambda>e. p_node (snd e) \<noteq> i) (a_keys aff)"
  by (auto simp: Unpin_def case_prod_unfold)

lemma drained_helper:
  assumes "adminDrain True i a = (Inr moved, a')" "ext_reachable (ss_ext (ad_server a))"
    "\<forall>n \<in> set (Snapshot (ss_reg (ad_server a))). \<not> has_prefix (nd_ID n) ExternalPrefix" "\<forall>x \<in> set bb. b_NodeID x \<noteq> i"
  shows "\<forall>b \<in> set (all_backends host bb a'). b_NodeID b = i \<longrightarrow> b_Drained b"
proof -
  obtain s where s: "set_drained i True (ad_server a) = (0, s)" "ad_server a' = s \<or> ad_server a' = Replan_call s"
    using drain_result [OF assms(1)] by auto
  have eq: "ss_reg (ad_server a') = ss_reg s" "ss_ext (ad_server a') = ss_ext s" using s(2) by (auto simp: Replan_call_def)
  have d: "drained_now i s" "rg_nodes (ss_reg s) = rg_nodes (ss_reg (ad_server a))" "rg_aliases (ss_reg s) = rg_aliases (ss_reg (ad_server a))"
    using set_drained_result [OF s(1)] by auto
  have snap: "Snapshot (ss_reg (ad_server a')) = Snapshot (ss_reg (ad_server a))"
    unfolding eq Snapshot_def alias_of_def d by simp
  obtain ps where "ext_inv (ss_ext (ad_server a), ps)" using ext_reachable_inv [OF assms(2)] by blast
  then have ext: "ext_inv (ss_ext (ad_server a'), ps)" using set_drained_ext [OF s(1)] by (simp add: eq)
  show ?thesis
  proof (intro ballI impI)
    fix b assume "b \<in> set (all_backends host bb a')" "b_NodeID b = i"
    from all_backends_drained [OF ext this assms(4) assms(3) [folded snap]] d(1) show "b_Drained b"
      unfolding eq drained_now_def by (auto split: option.splits)
  qed
qed

text \<open>
  C40. When draining a node succeeds, the gateway sends it nothing more: it is eligible for no target, phone
  or external engine, with or without tools; the sessions pinned to it, and only those, lose their pin, and
  the answer counts them.  (The ids of phones must not start with the prefix of the externals.)
\<close>

theorem drained_node_gets_nothing:
  assumes "adminDrain True i a = (Inr moved, a')" "ext_reachable (ss_ext (ad_server a))"
    "\<forall>n \<in> set (Snapshot (ss_reg (ad_server a))). \<not> has_prefix (nd_ID n) ExternalPrefix" "\<forall>x \<in> set bb. b_NodeID x \<noteq> i"
  shows "(\<forall>b \<in> set (eligible_backends tags tgt wantTools (all_backends host bb a')). b_NodeID b \<noteq> i) \<and>
    moved = length (filter (\<lambda>e. p_node (snd e) = i) (a_keys (ad_affinity a))) \<and>
    a_keys (ad_affinity a') = filter (\<lambda>e. p_node (snd e) \<noteq> i) (a_keys (ad_affinity a))"
proof -
  have "b_NodeID b \<noteq> i" if "b \<in> set (eligible_backends tags tgt wantTools (all_backends host bb a'))" for b
    using set_eligible [OF that] drained_helper [OF assms] by blast
  moreover have "(moved, ad_affinity a') = Unpin i (ad_affinity a)" using drain_result [OF assms(1)] by auto
  ultimately show ?thesis using Unpin_facts by metis
qed

text \<open>
  Nothing keeps a phone from registering under such an id.  It is then served like any other, but the admin
  API cannot drain it.
\<close>

lemma prefixed_phone_cannot_be_drained:
  assumes "\<not> ext_has (ss_ext (ad_server a)) name" "i = ExternalPrefix @ name" "rr_NodeID q = i"
    "map_of (rg_nodes (ss_reg (ad_server a))) i = None" "a1 = a\<lparr>ad_server := (ad_server a)\<lparr>ss_reg := Register now q addr (ss_reg (ad_server a))\<rparr>\<rparr>"
  shows "known_node (ss_reg (ad_server a1)) i \<and> adminDrain True i a1 = (Inl 404, a1)"
proof -
  have "cut_prefix i ExternalPrefix = Some name" unfolding assms(2) by (rule cut_prefix_append)
  then have "adminDrain True i a1 = (Inl 404, a1)"
    using assms(1,5) by (simp add: adminDrain_def set_drained_def ext_setDrained_def ext_has_def Let_def)
  moreover have "known_node (ss_reg (ad_server a1)) i"
    using assms(3-5) by (simp add: known_node_def Register_def new_node_def setState_def Let_def update_conv)
  ultimately show ?thesis by blast
qed

subsection \<open>What the operator sees\<close>

lemma count_nodes_spec:
  "count_nodes drained nodes =
     ((\<lambda>st. length (filter (\<lambda>n. nd_State n = st) nodes)), length (filter (\<lambda>n. drained (nd_ID n)) nodes))"
proof -
  have "foldl (\<lambda>(f, k) n. (bump f (nd_State n), if drained (nd_ID n) then Suc k else k)) (f, k) nodes =
    ((\<lambda>st. f st + length (filter (\<lambda>n. nd_State n = st) nodes)), k + length (filter (\<lambda>n. drained (nd_ID n)) nodes))" for f k
    by (induction nodes arbitrary: f k) (auto simp: bump_def)
  then show ?thesis by (simp add: count_nodes_def)
qed

lemma count_external_spec:
  "count_external bs f = (\<lambda>m. f m + length (filter (\<lambda>b. \<not> b_Drained b \<and> b_Model b = m) bs))"
  unfolding count_external_def by (induction bs arbitrary: f) (auto simp: bump_def)

lemma count_ready_spec:
  "count_ready bs = (length (filter (\<lambda>b. \<not> b_Drained b) bs), \<lambda>m. length (filter (\<lambda>b. \<not> b_Drained b \<and> b_Model b = m) bs))"
proof -
  have "foldl (\<lambda>(k, f) b. if \<not> b_Drained b then (Suc k, bump f (b_Model b)) else (k, f)) (k, f) bs =
    (k + length (filter (\<lambda>b. \<not> b_Drained b) bs), \<lambda>m. f m + length (filter (\<lambda>b. \<not> b_Drained b \<and> b_Model b = m) bs))" for k f
    by (induction bs arbitrary: k f) (auto simp: bump_def)
  then show ?thesis by (simp add: count_ready_def)
qed

text \<open>The row of a name: its number of entries and their earliest time.\<close>

definition earliest :: "go_time list \<Rightarrow> go_time option" where
  "earliest ts = (if ts = [] then None else Some (Min (set ts)))"

definition row_of :: "(string \<Rightarrow> usage_counters option) \<Rightarrow> key_entry list \<Rightarrow> string \<Rightarrow> admin_key" where
  "row_of usage es k = \<lparr>aky_Name = k, aky_Keys = int (length (filter (\<lambda>e. ke_Name e = k) es)),
     aky_Created = earliest (List.map_filter ke_Created (filter (\<lambda>e. ke_Name e = k) es)),
     aky_Usage = counters_of usage k\<rparr>"

lemma earliest_snoc: "earliest (ts @ [t]) = earlier_created (Some t) (earliest ts)"
proof (cases "ts = []")
  case False
  obtain m where m: "m = Min (set ts)" by simp
  have "Min (set (ts @ [t])) = min t m" using False m by simp
  then have "Min (set (ts @ [t])) = (if t < m then t else m)" by auto
  then show ?thesis using False unfolding earliest_def m [symmetric] by (simp add: earlier_created_def)
qed (simp add: earliest_def earlier_created_def)

lemma map_filter_snoc: "List.map_filter f (xs @ [x]) = List.map_filter f xs @ (case f x of None \<Rightarrow> [] | Some y \<Rightarrow> [y])"
  by (simp add: List.map_filter_def split: option.splits)

lemma row_of_snoc:
  "row_of usage (es @ [e]) k =
     (if ke_Name e = k
      then (row_of usage es k)\<lparr>aky_Keys := aky_Keys (row_of usage es k) + 1, aky_Created := earlier_created (ke_Created e) (aky_Created (row_of usage es k))\<rparr>
      else row_of usage es k)"
  by (cases "ke_Created e") (simp_all add: row_of_def map_filter_snoc earliest_snoc earlier_created_def)

lemma key_rows_snoc: "key_rows usage (es @ [e]) = add_key_row usage (key_rows usage es) e"
  by (simp add: key_rows_def)

lemma key_rows_spec:
  "map_of (key_rows usage es) k = (if k \<in> ke_Name ` set es then Some (row_of usage es k) else None) \<and>
   set (keys_of (key_rows usage es)) = ke_Name ` set es \<and> distinct (keys_of (key_rows usage es)) \<and>
   (sorted (map ke_Name es) \<longrightarrow> sorted (keys_of (key_rows usage es)))"
proof (induction es arbitrary: k rule: rev_induct)
  case Nil
  then show ?case by (simp add: key_rows_def)
next
  case (snoc e es)
  let ?n = "ke_Name e" and ?rows = "key_rows usage es"
  have r: "key_rows usage (es @ [e]) = AList.update ?n (row_of usage (es @ [e]) ?n) ?rows"
  proof (cases "?n \<in> ke_Name ` set es")
    case True
    then show ?thesis using snoc [of ?n] by (simp add: key_rows_snoc add_key_row_def row_of_snoc Let_def)
  next
    case False
    then have "filter (\<lambda>x. ke_Name x = ?n) es = []" by (simp add: filter_empty_conv) (metis image_eqI)
    then have "row_of usage es ?n = \<lparr>aky_Name = ?n, aky_Keys = 0, aky_Created = None, aky_Usage = counters_of usage ?n\<rparr>"
      by (simp add: row_of_def earliest_def List.map_filter_def)
    then show ?thesis using snoc [of ?n] False by (simp add: key_rows_snoc add_key_row_def row_of_snoc Let_def)
  qed
  have k: "keys_of (key_rows usage (es @ [e])) = (if ?n \<in> ke_Name ` set es then keys_of ?rows else keys_of ?rows @ [?n])"
    unfolding r using snoc [of k] by (simp add: update_keys)
  have "map_of (key_rows usage (es @ [e])) k = (if k \<in> ke_Name ` set (es @ [e]) then Some (row_of usage (es @ [e]) k) else None)"
    unfolding r update_conv' using snoc [of k] by (auto simp: row_of_snoc)
  moreover have "sorted (map ke_Name (es @ [e])) \<longrightarrow> sorted (keys_of (key_rows usage (es @ [e])))"
    unfolding k using snoc [of k] by (auto simp: sorted_append)
  ultimately show ?case unfolding k using snoc [of k] by auto
qed

lemma rows_of_alist: "distinct (keys_of rows) \<Longrightarrow> map snd rows = map (\<lambda>k. the (map_of rows k)) (keys_of rows)"
  by (auto simp: comp_def)

text \<open>
  What the operator is shown is exact.  The summary counts, for each state, the nodes in it, the drained
  nodes, the backends that get traffic and for each model those that serve it, externals included.  The list
  of keys has one row for each owner, in the order of names, with the number of its keys, the earliest of
  their times and its usage.
\<close>

theorem admin_reports_exact:
  "(let c = adminStats inflight a; r = ss_reg (ad_server a);
        bs = Backends (fst (View r)) (snd (View r)) [] (ad_limit a) []; xs = ext_backends (ss_ext (ad_server a))
    in cls_Nodes c = length (Snapshot r) \<and> (\<forall>st. cls_ByState c st = length (filter (\<lambda>n. nd_State n = st) (Snapshot r))) \<and>
       cls_Drained c = length (filter (\<lambda>n. nd_ID n \<in> set (rg_drained r)) (Snapshot r)) \<and> cls_ReadyBackends c = length (routable bs) \<and>
       (\<forall>m. cls_Models c m = length (filter (\<lambda>b. b_Model b = m) (routable (bs @ xs))))) \<and>
   (\<exists>names. snd (snd (adminKeys u a)) = map (row_of (keyUsage u) (List_keys (ad_keys a))) names \<and>
      sorted names \<and> distinct names \<and> set names = ke_Name ` set (sk_entries (ad_keys a)))"
proof -
  let ?es = "List_keys (ad_keys a)" let ?rows = "key_rows (keyUsage u) ?es"
  have srt: "sorted (map ke_Name ?es)" "set ?es = set (sk_entries (ad_keys a))" by (simp_all add: List_keys_def)
  note spec = key_rows_spec [of "keyUsage u" ?es]
  have "map snd ?rows = map (\<lambda>k. the (map_of ?rows k)) (keys_of ?rows)" by (rule rows_of_alist) (use spec in blast)
  also have "\<dots> = map (row_of (keyUsage u) ?es) (keys_of ?rows)" using spec by (intro map_cong) auto
  finally have "snd (snd (adminKeys u a)) = map (row_of (keyUsage u) ?es) (keys_of ?rows)" by (simp add: adminKeys_def)
  then have keys: "\<exists>names. snd (snd (adminKeys u a)) = map (row_of (keyUsage u) ?es) names \<and>
      sorted names \<and> distinct names \<and> set names = ke_Name ` set (sk_entries (ad_keys a))"
    using spec srt by blast
  show ?thesis
    using keys by (simp add: adminStats_def View_def Let_def count_nodes_spec count_ready_spec count_external_spec routable_def conj_commute)
qed

subsection \<open>Samples\<close>

definition sample_admin :: admin_state where
  "sample_admin = new_admin (60 * second) 0 0 (sample_store\<lparr>sk_entries := [sample_entry]\<rparr>) AccessLocal (sample_server\<lparr>ss_ext := sample_externals\<rparr>) 0"

definition sample_update :: gateway_update where
  "sample_update = \<lparr>gu_Policy = Some PolicyLeastInflight, gu_AffinitySpill = Some 5, gu_UpstreamTimeout = None, gu_FirstTokenTimeout = None,
     gu_AuthMode = Some ''keys'', gu_ThermalLimitC = None, gu_Router = None\<rparr>"

definition sample_enforced :: admin_state where
  "sample_enforced = snd (applyGatewayUpdate (\<lambda>_. None) sample_handler sample_update sample_admin)"

lemma sample_enforced_update: "applyGatewayUpdate (\<lambda>_. None) sample_handler sample_update sample_admin = (0, sample_enforced)"
  by (simp add: sample_enforced_def applyGatewayUpdate_def sample_update_def check_policy_def check_duration_def switch_auth_def Enforce_def
      sample_admin_def new_admin_def check_router_def apply_settings_def)

theorem gateway_update_all_or_nothing_witness:
  "ad_policy sample_enforced = PolicyLeastInflight \<and> a_Spill (ad_affinity sample_enforced) = 5 \<and> ad_limit sample_enforced = ad_limit sample_admin"
  using gateway_update_all_or_nothing [OF sample_enforced_update]
  by (simp add: update_done_def asked_def sample_update_def)

lemma sample_keys_enforced: "sk_enforced (ad_keys sample_enforced)"
  using update_helper [OF sample_enforced_update] by (simp add: update_done_def sample_update_def)

theorem admin_settings_invariant_witness:
  "accessMode (snd (adminDrain True ''ext:mac'' sample_enforced)) = AccessKeys"
proof -
  let ?p = "\<lambda>_ :: string. None :: go_duration option"
  have "admin_step ?p sample_admin (snd (adminSetGateway ?p sample_handler (Some sample_update) sample_admin))" by (rule set_gateway)
  then have s: "admin_step ?p sample_admin sample_enforced" by (simp add: adminSetGateway_def sample_enforced_update)
  have r: "router_ok (ss_router (sample_server\<lparr>ss_ext := sample_externals\<rparr>))"
    by (simp add: sample_server_def fresh_server_def router_ok_default)
  show ?thesis
    using admin_settings_invariant [OF r_into_rtranclp [of "admin_step ?p", OF s [unfolded sample_admin_def]]
        r_into_rtranclp [of "admin_step ?p", OF drain [of ?p sample_enforced True "''ext:mac''"]] r] sample_keys_enforced by blast
qed

theorem drained_node_gets_nothing_witness:
  "\<exists>moved a'. adminDrain True ''ext:mac'' sample_admin = (Inr moved, a') \<and>
     (\<forall>b \<in> set (eligible_backends (\<lambda>_. []) no_target False (all_backends ''h'' [] a')). b_NodeID b \<noteq> ''ext:mac'')"
proof -
  have e: "ss_ext (ad_server sample_admin) = sample_externals" "Snapshot (ss_reg (ad_server sample_admin)) = []"
    by (simp_all add: sample_admin_def new_admin_def sample_server_def fresh_server_def NewRegistry_def Snapshot_def)
  have "cut_prefix ''ext:mac'' ExternalPrefix = Some ''mac''" by (simp add: cut_prefix_def has_prefix_def)
  moreover have "map_of (ex_byName sample_externals) ''mac'' \<noteq> None" by (simp add: sample_ext_defs)
  ultimately obtain s where "set_drained ''ext:mac'' True (ad_server sample_admin) = (0, s)"
    by (auto simp: set_drained_def ext_setDrained_def e)
  then obtain moved a' where d: "adminDrain True ''ext:mac'' sample_admin = (Inr moved, a')"
    using drain_result [of True "''ext:mac''" sample_admin] by (metis Pair_inject prod.collapse zero_neq_numeral)
  have "ext_reachable (ss_ext (ad_server sample_admin))" "\<forall>n \<in> set (Snapshot (ss_reg (ad_server sample_admin))). \<not> has_prefix (nd_ID n) ExternalPrefix"
    using sample_ext_reachable by (simp_all add: e)
  from drained_node_gets_nothing [OF d this, of "[]"] d show ?thesis by auto
qed

end
