(* ===== verification/Devices.thy ===== *)
theory Devices
  imports Registry Auth Router
begin

text \<open>
  Phones on USB (ADR-019).  The controller's side (\<^verbatim>\<open>devices.go\<close>, \<^verbatim>\<open>proto/devices.go\<close>): what each host reports,
  the setting \<open>auto_provision\<close> and the operator's requests.  The host's side (\<^verbatim>\<open>src/provisioner/devices.go\<close>, the
  loop \<open>Watch\<close> of \<^verbatim>\<open>provision.go\<close>, the parser of \<^verbatim>\<open>adb.go\<close>): one turn of the loop.

  Maps that are ranged over are association lists and sets of serials are lists.  The output of adb, the
  outcome of \<open>Provision\<close>, the clock, JSON and what happens to a report on its way are arguments.
\<close>

subsection \<open>Wire types\<close>

abbreviation "DeviceNew \<equiv> ''new''"
abbreviation "DeviceWaitingAuth \<equiv> ''waiting-authorization''"
abbreviation "DeviceProvisioning \<equiv> ''provisioning''"
abbreviation "DeviceProvisioned \<equiv> ''provisioned''"
abbreviation "DeviceFailed \<equiv> ''failed''"
abbreviation "DeviceGone \<equiv> ''gone''"

record device_status =
  ds_Serial :: string
  ds_ADBState :: string
  ds_Model :: string
  ds_Status :: string
  ds_Step :: string
  ds_Error :: string
  ds_Hint :: string
  ds_FirstSeen :: go_time
  ds_LastSeen :: go_time

record device_report =
  dr_Host :: string
  dr_Devices :: "device_status list"
  dr_Acked :: "string list"

record device_command =
  dc_Serial :: string

record device_reply =
  dy_AutoProvision :: bool
  dy_Commands :: "device_command list"

subsection \<open>The controller\<close>

record host_devices =
  hv_devices :: "(string \<times> device_status) list"
  hv_lastSeen :: go_time

record devices =
  dev_path :: string
  dev_auto :: bool
  dev_byHost :: "(string \<times> host_devices) list"
  dev_pending :: "string list"

definition DeviceStaleAfter :: go_duration where
  "DeviceStaleAfter = 45 * second"

datatype settings_file_error = SettingsRead | SettingsJSON | SettingsVersion int

definition LoadDeviceSettings ::
  "(string \<Rightarrow> (int \<times> bool) option) \<Rightarrow> bool \<Rightarrow> file_system \<Rightarrow> string \<Rightarrow> bool \<times> settings_file_error option" where
  "LoadDeviceSettings dec readable fs path =
     (case fs path of
        None \<Rightarrow> (True, None)
      | Some content \<Rightarrow>
          if \<not> readable then (True, Some SettingsRead)
          else (case dec content of
                  None \<Rightarrow> (True, Some SettingsJSON)
                | Some (version, auto) \<Rightarrow> if version \<noteq> 1 then (True, Some (SettingsVersion version)) else (auto, None)))"

definition newDevices :: "string \<Rightarrow> bool \<Rightarrow> devices" where
  "newDevices path auto = \<lparr>dev_path = path, dev_auto = auto, dev_byHost = [], dev_pending = []\<rparr>"

definition save_devices :: "(int \<times> bool \<Rightarrow> string) \<Rightarrow> nat \<Rightarrow> string \<Rightarrow> devices \<Rightarrow> file_system \<Rightarrow> file_system \<times> bool" where
  "save_devices enc fault tmp d fs =
     (if dev_path d = '''' then (fs, True) else WriteFileAtomic fault tmp (dev_path d) (enc (1, dev_auto d)) fs)"

definition setAutoProvision ::
  "(int \<times> bool \<Rightarrow> string) \<Rightarrow> nat \<Rightarrow> string \<Rightarrow> bool \<Rightarrow> devices \<times> file_system \<Rightarrow> bool \<times> (devices \<times> file_system)" where
  "setAutoProvision enc fault tmp on st =
     (let (d, fs) = st; d = d\<lparr>dev_auto := on\<rparr>; (fs, ok) = save_devices enc fault tmp d fs in (ok, (d, fs)))"

definition by_serial :: "device_status list \<Rightarrow> (string \<times> device_status) list" where
  "by_serial dss = foldl (\<lambda>m ds. AList.update (ds_Serial ds) ds m) [] dss"

definition report :: "go_time \<Rightarrow> device_report \<Rightarrow> devices \<Rightarrow> device_reply \<times> devices" where
  "report now rep d =
     (let d = d\<lparr>dev_byHost := AList.update (dr_Host rep) \<lparr>hv_devices = by_serial (dr_Devices rep), hv_lastSeen = now\<rparr> (dev_byHost d)\<rparr>;
          d = d\<lparr>dev_pending := foldl (\<lambda>p s. removeAll s p) (dev_pending d) (dr_Acked rep)\<rparr>
      in (\<lparr>dy_AutoProvision = dev_auto d, dy_Commands = map (\<lambda>s. \<lparr>dc_Serial = s\<rparr>) (sort (dev_pending d))\<rparr>, d))"

definition requestProvision :: "string \<Rightarrow> devices \<Rightarrow> devices" where
  "requestProvision s d = d\<lparr>dev_pending := List.insert s (dev_pending d)\<rparr>"

record device_view =
  dw_Status :: device_status
  dw_Host :: string
  dw_NodeID :: node_id
  dw_Alias :: string
  dw_Stale :: bool
  dw_Pending :: bool

definition nodesBySerial :: "registry \<Rightarrow> node_id \<Rightarrow> node option" where
  "nodesBySerial r = foldl (\<lambda>m n. m(nd_ID n \<mapsto> n)) (\<lambda>_. None) (fst (View r))"

definition view_host :: "go_time \<Rightarrow> (string \<Rightarrow> node option) \<Rightarrow> devices \<Rightarrow> string \<times> host_devices \<Rightarrow> device_view list" where
  "view_host now nodes d h =
     map (\<lambda>(s, ds).
       \<lparr>dw_Status = ds, dw_Host = fst h, dw_NodeID = (case nodes s of Some n \<Rightarrow> nd_ID n | None \<Rightarrow> ''''),
        dw_Alias = (case nodes s of Some n \<Rightarrow> nd_Alias n | None \<Rightarrow> ''''),
        dw_Stale = (now - hv_lastSeen (snd h) \<ge> DeviceStaleAfter), dw_Pending = (s \<in> set (dev_pending d))\<rparr>)
       (sort_key fst (hv_devices (snd h)))"

definition view_devices :: "go_time \<Rightarrow> (string \<Rightarrow> node option) \<Rightarrow> devices \<Rightarrow> bool \<times> device_view list" where
  "view_devices now nodes d = (dev_auto d, concat (map (view_host now nodes d) (sort_key fst (dev_byHost d))))"

text \<open>Handlers; \<open>None\<close> is a body that cannot be decoded, \<open>Some None\<close> one without the field.\<close>

definition adminSetDevices ::
  "(int \<times> bool \<Rightarrow> string) \<Rightarrow> nat \<Rightarrow> string \<Rightarrow> go_time \<Rightarrow> registry \<Rightarrow> bool option option \<Rightarrow> devices \<times> file_system \<Rightarrow>
   (int + bool \<times> device_view list) \<times> (devices \<times> file_system)" where
  "adminSetDevices enc fault tmp now r body st =
     (case body of
        None \<Rightarrow> (Inl 400, st)
      | Some None \<Rightarrow> (Inl 400, st)
      | Some (Some on) \<Rightarrow>
          (let (ok, st) = setAutoProvision enc fault tmp on st
           in if \<not> ok then (Inl 500, st) else (Inr (view_devices now (nodesBySerial r) (fst st)), st)))"

definition adminDevicesReport :: "go_time \<Rightarrow> device_report option \<Rightarrow> devices \<Rightarrow> (int + device_reply) \<times> devices" where
  "adminDevicesReport now body d =
     (case body of
        None \<Rightarrow> (Inl 400, d)
      | Some rep \<Rightarrow> if dr_Host rep = '''' then (Inl 400, d) else (let (reply, d) = report now rep d in (Inr reply, d)))"

definition adminDevicesProvision :: "string \<Rightarrow> devices \<Rightarrow> int \<times> devices" where
  "adminDevicesProvision s d = (202, requestProvision s d)"

subsection \<open>What adb prints\<close>

record adb_device =
  dv_Serial :: string
  dv_State :: string
  dv_Model :: string

fun split_newlines :: "string \<Rightarrow> string \<Rightarrow> string list" where
  "split_newlines w [] = [rev w]"
| "split_newlines w (c # cs) = (if c = CHR 0x0A then rev w # split_newlines [] cs else split_newlines (c # w) cs)"

definition parse_device :: "string \<Rightarrow> adb_device option" where
  "parse_device line =
     (let f = Prelude.fields line
      in if length f < 2 \<or> has_prefix line ''List of devices'' \<or> has_prefix line ''*'' then None
         else Some \<lparr>dv_Serial = f ! 0, dv_State = f ! 1,
                dv_Model = foldl (\<lambda>m kv. case cut_prefix kv ''model:'' of Some v \<Rightarrow> v | None \<Rightarrow> m) '''' (drop 2 f)\<rparr>)"

definition ParseDevices :: "string \<Rightarrow> adb_device list" where
  "ParseDevices out = List.map_filter parse_device (split_newlines [] out)"

end
