(* ===== verification/DeviceWatch.thy ===== *)
theory DeviceWatch
  imports Devices
begin

text \<open>
  The loop \<open>Watch\<close> of a provisioning host (\<^verbatim>\<open>src/provisioner/provision.go\<close>, \<^verbatim>\<open>devices.go\<close>): one turn over the
  attached phones, the report to the controller, and the two sides together.
\<close>

subsection \<open>Decisions\<close>

definition BackoffMin :: go_duration where "BackoffMin = 30 * second"
definition BackoffMax :: go_duration where "BackoffMax = 10 * 60 * second"

definition NextBackoff :: "go_duration \<Rightarrow> go_duration" where
  "NextBackoff prev = (if prev < BackoffMin then BackoffMin else if prev \<ge> BackoffMax div 2 then BackoffMax else prev * 2)"

definition IsPlaceholderSerial :: "string \<Rightarrow> bool" where
  "IsPlaceholderSerial s \<longleftrightarrow> to_upper (trim_space s) \<in> {''0123456789ABCDEF'', ''UNKNOWN''}"

definition DuplicateSerials :: "adb_device list \<Rightarrow> string \<Rightarrow> bool" where
  "DuplicateSerials devs s \<longleftrightarrow> length (filter (\<lambda>d. dv_Serial d = s) devs) > 1"

record device_record = device_status +
  rec_provisioned :: bool
  rec_backoff :: go_duration
  rec_nextAttempt :: go_time

record device_plan =
  dp_Attempt :: bool
  dp_Status :: string

definition planDevice :: "device_record \<Rightarrow> bool \<Rightarrow> bool \<Rightarrow> bool \<Rightarrow> bool \<Rightarrow> go_time \<Rightarrow> device_plan" where
  "planDevice rec duplicate placeholder forced auto now =
     (if duplicate \<or> placeholder then \<lparr>dp_Attempt = False, dp_Status = DeviceFailed\<rparr>
      else if forced then \<lparr>dp_Attempt = True, dp_Status = DeviceProvisioning\<rparr>
      else if rec_provisioned rec then \<lparr>dp_Attempt = False, dp_Status = DeviceProvisioned\<rparr>
      else if auto \<and> \<not> now < rec_nextAttempt rec then \<lparr>dp_Attempt = True, dp_Status = DeviceProvisioning\<rparr>
      else if ds_Status rec = DeviceFailed then \<lparr>dp_Attempt = False, dp_Status = DeviceFailed\<rparr>
      else \<lparr>dp_Attempt = False, dp_Status = DeviceNew\<rparr>)"

text \<open>The hints are named, not spelled out.\<close>

datatype hint = NoHint | HintUnlock | HintRestartAdb | HintABI | HintVariant | HintLog

definition hint_text :: "(hint \<Rightarrow> string) \<Rightarrow> hint \<Rightarrow> string" where
  "hint_text texts h = (if h = NoHint then '''' else texts h)"

definition hintForADBState :: "string \<Rightarrow> hint" where
  "hintForADBState s = (if s = ''unauthorized'' then HintUnlock else if s = ''offline'' then HintRestartAdb else NoHint)"

definition contains :: "string \<Rightarrow> string \<Rightarrow> bool" where
  "contains s t \<longleftrightarrow> (\<exists>i \<in> set [0..<Suc (length s)]. has_prefix (drop i s) t)"

definition hintForProvisionError :: "string \<Rightarrow> hint" where
  "hintForProvisionError msg =
     (if contains msg ''unsupported ABI'' then HintABI
      else if contains msg ''no llama.cpp build matches'' then HintVariant
      else if contains msg ''agent did not start'' then HintLog else NoHint)"

subsection \<open>One turn of the loop\<close>

text \<open>\<open>wt_log\<close> is what was done, newest last: \<open>Attempted\<close> with whether a request was consumed, or \<open>Rejected\<close>.\<close>

datatype watch_event = Attempted string bool | Rejected string | Healed string

record watch =
  wt_records :: "(string \<times> device_record) list"
  wt_pending :: "string list"
  wt_ackQueue :: "string list"
  wt_lastHeal :: "string \<Rightarrow> go_time option"
  wt_auto :: bool
  wt_lastKey :: string
  wt_lastReport :: "go_time option"
  wt_log :: "watch_event list"

definition new_watch :: watch where
  "new_watch = \<lparr>wt_records = [], wt_pending = [], wt_ackQueue = [], wt_lastHeal = (\<lambda>_. None), wt_auto = True,
     wt_lastKey = '''', wt_lastReport = None, wt_log = []\<rparr>"

text \<open>
  What one turn meets: the time at its start, the list adb gives (empty when \<open>adb devices\<close> fails), the last
  step and the error of \<open>Provision\<close> for a serial, and the clock at the check of its links.
\<close>

record turn =
  tu_now :: go_time
  tu_devs :: "adb_device list"
  tu_provision :: "string \<Rightarrow> string \<times> string option"
  tu_clock :: "string \<Rightarrow> go_time"
  tu_include :: "string \<Rightarrow> bool"
  tu_texts :: "hint \<Rightarrow> string"
  tu_dupError :: "string \<Rightarrow> string \<times> string"
  tu_placeholderError :: "string \<Rightarrow> string \<times> string"

definition healInterval :: go_duration where "healInterval = 15 * second"
definition reportInterval :: go_duration where "reportInterval = 15 * second"

definition new_record :: "string \<Rightarrow> go_time \<Rightarrow> device_record" where
  "new_record s now = \<lparr>ds_Serial = s, ds_ADBState = '''', ds_Model = '''', ds_Status = '''', ds_Step = '''', ds_Error = '''',
     ds_Hint = '''', ds_FirstSeen = now, ds_LastSeen = 0, rec_provisioned = False, rec_backoff = 0, rec_nextAttempt = 0\<rparr>"

definition put_record :: "string \<Rightarrow> device_record \<Rightarrow> watch \<Rightarrow> watch" where
  "put_record s rec w = w\<lparr>wt_records := AList.update s rec (wt_records w)\<rparr>"

text \<open>The record of an attached phone at the start of its turn.\<close>

definition seen_record :: "turn \<Rightarrow> adb_device \<Rightarrow> watch \<Rightarrow> device_record" where
  "seen_record t d w =
     (let rec = (case map_of (wt_records w) (dv_Serial d) of None \<Rightarrow> new_record (dv_Serial d) (tu_now t) | Some r \<Rightarrow> r)
      in rec\<lparr>ds_ADBState := dv_State d, ds_Model := dv_Model d, ds_LastSeen := tu_now t\<rparr>)"

text \<open>What \<open>Provision\<close> leaves in the record.\<close>

definition provisioned_record :: "turn \<Rightarrow> string \<Rightarrow> device_record \<Rightarrow> device_record" where
  "provisioned_record t s rec =
     (let rec = rec\<lparr>ds_Step := '''', ds_Error := '''', ds_Hint := ''''\<rparr>; (step, err) = tu_provision t s; rec = rec\<lparr>ds_Step := step\<rparr>
      in case err of
           Some e \<Rightarrow>
             (let b = NextBackoff (rec_backoff rec)
              in rec\<lparr>ds_Status := DeviceFailed, ds_Error := e, ds_Hint := hint_text (tu_texts t) (hintForProvisionError e),
                     rec_backoff := b, rec_nextAttempt := tu_now t + b\<rparr>)
         | None \<Rightarrow> rec\<lparr>rec_provisioned := True, ds_Status := DeviceProvisioned, rec_backoff := 0, rec_nextAttempt := 0\<rparr>)"

definition heal_links :: "turn \<Rightarrow> string \<Rightarrow> watch \<Rightarrow> watch" where
  "heal_links t s w =
     (if (case wt_lastHeal w s of None \<Rightarrow> True | Some l \<Rightarrow> tu_clock t s - l \<ge> healInterval)
      then w\<lparr>wt_lastHeal := (wt_lastHeal w)(s \<mapsto> tu_clock t s), wt_log := wt_log w @ [Healed s]\<rparr> else w)"

definition ack :: "string \<Rightarrow> watch \<Rightarrow> watch" where
  "ack s w = w\<lparr>wt_ackQueue := List.insert s (wt_ackQueue w)\<rparr>"

definition drop_pending :: "string \<Rightarrow> watch \<Rightarrow> watch" where
  "drop_pending s w = w\<lparr>wt_pending := removeAll s (wt_pending w)\<rparr>"

definition log_event :: "watch_event \<Rightarrow> watch \<Rightarrow> watch" where
  "log_event e w = w\<lparr>wt_log := wt_log w @ [e]\<rparr>"

text \<open>A phone in the state "device".\<close>

definition ready_device :: "turn \<Rightarrow> string \<Rightarrow> device_record \<Rightarrow> watch \<Rightarrow> watch" where
  "ready_device t s rec w =
     (let dup = DuplicateSerials (tu_devs t) s; placeholder = IsPlaceholderSerial s; wasPending = s \<in> set (wt_pending w);
          plan = planDevice rec dup placeholder wasPending (wt_auto w) (tu_now t);
          rec = rec\<lparr>ds_Status := dp_Status plan\<rparr>;
          rec = (if dup then rec\<lparr>ds_Error := fst (tu_dupError t s), ds_Hint := snd (tu_dupError t s)\<rparr>
                 else if placeholder then rec\<lparr>ds_Error := fst (tu_placeholderError t s), ds_Hint := snd (tu_placeholderError t s)\<rparr> else rec)
      in if \<not> dp_Attempt plan then
           (let w = put_record s rec w;
                w = (if wasPending \<and> (dup \<or> placeholder) then log_event (Rejected s) (ack s (drop_pending s w)) else w)
            in heal_links t s w)
         else
           (let w = log_event (Attempted s wasPending) (drop_pending s w);
                w = put_record s (provisioned_record t s rec) w
            in if wasPending then ack s w else w))"

definition watch_device :: "turn \<Rightarrow> adb_device \<Rightarrow> watch \<Rightarrow> watch" where
  "watch_device t d w =
     (if \<not> tu_include t (dv_Serial d) then w
      else
        (let rec = seen_record t d w; s = dv_Serial d
         in if dv_State d \<noteq> ''device''
            then put_record s (rec\<lparr>ds_Status := DeviceWaitingAuth, ds_Error := '''', ds_Hint := hint_text (tu_texts t) (hintForADBState (dv_State d))\<rparr>) w
            else ready_device t s rec w))"

definition seen_serials :: "turn \<Rightarrow> string list" where
  "seen_serials t = filter (tu_include t) (map dv_Serial (tu_devs t))"

definition gone_record :: "turn \<Rightarrow> string \<Rightarrow> device_record \<Rightarrow> device_record" where
  "gone_record t s rec =
     (if s \<notin> set (seen_serials t) \<and> ds_Status rec \<noteq> DeviceGone
      then rec\<lparr>ds_Status := DeviceGone, ds_Step := '''', ds_Error := '''', ds_Hint := '''', ds_LastSeen := tu_now t\<rparr> else rec)"

definition gone_serials :: "turn \<Rightarrow> watch \<Rightarrow> string list" where
  "gone_serials t w = filter (\<lambda>s. s \<notin> set (seen_serials t)) (keys_of (wt_records w))"

definition watch_devices :: "turn \<Rightarrow> watch \<Rightarrow> watch" where
  "watch_devices t w =
     (let w = foldl (\<lambda>w d. watch_device t d w) w (tu_devs t)
      in w\<lparr>wt_records := map (\<lambda>(s, r). (s, gone_record t s r)) (wt_records w)\<rparr>)"

subsection \<open>Reporting\<close>

definition snapshot :: "watch \<Rightarrow> device_status list" where
  "snapshot w = sort_key ds_Serial (map (\<lambda>(s, r). device_status.truncate r) (wt_records w))"

definition reportKey :: "device_status list \<Rightarrow> string" where
  "reportKey dss = concat (map (\<lambda>d. ds_Serial d @ ''|'' @ ds_ADBState d @ ''|'' @ ds_Status d @ ''|'' @ ds_Step d @ ''|'' @
     ds_Error d @ ''|'' @ ds_Hint d @ [CHR 0x0A]) dss)"

definition report_due :: "turn \<Rightarrow> watch \<Rightarrow> bool" where
  "report_due t w \<longleftrightarrow> reportKey (snapshot w) \<noteq> wt_lastKey w \<or>
     (case wt_lastReport w of None \<Rightarrow> True | Some l \<Rightarrow> tu_now t - l \<ge> reportInterval)"

definition the_report :: "string \<Rightarrow> watch \<Rightarrow> device_report" where
  "the_report host w = \<lparr>dr_Host = host, dr_Devices = snapshot w, dr_Acked = wt_ackQueue w\<rparr>"

definition drop_records :: "string list \<Rightarrow> watch \<Rightarrow> watch" where
  "drop_records gone w = w\<lparr>wt_records := filter (\<lambda>e. fst e \<notin> set gone) (wt_records w)\<rparr>"

definition forget_heals :: "string list \<Rightarrow> watch \<Rightarrow> watch" where
  "forget_heals gone w = w\<lparr>wt_lastHeal := (\<lambda>s. if s \<in> set gone then None else wt_lastHeal w s)\<rparr>"

text \<open>The end of a turn: no report is due, the report failed, or its answer arrived, at time \<open>now2\<close>.\<close>

datatype report_outcome = NotSent | SendFailed go_time | Answered go_time device_reply

definition watch_end :: "turn \<Rightarrow> report_outcome \<Rightarrow> watch \<Rightarrow> watch" where
  "watch_end t out w =
     (let gone = gone_serials t w;
          w = (case out of
                 NotSent \<Rightarrow> w
               | SendFailed now2 \<Rightarrow> w\<lparr>wt_lastReport := Some now2\<rparr>
               | Answered now2 reply \<Rightarrow>
                   drop_records gone (w\<lparr>wt_lastReport := Some now2, wt_auto := dy_AutoProvision reply,
                      wt_pending := foldl (\<lambda>p c. List.insert (dc_Serial c) p) (wt_pending w) (dy_Commands reply),
                      wt_ackQueue := [], wt_lastKey := reportKey (snapshot w)\<rparr>))
      in forget_heals gone w)"

text \<open>A turn without a controller to report to forgets the phones that are gone at once.\<close>

definition turn_alone :: "turn \<Rightarrow> watch \<Rightarrow> watch" where
  "turn_alone t w = (let w = watch_devices t w; gone = gone_serials t w in forget_heals gone (drop_records gone w))"

subsection \<open>What a turn does to a phone\<close>

definition consumed :: "watch_event list \<Rightarrow> string \<Rightarrow> nat" where
  "consumed es s = length (filter (\<lambda>e. e = Attempted s True \<or> e = Rejected s) es)"

definition attempts :: "watch_event list \<Rightarrow> string \<Rightarrow> nat" where
  "attempts es s = length (filter (\<lambda>e. e = Attempted s True \<or> e = Attempted s False) es)"

lemma log_append [simp]:
  "consumed (a @ b) s = consumed a s + consumed b s" "attempts (a @ b) s = attempts a s + attempts b s"
  "consumed [] s = 0" "attempts [] s = 0"
  "consumed (e # a) s = (if e = Attempted s True \<or> e = Rejected s then 1 else 0) + consumed a s"
  "attempts (e # a) s = (if e = Attempted s True \<or> e = Attempted s False then 1 else 0) + attempts a s"
  by (simp_all add: consumed_def attempts_def)

text \<open>The effect of a turn on one phone, as far as requests and attempts go.\<close>

definition effect :: "turn \<Rightarrow> string \<Rightarrow> device_record \<Rightarrow> watch \<Rightarrow> watch \<Rightarrow> watch_event list \<Rightarrow> bool" where
  "effect t s rec w w' es \<longleftrightarrow>
     wt_log w' = wt_log w @ es \<and> wt_pending w' = removeAll s (wt_pending w) \<and> wt_auto w' = wt_auto w \<and>
     wt_ackQueue w' = (if s \<in> set (wt_pending w) then List.insert s (wt_ackQueue w) else wt_ackQueue w) \<and>
     (\<forall>x. consumed es x = (if x = s \<and> s \<in> set (wt_pending w) then 1 else 0)) \<and> (\<forall>x. attempts es x \<le> (if x = s then 1 else 0)) \<and>
     (\<forall>x f. Attempted x f \<in> set es \<longrightarrow> x = s \<and> \<not> DuplicateSerials (tu_devs t) s \<and> \<not> IsPlaceholderSerial s \<and> f = (s \<in> set (wt_pending w)) \<and>
        (\<not> f \<longrightarrow> wt_auto w \<and> \<not> rec_provisioned rec \<and> rec_nextAttempt rec \<le> tu_now t))"

lemma frames [simp]:
  "wt_log (put_record s r w) = wt_log w" "wt_pending (put_record s r w) = wt_pending w" "wt_auto (put_record s r w) = wt_auto w"
  "wt_ackQueue (put_record s r w) = wt_ackQueue w"
  "wt_log (ack s w) = wt_log w" "wt_pending (ack s w) = wt_pending w" "wt_auto (ack s w) = wt_auto w" "wt_ackQueue (ack s w) = List.insert s (wt_ackQueue w)"
  "wt_log (drop_pending s w) = wt_log w" "wt_pending (drop_pending s w) = removeAll s (wt_pending w)" "wt_auto (drop_pending s w) = wt_auto w"
  "wt_ackQueue (drop_pending s w) = wt_ackQueue w"
  "wt_log (log_event e w) = wt_log w @ [e]" "wt_pending (log_event e w) = wt_pending w" "wt_auto (log_event e w) = wt_auto w"
  "wt_ackQueue (log_event e w) = wt_ackQueue w"
  "wt_pending (heal_links t s w) = wt_pending w" "wt_auto (heal_links t s w) = wt_auto w" "wt_ackQueue (heal_links t s w) = wt_ackQueue w"
  by (simp_all add: put_record_def ack_def drop_pending_def log_event_def heal_links_def)

lemma heal_log: "\<exists>es. wt_log (heal_links t s w) = wt_log w @ es \<and> set es \<subseteq> {Healed s}"
  by (simp add: heal_links_def)

lemma healed_counts: "set es \<subseteq> {Healed s} \<Longrightarrow> consumed es x = 0 \<and> attempts es x = 0 \<and> Attempted y f \<notin> set es"
  by (auto simp: consumed_def attempts_def filter_empty_conv)

lemma ready_device_effect: "\<exists>es. effect t s rec w (ready_device t s rec w) es"
proof -
  let ?dup = "DuplicateSerials (tu_devs t) s" and ?ph = "IsPlaceholderSerial s" and ?p = "s \<in> set (wt_pending w)"
  define plan where "plan = planDevice rec ?dup ?ph ?p (wt_auto w) (tu_now t)"
  define rec' where "rec' = (let rec = rec\<lparr>ds_Status := dp_Status plan\<rparr> in
    if ?dup then rec\<lparr>ds_Error := fst (tu_dupError t s), ds_Hint := snd (tu_dupError t s)\<rparr>
    else if ?ph then rec\<lparr>ds_Error := fst (tu_placeholderError t s), ds_Hint := snd (tu_placeholderError t s)\<rparr> else rec)"
  have eq: "ready_device t s rec w =
    (if \<not> dp_Attempt plan then heal_links t s (if ?p \<and> (?dup \<or> ?ph) then log_event (Rejected s) (ack s (drop_pending s (put_record s rec' w))) else put_record s rec' w)
     else (let w1 = put_record s (provisioned_record t s rec') (log_event (Attempted s ?p) (drop_pending s w)) in if ?p then ack s w1 else w1))"
    unfolding ready_device_def Let_def plan_def [symmetric] rec'_def by (rule refl)
  show ?thesis
  proof (cases "dp_Attempt plan")
    case True
    then have "\<not> ?dup \<and> \<not> ?ph \<and> (\<not> ?p \<longrightarrow> wt_auto w \<and> \<not> rec_provisioned rec \<and> rec_nextAttempt rec \<le> tu_now t)"
      by (auto simp: plan_def planDevice_def split: if_splits)
    then have "effect t s rec w (ready_device t s rec w) [Attempted s ?p]"
      using True by (auto simp: eq effect_def Let_def)
    then show ?thesis by blast
  next
    case False
    let ?w = "if ?p \<and> (?dup \<or> ?ph) then log_event (Rejected s) (ack s (drop_pending s (put_record s rec' w))) else put_record s rec' w"
    have p: "?p \<longrightarrow> ?dup \<or> ?ph" using False by (auto simp: plan_def planDevice_def split: if_splits)
    obtain es where es: "wt_log (heal_links t s ?w) = wt_log ?w @ es" "set es \<subseteq> {Healed s}" using heal_log by blast
    have r: "ready_device t s rec w = heal_links t s ?w" using False by (simp add: eq)
    have "effect t s rec w (ready_device t s rec w) ((if ?p then [Rejected s] else []) @ es)"
      unfolding r effect_def using es(1) p healed_counts [OF es(2)] by (cases ?p) auto
    then show ?thesis by blast
  qed
qed

lemma watch_device_effect:
  "tu_include t (dv_Serial d) \<Longrightarrow> dv_State d = ''device'' \<Longrightarrow>
     \<exists>es. effect t (dv_Serial d) (seen_record t d w) w (watch_device t d w) es"
  "\<not> (tu_include t (dv_Serial d) \<and> dv_State d = ''device'') \<Longrightarrow>
     wt_log (watch_device t d w) = wt_log w \<and> wt_pending (watch_device t d w) = wt_pending w \<and> wt_auto (watch_device t d w) = wt_auto w \<and>
     wt_ackQueue (watch_device t d w) = wt_ackQueue w"
  using ready_device_effect [of t "dv_Serial d" "seen_record t d w" w] by (auto simp: watch_device_def Let_def)

subsection \<open>The two sides together\<close>

text \<open>
  One host whose reports either reach the controller and are answered, or do not reach it.  \<open>rs\<close> lists the
  requests the controller took, that is those for a serial without one.  Other hosts report as well, but
  have executed nothing.
\<close>

inductive device_life :: "string \<Rightarrow> devices \<Rightarrow> watch \<Rightarrow> string list \<Rightarrow> bool" for host where
  boot: "device_life host (newDevices path auto) new_watch []"
| request: "device_life host d w rs \<Longrightarrow> device_life host (requestProvision s d) w (if s \<in> set (dev_pending d) then rs else rs @ [s])"
| setting: "device_life host d w rs \<Longrightarrow> setAutoProvision enc fault tmp on (d, fs) = (ok, (d', fs')) \<Longrightarrow> device_life host d' w rs"
| other_host: "device_life host d w rs \<Longrightarrow> dr_Acked rep = [] \<Longrightarrow> device_life host (snd (report now rep d)) w rs"
| quiet: "device_life host d w rs \<Longrightarrow> \<not> report_due t (watch_devices t w) \<Longrightarrow> device_life host d (watch_end t NotSent (watch_devices t w)) rs"
| lost: "device_life host d w rs \<Longrightarrow> report_due t (watch_devices t w) \<Longrightarrow> device_life host d (watch_end t (SendFailed now2) (watch_devices t w)) rs"
| sent: "device_life host d w rs \<Longrightarrow> report_due t (watch_devices t w) \<Longrightarrow> report now (the_report host (watch_devices t w)) d = (reply, d') \<Longrightarrow>
    device_life host d' (watch_end t (Answered now2 reply) (watch_devices t w)) rs"

definition balanced :: "string set \<Rightarrow> (string \<Rightarrow> nat) \<Rightarrow> watch \<Rightarrow> bool" where
  "balanced P N w \<longleftrightarrow> set (wt_pending w) \<subseteq> P - set (wt_ackQueue w) \<and> set (wt_ackQueue w) \<subseteq> P \<and>
     (\<forall>s. N s = consumed (wt_log w) s + (if s \<in> P - set (wt_ackQueue w) then 1 else 0))"

lemma balanced_effect:
  assumes "balanced P N w" "effect t s rec w w' es"
  shows "balanced P N w'"
proof (cases "s \<in> set (wt_pending w)")
  case True
  then have s: "s \<in> P" "s \<notin> set (wt_ackQueue w)" using assms(1) by (auto simp: balanced_def)
  have w': "wt_log w' = wt_log w @ es" "set (wt_pending w') = set (wt_pending w) - {s}" "set (wt_ackQueue w') = insert s (set (wt_ackQueue w))"
    "\<And>x. consumed es x = (if x = s then 1 else 0)"
    using assms(2) True by (auto simp: effect_def)
  have "N x = consumed (wt_log w') x + (if x \<in> P - set (wt_ackQueue w') then 1 else 0)" for x
    using assms(1) s by (cases "x = s") (auto simp: balanced_def w')
  then show ?thesis using assms(1) s by (auto simp: balanced_def w')
next
  case False
  then have "wt_pending w' = wt_pending w" "wt_ackQueue w' = wt_ackQueue w" "\<And>x. consumed (wt_log w') x = consumed (wt_log w) x"
    using assms(2) by (auto simp: effect_def)
  then show ?thesis using assms(1) by (simp add: balanced_def)
qed

lemma balanced_frame:
  "balanced P N w \<Longrightarrow> wt_log w' = wt_log w \<Longrightarrow> wt_pending w' = wt_pending w \<Longrightarrow> wt_ackQueue w' = wt_ackQueue w \<Longrightarrow> balanced P N w'"
  by (simp add: balanced_def)

lemma balanced_device:
  assumes "balanced P N w"
  shows "balanced P N (watch_device t d w)"
proof (cases "tu_include t (dv_Serial d) \<and> dv_State d = ''device''")
  case True
  then show ?thesis using watch_device_effect(1) [of t d w] balanced_effect [OF assms] by blast
next
  case False
  then show ?thesis using watch_device_effect(2) [OF False] balanced_frame [OF assms] by blast
qed

lemma balanced_devices: "balanced P N w \<Longrightarrow> balanced P N (watch_devices t w)"
proof -
  assume b: "balanced P N w"
  have "balanced P N (foldl (\<lambda>w d. watch_device t d w) w ds)" for ds
    using b by (induction ds arbitrary: w) (auto intro: balanced_device)
  then show ?thesis unfolding watch_devices_def Let_def by (rule balanced_frame) simp_all
qed

lemma foldl_removeAll: "set (foldl (\<lambda>p s. removeAll s p) p xs) = set p - set xs"
  by (induction xs arbitrary: p) auto

lemma foldl_insert: "set (foldl (\<lambda>p c. List.insert (dc_Serial c) p) p cs) = set p \<union> dc_Serial ` set cs"
  by (induction cs arbitrary: p) auto

lemma balanced_report:
  assumes "balanced (set (dev_pending d)) N w" "report now (the_report host w) d = (reply, d')"
  shows "balanced (set (dev_pending d')) N (watch_end t (Answered now2 reply) w)"
proof -
  let ?w = "watch_end t (Answered now2 reply) w"
  have d': "set (dev_pending d') = set (dev_pending d) - set (wt_ackQueue w)" "dc_Serial ` set (dy_Commands reply) = set (dev_pending d')"
    using assms(2) by (auto simp: report_def the_report_def Let_def foldl_removeAll image_comp)
  have w: "wt_log ?w = wt_log w" "wt_ackQueue ?w = []" "set (wt_pending ?w) = set (wt_pending w) \<union> set (dev_pending d')"
    by (simp_all add: watch_end_def drop_records_def forget_heals_def Let_def foldl_insert d'(2))
  show ?thesis using assms(1) by (auto simp: balanced_def w d'(1))
qed

lemma device_life_balanced:
  "device_life host d w rs \<Longrightarrow> balanced (set (dev_pending d)) (\<lambda>s. count_list rs s) w"
proof (induction rule: device_life.induct)
  case (boot path auto)
  then show ?case by (simp add: balanced_def newDevices_def new_watch_def)
next
  case (request d w rs s)
  show ?case
  proof (cases "s \<in> set (dev_pending d)")
    case True
    then show ?thesis using request.IH by (simp add: requestProvision_def insert_absorb)
  next
    case False
    then have "s \<notin> set (wt_ackQueue w)" using request.IH by (auto simp: balanced_def)
    then show ?thesis using request.IH False by (auto simp: balanced_def requestProvision_def)
  qed
next
  case (setting d w rs enc fault tmp on fs ok d' fs')
  then have "dev_pending d' = dev_pending d" by (auto simp: setAutoProvision_def Let_def split: prod.splits)
  then show ?case using setting.IH by simp
next
  case (other_host d w rs rep now)
  then show ?case by (simp add: report_def Let_def)
next
  case (quiet d w rs t)
  show ?case by (rule balanced_frame [OF balanced_devices [OF quiet.IH, of t]]) (simp_all add: watch_end_def forget_heals_def Let_def)
next
  case (lost d w rs t now2)
  show ?case by (rule balanced_frame [OF balanced_devices [OF lost.IH, of t]]) (simp_all add: watch_end_def forget_heals_def Let_def)
next
  case (sent d w rs t now reply d' now2)
  show ?case by (rule balanced_report [OF balanced_devices [OF sent.IH] sent.hyps(3)])
qed

text \<open>
  C18. Every request of the operator is carried out once: along every history in which reports reach the
  controller and are answered or do not reach it, the requests taken for a serial are those that the host
  carried out or rejected, plus one exactly while it is still queued at the controller and not yet
  acknowledged; so none is lost and none is carried out twice.
\<close>

theorem request_carried_out_once:
  assumes "device_life host d w rs"
  shows "count_list rs s = consumed (wt_log w) s + (if s \<in> set (dev_pending d) \<and> s \<notin> set (wt_ackQueue w) then 1 else 0)"
  using device_life_balanced [OF assms] by (simp add: balanced_def)

subsection \<open>Which phones are provisioned\<close>

lemma record_frames [simp]:
  "wt_records (put_record s r w) = AList.update s r (wt_records w)" "wt_records (ack s w) = wt_records w"
  "wt_records (drop_pending s w) = wt_records w" "wt_records (log_event e w) = wt_records w" "wt_records (heal_links t s w) = wt_records w"
  by (simp_all add: put_record_def ack_def drop_pending_def log_event_def heal_links_def)

lemma watch_device_records: "\<exists>r. wt_records (watch_device t d w) = AList.update (dv_Serial d) r (wt_records w) \<or> wt_records (watch_device t d w) = wt_records w"
  by (simp add: watch_device_def ready_device_def Let_def) blast

lemma watch_device_other:
  assumes "s \<noteq> dv_Serial d"
  shows "map_of (wt_records (watch_device t d w)) s = map_of (wt_records w) s" "s \<in> set (wt_pending (watch_device t d w)) \<longleftrightarrow> s \<in> set (wt_pending w)"
proof -
  show "map_of (wt_records (watch_device t d w)) s = map_of (wt_records w) s"
    using watch_device_records [of t d w] assms by (auto simp: update_conv)
  show "s \<in> set (wt_pending (watch_device t d w)) \<longleftrightarrow> s \<in> set (wt_pending w)"
    using watch_device_effect [of t d w] assms by (cases "tu_include t (dv_Serial d) \<and> dv_State d = ''device''") (auto simp: effect_def)
qed

definition justified :: "turn \<Rightarrow> watch \<Rightarrow> string \<Rightarrow> bool \<Rightarrow> bool" where
  "justified t w s forced \<longleftrightarrow> forced = (s \<in> set (wt_pending w)) \<and>
     (\<not> forced \<longrightarrow> wt_auto w \<and> (\<forall>r. map_of (wt_records w) s = Some r \<longrightarrow> \<not> rec_provisioned r \<and> rec_nextAttempt r \<le> tu_now t))"

definition attached :: "turn \<Rightarrow> adb_device list \<Rightarrow> string \<Rightarrow> bool" where
  "attached t ds s \<longleftrightarrow> (\<exists>d \<in> set ds. dv_Serial d = s \<and> dv_State d = ''device'' \<and> tu_include t s)"

lemma watch_device_keeps:
  "s \<in> set (wt_pending w) \<Longrightarrow> attached t [d] s \<or> s \<in> set (wt_pending (watch_device t d w))"
  using watch_device_effect [of t d w] by (cases "tu_include t (dv_Serial d) \<and> dv_State d = ''device''") (auto simp: effect_def attached_def)

text \<open>The effect of a turn over a list of phones.\<close>

definition turn_effect :: "turn \<Rightarrow> adb_device list \<Rightarrow> watch \<Rightarrow> watch \<Rightarrow> watch_event list \<Rightarrow> bool" where
  "turn_effect t ds w w' es \<longleftrightarrow> wt_log w' = wt_log w @ es \<and> wt_auto w' = wt_auto w \<and>
     (\<forall>s. attempts es s \<le> length (filter (\<lambda>d. dv_Serial d = s) ds)) \<and>
     (\<forall>s f. Attempted s f \<in> set es \<longrightarrow> attached t ds s \<and> \<not> DuplicateSerials (tu_devs t) s \<and> \<not> IsPlaceholderSerial s \<and>
        (length (filter (\<lambda>d. dv_Serial d = s) ds) = 1 \<longrightarrow> justified t w s f)) \<and>
     (\<forall>s. attached t ds s \<longrightarrow> s \<notin> set (wt_pending w')) \<and> (\<forall>s. s \<in> set (wt_pending w') \<longrightarrow> s \<in> set (wt_pending w)) \<and>
     (\<forall>s. consumed es s = (if s \<in> set (wt_pending w) \<and> attached t ds s then 1 else 0))"

lemma seen_record_facts:
  "\<not> rec_provisioned (seen_record t d w) \<Longrightarrow> map_of (wt_records w) (dv_Serial d) = Some r \<Longrightarrow> \<not> rec_provisioned r"
  "map_of (wt_records w) (dv_Serial d) = Some r \<Longrightarrow> rec_nextAttempt (seen_record t d w) = rec_nextAttempt r"
  by (simp_all add: seen_record_def Let_def)

lemma device_turn_effect: "\<exists>es. turn_effect t [d] w (watch_device t d w) es"
proof (cases "tu_include t (dv_Serial d) \<and> dv_State d = ''device''")
  case True
  then obtain es where e: "effect t (dv_Serial d) (seen_record t d w) w (watch_device t d w) es" using watch_device_effect(1) by blast
  have at: "attached t [d] s \<longleftrightarrow> s = dv_Serial d" for s using True by (auto simp: attached_def)
  have "justified t w s f" if "Attempted s f \<in> set es" for s f
    using e that seen_record_facts [where t = t and d = d and w = w] by (fastforce simp: effect_def justified_def)
  moreover have one: "length (filter (\<lambda>x. dv_Serial x = s) [d]) = (if s = dv_Serial d then 1 else 0)" for s by simp
  moreover have "consumed es s = (if s \<in> set (wt_pending w) \<and> s = dv_Serial d then 1 else 0)" for s
    using e by (auto simp: effect_def)
  ultimately have "turn_effect t [d] w (watch_device t d w) es"
    using e unfolding turn_effect_def at one effect_def by (intro conjI allI impI) (auto split del: if_split)
  then show ?thesis by blast
next
  case False
  then have at: "\<not> attached t [d] s" for s by (auto simp: attached_def)
  have "turn_effect t [d] w (watch_device t d w) []" using watch_device_effect(2) [OF False] by (simp add: turn_effect_def at)
  then show ?thesis by blast
qed

lemma turn_effect_Cons:
  assumes "turn_effect t [d] w w1 es1" "turn_effect t ds w1 w2 es2" "w1 = watch_device t d w"
  shows "turn_effect t (d # ds) w w2 (es1 @ es2)"
proof -
  let ?n = "\<lambda>s. length (filter (\<lambda>d. dv_Serial d = s) ds)"
  have at: "attached t (d # ds) s \<longleftrightarrow> attached t [d] s \<or> attached t ds s" for s by (auto simp: attached_def)
  have self: "attached t [d] s \<Longrightarrow> s = dv_Serial d" for s by (auto simp: attached_def)
  note other = watch_device_other [of _ d t w, folded assms(3)]
  have just: "justified t w s f" if "Attempted s f \<in> set (es1 @ es2)" "length (filter (\<lambda>d. dv_Serial d = s) (d # ds)) = 1" for s f
  proof (cases "Attempted s f \<in> set es1")
    case True
    then have "attached t [d] s" "length (filter (\<lambda>d. dv_Serial d = s) [d]) = 1 \<longrightarrow> justified t w s f"
      using assms(1) unfolding turn_effect_def by blast+
    then show ?thesis using self [of s] by simp
  next
    case False
    then have f2: "Attempted s f \<in> set es2" using that(1) by simp
    then have "attached t ds s" using assms(2) by (auto simp: turn_effect_def)
    then have "?n s > 0" by (auto simp: attached_def length_greater_0_conv filter_empty_conv)
    then have n: "?n s = 1" "s \<noteq> dv_Serial d" using that(2) by (auto split: if_splits)
    then have "justified t w1 s f" using assms(2) f2 by (auto simp: turn_effect_def)
    then show ?thesis using other [OF n(2)] assms(1) by (simp add: justified_def turn_effect_def)
  qed
  have atts: "attempts (es1 @ es2) s \<le> length (filter (\<lambda>d. dv_Serial d = s) (d # ds))" for s
  proof -
    have "attempts es1 s \<le> length (filter (\<lambda>d. dv_Serial d = s) [d])" "attempts es2 s \<le> ?n s" using assms(1,2) by (simp_all add: turn_effect_def)
    then show ?thesis by (simp split: if_splits)
  qed
  have c: "consumed es1 s = (if s \<in> set (wt_pending w) \<and> attached t [d] s then 1 else 0)"
    "consumed es2 s = (if s \<in> set (wt_pending w1) \<and> attached t ds s then 1 else 0)"
    "attached t [d] s \<longrightarrow> s \<notin> set (wt_pending w1)" "s \<in> set (wt_pending w1) \<longrightarrow> s \<in> set (wt_pending w)"
    "attached t ds s \<longrightarrow> s \<notin> set (wt_pending w2)" "s \<in> set (wt_pending w2) \<longrightarrow> s \<in> set (wt_pending w1)" for s
    using assms(1,2) unfolding turn_effect_def by blast+
  have keep: "s \<in> set (wt_pending w) \<longrightarrow> attached t [d] s \<or> s \<in> set (wt_pending w1)" for s
    using watch_device_keeps [of s w t d] assms(3) by simp
  have cons: "consumed (es1 @ es2) s = (if s \<in> set (wt_pending w) \<and> attached t (d # ds) s then 1 else 0)" for s
  proof (cases "s \<in> set (wt_pending w1)")
    case True
    then have "s \<in> set (wt_pending w)" "\<not> attached t [d] s" using c(3,4) by blast+
    then show ?thesis unfolding at log_append c(1,2) using True by simp
  next
    case False
    then have "(s \<in> set (wt_pending w) \<and> attached t [d] s) = (s \<in> set (wt_pending w) \<and> (attached t [d] s \<or> attached t ds s))"
      using keep by blast
    then show ?thesis unfolding at log_append c(1,2) using False by simp
  qed
  have pend: "attached t (d # ds) s \<longrightarrow> s \<notin> set (wt_pending w2)" "s \<in> set (wt_pending w2) \<longrightarrow> s \<in> set (wt_pending w)" for s
    using c [of s] unfolding at by blast+
  have who: "Attempted s f \<in> set (es1 @ es2) \<longrightarrow> attached t (d # ds) s \<and> \<not> DuplicateSerials (tu_devs t) s \<and> \<not> IsPlaceholderSerial s" for s f
    using assms(1,2) unfolding turn_effect_def at set_append by blast
  have "wt_log w2 = wt_log w @ es1 @ es2" "wt_auto w2 = wt_auto w" using assms(1,2) by (simp_all add: turn_effect_def)
  then show ?thesis unfolding turn_effect_def using just atts cons pend who by blast
qed

lemma devices_turn_effect: "\<exists>es. turn_effect t ds w (foldl (\<lambda>w d. watch_device t d w) w ds) es"
proof (induction ds arbitrary: w)
  case Nil
  have "turn_effect t [] w w []" by (simp add: turn_effect_def attached_def)
  then show ?case by auto
next
  case (Cons d ds)
  obtain es1 es2 where "turn_effect t [d] w (watch_device t d w) es1"
    "turn_effect t ds (watch_device t d w) (foldl (\<lambda>w d. watch_device t d w) (watch_device t d w) ds) es2"
    using device_turn_effect [of t d w] Cons.IH by blast
  from turn_effect_Cons [OF this refl] show ?case by auto
qed

lemma provision_justified_helper:
  "\<exists>es. wt_log (watch_devices t w) = wt_log w @ es \<and>
     (\<forall>s. attempts es s \<le> 1) \<and>
     (\<forall>s f. Attempted s f \<in> set es \<longrightarrow>
        attached t (tu_devs t) s \<and> \<not> DuplicateSerials (tu_devs t) s \<and> \<not> IsPlaceholderSerial s \<and> justified t w s f) \<and>
     (\<forall>s. s \<in> set (wt_pending w) \<and> attached t (tu_devs t) s \<longrightarrow> consumed es s = 1 \<and> s \<notin> set (wt_pending (watch_devices t w)))"
proof -
  let ?n = "\<lambda>s. length (filter (\<lambda>d. dv_Serial d = s) (tu_devs t))" and ?w = "foldl (\<lambda>w d. watch_device t d w) w (tu_devs t)"
  obtain es where e: "turn_effect t (tu_devs t) w ?w es" using devices_turn_effect by blast
  have fr: "wt_log (watch_devices t w) = wt_log ?w" "wt_pending (watch_devices t w) = wt_pending ?w"
    by (simp_all add: watch_devices_def Let_def)
  have a: "attempts es s \<le> ?n s" "Attempted s f \<in> set es \<Longrightarrow> attached t (tu_devs t) s \<and> \<not> DuplicateSerials (tu_devs t) s \<and> \<not> IsPlaceholderSerial s"
    "Attempted s f \<in> set es \<Longrightarrow> ?n s = 1 \<Longrightarrow> justified t w s f" for s f
    using e unfolding turn_effect_def by blast+
  have one: "?n s = 1" if "attached t (tu_devs t) s" "\<not> DuplicateSerials (tu_devs t) s" for s
  proof -
    have "?n s > 0" using that(1) by (auto simp: attached_def filter_empty_conv)
    then show ?thesis using that(2) unfolding DuplicateSerials_def by linarith
  qed
  have "attempts es s \<le> 1" for s
  proof (cases "\<exists>f. Attempted s f \<in> set es")
    case True
    then show ?thesis using a one by (metis order_trans le_refl)
  next
    case False
    then have "attempts es s = 0" by (auto simp: attempts_def filter_empty_conv)
    then show ?thesis by simp
  qed
  moreover have "justified t w s f" if "Attempted s f \<in> set es" for s f using a(2,3) [OF that] one by blast
  moreover have "consumed es s = 1 \<and> s \<notin> set (wt_pending ?w)" if "s \<in> set (wt_pending w)" "attached t (tu_devs t) s" for s
    using e that unfolding turn_effect_def by simp
  moreover have "wt_log ?w = wt_log w @ es" using e by (simp add: turn_effect_def)
  ultimately show ?thesis unfolding fr using a(2) by blast
qed

text \<open>
  C17. In one turn of the loop a phone is provisioned at most once, and only if it is attached, authorised,
  managed by this host, has a serial of its own that is no placeholder, and either a request for it is
  carried out with the attempt, or automatic provisioning is on, it has not been provisioned before and its
  backoff is over; and a request for an attached phone is carried out or rejected in that very turn.
\<close>

theorem provision_justified:
  "\<exists>es. wt_log (watch_devices t w) = wt_log w @ es \<and>
     (\<forall>s. attempts es s \<le> 1) \<and>
     (\<forall>s f. Attempted s f \<in> set es \<longrightarrow>
        attached t (tu_devs t) s \<and> \<not> DuplicateSerials (tu_devs t) s \<and> \<not> IsPlaceholderSerial s \<and> justified t w s f) \<and>
     (\<forall>s. s \<in> set (wt_pending w) \<and> attached t (tu_devs t) s \<longrightarrow> consumed es s = 1 \<and> s \<notin> set (wt_pending (watch_devices t w)))"
  by (rule provision_justified_helper)

subsection \<open>Backoff\<close>

lemma NextBackoff_doubles:
  assumes "1 \<le> p"
  shows "NextBackoff (min (30 * p) 600 * second) = min (30 * (p * 2)) 600 * second"
  using assms unfolding NextBackoff_def BackoffMin_def BackoffMax_def second_def by (auto simp: min_def)

lemma backoff_sequence: "(NextBackoff ^^ Suc n) 0 = min (30 * 2 ^ n) 600 * second"
proof (induction n)
  case 0
  then show ?case by (simp add: NextBackoff_def BackoffMin_def second_def)
next
  case (Suc n)
  have "(1 :: int) \<le> 2 ^ n" by (rule one_le_power) simp
  from NextBackoff_doubles [OF this] Suc.IH show ?case by (simp add: mult.commute)
qed

text \<open>After a failed attempt the next one on its own waits for the backoff.\<close>

lemma failed_attempt_waits:
  assumes "tu_provision t s = (step, Some e)"
  shows "rec_nextAttempt (provisioned_record t s rec) = tu_now t + NextBackoff (rec_backoff rec) \<and> NextBackoff (rec_backoff rec) \<ge> BackoffMin"
  using assms by (simp add: provisioned_record_def Let_def NextBackoff_def BackoffMin_def BackoffMax_def second_def)

text \<open>A retry asked for by the operator that fails does not start the backoff anew: it doubles it like any other failure.\<close>

lemma failed_retry_doubles_backoff:
  assumes "s \<in> set (wt_pending w)" "\<not> DuplicateSerials (tu_devs t) s" "\<not> IsPlaceholderSerial s" "tu_provision t s = (step, Some e)"
  shows "\<exists>r. map_of (wt_records (ready_device t s rec w)) s = Some r \<and> rec_backoff r = NextBackoff (rec_backoff rec)"
  using assms by (simp add: ready_device_def planDevice_def provisioned_record_def Let_def update_conv)

subsection \<open>What goes wrong\<close>

text \<open>
  When \<open>adb devices\<close> fails the loop goes on with an empty list: after the next answered report every phone is
  forgotten, with its backoff and the mark that it is provisioned, and a phone that never left is provisioned
  again as soon as adb works.
\<close>

lemma failed_adb_forgets_all:
  assumes "tu_devs t = []"
  shows "wt_records (watch_end t (Answered now2 reply) (watch_devices t w)) = []"
proof -
  have "wt_records (drop_records (keys_of (wt_records v)) v') = []" if "wt_records v' = wt_records v" for v v'
    using that by (auto simp: drop_records_def filter_empty_conv)
  then show ?thesis using assms by (simp add: watch_end_def gone_serials_def seen_serials_def forget_heals_def Let_def)
      (simp add: drop_records_def filter_empty_conv)
qed

lemma forgotten_phone_is_provisioned_again:
  assumes "tu_devs t = [d]" "dv_State d = ''device''" "tu_include t (dv_Serial d)" "\<not> IsPlaceholderSerial (dv_Serial d)"
    "wt_records w = []" "wt_auto w" "wt_pending w = []" "tu_now t \<ge> 0"
  shows "wt_log (watch_devices t w) = wt_log w @ [Attempted (dv_Serial d) False]"
  using assms by (simp add: watch_devices_def watch_device_def ready_device_def planDevice_def DuplicateSerials_def seen_record_def
      new_record_def Let_def log_event_def drop_pending_def put_record_def)

text \<open>
  When the answer of a report is lost on its way, the serials it acknowledged are acknowledged again, and with
  them a request the operator made in between, which nobody carries out.
\<close>

lemma lost_answer_drops_request:
  assumes "s \<in> set (wt_ackQueue w)" "report n1 (the_report host w) d = (reply, d1)" "w1 = watch_end t (SendFailed n2) w"
    "report n3 (the_report host w1) (requestProvision s d1) = (reply2, d2)"
  shows "s \<notin> set (dev_pending d1) \<and> s \<in> set (dev_pending (requestProvision s d1)) \<and> s \<notin> set (dev_pending d2) \<and>
    s \<notin> dc_Serial ` set (dy_Commands reply2) \<and> wt_pending w1 = wt_pending w"
  using assms by (auto simp: report_def the_report_def requestProvision_def Let_def foldl_removeAll watch_end_def forget_heals_def)

text \<open>Every host gets every request, whether the phone hangs on it or not, and keeps it until it meets the phone.\<close>

lemma other_host_gets_request:
  assumes "s \<in> set (dev_pending d)" "dr_Acked rep = []" "report now rep d = (reply, d')"
  shows "s \<in> dc_Serial ` set (dy_Commands reply) \<and> s \<in> set (dev_pending d') \<and> s \<in> set (wt_pending (watch_end t (Answered now2 reply) w))"
  using assms by (auto simp: report_def Let_def watch_end_def forget_heals_def drop_records_def foldl_insert image_comp)

subsection \<open>Samples\<close>

definition sample_turn :: "go_time \<Rightarrow> adb_device list \<Rightarrow> turn" where
  "sample_turn now devs = \<lparr>tu_now = now, tu_devs = devs, tu_provision = (\<lambda>_. (''done'', None)), tu_clock = (\<lambda>_. now),
     tu_include = (\<lambda>_. True), tu_texts = (\<lambda>_. ''hint''), tu_dupError = (\<lambda>_. (''twice'', ''hint'')), tu_placeholderError = (\<lambda>_. (''junk'', ''hint''))\<rparr>"

definition sample_phone :: adb_device where
  "sample_phone = \<lparr>dv_Serial = ''p1'', dv_State = ''device'', dv_Model = ''Pixel''\<rparr>"

definition sample_asked :: watch where
  "sample_asked = watch_end (sample_turn 0 []) (Answered 0 \<lparr>dy_AutoProvision = False, dy_Commands = [\<lparr>dc_Serial = ''p1''\<rparr>]\<rparr>) new_watch"

lemma sample_asked_facts: "wt_pending sample_asked = [''p1'']" "wt_log sample_asked = []" "wt_ackQueue sample_asked = []" "wt_records sample_asked = []"
  by (simp_all add: sample_asked_def watch_end_def new_watch_def forget_heals_def drop_records_def Let_def)

lemma not_placeholder: "\<not> IsPlaceholderSerial ''p1''"
  by (simp add: IsPlaceholderSerial_def trim_space_def is_space_def to_upper_def to_upper_char_def less_eq_char_def)

lemma sample_attached: "attached (sample_turn 9 [sample_phone]) (tu_devs (sample_turn 9 [sample_phone])) ''p1''"
  by (simp add: attached_def sample_turn_def sample_phone_def)

theorem provision_justified_witness:
  "consumed (wt_log (watch_devices (sample_turn 9 [sample_phone]) sample_asked)) ''p1'' = 1"
proof -
  from provision_justified [of "sample_turn 9 [sample_phone]" sample_asked]
  obtain es where "wt_log (watch_devices (sample_turn 9 [sample_phone]) sample_asked) = wt_log sample_asked @ es" "consumed es ''p1'' = 1"
    using sample_attached by (auto simp: sample_asked_facts(1))
  then show ?thesis by (simp add: sample_asked_facts)
qed

theorem request_carried_out_once_witness:
  "\<exists>d w. device_life ''host'' d w [''p1''] \<and> consumed (wt_log w) ''p1'' = 1"
proof -
  let ?t = "sample_turn 9 [sample_phone]" and ?d = "requestProvision ''p1'' (newDevices [] False)"
  let ?rep = "the_report ''host'' (watch_devices (sample_turn 0 []) new_watch)" and ?w = "watch_devices ?t sample_asked"
  have l: "device_life ''host'' ?d new_watch [''p1'']"
    using device_life.request [OF device_life.boot [of "''host''" "[]" False], of "''p1''"] by (simp add: newDevices_def)
  have idle: "watch_devices (sample_turn 0 []) new_watch = new_watch" by (simp add: watch_devices_def sample_turn_def new_watch_def)
  have rep: "dr_Acked ?rep = []" unfolding idle by (simp add: the_report_def new_watch_def)
  obtain d2 where r: "report 0 ?rep ?d = (\<lparr>dy_AutoProvision = False, dy_Commands = [\<lparr>dc_Serial = ''p1''\<rparr>]\<rparr>, d2)"
    using rep by (simp add: report_def requestProvision_def newDevices_def Let_def)
  have due: "report_due (sample_turn 0 []) (watch_devices (sample_turn 0 []) new_watch)" unfolding idle by (simp add: report_due_def new_watch_def)
  have "device_life ''host'' d2 sample_asked [''p1'']"
    using device_life.sent [OF l due r, of 0] unfolding idle sample_asked_def .
  from device_life.quiet [OF this, of ?t] device_life.lost [OF this, of ?t 9]
  obtain w where w: "device_life ''host'' d2 w [''p1'']" "wt_log w = wt_log ?w" "wt_ackQueue w = wt_ackQueue ?w"
    by (cases "report_due ?t ?w") (auto simp: watch_end_def forget_heals_def Let_def)
  have "''p1'' \<in> set (wt_ackQueue ?w)"
    using not_placeholder by (simp add: watch_devices_def watch_device_def ready_device_def planDevice_def DuplicateSerials_def sample_turn_def sample_phone_def
        sample_asked_facts Let_def)
  then have "count_list [''p1''] ''p1'' = consumed (wt_log w) ''p1'' + 0"
    using request_carried_out_once [OF w(1), of "''p1''"] w(3) by simp
  then show ?thesis using w(1) by auto
qed

end
