(* ===== verification/Spec2Isabelle.thy ===== *)
theory Spec2Isabelle
  imports Planner Registry Auth Gateway External Pools Catalog Superborg Router Routing BigBrain Placement JobsAdmin Ollama Agent AdminSettings DeviceWatch
begin

text \<open>
  PhoneBorg turns a pile of phones into one cluster that serves language models behind one
  OpenAI-compatible endpoint.  A \<^bold>\<open>node agent\<close> on each phone registers with the \<^bold>\<open>controller\<close>,
  reports its state in heartbeats and runs the model it is told to.  The controller keeps the
  registry of nodes, the catalog of models and the placement of models on nodes, and its
  \<^bold>\<open>gateway\<close> accepts chat requests, chooses a node for each and forwards it.  On top stand pools
  (virtual models over a set of nodes), Super Borg pools (an orchestrator node that delegates
  subtasks), Super Borg jobs (long work in the background), Big Brain pools (one model spread over
  several phones) and a semantic router for requests to the model \<open>auto\<close>.

  \<^bold>\<open>Theories and the code they model\<close>

  \<^item> \<open>Prelude\<close>: conventions, Go's string helpers on byte strings, association lists as Go maps,
    folds that may panic.
  \<^item> \<open>Backend\<close>: a node as the gateway sees it, targets and their admission filter, the resolution of
    a model name (\<^verbatim>\<open>gateway/picker.go\<close>, \<^verbatim>\<open>gateway/targets.go\<close>).
  \<^item> \<open>Picker\<close>: the policies LeastInflight, Spread and Affinity with its table of pins
    (\<^verbatim>\<open>gateway/picker.go\<close>), behind the locale \<open>picker\<close> that the gateway relies on.
  \<^item> \<open>MemPlan\<close>, \<open>DeviceClass\<close>: the memory formula and its degradation search
    (\<^verbatim>\<open>internal/memplan\<close>, \<^verbatim>\<open>node-agent/sizing.go\<close>), device classes and the bandwidth roofline
    (\<^verbatim>\<open>models/classes.go\<close>, \<^verbatim>\<open>models/perf.go\<close>).
  \<^item> \<open>Planner\<close>: the validation of a placement and the planner (\<^verbatim>\<open>models/planner.go\<close>).
  \<^item> \<open>Proto\<close>, \<open>Registry\<close>: the wire types (\<^verbatim>\<open>proto/v0.go\<close>) and the state machine of nodes
    (\<^verbatim>\<open>registry.go\<close>, with the backends built from it, \<^verbatim>\<open>server.go\<close>, \<^verbatim>\<open>perf.go\<close>).
  \<^item> \<open>Auth\<close>: API keys, their file and access control (\<^verbatim>\<open>gateway/auth.go\<close>).
  \<^item> \<open>Gateway\<close>: dispatch, candidates, one forwarded attempt, streams and the failover loop
    (\<^verbatim>\<open>gateway/proxy.go\<close>).
  \<^item> \<open>Ollama\<close>: the Ollama-compatible front end, its documents and its stream adapter
    (\<^verbatim>\<open>gateway/ollama.go\<close>).
  \<^item> \<open>External\<close>: engines outside the cluster, their polls and self-tests (\<^verbatim>\<open>external.go\<close>).
  \<^item> \<open>Pools\<close>, \<open>Routing\<close>: pool definitions, members, status and conflicts; the resolver, the routing
    file and the admin handlers (\<^verbatim>\<open>pools.go\<close>).
  \<^item> \<open>Catalog\<close>: model entries, downloads and sources (\<^verbatim>\<open>models/catalog.go\<close>, \<^verbatim>\<open>download.go\<close>,
    \<^verbatim>\<open>source.go\<close>, \<^verbatim>\<open>gguf.go\<close>).
  \<^item> \<open>Superborg\<close>: choice of the orchestrator, collection of streams, delegation and the answer loop
    (\<^verbatim>\<open>gateway/superborg.go\<close>).
  \<^item> \<open>Router\<close>: the semantic router and its settings (\<^verbatim>\<open>gateway/router.go\<close>, \<^verbatim>\<open>router.go\<close>).
  \<^item> \<open>BigBrain\<close>: the supervisor of the head processes (\<^verbatim>\<open>bigbrain.go\<close>).
  \<^item> \<open>Placement\<close>: replanning, benchmark overrides, what a node is told, and the admin handlers over
    models and placement (\<^verbatim>\<open>placement.go\<close>, \<^verbatim>\<open>models_admin.go\<close>).
  \<^item> \<open>JobOps\<close>, \<open>Jobs\<close>, \<open>JobsAdmin\<close>: one job and its tools; the store and the runner; the admin API
    (\<^verbatim>\<open>gateway/jobs.go\<close>, \<^verbatim>\<open>jobs_admin.go\<close>).
  \<^item> \<open>AdminTokens\<close>, \<open>Usage\<close>, \<open>AdminApi\<close>, \<open>AdminSettings\<close>: the named tokens of the admin API and the check
    before its handlers (\<^verbatim>\<open>admin_tokens.go\<close>), usage accounting and its file (\<^verbatim>\<open>usage.go\<close>), and the
    handlers for settings, draining, keys and the summary (\<^verbatim>\<open>admin.go\<close>) with what they guarantee.
  \<^item> \<open>AgentFiles\<close>, \<open>Agent\<close>: on the phone, the model files with download and eviction, and the manager that
    switches models and joins Big Brain pools (\<^verbatim>\<open>src/node-agent/download.go\<close>, \<^verbatim>\<open>manager.go\<close>,
    \<^verbatim>\<open>runtime.go\<close>, \<^verbatim>\<open>agent.go\<close>).
  \<^item> \<open>Devices\<close>, \<open>DeviceWatch\<close>: phones on USB as the hosts report them to the controller (\<^verbatim>\<open>devices.go\<close>,
    \<^verbatim>\<open>src/proto/devices.go\<close>), and the loop of such a host that provisions them
    (\<^verbatim>\<open>src/provisioner/provision.go\<close>, \<^verbatim>\<open>devices.go\<close>).

  File names are relative to \<^verbatim>\<open>src/controller/\<close> unless they name another directory.

  \<^bold>\<open>How state and operations correspond\<close>

  A struct is a record with the code's field names behind a short prefix, a struct behind a pointer
  that is shared is an entry of a map, an operation under a mutex is one function on the state, and
  operations of several goroutines interleave as the rules of an inductive relation or as the
  functions of a history.  Where the code releases a lock in the middle of an operation (polls,
  downloads, head processes, the job runner, a phone's switch of models), the operation is split into the functions or rules
  between the locks.  Errors are values of a sum; a panic is \<open>None\<close>.  The clock, random ids, the
  results of network calls and of the disk, JSON codecs, hashes and Unicode case tables are arguments.
  A Go map that the code ranges over is an association list in one order, and the theorems hold for
  every order.  Floating point numbers are reals.

  \<^bold>\<open>What the theorems show\<close>

  \<^item> Serving: with any policy and any interleaving of other requests a request is answered, refused or
    gives up without a panic, calls no node twice and only admitted ones, and leaves the in-flight
    counts as they were (\<open>Gateway\<close>); an Ollama answer does not depend on how the gateway's stream is
    split, and its caller is judged as on the OpenAI paths unless a trusted proxy forwards it
    (\<open>Ollama\<close>); sessions stick to their node while the pin is good (\<open>Picker\<close>).
  \<^item> Membership and access: the invariant of the registry over every history; the decision of access
    control for every reachable key store; the life of a key and the round trip of the keys file.
  \<^item> Planning: every row of a plan is justified by a pin, a policy or the default, counting policies
    get exactly their count, the memory search is the search of an explicit list; the stored
    placement never names a model that is gone, and a node is only told what the plan justifies.
  \<^item> Catalog and external nodes: invariants under every interleaving of operations with downloads,
    polls and self-tests; downloads end and resume.
  \<^item> Pools and router: pool requests reach members only, pools never conflict, the routing file round
    trips; the router only reroutes and its settings round trip.
  \<^item> Super Borg, Big Brain, jobs: the answer loop ends within its bounds and emits a well-formed answer;
    one head process per pool, and the supervisor refines an abstract lease contract; the job store's
    invariant with restarts, the runner comes to rest, deleted jobs stay deleted, and the order in
    which parallel subtasks end does not matter.
  \<^item> Administration: a token acts until it is revoked and never after; an update of the settings is applied
    as a whole or refused, and enforced keys stay enforced; a drained node gets nothing more; the counters of
    usage agree with what the gateway served and survive stops and failing writes.
  \<^item> The phone: in every reachable state exactly the active server runs; a phone that has a model to
    serve keeps one through failed switches and evictions; a model file is only replaced by verified
    content, and eviction deletes the oldest files and no more than needed.
  \<^item> Phones on USB: a request to provision a phone is carried out once, if no answer of the controller is
    lost on its way; no phone is provisioned without a request or automatic provisioning after its backoff.

  \<^bold>\<open>Interfaces\<close>

  Locales state what a client relies on and are interpreted on the model's own definitions: \<open>picker\<close>, the
  contract of the policies that the gateway's theorems rest on, with an interpretation for each of
  LeastInflight, Spread and Affinity; \<open>authenticator\<close>, what the gateway may assume of a decision on a
  credential, for the key store and for the access state around it; and \<open>head_law\<close>, the laws of the
  supervisor's operations on its head processes, for leases and for the processes started.

  \<^bold>\<open>Bounds and fuel\<close>

  \<^item> The attempts of a request take one environment each from a list; the bound is the number of
    candidates, and the theorem covers every list that is long enough.
  \<^item> \<open>free_name\<close> (numbering of document names) takes as much fuel as there are names taken, which
    \<open>free_name_total\<close> shows is enough.
  \<^item> The halving of the context in the memory search ends by a measure; the loop over download
    attempts is bounded by the code's constant.
  \<^item> The job runner has no fuel: \<open>rest_measure\<close> goes down in a lexicographic order with every step.

  \<^bold>\<open>Not modelled\<close>

  The command line tool \<open>pbctl\<close> and the entry points (flags, printing, HTTP calls), prewarm and probe
  requests, the dashboard and the route table of the admin API, Prometheus counters other than those that state what is modelled,
  the token analyzer, firmware images, the scripted multi-model benchmark, the
  commands the provisioner runs over adb, and of the node agent its processes, its benchmark and its readings of \<^verbatim>\<open>/proc\<close> and
  \<^verbatim>\<open>/sys\<close>: they are input and output around the modelled components, or scripts of external commands,
  whose behaviour is not in the repository.
\<close>

end
